(* ===== verification/Prelude.thy ===== *)
theory Prelude
  imports
    Main
    "HOL-Library.Word"
    "HOL-Library.Finite_Map"
    "HOL-Library.Sublist"
    "HOL-Library.Char_ord"
    "HOL-Library.List_Lexorder"
begin

text \<open>
  Shared vocabulary of the development.

  Go values are modelled as follows. A Go \<open>string\<close> is a list of bytes, which is what
  HOL's \<open>string\<close> (a list of 8-bit characters) is; a \<open>[]byte\<close> is a list of 8-bit words.
  Both are ordered lexicographically by their bytes, as Go's \<open><\<close>, \<open>sort.Strings\<close> and
  \<open>bytes.Compare\<close> order them. A Go \<open>map\<close> is a finite map, so that the unspecified
  iteration order of \<open>range\<close> is not an artefact of the model. An \<open>error\<close> result is an
  option (\<open>None\<close> is \<open>nil\<close>), and a value-or-error result is a sum whose left side is the
  error. Unsigned counters keep their width as words.

  The theory also holds the parts of the Go standard library the source relies on for
  strings, and the general lemmas the components share.
\<close>

named_theorems vv_simps \<open>pointwise characterisations of the version-vector operations\<close>

type_synonym byte = "8 word"
type_synonym bytes = "byte list"
type_synonym 'e err = "'e option"

abbreviation ok :: "'e err" where
  "ok \<equiv> None"

section \<open>Go maps\<close>

text \<open>Go's \<open>m[k]\<close>: the zero value when the key is absent.\<close>

definition mget :: "('k, 'v::zero) fmap \<Rightarrow> 'k \<Rightarrow> 'v" where
  "mget m k = (case fmlookup m k of None \<Rightarrow> 0 | Some v \<Rightarrow> v)"

lemma mget_empty [simp]: "mget fmempty k = 0"
  by (simp add: mget_def)

lemma mget_upd [simp]: "mget (fmupd k v m) k' = (if k' = k then v else mget m k')"
  by (simp add: mget_def)

lemma mget_notin_dom [simp]: "k |\<notin>| fmdom m \<Longrightarrow> mget m k = 0"
  by (simp add: mget_def fmdom_notD)

lemma mget_add:
  "mget (m ++\<^sub>f n) k = (if k |\<in>| fmdom n then mget n k else mget m k)"
  by (auto simp: mget_def)

lemma mget_filter: "mget (fmfilter P m) k = (if P k then mget m k else 0)"
  by (simp add: mget_def)

lemma fmlookup_fmap_of_list_eq [simp]: "fmlookup (fmap_of_list xs) k = map_of xs k"
  by (simp add: fmlookup_of_list)

lemma mget_nonzero_dom: "mget m k \<noteq> 0 \<Longrightarrow> k |\<in>| fmdom m"
  by (rule ccontr) simp

section \<open>Strings\<close>

text \<open>\<open>strings.HasPrefix\<close>.\<close>

definition has_prefix :: "string \<Rightarrow> string \<Rightarrow> bool" where
  "has_prefix s p \<longleftrightarrow> take (length p) s = p"

lemma has_prefix_append [simp]: "has_prefix (p @ s) p"
  by (simp add: has_prefix_def)

lemma has_prefix_iff: "has_prefix s p \<longleftrightarrow> (\<exists>t. s = p @ t)"
  by (metis append_eq_conv_conj append_take_drop_id has_prefix_def)

text \<open>\<open>strings.HasSuffix\<close>.\<close>

definition has_suffix :: "string \<Rightarrow> string \<Rightarrow> bool" where
  "has_suffix s p \<longleftrightarrow> length p \<le> length s \<and> drop (length s - length p) s = p"

text \<open>\<open>strings.Split(s, sep)\<close> for a one-byte separator: never an empty list.\<close>

fun split_on :: "'a \<Rightarrow> 'a list \<Rightarrow> 'a list list" where
  "split_on c [] = [[]]"
| "split_on c (x # xs) =
     (if x = c then [] # split_on c xs
      else (case split_on c xs of [] \<Rightarrow> [[x]] | e # es \<Rightarrow> (x # e) # es))"

text \<open>\<open>strings.Join(elems, sep)\<close> for a one-byte separator.\<close>

fun join_on :: "'a \<Rightarrow> 'a list list \<Rightarrow> 'a list" where
  "join_on c [] = []"
| "join_on c [e] = e"
| "join_on c (e # e' # es) = e @ c # join_on c (e' # es)"

lemma split_on_not_Nil [simp]: "split_on c xs \<noteq> []"
  by (induction xs) (auto split: list.splits)

lemma split_on_elem: "e \<in> set (split_on c xs) \<Longrightarrow> c \<notin> set e"
  by (induction xs arbitrary: e) (auto split: list.splits if_splits)

lemma split_on_subset: "e \<in> set (split_on c xs) \<Longrightarrow> set e \<subseteq> set xs"
  by (induction xs arbitrary: e) (fastforce split: list.splits if_splits)+

lemma join_on_Cons: "es \<noteq> [] \<Longrightarrow> join_on c (e # es) = e @ c # join_on c es"
  by (cases es) auto

lemma join_on_Cons_Cons: "join_on c ((x # e) # es) = x # join_on c (e # es)"
  by (cases es) auto

lemma join_split [simp]: "join_on c (split_on c xs) = xs"
  by (induction xs) (auto simp: join_on_Cons join_on_Cons_Cons split: list.splits)

lemma split_on_single: "c \<notin> set xs \<Longrightarrow> split_on c xs = [xs]"
  by (induction xs) auto

lemma split_on_append: "c \<notin> set e \<Longrightarrow> split_on c (e @ c # xs) = e # split_on c xs"
  by (induction e) auto

lemma split_join:
  "es \<noteq> [] \<Longrightarrow> (\<And>e. e \<in> set es \<Longrightarrow> c \<notin> set e) \<Longrightarrow> split_on c (join_on c es) = es"
  by (induction c es rule: join_on.induct) (auto simp: split_on_single split_on_append)

text \<open>\<open>strings.IndexByte\<close> and \<open>strings.LastIndexByte\<close>, with \<open>None\<close> for \<open>-1\<close>.\<close>

fun index_byte :: "'a list \<Rightarrow> 'a \<Rightarrow> nat option" where
  "index_byte [] c = None"
| "index_byte (x # xs) c = (if x = c then Some 0 else map_option Suc (index_byte xs c))"

fun last_index_byte :: "'a list \<Rightarrow> 'a \<Rightarrow> nat option" where
  "last_index_byte [] c = None"
| "last_index_byte (x # xs) c =
     (case last_index_byte xs c of
        Some i \<Rightarrow> Some (Suc i)
      | None \<Rightarrow> if x = c then Some 0 else None)"

lemma index_byte_None: "index_byte xs c = None \<longleftrightarrow> c \<notin> set xs"
  by (induction xs) auto

lemma last_index_byte_Some:
  "last_index_byte xs c = Some i \<Longrightarrow> i < length xs \<and> xs ! i = c \<and> c \<notin> set (drop (Suc i) xs)"
proof (induction xs arbitrary: i)
  case (Cons x xs)
  have none: "last_index_byte xs c = None \<Longrightarrow> c \<notin> set xs"
    by (induction xs) (auto split: option.splits if_splits)
  show ?case
    using Cons none by (auto split: option.splits if_splits)
qed simp

text \<open>The ASCII part of \<open>strings.ToUpper\<close>.\<close>

definition upper_char :: "char \<Rightarrow> char" where
  "upper_char c = (let n = of_char c :: nat in
     if 97 \<le> n \<and> n \<le> 122 then char_of (n - 32) else c)"

definition to_upper :: "string \<Rightarrow> string" where
  "to_upper s = map upper_char s"

section \<open>Filtering options over lists\<close>

text \<open>The first error of a list of checks, in order; \<open>nil\<close> when every check passes.\<close>

fun first_err :: "'e err list \<Rightarrow> 'e err" where
  "first_err [] = ok"
| "first_err (None # es) = first_err es"
| "first_err (Some e # es) = Some e"

lemma find_snoc:
  "find P (xs @ [y]) = (case find P xs of None \<Rightarrow> if P y then Some y else None | Some x \<Rightarrow> Some x)"
  by (induction xs) auto

lemma find_mem: "find P xs = Some x \<Longrightarrow> x \<in> set xs \<and> P x"
  by (induction xs) (auto split: if_splits)

lemma first_err_ok [simp]: "first_err es = ok \<longleftrightarrow> (\<forall>e \<in> set es. e = ok)"
  by (induction es rule: first_err.induct) auto

section \<open>Finite maps built from ordered key lists\<close>

lemma set_map_filter: "set (List.map_filter f xs) = {y. \<exists>x \<in> set xs. f x = Some y}"
  by (induction xs) (auto simp: map_filter_simps split: option.splits)

lemma map_of_map_filter:
  assumes "inj f"
  shows "map_of (List.map_filter (\<lambda>p. map_option (\<lambda>v. (f p, g v)) (m p)) ps) (f p) =
           (if p \<in> set ps then map_option g (m p) else None)"
proof (induction ps)
  case Nil
  show ?case by (simp add: map_filter_simps)
next
  case (Cons q ps)
  show ?case
  proof (cases "m q")
    case None
    then show ?thesis using Cons by (auto simp: map_filter_simps)
  next
    case (Some v)
    have "f q = f p \<longleftrightarrow> q = p" using assms by (simp add: inj_eq)
    then show ?thesis using Some Cons by (auto simp: map_filter_simps)
  qed
qed

lemma map_of_map_filter_None:
  assumes "\<And>p. f p \<noteq> k"
  shows "map_of (List.map_filter (\<lambda>p. map_option (\<lambda>v. (f p, g v)) (m p)) ps) k = None"
  using assms by (induction ps) (auto simp: map_filter_simps split: option.splits)

lemma fold_fmupd_lookup:
  "fmlookup (fold (\<lambda>r. fmupd (f r) (g r)) rs m) k =
     (case find (\<lambda>r. f r = k) (rev rs) of Some r \<Rightarrow> Some (g r) | None \<Rightarrow> fmlookup m k)"
  by (induction rs arbitrary: m) (auto simp: find_snoc split: option.splits)

lemma find_NoneD: "find P xs = None \<Longrightarrow> x \<in> set xs \<Longrightarrow> \<not> P x"
  by (simp add: find_None_iff)

section \<open>Invariants of a step relation\<close>

text \<open>The contract between a state machine and its invariant.\<close>

locale kept_by_steps =
  fixes step :: "'s \<Rightarrow> 's \<Rightarrow> bool" and inv :: "'s \<Rightarrow> bool"
  assumes step_keeps: "step x y \<Longrightarrow> inv x \<Longrightarrow> inv y"
begin

lemma reachable: "step\<^sup>*\<^sup>* x y \<Longrightarrow> inv x \<Longrightarrow> inv y"
  by (induction rule: rtranclp_induct) (auto intro: step_keeps)

end

end
