(* ===== verification/VersionVector.thy ===== *)
theory VersionVector
  imports Prelude
begin

text \<open>
  The version-vector algebra of \<^verbatim>\<open>internal/sync/reconcile.go\<close> over
  \<^verbatim>\<open>protocol.VersionVector\<close> (\<^verbatim>\<open>map[string]uint64\<close>): \<open>Equal\<close>, \<open>Dominates\<close>,
  \<open>Concurrent\<close>, \<open>Merge\<close> and \<open>Bump\<close>. A counter is a 64-bit word, so \<open>Bump\<close> wraps at
  \<open>2^64\<close> as the Go code does.

  The lemmas characterise each operation pointwise, and the interpretation of the locale
  \<open>version_algebra\<close> shows that the operations form a partial order with joins, which is
  all the reconciler's proofs use.
\<close>

section \<open>The operations\<close>

type_synonym version_vector = "(string, 64 word) fmap"

definition Equal :: "version_vector \<Rightarrow> version_vector \<Rightarrow> bool" where
  "Equal a b \<longleftrightarrow>
     fBall (fmdom a) (\<lambda>k. mget b k = mget a k) \<and> fBall (fmdom b) (\<lambda>k. mget a k = mget b k)"

definition Dominates :: "version_vector \<Rightarrow> version_vector \<Rightarrow> bool" where
  "Dominates a b \<longleftrightarrow>
     \<not> fBex (fmdom a) (\<lambda>k. mget a k < mget b k) \<and>
     \<not> fBex (fmdom b) (\<lambda>k. k |\<notin>| fmdom a \<and> mget a k < mget b k) \<and>
     fBex (fmdom a) (\<lambda>k. mget b k < mget a k)"

definition Concurrent :: "version_vector \<Rightarrow> version_vector \<Rightarrow> bool" where
  "Concurrent a b \<longleftrightarrow> \<not> Equal a b \<and> \<not> Dominates a b \<and> \<not> Dominates b a"

text \<open>
  Each key of \<open>b\<close> is visited once, so the test \<open>v > out[k]\<close> reads the counter copied
  from \<open>a\<close>: the second loop adds exactly the entries of \<open>b\<close> that exceed those of \<open>a\<close>.
\<close>

definition Merge :: "version_vector \<Rightarrow> version_vector \<Rightarrow> version_vector" where
  "Merge a b = a ++\<^sub>f fmfilter (\<lambda>k. mget a k < mget b k) b"

definition Bump :: "version_vector \<Rightarrow> string \<Rightarrow> version_vector" where
  "Bump v nodeID = fmupd nodeID (mget v nodeID + 1) v"

section \<open>Pointwise characterisations\<close>

lemma Equal_iff [vv_simps]: "Equal a b \<longleftrightarrow> (\<forall>k. mget a k = mget b k)"
proof
  assume e: "Equal a b"
  show "\<forall>k. mget a k = mget b k"
  proof
    fix k
    consider "k |\<in>| fmdom a" | "k |\<in>| fmdom b" | "k |\<notin>| fmdom a" "k |\<notin>| fmdom b" by blast
    then show "mget a k = mget b k"
    proof cases
      case 1
      with e have "mget b k = mget a k" unfolding Equal_def by blast
      then show ?thesis by (rule sym)
    next
      case 2
      with e show ?thesis unfolding Equal_def by blast
    qed simp
  qed
qed (simp add: Equal_def)

lemma Dominates_iff [vv_simps]:
  "Dominates a b \<longleftrightarrow> (\<forall>k. mget b k \<le> mget a k) \<and> (\<exists>k. mget b k < mget a k)"
proof
  assume d: "Dominates a b"
  have "mget b k \<le> mget a k" for k
    using d by (cases "k |\<in>| fmdom a"; cases "k |\<in>| fmdom b")
      (auto simp: Dominates_def not_less)
  with d show "(\<forall>k. mget b k \<le> mget a k) \<and> (\<exists>k. mget b k < mget a k)"
    by (auto simp: Dominates_def)
next
  assume r: "(\<forall>k. mget b k \<le> mget a k) \<and> (\<exists>k. mget b k < mget a k)"
  then obtain k where k: "mget b k < mget a k" by blast
  then have "k |\<in>| fmdom a" by (intro mget_nonzero_dom) auto
  with r k show "Dominates a b"
    by (auto simp: Dominates_def not_less)
qed

lemma mget_Merge [vv_simps, simp]: "mget (Merge a b) k = max (mget a k) (mget b k)"
  by (cases "k |\<in>| fmdom b") (auto simp: Merge_def mget_add mget_filter max_def)

lemma mget_Bump [vv_simps, simp]:
  "mget (Bump v n) k = (if k = n then mget v n + 1 else mget v k)"
  by (simp add: Bump_def)

section \<open>The order the reconciler relies on\<close>

text \<open>
  What a client of the algebra may assume: a strict order up to an equivalence, a join,
  and an increment that moves a vector strictly up where its counter does not wrap.
  \<open>room v n\<close> says that node \<open>n\<close>'s counter in \<open>v\<close> can still be incremented.
\<close>

locale version_algebra =
  fixes eqv :: "'v \<Rightarrow> 'v \<Rightarrow> bool"
    and dom :: "'v \<Rightarrow> 'v \<Rightarrow> bool"
    and merge :: "'v \<Rightarrow> 'v \<Rightarrow> 'v"
    and bump :: "'v \<Rightarrow> 'n \<Rightarrow> 'v"
    and room :: "'v \<Rightarrow> 'n \<Rightarrow> bool"
  assumes eqv_refl: "eqv a a"
    and eqv_sym: "eqv a b \<Longrightarrow> eqv b a"
    and eqv_trans: "eqv a b \<Longrightarrow> eqv b c \<Longrightarrow> eqv a c"
    and dom_irrefl: "eqv a b \<Longrightarrow> \<not> dom a b"
    and dom_trans: "dom a b \<Longrightarrow> dom b c \<Longrightarrow> dom a c"
    and dom_eqv: "eqv a a' \<Longrightarrow> eqv b b' \<Longrightarrow> dom a b \<Longrightarrow> dom a' b'"
    and merge_upper: "eqv (merge a b) a \<or> dom (merge a b) a"
    and merge_comm: "eqv (merge a b) (merge b a)"
    and merge_least: "eqv c a \<or> dom c a \<Longrightarrow> eqv c b \<or> dom c b \<Longrightarrow>
          eqv c (merge a b) \<or> dom c (merge a b)"
    and bump_dom: "room v n \<Longrightarrow> dom (bump v n) v"
    and bump_apart: "m \<noteq> n \<Longrightarrow> room v m \<Longrightarrow> room v n \<Longrightarrow> \<not> dom (bump v m) (bump v n)"
begin

definition geq :: "'v \<Rightarrow> 'v \<Rightarrow> bool" where
  "geq a b \<longleftrightarrow> eqv a b \<or> dom a b"

definition concurrent :: "'v \<Rightarrow> 'v \<Rightarrow> bool" where
  "concurrent a b \<longleftrightarrow> \<not> eqv a b \<and> \<not> dom a b \<and> \<not> dom b a"

lemma dom_asym: "dom a b \<Longrightarrow> \<not> dom b a"
  using dom_trans dom_irrefl eqv_refl by blast

lemma geq_trans: "geq a b \<Longrightarrow> geq b c \<Longrightarrow> geq a c"
  unfolding geq_def by (meson dom_eqv dom_trans eqv_refl eqv_sym eqv_trans)

lemma geq_dom_trans: "dom a b \<Longrightarrow> geq b c \<Longrightarrow> dom a c"
  unfolding geq_def by (meson dom_eqv dom_trans eqv_refl)

lemma exactly_one:
  "(eqv a b \<and> \<not> dom a b \<and> \<not> dom b a \<and> \<not> concurrent a b) \<or>
   (\<not> eqv a b \<and> dom a b \<and> \<not> dom b a \<and> \<not> concurrent a b) \<or>
   (\<not> eqv a b \<and> \<not> dom a b \<and> dom b a \<and> \<not> concurrent a b) \<or>
   (\<not> eqv a b \<and> \<not> dom a b \<and> \<not> dom b a \<and> concurrent a b)"
  using dom_asym dom_irrefl eqv_sym concurrent_def by blast

lemma merge_geq: "geq (merge a b) a" "geq (merge a b) b"
  using merge_upper geq_def apply blast
  by (metis geq_def geq_trans merge_comm merge_upper)

text \<open>A conflict resolution (merge, then a local bump) is above both sides.\<close>

lemma resolution_dominates:
  assumes "room (merge a b) n"
  shows "dom (bump (merge a b) n) a" "dom (bump (merge a b) n) b"
  using assms bump_dom geq_dom_trans merge_geq by blast+

text \<open>Two nodes resolving the same conflict produce concurrent versions.\<close>

lemma resolutions_concurrent:
  assumes "m \<noteq> n" "room v m" "room v n" "\<not> eqv (bump v m) (bump v n)"
  shows "concurrent (bump v m) (bump v n)"
  using assms bump_apart concurrent_def by metis

end

definition has_room :: "version_vector \<Rightarrow> string \<Rightarrow> bool" where
  "has_room v n \<longleftrightarrow> mget v n \<noteq> - 1"

lemma word_less_succ: "(w :: 64 word) \<noteq> - 1 \<Longrightarrow> w < w + 1"
  using inc_less_eq_triv_imp [of w] by (auto simp: not_le [symmetric])

lemma Equal_or_Dominates [vv_simps]:
  "Equal a b \<or> Dominates a b \<longleftrightarrow> (\<forall>k. mget b k \<le> mget a k)"
  unfolding Equal_iff Dominates_iff by (metis order.order_iff_strict order_refl)

interpretation vv: version_algebra Equal Dominates Merge Bump has_room
proof
  show "Dominates (Bump v n) v" if "has_room v n" for v n
    using that by (auto simp: Dominates_iff has_room_def less_imp_le word_less_succ)
  show "\<not> Dominates (Bump v m) (Bump v n)" if "m \<noteq> n" "has_room v m" "has_room v n" for v m n
    using that word_less_succ by (auto simp: Dominates_iff has_room_def not_le intro!: exI [of _ n])
  show "Dominates a c" if "Dominates a b" "Dominates b c" for a b c
    using that unfolding Dominates_iff by (meson order.strict_trans1 order_trans)
  show "Dominates a' b'" if "Equal a a'" "Equal b b'" "Dominates a b" for a a' b b'
    using that unfolding Dominates_iff Equal_iff by metis
  show "Equal (Merge a b) (Merge b a)" for a b
    by (simp add: Equal_iff max.commute)
  show "Equal c (Merge a b) \<or> Dominates c (Merge a b)"
    if "Equal c a \<or> Dominates c a" "Equal c b \<or> Dominates c b" for a b c
    using that unfolding Equal_or_Dominates by simp
qed (simp_all add: Equal_or_Dominates, auto simp: Equal_iff Dominates_iff)

section \<open>Properties of the algebra\<close>

lemma Concurrent_concurrent: "Concurrent = vv.concurrent"
  by (intro ext) (simp add: Concurrent_def vv.concurrent_def)

text \<open>
  Any two version vectors stand in exactly one of the four relations the reconciler
  switches on: equal, first dominates, second dominates, concurrent. So the switch in
  \<^verbatim>\<open>reconcileOne\<close> is exhaustive and its branch order does not matter.
\<close>

theorem version_order_exactly_one:
  "count_list [Equal a b, Dominates a b, Dominates b a, Concurrent a b] True = 1"
  using vv.exactly_one [of a b] by (auto simp: Concurrent_concurrent)

text \<open>
  \<^verbatim>\<open>Merge\<close> is the join of the version order: it is at or above both arguments, any
  vector at or above both is at or above it, and up to \<^verbatim>\<open>Equal\<close> it is commutative,
  associative and idempotent. Every counter of the result is the larger of the two.
\<close>

theorem merge_is_join:
  "Equal (Merge a b) (Merge b a) \<and>
   Equal (Merge (Merge a b) c) (Merge a (Merge b c)) \<and>
   Equal (Merge a a) a \<and>
   (Equal (Merge a b) a \<or> Dominates (Merge a b) a) \<and>
   ((Equal c a \<or> Dominates c a) \<and> (Equal c b \<or> Dominates c b)
      \<longleftrightarrow> (Equal c (Merge a b) \<or> Dominates c (Merge a b))) \<and>
   mget (Merge a b) k = max (mget a k) (mget b k)"
  unfolding Equal_or_Dominates by (auto simp: Equal_iff ac_simps)

text \<open>
  C20. \<^verbatim>\<open>Bump\<close> moves a vector strictly up exactly when the counter is not the largest
  64-bit value; at that value the counter wraps to 0 and the old vector dominates the
  bumped one. All other counters are untouched.
\<close>

theorem bump_dominates_iff:
  "(Dominates (Bump v n) v \<longleftrightarrow> mget v n \<noteq> - 1) \<and>
   (Dominates v (Bump v n) \<longleftrightarrow> mget v n = - 1) \<and>
   (mget (Bump v n) k = (if k = n then mget v n + 1 else mget v k))"
proof (cases "mget v n = - 1")
  case True
  moreover have "(0 :: 64 word) < - 1" by code_simp
  ultimately have "Dominates v (Bump v n)"
    by (auto simp: Dominates_iff intro!: exI [of _ n])
  with True show ?thesis using vv.dom_asym by auto
next
  case False
  then have "Dominates (Bump v n) v" by (simp add: vv.bump_dom has_room_def)
  with False show ?thesis using vv.dom_asym by auto
qed

end
