(* ===== verification/GoText.thy ===== *)
theory GoText
  imports Prelude
begin

text \<open>
  The parts of Go's \<^verbatim>\<open>unicode/utf8\<close>, \<^verbatim>\<open>unicode\<close>, \<^verbatim>\<open>path\<close>, \<^verbatim>\<open>path/filepath\<close>
  (on Unix) and \<^verbatim>\<open>encoding/hex\<close> that the program uses on untrusted text: rune iteration
  over a string (\<open>for _, r := range s\<close>), \<open>unicode.IsControl\<close>, \<open>path.Clean\<close>,
  \<open>path.Split\<close>, \<open>filepath.Join\<close>, \<open>filepath.IsAbs\<close> and \<open>hex.EncodeToString\<close>.
  These are language and library semantics, so they have no counterpart under src/; the
  components build on them.
\<close>

section \<open>Runes\<close>

definition rune_error :: nat where
  "rune_error = 0xFFFD"

definition utf8_width :: "nat \<Rightarrow> nat" where
  "utf8_width x =
     (if x < 0x80 then 1
      else if 0xC2 \<le> x \<and> x \<le> 0xDF then 2
      else if 0xE0 \<le> x \<and> x \<le> 0xEF then 3
      else if 0xF0 \<le> x \<and> x \<le> 0xF4 then 4
      else 0)"

definition utf8_lo :: "nat \<Rightarrow> nat" where
  "utf8_lo x = (if x = 0xE0 then 0xA0 else if x = 0xF0 then 0x90 else 0x80)"

definition utf8_hi :: "nat \<Rightarrow> nat" where
  "utf8_hi x = (if x = 0xED then 0x9F else if x = 0xF4 then 0x8F else 0xBF)"

definition is_cont :: "nat \<Rightarrow> bool" where
  "is_cont b \<longleftrightarrow> 0x80 \<le> b \<and> b \<le> 0xBF"

text \<open>\<open>utf8.DecodeRuneInString\<close>: the rune and how many bytes it takes; an invalid
  sequence yields \<open>U+FFFD\<close> and takes one byte.\<close>

definition decode_rune :: "nat list \<Rightarrow> nat \<times> nat" where
  "decode_rune bs = (case bs of
       [] \<Rightarrow> (rune_error, 0)
     | x # rest \<Rightarrow>
        (let w = utf8_width x in
         if w = 1 then (x, 1)
         else if w = 0 \<or> length rest < w - 1 then (rune_error, 1)
         else if \<not> (utf8_lo x \<le> rest ! 0 \<and> rest ! 0 \<le> utf8_hi x) then (rune_error, 1)
         else if w = 2 then ((x mod 32) * 64 + rest ! 0 mod 64, 2)
         else if \<not> is_cont (rest ! 1) then (rune_error, 1)
         else if w = 3 then ((x mod 16) * 4096 + (rest ! 0 mod 64) * 64 + rest ! 1 mod 64, 3)
         else if \<not> is_cont (rest ! 2) then (rune_error, 1)
         else ((x mod 8) * 262144 + (rest ! 0 mod 64) * 4096 + (rest ! 1 mod 64) * 64
                + rest ! 2 mod 64, 4)))"

lemma decode_rune_width: "bs \<noteq> [] \<Longrightarrow> 1 \<le> snd (decode_rune bs)"
  by (auto simp: decode_rune_def Let_def split: list.splits)

function runes :: "nat list \<Rightarrow> nat list" where
  "runes [] = []"
| "runes (x # xs) =
     fst (decode_rune (x # xs)) # runes (drop (snd (decode_rune (x # xs)) - 1) xs)"
  by pat_completeness auto
termination
  by (relation "measure length") (auto simp: le_imp_less_Suc)

text \<open>\<open>for _, r := range s\<close>.\<close>

definition string_runes :: "string \<Rightarrow> nat list" where
  "string_runes s = runes (map of_char s)"

definition is_control :: "nat \<Rightarrow> bool" where
  "is_control r \<longleftrightarrow> r < 0x20 \<or> (0x7F \<le> r \<and> r < 0xA0)"

lemma runes_ascii: "\<forall>x \<in> set xs. x < 128 \<Longrightarrow> runes xs = xs"
  by (induction xs) (auto simp: decode_rune_def utf8_width_def)

text \<open>An ASCII byte is always a rune of its own: no multi-byte sequence contains one.\<close>

lemma utf8_lo_ge: "128 \<le> utf8_lo x"
  by (simp add: utf8_lo_def)

lemma decode_rune_skips_no_ascii:
  assumes "i < snd (decode_rune (x # xs)) - 1" "i < length xs"
  shows "128 \<le> xs ! i"
proof -
  have "i = 0 \<or> i = 1 \<or> i = 2"
    using assms(1) by (auto simp: decode_rune_def Let_def split: if_splits)
  then show ?thesis
    using assms(1) utf8_lo_ge [of x]
    by (auto simp: decode_rune_def Let_def is_cont_def split: if_splits)
qed

lemma ascii_in_runes: "b < 128 \<Longrightarrow> b \<in> set bs \<Longrightarrow> b \<in> set (runes bs)"
proof (induction bs rule: runes.induct)
  case (2 x xs)
  let ?w = "snd (decode_rune (x # xs)) - 1"
  show ?case
  proof (cases "b = x")
    case True
    with 2 show ?thesis by (simp add: decode_rune_def utf8_width_def)
  next
    case False
    with 2 obtain i where i: "i < length xs" "xs ! i = b" by (auto simp: in_set_conv_nth)
    have "\<not> i < ?w"
      using decode_rune_skips_no_ascii [of i x xs] i 2(2) by auto
    then have "b \<in> set (drop ?w xs)"
      using i by (auto simp: in_set_conv_nth intro!: exI [of _ "i - ?w"])
    with 2 show ?thesis by simp
  qed
qed simp

section \<open>Paths\<close>

abbreviation slash :: char where
  "slash \<equiv> CHR ''/''"

text \<open>\<open>path.Split\<close>: the directory up to and including the last slash, and the rest.\<close>

definition path_split :: "string \<Rightarrow> string \<times> string" where
  "path_split p = (case last_index_byte p slash of
       None \<Rightarrow> ([], p)
     | Some i \<Rightarrow> (take (Suc i) p, drop (Suc i) p))"

text \<open>\<open>path.Clean\<close> (and \<open>filepath.Clean\<close> on Unix). The accumulator holds the elements
  kept so far, last first.\<close>

fun clean_elems :: "bool \<Rightarrow> string list \<Rightarrow> string list \<Rightarrow> string list" where
  "clean_elems rooted acc [] = rev acc"
| "clean_elems rooted acc (e # es) =
     (if e = [] \<or> e = ''.'' then clean_elems rooted acc es
      else if e = ''..'' then
        (case acc of
           a # as \<Rightarrow> if a = ''..'' then clean_elems rooted (e # acc) es
                     else clean_elems rooted as es
         | [] \<Rightarrow> if rooted then clean_elems rooted [] es else clean_elems rooted [e] es)
      else clean_elems rooted (e # acc) es)"

definition path_clean :: "string \<Rightarrow> string" where
  "path_clean p =
     (if p = [] then ''.''
      else let rooted = has_prefix p ''/'';
               out = join_on slash (clean_elems rooted [] (split_on slash p))
           in if rooted then slash # out else if out = [] then ''.'' else out)"

definition is_abs :: "string \<Rightarrow> bool" where
  "is_abs p \<longleftrightarrow> has_prefix p ''/''"

text \<open>\<open>filepath.Join\<close>: leading empty elements are skipped, the rest is joined and cleaned.\<close>

definition path_join :: "string list \<Rightarrow> string" where
  "path_join elems = (case dropWhile (\<lambda>e. e = []) elems of
       [] \<Rightarrow> []
     | es \<Rightarrow> path_clean (join_on slash es))"

text \<open>A path element that \<open>Clean\<close> leaves where it is.\<close>

definition plain_elem :: "string \<Rightarrow> bool" where
  "plain_elem e \<longleftrightarrow> e \<noteq> [] \<and> e \<noteq> ''.'' \<and> e \<noteq> ''..''"

lemma clean_elems_plain:
  "\<forall>e \<in> set es. plain_elem e \<Longrightarrow> clean_elems rooted acc es = rev acc @ es"
  by (induction es arbitrary: acc) (auto simp: plain_elem_def)

lemma clean_elems_rooted_plain:
  "\<forall>e \<in> set acc. plain_elem e \<Longrightarrow> e \<in> set (clean_elems True acc es) \<Longrightarrow> plain_elem e"
  by (induction "True" acc es rule: clean_elems.induct)
    (auto simp: plain_elem_def split: list.splits if_splits)

lemma clean_elems_subset:
  "set (clean_elems rooted acc es) \<subseteq> set acc \<union> set es"
  by (induction rooted acc es rule: clean_elems.induct) (auto split: list.splits if_splits)

lemma clean_elems_append:
  "\<forall>e \<in> set es. plain_elem e \<Longrightarrow>
   clean_elems rooted acc (ds @ es) = clean_elems rooted acc ds @ es"
  by (induction rooted acc ds rule: clean_elems.induct)
    (auto simp: clean_elems_plain split: list.splits)

section \<open>Hexadecimal\<close>

definition hex_digit :: "nat \<Rightarrow> char" where
  "hex_digit n = (if n < 10 then char_of (48 + n) else char_of (87 + n))"

definition hex_byte :: "byte \<Rightarrow> string" where
  "hex_byte b = [hex_digit (unat b div 16), hex_digit (unat b mod 16)]"

text \<open>\<open>hex.EncodeToString\<close>.\<close>

definition hex_encode :: "bytes \<Rightarrow> string" where
  "hex_encode bs = concat (map hex_byte bs)"

definition is_lower_hex :: "char \<Rightarrow> bool" where
  "is_lower_hex c \<longleftrightarrow> (let n = of_char c :: nat in (48 \<le> n \<and> n \<le> 57) \<or> (97 \<le> n \<and> n \<le> 102))"

lemma length_hex_encode [simp]: "length (hex_encode bs) = 2 * length bs"
  by (induction bs) (auto simp: hex_encode_def hex_byte_def)

lemma hex_digit_lower_hex: "n < 16 \<Longrightarrow> is_lower_hex (hex_digit n)"
  by (auto simp: hex_digit_def is_lower_hex_def Let_def)

lemma hex_encode_lower_hex: "c \<in> set (hex_encode bs) \<Longrightarrow> is_lower_hex c"
proof -
  have "unat (b :: byte) < 2 ^ LENGTH(8)" for b
    by (rule unsigned_less)
  then have "unat (b :: byte) div 16 < 16" for b
    by (simp add: less_mult_imp_div_less)
  then show "c \<in> set (hex_encode bs) \<Longrightarrow> is_lower_hex c"
    by (auto simp: hex_encode_def hex_byte_def intro!: hex_digit_lower_hex)
qed

section \<open>Bytes of a string\<close>

definition text_bytes :: "string \<Rightarrow> bytes" where
  "text_bytes s = map (\<lambda>c. of_nat (of_char c)) s"

end
