(* ===== verification/Wire.thy ===== *)
theory Wire
  imports VersionVector GoText
begin

text \<open>
  The message types of \<^verbatim>\<open>internal/protocol/message.go\<close> and the semantic validation every
  received post-handshake message goes through (\<open>ValidateMessage\<close> and its helpers).

  Each Go struct is a record with the struct's fields, and the \<open>any\<close> that
  \<open>ValidateMessage\<close> switches on is the datatype \<open>message\<close>. An error is a value of
  \<open>wire_err\<close>, one constructor per error the source builds; where the source's error
  depends on the iteration order of a map, the constructor carries no argument.
\<close>

unbundle bit_operations_syntax

section \<open>Message structs\<close>

type_synonym file_type = string

definition FileTypeFile :: file_type where "FileTypeFile = ''file''"
definition FileTypeDir :: file_type where "FileTypeDir = ''dir''"
definition FileTypeSymlink :: file_type where "FileTypeSymlink = ''symlink''"

record FileInfo =
  fi_RelPath :: string
  fi_Type :: file_type
  fi_Size :: int
  fi_MTimeNS :: int
  fi_Mode :: "32 word"
  fi_SHA256 :: bytes
  fi_Version :: version_vector
  fi_Deleted :: bool

record Hello =
  he_ProtoVersion :: int
  he_NodeName :: string
  he_Ed25519Pub :: bytes
  he_Token :: string
  he_Nonce :: bytes

record HelloAuth =
  ha_Hello :: Hello
  ha_Sig :: bytes

definition AccessNone :: string where "AccessNone = ''none''"
definition AccessPending :: string where "AccessPending = ''pending''"
definition AccessGranted :: string where "AccessGranted = ''granted''"
definition AccessDenied :: string where "AccessDenied = ''denied''"
definition AccessRevoked :: string where "AccessRevoked = ''revoked''"

record ShareListEntry =
  sl_ShareID :: string
  sl_Name :: string
  sl_Permission :: string
  sl_ApprovalRequired :: bool
  sl_Access :: string

record IndexUpdate =
  iu_ShareID :: string
  iu_Files :: "FileInfo list"
  iu_Full :: bool

record IndexSyncRequest =
  sr_ShareID :: string
  sr_Epoch :: string
  sr_AppliedSeq :: "64 word"
  sr_SnapshotID :: string
  sr_SnapshotBatch :: "64 word"

record IndexSnapshotBegin =
  sb_ShareID :: string
  sb_SnapshotID :: string
  sb_Epoch :: string
  sb_HighSeq :: "64 word"

record IndexSnapshotBatch =
  st_ShareID :: string
  st_SnapshotID :: string
  st_Batch :: "64 word"
  st_Files :: "FileInfo list"

record IndexSnapshotEnd =
  se_ShareID :: string
  se_SnapshotID :: string
  se_BatchCount :: "64 word"

record IndexDeltaEntry =
  de_Seq :: "64 word"
  de_File :: FileInfo

record IndexDeltaBatch =
  db_ShareID :: string
  db_Epoch :: string
  db_FromSeq :: "64 word"
  db_ToSeq :: "64 word"
  db_Entries :: "IndexDeltaEntry list"

record IndexAck =
  ia_ShareID :: string
  ia_Epoch :: string
  ia_AppliedSeq :: "64 word"
  ia_SnapshotID :: string
  ia_Replay :: bool

record FileRequest =
  rq_TransferID :: string
  rq_ShareID :: string
  rq_RelPath :: string
  rq_Version :: version_vector
  rq_Offset :: int

record FileChunkHeader =
  ch_TransferID :: string
  ch_ShareID :: string
  ch_RelPath :: string
  ch_Version :: version_vector
  ch_Offset :: int
  ch_EOF :: bool

record ErrorMsg =
  er_Code :: string
  er_Msg :: string
  er_ShareID :: string
  er_RelPath :: string
  er_TransferID :: string

datatype message =
    MHello Hello
  | MAuth bytes
  | MHelloAuth HelloAuth
  | MFinished
  | MShareList "ShareListEntry list"
  | MSubscribeRequest string
  | MAccessUpdate string string
  | MIndexUpdate IndexUpdate
  | MIndexSyncRequest IndexSyncRequest
  | MIndexSnapshotBegin IndexSnapshotBegin
  | MIndexSnapshotBatch IndexSnapshotBatch
  | MIndexSnapshotEnd IndexSnapshotEnd
  | MIndexDeltaBatch IndexDeltaBatch
  | MIndexAck IndexAck
  | MFileRequest FileRequest
  | MCancelTransfer string
  | MPing
  | MPong
  | MError ErrorMsg

section \<open>Validation\<close>

definition maxWireIDLen :: nat where "maxWireIDLen = 128"
definition maxWireNameLen :: nat where "maxWireNameLen = 256"
definition maxVersionEntries :: nat where "maxVersionEntries = 64"
definition maxWireRelPathLen :: nat where "maxWireRelPathLen = 4096"
definition maxWireCollection :: nat where "maxWireCollection = 65536"
definition MaxDiagnosticRunes :: nat where "MaxDiagnosticRunes = 512"

datatype wire_err =
    TextEmpty string
  | TextTooLong string nat
  | TextControl string
  | RelPathNotNormalized
  | RelPathBadElement
  | VersionTooLarge nat
  | VersionNodeID
  | NegativeSize
  | BadFileType string
  | BadHashLength nat
  | BadModeBits
  | TooManyFiles nat
  | FileErr nat wire_err
  | BadTransferIDLength
  | BadTransferIDHex
  | NegativeChunkOffset
  | NegativeRequestOffset
  | TooManyShares
  | BadPermission string
  | BadAccess string
  | BadDeltaRange
  | NonContiguousDelta
  | MessageTooLong

definition validBoundedText :: "string \<Rightarrow> string \<Rightarrow> nat \<Rightarrow> bool \<Rightarrow> wire_err err" where
  "validBoundedText label v mx required =
     (if required \<and> v = [] then Some (TextEmpty label)
      else if length v > mx then Some (TextTooLong label mx)
      else if list_ex is_control (string_runes v) then Some (TextControl label)
      else ok)"

definition validateShareID :: "string \<Rightarrow> wire_err err" where
  "validateShareID i = validBoundedText ''share_id'' i maxWireIDLen True"

definition validateRelPath :: "string \<Rightarrow> wire_err err" where
  "validateRelPath p =
     (case validBoundedText ''relpath'' p maxWireRelPathLen True of
        Some e \<Rightarrow> Some e
      | None \<Rightarrow>
         if CHR 0x5C \<in> set p \<or> CHR '':'' \<in> set p \<or> has_prefix p ''/'' \<or>
            path_clean p \<noteq> p \<or> p = ''.'' \<or> p = ''..''
         then Some RelPathNotNormalized
         else if list_ex (\<lambda>e. e = [] \<or> e = ''..'') (split_on slash p)
         then Some RelPathBadElement
         else ok)"

text \<open>A rune of a canonical lower-case hexadecimal id.\<close>

definition lower_hex_rune :: "nat \<Rightarrow> bool" where
  "lower_hex_rune c \<longleftrightarrow> (48 \<le> c \<and> c \<le> 57) \<or> (97 \<le> c \<and> c \<le> 102)"

definition validateVersion :: "version_vector \<Rightarrow> wire_err err" where
  "validateVersion v =
     (if fcard (fmdom v) > maxVersionEntries then Some (VersionTooLarge (fcard (fmdom v)))
      else if fBex (fmdom v)
                (\<lambda>node. length node \<noteq> 16 \<or> \<not> list_all lower_hex_rune (string_runes node))
      then Some VersionNodeID
      else ok)"

definition validateFileInfo :: "FileInfo \<Rightarrow> wire_err err" where
  "validateFileInfo f =
     (case validateRelPath (fi_RelPath f) of
        Some e \<Rightarrow> Some e
      | None \<Rightarrow>
         if fi_Size f < 0 then Some NegativeSize
         else if fi_Type f \<notin> {FileTypeFile, FileTypeDir, FileTypeSymlink}
         then Some (BadFileType (fi_Type f))
         else if \<not> fi_Deleted f \<and> fi_Type f \<noteq> FileTypeDir \<and> length (fi_SHA256 f) \<noteq> 32
         then Some (BadHashLength (length (fi_SHA256 f)))
         else if fi_Mode f AND NOT 0xFFF \<noteq> 0 then Some BadModeBits
         else validateVersion (fi_Version f))"

fun validateEach :: "nat \<Rightarrow> FileInfo list \<Rightarrow> wire_err err" where
  "validateEach i [] = ok"
| "validateEach i (f # fs) =
     (case validateFileInfo f of
        Some e \<Rightarrow> Some (FileErr i e)
      | None \<Rightarrow> validateEach (Suc i) fs)"

definition validateFiles :: "FileInfo list \<Rightarrow> wire_err err" where
  "validateFiles files =
     (if length files > maxWireCollection then Some (TooManyFiles (length files))
      else validateEach 0 files)"

definition validateTransferID :: "string \<Rightarrow> wire_err err" where
  "validateTransferID i =
     (if length i \<noteq> 32 then Some BadTransferIDLength
      else if \<not> list_all lower_hex_rune (string_runes i) then Some BadTransferIDHex
      else ok)"

definition validateFileChunkHeader :: "FileChunkHeader \<Rightarrow> wire_err err" where
  "validateFileChunkHeader h =
     (case validateTransferID (ch_TransferID h) of Some e \<Rightarrow> Some e | None \<Rightarrow>
      case validateShareID (ch_ShareID h) of Some e \<Rightarrow> Some e | None \<Rightarrow>
      case validateRelPath (ch_RelPath h) of Some e \<Rightarrow> Some e | None \<Rightarrow>
      if ch_Offset h < 0 then Some NegativeChunkOffset
      else validateVersion (ch_Version h))"

definition validAccess :: "string \<Rightarrow> bool" where
  "validAccess a \<longleftrightarrow> a \<in> {AccessNone, AccessPending, AccessGranted, AccessDenied, AccessRevoked}"

definition validateShareEntry :: "ShareListEntry \<Rightarrow> wire_err err" where
  "validateShareEntry s =
     (case validateShareID (sl_ShareID s) of Some e \<Rightarrow> Some e | None \<Rightarrow>
      case validBoundedText ''share name'' (sl_Name s) maxWireNameLen True of
        Some e \<Rightarrow> Some e
      | None \<Rightarrow>
         if sl_Permission s \<noteq> ''read-only'' \<and> sl_Permission s \<noteq> ''read-write''
         then Some (BadPermission (sl_Permission s))
         else if \<not> validAccess (sl_Access s) then Some (BadAccess (sl_Access s))
         else ok)"

text \<open>The loop over a delta's entries: \<open>i\<close> counts from 0, the sequence from \<open>FromSeq\<close>.\<close>

fun validateDeltaEntries :: "64 word \<Rightarrow> nat \<Rightarrow> IndexDeltaEntry list \<Rightarrow> wire_err err" where
  "validateDeltaEntries fromSeq i [] = ok"
| "validateDeltaEntries fromSeq i (e # es) =
     (if de_Seq e \<noteq> fromSeq + of_nat i then Some NonContiguousDelta
      else case validateFileInfo (de_File e) of
             Some err \<Rightarrow> Some err
           | None \<Rightarrow> validateDeltaEntries fromSeq (Suc i) es)"

definition validateDeltaBatch :: "IndexDeltaBatch \<Rightarrow> wire_err err" where
  "validateDeltaBatch m =
     (case validateShareID (db_ShareID m) of Some e \<Rightarrow> Some e | None \<Rightarrow>
      case validBoundedText ''epoch'' (db_Epoch m) maxWireIDLen True of Some e \<Rightarrow> Some e | None \<Rightarrow>
      if db_Entries m = [] \<or> db_FromSeq m = 0 \<or> db_ToSeq m < db_FromSeq m \<or>
         db_ToSeq m - db_FromSeq m = NOT 0 \<or>
         db_ToSeq m - db_FromSeq m + 1 \<noteq> of_nat (length (db_Entries m))
      then Some BadDeltaRange
      else validateDeltaEntries (db_FromSeq m) 0 (db_Entries m))"

definition validateErrorMsg :: "ErrorMsg \<Rightarrow> wire_err err" where
  "validateErrorMsg m =
     (case validBoundedText ''error code'' (er_Code m) 128 True of Some e \<Rightarrow> Some e | None \<Rightarrow>
      if length (er_Msg m) > MaxDiagnosticRunes * 4 then Some MessageTooLong
      else case (if er_ShareID m \<noteq> [] then validateShareID (er_ShareID m) else ok) of
        Some e \<Rightarrow> Some e
      | None \<Rightarrow> case (if er_RelPath m \<noteq> [] then validateRelPath (er_RelPath m) else ok) of
        Some e \<Rightarrow> Some e
      | None \<Rightarrow>
         if er_ShareID m \<noteq> [] \<or> er_RelPath m \<noteq> [] \<or> er_TransferID m \<noteq> []
         then validateTransferID (er_TransferID m) else ok)"

definition ValidateMessage :: "message \<Rightarrow> wire_err err" where
  "ValidateMessage v = (case v of
     MShareList shares \<Rightarrow>
       if length shares > maxWireCollection then Some TooManyShares
       else first_err (map validateShareEntry shares)
   | MSubscribeRequest share \<Rightarrow> validateShareID share
   | MAccessUpdate share access \<Rightarrow>
       (case validateShareID share of Some e \<Rightarrow> Some e | None \<Rightarrow>
        if \<not> validAccess access then Some (BadAccess access) else ok)
   | MIndexUpdate m \<Rightarrow>
       (case validateShareID (iu_ShareID m) of Some e \<Rightarrow> Some e | None \<Rightarrow>
        validateFiles (iu_Files m))
   | MIndexSyncRequest m \<Rightarrow>
       (case validateShareID (sr_ShareID m) of Some e \<Rightarrow> Some e | None \<Rightarrow>
        case validBoundedText ''epoch'' (sr_Epoch m) maxWireIDLen False of
          Some e \<Rightarrow> Some e
        | None \<Rightarrow> validBoundedText ''snapshot_id'' (sr_SnapshotID m) maxWireIDLen False)
   | MIndexSnapshotBegin m \<Rightarrow>
       (case validateShareID (sb_ShareID m) of Some e \<Rightarrow> Some e | None \<Rightarrow>
        case validBoundedText ''snapshot_id'' (sb_SnapshotID m) maxWireIDLen True of
          Some e \<Rightarrow> Some e
        | None \<Rightarrow> validBoundedText ''epoch'' (sb_Epoch m) maxWireIDLen True)
   | MIndexSnapshotBatch m \<Rightarrow>
       (case validateShareID (st_ShareID m) of Some e \<Rightarrow> Some e | None \<Rightarrow>
        case validBoundedText ''snapshot_id'' (st_SnapshotID m) maxWireIDLen True of
          Some e \<Rightarrow> Some e
        | None \<Rightarrow> validateFiles (st_Files m))
   | MIndexSnapshotEnd m \<Rightarrow>
       (case validateShareID (se_ShareID m) of Some e \<Rightarrow> Some e | None \<Rightarrow>
        validBoundedText ''snapshot_id'' (se_SnapshotID m) maxWireIDLen True)
   | MIndexDeltaBatch m \<Rightarrow> validateDeltaBatch m
   | MIndexAck m \<Rightarrow>
       (case validateShareID (ia_ShareID m) of Some e \<Rightarrow> Some e | None \<Rightarrow>
        case validBoundedText ''epoch'' (ia_Epoch m) maxWireIDLen True of
          Some e \<Rightarrow> Some e
        | None \<Rightarrow> validBoundedText ''snapshot_id'' (ia_SnapshotID m) maxWireIDLen False)
   | MFileRequest m \<Rightarrow>
       (case validateTransferID (rq_TransferID m) of Some e \<Rightarrow> Some e | None \<Rightarrow>
        case validateShareID (rq_ShareID m) of Some e \<Rightarrow> Some e | None \<Rightarrow>
        case validateRelPath (rq_RelPath m) of Some e \<Rightarrow> Some e | None \<Rightarrow>
        if rq_Offset m < 0 then Some NegativeRequestOffset
        else validateVersion (rq_Version m))
   | MError m \<Rightarrow> validateErrorMsg m
   | MCancelTransfer i \<Rightarrow> validateTransferID i
   | _ \<Rightarrow> ok)"

section \<open>What validation guarantees\<close>

lemma validateEach_ok: "validateEach i fs = ok \<longleftrightarrow> list_all (\<lambda>f. validateFileInfo f = ok) fs"
  by (induction i fs rule: validateEach.induct) (auto split: option.split)

lemma validateFiles_ok:
  "validateFiles fs = ok \<longleftrightarrow> length fs \<le> 65536 \<and> list_all (\<lambda>f. validateFileInfo f = ok) fs"
  by (auto simp: validateFiles_def validateEach_ok maxWireCollection_def)

lemma validateDeltaEntries_ok:
  "validateDeltaEntries from i es = ok \<longleftrightarrow>
     (\<forall>j < length es. de_Seq (es ! j) = from + of_nat (i + j) \<and> validateFileInfo (de_File (es ! j)) = ok)"
proof (induction es arbitrary: i)
  case (Cons e es)
  show ?case
    by (auto simp: Cons.IH All_less_Suc2 split: option.splits)
qed simp

lemma range_len_no_wrap:
  fixes a b :: "64 word"
  assumes le: "a \<le> b" and full: "b - a \<noteq> NOT 0" and len: "b - a + 1 = of_nat n" and n: "n < 2 ^ 64"
  shows "unat b + 1 = unat a + n"
proof -
  have "b - a \<noteq> - 1" using full by simp
  then have "unat (b - a + 1) = unat (b - a) + 1"
    by (metis Suc_eq_plus1 unatSuc add.commute add_eq_0_iff minus_minus)
  moreover have "unat (of_nat n :: 64 word) = n"
    using n by (simp add: unat_of_nat take_bit_eq_mod)
  ultimately have "unat (b - a) + 1 = n" using len by simp
  moreover have "unat (b - a) = unat b - unat a" using le by (simp add: unat_sub)
  moreover have "unat a \<le> unat b" using le by (simp add: word_le_nat_alt)
  ultimately show ?thesis by simp
qed

lemma unat_lt2p_64: "unat (w :: 64 word) < 2 ^ 64"
  using unsigned_less [of w] by simp

lemma seq_no_wrap:
  fixes a b :: "64 word"
  assumes "unat b + 1 = unat a + n" "i < n"
  shows "unat (a + of_nat i) = unat a + i"
proof -
  have lt: "unat a + i < 2 ^ 64" using assms unat_lt2p_64 [of b] by simp
  then have "unat (of_nat i :: 64 word) = i" by (simp add: unat_of_nat take_bit_eq_mod)
  with lt show ?thesis by (subst unat_add_lem [THEN iffD1]) simp_all
qed

text \<open>
  A delta batch that passes \<^verbatim>\<open>ValidateMessage\<close> covers a range of consecutive sequence
  numbers, none of them zero, as integers and not only modulo 2^64: the last one is the
  declared end, and every entry's file is itself valid. The unsigned subtraction in the
  range check can therefore not be abused to smuggle a wrapped range through. (A slice is
  shorter than 2^64 entries.)
\<close>

theorem valid_delta_contiguous:
  assumes v: "ValidateMessage (MIndexDeltaBatch m) = ok" and n: "length (db_Entries m) < 2 ^ 64"
  shows "0 < unat (db_FromSeq m) \<and>
         unat (db_ToSeq m) + 1 = unat (db_FromSeq m) + length (db_Entries m) \<and>
         list_all (\<lambda>e. validateFileInfo (de_File e) = ok) (db_Entries m) \<and>
         map (unat \<circ> de_Seq) (db_Entries m) = [unat (db_FromSeq m) ..< unat (db_ToSeq m) + 1]"
proof -
  have r: "db_FromSeq m \<noteq> 0" "db_FromSeq m \<le> db_ToSeq m" "db_ToSeq m - db_FromSeq m \<noteq> NOT 0"
    "db_ToSeq m - db_FromSeq m + 1 = of_nat (length (db_Entries m))"
    and e: "validateDeltaEntries (db_FromSeq m) 0 (db_Entries m) = ok"
    using v unfolding ValidateMessage_def validateDeltaBatch_def
    by (auto split: option.splits if_splits)
  note rng = range_len_no_wrap [OF r(2-4) n]
  have "map (unat \<circ> de_Seq) (db_Entries m) = [unat (db_FromSeq m) ..< unat (db_ToSeq m) + 1]"
    using e seq_no_wrap [OF rng] rng by (intro nth_equalityI) (auto simp: validateDeltaEntries_ok)
  moreover have "0 < unat (db_FromSeq m)" using r(1) by (simp add: unat_gt_0)
  moreover have "list_all (\<lambda>e. validateFileInfo (de_File e) = ok) (db_Entries m)"
    using e by (simp add: validateDeltaEntries_ok list_all_length)
  ultimately show ?thesis using rng by blast
qed

section \<open>Example rows\<close>

definition ex_file :: "string \<Rightarrow> byte \<Rightarrow> int \<Rightarrow> version_vector \<Rightarrow> FileInfo" where
  "ex_file p b t v =
     \<lparr> fi_RelPath = p, fi_Type = FileTypeFile, fi_Size = 3, fi_MTimeNS = t, fi_Mode = 0x1A4,
       fi_SHA256 = replicate 32 b, fi_Version = v, fi_Deleted = False \<rparr>"

definition ex_va :: version_vector where
  "ex_va = fmap_of_list [(''aaaaaaaaaaaaaaaa'', 1)]"

definition ex_vb :: version_vector where
  "ex_vb = fmap_of_list [(''bbbbbbbbbbbbbbbb'', 1)]"

definition ex_delta :: IndexDeltaBatch where
  "ex_delta = \<lparr> db_ShareID = ''s'', db_Epoch = ''e'', db_FromSeq = 7, db_ToSeq = 8,
     db_Entries = [\<lparr> de_Seq = 7, de_File = ex_file ''a.txt'' 1 5 ex_va \<rparr>,
                   \<lparr> de_Seq = 8, de_File = ex_file ''b.txt'' 1 5 ex_va \<rparr>] \<rparr>"

theorem valid_delta_contiguous_witness:
  "map (unat \<circ> de_Seq) (db_Entries ex_delta) = [7 ..< 9]"
proof -
  have "ValidateMessage (MIndexDeltaBatch ex_delta) = ok" by code_simp
  from valid_delta_contiguous [OF this] show ?thesis by (simp add: ex_delta_def)
qed

section \<open>Messages with file lists\<close>

text \<open>
  A message that carries a list of files is accepted only as a whole: an index update
  or a snapshot batch passes exactly when its ids are in bounds, the list has at most
  65,536 entries and every single file in it is valid. One file whose name holds a colon,
  a backslash or a control character makes the whole frame invalid.
\<close>

theorem file_lists_valid_as_a_whole:
  "(ValidateMessage (MIndexUpdate u) = ok \<longleftrightarrow>
      validateShareID (iu_ShareID u) = ok \<and> length (iu_Files u) \<le> 65536 \<and>
      list_all (\<lambda>f. validateFileInfo f = ok) (iu_Files u)) \<and>
   (ValidateMessage (MIndexSnapshotBatch b) = ok \<longleftrightarrow>
      validateShareID (st_ShareID b) = ok \<and>
      validBoundedText ''snapshot_id'' (st_SnapshotID b) 128 True = ok \<and>
      length (st_Files b) \<le> 65536 \<and>
      list_all (\<lambda>f. validateFileInfo f = ok) (st_Files b)) \<and>
   validateFileInfo (f\<lparr>fi_RelPath := p @ CHR '':'' # q\<rparr>) \<noteq> ok"
proof (intro conjI)
  show "validateFileInfo (f\<lparr>fi_RelPath := p @ CHR '':'' # q\<rparr>) \<noteq> ok"
    by (simp add: validateFileInfo_def validateRelPath_def split: option.split)
qed (simp_all add: ValidateMessage_def validateFiles_ok maxWireIDLen_def split: option.split)

end
