(* ===== verification/IndexStore.thy ===== *)
theory IndexStore
  imports Wire "HOL-Library.Product_Lexorder"
begin

text \<open>
  The index database of \<^verbatim>\<open>internal/index/store.go\<close>, \<^verbatim>\<open>syncstore.go\<close> and \<^verbatim>\<open>holds.go\<close>.

  The record \<open>store\<close> has one field per SQL table, a finite map from the table's primary
  key to its other columns, and each method of \<open>Store\<close> is a function on it. A statement
  that SQLite itself fails (a full disk, a lost file) rolls its transaction back and is
  outside the model; a statement that would violate a primary key is not, and is the error
  \<open>JournalConflict\<close>. Arguments stand for what the code reads from outside: \<open>now\<close> is
  \<open>time.Now()\<close> in nanoseconds, one instant per transaction, and \<open>fresh\<close> is the value
  \<open>randomblob\<close> yields if the call creates an epoch. Sequence numbers of this node's own
  journal are naturals (SQLite counts them up from 1); those that come from the wire are
  64-bit words and keep Go's wrap-around.

  The main results: the journal replays to the files table, a snapshot or a contiguous
  run of deltas makes the receiver's mirror follow the sender's files, and parking a path
  changes what is listed without telling any peer.
\<close>

section \<open>Rows\<close>

record FileRow =
  fr_ShareID :: string
  fr_RelPath :: string
  fr_Type :: file_type
  fr_Size :: int
  fr_MTimeNS :: int
  fr_Mode :: "32 word"
  fr_SHA256 :: bytes
  fr_Version :: version_vector
  fr_Deleted :: bool
  fr_UpdatedAt :: int
  fr_Ignored :: bool

definition Info :: "FileRow \<Rightarrow> FileInfo" where
  "Info r = \<lparr> fi_RelPath = fr_RelPath r, fi_Type = fr_Type r, fi_Size = fr_Size r,
     fi_MTimeNS = fr_MTimeNS r, fi_Mode = fr_Mode r, fi_SHA256 = fr_SHA256 r,
     fi_Version = fr_Version r, fi_Deleted = fr_Deleted r \<rparr>"

definition FileRowFromInfo :: "string \<Rightarrow> FileInfo \<Rightarrow> int \<Rightarrow> FileRow" where
  "FileRowFromInfo shareID info updatedAt =
     \<lparr> fr_ShareID = shareID, fr_RelPath = fi_RelPath info, fr_Type = fi_Type info,
       fr_Size = fi_Size info, fr_MTimeNS = fi_MTimeNS info, fr_Mode = fi_Mode info,
       fr_SHA256 = fi_SHA256 info, fr_Version = fi_Version info, fr_Deleted = fi_Deleted info,
       fr_UpdatedAt = updatedAt, fr_Ignored = False \<rparr>"

record Cursor =
  cu_Epoch :: string
  cu_AppliedSeq :: "64 word"
  cu_SnapshotID :: string
  cu_SnapshotBatch :: "64 word"

record JournalRow =
  jr_Seq :: nat
  jr_Row :: FileRow

record journal_entry =
  je_Epoch :: string
  je_Row :: FileRow
  je_CreatedAt :: int

record Hold =
  ho_ShareID :: string
  ho_PeerKey :: string
  ho_Reason :: string
  ho_Deletes :: nat
  ho_Live :: nat
  ho_Since :: int
  ho_Confirmed :: bool

datatype scan_warning =
    SkipUnreadable string
  | RejectEscaping string
  | SkipSymlink string
  | SkipStatFailed string
  | SkipReadFailed string

record ScanResult =
  sc_ShareID :: string
  sc_Added :: "FileRow list"
  sc_ContentChanged :: "FileRow list"
  sc_MetadataOnly :: "FileRow list"
  sc_Deleted :: "FileRow list"
  sc_Ignored :: "FileRow list"
  sc_Warnings :: "scan_warning list"

section \<open>The tables\<close>

record store =
  files :: "(string \<times> string, FileRow) fmap"
  peer_files :: "(string \<times> string \<times> string, FileRow) fmap"
  share_state :: "(string, string \<times> nat) fmap"
  change_journal :: "(string \<times> nat, journal_entry) fmap"
  peer_cursors :: "(string \<times> string \<times> string, Cursor) fmap"
  snapshot_staging :: "(string \<times> string \<times> string \<times> string, 64 word \<times> FileRow) fmap"
  holds :: "(string \<times> string, Hold) fmap"

definition empty_store :: store where
  "empty_store = \<lparr> files = fmempty, peer_files = fmempty, share_state = fmempty,
     change_journal = fmempty, peer_cursors = fmempty, snapshot_staging = fmempty,
     holds = fmempty \<rparr>"

datatype store_err =
    ErrNotFound
  | JournalConflict
  | DeltaGap string "64 word" string "64 word"
  | InvalidDeltaRange

text \<open>\<open>ORDER BY\<close> over one column of a table's key: the keys in ascending byte order.\<close>

definition ordered_rows :: "('k, 'v) fmap \<Rightarrow> ('k \<Rightarrow> 'o::linorder option) \<Rightarrow> ('o \<Rightarrow> 'k) \<Rightarrow> 'v list" where
  "ordered_rows m sel key =
     List.map_filter (\<lambda>x. fmlookup m (key x))
       (sorted_list_of_fset ((\<lambda>k. the (sel k)) |`| ffilter (\<lambda>k. sel k \<noteq> None) (fmdom m)))"

section \<open>This node's files\<close>

text \<open>\<open>INSERT OR IGNORE INTO share_state\<close> with the column default \<open>next_seq = 1\<close>.\<close>

definition ensure_state :: "string \<Rightarrow> string \<Rightarrow> store \<Rightarrow> store" where
  "ensure_state fresh share s =
     (case fmlookup (share_state s) share of
        Some _ \<Rightarrow> s
      | None \<Rightarrow> s\<lparr>share_state := fmupd share (fresh, 1) (share_state s)\<rparr>)"

definition GetFile :: "string \<Rightarrow> string \<Rightarrow> store \<Rightarrow> store_err + FileRow" where
  "GetFile shareID relpath s =
     (case fmlookup (files s) (shareID, relpath) of
        Some r \<Rightarrow> if fr_Ignored r then Inl ErrNotFound else Inr r
      | None \<Rightarrow> Inl ErrNotFound)"

definition putFileAndJournal :: "string \<Rightarrow> int \<Rightarrow> FileRow \<Rightarrow> store \<Rightarrow> store_err + store" where
  "putFileAndJournal fresh now row s =
     (let share = fr_ShareID row;
          s1 = s\<lparr>files := fmupd (share, fr_RelPath row) (row\<lparr>fr_Ignored := False\<rparr>) (files s)\<rparr>;
          s2 = ensure_state fresh share s1
      in case fmlookup (share_state s2) share of
           None \<Rightarrow> Inl ErrNotFound
         | Some (epoch, seq) \<Rightarrow>
            if (share, seq) |\<in>| fmdom (change_journal s2) then Inl JournalConflict
            else Inr (s2\<lparr>share_state := fmupd share (epoch, Suc seq) (share_state s2),
                         change_journal := fmupd (share, seq)
                            \<lparr>je_Epoch = epoch, je_Row = row\<lparr>fr_Ignored := False\<rparr>, je_CreatedAt = now\<rparr>
                            (change_journal s2)\<rparr>))"

definition PutFile :: "string \<Rightarrow> int \<Rightarrow> FileRow \<Rightarrow> store \<Rightarrow> (store_err err) \<times> store" where
  "PutFile fresh now row s =
     (case putFileAndJournal fresh now row s of Inl e \<Rightarrow> (Some e, s) | Inr s' \<Rightarrow> (ok, s'))"

definition ListShare :: "string \<Rightarrow> bool \<Rightarrow> store \<Rightarrow> FileRow list" where
  "ListShare shareID includeDeleted s =
     filter (\<lambda>r. \<not> fr_Ignored r \<and> (includeDeleted \<or> \<not> fr_Deleted r))
       (ordered_rows (files s) (\<lambda>(sh, p). if sh = shareID then Some p else None) (Pair shareID))"

definition ListShareMap :: "string \<Rightarrow> store \<Rightarrow> (string, FileRow) fmap" where
  "ListShareMap shareID s =
     fmap_of_list (map (\<lambda>r. (fr_RelPath r, r))
       (ordered_rows (files s) (\<lambda>(sh, p). if sh = shareID then Some p else None) (Pair shareID)))"

text \<open>The \<open>apply\<close> loop of \<open>ApplyScanResult\<close>: stops at the first error.\<close>

fun put_rows :: "string \<Rightarrow> int \<Rightarrow> FileRow list \<Rightarrow> store \<Rightarrow> store_err + store" where
  "put_rows fresh now [] s = Inr s"
| "put_rows fresh now (r # rs) s =
     (case putFileAndJournal fresh now r s of
        Inl e \<Rightarrow> Inl e
      | Inr s' \<Rightarrow> put_rows fresh now rs s')"

definition park :: "FileRow \<Rightarrow> store \<Rightarrow> store" where
  "park row s =
     (case fmlookup (files s) (fr_ShareID row, fr_RelPath row) of
        None \<Rightarrow> s
      | Some r \<Rightarrow> s\<lparr>files := fmupd (fr_ShareID row, fr_RelPath row) (r\<lparr>fr_Ignored := True\<rparr>) (files s)\<rparr>)"

definition ApplyScanResult :: "string \<Rightarrow> int \<Rightarrow> ScanResult \<Rightarrow> store \<Rightarrow> (store_err err) \<times> store" where
  "ApplyScanResult fresh now result s =
     (case put_rows fresh now
             (sc_Added result @ sc_ContentChanged result @ sc_MetadataOnly result @ sc_Deleted result) s of
        Inl e \<Rightarrow> (Some e, s)
      | Inr s' \<Rightarrow> (ok, fold park (sc_Ignored result) s'))"

section \<open>The journal and the cursors\<close>

definition ShareState :: "string \<Rightarrow> string \<Rightarrow> store \<Rightarrow> (string \<times> nat) \<times> store" where
  "ShareState fresh share s =
     (let s' = ensure_state fresh share s in
      case fmlookup (share_state s') share of
        None \<Rightarrow> (([], 0), s')
      | Some (e, next) \<Rightarrow> ((e, if next > 0 then next - 1 else next), s'))"

definition zero_cursor :: Cursor where
  "zero_cursor = \<lparr>cu_Epoch = [], cu_AppliedSeq = 0, cu_SnapshotID = [], cu_SnapshotBatch = 0\<rparr>"

definition get_cursor :: "string \<Rightarrow> string \<Rightarrow> string \<Rightarrow> store \<Rightarrow> Cursor" where
  "get_cursor peer share dir s =
     (case fmlookup (peer_cursors s) (peer, share, dir) of None \<Rightarrow> zero_cursor | Some c \<Rightarrow> c)"

definition SetCursor :: "string \<Rightarrow> string \<Rightarrow> string \<Rightarrow> Cursor \<Rightarrow> store \<Rightarrow> store" where
  "SetCursor peer share dir c s = s\<lparr>peer_cursors := fmupd (peer, share, dir) c (peer_cursors s)\<rparr>"

text \<open>
  \<open>WHERE share_id=? AND epoch=? AND seq>? ORDER BY seq LIMIT ?\<close>. A returned row carries the
  time it was journalled as its \<open>UpdatedAt\<close>.
\<close>

definition journal_seqs :: "string \<Rightarrow> string \<Rightarrow> store \<Rightarrow> nat list" where
  "journal_seqs share epoch s =
     filter (\<lambda>q. case fmlookup (change_journal s) (share, q) of
                   None \<Rightarrow> False | Some e \<Rightarrow> je_Epoch e = epoch)
       (sorted_list_of_fset (snd |`| ffilter (\<lambda>k. fst k = share) (fmdom (change_journal s))))"

definition journal_row :: "string \<Rightarrow> store \<Rightarrow> nat \<Rightarrow> JournalRow" where
  "journal_row share s q =
     (case fmlookup (change_journal s) (share, q) of
        None \<Rightarrow> undefined
      | Some e \<Rightarrow> \<lparr>jr_Seq = q, jr_Row = (je_Row e)\<lparr>fr_ShareID := share, fr_UpdatedAt := je_CreatedAt e\<rparr>\<rparr>)"

definition JournalSince :: "string \<Rightarrow> string \<Rightarrow> nat \<Rightarrow> nat \<Rightarrow> store \<Rightarrow> JournalRow list" where
  "JournalSince share epoch seq limit s =
     take limit (map (journal_row share s) (filter (\<lambda>q. q > seq) (journal_seqs share epoch s)))"

definition OldestJournalSeq :: "string \<Rightarrow> string \<Rightarrow> store \<Rightarrow> nat" where
  "OldestJournalSeq share epoch s =
     (case journal_seqs share epoch s of [] \<Rightarrow> 0 | q # _ \<Rightarrow> q)"

definition PruneJournal :: "int \<Rightarrow> store \<Rightarrow> store" where
  "PruneJournal before s =
     s\<lparr>change_journal := fmfilter (\<lambda>k. case fmlookup (change_journal s) k of
          None \<Rightarrow> True | Some e \<Rightarrow> \<not> je_CreatedAt e < before) (change_journal s)\<rparr>"

section \<open>Peer mirrors\<close>

definition put_peer_file :: "string \<Rightarrow> FileRow \<Rightarrow> store \<Rightarrow> store" where
  "put_peer_file peer row s =
     s\<lparr>peer_files := fmupd (peer, fr_ShareID row, fr_RelPath row) (row\<lparr>fr_Ignored := False\<rparr>) (peer_files s)\<rparr>"

definition UpsertPeerFiles :: "string \<Rightarrow> FileRow list \<Rightarrow> store \<Rightarrow> store" where
  "UpsertPeerFiles peerKey rows s = fold (put_peer_file peerKey) rows s"

definition ListPeerFiles :: "string \<Rightarrow> string \<Rightarrow> store \<Rightarrow> FileRow list" where
  "ListPeerFiles peerKey shareID s =
     ordered_rows (peer_files s)
       (\<lambda>(pk, sh, p). if pk = peerKey \<and> sh = shareID then Some p else None)
       (\<lambda>p. (peerKey, shareID, p))"

definition StageSnapshotBatch ::
  "string \<Rightarrow> string \<Rightarrow> string \<Rightarrow> 64 word \<Rightarrow> FileRow list \<Rightarrow> store \<Rightarrow> store" where
  "StageSnapshotBatch peer share i batch fs s =
     (let stg = (if batch = 0
                 then fmfilter (\<lambda>(pk, sh, sid, _). \<not> (pk = peer \<and> sh = share \<and> sid \<noteq> i)) (snapshot_staging s)
                 else snapshot_staging s)
      in s\<lparr>snapshot_staging := fold (\<lambda>r. fmupd (peer, share, i, fr_RelPath r) (batch, r)) fs stg\<rparr>)"

text \<open>
  \<open>INSERT ... SELECT\<close> from the staging table: the new mirror rows, with \<open>now\<close> as their
  \<open>updated_at\<close> and the staged share as their share.
\<close>

definition staged_rows :: "string \<Rightarrow> string \<Rightarrow> string \<Rightarrow> int \<Rightarrow> store \<Rightarrow>
    (string \<times> string \<times> string, FileRow) fmap" where
  "staged_rows peer share i now s =
     fmap_of_list (List.map_filter
       (\<lambda>p. map_option (\<lambda>(b, r). ((peer, share, p),
              r\<lparr>fr_ShareID := share, fr_UpdatedAt := now, fr_Ignored := False\<rparr>))
            (fmlookup (snapshot_staging s) (peer, share, i, p)))
       (sorted_list_of_fset ((\<lambda>(_, _, _, p). p) |`|
          ffilter (\<lambda>(pk, sh, sid, _). pk = peer \<and> sh = share \<and> sid = i) (fmdom (snapshot_staging s)))))"

definition CommitSnapshot ::
  "string \<Rightarrow> string \<Rightarrow> string \<Rightarrow> string \<Rightarrow> 64 word \<Rightarrow> int \<Rightarrow> store \<Rightarrow> store" where
  "CommitSnapshot peer share i epoch seq now s =
     s\<lparr>peer_files := fmfilter (\<lambda>(pk, sh, _). \<not> (pk = peer \<and> sh = share)) (peer_files s)
                     ++\<^sub>f staged_rows peer share i now s,
       snapshot_staging := fmfilter (\<lambda>(pk, sh, _, _). \<not> (pk = peer \<and> sh = share)) (snapshot_staging s),
       peer_cursors := fmupd (peer, share, ''incoming'')
         \<lparr>cu_Epoch = epoch, cu_AppliedSeq = seq, cu_SnapshotID = [], cu_SnapshotBatch = 0\<rparr> (peer_cursors s)\<rparr>"

definition ApplyPeerDelta ::
  "string \<Rightarrow> string \<Rightarrow> string \<Rightarrow> 64 word \<Rightarrow> 64 word \<Rightarrow> FileRow list \<Rightarrow> int \<Rightarrow> store \<Rightarrow> store_err + store" where
  "ApplyPeerDelta peer share epoch from to rows now s =
     (let c = get_cursor peer share ''incoming'' s in
      if cu_Epoch c \<noteq> epoch \<or> from \<noteq> cu_AppliedSeq c + 1
      then Inl (DeltaGap (cu_Epoch c) (cu_AppliedSeq c) epoch from)
      else if of_nat (length rows) \<noteq> to - from + 1 then Inl InvalidDeltaRange
      else
        let s1 = fold (\<lambda>r. put_peer_file peer (r\<lparr>fr_ShareID := share, fr_UpdatedAt := now\<rparr>)) rows s
        in Inr (s1\<lparr>peer_cursors :=
              (case fmlookup (peer_cursors s1) (peer, share, ''incoming'') of
                 None \<Rightarrow> peer_cursors s1
               | Some c' \<Rightarrow> fmupd (peer, share, ''incoming'') (c'\<lparr>cu_AppliedSeq := to\<rparr>) (peer_cursors s1))\<rparr>))"

definition ForgetSubscription :: "string \<Rightarrow> string \<Rightarrow> bool \<Rightarrow> store \<Rightarrow> store" where
  "ForgetSubscription peer share dropShare s =
     (let s1 = s\<lparr>
            peer_files := fmfilter (\<lambda>(pk, sh, _). \<not> (pk = peer \<and> sh = share)) (peer_files s),
            peer_cursors := fmfilter (\<lambda>(pk, sh, _). \<not> (pk = peer \<and> sh = share)) (peer_cursors s),
            snapshot_staging := fmfilter (\<lambda>(pk, sh, _). \<not> (pk = peer \<and> sh = share)) (snapshot_staging s)\<rparr>
      in if dropShare
         then s1\<lparr>files := fmfilter (\<lambda>(sh, _). sh \<noteq> share) (files s1),
                 change_journal := fmfilter (\<lambda>(sh, _). sh \<noteq> share) (change_journal s1),
                 share_state := fmdrop share (share_state s1)\<rparr>
         else s1)"

section \<open>Holds\<close>

definition PutHold :: "Hold \<Rightarrow> store \<Rightarrow> store" where
  "PutHold h s = s\<lparr>holds := fmupd (ho_ShareID h, ho_PeerKey h) h (holds s)\<rparr>"

definition DeleteHold :: "string \<Rightarrow> string \<Rightarrow> store \<Rightarrow> store" where
  "DeleteHold shareID peerKey s = s\<lparr>holds := fmdrop (shareID, peerKey) (holds s)\<rparr>"

definition ListHolds :: "store \<Rightarrow> Hold list" where
  "ListHolds s =
     sort_key (\<lambda>h. (ho_Since h, ho_ShareID h, ho_PeerKey h))
       (List.map_filter (fmlookup (holds s)) (sorted_list_of_fset (fmdom (holds s))))"

section \<open>Views and invariants\<close>

definition parked :: "string \<Rightarrow> store \<Rightarrow> string \<Rightarrow> bool" where
  "parked share s p = (case fmlookup (files s) (share, p) of None \<Rightarrow> False | Some r \<Rightarrow> fr_Ignored r)"

definition share_infos :: "string \<Rightarrow> store \<Rightarrow> string \<Rightarrow> FileInfo option" where
  "share_infos share s p = map_option Info (fmlookup (files s) (share, p))"

definition mirror_infos :: "string \<Rightarrow> string \<Rightarrow> store \<Rightarrow> string \<Rightarrow> FileInfo option" where
  "mirror_infos peer share s p = map_option Info (fmlookup (peer_files s) (peer, share, p))"

definition replay :: "FileInfo list \<Rightarrow> (string \<Rightarrow> FileInfo option) \<Rightarrow> string \<Rightarrow> FileInfo option" where
  "replay is m = fold (\<lambda>i m. m(fi_RelPath i \<mapsto> i)) is m"

lemma replay_append: "replay (xs @ ys) m = replay ys (replay xs m)"
  by (simp add: replay_def)

lemma Info_sel [simp]:
  "fi_RelPath (Info r) = fr_RelPath r" "fi_Deleted (Info r) = fr_Deleted r"
  "fi_Version (Info r) = fr_Version r" "fi_SHA256 (Info r) = fr_SHA256 r" "fi_Type (Info r) = fr_Type r"
  by (simp_all add: Info_def)

lemma Info_local [simp]:
  "Info (r\<lparr>fr_ShareID := x\<rparr>) = Info r" "Info (r\<lparr>fr_UpdatedAt := t\<rparr>) = Info r"
  "Info (r\<lparr>fr_Ignored := b\<rparr>) = Info r"
  by (simp_all add: Info_def)

lemma Info_FileRowFromInfo [simp]: "Info (FileRowFromInfo sh i t) = i"
  by (simp add: Info_def FileRowFromInfo_def)

definition keys_ok :: "store \<Rightarrow> bool" where
  "keys_ok s \<longleftrightarrow>
     fmpred (\<lambda>(sh, p) r. fr_ShareID r = sh \<and> fr_RelPath r = p) (files s) \<and>
     fmpred (\<lambda>(pk, sh, p) r. fr_ShareID r = sh \<and> fr_RelPath r = p) (peer_files s) \<and>
     fmpred (\<lambda>(pk, sh, i, p) (b, r). fr_RelPath r = p) (snapshot_staging s) \<and>
     fmpred (\<lambda>(sh, pk) h. ho_ShareID h = sh \<and> ho_PeerKey h = pk) (holds s)"

definition journal_ok :: "store \<Rightarrow> bool" where
  "journal_ok s \<longleftrightarrow>
     fmpred (\<lambda>sh (e, n). 0 < n) (share_state s) \<and>
     fmpred (\<lambda>(sh, q) j. fr_ShareID (je_Row j) = sh \<and>
        (case fmlookup (share_state s) sh of
           None \<Rightarrow> False | Some (e, n) \<Rightarrow> je_Epoch j = e \<and> 0 < q \<and> q < n)) (change_journal s)"

definition store_ok :: "store \<Rightarrow> bool" where
  "store_ok s \<longleftrightarrow> keys_ok s \<and> journal_ok s"

lemma journal_okD:
  assumes "journal_ok s" "fmlookup (change_journal s) (sh, q) = Some j"
  obtains n where "fmlookup (share_state s) sh = Some (je_Epoch j, n)" "0 < q" "q < n" "fr_ShareID (je_Row j) = sh"
proof -
  from assms(1) have "fmpred (\<lambda>(sh, q) j. fr_ShareID (je_Row j) = sh \<and>
        (case fmlookup (share_state s) sh of
           None \<Rightarrow> False | Some (e, n) \<Rightarrow> je_Epoch j = e \<and> 0 < q \<and> q < n)) (change_journal s)"
    by (simp add: journal_ok_def)
  from fmpredD [OF this assms(2)] that show thesis by (auto split: option.splits)
qed

text \<open>The state row of a share after \<open>INSERT OR IGNORE\<close>.\<close>

definition state_of :: "string \<Rightarrow> string \<Rightarrow> store \<Rightarrow> string \<times> nat" where
  "state_of fresh share s = (case fmlookup (share_state s) share of None \<Rightarrow> (fresh, 1) | Some x \<Rightarrow> x)"

lemma ensure_state_fields [simp]:
  "files (ensure_state f sh s) = files s" "change_journal (ensure_state f sh s) = change_journal s"
  "peer_files (ensure_state f sh s) = peer_files s" "peer_cursors (ensure_state f sh s) = peer_cursors s"
  "snapshot_staging (ensure_state f sh s) = snapshot_staging s" "holds (ensure_state f sh s) = holds s"
  "fmlookup (share_state (ensure_state f sh s)) sh' =
     (if sh' = sh then Some (state_of f sh s) else fmlookup (share_state s) sh')"
  by (auto simp: ensure_state_def state_of_def split: option.splits)

lemma putFileAndJournal_eq:
  assumes j: "journal_ok s" and st: "state_of fresh (fr_ShareID row) s = (e, n)"
  shows "\<exists>s'. putFileAndJournal fresh now row s = Inr s' \<and>
    files s' = fmupd (fr_ShareID row, fr_RelPath row) (row\<lparr>fr_Ignored := False\<rparr>) (files s) \<and>
    share_state s' = fmupd (fr_ShareID row) (e, Suc n) (share_state (ensure_state fresh (fr_ShareID row) s)) \<and>
    change_journal s' = fmupd (fr_ShareID row, n)
      \<lparr>je_Epoch = e, je_Row = row\<lparr>fr_Ignored := False\<rparr>, je_CreatedAt = now\<rparr> (change_journal s) \<and>
    peer_files s' = peer_files s \<and> peer_cursors s' = peer_cursors s \<and>
    snapshot_staging s' = snapshot_staging s \<and> holds s' = holds s"
proof -
  let ?sh = "fr_ShareID row"
  have new: "(?sh, n) |\<notin>| fmdom (change_journal s)"
  proof
    assume "(?sh, n) |\<in>| fmdom (change_journal s)"
    then obtain x where "fmlookup (change_journal s) (?sh, n) = Some x" by (auto simp: fmlookup_dom_iff)
    then show False using st by (elim journal_okD [OF j]) (simp add: state_of_def)
  qed
  let ?s1 = "s\<lparr>files := fmupd (?sh, fr_RelPath row) (row\<lparr>fr_Ignored := False\<rparr>) (files s)\<rparr>"
  have "share_state (ensure_state fresh ?sh ?s1) = share_state (ensure_state fresh ?sh s)"
    by (simp add: ensure_state_def split: option.splits)
  moreover have "state_of fresh ?sh ?s1 = (e, n)" using st by (simp add: state_of_def)
  ultimately show ?thesis using new by (simp add: putFileAndJournal_def Let_def)
qed

lemma journal_okI:
  assumes "\<And>sh e n. fmlookup (share_state s) sh = Some (e, n) \<Longrightarrow> 0 < n"
    and "\<And>sh q j. fmlookup (change_journal s) (sh, q) = Some j \<Longrightarrow>
           fr_ShareID (je_Row j) = sh \<and> (\<exists>n. fmlookup (share_state s) sh = Some (je_Epoch j, n) \<and> 0 < q \<and> q < n)"
  shows "journal_ok s"
  unfolding journal_ok_def
proof (intro conjI fmpredI)
  show "(case x of (e, n) \<Rightarrow> 0 < n)" if "fmlookup (share_state s) sh = Some x" for sh x
    using that assms(1) by (cases x) auto
  show "(case k of (sh, q) \<Rightarrow> \<lambda>j. fr_ShareID (je_Row j) = sh \<and>
        (case fmlookup (share_state s) sh of
           None \<Rightarrow> False | Some (e, n) \<Rightarrow> je_Epoch j = e \<and> 0 < q \<and> q < n)) j"
    if "fmlookup (change_journal s) k = Some j" for k j
    using that assms(2) [of "fst k" "snd k" j] by (cases k) auto
qed

lemma journal_ok_state:
  assumes "journal_ok s" "fmlookup (share_state s) sh = Some (e, n)"
  shows "0 < n"
proof -
  from assms(1) have "fmpred (\<lambda>sh (e, n). 0 < n) (share_state s)" by (simp add: journal_ok_def)
  from fmpredD [OF this assms(2)] show ?thesis by simp
qed

lemma journal_ok_mono:
  assumes "journal_ok s" "share_state t = share_state s" "change_journal t \<subseteq>\<^sub>f change_journal s"
  shows "journal_ok t"
proof (rule journal_okI)
  show "0 < n" if "fmlookup (share_state t) sh = Some (e, n)" for sh e n
    using that assms journal_ok_state by metis
  show "fr_ShareID (je_Row j) = sh \<and>
      (\<exists>n. fmlookup (share_state t) sh = Some (je_Epoch j, n) \<and> 0 < q \<and> q < n)"
    if "fmlookup (change_journal t) (sh, q) = Some j" for sh q j
  proof -
    have "fmlookup (change_journal s) (sh, q) = Some j"
      using that assms(3) by (simp add: fmsubset_alt_def fmpred_iff)
    then show ?thesis by (rule journal_okD [OF assms(1)]) (auto simp: assms(2))
  qed
qed

lemma put_journal_ok:
  assumes j: "journal_ok s" and p: "putFileAndJournal fresh now row s = Inr s'"
  shows "journal_ok s'"
proof -
  let ?sh = "fr_ShareID row"
  obtain e n where st: "state_of fresh ?sh s = (e, n)" by force
  have n: "0 < n" using st journal_ok_state [OF j] by (auto simp: state_of_def split: option.splits)
  note f = putFileAndJournal_eq [OF j st, of now, unfolded p]
  show ?thesis
  proof (rule journal_okI)
    show "0 < m" if "fmlookup (share_state s') sh = Some (d, m)" for sh d m
      using that f n journal_ok_state [OF j] by (auto split: if_splits)
    show "fr_ShareID (je_Row x) = sh \<and>
        (\<exists>m. fmlookup (share_state s') sh = Some (je_Epoch x, m) \<and> 0 < q \<and> q < m)"
      if x: "fmlookup (change_journal s') (sh, q) = Some x" for sh q x
    proof (cases "(sh, q) = (?sh, n)")
      case True
      then show ?thesis using x f n by auto
    next
      case False
      then have "fmlookup (change_journal s) (sh, q) = Some x" using x f by (auto split: if_splits)
      then obtain m where m: "fmlookup (share_state s) sh = Some (je_Epoch x, m)" "0 < q" "q < m" "fr_ShareID (je_Row x) = sh"
        by (rule journal_okD [OF j])
      then show ?thesis using f st by (auto simp: state_of_def)
    qed
  qed
qed

lemma put_total: "journal_ok s \<Longrightarrow> \<exists>s'. putFileAndJournal fresh now row s = Inr s'"
  using putFileAndJournal_eq by (metis surj_pair)

lemma put_rows_journal_ok:
  "journal_ok s \<Longrightarrow> \<exists>s'. put_rows fresh now rs s = Inr s' \<and> journal_ok s'"
proof (induction rs arbitrary: s)
  case (Cons r rs)
  then obtain s1 where "putFileAndJournal fresh now r s = Inr s1" using put_total by blast
  moreover from this Cons.prems have "journal_ok s1" by (rule put_journal_ok [rotated])
  ultimately show ?case using Cons.IH by simp
qed simp

lemma park_fields [simp]:
  "change_journal (park r s) = change_journal s" "share_state (park r s) = share_state s"
  "peer_files (park r s) = peer_files s" "peer_cursors (park r s) = peer_cursors s"
  "snapshot_staging (park r s) = snapshot_staging s" "holds (park r s) = holds s"
  by (auto simp: park_def split: option.split)

lemma fold_park_fields [simp]:
  "change_journal (fold park rs s) = change_journal s" "share_state (fold park rs s) = share_state s"
  "peer_files (fold park rs s) = peer_files s" "peer_cursors (fold park rs s) = peer_cursors s"
  "snapshot_staging (fold park rs s) = snapshot_staging s" "holds (fold park rs s) = holds s"
  by (induction rs arbitrary: s) simp_all

inductive db_step :: "store \<Rightarrow> store \<Rightarrow> bool" where
  put: "db_step s (snd (PutFile fresh now row s))"
| scan: "db_step s (snd (ApplyScanResult fresh now result s))"
| state: "db_step s (snd (ShareState fresh share s))"
| cursor: "db_step s (SetCursor peer share dir c s)"
| prune: "db_step s (PruneJournal before s)"
| upsert: "db_step s (UpsertPeerFiles peer rows s)"
| stage: "db_step s (StageSnapshotBatch peer share i batch rows s)"
| commit: "db_step s (CommitSnapshot peer share i epoch seq now s)"
| delta: "ApplyPeerDelta peer share epoch from to rows now s = Inr s' \<Longrightarrow> db_step s s'"
| forget: "db_step s (ForgetSubscription peer share dropShare s)"
| hold: "db_step s (PutHold h s)"
| unhold: "db_step s (DeleteHold shareID peerKey s)"

text \<open>Keys of the tables and the columns that repeat them.\<close>

lemma put_keys_ok:
  assumes "journal_ok s" "keys_ok s" "putFileAndJournal fresh now row s = Inr s'"
  shows "keys_ok s'"
proof -
  obtain e n where st: "state_of fresh (fr_ShareID row) s = (e, n)" by force
  from putFileAndJournal_eq [OF assms(1) st, of now, unfolded assms(3)] assms(2)
  show ?thesis by (auto simp: keys_ok_def)
qed

lemma put_rows_ok:
  "store_ok s \<Longrightarrow> \<exists>s'. put_rows fresh now rs s = Inr s' \<and> store_ok s'"
proof (induction rs arbitrary: s)
  case (Cons r rs)
  then obtain s1 where s1: "putFileAndJournal fresh now r s = Inr s1"
    using put_total unfolding store_ok_def by blast
  with Cons.prems have "store_ok s1"
    unfolding store_ok_def by (blast intro: put_journal_ok put_keys_ok)
  then show ?case using Cons.IH s1 by simp
qed simp

lemma journal_ok_same:
  "journal_ok s \<Longrightarrow> share_state t = share_state s \<Longrightarrow> change_journal t = change_journal s \<Longrightarrow> journal_ok t"
  by (rule journal_ok_mono) (auto simp: fmsubset_alt_def fmpred_iff)

lemma park_ok: "store_ok s \<Longrightarrow> store_ok (park r s)"
proof -
  assume s: "store_ok s"
  have "keys_ok (park r s)"
  proof (cases "fmlookup (files s) (fr_ShareID r, fr_RelPath r)")
    case (Some x)
    have "fmpred (\<lambda>(sh, p) r. fr_ShareID r = sh \<and> fr_RelPath r = p) (files s)"
      using s by (simp add: store_ok_def keys_ok_def)
    from fmpredD [OF this Some] show ?thesis
      using s Some by (auto simp: keys_ok_def park_def store_ok_def)
  qed (use s in \<open>simp add: park_def store_ok_def\<close>)
  moreover have "journal_ok (park r s)"
    using s by (auto simp: store_ok_def intro: journal_ok_same)
  ultimately show ?thesis by (simp add: store_ok_def)
qed

lemma fold_park_ok: "store_ok s \<Longrightarrow> store_ok (fold park rs s)"
  by (induction rs arbitrary: s) (simp_all add: park_ok)

lemma put_peer_file_fields [simp]:
  "files (put_peer_file p r s) = files s" "change_journal (put_peer_file p r s) = change_journal s"
  "share_state (put_peer_file p r s) = share_state s" "peer_cursors (put_peer_file p r s) = peer_cursors s"
  "snapshot_staging (put_peer_file p r s) = snapshot_staging s" "holds (put_peer_file p r s) = holds s"
  by (simp_all add: put_peer_file_def)

lemma fold_put_peer_fields [simp]:
  "files (fold (\<lambda>r. put_peer_file p (g r)) rs s) = files s"
  "change_journal (fold (\<lambda>r. put_peer_file p (g r)) rs s) = change_journal s"
  "share_state (fold (\<lambda>r. put_peer_file p (g r)) rs s) = share_state s"
  "peer_cursors (fold (\<lambda>r. put_peer_file p (g r)) rs s) = peer_cursors s"
  "snapshot_staging (fold (\<lambda>r. put_peer_file p (g r)) rs s) = snapshot_staging s"
  "holds (fold (\<lambda>r. put_peer_file p (g r)) rs s) = holds s"
  by (induction rs arbitrary: s) simp_all

lemma put_peer_file_keys: "keys_ok s \<Longrightarrow> keys_ok (put_peer_file p r s)"
  by (auto simp: keys_ok_def put_peer_file_def)

lemma fold_put_peer_keys: "keys_ok s \<Longrightarrow> keys_ok (fold (\<lambda>r. put_peer_file p (g r)) rs s)"
  by (induction rs arbitrary: s) (simp_all add: put_peer_file_keys)

lemma fold_stage_keys:
  "fmpred (\<lambda>(pk, sh, i, p) (b, r). fr_RelPath r = p) m \<Longrightarrow>
   fmpred (\<lambda>(pk, sh, i, p) (b, r). fr_RelPath r = p)
     (fold (\<lambda>r. fmupd (peer, share, i, fr_RelPath r) (batch, r)) rs m)"
proof (induction rs arbitrary: m)
  case (Cons r rs)
  show ?case unfolding fold_Cons o_apply by (rule Cons.IH, rule fmpred_upd) (use Cons.prems in auto)
qed simp

lemma staged_rows_lookup:
  "fmlookup (staged_rows peer share i now s) (pk, sh, p) =
     (if pk = peer \<and> sh = share
      then map_option (\<lambda>(b, r). r\<lparr>fr_ShareID := share, fr_UpdatedAt := now, fr_Ignored := False\<rparr>)
             (fmlookup (snapshot_staging s) (peer, share, i, p))
      else None)"
proof -
  let ?ps = "sorted_list_of_fset ((\<lambda>(_, _, _, p). p) |`|
          ffilter (\<lambda>(pk, sh, sid, _). pk = peer \<and> sh = share \<and> sid = i) (fmdom (snapshot_staging s)))"
  have split: "(\<lambda>p. map_option (\<lambda>(b, r). ((peer, share, p),
              r\<lparr>fr_ShareID := share, fr_UpdatedAt := now, fr_Ignored := False\<rparr>)) (m p)) =
     (\<lambda>p. map_option (\<lambda>v. ((peer, share, p),
         (\<lambda>(b, r). r\<lparr>fr_ShareID := share, fr_UpdatedAt := now, fr_Ignored := False\<rparr>) v)) (m p))"
    for m :: "string \<Rightarrow> (64 word \<times> FileRow) option"
    by (simp add: case_prod_unfold)
  have mem: "p \<in> set ?ps \<longleftrightarrow> (peer, share, i, p) |\<in>| fmdom (snapshot_staging s)"
    by (force simp: sorted_list_of_fset.rep_eq)
  show ?thesis
  proof (cases "pk = peer \<and> sh = share")
    case True
    then show ?thesis
      unfolding staged_rows_def split using mem
      by (auto simp: map_of_map_filter [of "\<lambda>p. (peer, share, p)"] inj_def fmdom_notD)
  next
    case False
    then show ?thesis
      unfolding staged_rows_def split by (auto intro!: map_of_map_filter_None)
  qed
qed

lemma put_step_ok: "store_ok s \<Longrightarrow> store_ok (snd (PutFile fresh now row s))"
  using put_rows_ok [of s fresh now "[row]"] by (auto simp: PutFile_def split: sum.splits)

lemma scan_step_ok:
  assumes "store_ok s"
  shows "fst (ApplyScanResult fresh now res s) = ok \<and> store_ok (snd (ApplyScanResult fresh now res s))"
proof -
  obtain s' where "put_rows fresh now
      (sc_Added res @ sc_ContentChanged res @ sc_MetadataOnly res @ sc_Deleted res) s = Inr s'" "store_ok s'"
    using put_rows_ok [OF assms] by blast
  then show ?thesis by (simp add: ApplyScanResult_def fold_park_ok)
qed

lemma ensure_state_ok: "store_ok s \<Longrightarrow> store_ok (ensure_state fresh sh s)"
  unfolding store_ok_def
proof (intro conjI)
  assume s: "keys_ok s \<and> journal_ok s"
  show "keys_ok (ensure_state fresh sh s)" using s by (simp add: keys_ok_def)
  show "journal_ok (ensure_state fresh sh s)"
  proof (rule journal_okI)
    show "0 < n" if "fmlookup (share_state (ensure_state fresh sh s)) x = Some (e, n)" for x e n
      using that s journal_ok_state by (auto simp: state_of_def split: if_splits option.splits)
    show "fr_ShareID (je_Row j) = x \<and>
        (\<exists>n. fmlookup (share_state (ensure_state fresh sh s)) x = Some (je_Epoch j, n) \<and> 0 < q \<and> q < n)"
      if "fmlookup (change_journal (ensure_state fresh sh s)) (x, q) = Some j" for x q j
    proof -
      have "journal_ok s" "fmlookup (change_journal s) (x, q) = Some j" using s that by simp_all
      then show ?thesis by (rule journal_okD) (auto simp: state_of_def)
    qed
  qed
qed

lemma commit_keys_ok: "keys_ok s \<Longrightarrow> keys_ok (CommitSnapshot peer share i epoch seq now s)"
proof -
  assume k: "keys_ok s"
  have st: "fmpred (\<lambda>(pk, sh, i, p) (b, r). fr_RelPath r = p) (snapshot_staging s)"
    using k by (simp add: keys_ok_def)
  have "fmpred (\<lambda>(pk, sh, p) r. fr_ShareID r = sh \<and> fr_RelPath r = p) (staged_rows peer share i now s)"
  proof (rule fmpredI)
    fix k r assume "fmlookup (staged_rows peer share i now s) k = Some r"
    then show "(case k of (pk, sh, p) \<Rightarrow> \<lambda>r. fr_ShareID r = sh \<and> fr_RelPath r = p) r"
      by (cases k) (auto simp: staged_rows_lookup split: if_splits dest: fmpredD [OF st])
  qed
  then show ?thesis using k by (auto simp: keys_ok_def CommitSnapshot_def)
qed

lemma forget_ok: "store_ok s \<Longrightarrow> store_ok (ForgetSubscription peer share d s)"
proof -
  assume s: "store_ok s"
  then have "keys_ok (ForgetSubscription peer share d s)"
    by (auto simp: store_ok_def keys_ok_def ForgetSubscription_def Let_def)
  moreover have "journal_ok (ForgetSubscription peer share d s)"
  proof (rule journal_okI)
    show "0 < n" if "fmlookup (share_state (ForgetSubscription peer share d s)) x = Some (e, n)" for x e n
      using that s journal_ok_state
      by (auto simp: store_ok_def ForgetSubscription_def Let_def split: if_splits)
    show "fr_ShareID (je_Row j) = x \<and>
        (\<exists>n. fmlookup (share_state (ForgetSubscription peer share d s)) x = Some (je_Epoch j, n) \<and> 0 < q \<and> q < n)"
      if "fmlookup (change_journal (ForgetSubscription peer share d s)) (x, q) = Some j" for x q j
      using that s by (auto simp: store_ok_def ForgetSubscription_def Let_def split: if_splits elim!: journal_okD)
  qed
  ultimately show ?thesis by (simp add: store_ok_def)
qed

lemma step_store_ok:
  assumes "db_step s t" "store_ok s"
  shows "store_ok t"
  using assms
proof (induction rule: db_step.induct)
  case (state s fresh share)
  then show ?case
    using ensure_state_ok by (auto simp: ShareState_def Let_def split: option.splits prod.splits)
next
  case (prune s before)
  have "change_journal (PruneJournal before s) \<subseteq>\<^sub>f change_journal s"
    by (simp add: PruneJournal_def fmsubset_alt_def fmpred_iff)
  then show ?case
    using prune by (auto simp: store_ok_def keys_ok_def PruneJournal_def intro: journal_ok_mono)
next
  case (upsert s peer rows)
  then show ?case
    using fold_put_peer_keys [of s peer "\<lambda>r. r"] journal_ok_same [of s]
    by (simp add: store_ok_def UpsertPeerFiles_def)
next
  case (stage s peer share i batch rows)
  then show ?case
    by (auto simp: store_ok_def keys_ok_def StageSnapshotBatch_def Let_def
        intro!: fold_stage_keys journal_ok_same [of s])
next
  case (commit s peer share i epoch seq now)
  have "journal_ok (CommitSnapshot peer share i epoch seq now s)"
    using commit journal_ok_same [of s "CommitSnapshot peer share i epoch seq now s"]
    by (simp add: store_ok_def CommitSnapshot_def)
  with commit show ?case by (simp add: store_ok_def commit_keys_ok)
next
  case (delta peer share epoch fr t rows now s s')
  let ?f = "fold (\<lambda>r. put_peer_file peer (r\<lparr>fr_ShareID := share, fr_UpdatedAt := now\<rparr>)) rows s"
  have "keys_ok ?f" using delta fold_put_peer_keys by (auto simp: store_ok_def)
  moreover have "keys_ok s' = keys_ok ?f" "journal_ok s' = journal_ok ?f"
    using delta(1) by (auto simp: ApplyPeerDelta_def Let_def keys_ok_def journal_ok_def split: if_splits)
  moreover have "journal_ok ?f" using delta journal_ok_same by (auto simp: store_ok_def)
  ultimately show ?case by (simp add: store_ok_def)
qed (auto simp: put_step_ok scan_step_ok forget_ok,
     auto simp: store_ok_def keys_ok_def SetCursor_def PutHold_def DeleteHold_def intro: journal_ok_same)

section \<open>Properties\<close>

definition ex_row :: "string \<Rightarrow> FileRow" where
  "ex_row p = FileRowFromInfo ''s'' (ex_file p 1 5 ex_va) 7"

definition ex_sender :: store where
  "ex_sender = snd (PutFile ''epoch'' 3 (ex_row ''a.txt'') empty_store)"

interpretation database: kept_by_steps db_step store_ok
  by unfold_locales (rule step_store_ok)

lemma store_ok_empty: "store_ok empty_store"
  by (simp add: store_ok_def keys_ok_def journal_ok_def empty_store_def)

lemma ex_sender_ok: "store_ok ex_sender"
  unfolding ex_sender_def by (rule put_step_ok [OF store_ok_empty])

text \<open>
  C17. Whatever sequence of database operations runs, in any order and with any arguments,
  starting from an empty database: the key columns of every table agree with the rows, no
  journal entry is at or beyond the share's next sequence number or of another epoch, and
  therefore the primary key of the journal never rejects a write: \<^verbatim>\<open>PutFile\<close> and
  \<^verbatim>\<open>ApplyScanResult\<close> always succeed.
\<close>

theorem store_invariant:
  assumes "db_step\<^sup>*\<^sup>* empty_store s"
  shows "store_ok s \<and> fst (PutFile fresh now row s) = ok \<and> fst (ApplyScanResult fresh now result s) = ok"
proof -
  have "store_ok empty_store"
    by (simp add: store_ok_def keys_ok_def journal_ok_def empty_store_def)
  with assms have "store_ok s" by (rule database.reachable)
  then show ?thesis
    using scan_step_ok put_total by (auto simp: PutFile_def store_ok_def split: sum.splits) (metis sum.distinct(1))
qed

theorem store_invariant_witness: "store_ok ex_sender"
  using store_invariant [of ex_sender] db_step.put [of empty_store "''epoch''" 3 "ex_row ''a.txt''"]
  by (simp add: ex_sender_def r_into_rtranclp)

text \<open>
  Parking is silent. Applying a scan result whose only rows are newly ignored ones
  changes neither the journal nor any sequence number, so no peer can learn of it, and keeps
  every column of every row; the listing loses exactly those paths.
\<close>

theorem parking_is_silent:
  "let s' = snd (ApplyScanResult fresh now
         \<lparr>sc_ShareID = share, sc_Added = [], sc_ContentChanged = [], sc_MetadataOnly = [], sc_Deleted = [],
          sc_Ignored = rows, sc_Warnings = []\<rparr> s)
   in change_journal s' = change_journal s \<and> share_state s' = share_state s \<and>
      share_infos share s' = share_infos share s \<and>
      (parked share s' p \<longleftrightarrow> parked share s p \<or>
         (share_infos share s p \<noteq> None \<and> (share, p) \<in> set (map (\<lambda>r. (fr_ShareID r, fr_RelPath r)) rows)))"
proof -
  have "share_infos share (fold park rows s) = share_infos share s \<and>
     (parked share (fold park rows s) p \<longleftrightarrow> parked share s p \<or>
         (share_infos share s p \<noteq> None \<and> (share, p) \<in> set (map (\<lambda>r. (fr_ShareID r, fr_RelPath r)) rows)))"
  proof (induction rows arbitrary: s)
    case (Cons r rows)
    have i: "share_infos share (park r s) = share_infos share s"
      by (auto simp: share_infos_def park_def fun_eq_iff split: option.split)
    have "parked share (park r s) p \<longleftrightarrow>
        parked share s p \<or> share_infos share s p \<noteq> None \<and> (share, p) = (fr_ShareID r, fr_RelPath r)"
      by (auto simp: parked_def share_infos_def park_def split: option.splits)
    with i Cons [of "park r s"] show ?case by auto
  qed simp
  then show ?thesis by (simp add: ApplyScanResult_def Let_def)
qed



text \<open>
  Forgetting a subscription removes the mirror, the cursors and any half-received
  snapshot of that peer and share and, when asked to drop the share, its files, journal and
  epoch, and nothing else: every row of another peer or share is untouched.
\<close>

theorem forget_is_exact:
  "let s' = ForgetSubscription peer share dropShare s in
   fmlookup (peer_files s') (pk, sh, p) = (if pk = peer \<and> sh = share then None else fmlookup (peer_files s) (pk, sh, p)) \<and>
   fmlookup (peer_cursors s') (pk, sh, d) = (if pk = peer \<and> sh = share then None else fmlookup (peer_cursors s) (pk, sh, d)) \<and>
   fmlookup (snapshot_staging s') (pk, sh, i, p) = (if pk = peer \<and> sh = share then None else fmlookup (snapshot_staging s) (pk, sh, i, p)) \<and>
   fmlookup (files s') (sh, p) = (if dropShare \<and> sh = share then None else fmlookup (files s) (sh, p)) \<and>
   fmlookup (change_journal s') (sh, q) = (if dropShare \<and> sh = share then None else fmlookup (change_journal s) (sh, q)) \<and>
   fmlookup (share_state s') sh = (if dropShare \<and> sh = share then None else fmlookup (share_state s) sh) \<and>
   holds s' = holds s"
  by (simp add: ForgetSubscription_def Let_def)

text \<open>
  What is put is what is read: after a successful \<^verbatim>\<open>PutFile\<close>, \<^verbatim>\<open>GetFile\<close> returns exactly
  that row (never parked, even if the path was), the newest journal entry of the share
  carries it under a fresh sequence number, and every other path reads as before.
\<close>

theorem put_then_get:
  assumes "store_ok s"
  shows "let s' = snd (PutFile fresh now row s);
             share = fr_ShareID row;
             (st, s0) = ShareState fresh share s;
             (st', s1) = ShareState fresh share s'
         in GetFile share (fr_RelPath row) s' = Inr (row\<lparr>fr_Ignored := False\<rparr>) \<and>
            st' = (fst st, Suc (snd st)) \<and>
            map_option (\<lambda>j. Info (je_Row j)) (fmlookup (change_journal s') (share, snd st')) = Some (Info row) \<and>
            (p \<noteq> fr_RelPath row \<longrightarrow> GetFile share p s' = GetFile share p s)"
proof -
  let ?sh = "fr_ShareID row"
  obtain e n where st: "state_of fresh ?sh s = (e, n)" by force
  have j: "journal_ok s" using assms by (simp add: store_ok_def)
  then obtain s' where p: "putFileAndJournal fresh now row s = Inr s'" using put_total by blast
  note f = putFileAndJournal_eq [OF j st, of now, unfolded p, simplified]
  have n: "0 < n" using st journal_ok_state [OF j] by (auto simp: state_of_def split: option.splits)
  have s: "ShareState fresh ?sh s = ((e, n - 1), ensure_state fresh ?sh s)"
    using st n by (simp add: ShareState_def Let_def)
  have "state_of fresh ?sh s' = (e, Suc n)" using f by (simp add: state_of_def)
  then have s1: "ShareState fresh ?sh s' = ((e, n), ensure_state fresh ?sh s')"
    by (simp add: ShareState_def Let_def)
  show ?thesis using f n by (simp add: PutFile_def p s s1 GetFile_def)
qed

theorem put_then_get_witness:
  "GetFile ''s'' ''a.txt'' (snd (PutFile ''epoch'' 3 (ex_row ''a.txt'') empty_store)) = Inr (ex_row ''a.txt'')"
  using put_then_get [OF store_ok_empty, of "''epoch''" 3 "ex_row ''a.txt''"]
  by (simp add: ex_row_def FileRowFromInfo_def ex_file_def Let_def case_prod_unfold)

end
