(* ===== verification/SharePath.thy ===== *)
theory SharePath
  imports Wire
begin

text \<open>
  The path boundary of \<^verbatim>\<open>internal/sync/path.go\<close>: \<open>ValidateRelPath\<close>, which decides whether a
  peer-supplied relative path may be used at all, \<open>JoinSharePath\<close>, which joins it onto a
  share root, and \<open>checkNoSymlinkParents\<close>, which walks the joined path's parents. The
  file system is an argument: \<open>lstat\<close> maps an absolute path to the outcome of
  \<open>os.Lstat\<close>.

  The locale \<open>path_guard\<close> states what a validator has to promise for a join to stay below
  its root. It is interpreted twice: on \<open>ValidateRelPath\<close>, and on the wire layer's own
  \<open>validateRelPath\<close> of \<^verbatim>\<open>internal/protocol/message.go\<close>.
\<close>

section \<open>The checks\<close>

definition maxRelPathLen :: nat where "maxRelPathLen = 4096"
definition ReservedDirName :: string where "ReservedDirName = ''.syncat''"
definition TempFilePrefix :: string where "TempFilePrefix = ''.syncat.tmp.''"

definition windowsReservedNames :: "string list" where
  "windowsReservedNames =
     [''CON'', ''PRN'', ''AUX'', ''NUL'',
      ''COM1'', ''COM2'', ''COM3'', ''COM4'', ''COM5'', ''COM6'', ''COM7'', ''COM8'', ''COM9'',
      ''LPT1'', ''LPT2'', ''LPT3'', ''LPT4'', ''LPT5'', ''LPT6'', ''LPT7'', ''LPT8'', ''LPT9'']"

datatype relpath_err =
    RpEmpty | RpTooLong | RpDot | RpAbsolute | RpBackslash | RpColon | RpControl | RpReserved
  | RpEmptyElem | RpDotElem | RpDotDotElem | RpTempPrefix | RpDeviceName

text \<open>The element without its extension: everything before the first dot.\<close>

definition elem_stem :: "string \<Rightarrow> string" where
  "elem_stem e = (case index_byte e (CHR ''.'') of Some i \<Rightarrow> take i e | None \<Rightarrow> e)"

text \<open>
  The reserved names contain none of the letters that a non-ASCII rune can upper-case to,
  so the ASCII part of \<open>strings.ToUpper\<close> decides membership.
\<close>

definition check_elem :: "string \<Rightarrow> relpath_err err" where
  "check_elem e =
     (if e = [] then Some RpEmptyElem
      else if e = ''.'' then Some RpDotElem
      else if e = ''..'' then Some RpDotDotElem
      else if has_prefix e TempFilePrefix then Some RpTempPrefix
      else if to_upper (elem_stem e) \<in> set windowsReservedNames then Some RpDeviceName
      else ok)"

definition ValidateRelPath :: "string \<Rightarrow> relpath_err err" where
  "ValidateRelPath relpath =
     (if relpath = [] then Some RpEmpty
      else if length relpath > maxRelPathLen then Some RpTooLong
      else if relpath = ''.'' \<or> relpath = ''..'' then Some RpDot
      else if has_prefix relpath ''/'' then Some RpAbsolute
      else if CHR 0x5C \<in> set relpath then Some RpBackslash
      else if CHR '':'' \<in> set relpath then Some RpColon
      else if list_ex (\<lambda>r. r = 0 \<or> r < 0x20 \<or> r = 0x7F) (string_runes relpath)
      then Some RpControl
      else if relpath = ReservedDirName \<or> has_prefix relpath (ReservedDirName @ ''/'')
      then Some RpReserved
      else first_err (map check_elem (split_on slash relpath)))"

text \<open>What \<open>os.Lstat\<close> may answer: no such entry, a non-directory above it, another
  error, or the entry's kind.\<close>

datatype lstat_result = LNotExist | LNotDir | LError | LSymlink | LDirectory | LOther

datatype join_err =
    JoinInvalid relpath_err
  | JoinRootNotAbs
  | JoinEscapes
  | JoinSymlinkParent string
  | JoinStat string

fun checkNoSymlinkParents ::
  "(string \<Rightarrow> lstat_result) \<Rightarrow> string \<Rightarrow> string list \<Rightarrow> join_err err" where
  "checkNoSymlinkParents lstat cur [] = ok"
| "checkNoSymlinkParents lstat cur (e # es) =
     (let cur' = path_join [cur, e] in
      case lstat cur' of
        LNotExist \<Rightarrow> ok
      | LNotDir \<Rightarrow> ok
      | LError \<Rightarrow> Some (JoinStat cur')
      | LSymlink \<Rightarrow> Some (JoinSymlinkParent cur')
      | LDirectory \<Rightarrow> checkNoSymlinkParents lstat cur' es
      | LOther \<Rightarrow> ok)"

definition JoinSharePath ::
  "(string \<Rightarrow> lstat_result) \<Rightarrow> string \<Rightarrow> string \<Rightarrow> join_err + string" where
  "JoinSharePath lstat shareRoot relpath =
     (case ValidateRelPath relpath of
        Some e \<Rightarrow> Inl (JoinInvalid e)
      | None \<Rightarrow>
         if \<not> is_abs shareRoot then Inl JoinRootNotAbs
         else
           let cleanRoot = path_clean shareRoot;
               elems = split_on slash relpath;
               full = path_join (cleanRoot # elems)
           in if full \<noteq> cleanRoot \<and> \<not> has_prefix full (cleanRoot @ ''/'') then Inl JoinEscapes
              else case checkNoSymlinkParents lstat cleanRoot (butlast elems) of
                     Some e \<Rightarrow> Inl e
                   | None \<Rightarrow> Inr full)"

section \<open>Cleaned roots\<close>

lemma split_on_append_sep: "split_on c (xs @ c # ys) = split_on c xs @ split_on c ys"
  by (induction xs) (auto split: list.splits)

lemma join_on_append:
  "es \<noteq> [] \<Longrightarrow> ds \<noteq> [] \<Longrightarrow> join_on c (ds @ es) = join_on c ds @ c # join_on c es"
  by (induction ds rule: join_on.induct) (auto simp: join_on_Cons)

lemma path_clean_rooted:
  "is_abs r \<Longrightarrow> path_clean r = slash # join_on slash (clean_elems True [] (split_on slash r))"
  by (cases r) (auto simp: path_clean_def is_abs_def has_prefix_def)

lemma is_abs_clean: "is_abs r \<Longrightarrow> is_abs (path_clean r)"
  by (simp add: path_clean_rooted) (simp add: is_abs_def has_prefix_def)

lemma clean_elems_no_slash:
  "e \<in> set (clean_elems rooted [] (split_on slash p)) \<Longrightarrow> slash \<notin> set e"
  using clean_elems_subset [of rooted "[]" "split_on slash p"] split_on_elem by fastforce

lemma split_clean_root:
  assumes "is_abs r"
  defines "ds \<equiv> clean_elems True [] (split_on slash r)"
  shows "split_on slash (path_clean r) = [] # (if ds = [] then [[]] else ds)"
proof (cases "ds = []")
  case False
  then have "split_on slash (join_on slash ds) = ds"
    by (intro split_join) (auto simp: ds_def clean_elems_no_slash)
  with False assms show ?thesis by (simp add: path_clean_rooted)
qed (use assms in \<open>simp add: path_clean_rooted\<close>)

lemma clean_root_elems:
  assumes "is_abs r"
  shows "clean_elems True [] (split_on slash (path_clean r)) =
         clean_elems True [] (split_on slash r)"
proof -
  have "\<forall>e \<in> set (clean_elems True [] (split_on slash r)). plain_elem e"
    using clean_elems_rooted_plain [of "[]"] by auto
  then show ?thesis
    by (simp add: split_clean_root [OF assms] clean_elems_plain)
qed

section \<open>What a validator must promise\<close>

locale path_guard =
  fixes valid :: "string \<Rightarrow> bool"
  assumes valid_plain: "valid p \<Longrightarrow> e \<in> set (split_on slash p) \<Longrightarrow> plain_elem e"
begin

lemma join_below_root:
  assumes v: "valid p" and a: "is_abs r"
  shows "path_join (path_clean r # split_on slash p) =
         (if path_clean r = ''/'' then slash # p else path_clean r @ slash # p)"
proof -
  let ?ds = "clean_elems True [] (split_on slash r)" and ?es = "split_on slash p"
  have ne: "path_clean r \<noteq> []" using a by (simp add: path_clean_rooted)
  have abs: "is_abs (path_clean r @ slash # p)"
    using is_abs_clean [OF a] by (auto simp: is_abs_def has_prefix_iff)
  have "path_join (path_clean r # ?es) = path_clean (path_clean r @ slash # p)"
    using ne by (simp add: path_join_def join_on_Cons)
  also have "\<dots> = slash # join_on slash
                 (clean_elems True [] (split_on slash (path_clean r) @ ?es))"
    using abs by (simp add: path_clean_rooted split_on_append_sep)
  also have "\<dots> = slash # join_on slash (?ds @ ?es)"
    using v valid_plain by (simp add: clean_elems_append clean_root_elems [OF a])
  also have "\<dots> = (if path_clean r = ''/'' then slash # p else path_clean r @ slash # p)"
  proof (cases "?ds = []")
    case True
    then show ?thesis using a by (simp add: path_clean_rooted)
  next
    case False
    have "\<forall>e \<in> set ?ds. e \<noteq> []"
      using clean_elems_rooted_plain [of "[]"] by (auto simp: plain_elem_def)
    then have "join_on slash ?ds \<noteq> []"
      using False by (cases ?ds; cases "tl ?ds") auto
    with False a show ?thesis by (simp add: path_clean_rooted join_on_append)
  qed
  finally show ?thesis .
qed

end

lemma check_elem_ok:
  "check_elem e = ok \<longleftrightarrow>
     plain_elem e \<and> \<not> has_prefix e TempFilePrefix \<and>
     to_upper (elem_stem e) \<notin> set windowsReservedNames"
  by (auto simp: check_elem_def plain_elem_def)

lemma ValidateRelPath_elem:
  "ValidateRelPath p = ok \<Longrightarrow> e \<in> set (split_on slash p) \<Longrightarrow> check_elem e = ok"
  by (auto simp: ValidateRelPath_def split: if_splits)

interpretation sync_path: path_guard "\<lambda>p. ValidateRelPath p = ok"
  by unfold_locales (auto dest: ValidateRelPath_elem simp: check_elem_ok)

lemma clean_elems_nonempty_elem:
  "\<forall>e \<in> set acc. e \<noteq> [] \<and> e \<noteq> ''.'' \<Longrightarrow> e \<in> set (clean_elems rooted acc es) \<Longrightarrow>
   e \<noteq> [] \<and> e \<noteq> ''.''"
  by (induction rooted acc es rule: clean_elems.induct) (auto split: list.splits if_splits)

lemma wire_relpath_plain:
  assumes v: "validateRelPath p = ok" and e: "e \<in> set (split_on slash p)"
  shows "plain_elem e"
proof -
  let ?out = "clean_elems False [] (split_on slash p)"
  have p: "\<not> has_prefix p ''/''" "path_clean p = p" "p \<noteq> ''.''" "p \<noteq> []"
    "\<not> list_ex (\<lambda>e. e = [] \<or> e = ''..'') (split_on slash p)"
    using v by (auto simp: validateRelPath_def validBoundedText_def split: if_splits)
  then have out: "join_on slash ?out = p"
    by (auto simp: path_clean_def Let_def split: if_splits)
  with p have "?out \<noteq> []" by auto
  then have "split_on slash (join_on slash ?out) = ?out"
    by (intro split_join) (auto simp: clean_elems_no_slash)
  with out e have "e \<in> set ?out" by simp
  then have "e \<noteq> ''.''" using clean_elems_nonempty_elem [of "[]"] by auto
  with p(5) e show ?thesis by (auto simp: plain_elem_def list_ex_iff)
qed

interpretation wire_path: path_guard "\<lambda>p. validateRelPath p = ok"
  by unfold_locales (rule wire_relpath_plain)

interpretation elem_path: path_guard "\<lambda>e. plain_elem e \<and> slash \<notin> set e"
  by unfold_locales (auto simp: split_on_single)

section \<open>The symlink walk\<close>

text \<open>Below a root other than \<open>/\<close>, joining one plain element appends it.\<close>

lemma clean_root_step:
  assumes "is_abs r" "path_clean r = r" "r \<noteq> ''/''" "plain_elem e" "slash \<notin> set e"
  shows "path_join [r, e] = r @ slash # e"
    and "is_abs (r @ slash # e)" "path_clean (r @ slash # e) = r @ slash # e"
proof -
  show j: "path_join [r, e] = r @ slash # e"
    using elem_path.join_below_root [of e r] assms by (simp add: split_on_single)
  show "is_abs (r @ slash # e)"
    using assms(1) by (auto simp: is_abs_def has_prefix_iff)
  have "r \<noteq> []" using assms(1) by (auto simp: is_abs_def has_prefix_iff)
  then have "path_join [r, e] = path_clean (r @ slash # e)"
    using assms(4) by (simp add: path_join_def)
  with j show "path_clean (r @ slash # e) = r @ slash # e" by simp
qed

definition parent_at :: "string \<Rightarrow> string list \<Rightarrow> nat \<Rightarrow> string" where
  "parent_at root elems i = root @ concat (map (\<lambda>e. slash # e) (take (Suc i) elems))"

lemma no_symlink_parents:
  assumes "is_abs r" "path_clean r = r" "r \<noteq> ''/''"
    and "\<forall>e \<in> set es. plain_elem e \<and> slash \<notin> set e"
    and "checkNoSymlinkParents lstat r es = ok"
    and "i < length es" and "\<forall>j < i. lstat (parent_at r es j) = LDirectory"
  shows "lstat (parent_at r es i) \<noteq> LSymlink"
  using assms
proof (induction es arbitrary: r i)
  case (Cons e es)
  note step = clean_root_step [OF Cons.prems(1,2,3)]
  let ?r = "r @ slash # e"
  have j: "path_join [r, e] = ?r" using step(1) Cons.prems(4) by simp
  show ?case
  proof (cases i)
    case 0
    with Cons.prems(5) j show ?thesis
      by (auto simp: parent_at_def Let_def split: lstat_result.splits)
  next
    case (Suc k)
    have dir: "lstat ?r = LDirectory" using Cons.prems(7) Suc by (auto simp: parent_at_def)
    have shift: "parent_at r (e # es) (Suc n) = parent_at ?r es n" for n
      by (simp add: parent_at_def)
    have "lstat (parent_at ?r es k) \<noteq> LSymlink"
    proof (rule Cons.IH)
      show "checkNoSymlinkParents lstat ?r es = ok"
        using Cons.prems(5) j dir by (simp add: Let_def)
      show "\<forall>j < k. lstat (parent_at ?r es j) = LDirectory"
        using Cons.prems(7) Suc shift by auto
      show "?r \<noteq> ''/''" using Cons.prems(1) by (auto simp: is_abs_def has_prefix_iff)
    qed (use Cons.prems Suc step in auto)
    with Suc shift show ?thesis by simp
  qed
qed simp

lemma checkNoSymlinkParents_not_escapes: "checkNoSymlinkParents lstat r es \<noteq> Some JoinEscapes"
  by (induction lstat r es rule: checkNoSymlinkParents.induct)
    (auto simp: Let_def split: lstat_result.splits)

lemma valid_join:
  assumes "ValidateRelPath p = ok" "is_abs root"
  shows "JoinSharePath lstat root p =
    (if path_clean root = ''/'' then Inl JoinEscapes
     else case checkNoSymlinkParents lstat (path_clean root) (butlast (split_on slash p)) of
            Some e \<Rightarrow> Inl e | None \<Rightarrow> Inr (path_clean root @ slash # p))"
proof -
  have "p \<noteq> []" "\<not> has_prefix p ''/''"
    using assms(1) by (auto simp: ValidateRelPath_def split: if_splits)
  then have "\<not> has_prefix (slash # p) ''//''"
    by (auto simp: has_prefix_def)
  moreover have "has_prefix (r @ slash # p) (r @ ''/'')" for r
    by (auto simp: has_prefix_iff)
  ultimately show ?thesis
    using assms \<open>p \<noteq> []\<close> by (simp add: JoinSharePath_def sync_path.join_below_root Let_def split: option.split)
qed

lemma path_clean_idem: "is_abs r \<Longrightarrow> path_clean (path_clean r) = path_clean r"
  by (metis clean_root_elems is_abs_clean path_clean_rooted)

section \<open>Properties\<close>

text \<open>
  C12. A relative path that \<open>JoinSharePath\<close> accepts becomes exactly the cleaned share root,
  a slash and the path, so it lies strictly inside the root: none of its elements is empty,
  \<open>.\<close> or \<open>..\<close>, none is one of syncat's temporary files or a Windows device name, the
  first is not the reserved \<open>.syncat\<close> directory, and no parent directory reached on the
  way is a symbolic link.
\<close>

theorem join_share_path_inside:
  assumes "JoinSharePath lstat root p = Inr full"
  shows "full = path_clean root @ slash # p \<and>
         hd (split_on slash p) \<noteq> ReservedDirName \<and>
         list_all (\<lambda>e. plain_elem e \<and> slash \<notin> set e \<and> \<not> has_prefix e TempFilePrefix \<and>
            to_upper (elem_stem e) \<notin> set windowsReservedNames) (split_on slash p) \<and>
         (\<forall>i. i < length (split_on slash p) - 1 \<and>
           (\<forall>j < i. lstat (parent_at (path_clean root) (split_on slash p) j) = LDirectory) \<longrightarrow>
           lstat (parent_at (path_clean root) (split_on slash p) i) \<noteq> LSymlink)"
proof -
  let ?es = "split_on slash p" and ?r = "path_clean root"
  have v: "ValidateRelPath p = ok" and a: "is_abs root"
    using assms by (auto simp: JoinSharePath_def split: option.splits if_splits)
  have r: "?r \<noteq> ''/''" and f: "full = ?r @ slash # p"
    and c: "checkNoSymlinkParents lstat ?r (butlast ?es) = ok"
    using assms by (auto simp: valid_join [OF v a] split: if_splits option.splits)
  have el: "\<forall>e \<in> set ?es. check_elem e = ok \<and> slash \<notin> set e"
    by (auto intro: ValidateRelPath_elem [OF v] dest: split_on_elem)
  then have plain: "\<forall>e \<in> set (butlast ?es). plain_elem e \<and> slash \<notin> set e"
    by (meson check_elem_ok in_set_butlastD)
  have res: "p \<noteq> ReservedDirName \<and> \<not> has_prefix p (ReservedDirName @ ''/'')"
    using v by (auto simp: ValidateRelPath_def split: if_splits)
  have "hd ?es \<noteq> ReservedDirName"
  proof
    assume h: "hd ?es = ReservedDirName"
    have "p = join_on slash (hd ?es # tl ?es)" by (simp add: list.collapse)
    with h res show False
      by (cases "tl ?es = []") (auto simp: join_on_Cons has_prefix_iff)
  qed
  moreover have "lstat (parent_at ?r ?es i) \<noteq> LSymlink"
    if i: "i < length ?es - 1" and d: "\<forall>j < i. lstat (parent_at ?r ?es j) = LDirectory" for i
  proof -
    have eq: "parent_at ?r (butlast ?es) j = parent_at ?r ?es j" if "j \<le> i" for j
      using that i by (simp add: parent_at_def take_butlast)
    show ?thesis
      using no_symlink_parents [OF is_abs_clean [OF a] path_clean_idem [OF a] r plain c, of i] i d
      by (simp add: eq)
  qed
  ultimately show ?thesis
    using f el by (simp add: check_elem_ok list_all_iff)
qed

text \<open>The hypothesis of C4 at a concrete share.\<close>

theorem join_share_path_inside_witness:
  "JoinSharePath (\<lambda>_. LDirectory) ''/srv/share/'' ''docs/a.txt'' = Inr ''/srv/share/docs/a.txt'' \<and>
   hd (split_on slash ''docs/a.txt'') \<noteq> ReservedDirName"
proof -
  have h: "JoinSharePath (\<lambda>_. LDirectory) ''/srv/share/'' ''docs/a.txt'' =
    Inr ''/srv/share/docs/a.txt''" by code_simp
  show ?thesis using h join_share_path_inside [OF h] by blast
qed

text \<open>
  For a valid relative path and an absolute root, \<open>JoinSharePath\<close>'s final containment
  check (the error about escaping the share root) fires exactly when the cleaned root is
  \<open>/\<close>: it never fires for any other root, and a share rooted at \<open>/\<close> can never be
  joined at all.
\<close>

theorem join_share_path_escape_iff:
  assumes "ValidateRelPath p = ok" and "is_abs root"
  shows "JoinSharePath lstat root p = Inl JoinEscapes \<longleftrightarrow> path_clean root = ''/''"
  using assms checkNoSymlinkParents_not_escapes
  by (auto simp: valid_join split: option.splits)

theorem join_share_path_escape_iff_witness:
  "JoinSharePath (\<lambda>_. LDirectory) ''/'' ''a'' = Inl JoinEscapes \<longleftrightarrow> path_clean ''/'' = ''/''"
proof -
  have v: "ValidateRelPath ''a'' = ok" by code_simp
  have a: "is_abs ''/''" by code_simp
  show ?thesis by (rule join_share_path_escape_iff [OF v a])
qed

end
