(* ===== verification/GoTime.thy ===== *)
theory GoTime
  imports GoText
begin

text \<open>
  The part of Go's \<^verbatim>\<open>time\<close> and \<^verbatim>\<open>strconv\<close> packages the program's file names depend on:
  decimal digits, and \<open>t.UTC().Format("20060102-150405")\<close> for an instant given in
  nanoseconds since the Unix epoch (the proleptic Gregorian calendar).
\<close>

section \<open>Decimal digits\<close>

definition digit :: "nat \<Rightarrow> char" where
  "digit n = char_of (48 + n mod 10)"

fun dec_digits :: "nat \<Rightarrow> string" where
  "dec_digits n = (if n < 10 then [digit n] else dec_digits (n div 10) @ [digit (n mod 10)])"

declare dec_digits.simps [simp del]

definition pad_dec :: "nat \<Rightarrow> int \<Rightarrow> string" where
  "pad_dec w i =
     (let ds = dec_digits (nat \<bar>i\<bar>)
      in (if i < 0 then ''-'' else '''') @ replicate (w - length ds) (CHR ''0'') @ ds)"

definition is_digit :: "char \<Rightarrow> bool" where
  "is_digit c \<longleftrightarrow> (let n = of_char c :: nat in 48 \<le> n \<and> n \<le> 57)"

lemma digit_is_digit [simp]: "is_digit (digit n)"
  by (simp add: is_digit_def digit_def Let_def)

lemma dec_digits_is_digit: "c \<in> set (dec_digits n) \<Longrightarrow> is_digit c"
proof (induction n rule: dec_digits.induct)
  case (1 n)
  then show ?case
    by (subst (asm) dec_digits.simps) (auto split: if_splits)
qed

lemma length_dec_digits_le: "n < 10 ^ Suc k \<Longrightarrow> length (dec_digits n) \<le> Suc k"
proof (induction k arbitrary: n)
  case 0
  then show ?case by (subst dec_digits.simps) simp
next
  case (Suc k)
  show ?case
  proof (cases "n < 10")
    case True
    then show ?thesis by (subst dec_digits.simps) simp
  next
    case False
    have "n div 10 < 10 ^ Suc k" using Suc.prems by (simp add: less_mult_imp_div_less)
    with Suc.IH False show ?thesis by (subst dec_digits.simps) simp
  qed
qed

lemma pad_dec_shape:
  assumes "0 \<le> i" "i < 10 ^ Suc k"
  shows "length (pad_dec (Suc k) i) = Suc k" "\<forall>c \<in> set (pad_dec (Suc k) i). is_digit c"
proof -
  have "nat i < nat (10 ^ Suc k)" using assms by (simp only: nat_mono_iff)
  then have "nat i < 10 ^ Suc k" by (simp only: nat_power_eq nat_numeral)
  then have "length (dec_digits (nat i)) \<le> Suc k" by (rule length_dec_digits_le)
  with assms show "length (pad_dec (Suc k) i) = Suc k" by (simp add: pad_dec_def Let_def)
  have "is_digit (CHR ''0'')" by (simp add: is_digit_def)
  then show "\<forall>c \<in> set (pad_dec (Suc k) i). is_digit c"
    using assms(1) dec_digits_is_digit [of _ "nat i"] by (auto simp: pad_dec_def Let_def)
qed

section \<open>Calendar\<close>

text \<open>Days since 0001-01-01, split into whole 400-, 100-, 4- and 1-year cycles.\<close>

definition civil_year_day :: "int \<Rightarrow> int \<times> int" where
  "civil_year_day days =
     (let d0 = days + 719162;
          n400 = d0 div 146097; d1 = d0 mod 146097;
          n100 = min 3 (d1 div 36524); d2 = d1 - 36524 * n100;
          n4 = d2 div 1461; d3 = d2 mod 1461;
          n1 = min 3 (d3 div 365); yday = d3 - 365 * n1
      in (400 * n400 + 100 * n100 + 4 * n4 + n1 + 1, yday))"

definition is_leap :: "int \<Rightarrow> bool" where
  "is_leap y \<longleftrightarrow> y mod 4 = 0 \<and> (y mod 100 \<noteq> 0 \<or> y mod 400 = 0)"

definition days_before :: "bool \<Rightarrow> int list" where
  "days_before leap = (let l = (if leap then 1 else 0) in
     [0, 31, 59 + l, 90 + l, 120 + l, 151 + l, 181 + l, 212 + l, 243 + l, 273 + l, 304 + l, 334 + l])"

definition month_day :: "bool \<Rightarrow> int \<Rightarrow> int \<times> int" where
  "month_day leap yday =
     (let m = length (takeWhile (\<lambda>b. b \<le> yday) (days_before leap))
      in (int m, yday - days_before leap ! (m - 1) + 1))"

definition format_stamp :: "int \<Rightarrow> string" where
  "format_stamp ns =
     (let sec = ns div 1000000000;
          days = sec div 86400; sod = sec mod 86400;
          (y, yday) = civil_year_day days;
          (m, d) = month_day (is_leap y) yday
      in pad_dec 4 y @ pad_dec 2 m @ pad_dec 2 d @ ''-'' @
         pad_dec 2 (sod div 3600) @ pad_dec 2 (sod mod 3600 div 60) @ pad_dec 2 (sod mod 60))"

lemma int_div_bounds:
  assumes "a * c \<le> (n::int)" "n < b * c" "0 < c"
  shows "a \<le> n div c" "n div c < b"
proof -
  have n: "n = c * (n div c) + n mod c" "0 \<le> n mod c" "n mod c < c" using assms(3) by simp_all
  show "a \<le> n div c"
  proof (rule ccontr)
    assume "\<not> a \<le> n div c"
    then have "(n div c + 1) * c \<le> a * c" using assms(3) by (intro mult_right_mono) auto
    then have "c * (n div c) + c \<le> a * c" by (simp add: algebra_simps)
    with n assms(1) show False by linarith
  qed
  show "n div c < b"
  proof (rule ccontr)
    assume "\<not> n div c < b"
    then have "b * c \<le> (n div c) * c" using assms(3) by (intro mult_right_mono) auto
    then have "b * c \<le> c * (n div c)" by (simp add: algebra_simps)
    with n assms(2) show False by linarith
  qed
qed

text \<open>The remainder after at most three whole cycles of length \<open>c\<close>.\<close>

lemma last_cycle:
  assumes "0 \<le> (d::int)" "d \<le> 4 * c" "0 < c"
  shows "0 \<le> d - c * min 3 (d div c)" "d - c * min 3 (d div c) \<le> c"
proof -
  have m: "d = c * (d div c) + d mod c" "0 \<le> d mod c" "d mod c < c" using assms by simp_all
  have "0 \<le> d - c * min 3 (d div c) \<and> d - c * min 3 (d div c) \<le> c"
  proof (cases "d div c \<le> 3")
    case True
    with m have "d - c * min 3 (d div c) = d mod c" by (simp add: minus_mult_div_eq_mod)
    with m show ?thesis by linarith
  next
    case False
    then have "c * 4 \<le> c * (d div c)" and mn: "min 3 (d div c) = 3" using assms(3) by simp_all
    with m(1,2) assms show ?thesis unfolding mn by linarith
  qed
  then show "0 \<le> d - c * min 3 (d div c)" "d - c * min 3 (d div c) \<le> c" by simp_all
qed

lemma civil_year_day_bounds:
  assumes "civil_year_day days = (y, yday)"
  shows "0 \<le> yday \<and> yday \<le> 365"
proof -
  define d3 where
    "d3 = ((days + 719162) mod 146097
            - 36524 * min 3 ((days + 719162) mod 146097 div 36524)) mod 1461"
  have d3: "0 \<le> d3" "d3 \<le> 4 * 365" and c: "(0::int) < 365" by (simp_all add: d3_def)
  have "yday = d3 - 365 * min 3 (d3 div 365)"
    using assms unfolding civil_year_day_def Let_def d3_def by (simp only: prod.inject)
  then show ?thesis using last_cycle [OF d3 c] by (simp only:)
qed

lemma month_day_bounds:
  assumes "0 \<le> yday" "yday \<le> 365" "month_day leap yday = (m, d)"
  shows "1 \<le> m \<and> m \<le> 12 \<and> 1 \<le> d \<and> d \<le> 32"
  using assms by (cases leap) (auto simp: month_day_def days_before_def Let_def split: if_splits)

lemma min_cycles: "0 \<le> (d::int) \<Longrightarrow> 0 < c \<Longrightarrow> 0 \<le> min 3 (d div c)" "min 3 (d div c) \<le> 3"
  by (simp_all add: pos_imp_zdiv_nonneg_iff)

lemma year_arith:
  assumes "4 \<le> (a::int)" "a < 6" "0 \<le> b" "b \<le> 3" "0 \<le> c" "c < 25" "0 \<le> d" "d \<le> 3"
  shows "1600 \<le> 400 * a + 100 * b + 4 * c + d + 1 \<and> 400 * a + 100 * b + 4 * c + d + 1 \<le> 2400"
  using assms by linarith

text \<open>Every instant that a 64-bit nanosecond count can name has a four-digit year.\<close>

lemma civil_year_int64:
  assumes "- (2 ^ 63) \<le> ns" "ns < 2 ^ 63"
    and "civil_year_day (ns div 1000000000 div 86400) = (y, yday)"
  shows "1600 \<le> y \<and> y \<le> 2400"
proof -
  let ?days = "ns div 1000000000 div 86400"
  have d: "- 9223372037 \<le> ns div 1000000000" "ns div 1000000000 < 9223372037"
    by (rule int_div_bounds [of "- 9223372037" _ _ 9223372037]; use assms(1,2) in simp)+
  have "- 106753 \<le> ?days" "?days < 106753"
    by (rule int_div_bounds [of "- 106753" _ _ 106753]; use d in simp)+
  then have n: "4 \<le> (?days + 719162) div 146097" "(?days + 719162) div 146097 < 6"
    by (intro int_div_bounds [of 4 _ _ 6]; simp)+
  let ?d1 = "(?days + 719162) mod 146097"
  let ?d2 = "?d1 - 36524 * min 3 (?d1 div 36524)"
  have d1: "0 \<le> ?d1" "?d1 \<le> 4 * 36524" by simp_all
  have c: "(0::int) < 36524" and c': "(0::int) < 365" by simp_all
  note d2 = last_cycle [OF d1 c]
  have n4: "0 \<le> ?d2 div 1461" "?d2 div 1461 < 25"
    by (rule int_div_bounds [of 0 _ _ 25]; use d2 in linarith)+
  have m: "0 \<le> ?d2 mod 1461" by (rule pos_mod_sign) simp
  note n1 = min_cycles(1) [OF m c'] and n100 = min_cycles(1) [OF d1(1) c]
  have y: "y = 400 * ((?days + 719162) div 146097) + 100 * min 3 (?d1 div 36524) +
      4 * (?d2 div 1461) + min 3 (?d2 mod 1461 div 365) + 1"
    using assms(3) unfolding civil_year_day_def Let_def by (simp only: prod.inject)
  show ?thesis unfolding y by (rule year_arith [OF n n100 min_cycles(2) n4 n1 min_cycles(2)])
qed

lemma format_stamp_parts:
  assumes "civil_year_day (ns div 1000000000 div 86400) = (y, yday)" "0 \<le> y" "y < 10000"
  shows "\<exists>a b. format_stamp ns = a @ ''-'' @ b \<and> length a = 8 \<and> length b = 6 \<and>
           list_all is_digit a \<and> list_all is_digit b"
proof -
  obtain m d where md: "month_day (is_leap y) yday = (m, d)" by fastforce
  have "1 \<le> m \<and> m \<le> 12 \<and> 1 \<le> d \<and> d \<le> 32"
    using month_day_bounds civil_year_day_bounds assms(1) md by blast
  then have b: "length (pad_dec 4 y) = 4" "length (pad_dec 2 m) = 2" "length (pad_dec 2 d) = 2"
    "list_all is_digit (pad_dec 4 y)" "list_all is_digit (pad_dec 2 m)" "list_all is_digit (pad_dec 2 d)"
    using pad_dec_shape [of y 3] pad_dec_shape [of m 1] pad_dec_shape [of d 1] assms(2,3)
    by (auto simp: list_all_iff eval_nat_numeral)
  let ?s = "ns div 1000000000 mod 86400"
  have s: "0 \<le> ?s" "?s < 86400" by auto
  then have t: "0 \<le> ?s div 3600 \<and> ?s div 3600 < 100" "0 \<le> ?s mod 3600 div 60 \<and> ?s mod 3600 div 60 < 100"
    "0 \<le> ?s mod 60 \<and> ?s mod 60 < 100" by auto
  have p: "length (pad_dec 2 i) = 2 \<and> list_all is_digit (pad_dec 2 i)" if "0 \<le> i \<and> i < 100" for i
    using pad_dec_shape [of i 1] that by (auto simp: list_all_iff eval_nat_numeral)
  let ?a = "pad_dec 4 y @ pad_dec 2 m @ pad_dec 2 d"
  let ?b = "pad_dec 2 (?s div 3600) @ pad_dec 2 (?s mod 3600 div 60) @ pad_dec 2 (?s mod 60)"
  have "format_stamp ns = ?a @ ''-'' @ ?b"
    by (simp add: format_stamp_def assms(1) md Let_def)
  moreover have "length ?a = 8" "length ?b = 6" "list_all is_digit ?a" "list_all is_digit ?b"
    using b p [OF t(1)] p [OF t(2)] p [OF t(3)] by auto
  ultimately show ?thesis by blast
qed

lemma format_stamp_int64:
  assumes "- (2 ^ 63) \<le> ns" "ns < 2 ^ 63"
  shows "\<exists>a b. format_stamp ns = a @ ''-'' @ b \<and> length a = 8 \<and> length b = 6 \<and>
           list_all is_digit a \<and> list_all is_digit b"
proof -
  obtain y yday where yd: "civil_year_day (ns div 1000000000 div 86400) = (y, yday)" by fastforce
  show ?thesis using format_stamp_parts [OF yd] civil_year_int64 [OF assms yd] by auto
qed

end
