(* ===== verification/Reconcile.thy ===== *)
theory Reconcile
  imports SharePath GoTime
begin

text \<open>
  The pure decision layer of \<^verbatim>\<open>internal/sync/reconcile.go\<close>: the actions, the direction
  rules, the conflict-copy names, and \<open>Reconcile\<close> with \<open>reconcileOne\<close>,
  \<open>reconcileConcurrent\<close> and the tie-break. A Go pair \<open>(row, present)\<close> is an option. The
  clock is the instant it would return, in nanoseconds since the Unix epoch. The free-text
  \<open>Reason\<close> of an action is a datatype with one constructor per message of the source.
\<close>

section \<open>Actions\<close>

datatype ActionKind =
    ActionNone | ActionPull | ActionDelete | ActionResurrect | ActionConflictCopy
  | ActionLocallyModified

datatype ActionSource = SourceNone | SourceLocal | SourceRemote

datatype Reason =
    NoReason
  | RejectedRelPath relpath_err
  | RejectedSymlink
  | InboundBlockedReason
  | LocalOnlyReceiveOnly
  | LocalOnlyPeerPulls
  | RemoteOnlyTombstone
  | RemoteOnlyFile
  | VersionsEqual
  | RemoteDominatesDelete
  | RemoteDominates
  | LocalDominatesReceiveOnly
  | LocalDominatesPeerPulls
  | ConcurrentReceiveOnly
  | ModifyWins
  | TombstonesMerge
  | ContentIdentical
  | ConcurrentModification
  | IgnoredReason

definition zero_FileInfo :: FileInfo where
  "zero_FileInfo =
     \<lparr> fi_RelPath = [], fi_Type = [], fi_Size = 0, fi_MTimeNS = 0, fi_Mode = 0,
       fi_SHA256 = [], fi_Version = fmempty, fi_Deleted = False \<rparr>"

record Action =
  ac_Kind :: ActionKind
  ac_RelPath :: string
  ac_Resolved :: FileInfo
  ac_Source :: ActionSource
  ac_SourceVersion :: version_vector
  ac_ConflictRelPath :: string
  ac_ConflictInfo :: FileInfo
  ac_ConflictSource :: ActionSource
  ac_LocallyModified :: bool
  ac_Reason :: Reason

text \<open>The Go zero value, which every composite literal of the source starts from.\<close>

definition zero_Action :: Action where
  "zero_Action =
     \<lparr> ac_Kind = ActionNone, ac_RelPath = [], ac_Resolved = zero_FileInfo,
       ac_Source = SourceNone, ac_SourceVersion = fmempty, ac_ConflictRelPath = [],
       ac_ConflictInfo = zero_FileInfo, ac_ConflictSource = SourceNone,
       ac_LocallyModified = False, ac_Reason = NoReason \<rparr>"

definition none_action :: "string \<Rightarrow> Reason \<Rightarrow> Action" where
  "none_action p why =
     zero_Action\<lparr> ac_Kind := ActionNone, ac_RelPath := p, ac_Reason := why \<rparr>"

record Direction =
  InboundBlocked :: bool
  OutboundBlocked :: bool

definition PermissionReadOnly :: string where "PermissionReadOnly = ''read-only''"
definition PermissionReadWrite :: string where "PermissionReadWrite = ''read-write''"
definition ModeMirror :: string where "ModeMirror = ''mirror''"
definition ModeReceiveOnly :: string where "ModeReceiveOnly = ''receive-only''"

definition DirectionFor :: "string \<Rightarrow> string \<Rightarrow> Direction" where
  "DirectionFor permission subscriptionMode =
     \<lparr> InboundBlocked = (permission = PermissionReadOnly),
       OutboundBlocked = (subscriptionMode = ModeReceiveOnly) \<rparr>"

section \<open>Conflict-copy names\<close>

definition conflict_prefix :: string where
  "conflict_prefix = ''.sync-conflict-''"

text \<open>The length of a match of \<open>conflictMarkerRe\<close> at the start of the string.\<close>

definition match_marker :: "string \<Rightarrow> nat option" where
  "match_marker s =
     (let t = drop (length conflict_prefix) s;
          h = length (takeWhile is_lower_hex (drop 16 t))
      in if has_prefix s conflict_prefix \<and> 16 \<le> length t \<and>
            list_all is_digit (take 8 t) \<and> t ! 8 = CHR ''-'' \<and>
            list_all is_digit (take 6 (drop 9 t)) \<and> t ! 15 = CHR ''-'' \<and> 0 < h
         then Some (length conflict_prefix + 16 + h) else None)"

text \<open>\<open>conflictMarkerRe.ReplaceAllString(base, "")\<close>: leftmost matches, not overlapping.\<close>

function strip_markers :: "string \<Rightarrow> string" where
  "strip_markers [] = []"
| "strip_markers (c # cs) =
     (case match_marker (c # cs) of
        Some n \<Rightarrow> strip_markers (drop (n - 1) cs)
      | None \<Rightarrow> c # strip_markers cs)"
  by pat_completeness auto
termination
  by (relation "measure length") (auto simp: le_imp_less_Suc)

definition splitExt :: "string \<Rightarrow> string \<times> string" where
  "splitExt base = (case last_index_byte base (CHR ''.'') of
       None \<Rightarrow> (base, [])
     | Some i \<Rightarrow> if i = 0 then (base, []) else (take i base, drop i base))"

definition ConflictRelPath :: "string \<Rightarrow> string \<Rightarrow> int \<Rightarrow> string" where
  "ConflictRelPath relpath i now =
     (let (dir, base) = path_split relpath;
          (name, ext) = splitExt (strip_markers base)
      in dir @ name @ conflict_prefix @ format_stamp now @ ''-'' @ i @ ext)"

definition conflictIDLen :: nat where "conflictIDLen = 4"

definition loserConflictRelPath :: "string \<Rightarrow> FileInfo \<Rightarrow> string \<Rightarrow> int \<Rightarrow> string" where
  "loserConflictRelPath relpath loser nodeID now =
     (let i = hex_encode (take conflictIDLen (fi_SHA256 loser));
          p = ConflictRelPath relpath i (fi_MTimeNS loser)
      in if conflictIDLen \<le> length (fi_SHA256 loser) \<and> p \<noteq> relpath then p
         else ConflictRelPath relpath nodeID now)"

section \<open>The reconciler\<close>

definition isDirEntry :: "FileInfo option \<Rightarrow> FileInfo option \<Rightarrow> bool" where
  "isDirEntry l r = (case l of
       Some f \<Rightarrow> fi_Type f = FileTypeDir
     | None \<Rightarrow> (case r of Some f \<Rightarrow> fi_Type f = FileTypeDir | None \<Rightarrow> False))"

definition indexByPath :: "FileInfo list \<Rightarrow> (string, FileInfo) fmap" where
  "indexByPath files = fold (\<lambda>f m. fmupd (fi_RelPath f) f m) files fmempty"

definition conflictWinnerIsRemote :: "FileInfo \<Rightarrow> FileInfo \<Rightarrow> bool" where
  "conflictWinnerIsRemote l r =
     (if fi_MTimeNS r \<noteq> fi_MTimeNS l then fi_MTimeNS r > fi_MTimeNS l
      else fi_SHA256 r > fi_SHA256 l)"

definition reconcileIdenticalContent :: "string \<Rightarrow> FileInfo \<Rightarrow> FileInfo \<Rightarrow> Action" where
  "reconcileIdenticalContent relpath l r =
     zero_Action\<lparr> ac_Kind := ActionPull, ac_RelPath := relpath,
       ac_Resolved := l\<lparr> fi_Version := Merge (fi_Version l) (fi_Version r), fi_RelPath := relpath \<rparr>,
       ac_Source := SourceNone, ac_Reason := ContentIdentical \<rparr>"

definition reconcileConcurrent ::
  "string \<Rightarrow> FileInfo \<Rightarrow> FileInfo \<Rightarrow> string \<Rightarrow> Direction \<Rightarrow> int \<Rightarrow> Action" where
  "reconcileConcurrent relpath l r nodeID dir now =
     (if OutboundBlocked dir \<and> \<not> fi_Deleted l then
        zero_Action\<lparr> ac_Kind := ActionLocallyModified, ac_RelPath := relpath,
          ac_Resolved := r, ac_Source := SourceRemote, ac_SourceVersion := fi_Version r,
          ac_LocallyModified := True, ac_Reason := ConcurrentReceiveOnly \<rparr>
      else
      let merged = Bump (Merge (fi_Version l) (fi_Version r)) nodeID in
      if fi_Deleted l \<noteq> fi_Deleted r then
        (let (winner, source) = (if \<not> fi_Deleted l then (l, SourceLocal) else (r, SourceRemote))
         in zero_Action\<lparr> ac_Kind := ActionResurrect, ac_RelPath := relpath,
              ac_Resolved := winner\<lparr> fi_Version := merged, fi_RelPath := relpath \<rparr>,
              ac_Source := source, ac_SourceVersion := fi_Version winner,
              ac_Reason := ModifyWins \<rparr>)
      else if fi_Deleted l then
        zero_Action\<lparr> ac_Kind := ActionDelete, ac_RelPath := relpath,
          ac_Resolved := r\<lparr> fi_Version := merged, fi_RelPath := relpath \<rparr>,
          ac_Source := SourceNone, ac_Reason := TombstonesMerge \<rparr>
      else if fi_SHA256 l = fi_SHA256 r then reconcileIdenticalContent relpath l r
      else
        (let (winner, loser, winnerSource, loserSource) =
               (if conflictWinnerIsRemote l r then (r, l, SourceRemote, SourceLocal)
                else (l, r, SourceLocal, SourceRemote));
             conflictPath = loserConflictRelPath relpath loser nodeID now
         in zero_Action\<lparr> ac_Kind := ActionConflictCopy, ac_RelPath := relpath,
              ac_Resolved := winner\<lparr> fi_Version := merged, fi_RelPath := relpath \<rparr>,
              ac_Source := winnerSource, ac_SourceVersion := fi_Version winner,
              ac_ConflictRelPath := conflictPath,
              ac_ConflictInfo := loser\<lparr> fi_RelPath := conflictPath \<rparr>,
              ac_ConflictSource := loserSource, ac_Reason := ConcurrentModification \<rparr>))"

text \<open>The first check of \<open>reconcileOne\<close>: a remote entry that must not be acted on.\<close>

definition rejectRemote :: "FileInfo option \<Rightarrow> Reason option" where
  "rejectRemote remote = (case remote of
       None \<Rightarrow> None
     | Some r \<Rightarrow> (case ValidateRelPath (fi_RelPath r) of
          Some e \<Rightarrow> Some (RejectedRelPath e)
        | None \<Rightarrow> if fi_Type r = FileTypeSymlink then Some RejectedSymlink else None))"

definition reconcileOne ::
  "string \<Rightarrow> FileInfo option \<Rightarrow> FileInfo option \<Rightarrow> string \<Rightarrow> Direction \<Rightarrow> int \<Rightarrow> Action" where
  "reconcileOne relpath local remote nodeID dir now =
     (case rejectRemote remote of
        Some why \<Rightarrow> none_action relpath why
      | None \<Rightarrow>
     if InboundBlocked dir then none_action relpath InboundBlockedReason
     else case remote of
       None \<Rightarrow>
         if OutboundBlocked dir then
           zero_Action\<lparr> ac_Kind := ActionLocallyModified, ac_RelPath := relpath,
             ac_LocallyModified := True, ac_Reason := LocalOnlyReceiveOnly \<rparr>
         else none_action relpath LocalOnlyPeerPulls
     | Some r \<Rightarrow> (case local of
         None \<Rightarrow>
           if fi_Deleted r then
             zero_Action\<lparr> ac_Kind := ActionDelete, ac_RelPath := relpath, ac_Resolved := r,
               ac_Source := SourceNone, ac_Reason := RemoteOnlyTombstone \<rparr>
           else
             zero_Action\<lparr> ac_Kind := ActionPull, ac_RelPath := relpath, ac_Resolved := r,
               ac_Source := SourceRemote, ac_SourceVersion := fi_Version r,
               ac_Reason := RemoteOnlyFile \<rparr>
       | Some l \<Rightarrow>
           if Equal (fi_Version l) (fi_Version r) then none_action relpath VersionsEqual
           else if Dominates (fi_Version r) (fi_Version l) then
             (if fi_Deleted r then
                zero_Action\<lparr> ac_Kind := ActionDelete, ac_RelPath := relpath, ac_Resolved := r,
                  ac_Source := SourceNone, ac_Reason := RemoteDominatesDelete \<rparr>
              else
                zero_Action\<lparr> ac_Kind := ActionPull, ac_RelPath := relpath, ac_Resolved := r,
                  ac_Source := SourceRemote, ac_SourceVersion := fi_Version r,
                  ac_Reason := RemoteDominates \<rparr>)
           else if Dominates (fi_Version l) (fi_Version r) then
             (if OutboundBlocked dir then
                zero_Action\<lparr> ac_Kind := ActionLocallyModified, ac_RelPath := relpath,
                  ac_LocallyModified := True, ac_Reason := LocalDominatesReceiveOnly \<rparr>
              else none_action relpath LocalDominatesPeerPulls)
           else reconcileConcurrent relpath l r nodeID dir now))"

text \<open>One path of the loop of \<open>Reconcile\<close>. \<open>ignore = None\<close> is a nil function.\<close>

definition reconcilePath ::
  "(string, FileInfo) fmap \<Rightarrow> (string, FileInfo) fmap \<Rightarrow> string \<Rightarrow> Direction \<Rightarrow> int \<Rightarrow>
   (string \<Rightarrow> bool \<Rightarrow> bool) option \<Rightarrow> string \<Rightarrow> Action" where
  "reconcilePath localByPath remoteByPath nodeID dir now ignore p =
     (let l = fmlookup localByPath p;
          r = fmlookup remoteByPath p;
          malformed = (case r of None \<Rightarrow> False
            | Some f \<Rightarrow> ValidateRelPath (fi_RelPath f) \<noteq> ok \<or> fi_Type f = FileTypeSymlink);
          ignored = (case ignore of None \<Rightarrow> False | Some ig \<Rightarrow> ig p (isDirEntry l r))
      in if \<not> malformed \<and> ignored then none_action p IgnoredReason
         else reconcileOne p l r nodeID dir now)"

definition Reconcile ::
  "FileInfo list \<Rightarrow> FileInfo list \<Rightarrow> string \<Rightarrow> Direction \<Rightarrow> int \<Rightarrow>
   (string \<Rightarrow> bool \<Rightarrow> bool) option \<Rightarrow> Action list" where
  "Reconcile local remote nodeID dir now ignore =
     (let localByPath = indexByPath local; remoteByPath = indexByPath remote;
          sorted = sorted_list_of_fset (fmdom localByPath |\<union>| fmdom remoteByPath)
      in map (reconcilePath localByPath remoteByPath nodeID dir now ignore) sorted)"

section \<open>Lemmas\<close>

lemmas action_simps [simp] = zero_Action_def none_action_def

lemma reconcileConcurrent_RelPath [simp]:
  "ac_RelPath (reconcileConcurrent p l r n dir now) = p"
  by (simp add: reconcileConcurrent_def reconcileIdenticalContent_def Let_def split: prod.split)

lemma reconcileOne_RelPath [simp]: "ac_RelPath (reconcileOne p l r n dir now) = p"
  by (simp add: reconcileOne_def split: option.split)

lemma reconcilePath_RelPath [simp]: "ac_RelPath (reconcilePath L R n dir now ig p) = p"
  by (simp add: reconcilePath_def Let_def)

lemma fmdom_indexByPath_fold:
  "fset (fmdom (fold (\<lambda>f m. fmupd (fi_RelPath f) f m) fs m)) = fi_RelPath ` set fs \<union> fset (fmdom m)"
  by (induction fs arbitrary: m) auto

lemma fmdom_indexByPath: "fset (fmdom (indexByPath fs)) = fi_RelPath ` set fs"
  by (simp add: indexByPath_def fmdom_indexByPath_fold)

lemma fmlookup_indexByPath_fold:
  "fmlookup (fold (\<lambda>f m. fmupd (fi_RelPath f) f m) fs m) p =
     (case find (\<lambda>f. fi_RelPath f = p) (rev fs) of None \<Rightarrow> fmlookup m p | Some f \<Rightarrow> Some f)"
  by (induction fs arbitrary: m) (auto simp: find_snoc split: option.split)

lemma fmlookup_indexByPath: "fmlookup (indexByPath fs) p = find (\<lambda>f. fi_RelPath f = p) (rev fs)"
  by (simp add: indexByPath_def fmlookup_indexByPath_fold split: option.split)

lemma indexByPath_path: "fmlookup (indexByPath fs) p = Some f \<Longrightarrow> fi_RelPath f = p \<and> f \<in> set fs"
  by (auto simp: fmlookup_indexByPath dest!: find_mem)

lemma Concurrent_iff: "Concurrent a b \<longleftrightarrow> vv.concurrent a b"
  by (simp add: Concurrent_def vv.concurrent_def)

lemma Concurrent_sym: "Concurrent a b \<Longrightarrow> Concurrent b a"
  unfolding Concurrent_def Equal_iff by metis

text \<open>Outside the reject, direction and one-sided cases the decision is by the vectors.\<close>

lemma reconcileOne_concurrent:
  assumes "Concurrent (fi_Version l) (fi_Version r)" "rejectRemote (Some r) = None"
    "\<not> InboundBlocked dir"
  shows "reconcileOne p (Some l) (Some r) n dir now = reconcileConcurrent p l r n dir now"
  using assms by (simp add: reconcileOne_def Concurrent_def)

lemma Merge_sym_mget: "mget (Merge a b) = mget (Merge b a)"
  by (rule ext) (simp add: max.commute)

lemma Equal_mget: "Equal a b \<longleftrightarrow> mget a = mget b"
  by (auto simp: Equal_iff)

lemma Bump_not_Equal:
  assumes "m \<noteq> n" "has_room v m" "mget v = mget w"
  shows "\<not> Equal (Bump v m) (Bump w n)"
proof
  assume "Equal (Bump v m) (Bump w n)"
  then have "mget (Bump v m) m = mget (Bump w n) m" unfolding Equal_iff by blast
  then have "mget v m + 1 = mget v m" using assms by simp
  with assms(2) show False by simp
qed

text \<open>Two different nodes resolving one conflict end up with concurrent versions.\<close>

lemma Bump_concurrent:
  assumes "m \<noteq> n" "mget v = mget w" "has_room v m" "has_room v n"
  shows "Concurrent (Bump v m) (Bump w n)"
proof -
  have "mget (Bump w n) = mget (Bump v n)" using assms(2) by (auto simp: fun_eq_iff)
  moreover have "vv.concurrent (Bump v m) (Bump v n)"
    using assms by (intro vv.resolutions_concurrent) (simp_all add: Bump_not_Equal)
  ultimately show ?thesis
    unfolding Concurrent_def vv.concurrent_def Equal_iff Dominates_iff by simp
qed

lemma winner_antisym:
  assumes "fi_SHA256 l \<noteq> fi_SHA256 r"
  shows "conflictWinnerIsRemote r l \<longleftrightarrow> \<not> conflictWinnerIsRemote l r"
  using assms by (auto simp: conflictWinnerIsRemote_def)

text \<open>The action for a genuine content conflict, written out.\<close>

definition conflict_action :: "string \<Rightarrow> FileInfo \<Rightarrow> FileInfo \<Rightarrow> string \<Rightarrow> int \<Rightarrow> Action" where
  "conflict_action p l r n now =
     (let remote = conflictWinnerIsRemote l r;
          winner = (if remote then r else l); loser = (if remote then l else r);
          cp = loserConflictRelPath p loser n now
      in zero_Action\<lparr> ac_Kind := ActionConflictCopy, ac_RelPath := p,
           ac_Resolved := winner\<lparr> fi_Version := Bump (Merge (fi_Version l) (fi_Version r)) n,
                                  fi_RelPath := p \<rparr>,
           ac_Source := (if remote then SourceRemote else SourceLocal),
           ac_SourceVersion := fi_Version winner,
           ac_ConflictRelPath := cp, ac_ConflictInfo := loser\<lparr> fi_RelPath := cp \<rparr>,
           ac_ConflictSource := (if remote then SourceLocal else SourceRemote),
           ac_Reason := ConcurrentModification \<rparr>)"

lemma reconcileConcurrent_conflict:
  assumes "\<not> OutboundBlocked dir" "\<not> fi_Deleted l" "\<not> fi_Deleted r" "fi_SHA256 l \<noteq> fi_SHA256 r"
  shows "reconcileConcurrent p l r n dir now = conflict_action p l r n now"
  using assms by (simp add: reconcileConcurrent_def conflict_action_def Let_def)

text \<open>One content under two concurrent versions: only the versions are merged.\<close>

lemma reconcileOne_same_content:
  assumes "ValidateRelPath p = ok" "fi_Type w \<noteq> FileTypeSymlink" "\<not> fi_Deleted w" "Concurrent u v"
  shows "reconcileOne p (Some (w\<lparr>fi_Version := u, fi_RelPath := p\<rparr>))
      (Some (w\<lparr>fi_Version := v, fi_RelPath := p\<rparr>)) n
      \<lparr>InboundBlocked = False, OutboundBlocked = False\<rparr> t =
    zero_Action\<lparr> ac_Kind := ActionPull, ac_RelPath := p,
      ac_Resolved := w\<lparr>fi_Version := Merge u v, fi_RelPath := p\<rparr>,
      ac_Source := SourceNone, ac_Reason := ContentIdentical \<rparr>"
  using assms
  by (subst reconcileOne_concurrent)
    (auto simp: rejectRemote_def reconcileConcurrent_def reconcileIdenticalContent_def)

lemma reconcileOne_same_version:
  assumes "ValidateRelPath p = ok" "fi_Type w \<noteq> FileTypeSymlink" "mget u = mget v"
  shows "reconcileOne p (Some (w\<lparr>fi_Version := u, fi_RelPath := p\<rparr>))
      (Some (w\<lparr>fi_Version := v, fi_RelPath := p\<rparr>)) n
      \<lparr>InboundBlocked = False, OutboundBlocked = ob\<rparr> t = none_action p VersionsEqual"
  using assms by (auto simp: reconcileOne_def rejectRemote_def Equal_mget)

text \<open>What every action other than \<open>ActionNone\<close> presupposes.\<close>

lemma reconcileOne_not_none:
  assumes "ac_Kind (reconcileOne p l r n dir now) \<noteq> ActionNone"
  shows "\<not> InboundBlocked dir" "rejectRemote r = None"
    "r = None \<Longrightarrow> ac_Kind (reconcileOne p l r n dir now) = ActionLocallyModified \<and> OutboundBlocked dir"
  using assms by (simp_all add: reconcileOne_def split: option.splits if_splits)

lemma reconcileOne_receive_only:
  "OutboundBlocked dir \<Longrightarrow> ac_Kind (reconcileOne p l r n dir now) \<noteq> ActionConflictCopy"
  by (cases r; cases l)
    (simp_all add: reconcileOne_def reconcileConcurrent_def Let_def split: option.split)

lemma reconcilePath_split:
  "reconcilePath L R n dir now ignore p =
     (if rejectRemote (fmlookup R p) = None \<and>
         (\<exists>ig. ignore = Some ig \<and> ig p (isDirEntry (fmlookup L p) (fmlookup R p)))
      then none_action p IgnoredReason
      else reconcileOne p (fmlookup L p) (fmlookup R p) n dir now)"
  by (auto simp: reconcilePath_def rejectRemote_def Let_def split: option.split)

section \<open>Conflict names stay apart\<close>

lemma path_split_join: "fst (path_split p) @ snd (path_split p) = p"
  by (auto simp: path_split_def split: option.split)

lemma path_split_base: "slash \<notin> set (snd (path_split p))"
proof (cases "last_index_byte p slash")
  case None
  then show ?thesis
    by (induction p) (auto simp: path_split_def split: option.splits if_splits)
next
  case (Some i)
  then show ?thesis using last_index_byte_Some [OF Some] by (simp add: path_split_def)
qed

lemma splitExt_join: "fst (splitExt b) @ snd (splitExt b) = b"
  by (auto simp: splitExt_def split: option.split)

lemma strip_markers_subset: "set (strip_markers s) \<subseteq> set s"
  by (induction s rule: strip_markers.induct) (auto split: option.splits dest!: in_set_dropD)

lemma path_split_append:
  assumes "slash \<notin> set b"
  shows "path_split (d @ b) = (fst (path_split d), snd (path_split d) @ b)"
proof -
  have nb: "last_index_byte b slash = None"
    using assms by (induction b) (auto split: option.split)
  have "last_index_byte (d @ b) slash = last_index_byte d slash"
    using nb by (induction d) (auto split: option.split)
  then show ?thesis
    using last_index_byte_Some [of d slash] by (auto simp: path_split_def split: option.split)
qed

lemma path_split_dir: "path_split (fst (path_split p)) = (fst (path_split p), [])"
proof (cases "last_index_byte p slash")
  case (Some i)
  have "last_index_byte (xs @ [slash]) slash = Some (length xs)" for xs :: string
    by (induction xs) auto
  moreover have "take (Suc i) p = take i p @ [slash]"
    using last_index_byte_Some [OF Some] by (simp add: take_Suc_conv_app_nth)
  moreover have "length (take i p) = i"
    using last_index_byte_Some [OF Some] by simp
  ultimately show ?thesis using Some by (simp add: path_split_def)
qed (simp add: path_split_def)

lemma ConflictRelPath_inj:
  assumes "ConflictRelPath p i now = ConflictRelPath p i' now'"
    "length (format_stamp now) = length (format_stamp now')"
  shows "i = i'"
  using assms by (auto simp: ConflictRelPath_def Let_def split: prod.splits)

lemma ConflictRelPath_dir:
  assumes "slash \<notin> set i" "slash \<notin> set (format_stamp now)"
  shows "fst (path_split (ConflictRelPath p i now)) = fst (path_split p)"
proof -
  obtain name ext where ne: "splitExt (strip_markers (snd (path_split p))) = (name, ext)"
    by fastforce
  have "set (name @ ext) \<subseteq> set (snd (path_split p))"
    using splitExt_join [of "strip_markers (snd (path_split p))"] strip_markers_subset
    by (simp add: ne)
  then have "slash \<notin> set (name @ conflict_prefix @ format_stamp now @ ''-'' @ i @ ext)"
    using assms path_split_base [of p] by (auto simp: conflict_prefix_def)
  then have "path_split (fst (path_split p) @ name @ conflict_prefix @ format_stamp now @ ''-'' @ i @ ext)
    = (fst (path_split p), name @ conflict_prefix @ format_stamp now @ ''-'' @ i @ ext)"
    by (simp add: path_split_append path_split_dir)
  then show ?thesis
    using ne by (cases "path_split p") (simp add: ConflictRelPath_def)
qed

lemma stamp_shape:
  assumes "- (2 ^ 63) \<le> ns" "ns < 2 ^ 63"
  shows "length (format_stamp ns) = 15" "slash \<notin> set (format_stamp ns)"
proof -
  obtain a b where ab: "format_stamp ns = a @ ''-'' @ b" "length a = 8" "length b = 6"
    "list_all is_digit a" "list_all is_digit b"
    using format_stamp_int64 [OF assms] by blast
  moreover have "\<not> is_digit slash" by (simp add: is_digit_def)
  ultimately show "length (format_stamp ns) = 15" "slash \<notin> set (format_stamp ns)"
    by (auto simp: list_all_iff)
qed

lemma hex_no_slash: "slash \<notin> set (hex_encode bs)"
  using hex_encode_lower_hex [of slash bs] by (auto simp: is_lower_hex_def)

section \<open>Properties\<close>

text \<open>
  \<open>Reconcile\<close> returns exactly one action for every path of either side, in strictly
  ascending path order, and the action for a path is decided from the last row either side
  holds for it.
\<close>

theorem reconcile_one_action_per_path:
  "map ac_RelPath (Reconcile local remote nodeID dir now ignore) =
     sorted_list_of_set (fi_RelPath ` set local \<union> fi_RelPath ` set remote) \<and>
   sorted_wrt (<) (map ac_RelPath (Reconcile local remote nodeID dir now ignore)) \<and>
   Reconcile local remote nodeID dir now ignore =
     map (\<lambda>p. reconcilePath (indexByPath local) (indexByPath remote) nodeID dir now ignore p)
       (map ac_RelPath (Reconcile local remote nodeID dir now ignore)) \<and>
   fmlookup (indexByPath local) p = find (\<lambda>f. fi_RelPath f = p) (rev local)"
proof -
  have s: "sorted_list_of_fset (fmdom (indexByPath local) |\<union>| fmdom (indexByPath remote)) =
    sorted_list_of_set (fi_RelPath ` set local \<union> fi_RelPath ` set remote)"
    by (simp add: sorted_list_of_fset.rep_eq fmdom_indexByPath)
  have m: "map ac_RelPath (Reconcile local remote nodeID dir now ignore) =
    sorted_list_of_set (fi_RelPath ` set local \<union> fi_RelPath ` set remote)"
    by (simp add: Reconcile_def Let_def s comp_def)
  moreover have "sorted_wrt (<) (sorted_list_of_set (fi_RelPath ` set local \<union> fi_RelPath ` set remote))"
    by (rule strict_sorted_list_of_set)
  ultimately show ?thesis
    by (simp add: Reconcile_def Let_def s comp_def fmlookup_indexByPath)
qed

text \<open>
  C9. Two nodes that edited the same file apart agree. Each resolves the conflict on its
  own (one sees \<open>x\<close> locally and \<open>y\<close> at the peer, the other the reverse); both keep the
  same winning content and write the same conflict copy under the same name. Exchanging the
  results, each then only merges versions, no further copy is made, and the third round
  finds equal versions on both sides.
\<close>

theorem conflict_resolution_converges:
  fixes x y :: FileInfo and p na nb :: string and now now' :: int
  defines "va \<equiv> \<lparr>InboundBlocked = False, OutboundBlocked = False\<rparr>"
  defines "A \<equiv> reconcileOne p (Some x) (Some y) na va now"
  defines "B \<equiv> reconcileOne p (Some y) (Some x) nb va now'"
  defines "A2 \<equiv> reconcileOne p (Some (ac_Resolved A)) (Some (ac_Resolved B)) na va now"
  defines "B2 \<equiv> reconcileOne p (Some (ac_Resolved B)) (Some (ac_Resolved A)) nb va now'"
  assumes path: "ValidateRelPath p = ok" "fi_RelPath x = p" "fi_RelPath y = p"
    and live: "\<not> fi_Deleted x" "\<not> fi_Deleted y"
    and types: "fi_Type x \<noteq> FileTypeSymlink" "fi_Type y \<noteq> FileTypeSymlink"
    and differ: "fi_SHA256 x \<noteq> fi_SHA256 y" "Concurrent (fi_Version x) (fi_Version y)"
    and digests: "conflictIDLen \<le> length (fi_SHA256 x)" "conflictIDLen \<le> length (fi_SHA256 y)"
    and fresh: "ConflictRelPath p (hex_encode (take conflictIDLen (fi_SHA256 x))) (fi_MTimeNS x) \<noteq> p"
      "ConflictRelPath p (hex_encode (take conflictIDLen (fi_SHA256 y))) (fi_MTimeNS y) \<noteq> p"
    and nodes: "na \<noteq> nb" "has_room (Merge (fi_Version x) (fi_Version y)) na"
      "has_room (Merge (fi_Version x) (fi_Version y)) nb"
  shows "ac_Kind A = ActionConflictCopy \<and> ac_Kind B = ActionConflictCopy \<and>
    (ac_Resolved A)\<lparr>fi_Version := fmempty\<rparr> = (ac_Resolved B)\<lparr>fi_Version := fmempty\<rparr> \<and>
    ac_ConflictRelPath A = ac_ConflictRelPath B \<and> ac_ConflictInfo A = ac_ConflictInfo B \<and>
    ac_Kind A2 = ActionPull \<and> ac_Source A2 = SourceNone \<and>
    ac_Kind B2 = ActionPull \<and> ac_Source B2 = SourceNone \<and>
    reconcileOne p (Some (ac_Resolved A2)) (Some (ac_Resolved B2)) na va now =
      none_action p VersionsEqual \<and>
    reconcileOne p (Some (ac_Resolved B2)) (Some (ac_Resolved A2)) nb va now' =
      none_action p VersionsEqual"
proof -
  let ?W = "if conflictWinnerIsRemote x y then y else x"
  let ?ma = "Bump (Merge (fi_Version x) (fi_Version y)) na"
  let ?mb = "Bump (Merge (fi_Version y) (fi_Version x)) nb"
  note wa = winner_antisym [OF differ(1)]
  have rej: "rejectRemote (Some x) = None" "rejectRemote (Some y) = None"
    using path types by (auto simp: rejectRemote_def)
  have A: "A = conflict_action p x y na now"
    unfolding A_def using differ live rej
    by (simp add: reconcileOne_concurrent reconcileConcurrent_conflict va_def)
  have B: "B = conflict_action p y x nb now'"
    unfolding B_def using differ live rej Concurrent_sym [OF differ(2)]
    by (simp add: reconcileOne_concurrent reconcileConcurrent_conflict va_def)
  have RA: "ac_Resolved A = ?W\<lparr>fi_Version := ?ma, fi_RelPath := p\<rparr>"
    and RB: "ac_Resolved B = ?W\<lparr>fi_Version := ?mb, fi_RelPath := p\<rparr>"
    using wa by (auto simp: A B conflict_action_def Let_def)
  have conc: "Concurrent ?ma ?mb" and conc': "Concurrent ?mb ?ma"
    using Bump_concurrent [OF nodes(1) Merge_sym_mget nodes(2,3)] Concurrent_sym by blast+
  have W: "fi_Type ?W \<noteq> FileTypeSymlink" "\<not> fi_Deleted ?W" using types live by auto
  have "ac_ConflictRelPath A = ac_ConflictRelPath B \<and> ac_ConflictInfo A = ac_ConflictInfo B"
    using wa digests fresh by (auto simp: A B conflict_action_def loserConflictRelPath_def Let_def)
  moreover have "ac_Kind A = ActionConflictCopy" "ac_Kind B = ActionConflictCopy"
    by (simp_all add: A B conflict_action_def Let_def)
  moreover note reconcileOne_same_content [OF path(1) W conc, of na now]
    reconcileOne_same_content [OF path(1) W conc', of nb now']
    reconcileOne_same_version [OF path(1) W(1) Merge_sym_mget] RA RB
  ultimately show ?thesis unfolding A2_def B2_def va_def by simp
qed

text \<open>The hypotheses of C7 for two nodes' edits of one file.\<close>

lemma ex_concurrent: "Concurrent ex_va ex_vb"
  by code_simp

theorem conflict_resolution_converges_witness:
  "ac_Kind (reconcileOne ''a.txt'' (Some (ex_file ''a.txt'' 1 5 ex_va)) (Some (ex_file ''a.txt'' 2 7 ex_vb))
      ''aaaaaaaaaaaaaaaa'' \<lparr>InboundBlocked = False, OutboundBlocked = False\<rparr> 0) = ActionConflictCopy"
proof -
  let ?x = "ex_file ''a.txt'' 1 5 ex_va" and ?y = "ex_file ''a.txt'' 2 7 ex_vb"
  have 1: "ValidateRelPath ''a.txt'' = ok" "fi_RelPath ?x = ''a.txt''" "fi_RelPath ?y = ''a.txt''"
    by code_simp+
  have 2: "\<not> fi_Deleted ?x" "\<not> fi_Deleted ?y" by (simp_all add: ex_file_def)
  have 3: "fi_Type ?x \<noteq> FileTypeSymlink" "fi_Type ?y \<noteq> FileTypeSymlink" by code_simp+
  have 4: "fi_SHA256 ?x \<noteq> fi_SHA256 ?y" "Concurrent (fi_Version ?x) (fi_Version ?y)"
    using ex_concurrent by (simp_all add: ex_file_def)
  have 5: "conflictIDLen \<le> length (fi_SHA256 ?x)" "conflictIDLen \<le> length (fi_SHA256 ?y)"
    by (simp_all add: ex_file_def conflictIDLen_def)
  have 6: "ConflictRelPath ''a.txt'' (hex_encode (take conflictIDLen (fi_SHA256 ?x))) (fi_MTimeNS ?x) \<noteq> ''a.txt''"
    "ConflictRelPath ''a.txt'' (hex_encode (take conflictIDLen (fi_SHA256 ?y))) (fi_MTimeNS ?y) \<noteq> ''a.txt''"
    by code_simp+
  have 7: "''aaaaaaaaaaaaaaaa'' \<noteq> ''bbbbbbbbbbbbbbbb''"
    "has_room (Merge (fi_Version ?x) (fi_Version ?y)) ''aaaaaaaaaaaaaaaa''"
    "has_room (Merge (fi_Version ?x) (fi_Version ?y)) ''bbbbbbbbbbbbbbbb''"
    by code_simp+
  show ?thesis using conflict_resolution_converges [OF 1 2 3 4 5 6 7, of 0 0] by (rule conjunct1)
qed

text \<open>
  A genuine content conflict loses nothing: of the two concurrent live rows one becomes
  the content of the path and the other, untouched, the content of the conflict copy; the
  path's new version is above both rows as long as this node's counter can be incremented.
\<close>

theorem conflict_keeps_both_contents:
  assumes "Concurrent (fi_Version l) (fi_Version r)" and "rejectRemote (Some r) = None"
    and "\<not> InboundBlocked dir" "\<not> OutboundBlocked dir"
    and "\<not> fi_Deleted l" "\<not> fi_Deleted r" "fi_SHA256 l \<noteq> fi_SHA256 r"
    and "has_room (Merge (fi_Version l) (fi_Version r)) n"
  shows "let a = reconcileOne p (Some l) (Some r) n dir now in
    ac_Kind a = ActionConflictCopy \<and>
    {(ac_Resolved a)\<lparr>fi_RelPath := p, fi_Version := fmempty\<rparr>,
     (ac_ConflictInfo a)\<lparr>fi_RelPath := p, fi_Version := fmempty\<rparr>} =
    {l\<lparr>fi_RelPath := p, fi_Version := fmempty\<rparr>, r\<lparr>fi_RelPath := p, fi_Version := fmempty\<rparr>} \<and>
    fi_Version (ac_ConflictInfo a) =
      (if ac_ConflictSource a = SourceLocal then fi_Version l else fi_Version r) \<and>
    (ac_Source a = SourceRemote) = (ac_ConflictSource a = SourceLocal) \<and>
    Dominates (fi_Version (ac_Resolved a)) (fi_Version l) \<and>
    Dominates (fi_Version (ac_Resolved a)) (fi_Version r)"
  using assms vv.resolution_dominates [OF assms(8)]
  by (simp add: reconcileOne_concurrent reconcileConcurrent_conflict conflict_action_def Let_def)
    auto

theorem conflict_keeps_both_contents_witness:
  "ac_Kind (reconcileOne ''a.txt'' (Some (ex_file ''a.txt'' 1 5 ex_va)) (Some (ex_file ''a.txt'' 2 7 ex_vb))
     ''aaaaaaaaaaaaaaaa'' (DirectionFor ''read-write'' '''') 0) = ActionConflictCopy"
proof -
  let ?x = "ex_file ''a.txt'' 1 5 ex_va" and ?y = "ex_file ''a.txt'' 2 7 ex_vb"
  have 1: "Concurrent (fi_Version ?x) (fi_Version ?y)"
    using ex_concurrent by (simp add: ex_file_def)
  have 2: "rejectRemote (Some ?y) = None" by code_simp
  have 3: "\<not> InboundBlocked (DirectionFor ''read-write'' '''')" "\<not> OutboundBlocked (DirectionFor ''read-write'' '''')"
    by code_simp+
  have 4: "\<not> fi_Deleted ?x" "\<not> fi_Deleted ?y" "fi_SHA256 ?x \<noteq> fi_SHA256 ?y" by (simp_all add: ex_file_def)
  have 5: "has_room (Merge (fi_Version ?x) (fi_Version ?y)) ''aaaaaaaaaaaaaaaa''" by code_simp
  show ?thesis
    using conflict_keeps_both_contents [OF 1 2 3 4 5, of "''a.txt''" 0] by (simp add: Let_def)
qed



text \<open>
  Nothing unsafe is acted on. An action other than \<open>ActionNone\<close> is produced only when
  inbound changes are allowed and the path is not ignored; the peer's row for the path, if
  there is one, passes \<open>ValidateRelPath\<close> and is not a symbolic link, and there is one unless
  the action merely flags a local change. A receive-only subscription never creates a
  conflict copy.
\<close>

theorem reconcile_respects_guards:
  assumes "a \<in> set (Reconcile local remote n dir now ignore)" and "ac_Kind a \<noteq> ActionNone"
  shows "\<not> InboundBlocked dir \<and>
    (case ignore of None \<Rightarrow> True
     | Some ig \<Rightarrow> \<not> ig (ac_RelPath a) (isDirEntry (fmlookup (indexByPath local) (ac_RelPath a))
                                       (fmlookup (indexByPath remote) (ac_RelPath a)))) \<and>
    (case fmlookup (indexByPath remote) (ac_RelPath a) of
       None \<Rightarrow> ac_Kind a = ActionLocallyModified \<and> OutboundBlocked dir
     | Some r \<Rightarrow> r \<in> set remote \<and> ValidateRelPath (ac_RelPath a) = ok \<and> fi_Type r \<noteq> FileTypeSymlink) \<and>
    (OutboundBlocked dir \<longrightarrow> ac_Kind a \<noteq> ActionConflictCopy)"
proof -
  obtain p where a: "a = reconcilePath (indexByPath local) (indexByPath remote) n dir now ignore p"
    using assms(1) by (auto simp: Reconcile_def Let_def)
  have p: "ac_RelPath a = p" by (simp add: a)
  have rem: "fi_RelPath r = p \<and> r \<in> set remote" if "fmlookup (indexByPath remote) p = Some r" for r
    using indexByPath_path [OF that] .
  let ?l = "fmlookup (indexByPath local) p" and ?r = "fmlookup (indexByPath remote) p"
  have "\<not> (rejectRemote ?r = None \<and> (\<exists>ig. ignore = Some ig \<and> ig p (isDirEntry ?l ?r)))"
    and k: "ac_Kind (reconcileOne p ?l ?r n dir now) \<noteq> ActionNone"
    and e: "a = reconcileOne p ?l ?r n dir now"
    using assms(2) by (auto simp: a reconcilePath_split split: if_splits)
  then have i: "case ignore of None \<Rightarrow> True | Some ig \<Rightarrow> \<not> ig p (isDirEntry ?l ?r)"
    using reconcileOne_not_none [OF k] by (auto split: option.split)
  show ?thesis
    unfolding p using reconcileOne_not_none [OF k] reconcileOne_receive_only i rem
    by (auto simp: e rejectRemote_def split: option.splits if_splits)
qed

theorem reconcile_respects_guards_witness:
  "let r = ex_file ''docs/a.txt'' 1 5 ex_va;
       as = Reconcile [] [r] ''bbbbbbbbbbbbbbbb'' (DirectionFor '''' ''mirror'') 0 None in
   ac_Kind (hd as) \<noteq> ActionNone \<and> hd as \<in> set as \<and> \<not> InboundBlocked (DirectionFor '''' ''mirror'')"
proof -
  let ?r = "ex_file ''docs/a.txt'' 1 5 ex_va"
  let ?as = "Reconcile [] [?r] ''bbbbbbbbbbbbbbbb'' (DirectionFor '''' ''mirror'') 0 None"
  have k: "ac_Kind (hd ?as) \<noteq> ActionNone" and m: "hd ?as \<in> set ?as"
    by (simp_all add: Reconcile_def indexByPath_def Let_def ex_file_def sorted_list_of_fset.rep_eq
        reconcilePath_def reconcileOne_def DirectionFor_def PermissionReadOnly_def ModeReceiveOnly_def
        split: option.splits) code_simp
  show ?thesis using k m reconcile_respects_guards [OF m k] by (simp add: Let_def)
qed

lemma ex_conflict:
  assumes "ValidateRelPath p = ok"
  shows "reconcileOne p (Some (ex_file p 1 5 ex_va)) (Some (ex_file p 2 7 ex_vb)) n
           (DirectionFor [] ''mirror'') t = conflict_action p (ex_file p 1 5 ex_va) (ex_file p 2 7 ex_vb) n t"
  using assms ex_concurrent
  by (subst reconcileOne_concurrent)
    (simp_all add: reconcileConcurrent_conflict ex_file_def rejectRemote_def DirectionFor_def
      FileTypeFile_def FileTypeSymlink_def PermissionReadOnly_def ModeReceiveOnly_def)

lemma ex_conflict_parts:
  "ac_Kind (conflict_action p (ex_file p 1 5 ex_va) (ex_file p 2 7 ex_vb) n t) = ActionConflictCopy"
  "ac_Source (conflict_action p (ex_file p 1 5 ex_va) (ex_file p 2 7 ex_vb) n t) = SourceRemote"
  "fi_Version (ac_Resolved (conflict_action p (ex_file p 1 5 ex_va) (ex_file p 2 7 ex_vb) n t)) =
     Bump (Merge ex_va ex_vb) n"
  by (simp_all add: conflict_action_def conflictWinnerIsRemote_def ex_file_def Let_def)

text \<open>
  Whenever content has to be fetched from the peer, the request names the version the
  peer advertised (never the locally merged one, which the peer does not have), and the row
  to be stored carries the peer's digest, size and modification time. The same holds for the
  losing side of a conflict, whose row keeps the advertised version.
\<close>

theorem fetch_requests_advertised_version:
  "(ac_Source (reconcileOne p l r n dir now) = SourceRemote \<longrightarrow>
     (\<exists>f. r = Some f \<and> ac_SourceVersion (reconcileOne p l r n dir now) = fi_Version f \<and>
          fi_SHA256 (ac_Resolved (reconcileOne p l r n dir now)) = fi_SHA256 f \<and>
          fi_Size (ac_Resolved (reconcileOne p l r n dir now)) = fi_Size f \<and>
          fi_MTimeNS (ac_Resolved (reconcileOne p l r n dir now)) = fi_MTimeNS f)) \<and>
   (ac_ConflictSource (reconcileOne p l r n dir now) = SourceRemote \<longrightarrow>
     (\<exists>f. r = Some f \<and> fi_Version (ac_ConflictInfo (reconcileOne p l r n dir now)) = fi_Version f \<and>
          fi_SHA256 (ac_ConflictInfo (reconcileOne p l r n dir now)) = fi_SHA256 f))"
  by (auto simp: reconcileOne_def reconcileConcurrent_def reconcileIdenticalContent_def Let_def
      split: option.splits if_splits)

theorem fetch_requests_advertised_version_witness:
  "ac_SourceVersion (reconcileOne ''a.txt'' (Some (ex_file ''a.txt'' 1 5 ex_va))
     (Some (ex_file ''a.txt'' 2 7 ex_vb)) ''aaaaaaaaaaaaaaaa'' (DirectionFor '''' ''mirror'') 0) = ex_vb"
proof -
  let ?x = "ex_file ''a.txt'' 1 5 ex_va" and ?y = "ex_file ''a.txt'' 2 7 ex_vb"
  have "ac_Source (reconcileOne ''a.txt'' (Some ?x) (Some ?y) ''aaaaaaaaaaaaaaaa''
      (DirectionFor '''' ''mirror'') 0) = SourceRemote"
    by (subst ex_conflict) (code_simp, rule ex_conflict_parts)
  then show ?thesis
    using fetch_requests_advertised_version [of "''a.txt''" "Some ?x" "Some ?y" "''aaaaaaaaaaaaaaaa''"
        "DirectionFor '''' ''mirror''" 0]
    by (auto simp: ex_file_def)
qed

text \<open>
  Applying an action never moves a path's version backwards: where the action stores a
  row (a pull, a delete, a resurrection or a conflict copy) over a local one, the stored
  version equals or dominates the local version, provided this node's counter has not
  reached \<open>2^64 - 1\<close>.
\<close>

theorem stored_version_not_older:
  assumes "has_room (Merge (fi_Version l) (case r of None \<Rightarrow> fmempty | Some f \<Rightarrow> fi_Version f)) n"
    and "ac_Kind (reconcileOne p (Some l) r n dir now)
           \<in> {ActionPull, ActionDelete, ActionResurrect, ActionConflictCopy}"
  shows "Equal (fi_Version (ac_Resolved (reconcileOne p (Some l) r n dir now))) (fi_Version l) \<or>
         Dominates (fi_Version (ac_Resolved (reconcileOne p (Some l) r n dir now))) (fi_Version l)"
proof (cases r)
  case None
  with assms(2) show ?thesis by (auto simp: reconcileOne_def split: option.splits if_splits)
next
  case (Some f)
  have d: "Dominates (Bump (Merge (fi_Version l) (fi_Version f)) n) (fi_Version l)"
    using vv.resolution_dominates assms(1) Some by simp
  have m: "Equal (Merge (fi_Version l) (fi_Version f)) (fi_Version l) \<or>
           Dominates (Merge (fi_Version l) (fi_Version f)) (fi_Version l)"
    by (rule vv.merge_upper)
  show ?thesis
    using assms(2) d m
    by (auto simp: Some reconcileOne_def reconcileConcurrent_def reconcileIdenticalContent_def Let_def
        split: option.splits if_splits)
qed

theorem stored_version_not_older_witness:
  "Dominates (fi_Version (ac_Resolved (reconcileOne ''a'' (Some (ex_file ''a'' 1 5 ex_va))
      (Some (ex_file ''a'' 2 7 ex_vb)) ''aaaaaaaaaaaaaaaa'' (DirectionFor '''' ''mirror'') 0))) ex_va"
proof -
  let ?x = "ex_file ''a'' 1 5 ex_va" and ?y = "ex_file ''a'' 2 7 ex_vb"
  let ?a = "reconcileOne ''a'' (Some ?x) (Some ?y) ''aaaaaaaaaaaaaaaa'' (DirectionFor '''' ''mirror'') 0"
  have 1: "has_room (Merge (fi_Version ?x) (case Some ?y of None \<Rightarrow> fmempty | Some f \<Rightarrow> fi_Version f))
      ''aaaaaaaaaaaaaaaa''" by code_simp
  have v: "ValidateRelPath ''a'' = ok" by code_simp
  have 2: "ac_Kind ?a \<in> {ActionPull, ActionDelete, ActionResurrect, ActionConflictCopy}"
    by (simp add: ex_conflict [OF v] ex_conflict_parts)
  have "\<not> Equal (Bump (Merge ex_va ex_vb) ''aaaaaaaaaaaaaaaa'') ex_va" by code_simp
  then have 3: "\<not> Equal (fi_Version (ac_Resolved ?a)) (fi_Version ?x)"
    by (simp add: ex_conflict [OF v] ex_conflict_parts) (simp add: ex_file_def)
  have 4: "fi_Version ?x = ex_va" by (simp add: ex_file_def)
  show ?thesis using stored_version_not_older [OF 1 2] 3 unfolding 4 by blast
qed

text \<open>
  At the end of the counter's range the resolution goes backwards. If the merged
  counter of this node is \<open>2^64 - 1\<close> (a value the wire validation accepts from a peer), the
  bump wraps to 0 and the version stored for a resolved conflict is strictly dominated by
  the merge of the two rows it is meant to supersede.
\<close>

theorem conflict_resolution_wraps:
  assumes "mget (Merge (fi_Version l) (fi_Version r)) n = - 1"
    and "Concurrent (fi_Version l) (fi_Version r)" and "rejectRemote (Some r) = None"
    and "\<not> InboundBlocked dir" "\<not> OutboundBlocked dir"
    and "\<not> fi_Deleted l" "\<not> fi_Deleted r" "fi_SHA256 l \<noteq> fi_SHA256 r"
  shows "mget (fi_Version (ac_Resolved (reconcileOne p (Some l) (Some r) n dir now))) n = 0 \<and>
    Dominates (Merge (fi_Version l) (fi_Version r))
      (fi_Version (ac_Resolved (reconcileOne p (Some l) (Some r) n dir now)))"
proof -
  let ?m = "Merge (fi_Version l) (fi_Version r)"
  have b: "mget (Bump ?m n) n = 0" using assms(1) by (simp del: mget_Merge)
  have "(0 :: 64 word) < - 1" by (simp add: word_gt_0)
  then have "Dominates ?m (Bump ?m n)"
    using assms(1) b unfolding Dominates_iff by (auto simp del: mget_Merge intro!: exI [of _ n])
  with b show ?thesis
    using assms
    by (simp add: reconcileOne_concurrent reconcileConcurrent_conflict conflict_action_def Let_def)
qed

theorem conflict_resolution_wraps_witness:
  "let l = ex_file ''a'' 1 5 ex_va;
       r = ex_file ''a'' 2 7 (fmap_of_list [(''cccccccccccccccc'', - 1), (''bbbbbbbbbbbbbbbb'', 1)]) in
   validateFileInfo r = ok \<and>
   mget (fi_Version (ac_Resolved
      (reconcileOne ''a'' (Some l) (Some r) ''cccccccccccccccc'' (DirectionFor '''' ''mirror'') 0)))
      ''cccccccccccccccc'' = 0"
proof -
  let ?l = "ex_file ''a'' 1 5 ex_va"
  let ?r = "ex_file ''a'' 2 7 (fmap_of_list [(''cccccccccccccccc'', - 1), (''bbbbbbbbbbbbbbbb'', 1)])"
  have 0: "validateFileInfo ?r = ok" by code_simp
  have 1: "mget (Merge (fi_Version ?l) (fi_Version ?r)) ''cccccccccccccccc'' = - 1" by code_simp
  have 2: "Concurrent (fi_Version ?l) (fi_Version ?r)" "rejectRemote (Some ?r) = None"
    "\<not> InboundBlocked (DirectionFor '''' ''mirror'')" "\<not> OutboundBlocked (DirectionFor '''' ''mirror'')"
    "\<not> fi_Deleted ?l" "\<not> fi_Deleted ?r" "fi_SHA256 ?l \<noteq> fi_SHA256 ?r"
    by code_simp+
  show ?thesis
    using conflict_resolution_wraps [OF 1 2, of "''a''" 0] 0 unfolding Let_def by blast
qed

text \<open>
  The conflict copy of a losing version with a usable digest never lands on the winner's
  path, and it lands in the winner's directory: whichever of the two names the code falls
  back to, the name differs from the path and shares its directory part.
\<close>

theorem conflict_copy_beside_winner:
  assumes "conflictIDLen \<le> length (fi_SHA256 loser)"
    and "- (2 ^ 63) \<le> fi_MTimeNS loser" "fi_MTimeNS loser < 2 ^ 63"
    and "- (2 ^ 63) \<le> now" "now < 2 ^ 63"
    and "length nodeID = 16" and "list_all is_lower_hex nodeID"
  shows "loserConflictRelPath p loser nodeID now \<noteq> p \<and>
    fst (path_split (loserConflictRelPath p loser nodeID now)) = fst (path_split p)"
proof -
  let ?i = "hex_encode (take conflictIDLen (fi_SHA256 loser))"
  have len: "length ?i = 8" using assms(1) by (simp add: conflictIDLen_def min_def)
  have ns: "slash \<notin> set nodeID"
    using assms(7) by (auto simp: list_all_iff is_lower_hex_def)
  have "ConflictRelPath p nodeID now \<noteq> p" if "ConflictRelPath p ?i (fi_MTimeNS loser) = p"
  proof
    assume "ConflictRelPath p nodeID now = p"
    with that have "?i = nodeID"
      using ConflictRelPath_inj stamp_shape(1) assms(2-5) by metis
    with len assms(6) show False by simp
  qed
  moreover note ConflictRelPath_dir [OF ns stamp_shape(2) [OF assms(4,5)]]
    ConflictRelPath_dir [OF hex_no_slash stamp_shape(2) [OF assms(2,3)]]
  ultimately show ?thesis
    using assms(1) by (auto simp: loserConflictRelPath_def Let_def)
qed

theorem conflict_copy_beside_winner_witness:
  "loserConflictRelPath ''d/a.sync-conflict-19700101-000000-01010101.txt'' (ex_file ''x'' 1 5 ex_va)
     ''aaaaaaaaaaaaaaaa'' 7 \<noteq> ''d/a.sync-conflict-19700101-000000-01010101.txt''"
proof -
  let ?f = "ex_file ''x'' 1 5 ex_va"
  have 1: "conflictIDLen \<le> length (fi_SHA256 ?f)" "- (2 ^ 63) \<le> fi_MTimeNS ?f" "fi_MTimeNS ?f < 2 ^ 63"
    "- (2 ^ 63) \<le> (7::int)" "(7::int) < 2 ^ 63" by (simp_all add: ex_file_def conflictIDLen_def)
  have 2: "length ''aaaaaaaaaaaaaaaa'' = 16" "list_all is_lower_hex ''aaaaaaaaaaaaaaaa''" by code_simp+
  show ?thesis using conflict_copy_beside_winner [OF 1 2] by blast
qed

end
