(* ===== verification/GoGlob.thy ===== *)
theory GoGlob
  imports GoText
begin

text \<open>
  \<^verbatim>\<open>path.Match\<close> and \<^verbatim>\<open>path.Base\<close> of Go's standard library, as the ignore matcher uses
  them. \<open>path.Match\<close> is not a declarative glob: it cuts the pattern into chunks at the stars
  and commits each chunk to its first match, so the algorithm itself is modelled. A
  malformed pattern never matches; the caller ignores the error.
\<close>

section \<open>Chunks\<close>

datatype ctok = CLit char | COne | CClass bool "(nat \<times> nat) list"

text \<open>\<open>getEsc\<close>: one rune of a character class and what follows it.\<close>

definition get_esc :: "string \<Rightarrow> (nat \<times> string) option" where
  "get_esc chunk =
     (case chunk of
        [] \<Rightarrow> None
      | c # cs \<Rightarrow>
         if c = CHR ''-'' \<or> c = CHR '']'' then None
         else let body = (if c = CHR 0x5C then cs else chunk) in
              if body = [] then None
              else let (r, n) = decode_rune (map of_char body); rest = drop n body in
                   if r = rune_error \<and> n = 1 then None
                   else if rest = [] then None
                   else Some (r, rest))"

text \<open>The ranges of a class up to its closing bracket; the fuel is the length left.\<close>

fun class_ranges :: "nat \<Rightarrow> nat \<Rightarrow> string \<Rightarrow> ((nat \<times> nat) list \<times> string) option" where
  "class_ranges 0 n chunk = None"
| "class_ranges (Suc fuel) n chunk =
     (if n > 0 \<and> has_prefix chunk '']'' then Some ([], tl chunk)
      else case get_esc chunk of
             None \<Rightarrow> None
           | Some (lo, rest) \<Rightarrow>
              (case (if has_prefix rest ''-'' then get_esc (tl rest) else Some (lo, rest)) of
                 None \<Rightarrow> None
               | Some (hi, rest') \<Rightarrow>
                  map_option (\<lambda>(rs, r). ((lo, hi) # rs, r)) (class_ranges fuel (Suc n) rest')))"

text \<open>A chunk as a list of tokens; \<open>None\<close> for \<open>ErrBadPattern\<close>.\<close>

fun parse_chunk :: "nat \<Rightarrow> string \<Rightarrow> ctok list option" where
  "parse_chunk fuel [] = Some []"
| "parse_chunk 0 (c # cs) = None"
| "parse_chunk (Suc fuel) (c # cs) =
     (if c = CHR ''['' then
        (let neg = has_prefix cs ''^''; body = (if neg then tl cs else cs) in
         case class_ranges (Suc (length body)) 0 body of
           None \<Rightarrow> None
         | Some (rs, rest) \<Rightarrow> map_option ((#) (CClass neg rs)) (parse_chunk fuel rest))
      else if c = CHR ''?'' then map_option ((#) COne) (parse_chunk fuel cs)
      else if c = CHR 0x5C then
        (case cs of [] \<Rightarrow> None | d # ds \<Rightarrow> map_option ((#) (CLit d)) (parse_chunk fuel ds))
      else map_option ((#) (CLit c)) (parse_chunk fuel cs))"

fun match_toks :: "ctok list \<Rightarrow> string \<Rightarrow> string option" where
  "match_toks [] s = Some s"
| "match_toks (t # ts) [] = None"
| "match_toks (CLit c # ts) (x # s) = (if c = x then match_toks ts s else None)"
| "match_toks (COne # ts) (x # s) =
     (if x = slash then None
      else match_toks ts (drop (snd (decode_rune (map of_char (x # s)))) (x # s)))"
| "match_toks (CClass neg rs # ts) (x # s) =
     (let (r, n) = decode_rune (map of_char (x # s)) in
      if list_ex (\<lambda>(lo, hi). lo \<le> r \<and> r \<le> hi) rs = neg then None
      else match_toks ts (drop n (x # s)))"

definition match_chunk :: "string \<Rightarrow> string \<Rightarrow> string option" where
  "match_chunk chunk s =
     (case parse_chunk (length chunk) chunk of None \<Rightarrow> None | Some ts \<Rightarrow> match_toks ts s)"

section \<open>Match\<close>

text \<open>The end of a chunk: the next star outside brackets.\<close>

fun scan_to_star :: "bool \<Rightarrow> string \<Rightarrow> string \<times> string" where
  "scan_to_star inrange [] = ([], [])"
| "scan_to_star inrange (c # cs) =
     (if c = CHR 0x5C then
        (case cs of [] \<Rightarrow> ([c], [])
         | d # ds \<Rightarrow> (let (a, b) = scan_to_star inrange ds in (c # d # a, b)))
      else if c = CHR ''*'' \<and> \<not> inrange then ([], c # cs)
      else (let (a, b) = scan_to_star (if c = CHR ''['' then True else if c = CHR '']'' then False else inrange) cs
            in (c # a, b)))"

definition scan_chunk :: "string \<Rightarrow> bool \<times> string \<times> string" where
  "scan_chunk pattern =
     (let p = dropWhile (\<lambda>c. c = CHR ''*'') pattern; (chunk, rest) = scan_to_star False p
      in (p \<noteq> pattern, chunk, rest))"

text \<open>The loop of a starred chunk over later positions; it cannot skip a slash.\<close>

fun skip_match :: "string \<Rightarrow> bool \<Rightarrow> string \<Rightarrow> string option" where
  "skip_match chunk final [] = None"
| "skip_match chunk final (x # name) =
     (if x = slash then None
      else case match_chunk chunk name of
             Some t \<Rightarrow> if final \<and> t \<noteq> [] then skip_match chunk final name else Some t
           | None \<Rightarrow> skip_match chunk final name)"

lemma scan_to_star_length: "length (fst (scan_to_star b s)) + length (snd (scan_to_star b s)) = length s"
  by (induction b s rule: scan_to_star.induct) (auto simp: Let_def case_prod_unfold split: list.splits)

lemma scan_to_star_nonempty:
  "hd s \<noteq> CHR ''*'' \<Longrightarrow> s \<noteq> [] \<Longrightarrow> fst (scan_to_star b s) \<noteq> []"
  by (cases s) (simp_all add: Let_def case_prod_unfold split: list.split)

lemma scan_to_star_progress:
  assumes "s \<noteq> []" "hd s \<noteq> CHR ''*''"
  shows "length (snd (scan_to_star b s)) < length s"
  using scan_to_star_length [of b s] scan_to_star_nonempty [OF assms(2,1), of b]
  by (cases "fst (scan_to_star b s)") auto

lemma scan_chunk_progress:
  assumes "pattern \<noteq> []"
  shows "length (snd (snd (scan_chunk pattern))) < length pattern"
proof -
  let ?p = "dropWhile (\<lambda>c. c = CHR ''*'') pattern"
  have le: "length ?p \<le> length pattern" by (rule length_dropWhile_le)
  show ?thesis
  proof (cases "?p = []")
    case True
    have "snd (snd (scan_chunk pattern)) = []" unfolding scan_chunk_def Let_def True by simp
    then show ?thesis using assms by simp
  next
    case False
    then have "hd ?p \<noteq> CHR ''*''" by (rule hd_dropWhile)
    with False le scan_to_star_progress [of ?p False] show ?thesis
      by (auto simp: scan_chunk_def Let_def case_prod_unfold)
  qed
qed

lemma scan_chunk_rest:
  "pattern \<noteq> [] \<Longrightarrow> (star, y) = scan_chunk pattern \<Longrightarrow> (chunk, rest) = y \<Longrightarrow> length rest < length pattern"
  using scan_chunk_progress [of pattern] by (metis snd_conv)

function path_match :: "string \<Rightarrow> string \<Rightarrow> bool" where
  "path_match pattern name =
     (if pattern = [] then name = []
      else case scan_chunk pattern of
        (star, chunk, rest) \<Rightarrow>
          if star \<and> chunk = [] then slash \<notin> set name
          else (case match_chunk chunk name of
                  Some t \<Rightarrow>
                    if t = [] \<or> rest \<noteq> [] then path_match rest t
                    else if star
                    then (case skip_match chunk (rest = []) name of
                            Some t' \<Rightarrow> path_match rest t' | None \<Rightarrow> False)
                    else False
                | None \<Rightarrow>
                    if star
                    then (case skip_match chunk (rest = []) name of
                            Some t' \<Rightarrow> path_match rest t' | None \<Rightarrow> False)
                    else False))"
  by pat_completeness auto
termination
  by (relation "measure (length \<circ> fst)") (simp_all add: scan_chunk_rest)

declare path_match.simps [simp del]

text \<open>\<open>path.Base\<close>.\<close>

definition path_base :: "string \<Rightarrow> string" where
  "path_base p =
     (if p = [] then ''.''
      else let q = rev (dropWhile (\<lambda>c. c = slash) (rev p));
               b = rev (takeWhile (\<lambda>c. c \<noteq> slash) (rev q))
           in if b = [] then ''/'' else b)"

section \<open>Patterns without special characters\<close>

definition plain_glob :: "string \<Rightarrow> bool" where
  "plain_glob p \<longleftrightarrow> (\<forall>c \<in> set p. c \<notin> {CHR ''*'', CHR ''?'', CHR ''['', CHR '']'', CHR 0x5C})"

lemma scan_to_star_plain: "plain_glob p \<Longrightarrow> scan_to_star False (p @ q) =
    (if q \<noteq> [] \<and> hd q = CHR ''*'' then (p, q) else (let (a, b) = scan_to_star False q in (p @ a, b)))"
proof (induction p)
  case Nil
  show ?case by (cases q) (auto simp: case_prod_unfold)
qed (auto simp: plain_glob_def Let_def case_prod_unfold)

lemma parse_chunk_plain: "plain_glob p \<Longrightarrow> length p \<le> n \<Longrightarrow> parse_chunk n p = Some (map CLit p)"
proof (induction p arbitrary: n)
  case (Cons c p)
  then obtain m where "n = Suc m" by (cases n) auto
  with Cons show ?case by (auto simp: plain_glob_def)
qed simp

lemma match_toks_lits: "match_toks (map CLit p) s = (if take (length p) s = p then Some (drop (length p) s) else None)"
proof (induction p arbitrary: s)
  case (Cons c p)
  show ?case by (cases s) (auto simp: Cons)
qed simp

lemma match_chunk_plain: "plain_glob p \<Longrightarrow>
    match_chunk p s = (if take (length p) s = p then Some (drop (length p) s) else None)"
  by (simp add: match_chunk_def parse_chunk_plain match_toks_lits)

lemma plain_no_star: "plain_glob (c # p) \<Longrightarrow> dropWhile (\<lambda>c. c = CHR ''*'') (c # p @ q) = c # p @ q"
  by (auto simp: plain_glob_def)

text \<open>A pattern with no special character matches exactly its own text.\<close>

lemma path_match_plain:
  assumes "plain_glob p"
  shows "path_match p s \<longleftrightarrow> s = p"
proof (cases p)
  case (Cons c q)
  have "scan_chunk p = (False, p, [])"
    using assms scan_to_star_plain [of p "[]"] plain_no_star [of c q "[]"]
    by (simp add: scan_chunk_def Cons)
  then show ?thesis
    using assms Cons by (subst path_match.simps) (auto simp: match_chunk_plain path_match.simps)
qed (simp add: path_match.simps)

text \<open>Plain text followed by one star matches what starts with it and holds no slash after.\<close>

lemma path_match_plain_star:
  assumes "plain_glob p" "p \<noteq> []"
  shows "path_match (p @ ''*'') s \<longleftrightarrow> has_prefix s p \<and> slash \<notin> set (drop (length p) s)"
proof -
  obtain c q where p: "p = c # q" using assms(2) by (cases p) auto
  have 1: "scan_chunk (p @ ''*'') = (False, p, ''*'')"
    using assms scan_to_star_plain [of p "''*''"] plain_no_star [of c q "''*''"]
    by (simp add: scan_chunk_def p)
  have 2: "path_match ''*'' t \<longleftrightarrow> slash \<notin> set t" for t
    by (subst path_match.simps) (simp add: scan_chunk_def)
  show ?thesis
    using assms(1) by (subst path_match.simps) (auto simp: 1 2 match_chunk_plain has_prefix_def)
qed

end
