(* ===== verification/Ignore.thy ===== *)
theory Ignore
  imports GoGlob SharePath
begin

text \<open>
  The ignore rules of a share: the gitignore subset of \<^verbatim>\<open>internal/index/ignore.go\<close> and the
  layered \<open>Matcher\<close> of \<^verbatim>\<open>internal/index/scanner.go\<close>.

  \<open>compileGlob\<close> writes a regular expression; the model keeps the expression as the list of
  pieces it is made of (\<open>gtok\<close>) and \<open>re_match\<close> is its meaning on the runes of a path. What
  a bracket expression means is left to an argument \<open>cls\<close>, Go's reading of it: \<open>None\<close> when
  \<open>regexp.Compile\<close> refuses it.
\<close>

section \<open>Compiled patterns\<close>

datatype gtok =
    TLit nat        \<comment> \<open>a quoted rune\<close>
  | TSeg            \<comment> \<open>\<^verbatim>\<open>(?:.*/)?\<close>\<close>
  | TAny            \<comment> \<open>\<^verbatim>\<open>.*\<close>\<close>
  | TStar           \<comment> \<open>\<^verbatim>\<open>[^/]*\<close>\<close>
  | TOne            \<comment> \<open>\<^verbatim>\<open>[^/]\<close>\<close>
  | TClass string   \<comment> \<open>a bracket expression\<close>

type_synonym class_reader = "string \<Rightarrow> (nat \<Rightarrow> bool) option"

record ignorePattern =
  ip_source :: string
  ip_negate :: bool
  ip_dirOnly :: bool
  ip_re :: "gtok list"

record IgnoreRules =
  ir_patterns :: "ignorePattern list"
  ir_hasNegations :: bool

datatype ignore_err = NegatesNothing string | NamesNoPath string | BadRegexp | LineTooLong

text \<open>The scan for the closing bracket of a class, skipping escaped bytes.\<close>

fun class_end :: "string \<Rightarrow> (string \<times> string) option" where
  "class_end [] = None"
| "class_end (c # cs) =
     (if c = CHR '']'' then Some ([], cs)
      else if c = CHR 0x5C then
        (case cs of [] \<Rightarrow> None | d # ds \<Rightarrow> map_option (\<lambda>(b, r). (c # d # b, r)) (class_end ds))
      else map_option (\<lambda>(b, r). (c # b, r)) (class_end cs))"

text \<open>\<open>scanCharClass\<close> on what follows the opening bracket.\<close>

definition scanCharClass :: "string \<Rightarrow> (string \<times> string) option" where
  "scanCharClass s =
     (let negated = has_prefix s ''!'' \<or> has_prefix s ''^'';
          s1 = (if negated then tl s else s);
          lit = has_prefix s1 '']'';
          s2 = (if lit then tl s1 else s1)
      in case class_end s2 of
           None \<Rightarrow> None
         | Some (b, rest) \<Rightarrow>
            Some ((if negated then ''[^'' else ''['') @ (if lit then '']'' else []) @ b @ '']'', rest))"

lemma class_end_length: "class_end s = Some (b, r) \<Longrightarrow> length r < length s"
  by (induction s arbitrary: b r rule: class_end.induct) (force split: if_splits list.splits)+

lemma scanCharClass_length:
  assumes "scanCharClass s = Some (c, r)"
  shows "length r < length s"
proof -
  obtain b s2 where "class_end s2 = Some (b, r)" "length s2 \<le> length s"
    using assms by (fastforce simp: scanCharClass_def Let_def split: option.splits if_splits)
  then show ?thesis using class_end_length by fastforce
qed

text \<open>
  The loop of \<open>compileGlob\<close>; \<open>prev\<close> is the byte before the current one. A literal byte is
  converted with \<open>string(c)\<close>, which makes it the rune of that number.
\<close>

definition skip_stars :: "string \<Rightarrow> string" where
  "skip_stars s = dropWhile (\<lambda>x. x = CHR ''*'') s"

lemma skip_stars_length: "length (skip_stars s) < Suc (length s)"
  by (simp add: skip_stars_def less_Suc_eq_le length_dropWhile_le)

lemma tl_length: "length xs < n \<Longrightarrow> length xs - Suc 0 < n"
  by simp

function glob_toks :: "char option \<Rightarrow> string \<Rightarrow> gtok list" where
  "glob_toks prev [] = []"
| "glob_toks prev (c # cs) =
     (if c = CHR ''*'' then
        (if \<not> has_prefix cs ''*'' then TStar # glob_toks (Some c) cs
         else if (prev = None \<or> prev = Some slash) \<and> has_prefix (skip_stars cs) ''/''
         then TSeg # glob_toks (Some slash) (tl (skip_stars cs))
         else TAny # glob_toks (Some c) (skip_stars cs))
      else if c = CHR ''?'' then TOne # glob_toks (Some c) cs
      else if c = CHR ''['' then
        (case scanCharClass cs of
           None \<Rightarrow> TLit (of_char c) # glob_toks (Some c) cs
         | Some (cl, rest) \<Rightarrow> TClass cl # glob_toks (Some (CHR '']'')) rest)
      else if c = CHR 0x5C then
        (case cs of
           [] \<Rightarrow> [TLit (of_char c)]
         | d # ds \<Rightarrow> TLit (of_char d) # glob_toks (Some d) ds)
      else TLit (of_char c) # glob_toks (Some c) cs)"
  by pat_completeness auto
termination
  by (relation "measure (length \<circ> snd)")
    (auto simp: skip_stars_length tl_length dest: scanCharClass_length)

definition compileGlob :: "class_reader \<Rightarrow> string \<Rightarrow> bool \<Rightarrow> ignore_err + gtok list" where
  "compileGlob cls pat anchored =
     (let toks = (if anchored then [] else [TSeg]) @ glob_toks None pat in
      if list_all (\<lambda>t. case t of TClass s \<Rightarrow> cls s \<noteq> None | _ \<Rightarrow> True) toks
      then Inr toks else Inl BadRegexp)"

text \<open>\<open>MatchString\<close> of the compiled expression: it is anchored at both ends, and a dot does
  not match a newline.\<close>

fun tok_weight :: "gtok \<Rightarrow> nat" where
  "tok_weight TSeg = 3" | "tok_weight _ = 1"

function re_match :: "class_reader \<Rightarrow> gtok list \<Rightarrow> nat list \<Rightarrow> bool" where
  "re_match cls [] s = (s = [])"
| "re_match cls (TSeg # ts) s = (re_match cls ts s \<or> re_match cls (TAny # TLit 47 # ts) s)"
| "re_match cls (TAny # ts) s =
     (re_match cls ts s \<or> (case s of [] \<Rightarrow> False | x # xs \<Rightarrow> x \<noteq> 10 \<and> re_match cls (TAny # ts) xs))"
| "re_match cls (TStar # ts) s =
     (re_match cls ts s \<or> (case s of [] \<Rightarrow> False | x # xs \<Rightarrow> x \<noteq> 47 \<and> re_match cls (TStar # ts) xs))"
| "re_match cls (TLit r # ts) s = (case s of [] \<Rightarrow> False | x # xs \<Rightarrow> x = r \<and> re_match cls ts xs)"
| "re_match cls (TOne # ts) s = (case s of [] \<Rightarrow> False | x # xs \<Rightarrow> x \<noteq> 47 \<and> re_match cls ts xs)"
| "re_match cls (TClass c # ts) s =
     (case s of [] \<Rightarrow> False
      | x # xs \<Rightarrow> (case cls c of None \<Rightarrow> False | Some p \<Rightarrow> p x) \<and> re_match cls ts xs)"
  by pat_completeness auto
termination
  by (relation "measure (\<lambda>(cls, ts, s). sum_list (map tok_weight ts) + length s)") auto

section \<open>Parsing an ignore file\<close>

text \<open>\<open>unicode.IsSpace\<close>.\<close>

definition is_space :: "nat \<Rightarrow> bool" where
  "is_space r \<longleftrightarrow> (9 \<le> r \<and> r \<le> 13) \<or> r = 32 \<or> r = 0x85 \<or> r = 0xA0 \<or> r = 0x1680 \<or>
     (0x2000 \<le> r \<and> r \<le> 0x200A) \<or> r = 0x2028 \<or> r = 0x2029 \<or> r = 0x202F \<or> r = 0x205F \<or> r = 0x3000"

text \<open>On the reversed line: blanks are dropped while an even number of backslashes precedes.\<close>

fun trim_rev :: "string \<Rightarrow> string" where
  "trim_rev [] = []"
| "trim_rev (c # cs) =
     (if (c = CHR '' '' \<or> c = CHR 0x09) \<and> even (length (takeWhile (\<lambda>x. x = CHR 0x5C) cs))
      then trim_rev cs else c # cs)"

definition trimUnescapedTrailingSpace :: "string \<Rightarrow> string" where
  "trimUnescapedTrailingSpace s = rev (trim_rev (rev s))"

definition trim_suffix :: "string \<Rightarrow> string \<Rightarrow> string" where
  "trim_suffix s t = (if has_suffix s t then take (length s - length t) s else s)"

definition parseIgnoreLine :: "class_reader \<Rightarrow> string \<Rightarrow> ignore_err + ignorePattern option" where
  "parseIgnoreLine cls raw =
     (let line1 = trim_suffix raw [CHR 0x0D] in
      if list_all is_space (string_runes line1) then Inr None
      else if has_prefix line1 ''#'' then Inr None
      else let source = line1; line2 = trimUnescapedTrailingSpace line1 in
      if line2 = [] then Inr None
      else let negate = has_prefix line2 ''!''; line3 = (if negate then tl line2 else line2) in
      if negate \<and> line3 = [] then Inl (NegatesNothing source)
      else let dirOnly = has_suffix line3 ''/''; line4 = trim_suffix line3 ''/'' in
      if dirOnly \<and> line4 = [] then Inl (NamesNoPath source)
      else let rooted = has_prefix line4 ''/''; line5 = (if rooted then tl line4 else line4) in
      if rooted \<and> line5 = [] then Inl (NamesNoPath source)
      else case compileGlob cls line5 (rooted \<or> slash \<in> set line5) of
             Inl e \<Rightarrow> Inl e
           | Inr re \<Rightarrow> Inr (Some \<lparr>ip_source = source, ip_negate = negate, ip_dirOnly = dirOnly, ip_re = re\<rparr>))"

text \<open>
  \<open>bufio.Scanner\<close> with its default split: lines without their newline and one carriage
  return before it. A line of 1 MiB or more is \<open>bufio.ErrTooLong\<close> and ends the scan.
\<close>

definition text_lines :: "string \<Rightarrow> string list" where
  "text_lines text =
     (let ls = split_on (CHR 0x0A) text in if last ls = [] then butlast ls else ls)"

fun parse_lines ::
  "class_reader \<Rightarrow> nat \<Rightarrow> string list \<Rightarrow> IgnoreRules \<Rightarrow> (nat \<times> ignore_err) list \<Rightarrow>
   (ignore_err + IgnoreRules) \<times> (nat \<times> ignore_err) list" where
  "parse_lines cls lineNo [] g warnings = (Inr g, warnings)"
| "parse_lines cls lineNo (l # ls) g warnings =
     (if length l \<ge> 1048576 then (Inl LineTooLong, warnings)
      else case parseIgnoreLine cls (trim_suffix l [CHR 0x0D]) of
             Inl e \<Rightarrow> parse_lines cls (Suc lineNo) ls g (warnings @ [(Suc lineNo, e)])
           | Inr None \<Rightarrow> parse_lines cls (Suc lineNo) ls g warnings
           | Inr (Some pat) \<Rightarrow>
               parse_lines cls (Suc lineNo) ls
                 \<lparr>ir_patterns = ir_patterns g @ [pat],
                  ir_hasNegations = ir_hasNegations g \<or> ip_negate pat\<rparr> warnings)"

definition ParseIgnore ::
  "class_reader \<Rightarrow> string \<Rightarrow> (ignore_err + IgnoreRules) \<times> (nat \<times> ignore_err) list" where
  "ParseIgnore cls text =
     parse_lines cls 0 (text_lines text) \<lparr>ir_patterns = [], ir_hasNegations = False\<rparr> []"

section \<open>Matching\<close>

text \<open>The last pattern that matches decides; \<open>None\<close> when none does.\<close>

definition matchOne :: "class_reader \<Rightarrow> IgnoreRules \<Rightarrow> string \<Rightarrow> bool \<Rightarrow> bool option" where
  "matchOne cls g p isDir =
     map_option ip_negate
       (find (\<lambda>pat. \<not> (ip_dirOnly pat \<and> \<not> isDir) \<and> re_match cls (ip_re pat) (string_runes p))
          (rev (ir_patterns g)))"

text \<open>The proper prefixes of a path that end before a slash, shortest first.\<close>

definition ancestors :: "string \<Rightarrow> string list" where
  "ancestors p = map (\<lambda>i. take i p) (filter (\<lambda>i. p ! i = slash) [0 ..< length p])"

definition rules_verdict :: "class_reader \<Rightarrow> IgnoreRules \<Rightarrow> (string \<times> bool) list \<Rightarrow> bool" where
  "rules_verdict cls g qs =
     fold (\<lambda>(q, d) ignored. case matchOne cls g q d of Some negate \<Rightarrow> \<not> negate | None \<Rightarrow> ignored) qs False"

definition IgnoreRules_Match :: "class_reader \<Rightarrow> IgnoreRules option \<Rightarrow> string \<Rightarrow> bool \<Rightarrow> bool" where
  "IgnoreRules_Match cls go relpath isDir =
     (case go of
        None \<Rightarrow> False
      | Some g \<Rightarrow>
         if ir_patterns g = [] \<or> relpath = [] \<or> relpath = ''.'' then False
         else rules_verdict cls g (map (\<lambda>a. (a, True)) (ancestors relpath) @ [(relpath, isDir)]))"

definition HasNegations :: "IgnoreRules option \<Rightarrow> bool" where
  "HasNegations go = (case go of None \<Rightarrow> False | Some g \<Rightarrow> ir_hasNegations g)"

record Matcher =
  mt_patterns :: "string list"
  mt_rules :: "IgnoreRules option"

definition IgnoreFileName :: string where "IgnoreFileName = ''.syncatignore''"

definition builtinIgnorePatterns :: "string list" where
  "builtinIgnorePatterns = [''.syncat.tmp.*'', IgnoreFileName, ''.DS_Store'', ''Thumbs.db'', ''desktop.ini'']"

definition NewMatcherWithRules :: "string list \<Rightarrow> IgnoreRules option \<Rightarrow> Matcher" where
  "NewMatcherWithRules globalIgnores rules =
     \<lparr>mt_patterns = builtinIgnorePatterns @ globalIgnores, mt_rules = rules\<rparr>"

definition NewMatcher :: "string list \<Rightarrow> Matcher" where
  "NewMatcher globalIgnores = NewMatcherWithRules globalIgnores None"

definition matchGlobs :: "Matcher \<Rightarrow> string \<Rightarrow> bool" where
  "matchGlobs m p = list_ex (\<lambda>pat. path_match pat (path_base p) \<or> path_match pat p) (mt_patterns m)"

definition MatchPath :: "class_reader \<Rightarrow> Matcher option \<Rightarrow> string \<Rightarrow> bool \<Rightarrow> bool" where
  "MatchPath cls mo relpath isDir =
     (if relpath = ReservedDirName \<or> has_prefix relpath (ReservedDirName @ ''/'') then True
      else case mo of
             None \<Rightarrow> False
           | Some m \<Rightarrow>
              if list_ex (matchGlobs m) (ancestors relpath) then True
              else if matchGlobs m relpath then True
              else IgnoreRules_Match cls (mt_rules m) relpath isDir)"

definition PruneDirs :: "Matcher option \<Rightarrow> bool" where
  "PruneDirs mo = (case mo of None \<Rightarrow> True | Some m \<Rightarrow> \<not> HasNegations (mt_rules m))"

section \<open>Lemmas\<close>

lemma ancestors_append:
  "ancestors (p @ slash # q) = ancestors p @ p # map (\<lambda>a. p @ slash # a) (ancestors q)"
proof -
  let ?n = "length p" and ?s = "p @ slash # q"
  have "[0 ..< length ?s] = [0 ..< ?n] @ [?n] @ map (\<lambda>i. i + Suc ?n) [0 ..< length q]"
  proof -
    have "[0 ..< ?n + Suc (length q)] = [0 ..< ?n] @ [?n ..< ?n + Suc (length q)]"
      by (rule upt_add_eq_append) simp
    also have "[?n ..< ?n + Suc (length q)] = ?n # [Suc ?n ..< length q + Suc ?n]"
      by (simp add: upt_conv_Cons add.commute del: upt_Suc)
    also have "[Suc ?n ..< length q + Suc ?n] = map (\<lambda>i. i + Suc ?n) [0 ..< length q]"
      by (rule map_add_upt [symmetric])
    finally show ?thesis by simp
  qed
  moreover have "filter (\<lambda>i. ?s ! i = slash) (map (\<lambda>i. i + Suc ?n) [0 ..< length q]) =
      map (\<lambda>i. i + Suc ?n) (filter (\<lambda>i. q ! i = slash) [0 ..< length q])"
    by (auto simp: filter_map o_def nth_append intro!: filter_cong)
  moreover have "filter (\<lambda>i. ?s ! i = slash) [0 ..< ?n] = filter (\<lambda>i. p ! i = slash) [0 ..< ?n]"
    by (auto simp: nth_append intro!: filter_cong)
  ultimately show ?thesis by (auto simp: ancestors_def nth_append)
qed

text \<open>What \<open>ParseIgnore\<close> guarantees of its result.\<close>

definition rules_ok :: "IgnoreRules \<Rightarrow> bool" where
  "rules_ok g \<longleftrightarrow> ir_hasNegations g = list_ex ip_negate (ir_patterns g)"

lemma parse_lines_ok: "rules_ok g \<Longrightarrow> parse_lines cls n ls g w = (Inr g', w') \<Longrightarrow> rules_ok g'"
proof (induction cls n ls g w rule: parse_lines.induct)
  case (2 cls lineNo l ls g warnings)
  show ?case
    using 2 by (auto simp: rules_ok_def split: if_splits sum.splits option.splits)
qed simp

lemma matchOne_mem: "matchOne cls g p d = Some neg \<Longrightarrow> \<exists>pat \<in> set (ir_patterns g). ip_negate pat = neg"
  by (auto simp: matchOne_def dest!: find_mem)

lemma rules_verdict_no_neg:
  assumes "\<not> list_ex ip_negate (ir_patterns g)"
  shows "rules_verdict cls g qs \<longleftrightarrow> (\<exists>(q, d) \<in> set qs. matchOne cls g q d \<noteq> None)"
proof -
  have neg: "matchOne cls g q d = Some n \<Longrightarrow> \<not> n" for q d n
    using assms matchOne_mem by (fastforce simp: list_ex_iff)
  have "fold (\<lambda>(q, d) ignored. case matchOne cls g q d of Some negate \<Rightarrow> \<not> negate | None \<Rightarrow> ignored) qs b \<longleftrightarrow>
      b \<or> (\<exists>(q, d) \<in> set qs. matchOne cls g q d \<noteq> None)" for b
    by (induction qs arbitrary: b) (auto split: option.splits dest: neg)
  then show ?thesis by (simp add: rules_verdict_def)
qed

lemma IgnoreRules_Match_below:
  assumes "rules_ok g" "\<not> ir_hasNegations g" "IgnoreRules_Match cls (Some g) d True"
  shows "IgnoreRules_Match cls (Some g) (d @ slash # x) b"
proof -
  have n: "\<not> list_ex ip_negate (ir_patterns g)" using assms(1,2) by (simp add: rules_ok_def)
  have "ir_patterns g \<noteq> []" and v: "rules_verdict cls g (map (\<lambda>a. (a, True)) (ancestors d) @ [(d, True)])"
    using assms(3) by (auto simp: IgnoreRules_Match_def split: if_splits)
  moreover have "rules_verdict cls g (map (\<lambda>a. (a, True)) (ancestors (d @ slash # x)) @ [(d @ slash # x, b)])"
  proof -
    have "set (map (\<lambda>a. (a, True)) (ancestors d) @ [(d, True)]) \<subseteq>
        set (map (\<lambda>a. (a, True)) (ancestors (d @ slash # x)) @ [(d @ slash # x, b)])"
      by (auto simp: ancestors_append)
    then show ?thesis using v unfolding rules_verdict_no_neg [OF n] by blast
  qed
  moreover have "d @ slash # x \<noteq> ''.''" by (cases d) auto
  ultimately show ?thesis by (simp add: IgnoreRules_Match_def)
qed

lemma reserved_below:
  assumes "d = ReservedDirName \<or> has_prefix d (ReservedDirName @ ''/'')"
  shows "has_prefix (d @ slash # x) (ReservedDirName @ ''/'')"
proof -
  have "has_prefix (ReservedDirName @ slash # x) (ReservedDirName @ ''/'')"
    using has_prefix_append [of "ReservedDirName @ ''/''" x] by simp
  moreover have "has_prefix (d @ y) q" if "has_prefix d q" for q y
    using that unfolding has_prefix_iff by auto
  ultimately show ?thesis using assms by auto
qed

lemma path_base_append:
  assumes "b \<noteq> []" "slash \<notin> set b"
  shows "path_base (d @ slash # b) = b"
proof -
  obtain x y where b: "rev b = x # y" using assms(1) by (cases "rev b") auto
  have "x \<noteq> slash" using assms(2) b by (metis list.set_intros(1) set_rev)
  then have "dropWhile (\<lambda>c. c = slash) (rev (d @ slash # b)) = rev (d @ slash # b)" using b by simp
  moreover have "takeWhile (\<lambda>c. c \<noteq> slash) (rev (d @ slash # b)) = rev b"
    using assms(2) by (subst rev_append) (auto simp: takeWhile_append2 takeWhile_tail)
  ultimately show ?thesis using assms(1) unfolding path_base_def Let_def by simp
qed

section \<open>Properties\<close>

text \<open>
  C18. Pruning is sound: when the matcher lets the scanner skip an ignored directory without
  descending, every path below that directory, file or directory, is itself ignored. So the
  scan that prunes and the reconciler, which asks about one path at a time, agree. The rules
  are any that \<^verbatim>\<open>ParseIgnore\<close> returns.
\<close>

theorem prune_sound:
  assumes "fst (ParseIgnore cls text) = Inr g"
    and "m = Some (NewMatcherWithRules globals (Some g))"
    and "PruneDirs m" "MatchPath cls m d True"
  shows "MatchPath cls m (d @ ''/'' @ x) b"
proof (cases "d = ReservedDirName \<or> has_prefix d (ReservedDirName @ ''/'')")
  case True
  then show ?thesis using reserved_below by (simp add: MatchPath_def)
next
  case False
  have ok: "rules_ok g"
    using parse_lines_ok [of "\<lparr>ir_patterns = [], ir_hasNegations = False\<rparr>" cls 0 "text_lines text" "[]" g] assms(1)
    by (cases "ParseIgnore cls text") (auto simp: ParseIgnore_def rules_ok_def)
  let ?m = "NewMatcherWithRules globals (Some g)"
  have r: "mt_rules ?m = Some g" by (simp add: NewMatcherWithRules_def)
  have neg: "\<not> ir_hasNegations g" using assms(2,3) by (simp add: PruneDirs_def HasNegations_def r)
  consider "list_ex (matchGlobs ?m) (ancestors d)" | "matchGlobs ?m d" | "IgnoreRules_Match cls (Some g) d True"
    using assms(2,4) False by (auto simp: MatchPath_def r split: if_splits)
  then show ?thesis
  proof cases
    case 3
    then show ?thesis
      using IgnoreRules_Match_below [OF ok neg] assms(2) by (simp add: MatchPath_def r)
  qed (simp_all add: MatchPath_def assms(2) ancestors_append)
qed

theorem prune_sound_witness:
  "MatchPath (\<lambda>_. None) (Some (NewMatcherWithRules []
      (Some \<lparr>ir_patterns = [\<lparr>ip_source = ''build/'', ip_negate = False, ip_dirOnly = True,
               ip_re = [TSeg, TLit 98, TLit 117, TLit 105, TLit 108, TLit 100]\<rparr>], ir_hasNegations = False\<rparr>)))
      (''build'' @ ''/'' @ ''out.o'') False"
proof -
  let ?g = "\<lparr>ir_patterns = [\<lparr>ip_source = ''build/'', ip_negate = False, ip_dirOnly = True,
               ip_re = [TSeg, TLit 98, TLit 117, TLit 105, TLit 108, TLit 100]\<rparr>], ir_hasNegations = False\<rparr>"
  have 1: "fst (ParseIgnore (\<lambda>_. None) ''build/'') = Inr ?g"
    by (simp add: ParseIgnore_def text_lines_def parseIgnoreLine_def trim_suffix_def has_suffix_def
        has_prefix_def string_runes_def decode_rune_def utf8_width_def is_space_def
        trimUnescapedTrailingSpace_def compileGlob_def)
  have 2: "PruneDirs (Some (NewMatcherWithRules [] (Some ?g)))" by code_simp
  have 3: "MatchPath (\<lambda>_. None) (Some (NewMatcherWithRules [] (Some ?g))) ''build'' True" by code_simp
  show ?thesis by (rule prune_sound [OF 1 refl 2 3])
qed

text \<open>
  The built-in layer cannot be overridden: whatever the global patterns and the share's
  ignore file say, negations included, \<^verbatim>\<open>.syncat\<close> and everything in it, every in-flight
  download (\<^verbatim>\<open>.syncat.tmp.\<close> in any directory) and the ignore file itself are ignored.
\<close>

theorem builtins_always_ignored:
  "MatchPath cls mo (''.syncat'' @ ''/'' @ p) b \<and> MatchPath cls mo ''.syncat'' b \<and>
   MatchPath cls (Some (NewMatcherWithRules globals rules)) ''.syncatignore'' b \<and>
   MatchPath cls (Some (NewMatcherWithRules globals rules)) (''.syncat.tmp.'' @ filter (\<lambda>c. c \<noteq> slash) p) b \<and>
   MatchPath cls (Some (NewMatcherWithRules globals rules))
     (d @ ''/.syncat.tmp.'' @ filter (\<lambda>c. c \<noteq> slash) p) b"
proof -
  let ?m = "NewMatcherWithRules globals rules"
  let ?t = "''.syncat.tmp.'' @ filter (\<lambda>c. c \<noteq> slash) p"
  have glob: "MatchPath cls (Some ?m) q b" if "matchGlobs ?m q" for q
    using that by (simp add: MatchPath_def)
  have tmp: "path_match ''.syncat.tmp.*'' ?t"
    using path_match_plain_star [of "''.syncat.tmp.''" ?t] has_prefix_append [of "''.syncat.tmp.''"]
    by (simp add: plain_glob_def)
  have base: "path_base (d @ slash # ?t) = ?t" by (rule path_base_append) auto
  have "matchGlobs ?m ?t" "matchGlobs ?m (d @ slash # ?t)"
    using tmp base by (simp_all add: matchGlobs_def NewMatcherWithRules_def builtinIgnorePatterns_def)
  moreover have "matchGlobs ?m ''.syncatignore''"
    using path_match_plain [of "''.syncatignore''" "''.syncatignore''"]
    by (simp add: matchGlobs_def NewMatcherWithRules_def builtinIgnorePatterns_def IgnoreFileName_def plain_glob_def)
  moreover have "MatchPath cls mo (''.syncat'' @ ''/'' @ p) b" "MatchPath cls mo ''.syncat'' b"
    by (simp_all add: MatchPath_def ReservedDirName_def has_prefix_def)
  ultimately show ?thesis using glob by simp
qed

text \<open>
  A literal non-ASCII byte in an ignore pattern does not match itself: the pattern
  consisting of the two bytes of an e with an acute accent leaves the file of that name
  unignored, and ignores a different one instead, whose name is the UTF-8 encoding of the
  two bytes read as code points.
\<close>

theorem non_ascii_pattern_mismatch:
  "case ParseIgnore cls [CHR 0xC3, CHR 0xA9] of
     (Inr g, warnings) \<Rightarrow>
       warnings = [] \<and>
       \<not> IgnoreRules_Match cls (Some g) [CHR 0xC3, CHR 0xA9] False \<and>
       IgnoreRules_Match cls (Some g) [CHR 0xC3, CHR 0x83, CHR 0xC2, CHR 0xA9] False
   | _ \<Rightarrow> False"
  by (simp add: ParseIgnore_def text_lines_def parseIgnoreLine_def trim_suffix_def has_suffix_def
      has_prefix_def string_runes_def decode_rune_def utf8_width_def is_space_def utf8_lo_def utf8_hi_def
      trimUnescapedTrailingSpace_def compileGlob_def IgnoreRules_Match_def rules_verdict_def
      ancestors_def matchOne_def upt_rec)

end
