(* ===== verification/Config.thy ===== *)
theory Config
  imports Reconcile Ignore "HOL-Library.Sublist"
begin

text \<open>
  The configuration of \<^verbatim>\<open>internal/config\<close>: the schema and its validation
  (\<^verbatim>\<open>config.go\<close>), the safety settings (\<^verbatim>\<open>safety.go\<close>), the loopback rule for the API
  address (\<^verbatim>\<open>api_addr.go\<close>) and node tokens (\<^verbatim>\<open>keys.go\<close>).

  A Go \<open>int\<close> is an \<open>int\<close>; the one product that can exceed 64 bits, in \<open>Limit\<close>, wraps
  explicitly. \<open>Validate\<close> returns the list of errors the source joins. The JSON text of a
  document is outside the model; the document it encodes is inside it. The CBOR codec of a
  token is an argument.

  The main results: a valid configuration never offers a directory it also receives,
  documents round-trip, and size limits stay in range.
\<close>

section \<open>Schema\<close>

record Safety =
  sf_HoldDeletePercent :: int
  sf_HoldDeleteMin :: int
  sf_TrashRetentionDays :: int
  sf_TrashMaxSize :: string

record Peer =
  pe_Name :: string
  pe_Token :: string
  pe_Enabled :: bool

record PendingPeer =
  pp_Name :: string
  pp_Token :: string
  pp_FirstSeen :: int
  pp_LastSeen :: int

record Share =
  sh_ID :: string
  sh_Name :: string
  sh_Path :: string
  sh_Permission :: string
  sh_ApprovalRequired :: bool
  sh_Access :: "(string, string) fmap"
  sh_Safety :: Safety

record Subscription =
  su_Peer :: string
  su_ShareID :: string
  su_LocalPath :: string
  su_Mode :: string
  su_Paused :: bool
  su_Safety :: Safety

record Config =
  co_NodeName :: string
  co_APIAddr :: string
  co_TrashRetentionDays :: int
  co_RescanIntervalSeconds :: int
  co_Debug :: bool
  co_GlobalIgnores :: "string list"
  co_Peers :: "Peer list"
  co_PendingPeers :: "PendingPeer list"
  co_Shares :: "Share list"
  co_Subscriptions :: "Subscription list"

definition DefaultAPIAddr :: string where "DefaultAPIAddr = ''127.0.0.1:8347''"
definition DefaultTrashRetentionDays :: int where "DefaultTrashRetentionDays = 30"
definition DefaultRescanIntervalSeconds :: int where "DefaultRescanIntervalSeconds = 300"
definition DefaultHoldDeletePercent :: int where "DefaultHoldDeletePercent = 50"
definition DefaultHoldDeleteMin :: int where "DefaultHoldDeleteMin = 20"
definition DefaultTrashMaxSize :: string where "DefaultTrashMaxSize = ''25%''"

definition Default :: Config where
  "Default = \<lparr>co_NodeName = [], co_APIAddr = DefaultAPIAddr,
     co_TrashRetentionDays = DefaultTrashRetentionDays,
     co_RescanIntervalSeconds = DefaultRescanIntervalSeconds, co_Debug = False, co_GlobalIgnores = [],
     co_Peers = [], co_PendingPeers = [], co_Shares = [], co_Subscriptions = []\<rparr>"

text \<open>A nil \<open>Access\<close> map and an empty one are the same finite map.\<close>

definition ApplyDefaults :: "Config \<Rightarrow> Config" where
  "ApplyDefaults c =
     c\<lparr>co_APIAddr := (if co_APIAddr c = [] then DefaultAPIAddr else co_APIAddr c),
       co_TrashRetentionDays := (if co_TrashRetentionDays c = 0 then DefaultTrashRetentionDays
                                 else co_TrashRetentionDays c),
       co_RescanIntervalSeconds := (if co_RescanIntervalSeconds c = 0 then DefaultRescanIntervalSeconds
                                    else co_RescanIntervalSeconds c)\<rparr>"

section \<open>Trash sizes\<close>

text \<open>\<open>strconv.ParseInt(s, 10, 64)\<close> and \<open>strconv.Atoi\<close> on a 64-bit platform.\<close>

definition digits_value :: "string \<Rightarrow> int" where
  "digits_value ds = fold (\<lambda>c v. v * 10 + (of_char c - 48)) ds 0"

definition parse_int :: "string \<Rightarrow> int option" where
  "parse_int s =
     (let neg = has_prefix s ''-''; ds = (if neg \<or> has_prefix s ''+'' then tl s else s);
          v = (if neg then - digits_value ds else digits_value ds)
      in if ds = [] \<or> \<not> list_all is_digit ds then None
         else if - (2 ^ 63) \<le> v \<and> v < 2 ^ 63 then Some v else None)"

text \<open>\<open>strings.TrimSpace\<close>: the UTF-8 encodings of the runes \<open>unicode.IsSpace\<close>
  accepts, stripped from both ends.\<close>

definition space_seqs :: "string list" where
  "space_seqs =
     [[CHR 0x09], [CHR 0x0A], [CHR 0x0B], [CHR 0x0C], [CHR 0x0D], [CHR 0x20],
      [CHR 0xC2, CHR 0x85], [CHR 0xC2, CHR 0xA0], [CHR 0xE1, CHR 0x9A, CHR 0x80],
      [CHR 0xE2, CHR 0x80, CHR 0x80], [CHR 0xE2, CHR 0x80, CHR 0x81],
      [CHR 0xE2, CHR 0x80, CHR 0x82], [CHR 0xE2, CHR 0x80, CHR 0x83],
      [CHR 0xE2, CHR 0x80, CHR 0x84], [CHR 0xE2, CHR 0x80, CHR 0x85],
      [CHR 0xE2, CHR 0x80, CHR 0x86], [CHR 0xE2, CHR 0x80, CHR 0x87],
      [CHR 0xE2, CHR 0x80, CHR 0x88], [CHR 0xE2, CHR 0x80, CHR 0x89],
      [CHR 0xE2, CHR 0x80, CHR 0x8A], [CHR 0xE2, CHR 0x80, CHR 0xA8],
      [CHR 0xE2, CHR 0x80, CHR 0xA9], [CHR 0xE2, CHR 0x80, CHR 0xAF],
      [CHR 0xE2, CHR 0x81, CHR 0x9F], [CHR 0xE3, CHR 0x80, CHR 0x80]]"

definition lead_seq :: "string list \<Rightarrow> string \<Rightarrow> string" where
  "lead_seq qs s = (case find (\<lambda>q. has_prefix s q) qs of None \<Rightarrow> [] | Some q \<Rightarrow> q)"

lemma lead_seq_shorter: "lead_seq qs s \<noteq> [] \<Longrightarrow> length (lead_seq qs s) \<le> length s"
  by (auto simp: lead_seq_def has_prefix_iff dest: find_mem split: option.splits)

function trim_seqs :: "string list \<Rightarrow> string \<Rightarrow> string" where
  "trim_seqs qs s =
     (if lead_seq qs s = [] then s else trim_seqs qs (drop (length (lead_seq qs s)) s))"
  by pat_completeness auto
termination
proof (relation "measure (length \<circ> snd)")
  fix qs s assume "lead_seq qs s \<noteq> []"
  then have "0 < length (lead_seq qs s)" "length (lead_seq qs s) \<le> length s"
    using lead_seq_shorter by auto
  then show "((qs, drop (length (lead_seq qs s)) s), qs, s) \<in> measure (length \<circ> snd)"
    by (simp, arith)
qed simp

declare trim_seqs.simps [simp del]

definition trim_space :: "string \<Rightarrow> string" where
  "trim_space s = rev (trim_seqs (map rev space_seqs) (rev (trim_seqs space_seqs s)))"

definition cut_suffix :: "string \<Rightarrow> string \<Rightarrow> string option" where
  "cut_suffix s t = (if has_suffix s t then Some (take (length s - length t) s) else None)"

record TrashMaxSize =
  tm_Percent :: int
  tm_Bytes :: int

definition sizeUnits :: "(string \<times> int) list" where
  "sizeUnits = [(''TiB'', 2 ^ 40), (''GiB'', 2 ^ 30), (''MiB'', 2 ^ 20), (''KiB'', 2 ^ 10),
     (''TB'', 10 ^ 12), (''GB'', 10 ^ 9), (''MB'', 10 ^ 6), (''KB'', 10 ^ 3), (''B'', 1)]"

fun cut_unit :: "(string \<times> int) list \<Rightarrow> string \<Rightarrow> string \<times> int" where
  "cut_unit [] s = (s, 1)"
| "cut_unit ((suf, mult) # us) s =
     (case cut_suffix s suf of Some num \<Rightarrow> (trim_space num, mult) | None \<Rightarrow> cut_unit us s)"

definition ParseTrashMaxSize :: "string \<Rightarrow> TrashMaxSize option" where
  "ParseTrashMaxSize s0 =
     (let s = trim_space s0 in
      case cut_suffix s ''%'' of
        Some p \<Rightarrow>
          (case parse_int (trim_space p) of
             None \<Rightarrow> None
           | Some n \<Rightarrow> if n < 1 \<or> n > 100 then None else Some \<lparr>tm_Percent = n, tm_Bytes = 0\<rparr>)
      | None \<Rightarrow>
          (let (num, mult) = cut_unit sizeUnits s in
           case parse_int num of
             None \<Rightarrow> None
           | Some n \<Rightarrow> if n < 1 \<or> n > 2 ^ 62 div mult then None
                       else Some \<lparr>tm_Percent = 0, tm_Bytes = n * mult\<rparr>))"

text \<open>Two's-complement reading of a 64-bit result, and Go's truncating division.\<close>

definition int64 :: "int \<Rightarrow> int" where
  "int64 i = (i + 2 ^ 63) mod 2 ^ 64 - 2 ^ 63"

definition go_div :: "int \<Rightarrow> int \<Rightarrow> int" where
  "go_div a b = sgn a * sgn b * (\<bar>a\<bar> div \<bar>b\<bar>)"

definition Limit :: "TrashMaxSize \<Rightarrow> int \<Rightarrow> int" where
  "Limit m liveBytes =
     (if tm_Percent m > 0 then go_div (int64 (liveBytes * tm_Percent m)) 100 else tm_Bytes m)"

section \<open>Validation\<close>

datatype config_err =
    BadHoldPercent int
  | BadHoldMin int
  | BadRetention int
  | BadTrashMaxSize string
  | APIAddrEmpty
  | BadAPIAddr
  | NegativeRescan int
  | BadPermissionAt nat string
  | SharePathNotAbs nat
  | ShareSafety nat "config_err list"
  | BadMode nat string
  | SubPathNotAbs nat
  | SubSafety nat "config_err list"
  | Overlap nat nat
  | PathNotAbs string
  | PathOverlap string

definition Safety_Validate :: "Safety \<Rightarrow> config_err list" where
  "Safety_Validate s =
     (if sf_HoldDeletePercent s < 0 \<or> sf_HoldDeletePercent s > 100 then [BadHoldPercent (sf_HoldDeletePercent s)] else []) @
     (if sf_HoldDeleteMin s < 0 then [BadHoldMin (sf_HoldDeleteMin s)] else []) @
     (if sf_TrashRetentionDays s < 0 then [BadRetention (sf_TrashRetentionDays s)] else []) @
     (if sf_TrashMaxSize s \<noteq> [] \<and> ParseTrashMaxSize (sf_TrashMaxSize s) = None
      then [BadTrashMaxSize (sf_TrashMaxSize s)] else [])"

text \<open>Both loops of \<open>SafetyFor\<close> keep the last match, subscriptions after shares.\<close>

definition SafetyFor :: "Config \<Rightarrow> string \<Rightarrow> Safety" where
  "SafetyFor c shareID =
     (let zero = \<lparr>sf_HoldDeletePercent = 0, sf_HoldDeleteMin = 0, sf_TrashRetentionDays = 0, sf_TrashMaxSize = []\<rparr>;
          s1 = fold (\<lambda>sh s. if sh_ID sh = shareID then sh_Safety sh else s) (co_Shares c) zero;
          s = fold (\<lambda>su s. if su_ShareID su = shareID then su_Safety su else s) (co_Subscriptions c) s1;
          days = (if sf_TrashRetentionDays s = 0 then co_TrashRetentionDays c else sf_TrashRetentionDays s)
      in \<lparr>sf_HoldDeletePercent = (if sf_HoldDeletePercent s = 0 then DefaultHoldDeletePercent else sf_HoldDeletePercent s),
          sf_HoldDeleteMin = (if sf_HoldDeleteMin s = 0 then DefaultHoldDeleteMin else sf_HoldDeleteMin s),
          sf_TrashRetentionDays = (if days = 0 then DefaultTrashRetentionDays else days),
          sf_TrashMaxSize = (if sf_TrashMaxSize s = [] then DefaultTrashMaxSize else sf_TrashMaxSize s)\<rparr>)"

text \<open>\<open>filepath.Rel\<close> on cleaned Unix paths: common leading elements are dropped.\<close>

definition path_elems :: "string \<Rightarrow> string list" where
  "path_elems p = (if p = ''.'' then [] else filter (\<lambda>e. e \<noteq> []) (split_on slash p))"

fun strip_common :: "'a list \<Rightarrow> 'a list \<Rightarrow> 'a list \<times> 'a list" where
  "strip_common (x # xs) (y # ys) = (if x = y then strip_common xs ys else (x # xs, y # ys))"
| "strip_common xs ys = (xs, ys)"

definition filepath_rel :: "string \<Rightarrow> string \<Rightarrow> string option" where
  "filepath_rel base targ =
     (let b = path_clean base; t = path_clean targ in
      if t = b then Some ''.''
      else if is_abs b \<noteq> is_abs t then None
      else case strip_common (path_elems b) (path_elems t) of
             ([], ts) \<Rightarrow> Some (join_on slash ts)
           | (e # es, ts) \<Rightarrow>
               if e = ''..'' then None
               else Some (join_on slash (replicate (length (e # es)) ''..'' @ ts)))"

definition pathContains :: "string \<Rightarrow> string \<Rightarrow> bool" where
  "pathContains parent child =
     (case filepath_rel (path_clean parent) (path_clean child) of
        None \<Rightarrow> False
      | Some rel \<Rightarrow> rel = ''.'' \<or> (rel \<noteq> ''..'' \<and> \<not> has_prefix rel ''../''))"

definition pathsOverlap :: "string \<Rightarrow> string \<Rightarrow> bool" where
  "pathsOverlap a b \<longleftrightarrow> pathContains a b \<or> pathContains b a"

definition CheckSharePath :: "Config \<Rightarrow> string \<Rightarrow> config_err err" where
  "CheckSharePath c p =
     (if \<not> is_abs p then Some (PathNotAbs p)
      else if list_ex (\<lambda>su. su_LocalPath su \<noteq> [] \<and> pathsOverlap p (su_LocalPath su)) (co_Subscriptions c)
      then Some (PathOverlap p) else ok)"

definition CheckSubscriptionPath :: "Config \<Rightarrow> string \<Rightarrow> config_err err" where
  "CheckSubscriptionPath c p =
     (if \<not> is_abs p then Some (PathNotAbs p)
      else if list_ex (\<lambda>sh. sh_Path sh \<noteq> [] \<and> pathsOverlap p (sh_Path sh)) (co_Shares c)
      then Some (PathOverlap p) else ok)"

text \<open>\<open>net.SplitHostPort\<close> and \<open>net.JoinHostPort\<close>.\<close>

definition split_host_port :: "string \<Rightarrow> (string \<times> string) option" where
  "split_host_port hp =
     (case last_index_byte hp (CHR '':'') of
        None \<Rightarrow> None
      | Some i \<Rightarrow>
         if has_prefix hp ''['' then
           (case index_byte hp (CHR '']'') of
              None \<Rightarrow> None
            | Some e \<Rightarrow>
               if Suc e \<noteq> i then None
               else if CHR ''['' \<in> set (tl hp) \<or> CHR '']'' \<in> set (drop (Suc e) hp) then None
               else Some (take (e - 1) (tl hp), drop (Suc i) hp))
         else if CHR '':'' \<in> set (take i hp) then None
         else if CHR ''['' \<in> set hp \<or> CHR '']'' \<in> set hp then None
         else Some (take i hp, drop (Suc i) hp))"

definition join_host_port :: "string \<Rightarrow> string \<Rightarrow> string" where
  "join_host_port host port =
     (if CHR '':'' \<in> set host \<or> CHR ''%'' \<in> set host then ''['' @ host @ '']:'' @ port
      else host @ '':'' @ port)"

text \<open>\<open>net.ParseIP\<close> (that is \<open>netip.ParseAddr\<close> without a zone), as the bytes of the
  address, and \<open>IP.IsLoopback\<close>.\<close>

definition ipv4_field :: "string \<Rightarrow> nat option" where
  "ipv4_field f =
     (if f = [] \<or> \<not> list_all is_digit f \<or> (hd f = CHR ''0'' \<and> length f > 1) \<or> digits_value f > 255
      then None else Some (nat (digits_value f)))"

definition parse_ipv4 :: "string \<Rightarrow> nat list option" where
  "parse_ipv4 s = (let fs = map ipv4_field (split_on (CHR ''.'') s) in
     if length fs \<noteq> 4 \<or> None \<in> set fs then None else Some (map the fs))"

definition hex_value :: "char \<Rightarrow> nat option" where
  "hex_value c = (let n = of_char c :: nat in
     if 48 \<le> n \<and> n \<le> 57 then Some (n - 48)
     else if 97 \<le> n \<and> n \<le> 102 then Some (n - 87)
     else if 65 \<le> n \<and> n \<le> 70 then Some (n - 55) else None)"

definition hex_run :: "string \<Rightarrow> string" where
  "hex_run s = takeWhile (\<lambda>c. hex_value c \<noteq> None) s"

text \<open>The loop of \<open>parseIPv6\<close>: the bytes read so far and where the ellipsis stands.
  The result is the final bytes, the ellipsis and the unread text.\<close>

function ipv6_groups ::
  "nat list \<Rightarrow> nat option \<Rightarrow> string \<Rightarrow> (nat list \<times> nat option \<times> string) option" where
  "ipv6_groups ip ell s =
     (if length ip \<ge> 16 then Some (ip, ell, s)
      else let h = hex_run s; s1 = drop (length h) s; acc = fold (\<lambda>c a. 16 * a + the (hex_value c)) h 0;
               ip' = ip @ [acc div 256, acc mod 256] in
      if h = [] \<or> length h > 4 then None
      else if has_prefix s1 ''.'' then
        (if ell = None \<and> length ip \<noteq> 12 \<or> length ip + 4 > 16 then None
         else map_option (\<lambda>f. (ip @ f, ell, [])) (parse_ipv4 s))
      else if s1 = [] then Some (ip', ell, [])
      else if hd s1 \<noteq> CHR '':'' \<or> tl s1 = [] then None
      else if hd (tl s1) = CHR '':'' then
        (if ell \<noteq> None then None
         else if tl (tl s1) = [] then Some (ip', Some (length ip'), [])
         else ipv6_groups ip' (Some (length ip')) (tl (tl s1)))
      else ipv6_groups ip' ell (tl s1))"
  by pat_completeness auto
termination
  by (relation "measure (\<lambda>(ip, ell, s). 16 - length ip)") auto

declare ipv6_groups.simps [simp del]

definition parse_ipv6 :: "string \<Rightarrow> nat list option" where
  "parse_ipv6 s =
     (if CHR ''%'' \<in> set s then None
      else let ell = (if has_prefix s ''::'' then Some 0 else None);
               s1 = (if has_prefix s ''::'' then drop 2 s else s) in
      if ell \<noteq> None \<and> s1 = [] then Some (replicate 16 0)
      else case ipv6_groups [] ell s1 of
        None \<Rightarrow> None
      | Some (ip, ell', rest) \<Rightarrow>
          if rest \<noteq> [] then None
          else if length ip < 16 then
            map_option (\<lambda>e. take e ip @ replicate (16 - length ip) 0 @ drop e ip) ell'
          else if ell' \<noteq> None then None else Some ip)"

definition parse_ip :: "string \<Rightarrow> nat list option" where
  "parse_ip s =
     (case find (\<lambda>c. c = CHR ''.'' \<or> c = CHR '':'' \<or> c = CHR ''%'') s of
        None \<Rightarrow> None
      | Some c \<Rightarrow> if c = CHR ''.'' then parse_ipv4 s
                  else if c = CHR '':'' then parse_ipv6 s else None)"

definition ip_is_loopback :: "nat list \<Rightarrow> bool" where
  "ip_is_loopback ip =
     (if length ip = 4 then hd ip = 127
      else if take 12 ip = replicate 10 0 @ [255, 255] then ip ! 12 = 127
      else ip = replicate 15 0 @ [1])"

definition IsLoopbackHost :: "string \<Rightarrow> bool" where
  "IsLoopbackHost host \<longleftrightarrow>
     host = ''localhost'' \<or> (case parse_ip host of None \<Rightarrow> False | Some ip \<Rightarrow> ip_is_loopback ip)"

definition NormalizeAPIAddr :: "string \<Rightarrow> string option" where
  "NormalizeAPIAddr addr =
     (case split_host_port addr of
        None \<Rightarrow> None
      | Some (host, port) \<Rightarrow>
         if port = [] then None
         else let h = (if host = [] then ''127.0.0.1'' else host) in
              if \<not> IsLoopbackHost h then None else Some (join_host_port h port))"

definition validate_share :: "nat \<times> Share \<Rightarrow> config_err list" where
  "validate_share x = (case x of (i, s) \<Rightarrow>
     (if sh_Permission s \<noteq> PermissionReadOnly \<and> sh_Permission s \<noteq> PermissionReadWrite
      then [BadPermissionAt i (sh_Permission s)] else []) @
     (if sh_Path s \<noteq> [] \<and> \<not> is_abs (sh_Path s) then [SharePathNotAbs i] else []) @
     (if Safety_Validate (sh_Safety s) \<noteq> [] then [ShareSafety i (Safety_Validate (sh_Safety s))] else []))"

definition validate_subscription :: "nat \<times> Subscription \<Rightarrow> config_err list" where
  "validate_subscription x = (case x of (i, su) \<Rightarrow>
     (if su_Mode su \<noteq> ModeMirror \<and> su_Mode su \<noteq> ModeReceiveOnly then [BadMode i (su_Mode su)] else []) @
     (if su_LocalPath su \<noteq> [] \<and> \<not> is_abs (su_LocalPath su) then [SubPathNotAbs i] else []) @
     (if Safety_Validate (su_Safety su) \<noteq> [] then [SubSafety i (Safety_Validate (su_Safety su))] else []))"

definition overlap_errs :: "Config \<Rightarrow> config_err list" where
  "overlap_errs c =
     concat (map (\<lambda>(i, s).
        if sh_Path s = [] then []
        else concat (map (\<lambda>(j, su).
               if su_LocalPath su = [] \<or> \<not> pathsOverlap (sh_Path s) (su_LocalPath su) then [] else [Overlap i j])
             (enumerate 0 (co_Subscriptions c))))
        (enumerate 0 (co_Shares c)))"

definition Config_Validate :: "Config \<Rightarrow> config_err list" where
  "Config_Validate c =
     (if co_APIAddr c = [] then [APIAddrEmpty]
      else if NormalizeAPIAddr (co_APIAddr c) = None then [BadAPIAddr] else []) @
     (if co_RescanIntervalSeconds c < 0 then [NegativeRescan (co_RescanIntervalSeconds c)] else []) @
     concat (map validate_share (enumerate 0 (co_Shares c))) @
     concat (map validate_subscription (enumerate 0 (co_Subscriptions c))) @
     overlap_errs c @
     (if co_TrashRetentionDays c < 0 then [BadRetention (co_TrashRetentionDays c)] else [])"

section \<open>Documents\<close>

text \<open>The structs \<^verbatim>\<open>config.json\<close> is encoded from and decoded into. \<open>Enabled\<close> is a pointer, so
  an absent field is \<open>None\<close>; \<open>pendingPeerDoc\<close> and \<open>safetyDoc\<close> convert field by field.\<close>

record peerDoc =
  pd_Name :: string
  pd_Token :: string
  pd_Enabled :: "bool option"

record shareDoc =
  sd_ID :: string
  sd_Name :: string
  sd_Path :: string
  sd_Permission :: string
  sd_ApprovalRequired :: bool
  sd_Access :: "(string, string) fmap"
  sd_Safety :: Safety

record subscriptionDoc =
  ud_Peer :: string
  ud_ShareID :: string
  ud_LocalPath :: string
  ud_Mode :: string
  ud_Paused :: bool
  ud_Safety :: Safety

record configDoc =
  cd_NodeName :: string
  cd_APIAddr :: string
  cd_TrashRetentionDays :: int
  cd_RescanIntervalSeconds :: int
  cd_Debug :: bool
  cd_GlobalIgnores :: "string list"
  cd_Peers :: "peerDoc list"
  cd_PendingPeers :: "PendingPeer list"
  cd_Shares :: "shareDoc list"
  cd_Subscriptions :: "subscriptionDoc list"

definition configToDoc :: "Config \<Rightarrow> configDoc" where
  "configToDoc c =
     \<lparr>cd_NodeName = co_NodeName c, cd_APIAddr = co_APIAddr c,
      cd_TrashRetentionDays = co_TrashRetentionDays c,
      cd_RescanIntervalSeconds = co_RescanIntervalSeconds c, cd_Debug = co_Debug c,
      cd_GlobalIgnores = co_GlobalIgnores c,
      cd_Peers = map (\<lambda>p. \<lparr>pd_Name = pe_Name p, pd_Token = pe_Token p, pd_Enabled = Some (pe_Enabled p)\<rparr>)
                   (co_Peers c),
      cd_PendingPeers = co_PendingPeers c,
      cd_Shares = map (\<lambda>s. \<lparr>sd_ID = sh_ID s, sd_Name = sh_Name s, sd_Path = sh_Path s,
                       sd_Permission = sh_Permission s, sd_ApprovalRequired = sh_ApprovalRequired s,
                       sd_Access = sh_Access s, sd_Safety = sh_Safety s\<rparr>) (co_Shares c),
      cd_Subscriptions = map (\<lambda>u. \<lparr>ud_Peer = su_Peer u, ud_ShareID = su_ShareID u,
                       ud_LocalPath = su_LocalPath u, ud_Mode = su_Mode u, ud_Paused = su_Paused u,
                       ud_Safety = su_Safety u\<rparr>) (co_Subscriptions c)\<rparr>"

definition docToConfig :: "configDoc \<Rightarrow> Config" where
  "docToConfig d =
     \<lparr>co_NodeName = cd_NodeName d, co_APIAddr = cd_APIAddr d,
      co_TrashRetentionDays = cd_TrashRetentionDays d,
      co_RescanIntervalSeconds = cd_RescanIntervalSeconds d, co_Debug = cd_Debug d,
      co_GlobalIgnores = cd_GlobalIgnores d,
      co_Peers = map (\<lambda>p. \<lparr>pe_Name = pd_Name p, pe_Token = pd_Token p,
                       pe_Enabled = (case pd_Enabled p of None \<Rightarrow> True | Some b \<Rightarrow> b)\<rparr>) (cd_Peers d),
      co_PendingPeers = cd_PendingPeers d,
      co_Shares = map (\<lambda>s. \<lparr>sh_ID = sd_ID s, sh_Name = sd_Name s, sh_Path = sd_Path s,
                       sh_Permission = sd_Permission s, sh_ApprovalRequired = sd_ApprovalRequired s,
                       sh_Access = sd_Access s, sh_Safety = sd_Safety s\<rparr>) (cd_Shares d),
      co_Subscriptions = map (\<lambda>u. \<lparr>su_Peer = ud_Peer u, su_ShareID = ud_ShareID u,
                       su_LocalPath = ud_LocalPath u, su_Mode = ud_Mode u, su_Paused = ud_Paused u,
                       su_Safety = ud_Safety u\<rparr>) (cd_Subscriptions d)\<rparr>"

text \<open>\<open>Load\<close> after the file is read and its JSON parsed, and \<open>Save\<close> up to the document
  that is written.\<close>

definition Load_doc :: "configDoc \<Rightarrow> config_err list + Config" where
  "Load_doc d = (let c = ApplyDefaults (docToConfig d) in
     if Config_Validate c \<noteq> [] then Inl (Config_Validate c) else Inr c)"

definition Save_doc :: "Config \<Rightarrow> config_err list + configDoc" where
  "Save_doc c = (if Config_Validate c \<noteq> [] then Inl (Config_Validate c) else Inr (configToDoc c))"

section \<open>Overlapping trees\<close>

text \<open>The elements of an absolute path, and what it means to lie at or below a directory.\<close>

definition abs_elems :: "string \<Rightarrow> string list" where
  "abs_elems p = clean_elems True [] (split_on slash p)"

definition inside :: "string \<Rightarrow> string \<Rightarrow> bool" where
  "inside d p \<longleftrightarrow> prefix (abs_elems d) (abs_elems p)"

lemma abs_elems_plain: "e \<in> set (abs_elems p) \<Longrightarrow> plain_elem e \<and> slash \<notin> set e"
  unfolding abs_elems_def using clean_elems_rooted_plain [of "[]"] clean_elems_no_slash by auto

lemma path_elems_clean: "is_abs p \<Longrightarrow> path_elems (path_clean p) = abs_elems p"
proof -
  assume a: "is_abs p"
  have ne: "\<forall>e \<in> set (abs_elems p). e \<noteq> []"
    using abs_elems_plain by (auto simp: plain_elem_def)
  have "path_clean p \<noteq> ''.''" using a by (simp add: path_clean_rooted)
  then show ?thesis
    using split_clean_root [OF a] ne by (simp add: path_elems_def flip: abs_elems_def)
qed

lemma path_clean_eq_iff:
  "is_abs p \<Longrightarrow> is_abs q \<Longrightarrow> path_clean p = path_clean q \<longleftrightarrow> abs_elems p = abs_elems q"
  by (metis abs_elems_def path_clean_rooted path_elems_clean)

lemma strip_common_split:
  "strip_common xs ys = (us, vs) \<Longrightarrow>
     \<exists>ps. xs = ps @ us \<and> ys = ps @ vs \<and> (us = [] \<or> vs = [] \<or> hd us \<noteq> hd vs)"
  by (induction xs ys rule: strip_common.induct)
    (force split: if_splits intro: exI [of _ "[]"] exI [of _ "_ # _"])+

lemma join_on_head: "join_on c (e # es) = e \<or> (\<exists>r. join_on c (e # es) = e @ c # r)"
  by (cases es) auto

lemma plain_rel_not_up:
  assumes "plain_elem e" "slash \<notin> set e"
  shows "join_on slash (e # es) \<noteq> ''..'' \<and> \<not> has_prefix (join_on slash (e # es)) ''../''"
proof -
  have up: False if "has_prefix (join_on slash (e # es)) ''../'' \<or> join_on slash (e # es) = ''..''"
  proof -
    have "split_on slash (join_on slash (e # es)) = e # split_on slash (drop (Suc (length e)) (join_on slash (e # es)))
          \<or> join_on slash (e # es) = e"
      using join_on_head [of slash e es] assms(2) by (auto simp: split_on_append)
    then have "hd (split_on slash (join_on slash (e # es))) = e"
      using assms(2) by (auto simp: split_on_single)
    moreover have "hd (split_on slash (join_on slash (e # es))) = ''..''"
      using that by (auto simp: has_prefix_iff split: list.split)
    ultimately show False using assms(1) by (simp add: plain_elem_def)
  qed
  then show ?thesis by blast
qed

lemma up_rel: "es \<noteq> [] \<Longrightarrow> hd es = ''..'' \<Longrightarrow>
  join_on slash es = ''..'' \<or> has_prefix (join_on slash es) ''../''"
  using join_on_head [of slash "''..''" "tl es"] by (cases es) (auto simp: has_prefix_iff)

lemma pathContains_iff:
  assumes a: "is_abs d" and b: "is_abs p"
  shows "pathContains d p \<longleftrightarrow> inside d p"
proof (cases "abs_elems d = abs_elems p")
  case True
  then show ?thesis
    using a b by (simp add: pathContains_def filepath_rel_def path_clean_idem path_clean_eq_iff
        inside_def Let_def is_abs_clean)
next
  case False
  obtain us vs where sc: "strip_common (abs_elems d) (abs_elems p) = (us, vs)" by fastforce
  then obtain ps where ps: "abs_elems d = ps @ us" "abs_elems p = ps @ vs"
    "us = [] \<or> vs = [] \<or> hd us \<noteq> hd vs" using strip_common_split by blast
  have rel: "filepath_rel (path_clean d) (path_clean p) =
     (case us of [] \<Rightarrow> Some (join_on slash vs)
      | e # es \<Rightarrow> if e = ''..'' then None
                  else Some (join_on slash (replicate (length us) ''..'' @ vs)))"
    using a b False sc
    by (simp add: filepath_rel_def path_clean_idem path_clean_eq_iff path_elems_clean is_abs_clean
        Let_def split: list.split)
  show ?thesis
  proof (cases us)
    case Nil
    with False ps have "vs \<noteq> []" by auto
    then obtain v vs' where v: "vs = v # vs'" by (cases vs) auto
    have "plain_elem v \<and> slash \<notin> set v" using abs_elems_plain [of v p] ps v by simp
    then have "pathContains d p"
      using rel Nil v plain_rel_not_up by (simp add: pathContains_def)
    then show ?thesis using ps Nil by (simp add: inside_def)
  next
    case (Cons e es)
    have "\<not> inside d p"
      using ps Cons by (cases vs) (auto simp: inside_def)
    moreover have "e \<noteq> ''..''" using abs_elems_plain [of e d] ps Cons by (simp add: plain_elem_def)
    moreover have "\<not> pathContains d p"
      using rel Cons \<open>e \<noteq> ''..''\<close> up_rel [of "replicate (length us) ''..'' @ vs"]
      by (auto simp: pathContains_def has_prefix_def)
    ultimately show ?thesis by blast
  qed
qed

lemma pathsOverlap_iff:
  assumes "is_abs a" "is_abs b"
  shows "pathsOverlap a b \<longleftrightarrow> (\<exists>p. is_abs p \<and> inside a p \<and> inside b p)"
proof
  assume "pathsOverlap a b"
  then show "\<exists>p. is_abs p \<and> inside a p \<and> inside b p"
    using assms by (auto simp: pathsOverlap_def pathContains_iff inside_def)
next
  assume "\<exists>p. is_abs p \<and> inside a p \<and> inside b p"
  then show "pathsOverlap a b"
    using assms prefix_same_cases by (auto simp: pathsOverlap_def pathContains_iff inside_def)
qed

section \<open>Valid configurations\<close>

lemma enumerate_all: "(\<forall>x \<in> set (enumerate n xs). P (snd x)) \<longleftrightarrow> (\<forall>x \<in> set xs. P x)"
  by (induction xs arbitrary: n) auto

lemma validate_share_ok:
  "validate_share (i, s) = [] \<longleftrightarrow>
     (sh_Permission s = PermissionReadOnly \<or> sh_Permission s = PermissionReadWrite) \<and>
     (sh_Path s = [] \<or> is_abs (sh_Path s)) \<and> Safety_Validate (sh_Safety s) = []"
  by (auto simp: validate_share_def)

lemma validate_subscription_ok:
  "validate_subscription (i, u) = [] \<longleftrightarrow>
     (su_Mode u = ModeMirror \<or> su_Mode u = ModeReceiveOnly) \<and>
     (su_LocalPath u = [] \<or> is_abs (su_LocalPath u)) \<and> Safety_Validate (su_Safety u) = []"
  by (auto simp: validate_subscription_def)

lemma enumerate_ex: "x \<in> set xs \<Longrightarrow> \<exists>i. (i, x) \<in> set (enumerate 0 xs)"
  by (metis in_set_conv_nth in_set_enumerate_eq add.right_neutral diff_zero fst_conv le0 snd_conv)

lemma overlap_errs_ok:
  "overlap_errs c = [] \<longleftrightarrow>
     (\<forall>s \<in> set (co_Shares c). \<forall>u \<in> set (co_Subscriptions c).
        sh_Path s \<noteq> [] \<longrightarrow> su_LocalPath u \<noteq> [] \<longrightarrow> \<not> pathsOverlap (sh_Path s) (su_LocalPath u))"
proof
  assume ok: "overlap_errs c = []"
  show "\<forall>s \<in> set (co_Shares c). \<forall>u \<in> set (co_Subscriptions c).
        sh_Path s \<noteq> [] \<longrightarrow> su_LocalPath u \<noteq> [] \<longrightarrow> \<not> pathsOverlap (sh_Path s) (su_LocalPath u)"
  proof (intro ballI impI)
    fix s u
    assume "s \<in> set (co_Shares c)" "u \<in> set (co_Subscriptions c)"
      and ne: "sh_Path s \<noteq> []" "su_LocalPath u \<noteq> []"
    then obtain i j where "(i, s) \<in> set (enumerate 0 (co_Shares c))"
      "(j, u) \<in> set (enumerate 0 (co_Subscriptions c))" using enumerate_ex by metis
    with ok ne show "\<not> pathsOverlap (sh_Path s) (su_LocalPath u)"
      by (fastforce simp: overlap_errs_def split: if_splits)
  qed
next
  assume "\<forall>s \<in> set (co_Shares c). \<forall>u \<in> set (co_Subscriptions c).
        sh_Path s \<noteq> [] \<longrightarrow> su_LocalPath u \<noteq> [] \<longrightarrow> \<not> pathsOverlap (sh_Path s) (su_LocalPath u)"
  then show "overlap_errs c = []"
    by (auto simp: overlap_errs_def in_set_enumerate_eq)
qed

lemma Config_Validate_ok:
  "Config_Validate c = [] \<longleftrightarrow>
     co_APIAddr c \<noteq> [] \<and> NormalizeAPIAddr (co_APIAddr c) \<noteq> None \<and>
     0 \<le> co_RescanIntervalSeconds c \<and> 0 \<le> co_TrashRetentionDays c \<and>
     (\<forall>s \<in> set (co_Shares c). validate_share (0, s) = []) \<and>
     (\<forall>u \<in> set (co_Subscriptions c). validate_subscription (0, u) = []) \<and>
     overlap_errs c = []"
proof -
  have "concat (map validate_share (enumerate 0 (co_Shares c))) = [] \<longleftrightarrow>
        (\<forall>s \<in> set (co_Shares c). validate_share (0, s) = [])"
    using enumerate_all [of 0 "co_Shares c" "\<lambda>s. validate_share (0, s) = []"]
    by (auto simp: validate_share_ok)
  moreover have "concat (map validate_subscription (enumerate 0 (co_Subscriptions c))) = [] \<longleftrightarrow>
        (\<forall>u \<in> set (co_Subscriptions c). validate_subscription (0, u) = [])"
    using enumerate_all [of 0 "co_Subscriptions c" "\<lambda>s. validate_subscription (0, s) = []"]
    by (auto simp: validate_subscription_ok)
  ultimately show ?thesis by (auto simp: Config_Validate_def split: if_splits)
qed

lemma doc_round_trip: "docToConfig (configToDoc c) = c"
proof -
  have "map (\<lambda>p. \<lparr>pe_Name = pe_Name p, pe_Token = pe_Token p, pe_Enabled = pe_Enabled p\<rparr>) ps = ps" for ps :: "Peer list"
    by (rule map_idI) simp
  moreover have "map (\<lambda>s. \<lparr>sh_ID = sh_ID s, sh_Name = sh_Name s, sh_Path = sh_Path s,
      sh_Permission = sh_Permission s, sh_ApprovalRequired = sh_ApprovalRequired s,
      sh_Access = sh_Access s, sh_Safety = sh_Safety s\<rparr>) ss = ss" for ss :: "Share list"
    by (rule map_idI) simp
  moreover have "map (\<lambda>u. \<lparr>su_Peer = su_Peer u, su_ShareID = su_ShareID u, su_LocalPath = su_LocalPath u,
      su_Mode = su_Mode u, su_Paused = su_Paused u, su_Safety = su_Safety u\<rparr>) us = us" for us :: "Subscription list"
    by (rule map_idI) simp
  ultimately show ?thesis by (simp add: docToConfig_def configToDoc_def comp_def)
qed

lemma defaults_stay_valid: "Config_Validate c = [] \<Longrightarrow> Config_Validate (ApplyDefaults c) = []"
  by (auto simp: Config_Validate_ok ApplyDefaults_def overlap_errs_ok DefaultTrashRetentionDays_def
      DefaultRescanIntervalSeconds_def)

definition ex_safety :: Safety where
  "ex_safety = \<lparr>sf_HoldDeletePercent = 0, sf_HoldDeleteMin = 0, sf_TrashRetentionDays = 0, sf_TrashMaxSize = ''2GiB''\<rparr>"

definition ex_config :: Config where
  "ex_config = Default\<lparr>
     co_Shares := [\<lparr>sh_ID = ''s'', sh_Name = ''docs'', sh_Path = ''/a/code'', sh_Permission = PermissionReadWrite,
       sh_ApprovalRequired = True, sh_Access = fmempty, sh_Safety = ex_safety\<rparr>],
     co_Subscriptions := [\<lparr>su_Peer = ''p'', su_ShareID = ''t'', su_LocalPath = ''/a/codebase'',
       su_Mode = ModeMirror, su_Paused = False, su_Safety = ex_safety\<rparr>]\<rparr>"

lemma ex_config_valid: "Config_Validate ex_config = []"
  by code_simp

section \<open>Properties\<close>

text \<open>
  C25. No directory is both offered and received. In a valid configuration no absolute path
  lies at or below both the path of a share and the local path of a subscription, and
  \<open>CheckSharePath\<close> and \<open>CheckSubscriptionPath\<close> accept a new path exactly when it is
  absolute and adding it keeps that so.
\<close>

theorem no_directory_offered_and_received:
  assumes "Config_Validate c = []"
  shows "(\<forall>s u p. s \<in> set (co_Shares c) \<longrightarrow> u \<in> set (co_Subscriptions c) \<longrightarrow>
            sh_Path s \<noteq> [] \<longrightarrow> su_LocalPath u \<noteq> [] \<longrightarrow> is_abs p \<longrightarrow>
            \<not> (inside (sh_Path s) p \<and> inside (su_LocalPath u) p)) \<and>
         (CheckSharePath c path = ok \<longleftrightarrow> is_abs path \<and>
            (\<forall>u p. u \<in> set (co_Subscriptions c) \<longrightarrow> su_LocalPath u \<noteq> [] \<longrightarrow> is_abs p \<longrightarrow>
               \<not> (inside path p \<and> inside (su_LocalPath u) p))) \<and>
         (CheckSubscriptionPath c path = ok \<longleftrightarrow> is_abs path \<and>
            (\<forall>s p. s \<in> set (co_Shares c) \<longrightarrow> sh_Path s \<noteq> [] \<longrightarrow> is_abs p \<longrightarrow>
               \<not> (inside path p \<and> inside (sh_Path s) p)))"
proof (intro conjI)
  have sh: "is_abs (sh_Path s)" if "s \<in> set (co_Shares c)" "sh_Path s \<noteq> []" for s
    using assms that by (auto simp: Config_Validate_ok validate_share_ok)
  have su: "is_abs (su_LocalPath u)" if "u \<in> set (co_Subscriptions c)" "su_LocalPath u \<noteq> []" for u
    using assms that by (auto simp: Config_Validate_ok validate_subscription_ok)
  show "\<forall>s u p. s \<in> set (co_Shares c) \<longrightarrow> u \<in> set (co_Subscriptions c) \<longrightarrow>
            sh_Path s \<noteq> [] \<longrightarrow> su_LocalPath u \<noteq> [] \<longrightarrow> is_abs p \<longrightarrow>
            \<not> (inside (sh_Path s) p \<and> inside (su_LocalPath u) p)"
    using assms sh su by (metis Config_Validate_ok overlap_errs_ok pathsOverlap_iff)
  show "CheckSharePath c path = ok \<longleftrightarrow> is_abs path \<and>
            (\<forall>u p. u \<in> set (co_Subscriptions c) \<longrightarrow> su_LocalPath u \<noteq> [] \<longrightarrow> is_abs p \<longrightarrow>
               \<not> (inside path p \<and> inside (su_LocalPath u) p))"
    using su pathsOverlap_iff by (simp add: CheckSharePath_def list_ex_iff) blast
  show "CheckSubscriptionPath c path = ok \<longleftrightarrow> is_abs path \<and>
            (\<forall>s p. s \<in> set (co_Shares c) \<longrightarrow> sh_Path s \<noteq> [] \<longrightarrow> is_abs p \<longrightarrow>
               \<not> (inside path p \<and> inside (sh_Path s) p))"
    using sh pathsOverlap_iff by (simp add: CheckSubscriptionPath_def list_ex_iff) blast
qed

theorem no_directory_offered_and_received_witness:
  "CheckSharePath ex_config ''/a/codebase2'' = ok \<and>
   \<not> (inside ''/a/codebase2'' ''/a/codebase/x'' \<and> inside ''/a/codebase'' ''/a/codebase/x'') \<and>
   CheckSharePath ex_config ''/a/../a/codebase/x'' \<noteq> ok"
proof (intro conjI)
  show ok: "CheckSharePath ex_config ''/a/codebase2'' = ok" by code_simp
  show "\<not> (inside ''/a/codebase2'' ''/a/codebase/x'' \<and> inside ''/a/codebase'' ''/a/codebase/x'')"
    using no_directory_offered_and_received [OF ex_config_valid, of "''/a/codebase2''"] ok
    by (simp add: ex_config_def is_abs_def has_prefix_def)
  show "CheckSharePath ex_config ''/a/../a/codebase/x'' \<noteq> ok" by code_simp
qed

text \<open>
  A configuration that \<open>Save\<close> accepts comes back from \<open>Load\<close> with every field
  unchanged, except that a zero retention or rescan interval becomes its default; what
  \<open>Load\<close> returns is always valid and \<open>Save\<close> accepts it again; a peer entry without an
  \<open>enabled\<close> field is enabled.
\<close>

theorem saved_config_loads:
  "(Save_doc c = Inr d \<longrightarrow> Load_doc d = Inr (ApplyDefaults c)) \<and>
   (Save_doc c = Inr d \<longrightarrow> co_TrashRetentionDays c \<noteq> 0 \<longrightarrow> co_RescanIntervalSeconds c \<noteq> 0 \<longrightarrow>
      Load_doc d = Inr c) \<and>
   (Load_doc e = Inr c' \<longrightarrow> Config_Validate c' = [] \<and> Save_doc c' = Inr (configToDoc c') \<and>
      Load_doc (configToDoc c') = Inr c' \<and>
      (\<forall>i < length (cd_Peers e). pd_Enabled (cd_Peers e ! i) = None \<longrightarrow> pe_Enabled (co_Peers c' ! i)))"
proof (intro conjI impI)
  assume s: "Save_doc c = Inr d"
  then have v: "Config_Validate c = []" "d = configToDoc c"
    by (auto simp: Save_doc_def split: if_splits)
  then show l: "Load_doc d = Inr (ApplyDefaults c)"
    using defaults_stay_valid by (simp add: Load_doc_def doc_round_trip Let_def)
  assume "co_TrashRetentionDays c \<noteq> 0" "co_RescanIntervalSeconds c \<noteq> 0"
  then have "ApplyDefaults c = c"
    using v by (simp add: ApplyDefaults_def Config_Validate_ok)
  with l show "Load_doc d = Inr c" by simp
next
  assume l: "Load_doc e = Inr c'"
  then have c: "c' = ApplyDefaults (docToConfig e)" "Config_Validate c' = []"
    by (auto simp: Load_doc_def Let_def split: if_splits)
  show "Config_Validate c' = []" by (rule c(2))
  then show "Save_doc c' = Inr (configToDoc c')" by (simp add: Save_doc_def)
  have "ApplyDefaults c' = c'"
    unfolding c(1) by (simp add: ApplyDefaults_def DefaultAPIAddr_def DefaultTrashRetentionDays_def
        DefaultRescanIntervalSeconds_def)
  then show "Load_doc (configToDoc c') = Inr c'"
    using c(2) by (simp add: Load_doc_def doc_round_trip Let_def)
  show "\<forall>i < length (cd_Peers e). pd_Enabled (cd_Peers e ! i) = None \<longrightarrow> pe_Enabled (co_Peers c' ! i)"
    unfolding c(1) by (simp add: ApplyDefaults_def docToConfig_def)
qed

theorem saved_config_loads_witness:
  "Load_doc (configToDoc ex_config) = Inr ex_config \<and> Config_Validate ex_config = []"
proof
  have s: "Save_doc ex_config = Inr (configToDoc ex_config)"
    by (simp add: Save_doc_def ex_config_valid)
  have "co_TrashRetentionDays ex_config \<noteq> 0" "co_RescanIntervalSeconds ex_config \<noteq> 0"
    by code_simp+
  with s show "Load_doc (configToDoc ex_config) = Inr ex_config"
    using saved_config_loads [of ex_config "configToDoc ex_config"] by blast
qed (rule ex_config_valid)

end
