(* ===== verification/Keys.thy ===== *)
theory Keys
  imports Config
begin

text \<open>
  Node tokens and the identity key of \<^verbatim>\<open>internal/config/keys.go\<close>: \<open>EncodeToken\<close> and
  \<open>ParseToken\<close>, the text form of the identity key and the short id derived from it. The
  unpadded URL alphabet of \<^verbatim>\<open>encoding/base64\<close> and \<open>hex.DecodeString\<close> are written out.
  The CBOR codec comes from a package outside the repository, so it is an argument. The
  tailcat key file, random generation and file access are outside the model.
\<close>

section \<open>base64.RawURLEncoding\<close>

definition b64_char :: "nat \<Rightarrow> char" where
  "b64_char v = (if v < 26 then char_of (65 + v) else if v < 52 then char_of (71 + v)
     else if v < 62 then char_of (v - 4) else if v = 62 then CHR ''-'' else CHR ''_'')"

definition b64_val :: "char \<Rightarrow> nat option" where
  "b64_val c = (let n = of_char c :: nat in
     if 65 \<le> n \<and> n \<le> 90 then Some (n - 65)
     else if 97 \<le> n \<and> n \<le> 122 then Some (n - 71)
     else if 48 \<le> n \<and> n \<le> 57 then Some (n + 4)
     else if n = 45 then Some 62 else if n = 95 then Some 63 else None)"

fun b64_groups :: "nat list \<Rightarrow> nat list" where
  "b64_groups (x # y # z # r) =
     [x div 4, (x mod 4) * 16 + y div 16, (y mod 16) * 4 + z div 64, z mod 64] @ b64_groups r"
| "b64_groups [x, y] = [x div 4, (x mod 4) * 16 + y div 16, (y mod 16) * 4]"
| "b64_groups [x] = [x div 4, (x mod 4) * 16]"
| "b64_groups [] = []"

text \<open>A lone trailing character is an error; unused trailing bits are ignored.\<close>

fun b64_ungroup :: "nat list \<Rightarrow> nat list option" where
  "b64_ungroup (a # b # c # d # r) =
     map_option (\<lambda>r'. [a * 4 + b div 16, (b mod 16) * 16 + c div 4, (c mod 4) * 64 + d] @ r') (b64_ungroup r)"
| "b64_ungroup [a, b, c] = Some [a * 4 + b div 16, (b mod 16) * 16 + c div 4]"
| "b64_ungroup [a, b] = Some [a * 4 + b div 16]"
| "b64_ungroup [a] = None"
| "b64_ungroup [] = Some []"

definition base64_encode :: "bytes \<Rightarrow> string" where
  "base64_encode bs = map b64_char (b64_groups (map unat bs))"

text \<open>The decoder skips line breaks.\<close>

definition base64_decode :: "string \<Rightarrow> bytes option" where
  "base64_decode s =
     (let vs = map b64_val (filter (\<lambda>c. c \<noteq> CHR 0x0A \<and> c \<noteq> CHR 0x0D) s) in
      if None \<in> set vs then None
      else map_option (map of_nat) (b64_ungroup (map the vs)))"

section \<open>Tokens\<close>

definition TokenPrefix :: string where "TokenPrefix = ''sc1''"
definition ed25519_PublicKeySize :: nat where "ed25519_PublicKeySize = 32"
definition ed25519_PrivateKeySize :: nat where "ed25519_PrivateKeySize = 64"

record tokenPayload =
  tp_TC :: string
  tp_ID :: bytes
  tp_Name :: string

record NodeToken =
  nt_TailcatAddr :: string
  nt_ID :: bytes
  nt_Name :: string

datatype token_err =
    TokenKeySize nat
  | TokenCBOREncode
  | TokenPrefixMissing
  | TokenBase64
  | TokenCBORDecode
  | TokenIDSize nat

definition EncodeToken ::
  "(tokenPayload \<Rightarrow> bytes option) \<Rightarrow> string \<Rightarrow> bytes \<Rightarrow> string \<Rightarrow> token_err + string" where
  "EncodeToken cborMarshal tailcatAddr nid name =
     (if length nid \<noteq> ed25519_PublicKeySize then Inl (TokenKeySize (length nid))
      else case cborMarshal \<lparr>tp_TC = tailcatAddr, tp_ID = nid, tp_Name = name\<rparr> of
             None \<Rightarrow> Inl TokenCBOREncode
           | Some data \<Rightarrow> Inr (TokenPrefix @ base64_encode data))"

definition ParseToken :: "(bytes \<Rightarrow> tokenPayload option) \<Rightarrow> string \<Rightarrow> token_err + NodeToken" where
  "ParseToken cborUnmarshal token =
     (if \<not> has_prefix token TokenPrefix then Inl TokenPrefixMissing
      else case base64_decode (drop (length TokenPrefix) token) of
        None \<Rightarrow> Inl TokenBase64
      | Some data \<Rightarrow>
          (case cborUnmarshal data of
             None \<Rightarrow> Inl TokenCBORDecode
           | Some p \<Rightarrow>
               if length (tp_ID p) \<noteq> ed25519_PublicKeySize then Inl (TokenIDSize (length (tp_ID p)))
               else Inr \<lparr>nt_TailcatAddr = tp_TC p, nt_ID = tp_ID p, nt_Name = tp_Name p\<rparr>))"

section \<open>The identity key\<close>

text \<open>An Ed25519 private key is the seed followed by the public key.\<close>

record IdentityKey =
  ik_Private :: bytes

definition Public :: "IdentityKey \<Rightarrow> bytes" where
  "Public k = drop 32 (ik_Private k)"

definition ShortID :: "IdentityKey \<Rightarrow> string" where
  "ShortID k = hex_encode (take 8 (Public k))"

fun hex_decode :: "string \<Rightarrow> bytes option" where
  "hex_decode [] = Some []"
| "hex_decode [c] = None"
| "hex_decode (c # d # r) =
     (case (hex_value c, hex_value d, hex_decode r) of
        (Some a, Some b, Some bs) \<Rightarrow> Some (of_nat (16 * a + b) # bs)
      | _ \<Rightarrow> None)"

definition parseIdentityKey :: "string \<Rightarrow> IdentityKey option" where
  "parseIdentityKey data =
     (case hex_decode (trim_space data) of
        None \<Rightarrow> None
      | Some raw \<Rightarrow>
          if length raw \<noteq> ed25519_PrivateKeySize then None else Some \<lparr>ik_Private = raw\<rparr>)"

text \<open>What \<open>saveIdentityKey\<close> writes.\<close>

definition saveIdentityKey :: "IdentityKey \<Rightarrow> string" where
  "saveIdentityKey k = hex_encode (ik_Private k) @ [CHR 0x0A]"

section \<open>Round trips\<close>

lemma b64_val_char: "v < 64 \<Longrightarrow> b64_val (b64_char v) = Some v"
  by (auto simp: b64_char_def b64_val_def Let_def of_char_of)

lemma b64_groups_range: "\<forall>x \<in> set xs. x < 256 \<Longrightarrow> v \<in> set (b64_groups xs) \<Longrightarrow> v < 64"
  by (induction xs rule: b64_groups.induct) auto

lemma div_mod_digit:
  fixes a b k :: nat
  assumes "b < k"
  shows "(a * k + b) div k = a" "(a * k + b) mod k = b"
  using assms by simp_all

lemma b64_bytes:
  fixes x y z :: nat
  assumes "y < 256" "z < 256"
  shows "x div 4 * 4 + (x mod 4 * 16 + y div 16) div 16 = x"
    and "(x mod 4 * 16 + y div 16) mod 16 * 16 + (y mod 16 * 4 + z div 64) div 4 = y"
    and "(y mod 16 * 4 + z div 64) mod 4 * 64 + z mod 64 = z"
proof -
  have y: "y div 16 < 16" "z div 64 < 4" using assms by simp_all
  show "x div 4 * 4 + (x mod 4 * 16 + y div 16) div 16 = x"
    unfolding div_mod_digit(1) [OF y(1)] by (rule div_mult_mod_eq)
  show "(x mod 4 * 16 + y div 16) mod 16 * 16 + (y mod 16 * 4 + z div 64) div 4 = y"
    unfolding div_mod_digit(2) [OF y(1)] div_mod_digit(1) [OF y(2)] by (rule div_mult_mod_eq)
  show "(y mod 16 * 4 + z div 64) mod 4 * 64 + z mod 64 = z"
    unfolding div_mod_digit(2) [OF y(2)] by (rule div_mult_mod_eq)
qed

lemma b64_ungroup_groups: "\<forall>x \<in> set xs. x < 256 \<Longrightarrow> b64_ungroup (b64_groups xs) = Some xs"
proof (induction xs rule: b64_groups.induct)
  case (1 x y z r)
  then have "b64_ungroup (b64_groups r) = Some r" "y < 256" "z < 256" by simp_all
  then show ?case
    unfolding b64_groups.simps append_Cons append_Nil b64_ungroup.simps
    by (simp only: b64_bytes option.map list.map append_Cons append_Nil)
next
  case (2 x y)
  then have "y < 256" "(0 :: nat) < 256" by simp_all
  from b64_bytes(1,2) [OF this, of x] show ?case by simp
qed simp_all

lemma b64_char_no_break: "v < 64 \<Longrightarrow> b64_char v \<noteq> CHR 0x0A \<and> b64_char v \<noteq> CHR 0x0D"
  using b64_val_char [of v] by (auto simp: b64_val_def)

lemma byte_small: "unat (b :: byte) < 256"
  using unsigned_less [of b] by simp

lemma base64_round_trip: "base64_decode (base64_encode bs) = Some bs"
proof -
  let ?g = "b64_groups (map unat bs)"
  have small: "\<forall>x \<in> set (map unat bs). x < 256" by (simp add: byte_small)
  then have g: "\<And>v. v \<in> set ?g \<Longrightarrow> v < 64" using b64_groups_range by blast
  then have "filter (\<lambda>c. c \<noteq> CHR 0x0A \<and> c \<noteq> CHR 0x0D) (map b64_char ?g) = map b64_char ?g"
    using b64_char_no_break by (simp add: filter_id_conv)
  moreover have vals: "map b64_val (map b64_char ?g) = map Some ?g"
    using g b64_val_char by simp
  moreover have "map the (map Some ?g) = ?g" "map of_nat (map unat bs) = bs"
    by (simp_all add: map_idI)
  ultimately show ?thesis
    using b64_ungroup_groups [OF small]
    by (simp add: base64_decode_def base64_encode_def Let_def vals del: map_map)
qed
lemma hex_value_digit: "n < 16 \<Longrightarrow> hex_value (hex_digit n) = Some n"
  by (auto simp: hex_value_def hex_digit_def Let_def of_char_of)

lemma hex_round_trip: "hex_decode (hex_encode bs) = Some bs"
proof (induction bs)
  case (Cons b bs)
  have "unat b div 16 < 16" using byte_small [of b] by simp
  moreover have "of_nat (16 * (unat b div 16) + unat b mod 16) = b"
    by (simp del: of_nat_add of_nat_mult)
  ultimately show ?case
    using Cons by (simp add: hex_encode_def hex_byte_def hex_value_digit del: of_nat_add of_nat_mult)
qed (simp add: hex_encode_def)

lemma lead_seq_none: "\<forall>q \<in> set qs. q \<noteq> [] \<and> hd q \<noteq> c \<Longrightarrow> lead_seq qs (c # s) = []"
  by (force simp: lead_seq_def has_prefix_iff Cons_eq_append_conv dest!: find_mem split: option.splits)

lemma trim_seqs_stop: "lead_seq qs s = [] \<Longrightarrow> trim_seqs qs s = s"
  by (simp add: trim_seqs.simps)

definition is_hex :: "char \<Rightarrow> bool" where
  "is_hex c \<longleftrightarrow> c \<in> set ''0123456789abcdef''"

lemma hex_digit_is_hex: "n < 16 \<Longrightarrow> is_hex (hex_digit n)"
proof -
  have "\<forall>n \<in> set [0..<16]. is_hex (hex_digit n)" by code_simp
  then show "n < 16 \<Longrightarrow> is_hex (hex_digit n)" by simp
qed

lemma hex_encode_is_hex: "c \<in> set (hex_encode bs) \<Longrightarrow> is_hex c"
proof -
  have "unat (b :: byte) div 16 < 16" for b
    using byte_small [of b] by simp
  then show "c \<in> set (hex_encode bs) \<Longrightarrow> is_hex c"
    by (auto simp: hex_encode_def hex_byte_def intro!: hex_digit_is_hex)
qed

lemma hex_runes: "list_all lower_hex_rune (string_runes (hex_encode bs))"
proof -
  have "(of_char c :: nat) < 128 \<and> lower_hex_rune (of_char c)" if "is_hex c" for c
    using that by (auto simp: is_hex_def lower_hex_rune_def)
  then have "\<forall>c \<in> set (hex_encode bs). (of_char c :: nat) < 128 \<and> lower_hex_rune (of_char c)"
    using hex_encode_is_hex by blast
  then show ?thesis
    by (simp add: string_runes_def runes_ascii list_all_iff)
qed

lemma trim_space_line:
  assumes "\<forall>c \<in> set s. is_hex c" "s \<noteq> []"
  shows "trim_space (s @ [CHR 0x0A]) = s"
proof -
  have seqs: "\<forall>q \<in> set space_seqs. q \<noteq> [] \<and> \<not> is_hex (hd q)"
    "\<forall>q \<in> set (map rev space_seqs). q \<noteq> [] \<and> \<not> is_hex (hd q)" by code_simp+
  have stop: "lead_seq qs t = []"
    if "\<forall>q \<in> set qs. q \<noteq> [] \<and> \<not> is_hex (hd q)" "t \<noteq> []" "is_hex (hd t)" for qs t
    using that lead_seq_none [of qs "hd t" "tl t"] by (cases t) auto
  have front: "trim_seqs space_seqs (s @ [CHR 0x0A]) = s @ [CHR 0x0A]"
    by (rule trim_seqs_stop, rule stop [OF seqs(1)]) (use assms in \<open>auto simp: hd_append\<close>)
  have "lead_seq (map rev space_seqs) (CHR 0x0A # rev s) = [CHR 0x0A]"
    by (simp add: lead_seq_def space_seqs_def has_prefix_def)
  then have "trim_seqs (map rev space_seqs) (CHR 0x0A # rev s) = trim_seqs (map rev space_seqs) (rev s)"
    by (subst trim_seqs.simps) simp
  also have "\<dots> = rev s"
    by (rule trim_seqs_stop, rule stop [OF seqs(2)]) (use assms in \<open>auto simp: hd_rev\<close>)
  finally show ?thesis by (simp add: trim_space_def front)
qed

section \<open>Properties\<close>

text \<open>
  A node token round-trips: whatever \<open>EncodeToken\<close> returns, \<open>ParseToken\<close> reads back
  to the same address, key and name, for any CBOR codec that decodes what it encoded. A
  token \<open>ParseToken\<close> accepts always carries a 32-byte key, so an identity key of another
  length can be neither issued nor accepted.
\<close>

theorem token_round_trip:
  assumes "\<And>p data. cborMarshal p = Some data \<Longrightarrow> cborUnmarshal data = Some p"
  shows "(EncodeToken cborMarshal addr nid name = Inr tok \<longrightarrow>
            ParseToken cborUnmarshal tok = Inr \<lparr>nt_TailcatAddr = addr, nt_ID = nid, nt_Name = name\<rparr>) \<and>
         (ParseToken cborUnmarshal tok' = Inr t \<longrightarrow> length (nt_ID t) = 32) \<and>
         (length nid \<noteq> 32 \<longrightarrow> EncodeToken cborMarshal addr nid name = Inl (TokenKeySize (length nid)))"
  using assms
  by (auto simp: EncodeToken_def ParseToken_def ed25519_PublicKeySize_def base64_round_trip
      has_prefix_iff split: if_splits option.splits)

definition ex_cbor :: "tokenPayload \<Rightarrow> bytes option" where
  "ex_cbor p = (if tp_TC p = [] \<and> tp_Name p = [] then Some (tp_ID p) else None)"

definition ex_uncbor :: "bytes \<Rightarrow> tokenPayload option" where
  "ex_uncbor bs = Some \<lparr>tp_TC = [], tp_ID = bs, tp_Name = []\<rparr>"

theorem token_round_trip_witness:
  "ParseToken ex_uncbor (TokenPrefix @ base64_encode (replicate 32 7)) =
     Inr \<lparr>nt_TailcatAddr = [], nt_ID = replicate 32 7, nt_Name = []\<rparr>"
proof -
  have "EncodeToken ex_cbor [] (replicate 32 7) [] = Inr (TokenPrefix @ base64_encode (replicate 32 7))"
    by (simp add: EncodeToken_def ex_cbor_def ed25519_PublicKeySize_def)
  moreover have "\<And>p data. ex_cbor p = Some data \<Longrightarrow> ex_uncbor data = Some p"
    by (auto simp: ex_cbor_def ex_uncbor_def split: if_splits)
  ultimately show ?thesis using token_round_trip [of ex_cbor ex_uncbor] by blast
qed

text \<open>
  The identity key file round-trips, and a version vector keyed by the node id derived
  from the key passes the wire validation of version vectors.
\<close>

theorem identity_key_round_trip:
  assumes "length (ik_Private k) = 64"
  shows "parseIdentityKey (saveIdentityKey k) = Some k \<and>
         validateVersion (fmap_of_list [(ShortID k, n)]) = ok"
proof (intro conjI)
  have "hex_encode (ik_Private k) \<noteq> []"
    using assms by (metis length_hex_encode list.size(3) mult_is_0 zero_neq_numeral)
  then have "trim_space (saveIdentityKey k) = hex_encode (ik_Private k)"
    unfolding saveIdentityKey_def using hex_encode_is_hex by (intro trim_space_line) auto
  then show "parseIdentityKey (saveIdentityKey k) = Some k"
    using assms by (simp add: parseIdentityKey_def hex_round_trip ed25519_PrivateKeySize_def)
  have "length (ShortID k) = 16" using assms by (simp add: ShortID_def Public_def)
  moreover have "list_all lower_hex_rune (string_runes (ShortID k))"
    by (simp add: ShortID_def hex_runes)
  ultimately show "validateVersion (fmap_of_list [(ShortID k, n)]) = ok"
    by (simp add: validateVersion_def maxVersionEntries_def fcard_finsert_if fcard_fempty)
qed

theorem identity_key_round_trip_witness:
  "parseIdentityKey (saveIdentityKey \<lparr>ik_Private = replicate 64 (0xAB :: byte)\<rparr>) =
     Some \<lparr>ik_Private = replicate 64 0xAB\<rparr>"
  using identity_key_round_trip [of "\<lparr>ik_Private = replicate 64 (0xAB :: byte)\<rparr>"]
  by simp

end
