(* ===== verification/HoldGuard.thy ===== *)
theory HoldGuard
  imports IndexStore Keys
begin

text \<open>
  The hold guard of \<^verbatim>\<open>internal/hold/hold.go\<close>, which decides whether a change that would
  delete files may be applied, and \<open>configuredLinks\<close> of \<^verbatim>\<open>internal/core/holds.go\<close>, which
  decides which holds to forget. A \<open>Link\<close> is the pair of a share id and a peer key, as in
  the \<^verbatim>\<open>holds\<close> table. A guard is the store and the map \<open>held\<close> in memory; every operation
  takes the time and whether its store write succeeds. Log lines are not modelled.

  The main results: the map in memory always equals the table, so a restart forgets no
  hold; a change is refused exactly by the documented rule; and a hold over deletes ends
  only in the documented ways, with one exception that the last property exhibits.
\<close>

section \<open>Holds\<close>

definition RootUnavailable :: string where "RootUnavailable = ''root-unavailable''"
definition EverythingVanished :: string where "EverythingVanished = ''everything-vanished''"
definition BulkDelete :: string where "BulkDelete = ''bulk-delete''"
definition ReservedDirTaken :: string where "ReservedDirTaken = ''reserved-dir-taken''"

lemmas reason_defs = RootUnavailable_def EverythingVanished_def BulkDelete_def ReservedDirTaken_def

type_synonym Link = "string \<times> string"

definition Confirmable :: "Hold \<Rightarrow> bool" where
  "Confirmable h \<longleftrightarrow> ho_Reason h \<noteq> RootUnavailable \<and> ho_Reason h \<noteq> ReservedDirTaken"

record Guard =
  g_store :: store
  g_held :: "(Link, Hold) fmap"

definition link_of :: "Hold \<Rightarrow> Link" where
  "link_of h = (ho_ShareID h, ho_PeerKey h)"

definition Load :: "store \<Rightarrow> Guard" where
  "Load s = \<lparr>g_store = s, g_held = fold (\<lambda>h. fmupd (link_of h) h) (ListHolds s) fmempty\<rparr>"

section \<open>State changes\<close>

text \<open>A write of the store that may fail, leaving it as it was.\<close>

definition placeLocked :: "int \<Rightarrow> bool \<Rightarrow> Hold \<Rightarrow> Guard \<Rightarrow> Guard \<times> bool" where
  "placeLocked now writes h g =
     (let link = link_of h; old = fmlookup (g_held g) link in
      if (case old of None \<Rightarrow> False
          | Some h0 \<Rightarrow> ho_Reason h0 = ho_Reason h \<and> ho_Deletes h0 = ho_Deletes h \<and> ho_Live h0 = ho_Live h)
      then (g, False)
      else let h' = h\<lparr>ho_Since := (case old of None \<Rightarrow> now | Some h0 \<Rightarrow> ho_Since h0)\<rparr> in
           if \<not> writes then (g, False)
           else (g\<lparr>g_store := PutHold h' (g_store g), g_held := fmupd link h' (g_held g)\<rparr>, old = None))"

definition clearLocked :: "bool \<Rightarrow> Link \<Rightarrow> Guard \<Rightarrow> Guard \<times> bool" where
  "clearLocked writes link g =
     (if fmlookup (g_held g) link = None then (g, False)
      else if \<not> writes then (g, False)
      else (g\<lparr>g_store := DeleteHold (fst link) (snd link) (g_store g),
              g_held := fmdrop link (g_held g)\<rparr>, True))"

section \<open>The checks\<close>

definition is_live :: "FileRow \<Rightarrow> bool" where
  "is_live r \<longleftrightarrow> \<not> (fr_Deleted r \<or> fr_Ignored r \<or> fr_Type r = FileTypeDir)"

definition measure_rows :: "FileRow list \<Rightarrow> string list \<Rightarrow> nat \<times> nat" where
  "measure_rows rows deleting =
     (length (filter (\<lambda>r. is_live r \<and> fr_RelPath r \<in> set deleting) rows), length (filter is_live rows))"

definition trigger :: "Safety \<Rightarrow> nat \<Rightarrow> nat \<Rightarrow> string" where
  "trigger s deletes live =
     (if deletes = 0 then []
      else if live \<ge> 2 \<and> deletes \<ge> live then EverythingVanished
      else if int deletes \<ge> sf_HoldDeleteMin s \<and> int deletes * 100 \<ge> sf_HoldDeletePercent s * int live
      then BulkDelete
      else [])"

definition stillHeld :: "string \<Rightarrow> string \<Rightarrow> nat \<Rightarrow> string" where
  "stillHeld held fresh deletes =
     (if fresh \<noteq> [] \<or> deletes = 0 then fresh
      else if held = ReservedDirTaken then []
      else if held = RootUnavailable then EverythingVanished
      else held)"

definition decide ::
  "(string \<Rightarrow> Safety) \<Rightarrow> int \<Rightarrow> bool \<Rightarrow> Link \<Rightarrow> nat \<Rightarrow> nat \<Rightarrow> Guard \<Rightarrow> Guard \<times> bool \<times> bool" where
  "decide safety now writes link deletes live g =
     (let fresh = trigger (safety (fst link)) deletes live;
          h = fmlookup (g_held g) link;
          reason = (case h of None \<Rightarrow> fresh | Some h0 \<Rightarrow> stillHeld (ho_Reason h0) fresh deletes)
      in if reason = [] \<or> (case h of None \<Rightarrow> False | Some h0 \<Rightarrow> ho_Confirmed h0)
         then let (g', cleared) = clearLocked writes link g in (g', True, cleared \<and> snd link = [])
         else let (g', placed) = placeLocked now writes
                    \<lparr>ho_ShareID = fst link, ho_PeerKey = snd link, ho_Reason = reason,
                     ho_Deletes = deletes, ho_Live = live, ho_Since = 0, ho_Confirmed = False\<rparr> g
              in (g', False, False))"

definition map_rows :: "(string, FileRow) fmap \<Rightarrow> FileRow list" where
  "map_rows m = List.map_filter (fmlookup m) (sorted_list_of_fset (fmdom m))"

definition Guard_Scan ::
  "(string \<Rightarrow> Safety) \<Rightarrow> int \<Rightarrow> bool \<Rightarrow> string \<Rightarrow> (string, FileRow) fmap \<Rightarrow> ScanResult \<Rightarrow>
     Guard \<Rightarrow> Guard \<times> bool \<times> bool" where
  "Guard_Scan safety now writes shareID existing result g =
     (let (deletes, live) = measure_rows (map_rows existing) (map fr_RelPath (sc_Deleted result))
      in decide safety now writes (shareID, []) deletes live g)"

text \<open>Whether the error is \<open>ErrReservedDirTaken\<close>, and what \<open>rootUnavailable\<close> finds out by
  opening the folder, are arguments.\<close>

definition ScanFailed ::
  "int \<Rightarrow> bool \<Rightarrow> string \<Rightarrow> bool \<Rightarrow> (string, FileRow) fmap \<Rightarrow> bool \<Rightarrow> Guard \<Rightarrow> Guard" where
  "ScanFailed now writes shareID rootGone existing reservedTaken g =
     (let h = \<lparr>ho_ShareID = shareID, ho_PeerKey = [], ho_Reason = ReservedDirTaken, ho_Deletes = 0,
               ho_Live = 0, ho_Since = 0, ho_Confirmed = False\<rparr>;
          live = snd (measure_rows (map_rows existing) [])
      in if reservedTaken then fst (placeLocked now writes h g)
         else if live = 0 \<or> \<not> rootGone then g
         else fst (placeLocked now writes
                     (h\<lparr>ho_Reason := RootUnavailable, ho_Deletes := live, ho_Live := live\<rparr>) g))"

definition Pass ::
  "(string \<Rightarrow> Safety) \<Rightarrow> int \<Rightarrow> bool \<Rightarrow> string \<Rightarrow> string \<Rightarrow> FileRow list \<Rightarrow> string list \<Rightarrow>
     Guard \<Rightarrow> Guard \<times> bool" where
  "Pass safety now writes shareID peerKey local deleting g =
     (if fmlookup (g_held g) (shareID, []) \<noteq> None then (g, False)
      else let (deletes, live) = measure_rows local deleting;
               (g', apply, released) = decide safety now writes (shareID, peerKey) deletes live g
           in (g', apply))"

section \<open>The user's side\<close>

text \<open>\<open>sort.Slice\<close> by age, then by the concatenated ids.\<close>

definition Guard_List :: "Guard \<Rightarrow> Hold list" where
  "Guard_List g =
     sort_key (\<lambda>h. (ho_Since h, ho_ShareID h @ ho_PeerKey h))
       (List.map_filter (fmlookup (g_held g)) (sorted_list_of_fset (fmdom (g_held g))))"

datatype hold_err = ErrNotHeld | ManyHolds nat | NothingToConfirm string | StoreFailed

definition Only :: "string \<Rightarrow> Guard \<Rightarrow> hold_err + Link" where
  "Only shareID g =
     (case filter (\<lambda>l. fst l = shareID) (sorted_list_of_fset (fmdom (g_held g))) of
        [] \<Rightarrow> Inl ErrNotHeld
      | [l] \<Rightarrow> Inr l
      | ls \<Rightarrow> Inl (ManyHolds (length ls)))"

definition Confirm :: "bool \<Rightarrow> Link \<Rightarrow> Guard \<Rightarrow> Guard \<times> (hold_err + Hold)" where
  "Confirm writes link g =
     (case fmlookup (g_held g) link of
        None \<Rightarrow> (g, Inl ErrNotHeld)
      | Some h \<Rightarrow>
          if \<not> Confirmable h then (g, Inl (NothingToConfirm (ho_Reason h)))
          else let h' = h\<lparr>ho_Confirmed := True\<rparr> in
               if \<not> writes then (g, Inl StoreFailed)
               else (g\<lparr>g_store := PutHold h' (g_store g), g_held := fmupd link h' (g_held g)\<rparr>, Inr h'))"

text \<open>The loop over the held links; \<open>writes\<close> says for which the delete succeeds.\<close>

definition retain_one :: "(Link \<Rightarrow> bool) \<Rightarrow> (Link \<Rightarrow> bool) \<Rightarrow> Link \<Rightarrow> Guard \<Rightarrow> Guard" where
  "retain_one writes keep link g =
     (if keep link \<or> \<not> writes link then g
      else g\<lparr>g_store := DeleteHold (fst link) (snd link) (g_store g), g_held := fmdrop link (g_held g)\<rparr>)"

definition Retain :: "(Link \<Rightarrow> bool) \<Rightarrow> (Link \<Rightarrow> bool) \<Rightarrow> Guard \<Rightarrow> Guard" where
  "Retain writes keep g = fold (retain_one writes keep) (sorted_list_of_fset (fmdom (g_held g))) g"

section \<open>Links still configured\<close>

definition access_map :: "Share list \<Rightarrow> Link \<Rightarrow> bool option" where
  "access_map shares = fold (\<lambda>s m l.
       if fst l \<noteq> sh_ID s then m l
       else case fmlookup (sh_Access s) (snd l) of
              None \<Rightarrow> m l
            | Some a \<Rightarrow> if a \<in> {AccessGranted, AccessDenied, AccessRevoked}
                        then Some (a = AccessGranted) else m l) shares (\<lambda>l. None)"

definition open_map :: "Share list \<Rightarrow> string \<Rightarrow> bool" where
  "open_map shares = fold (\<lambda>s m i. if i = sh_ID s then \<not> sh_ApprovalRequired s else m i) shares (\<lambda>i. False)"

definition hasAccess :: "Link \<Rightarrow> (Link \<Rightarrow> bool option) \<Rightarrow> (string \<Rightarrow> bool) \<Rightarrow> bool" where
  "hasAccess l access opn = (case access l of Some granted \<Rightarrow> granted | None \<Rightarrow> opn (fst l))"

definition configuredLinks :: "(bytes \<Rightarrow> tokenPayload option) \<Rightarrow> Config \<Rightarrow> Link \<Rightarrow> bool" where
  "configuredLinks cborUnmarshal c l =
     (let local = map sh_ID (co_Shares c) @ map su_ShareID (co_Subscriptions c);
          subscribed = map (\<lambda>u. (su_ShareID u, su_Peer u)) (co_Subscriptions c);
          peers = concat (map (\<lambda>p. case ParseToken cborUnmarshal (pe_Token p) of
                      Inl e \<Rightarrow> [] | Inr t \<Rightarrow> [hex_encode (nt_ID t)]) (co_Peers c))
      in if snd l = [] then fst l \<in> set local
         else l \<in> set subscribed \<or>
              (snd l \<in> set peers \<and> hasAccess l (access_map (co_Shares c)) (open_map (co_Shares c))))"

section \<open>What the guard keeps\<close>

definition hold_ok :: "Link \<Rightarrow> Hold \<Rightarrow> bool" where
  "hold_ok l h \<longleftrightarrow> link_of h = l \<and> ho_Reason h \<noteq> []"

definition holds_ok :: "(Link, Hold) fmap \<Rightarrow> bool" where
  "holds_ok m \<longleftrightarrow> (\<forall>l h. fmlookup m l = Some h \<longrightarrow> hold_ok l h)"

definition guard_ok :: "Guard \<Rightarrow> bool" where
  "guard_ok g \<longleftrightarrow> g_held g = holds (g_store g) \<and> holds_ok (g_held g)"

lemma guard_okD:
  "guard_ok g \<Longrightarrow> fmlookup (g_held g) l = Some h \<Longrightarrow> link_of h = l \<and> ho_Reason h \<noteq> []"
  unfolding guard_ok_def holds_ok_def hold_ok_def by blast

lemma holds_ok_upd: "holds_ok m \<Longrightarrow> hold_ok l h \<Longrightarrow> holds_ok (fmupd l h m)"
  unfolding holds_ok_def by (metis fmupd_lookup option.inject)

lemma holds_ok_drop: "holds_ok m \<Longrightarrow> holds_ok (fmdrop l m)"
  unfolding holds_ok_def by (metis fmlookup_drop option.distinct(1))

lemma set_ListHolds: "h \<in> set (ListHolds s) \<longleftrightarrow> (\<exists>l. fmlookup (holds s) l = Some h)"
  unfolding ListHolds_def set_sort set_map_filter sorted_list_of_fset_simps(1)
  by (blast intro: fmdomI)

lemma find_link:
  assumes "\<And>h. h \<in> set hs \<Longrightarrow> fmlookup m (link_of h) = Some h"
    and "\<And>h. fmlookup m l = Some h \<Longrightarrow> h \<in> set hs \<and> link_of h = l"
  shows "(case find (\<lambda>h. link_of h = l) hs of None \<Rightarrow> None | Some h \<Rightarrow> Some h) = fmlookup m l"
proof (cases "find (\<lambda>h. link_of h = l) hs")
  case None
  then show ?thesis using assms(2) find_NoneD [OF None] by (cases "fmlookup m l") auto
next
  case (Some h)
  then have "h \<in> set hs \<and> link_of h = l" by (rule find_mem)
  with assms(1) Some show ?thesis by auto
qed

lemma Load_held:
  assumes "holds_ok (holds s)"
  shows "g_held (Load s) = holds s"
proof (rule fmap_ext)
  fix l
  have ok: "\<And>l h. fmlookup (holds s) l = Some h \<Longrightarrow> link_of h = l"
    using assms by (auto simp: holds_ok_def hold_ok_def)
  have "fmlookup (g_held (Load s)) l =
        (case find (\<lambda>h. link_of h = l) (rev (ListHolds s)) of None \<Rightarrow> None | Some h \<Rightarrow> Some h)"
    by (simp add: Load_def fold_fmupd_lookup split: option.split)
  also have "\<dots> = fmlookup (holds s) l"
    by (rule find_link) (use ok set_ListHolds in \<open>metis set_rev\<close>)+
  finally show "fmlookup (g_held (Load s)) l = fmlookup (holds s) l" .
qed

lemma Load_ok: "holds_ok (holds s) \<Longrightarrow> guard_ok (Load s)"
  by (simp add: guard_ok_def Load_held) (simp add: Load_def)

lemma Load_store: "g_store (Load s) = s"
  by (simp add: Load_def)

lemma restart: "guard_ok g \<Longrightarrow> Load (g_store g) = g"
  by (rule Guard.equality) (auto simp: Load_store Load_held guard_ok_def)

text \<open>The hold \<open>placeLocked\<close> leaves on a link whose write succeeds.\<close>

definition placed_hold :: "int \<Rightarrow> Hold \<Rightarrow> Hold option \<Rightarrow> Hold" where
  "placed_hold now h old =
     (case old of
        None \<Rightarrow> h\<lparr>ho_Since := now\<rparr>
      | Some h0 \<Rightarrow> if ho_Reason h0 = ho_Reason h \<and> ho_Deletes h0 = ho_Deletes h \<and> ho_Live h0 = ho_Live h
                   then h0 else h\<lparr>ho_Since := ho_Since h0\<rparr>)"

lemma placeLocked_lookup:
  "fmlookup (g_held (fst (placeLocked now writes h g))) l =
     (if writes \<and> l = link_of h then Some (placed_hold now h (fmlookup (g_held g) l))
      else fmlookup (g_held g) l)"
  by (auto simp: placeLocked_def placed_hold_def Let_def split: option.splits)

lemma placeLocked_ok:
  assumes "guard_ok g" "ho_Reason h \<noteq> []"
  shows "guard_ok (fst (placeLocked now writes h g))"
proof -
  have "hold_ok (link_of h) (h\<lparr>ho_Since := t\<rparr>)" for t
    using assms(2) by (simp add: hold_ok_def link_of_def)
  then show ?thesis
    using assms(1)
    by (auto simp: placeLocked_def guard_ok_def PutHold_def link_of_def Let_def
        intro!: holds_ok_upd split: option.splits)
qed

lemma clearLocked_lookup:
  "fmlookup (g_held (fst (clearLocked writes link g))) l =
     (if writes \<and> l = link then None else fmlookup (g_held g) l)"
  by (auto simp: clearLocked_def)

lemma clearLocked_ok: "guard_ok g \<Longrightarrow> guard_ok (fst (clearLocked writes link g))"
  by (auto simp: clearLocked_def guard_ok_def DeleteHold_def intro: holds_ok_drop)

lemma retain_fold_lookup:
  "fmlookup (g_held (fold (retain_one writes keep) ls g)) l =
     (if l \<in> set ls \<and> \<not> keep l \<and> writes l then None else fmlookup (g_held g) l)"
  by (induction ls arbitrary: g) (auto simp: retain_one_def)

lemma Retain_lookup:
  "fmlookup (g_held (Retain writes keep g)) l =
     (if \<not> keep l \<and> writes l then None else fmlookup (g_held g) l)"
  by (auto simp: Retain_def retain_fold_lookup fmdom_notD)

lemma Retain_ok: "guard_ok g \<Longrightarrow> guard_ok (Retain writes keep g)"
proof -
  have "guard_ok g \<Longrightarrow> guard_ok (retain_one writes keep l g)" for l g
    by (auto simp: retain_one_def guard_ok_def DeleteHold_def intro: holds_ok_drop)
  then have "guard_ok g \<Longrightarrow> guard_ok (fold (retain_one writes keep) ls g)" for ls
    by (induction ls arbitrary: g) auto
  then show "guard_ok g \<Longrightarrow> guard_ok (Retain writes keep g)" by (simp add: Retain_def)
qed

lemma Confirm_ok: "guard_ok g \<Longrightarrow> guard_ok (fst (Confirm writes link g))"
proof (cases "fmlookup (g_held g) link")
  case (Some h)
  assume g: "guard_ok g"
  from guard_okD [OF g Some] have "hold_ok link (h\<lparr>ho_Confirmed := True\<rparr>)"
    and "(ho_ShareID h, ho_PeerKey h) = link" by (simp_all add: hold_ok_def link_of_def)
  with g Some show ?thesis
    by (auto simp: Confirm_def guard_ok_def PutHold_def Let_def intro!: holds_ok_upd)
qed (simp add: Confirm_def)

section \<open>Sequences of operations\<close>

text \<open>
  Every operation that changes the guard, as it may be interleaved with the others:
  \<open>Scan\<close> and \<open>Pass\<close> come down to one \<open>decide\<close> each, a restart is \<open>Load\<close> on the same
  store, and \<open>OpStore\<close> is any other use of the database, which never touches the table.
\<close>

datatype guard_op =
    OpDecide "string \<Rightarrow> Safety" Link nat nat
  | OpScanFailed string bool "(string, FileRow) fmap" bool
  | OpConfirm Link
  | OpRetain "Link \<Rightarrow> bool" "Link \<Rightarrow> bool"
  | OpRestart
  | OpStore "store \<Rightarrow> store"

fun run_op :: "int \<times> bool \<times> guard_op \<Rightarrow> Guard \<Rightarrow> Guard" where
  "run_op (now, writes, OpDecide safety link deletes live) g = fst (decide safety now writes link deletes live g)"
| "run_op (now, writes, OpScanFailed shareID rootGone existing reservedTaken) g =
     ScanFailed now writes shareID rootGone existing reservedTaken g"
| "run_op (now, writes, OpConfirm link) g = fst (Confirm writes link g)"
| "run_op (now, writes, OpRetain ws keep) g = Retain ws keep g"
| "run_op (now, writes, OpRestart) g = Load (g_store g)"
| "run_op (now, writes, OpStore f) g = g\<lparr>g_store := (f (g_store g))\<lparr>holds := holds (g_store g)\<rparr>\<rparr>"

text \<open>The documented ends of a hold on \<open>l\<close>, and the one that is not documented: a
  \<open>.syncat\<close> directory that appears while the share is held.\<close>

fun may_end :: "Link \<Rightarrow> int \<times> bool \<times> guard_op \<Rightarrow> bool" where
  "may_end l (now, writes, OpDecide safety link deletes live) \<longleftrightarrow> link = l \<and> deletes = 0"
| "may_end l (now, writes, OpConfirm link) \<longleftrightarrow> link = l"
| "may_end l (now, writes, OpRetain ws keep) \<longleftrightarrow> \<not> keep l"
| "may_end l (now, writes, OpScanFailed shareID rootGone existing reservedTaken) \<longleftrightarrow>
     reservedTaken \<and> l = (shareID, [])"
| "may_end l (now, writes, op) \<longleftrightarrow> False"

definition stuck :: "Link \<Rightarrow> Guard \<Rightarrow> bool" where
  "stuck l g = (case fmlookup (g_held g) l of
     None \<Rightarrow> False | Some h \<Rightarrow> \<not> ho_Confirmed h \<and> ho_Reason h \<noteq> ReservedDirTaken)"

lemma trigger_cases: "trigger s deletes live \<in> {[], EverythingVanished, BulkDelete}"
  by (simp add: trigger_def)

lemma trigger_zero [simp]: "trigger s 0 live = []"
  by (simp add: trigger_def)

text \<open>The reason \<open>decide\<close> computes.\<close>

definition new_reason :: "Safety \<Rightarrow> Hold option \<Rightarrow> nat \<Rightarrow> nat \<Rightarrow> string" where
  "new_reason s h deletes live =
     (case h of None \<Rightarrow> trigger s deletes live
      | Some h0 \<Rightarrow> stillHeld (ho_Reason h0) (trigger s deletes live) deletes)"

definition next_hold :: "Link \<Rightarrow> string \<Rightarrow> nat \<Rightarrow> nat \<Rightarrow> Hold" where
  "next_hold link reason deletes live =
     \<lparr>ho_ShareID = fst link, ho_PeerKey = snd link, ho_Reason = reason, ho_Deletes = deletes,
      ho_Live = live, ho_Since = 0, ho_Confirmed = False\<rparr>"

lemma link_of_next [simp]: "link_of (next_hold l r d n) = l"
  by (simp add: link_of_def next_hold_def)

definition lets_through :: "Safety \<Rightarrow> Hold option \<Rightarrow> nat \<Rightarrow> nat \<Rightarrow> bool" where
  "lets_through s h deletes live \<longleftrightarrow>
     new_reason s h deletes live = [] \<or> (case h of None \<Rightarrow> False | Some h0 \<Rightarrow> ho_Confirmed h0)"

lemma decide_eq:
  "decide safety now writes link deletes live g =
     (let h = fmlookup (g_held g) link; s = safety (fst link) in
      if lets_through s h deletes live
      then (fst (clearLocked writes link g), True, snd (clearLocked writes link g) \<and> snd link = [])
      else (fst (placeLocked now writes (next_hold link (new_reason s h deletes live) deletes live) g), False, False))"
  by (simp add: decide_def lets_through_def new_reason_def next_hold_def Let_def split_beta)

lemma lets_through_iff:
  assumes "\<And>h0. h = Some h0 \<Longrightarrow> ho_Reason h0 \<noteq> []"
  shows "lets_through s h deletes live \<longleftrightarrow>
     deletes = 0 \<or>
     (case h of None \<Rightarrow> trigger s deletes live = []
      | Some h0 \<Rightarrow> ho_Confirmed h0 \<or> (ho_Reason h0 = ReservedDirTaken \<and> trigger s deletes live = []))"
  using assms
  by (cases h; cases "deletes = 0"; cases "trigger s deletes live = []")
    (simp_all add: lets_through_def new_reason_def stillHeld_def reason_defs)

lemma decide_ok:
  assumes "guard_ok g"
  shows "guard_ok (fst (decide safety now writes link deletes live g))"
  using assms clearLocked_ok placeLocked_ok
  by (auto simp: decide_eq Let_def lets_through_def next_hold_def)

lemma ScanFailed_ok: "guard_ok g \<Longrightarrow> guard_ok (ScanFailed now writes shareID rootGone existing reservedTaken g)"
  using placeLocked_ok by (simp add: ScanFailed_def Let_def reason_defs)

lemma run_op_ok: "guard_ok g \<Longrightarrow> guard_ok (run_op x g)"
proof (induction x g rule: run_op.induct)
  case (5 now writes g)
  then show ?case by (simp add: restart)
next
  case (6 now writes f g)
  then show ?case by (auto simp: guard_ok_def)
qed (simp_all add: decide_ok ScanFailed_ok Confirm_ok Retain_ok)

lemma run_ops_ok: "guard_ok g \<Longrightarrow> guard_ok (fold run_op xs g)"
  by (induction xs arbitrary: g) (simp_all add: run_op_ok)

lemma placed_unconfirmed:
  assumes "\<not> ho_Confirmed h" "case old of None \<Rightarrow> True | Some h0 \<Rightarrow> \<not> ho_Confirmed h0"
  shows "\<not> ho_Confirmed (placed_hold now h old) \<and> ho_Reason (placed_hold now h old) = ho_Reason h"
  using assms by (auto simp: placed_hold_def split: option.splits)

lemma new_reason_delete:
  assumes "\<not> lets_through s h deletes live"
  shows "new_reason s h deletes live \<noteq> []" "new_reason s h deletes live \<noteq> ReservedDirTaken"
proof -
  show "new_reason s h deletes live \<noteq> []" using assms by (auto simp: lets_through_def)
  then show "new_reason s h deletes live \<noteq> ReservedDirTaken"
    using trigger_cases [of s deletes live]
    by (auto simp: new_reason_def stillHeld_def reason_defs split: option.splits if_splits)
qed

lemma decide_stuck:
  assumes "guard_ok g" "stuck l g" "link = l \<longrightarrow> deletes \<noteq> 0"
  shows "stuck l (fst (decide safety now writes link deletes live g))"
proof -
  obtain h where h: "fmlookup (g_held g) l = Some h" "\<not> ho_Confirmed h" "ho_Reason h \<noteq> ReservedDirTaken"
    using assms(2) by (auto simp: stuck_def split: option.splits)
  let ?s = "safety (fst link)" and ?h = "fmlookup (g_held g) link"
  show ?thesis
  proof (cases "link = l")
    case True
    have nl: "\<not> lets_through ?s ?h deletes live"
      using lets_through_iff [of ?h ?s deletes live] h assms(3) True guard_okD [OF assms(1)]
      by simp
    show ?thesis
      using True nl h new_reason_delete [OF nl]
        placed_unconfirmed [of "next_hold l (new_reason ?s ?h deletes live) deletes live" "Some h" now]
      by (simp add: decide_eq Let_def stuck_def placeLocked_lookup next_hold_def)
  next
    case False
    then show ?thesis
      using assms(2) by (simp add: decide_eq Let_def stuck_def clearLocked_lookup placeLocked_lookup)
  qed
qed

lemma ScanFailed_stuck:
  assumes "stuck l g" "\<not> (reservedTaken \<and> l = (shareID, []))"
  shows "stuck l (ScanFailed now writes shareID rootGone existing reservedTaken g)"
proof -
  have "stuck l (fst (placeLocked now writes h g))"
    if "link_of h = l \<longrightarrow> ho_Reason h \<noteq> ReservedDirTaken" "\<not> ho_Confirmed h" for h
    using assms(1) that placed_unconfirmed [of h "fmlookup (g_held g) l" now]
    by (auto simp: stuck_def placeLocked_lookup split: option.splits)
  then show ?thesis
    using assms by (auto simp: ScanFailed_def Let_def link_of_def reason_defs)
qed

lemma run_op_stuck:
  "guard_ok g \<Longrightarrow> stuck l g \<Longrightarrow> \<not> may_end l x \<Longrightarrow> stuck l (run_op x g)"
proof (induction x g rule: run_op.induct)
  case (1 now writes safety link deletes live g)
  then show ?case using decide_stuck by simp
next
  case (2 now writes shareID rootGone existing reservedTaken g)
  then show ?case using ScanFailed_stuck by simp
next
  case (3 now writes link g)
  then show ?case by (auto simp: Confirm_def stuck_def Let_def split: option.splits)
next
  case (4 now writes ws keep g)
  then show ?case by (simp add: stuck_def Retain_lookup)
next
  case (5 now writes g)
  then show ?case by (simp add: restart)
next
  case (6 now writes f g)
  then show ?case by (simp add: stuck_def)
qed

lemma run_ops_stuck:
  "guard_ok g \<Longrightarrow> stuck l g \<Longrightarrow> \<forall>x \<in> set xs. \<not> may_end l x \<Longrightarrow> stuck l (fold run_op xs g)"
  by (induction xs arbitrary: g) (simp_all add: run_op_ok run_op_stuck)

lemma stuck_refuses:
  assumes "guard_ok g" "stuck l g" "0 < deletes"
  shows "\<not> lets_through s (fmlookup (g_held g) l) deletes live"
  using assms lets_through_iff [of "fmlookup (g_held g) l" s deletes live] guard_okD [OF assms(1)]
  by (auto simp: stuck_def split: option.splits)

section \<open>Properties\<close>

text \<open>
  The holds in memory mirror the table: after any sequence of scans, passes, failed
  scans, confirmations, clean-ups, restarts and other database work, whatever store writes
  failed in between, the map \<open>held\<close> equals the \<^verbatim>\<open>holds\<close> table row for row, so a restart at
  that point loads exactly the same guard.
\<close>

theorem held_mirrors_store:
  assumes "holds_ok (holds s)"
  shows "let g = fold run_op ops (Load s) in
           g_held g = holds (g_store g) \<and> holds_ok (g_held g) \<and> Load (g_store g) = g"
proof -
  have "guard_ok (fold run_op ops (Load s))"
    using assms by (intro run_ops_ok Load_ok)
  from restart [OF this] this show ?thesis unfolding guard_ok_def Let_def by metis
qed

definition ex_sf :: "string \<Rightarrow> Safety" where
  "ex_sf i = SafetyFor Default i"

definition ex_ops :: "(int \<times> bool \<times> guard_op) list" where
  "ex_ops = [(1, True, OpDecide ex_sf (''s'', []) 4 4), (2, False, OpConfirm (''s'', [])),
             (3, True, OpDecide ex_sf (''s'', []) 1 4)]"

theorem held_mirrors_store_witness:
  "holds_ok (holds empty_store) \<and>
   fmlookup (holds (g_store (fold run_op ex_ops (Load empty_store)))) (''s'', []) =
     fmlookup (g_held (fold run_op ex_ops (Load empty_store))) (''s'', []) \<and>
   fmlookup (g_held (fold run_op ex_ops (Load empty_store))) (''s'', []) \<noteq> None"
proof (intro conjI)
  show ok: "holds_ok (holds empty_store)" by (simp add: holds_ok_def empty_store_def)
  show "fmlookup (holds (g_store (fold run_op ex_ops (Load empty_store)))) (''s'', []) =
     fmlookup (g_held (fold run_op ex_ops (Load empty_store))) (''s'', [])"
    using held_mirrors_store [OF ok, of ex_ops] by (simp add: Let_def)
  show "fmlookup (g_held (fold run_op ex_ops (Load empty_store))) (''s'', []) \<noteq> None"
    by code_simp
qed

text \<open>
  The rule behind \<open>Scan\<close> and \<open>Pass\<close>. A change to a link is let through exactly when it
  deletes nothing, or the link is not held and no threshold trips, or its hold is
  confirmed, or it was held only for a foreign \<open>.syncat\<close> and no threshold trips. A change
  that deletes every one of two or more live files is let through only when its hold is
  confirmed. Letting through ends the hold; refusing leaves an unconfirmed hold that keeps
  its original date; no other link is touched; and when the store write fails the guard
  stays as it was.
\<close>

theorem decide_rule:
  assumes "guard_ok g" "decide safety now writes link deletes live g = (g', apply, released)"
  shows "(apply \<longleftrightarrow> deletes = 0 \<or>
            (case fmlookup (g_held g) link of
               None \<Rightarrow> trigger (safety (fst link)) deletes live = []
             | Some h \<Rightarrow> ho_Confirmed h \<or>
                 ho_Reason h = ReservedDirTaken \<and> trigger (safety (fst link)) deletes live = [])) \<and>
         (apply \<and> 2 \<le> live \<and> live \<le> deletes \<longrightarrow>
            (\<exists>h. fmlookup (g_held g) link = Some h \<and> ho_Confirmed h)) \<and>
         (apply \<and> writes \<longrightarrow> fmlookup (g_held g') link = None) \<and>
         (\<not> apply \<and> writes \<longrightarrow> (\<exists>h. fmlookup (g_held g') link = Some h \<and> \<not> ho_Confirmed h \<and>
            ho_Reason h \<noteq> ReservedDirTaken \<and>
            (\<forall>h0. fmlookup (g_held g) link = Some h0 \<longrightarrow> ho_Since h = ho_Since h0))) \<and>
         (\<forall>l. l \<noteq> link \<longrightarrow> fmlookup (g_held g') l = fmlookup (g_held g) l) \<and>
         (\<not> writes \<longrightarrow> g' = g) \<and>
         (released \<longleftrightarrow> apply \<and> writes \<and> snd link = [] \<and> fmlookup (g_held g) link \<noteq> None)"
proof -
  let ?s = "safety (fst link)" and ?h = "fmlookup (g_held g) link"
  let ?through = "lets_through ?s ?h deletes live"
  let ?next = "next_hold link (new_reason ?s ?h deletes live) deletes live"
  have ap: "apply = ?through" and rl: "released = (?through \<and> snd (clearLocked writes link g) \<and> snd link = [])"
    and g': "g' = fst (if ?through then clearLocked writes link g else placeLocked now writes ?next g)"
    using assms(2) by (auto simp: decide_eq Let_def split: if_splits)
  have 1: "?through \<longleftrightarrow> deletes = 0 \<or> (case ?h of
               None \<Rightarrow> trigger ?s deletes live = []
             | Some h \<Rightarrow> ho_Confirmed h \<or> ho_Reason h = ReservedDirTaken \<and> trigger ?s deletes live = [])"
    using lets_through_iff guard_okD [OF assms(1)] by blast
  have 2: "\<exists>h. ?h = Some h \<and> ho_Confirmed h" if "?through" "2 \<le> live" "live \<le> deletes"
    using that 1 by (auto simp: trigger_def reason_defs split: option.splits)
  have 3: "\<exists>h. fmlookup (g_held g') link = Some h \<and> \<not> ho_Confirmed h \<and> ho_Reason h \<noteq> ReservedDirTaken \<and>
            (\<forall>h0. ?h = Some h0 \<longrightarrow> ho_Since h = ho_Since h0)" if "\<not> ?through" "writes"
  proof -
    have "case ?h of None \<Rightarrow> True | Some h0 \<Rightarrow> \<not> ho_Confirmed h0"
      using that(1) by (auto simp: lets_through_def split: option.splits)
    then have "\<not> ho_Confirmed (placed_hold now ?next ?h)" "ho_Reason (placed_hold now ?next ?h) \<noteq> ReservedDirTaken"
      using placed_unconfirmed [of ?next ?h now] new_reason_delete(2) [OF that(1)]
      by (simp_all add: next_hold_def)
    moreover have "\<forall>h0. ?h = Some h0 \<longrightarrow> ho_Since (placed_hold now ?next ?h) = ho_Since h0"
      by (simp add: placed_hold_def)
    ultimately show ?thesis using that by (simp add: g' placeLocked_lookup)
  qed
  have 4: "fmlookup (g_held g') link = None" if "?through" "writes"
    using that by (simp add: g' clearLocked_lookup)
  have 5: "fmlookup (g_held g') l = fmlookup (g_held g) l" if "l \<noteq> link" for l
    using that by (simp add: g' clearLocked_lookup placeLocked_lookup)
  have 6: "g' = g" if "\<not> writes"
    using that by (simp add: g' clearLocked_def placeLocked_def Let_def)
  have 7: "released \<longleftrightarrow> ?through \<and> writes \<and> snd link = [] \<and> ?h \<noteq> None"
    by (auto simp: rl clearLocked_def)
  show ?thesis
    unfolding ap using 1 2 3 4 5 6 7 by blast
qed

theorem decide_rule_witness:
  "guard_ok (Load empty_store) \<and>
   (let r = decide ex_sf 1 True (''s'', []) 4 4 (Load empty_store) in
      \<not> fst (snd r) \<and> fmlookup (g_held (fst r)) (''s'', []) \<noteq> None \<and>
      fmlookup (g_held (fst r)) (''t'', []) = fmlookup (g_held (Load empty_store)) (''t'', []))"
proof -
  let ?g = "Load empty_store"
  have ok: "guard_ok ?g" by (rule Load_ok) (simp add: holds_ok_def empty_store_def)
  obtain g' a r where d: "decide ex_sf 1 True (''s'', []) 4 4 ?g = (g', a, r)"
    by (metis surj_pair)
  have "fmlookup (g_held ?g) (''s'', []) = None" "trigger (ex_sf ''s'') 4 4 \<noteq> []" by code_simp+
  then show ?thesis
    using decide_rule [OF ok d] ok d by (auto simp: Let_def)
qed



text \<open>
  A foreign \<open>.syncat\<close> makes the guard forget what it held. Whatever hold a share has,
  one failed scan that reports \<open>ErrReservedDirTaken\<close> replaces it; the next scan that trips
  no threshold is then applied, although with the original hold every deletion would
  still have been refused.
\<close>

theorem reserved_dir_replaces_hold:
  assumes "guard_ok g" "stuck (shareID, []) g"
    and "0 < deletes" "trigger (safety shareID) deletes live = []"
  shows "\<not> fst (snd (decide safety now writes (shareID, []) deletes live g)) \<and>
         fst (snd (decide safety now writes (shareID, []) deletes live
                     (ScanFailed t True shareID rootGone existing True g)))"
proof
  show "\<not> fst (snd (decide safety now writes (shareID, []) deletes live g))"
    using stuck_refuses [OF assms(1,2,3)] by (simp add: decide_eq Let_def)
  let ?g = "ScanFailed t True shareID rootGone existing True g"
  obtain h where h: "fmlookup (g_held g) (shareID, []) = Some h" "ho_Reason h \<noteq> ReservedDirTaken"
    using assms(2) by (auto simp: stuck_def split: option.splits)
  then obtain h' where "fmlookup (g_held ?g) (shareID, []) = Some h'" "ho_Reason h' = ReservedDirTaken"
    by (simp add: ScanFailed_def Let_def placeLocked_lookup link_of_def placed_hold_def)
  then have "lets_through (safety shareID) (fmlookup (g_held ?g) (shareID, [])) deletes live"
    using assms(4) by (simp add: lets_through_def new_reason_def stillHeld_def)
  then show "fst (snd (decide safety now writes (shareID, []) deletes live ?g))"
    by (simp add: decide_eq Let_def)
qed

theorem reserved_dir_replaces_hold_witness:
  "let g = fst (decide ex_sf 1 True (''s'', []) 4 4 (Load empty_store)) in
     \<not> fst (snd (decide ex_sf 3 True (''s'', []) 1 4 g)) \<and>
     fst (snd (decide ex_sf 3 True (''s'', []) 1 4 (ScanFailed 2 True ''s'' False fmempty True g)))"
proof -
  let ?g = "fst (decide ex_sf 1 True (''s'', []) 4 4 (Load empty_store))"
  have "guard_ok ?g" by (intro decide_ok Load_ok) (simp add: holds_ok_def empty_store_def)
  moreover have "stuck (''s'', []) ?g" "trigger (ex_sf ''s'') 1 4 = []" by code_simp+
  ultimately show ?thesis
    using reserved_dir_replaces_hold [of ?g "''s''" 1 ex_sf 4] by (simp add: Let_def)
qed

end
