(* ===== verification/Scanner.thy ===== *)
theory Scanner
  imports IndexStore Ignore
begin

text \<open>
  The scanner of \<^verbatim>\<open>internal/index/scanner.go\<close> and the scan pass of
  \<^verbatim>\<open>internal/core/shares.go\<close>: walking a share root, classifying every entry against the
  index, and applying the result.

  The folder is the tree \<open>fs_node\<close> the walk sees: each entry with its kind, the result of
  its stat, of hashing it and, for a directory, of listing it, so that a path that vanishes
  or is unreadable mid-walk is part of the input. \<open>walk\<close> is \<open>fs.WalkDir\<close>, which calls
  \<open>visit\<close> and obeys \<open>fs.SkipDir\<close>. Cancellation is not modelled. Where the code ranges over
  the map of existing rows the model takes the paths in ascending order.

  The main result is that a tombstone is only ever written for a path whose absence the
  walk established.
\<close>

section \<open>The tree a walk sees\<close>

datatype fs_err = NotExist | OtherError

datatype fs_kind = KFile | KDir | KSymlink

record fs_stat =
  fst_Size :: int
  fst_MTimeNS :: int
  fst_Perm :: "32 word"

datatype fs_node = Node
  (nd_name: string) (nd_kind: fs_kind) (nd_info: "fs_err + fs_stat") (nd_hash: "fs_err + bytes")
  (nd_list: "fs_err option") (nd_children: "fs_node list")

section \<open>Classification\<close>

datatype fileChange = fileUnchanged | fileMetadataOnly | fileContentChanged

definition needsHash :: "FileRow \<Rightarrow> fs_stat \<Rightarrow> bool" where
  "needsHash old info \<longleftrightarrow> fst_Size info \<noteq> fr_Size old \<or> fst_MTimeNS info \<noteq> fr_MTimeNS old"

definition new_row :: "string \<Rightarrow> string \<Rightarrow> file_type \<Rightarrow> int \<Rightarrow> int \<Rightarrow> 32 word \<Rightarrow> bytes \<Rightarrow>
    version_vector \<Rightarrow> int \<Rightarrow> FileRow" where
  "new_row share p typ sz mtime mode sha ver now =
     \<lparr> fr_ShareID = share, fr_RelPath = p, fr_Type = typ, fr_Size = sz, fr_MTimeNS = mtime,
       fr_Mode = mode, fr_SHA256 = sha, fr_Version = ver, fr_Deleted = False, fr_UpdatedAt = now,
       fr_Ignored = False \<rparr>"

definition classifyExisting ::
  "string \<Rightarrow> string \<Rightarrow> FileRow \<Rightarrow> fs_stat \<Rightarrow> bytes \<Rightarrow> int \<Rightarrow> FileRow option \<times> fileChange" where
  "classifyExisting share p old info sha now =
     (if \<not> needsHash old info then
        (if fst_Perm info = fr_Mode old then (None, fileUnchanged)
         else (Some (old\<lparr>fr_Mode := fst_Perm info, fr_UpdatedAt := now\<rparr>), fileMetadataOnly))
      else
        let row = new_row share p FileTypeFile (fst_Size info) (fst_MTimeNS info) (fst_Perm info) sha
                    (fr_Version old) now
        in if sha = fr_SHA256 old then (Some row, fileMetadataOnly) else (Some row, fileContentChanged))"

definition carriedVersion :: "FileRow option \<Rightarrow> version_vector" where
  "carriedVersion old = (case old of None \<Rightarrow> fmempty | Some r \<Rightarrow> fr_Version r)"

section \<open>The walk callback\<close>

type_synonym existing = "(string, FileRow) fmap"
type_synonym scan_state = "ScanResult \<times> string set"

datatype walk_ctl = Continue | SkipDir | Abort fs_err

definition warn :: "scan_warning \<Rightarrow> ScanResult \<Rightarrow> ScanResult" where
  "warn w r = r\<lparr>sc_Warnings := sc_Warnings r @ [w]\<rparr>"

definition under :: "string \<Rightarrow> string \<Rightarrow> bool" where
  "under p dir \<longleftrightarrow> has_prefix p (dir @ ''/'')"

definition noteIgnored :: "existing \<Rightarrow> string \<Rightarrow> scan_state \<Rightarrow> scan_state" where
  "noteIgnored existing p st =
     (case st of (r, seen) \<Rightarrow>
        (case fmlookup existing p of
           Some old \<Rightarrow>
             if \<not> fr_Deleted old \<and> \<not> fr_Ignored old
             then (r\<lparr>sc_Ignored := sc_Ignored r @ [old]\<rparr>, insert p seen)
             else (r, insert p seen)
         | None \<Rightarrow> (r, insert p seen)))"

definition noteIgnoredSubtree :: "existing \<Rightarrow> string \<Rightarrow> scan_state \<Rightarrow> scan_state" where
  "noteIgnoredSubtree existing dir st =
     fold (noteIgnored existing) (filter (\<lambda>p. under p dir) (sorted_list_of_fset (fmdom existing))) st"

definition keepUnreadable :: "existing \<Rightarrow> string \<Rightarrow> bool \<Rightarrow> fs_err \<Rightarrow> string set \<Rightarrow> string set" where
  "keepUnreadable existing p isDir e seen =
     (if e = NotExist then seen
      else if \<not> isDir then insert p seen
      else insert p seen \<union> fset (ffilter (\<lambda>q. under q p) (fmdom existing)))"

text \<open>The rest of \<open>visit\<close> once an entry is known to be a directory.\<close>

definition visit_dir :: "string \<Rightarrow> existing \<Rightarrow> int \<Rightarrow> string \<Rightarrow> fs_stat \<Rightarrow> scan_state \<Rightarrow> scan_state" where
  "visit_dir share existing now p info st =
     (case st of (r, seen) \<Rightarrow>
        let old = fmlookup existing p in
        if (case old of None \<Rightarrow> True
            | Some o' \<Rightarrow> fr_Deleted o' \<or> fr_Ignored o' \<or> fr_Type o' \<noteq> FileTypeDir)
        then (r\<lparr>sc_Added := sc_Added r @ [new_row share p FileTypeDir 0 (fst_MTimeNS info) (fst_Perm info) []
                                            (carriedVersion old) now]\<rparr>, seen)
        else (r, seen))"

text \<open>The rest of \<open>visit\<close> for a file; hashing it may fail.\<close>

definition visit_file ::
  "string \<Rightarrow> existing \<Rightarrow> int \<Rightarrow> string \<Rightarrow> fs_stat \<Rightarrow> (fs_err + bytes) \<Rightarrow> scan_state \<Rightarrow> scan_state" where
  "visit_file share existing now p info hash st =
     (case st of (r, seen) \<Rightarrow>
        let old = fmlookup existing p in
        if (case old of None \<Rightarrow> True
            | Some o' \<Rightarrow> fr_Deleted o' \<or> fr_Ignored o' \<or> fr_Type o' \<noteq> FileTypeFile)
        then (case hash of
                Inl _ \<Rightarrow> (warn (SkipReadFailed p) r, seen)
              | Inr sha \<Rightarrow>
                  (r\<lparr>sc_Added := sc_Added r @ [new_row share p FileTypeFile (fst_Size info) (fst_MTimeNS info)
                                                 (fst_Perm info) sha (carriedVersion old) now]\<rparr>, seen))
        else (case old of None \<Rightarrow> (r, seen) | Some o' \<Rightarrow>
          (case (if needsHash o' info then hash else Inr []) of
             Inl _ \<Rightarrow> (warn (SkipReadFailed p) r, seen)
           | Inr sha \<Rightarrow>
              (case classifyExisting share p o' info sha now of
                 (Some row, fileMetadataOnly) \<Rightarrow> (r\<lparr>sc_MetadataOnly := sc_MetadataOnly r @ [row]\<rparr>, seen)
               | (Some row, fileContentChanged) \<Rightarrow> (r\<lparr>sc_ContentChanged := sc_ContentChanged r @ [row]\<rparr>, seen)
               | _ \<Rightarrow> (r, seen)))))"

definition skip_ctl :: "bool \<Rightarrow> walk_ctl" where
  "skip_ctl isDir = (if isDir then SkipDir else Continue)"

definition visit ::
  "class_reader \<Rightarrow> Matcher option \<Rightarrow> string \<Rightarrow> existing \<Rightarrow> int \<Rightarrow> string \<Rightarrow> fs_node \<Rightarrow> fs_err option \<Rightarrow>
   scan_state \<Rightarrow> walk_ctl \<times> scan_state" where
  "visit cls ign share existing now p d err st =
     (case st of (r, seen) \<Rightarrow>
      let isDir = (nd_kind d = KDir) in
      if p = ''.'' then (case err of None \<Rightarrow> Continue | Some e \<Rightarrow> Abort e, st)
      else (case err of
        Some e \<Rightarrow> (skip_ctl isDir, warn (SkipUnreadable p) r, keepUnreadable existing (path_clean p) isDir e seen)
      | None \<Rightarrow>
        let relpath = path_clean p in
        if relpath = ''.'' \<or> relpath = ''..'' \<or> has_prefix relpath ''../'' \<or> is_abs relpath
        then (skip_ctl isDir, warn (RejectEscaping p) r, seen)
        else if relpath = ReservedDirName \<and> isDir then (SkipDir, st)
        else if MatchPath cls ign relpath isDir then
          (let st1 = noteIgnored existing relpath st in
           if isDir \<and> PruneDirs ign then (SkipDir, noteIgnoredSubtree existing relpath st1)
           else (Continue, st1))
        else if nd_kind d = KSymlink then (Continue, warn (SkipSymlink relpath) r, seen)
        else (case nd_info d of
          Inl e \<Rightarrow> (skip_ctl isDir, warn (SkipStatFailed relpath) r, keepUnreadable existing relpath isDir e seen)
        | Inr info \<Rightarrow>
           let st1 = (r, insert relpath seen) in
           if isDir then (Continue, visit_dir share existing now relpath info st1)
           else (Continue, visit_file share existing now relpath info (nd_hash d) st1))))"

section \<open>The walk\<close>

text \<open>\<open>path.Join(name, d1.Name())\<close> for the base names a directory listing returns.\<close>

definition child_path :: "string \<Rightarrow> string \<Rightarrow> string" where
  "child_path p name = (if p = ''.'' then name else p @ ''/'' @ name)"

text \<open>
  \<open>fs.WalkDir\<close>: the callback on the entry; for a directory its listing, with a second
  callback when listing fails; then the children. \<open>SkipDir\<close> from a directory's callback
  skips the directory, from a listing error the rest of it.
\<close>

fun walk :: "class_reader \<Rightarrow> Matcher option \<Rightarrow> string \<Rightarrow> existing \<Rightarrow> int \<Rightarrow> string \<Rightarrow> fs_node \<Rightarrow>
      scan_state \<Rightarrow> fs_err option \<times> scan_state"
  and walk_list :: "class_reader \<Rightarrow> Matcher option \<Rightarrow> string \<Rightarrow> existing \<Rightarrow> int \<Rightarrow> string \<Rightarrow> fs_node list \<Rightarrow>
      scan_state \<Rightarrow> fs_err option \<times> scan_state" where
  "walk cls ign share existing now p (Node nm k info hash lst children) st =
     (let d = Node nm k info hash lst children in
      case visit cls ign share existing now p d None st of
        (Abort e, st1) \<Rightarrow> (Some e, st1)
      | (SkipDir, st1) \<Rightarrow> (None, st1)
      | (Continue, st1) \<Rightarrow>
          if k \<noteq> KDir then (None, st1)
          else (case lst of
                  None \<Rightarrow> walk_list cls ign share existing now p children st1
                | Some e \<Rightarrow>
                    (case visit cls ign share existing now p d (Some e) st1 of
                       (Abort e', st2) \<Rightarrow> (Some e', st2)
                     | (SkipDir, st2) \<Rightarrow> (None, st2)
                     | (Continue, st2) \<Rightarrow> walk_list cls ign share existing now p children st2)))"
| "walk_list cls ign share existing now p [] st = (None, st)"
| "walk_list cls ign share existing now p (n # ns) st =
     (case walk cls ign share existing now (child_path p (nd_name n)) n st of
        (Some e, st1) \<Rightarrow> (Some e, st1)
      | (None, st1) \<Rightarrow> walk_list cls ign share existing now p ns st1)"

definition empty_scan :: "string \<Rightarrow> ScanResult" where
  "empty_scan share = \<lparr>sc_ShareID = share, sc_Added = [], sc_ContentChanged = [], sc_MetadataOnly = [],
     sc_Deleted = [], sc_Ignored = [], sc_Warnings = []\<rparr>"

text \<open>The loop over the rows the walk did not see.\<close>

definition tombstones :: "existing \<Rightarrow> string set \<Rightarrow> int \<Rightarrow> FileRow list" where
  "tombstones existing seen now =
     List.map_filter (\<lambda>p. case fmlookup existing p of
         None \<Rightarrow> None
       | Some old \<Rightarrow>
          if fr_Deleted old \<or> p \<in> seen then None
          else if fr_Ignored old then None
          else Some (old\<lparr>fr_Deleted := True, fr_UpdatedAt := now\<rparr>))
       (sorted_list_of_fset (fmdom existing))"

definition Scan :: "class_reader \<Rightarrow> Matcher option \<Rightarrow> string \<Rightarrow> existing \<Rightarrow> int \<Rightarrow> fs_node \<Rightarrow>
    fs_err + ScanResult" where
  "Scan cls ign share existing now root =
     (case walk cls ign share existing now ''.'' root (empty_scan share, {}) of
        (Some e, _) \<Rightarrow> Inl e
      | (None, (r, seen)) \<Rightarrow> Inr (r\<lparr>sc_Deleted := sc_Deleted r @ tombstones existing seen now\<rparr>))"

section \<open>Paths along a walk\<close>

lemma join_snoc: "qs \<noteq> [] \<Longrightarrow> join_on c (qs @ es) = (if es = [] then join_on c qs else join_on c qs @ c # join_on c es)"
proof (induction c qs rule: join_on.induct)
  case (2 c e)
  then show ?case by (cases es) auto
qed auto

definition plain_name :: "string \<Rightarrow> bool" where
  "plain_name e \<longleftrightarrow> plain_elem e \<and> slash \<notin> set e"

definition walk_path :: "string list \<Rightarrow> string" where
  "walk_path qs = (if qs = [] then ''.'' else join_on slash qs)"

lemma join_plain_not_special:
  assumes "qs \<noteq> []" "\<forall>e \<in> set qs. plain_name e"
  shows "join_on slash qs \<noteq> ''.''" "join_on slash qs \<noteq> ''..''" "join_on slash qs \<noteq> []"
    "hd (join_on slash qs) \<noteq> slash" "\<not> has_prefix (join_on slash qs) ''../''"
proof -
  have sp: "split_on slash (join_on slash qs) = qs"
    using assms by (intro split_join) (auto simp: plain_name_def)
  have no: "join_on slash qs \<noteq> x" if "split_on slash x = [x]" "\<not> plain_elem x" for x
  proof
    assume "join_on slash qs = x"
    with sp that(1) have "qs = [x]" by simp
    then show False using assms(2) that(2) by (simp add: plain_name_def)
  qed
  show "join_on slash qs \<noteq> ''.''" by (rule no) (simp_all add: plain_elem_def)
  show "join_on slash qs \<noteq> ''..''" by (rule no) (simp_all add: plain_elem_def)
  show ne: "join_on slash qs \<noteq> []" by (rule no) (simp_all add: plain_elem_def)
  show "hd (join_on slash qs) \<noteq> slash"
  proof
    assume "hd (join_on slash qs) = slash"
    then obtain t where "join_on slash qs = [] @ slash # t" using ne by (cases "join_on slash qs") auto
    then have "qs = [] # split_on slash t" using sp split_on_append [of slash "[]" t] by simp
    then show False using assms(2) by (simp add: plain_name_def plain_elem_def)
  qed
  show "\<not> has_prefix (join_on slash qs) ''../''"
  proof
    assume "has_prefix (join_on slash qs) ''../''"
    then obtain t where "join_on slash qs = ''..'' @ slash # t" by (auto simp: has_prefix_iff)
    then have "qs = ''..'' # split_on slash t" using sp split_on_append [of slash "''..''" t] by simp
    then show False using assms(2) by (auto simp: plain_name_def plain_elem_def)
  qed
qed

lemma path_clean_plain:
  assumes "qs \<noteq> []" "\<forall>e \<in> set qs. plain_name e"
  shows "path_clean (join_on slash qs) = join_on slash qs"
proof -
  note np = join_plain_not_special [OF assms]
  have sp: "split_on slash (join_on slash qs) = qs"
    using assms by (intro split_join) (auto simp: plain_name_def)
  have "\<not> has_prefix (join_on slash qs) ''/''"
    using np(3,4) by (cases "join_on slash qs") (auto simp: has_prefix_def)
  then show ?thesis
    using np(3) sp assms clean_elems_plain [of qs False "[]"] by (simp add: path_clean_def plain_name_def)
qed

lemma child_path_walk:
  assumes "\<forall>e \<in> set qs. plain_name e"
  shows "child_path (walk_path qs) e = walk_path (qs @ [e])"
  using join_plain_not_special [of qs] assms by (auto simp: child_path_def walk_path_def join_snoc)

lemma under_walk_path:
  assumes "qs \<noteq> []" "es \<noteq> []"
  shows "under (join_on slash (qs @ es)) (walk_path qs)"
  using assms by (simp add: under_def walk_path_def join_snoc has_prefix_iff)

text \<open>The set of seen paths only grows.\<close>

lemma noteIgnored_seen: "snd (noteIgnored ex p st) = insert p (snd st)"
  by (cases st) (auto simp: noteIgnored_def split: option.split)

lemma fold_noteIgnored_seen: "snd (fold (noteIgnored ex) ps st) = set ps \<union> snd st"
  by (induction ps arbitrary: st) (auto simp: noteIgnored_seen)

lemma noteIgnoredSubtree_seen:
  "snd (noteIgnoredSubtree ex d st) = {p. p |\<in>| fmdom ex \<and> under p d} \<union> snd st"
  by (auto simp: noteIgnoredSubtree_def fold_noteIgnored_seen sorted_list_of_fset.rep_eq)

lemma keepUnreadable_seen:
  "keepUnreadable ex p d e seen = (if e = NotExist then seen
     else insert p seen \<union> (if d then {q. q |\<in>| fmdom ex \<and> under q p} else {}))"
  by (auto simp: keepUnreadable_def)

lemma visit_dir_seen [simp]: "snd (visit_dir sh ex now p info st) = snd st"
  by (cases st) (auto simp: visit_dir_def Let_def)

lemma visit_file_seen [simp]: "snd (visit_file sh ex now p info h st) = snd st"
  by (cases st) (auto simp: visit_file_def Let_def split: option.split sum.split prod.split fileChange.split)

lemma visit_root [simp]:
  "visit cls ign sh ex now ''.'' d err st = (case err of None \<Rightarrow> Continue | Some e \<Rightarrow> Abort e, st)"
  by (cases st) (simp add: visit_def)

lemma visit_err:
  "p \<noteq> ''.'' \<Longrightarrow> visit cls ign sh ex now p d (Some e) (r, seen) =
     (skip_ctl (nd_kind d = KDir), warn (SkipUnreadable p) r, keepUnreadable ex (path_clean p) (nd_kind d = KDir) e seen)"
  by (simp add: visit_def Let_def)

lemma visit_entry:
  "p \<noteq> ''.'' \<Longrightarrow> visit cls ign sh ex now p d None (r, seen) =
     (let relpath = path_clean p; isDir = (nd_kind d = KDir) in
      if relpath = ''.'' \<or> relpath = ''..'' \<or> has_prefix relpath ''../'' \<or> is_abs relpath
        then (skip_ctl isDir, warn (RejectEscaping p) r, seen)
        else if relpath = ReservedDirName \<and> isDir then (SkipDir, (r, seen))
        else if MatchPath cls ign relpath isDir then
          (let st1 = noteIgnored ex relpath (r, seen) in
           if isDir \<and> PruneDirs ign then (SkipDir, noteIgnoredSubtree ex relpath st1)
           else (Continue, st1))
        else if nd_kind d = KSymlink then (Continue, warn (SkipSymlink relpath) r, seen)
        else (case nd_info d of
          Inl e \<Rightarrow> (skip_ctl isDir, warn (SkipStatFailed relpath) r, keepUnreadable ex relpath isDir e seen)
        | Inr info \<Rightarrow>
           let st1 = (r, insert relpath seen) in
           if isDir then (Continue, visit_dir sh ex now relpath info st1)
           else (Continue, visit_file sh ex now relpath info (nd_hash d) st1)))"
  by (simp add: visit_def Let_def)

lemma visit_seen_mono: "snd st \<subseteq> snd (snd (visit cls ign sh ex now p d err st))"
proof -
  obtain r seen where st: "st = (r, seen)" by (metis surj_pair)
  show ?thesis
  proof (cases "p = ''.''")
    case True
    then show ?thesis by simp
  next
    case False
    show ?thesis
    proof (cases err)
      case None
      show ?thesis
        unfolding st None visit_entry [OF False]
        by (cases "nd_info d")
          (simp_all add: Let_def noteIgnored_seen noteIgnoredSubtree_seen keepUnreadable_seen subset_insertI
             subset_insertI2 le_supI2)
    next
      case (Some e)
      show ?thesis unfolding st Some visit_err [OF False] by (auto simp: keepUnreadable_seen)
    qed
  qed
qed

lemma walk_Node:
  assumes "visit cls ign sh ex now p (Node nm k info hash lst ns) None st = (c, st1)"
  shows "walk cls ign sh ex now p (Node nm k info hash lst ns) st =
    (case c of Abort e \<Rightarrow> (Some e, st1) | SkipDir \<Rightarrow> (None, st1)
     | Continue \<Rightarrow>
        if k \<noteq> KDir then (None, st1)
        else case lst of None \<Rightarrow> walk_list cls ign sh ex now p ns st1
             | Some e \<Rightarrow>
                (case visit cls ign sh ex now p (Node nm k info hash lst ns) (Some e) st1 of
                   (Abort e', st2) \<Rightarrow> (Some e', st2) | (SkipDir, st2) \<Rightarrow> (None, st2)
                 | (Continue, st2) \<Rightarrow> walk_list cls ign sh ex now p ns st2))"
  by (simp add: assms)

text \<open>An invariant of the callback is an invariant of the walk.\<close>

lemma walk_list_preserves:
  assumes "\<And>n q s. n \<in> set ns \<Longrightarrow> I s \<Longrightarrow> I (snd (walk cls ign sh ex now q n s))" and "I st"
  shows "I (snd (walk_list cls ign sh ex now p ns st))"
  using assms
proof (induction ns arbitrary: st)
  case (Cons n ns)
  obtain e1 st1 where w: "walk cls ign sh ex now (child_path p (nd_name n)) n st = (e1, st1)" by (metis surj_pair)
  have i1: "I st1" using Cons.prems(1) [of n st "child_path p (nd_name n)"] Cons.prems(2) w by simp
  have "I (snd (walk_list cls ign sh ex now p ns st1))" using Cons.prems(1) i1 by (intro Cons.IH) auto
  then show ?case using w i1 by (cases e1) auto
qed simp

lemma walk_preserves:
  assumes step: "\<And>p d err st. I st \<Longrightarrow> I (snd (visit cls ign sh ex now p d err st))"
  shows "I st \<Longrightarrow> I (snd (walk cls ign sh ex now p n st))"
proof (induction n arbitrary: p st)
  case (Node nm k info hash lst ns)
  let ?d = "Node nm k info hash lst ns"
  obtain c st1 where v: "visit cls ign sh ex now p ?d None st = (c, st1)" by (metis surj_pair)
  have i1: "I st1" using step [of st p ?d None] Node.prems v by simp
  have l: "I (snd (walk_list cls ign sh ex now p ns s))" if "I s" for s
    using Node.IH that by (rule walk_list_preserves)
  have "I (snd (case lst of None \<Rightarrow> walk_list cls ign sh ex now p ns st1
             | Some e \<Rightarrow>
                (case visit cls ign sh ex now p ?d (Some e) st1 of
                   (Abort e', st2) \<Rightarrow> (Some e', st2) | (SkipDir, st2) \<Rightarrow> (None, st2)
                 | (Continue, st2) \<Rightarrow> walk_list cls ign sh ex now p ns st2)))"
  proof (cases lst)
    case None
    then show ?thesis using l i1 by simp
  next
    case (Some e)
    obtain c2 st2 where v2: "visit cls ign sh ex now p ?d (Some e) st1 = (c2, st2)" by (metis surj_pair)
    have "I st2" using step [of st1 p ?d "Some e"] i1 v2 by simp
    then show ?thesis using Some v2 l [of st2] by (cases c2) auto
  qed
  with i1 show ?case unfolding walk_Node [OF v] by (cases c) auto
qed

lemma walk_seen_mono: "snd st \<subseteq> snd (snd (walk cls ign sh ex now p n st))"
  by (rule walk_preserves [where I = "\<lambda>s. snd st \<subseteq> snd s"]) (use visit_seen_mono in blast)+

lemma walk_list_seen_mono: "snd st \<subseteq> snd (snd (walk_list cls ign sh ex now p ns st))"
  by (rule walk_list_preserves [where I = "\<lambda>s. snd st \<subseteq> snd s"]) (use walk_seen_mono in blast)+

lemma walk_list_split:
  assumes "walk_list cls ign sh ex now p (as @ n # bs) st = (None, st')"
  shows "\<exists>s1 s2. walk cls ign sh ex now (child_path p (nd_name n)) n s1 = (None, s2) \<and> snd s2 \<subseteq> snd st'"
  using assms
proof (induction as arbitrary: st)
  case Nil
  obtain e s2 where w: "walk cls ign sh ex now (child_path p (nd_name n)) n st = (e, s2)" by (metis surj_pair)
  have "e = None" using Nil.prems w by (cases e) auto
  moreover from this have "snd s2 \<subseteq> snd st'"
    using walk_list_seen_mono [of s2 cls ign sh ex now p bs] Nil.prems w by simp
  ultimately show ?case using w by blast
next
  case (Cons a as)
  obtain e s2 where w: "walk cls ign sh ex now (child_path p (nd_name a)) a st = (e, s2)" by (metis surj_pair)
  have "e = None" using Cons.prems w by (cases e) auto
  with w Cons.prems have "walk_list cls ign sh ex now p (as @ n # bs) s2 = (None, st')" by simp
  from Cons.IH [OF this] show ?case .
qed

section \<open>What became of a path\<close>

text \<open>
  What a walk can find out about a path, element by element: nothing of that name in a
  readable directory (or below a file), something that disappeared between being listed and
  being read, a symbolic link on the way, a readable entry, or an entry or directory that
  could not be read for another reason.
\<close>

datatype fate = Absent | Vanished | ThroughSymlink | Present | Unreadable

fun fate_of :: "string list \<Rightarrow> fs_node list \<Rightarrow> fate" where
  "fate_of [] ns = Absent"
| "fate_of (e # es) ns =
     (case find (\<lambda>n. nd_name n = e) ns of
        None \<Rightarrow> Absent
      | Some n \<Rightarrow>
         if nd_kind n = KSymlink then ThroughSymlink
         else if nd_info n = Inl NotExist then Vanished
         else if es = [] then (case nd_info n of Inl _ \<Rightarrow> Unreadable | Inr _ \<Rightarrow> Present)
         else if nd_kind n \<noteq> KDir then Absent
         else (case nd_list n of
                 Some NotExist \<Rightarrow> Vanished
               | Some OtherError \<Rightarrow> Unreadable
               | None \<Rightarrow> fate_of es (nd_children n)))"

fun names_plain :: "fs_node \<Rightarrow> bool" where
  "names_plain (Node nm k info hash lst ns) \<longleftrightarrow>
     (\<forall>n \<in> set ns. plain_name (nd_name n) \<and> names_plain n)"

lemma names_plain_children: "names_plain n \<Longrightarrow> m \<in> set (nd_children n) \<Longrightarrow> plain_name (nd_name m) \<and> names_plain m"
  by (cases n) auto

lemma visit_here:
  assumes "visit cls ign sh ex now p d None (r, seen) = (c, st1)"
    and "p \<noteq> ''.''" "p \<noteq> ''..''" "\<not> has_prefix p ''../''" "\<not> is_abs p" "path_clean p = p"
    and "p \<noteq> ReservedDirName" "nd_kind d \<noteq> KSymlink" "nd_info d \<noteq> Inl NotExist"
  shows "p \<in> snd st1 \<and> (c = Continue \<or>
     (c = SkipDir \<and> (\<forall>q. q |\<in>| fmdom ex \<longrightarrow> under q p \<longrightarrow> q \<in> snd st1)))"
proof -
  have v: "(c, st1) =
     (if MatchPath cls ign p (nd_kind d = KDir) then
          (let st1 = noteIgnored ex p (r, seen) in
           if nd_kind d = KDir \<and> PruneDirs ign then (SkipDir, noteIgnoredSubtree ex p st1)
           else (Continue, st1))
        else (case nd_info d of
          Inl e \<Rightarrow> (skip_ctl (nd_kind d = KDir), warn (SkipStatFailed p) r, keepUnreadable ex p (nd_kind d = KDir) e seen)
        | Inr info \<Rightarrow>
           let st1 = (r, insert p seen) in
           if nd_kind d = KDir then (Continue, visit_dir sh ex now p info st1)
           else (Continue, visit_file sh ex now p info (nd_hash d) st1)))"
    unfolding assms(1) [symmetric] visit_entry [OF assms(2)] assms(6) Let_def
    using assms(2,3,4,5,7,8) by simp
  show ?thesis
  proof (cases "MatchPath cls ign p (nd_kind d = KDir)")
    case True
    then show ?thesis using v
      by (auto simp: Let_def noteIgnored_seen noteIgnoredSubtree_seen split: if_splits)
  next
    case False
    show ?thesis
    proof (cases "nd_info d")
      case (Inl e)
      then have "e = OtherError" using assms(9) by (cases e) auto
      then show ?thesis using v False Inl by (auto simp: keepUnreadable_seen skip_ctl_def split: if_splits)
    next
      case (Inr info)
      then show ?thesis using v False by (auto simp: Let_def split: if_splits)
    qed
  qed
qed

lemma walk_reaches:
  assumes "fate_of es ns \<in> {Present, Unreadable}"
    and "walk_list cls ign sh ex now (walk_path qs) ns st = (None, st')"
    and "\<forall>n \<in> set ns. plain_name (nd_name n) \<and> names_plain n"
    and "\<forall>q \<in> set qs. plain_name q"
    and "hd (qs @ es) \<noteq> ReservedDirName"
    and "join_on slash (qs @ es) |\<in>| fmdom ex"
  shows "join_on slash (qs @ es) \<in> snd st'"
  using assms
proof (induction es arbitrary: qs ns st st')
  case (Cons e es)
  obtain n where f: "find (\<lambda>n. nd_name n = e) ns = Some n"
    using Cons.prems(1) by (auto split: option.splits)
  then have n: "n \<in> set ns" "nd_name n = e" using find_mem by fastforce+
  obtain as bs where ns: "ns = as @ n # bs" using n(1) by (meson split_list)
  obtain nm k info hash lst cs where N: "n = Node nm k info hash lst cs" by (cases n)
  have pl: "plain_name e" and np: "names_plain n" using Cons.prems(3) n by auto
  let ?q = "qs @ [e]"
  let ?p = "walk_path ?q" and ?full = "join_on slash (qs @ e # es)"
  have qpl: "\<forall>q \<in> set ?q. plain_name q" using pl Cons.prems(4) by simp
  have p: "?p = join_on slash ?q" by (simp add: walk_path_def)
  note special = join_plain_not_special [OF _ qpl, simplified, folded p]
  have pc: "path_clean ?p = ?p" using path_clean_plain [OF _ qpl] p by simp
  have abs: "\<not> is_abs ?p" using special(3,4) by (cases ?p) (auto simp: is_abs_def has_prefix_def)
  have res: "\<not> (?p = ReservedDirName)"
  proof
    assume r: "?p = ReservedDirName"
    have "split_on slash ?p = ?q" unfolding p using qpl by (intro split_join) (auto simp: plain_name_def)
    moreover have "split_on slash ReservedDirName = [ReservedDirName]" by (simp add: ReservedDirName_def)
    ultimately have "?q = [ReservedDirName]" using r by simp
    then show False using Cons.prems(5) by (cases qs) auto
  qed
  obtain s1 s2 where w: "walk cls ign sh ex now ?p n s1 = (None, s2)" and sub: "snd s2 \<subseteq> snd st'"
    using walk_list_split [OF Cons.prems(2) [unfolded ns]] child_path_walk [OF Cons.prems(4), of e] n(2) by auto
  have below: "es \<noteq> [] \<Longrightarrow> under ?full ?p" using under_walk_path [of ?q es] by simp
  have atp: "es = [] \<Longrightarrow> ?full = ?p" by (simp add: p)
  have mem: "?full |\<in>| fmdom ex" using Cons.prems(6) .
  obtain r seen where s1: "s1 = (r, seen)" by (metis surj_pair)
  have fate: "nd_kind n \<noteq> KSymlink" "nd_info n \<noteq> Inl NotExist"
    and fate': "es \<noteq> [] \<Longrightarrow> k = KDir \<and> lst \<noteq> Some NotExist \<and> (lst = None \<longrightarrow> fate_of es cs \<in> {Present, Unreadable})"
    using Cons.prems(1) f N by (auto split: if_splits option.splits fs_err.splits)
  obtain c t1 where v: "visit cls ign sh ex now ?p n None (r, seen) = (c, t1)" by (metis surj_pair)
  have here: "?p \<in> snd t1 \<and> (c = Continue \<or> (c = SkipDir \<and> (\<forall>q. q |\<in>| fmdom ex \<longrightarrow> under q ?p \<longrightarrow> q \<in> snd t1)))"
    by (rule visit_here [OF v special(1,2,5) abs pc res fate])
  have wn: "walk cls ign sh ex now ?p n s1 = (case c of Abort e \<Rightarrow> (Some e, t1) | SkipDir \<Rightarrow> (None, t1)
     | Continue \<Rightarrow>
        if k \<noteq> KDir then (None, t1)
        else case lst of None \<Rightarrow> walk_list cls ign sh ex now ?p cs t1
             | Some e \<Rightarrow>
                (case visit cls ign sh ex now ?p n (Some e) t1 of
                   (Abort e', st2) \<Rightarrow> (Some e', st2) | (SkipDir, st2) \<Rightarrow> (None, st2)
                 | (Continue, st2) \<Rightarrow> walk_list cls ign sh ex now ?p cs st2))"
    unfolding s1 N using v [unfolded N] by (rule walk_Node)
  have up: "snd t1 \<subseteq> snd s2"
  proof -
    have l: "snd t \<subseteq> snd (snd (walk_list cls ign sh ex now ?p cs t))" for t by (rule walk_list_seen_mono)
    consider "c = SkipDir \<or> k \<noteq> KDir" | "c = Continue" "k = KDir" "lst = None"
      | e' where "c = Continue" "k = KDir" "lst = Some e'" using here by (cases lst) auto
    then show ?thesis
    proof cases
      case 1
      then show ?thesis using wn w here by auto
    next
      case 2
      then have "walk_list cls ign sh ex now ?p cs t1 = (None, s2)" using wn w by simp
      then show ?thesis using l [of t1] by simp
    next
      case 3
      obtain c2 t2 where v2: "visit cls ign sh ex now ?p n (Some e') t1 = (c2, t2)" by (metis surj_pair)
      have "snd t1 \<subseteq> snd t2" using visit_seen_mono [of t1 cls ign sh ex now ?p n "Some e'"] v2 by simp
      moreover have "snd t2 \<subseteq> snd s2"
      proof (cases c2)
        case Continue
        then have "walk_list cls ign sh ex now ?p cs t2 = (None, s2)" using wn w 3 v2 by simp
        then show ?thesis using l [of t2] by simp
      qed (use wn w 3 v2 in auto)
      ultimately show ?thesis by blast
    qed
  qed
  have "?full \<in> snd s2"
  proof (cases "es = []")
    case True
    then show ?thesis using here up atp by auto
  next
    case False
    note fd = fate' [OF False] and u = below [OF False]
    show ?thesis
    proof (cases "c = SkipDir")
      case True
      then show ?thesis using here u mem up by blast
    next
      case False
      then have c: "c = Continue" using here by blast
      show ?thesis
      proof (cases lst)
        case None
        then have "walk_list cls ign sh ex now ?p cs t1 = (None, s2)" using wn w c fd by simp
        moreover have "\<forall>n \<in> set cs. plain_name (nd_name n) \<and> names_plain n" using np N by simp
        ultimately have "join_on slash (?q @ es) \<in> snd s2"
          using Cons.IH [of cs ?q t1 s2] fd None qpl Cons.prems(5,6) by (auto simp: hd_append)
        then show ?thesis by simp
      next
        case (Some e')
        then have e': "e' = OtherError" using fd by (cases e') auto
        obtain r1 seen1 where t1: "t1 = (r1, seen1)" by (metis surj_pair)
        have "s2 = (warn (SkipUnreadable ?p) r1, keepUnreadable ex ?p True OtherError seen1)"
          using wn w c fd Some e' N visit_err [OF special(1)] by (simp add: t1 pc skip_ctl_def)
        then show ?thesis using u mem by (simp add: keepUnreadable_seen)
      qed
    qed
  qed
  with sub show ?case by blast
qed simp

lemma mem_tombstones:
  "r \<in> set (tombstones ex seen now) \<longleftrightarrow>
     (\<exists>p old. fmlookup ex p = Some old \<and> \<not> fr_Deleted old \<and> \<not> fr_Ignored old \<and> p \<notin> seen \<and>
        r = old\<lparr>fr_Deleted := True, fr_UpdatedAt := now\<rparr>)"
proof -
  have "set (List.map_filter f xs) = {y. \<exists>x \<in> set xs. f x = Some y}" for f :: "string \<Rightarrow> FileRow option" and xs
    by (induction xs) (auto simp: map_filter_simps split: option.splits)
  then show ?thesis
    by (auto simp: tombstones_def sorted_list_of_fset.rep_eq fmdomI split: option.splits if_splits) blast
qed

section \<open>What a result contains\<close>

text \<open>
  The invariant of a scan in progress: no tombstone yet, every row queued for parking is a
  live indexed row already marked seen, and every other row carries the version of the
  indexed row of its path (the empty version for a new path).
\<close>

definition carries :: "existing \<Rightarrow> FileRow \<Rightarrow> bool" where
  "carries ex r \<longleftrightarrow> fr_Version r = carriedVersion (fmlookup ex (fr_RelPath r)) \<and> \<not> fr_Deleted r \<and> \<not> fr_Ignored r"

definition scan_inv :: "existing \<Rightarrow> scan_state \<Rightarrow> bool" where
  "scan_inv ex st \<longleftrightarrow>
     sc_Deleted (fst st) = [] \<and>
     (\<forall>r \<in> set (sc_Ignored (fst st)). fmlookup ex (fr_RelPath r) = Some r \<and> \<not> fr_Deleted r \<and> \<not> fr_Ignored r \<and> fr_RelPath r \<in> snd st) \<and>
     (\<forall>r \<in> set (sc_Added (fst st) @ sc_ContentChanged (fst st) @ sc_MetadataOnly (fst st)).
        carries ex r \<and> fr_RelPath r \<in> snd st)"

definition keyed :: "existing \<Rightarrow> bool" where
  "keyed ex \<longleftrightarrow> fmpred (\<lambda>p r. fr_RelPath r = p) ex"

lemma keyedD: "keyed ex \<Longrightarrow> fmlookup ex p = Some r \<Longrightarrow> fr_RelPath r = p"
  unfolding keyed_def by (drule fmpredD) auto

lemma scan_inv_warn: "scan_inv ex (warn w r, seen) = scan_inv ex (r, seen)"
  by (simp add: scan_inv_def warn_def)

lemma scan_inv_mono: "scan_inv ex (r, seen) \<Longrightarrow> seen \<subseteq> seen' \<Longrightarrow> scan_inv ex (r, seen')"
  unfolding scan_inv_def by auto

lemma noteIgnored_inv: "keyed ex \<Longrightarrow> scan_inv ex st \<Longrightarrow> scan_inv ex (noteIgnored ex p st)"
  by (cases st) (auto simp: noteIgnored_def scan_inv_def keyedD split: option.split)

lemma fold_noteIgnored_inv: "keyed ex \<Longrightarrow> scan_inv ex st \<Longrightarrow> scan_inv ex (fold (noteIgnored ex) ps st)"
  by (induction ps arbitrary: st) (auto simp: noteIgnored_inv)

lemma visit_dir_inv:
  "scan_inv ex (r, seen) \<Longrightarrow> p \<in> seen \<Longrightarrow> scan_inv ex (visit_dir sh ex now p info (r, seen))"
  by (auto simp: visit_dir_def Let_def scan_inv_def carries_def new_row_def)

lemma classify_row:
  assumes "classifyExisting sh p old info sha now = (Some row, ch)" "fr_RelPath old = p"
    "\<not> fr_Deleted old" "\<not> fr_Ignored old"
  shows "fr_RelPath row = p \<and> fr_Version row = fr_Version old \<and> \<not> fr_Deleted row \<and> \<not> fr_Ignored row"
  using assms by (auto simp: classifyExisting_def new_row_def Let_def split: if_splits)

lemma visit_file_inv:
  assumes k: "keyed ex" and i: "scan_inv ex (r, seen)" and p: "p \<in> seen"
  shows "scan_inv ex (visit_file sh ex now p info h (r, seen))"
proof (cases "case fmlookup ex p of None \<Rightarrow> True | Some o' \<Rightarrow> fr_Deleted o' \<or> fr_Ignored o' \<or> fr_Type o' \<noteq> FileTypeFile")
  case True
  then show ?thesis
    using i p by (cases h) (auto simp: visit_file_def scan_inv_def carries_def new_row_def warn_def)
next
  case False
  then obtain old where old: "fmlookup ex p = Some old" "\<not> fr_Deleted old" "\<not> fr_Ignored old"
    by (auto split: option.splits)
  note row = classify_row [OF _ keyedD [OF k old(1)] old(2,3)]
  have ver: "carries ex row" if "classifyExisting sh p old info sha now = (Some row, ch)" for sha row ch
    using row [OF that] old by (simp add: carries_def carriedVersion_def)
  show ?thesis
    using False old i p
    by (auto simp: visit_file_def scan_inv_warn Let_def split: sum.split prod.split option.split fileChange.split)
      (auto simp: scan_inv_def warn_def dest: ver row)
qed

lemma visit_inv:
  assumes k: "keyed ex" and i: "scan_inv ex st"
  shows "scan_inv ex (snd (visit cls ign sh ex now p d err st))"
proof -
  obtain r seen where st: "st = (r, seen)" by (metis surj_pair)
  have keep: "scan_inv ex (r, keepUnreadable ex q b e seen)" for q b e
  proof -
    have "seen \<subseteq> keepUnreadable ex q b e seen" by (auto simp: keepUnreadable_seen)
    then show ?thesis using i scan_inv_mono by (simp add: st)
  qed
  have ins: "scan_inv ex (r, insert q seen)" for q using i scan_inv_mono [of ex r seen] by (auto simp: st)
  show ?thesis
  proof (cases "p = ''.''")
    case True
    then show ?thesis using i by simp
  next
    case False
    show ?thesis
    proof (cases err)
      case None
      show ?thesis
        unfolding st None visit_entry [OF False] using i ins
        by (cases "nd_info d")
          (auto simp: Let_def st scan_inv_warn keep noteIgnoredSubtree_def
             intro!: fold_noteIgnored_inv noteIgnored_inv visit_dir_inv visit_file_inv k)
    next
      case (Some e)
      show ?thesis unfolding st Some visit_err [OF False] by (simp add: keep scan_inv_warn)
    qed
  qed
qed

lemma Scan_cases:
  assumes "Scan cls ign sh ex now root = Inr res" "keyed ex"
  obtains r seen where "walk cls ign sh ex now ''.'' root (empty_scan sh, {}) = (None, (r, seen))"
    "scan_inv ex (r, seen)" "res = r\<lparr>sc_Deleted := tombstones ex seen now\<rparr>"
proof -
  obtain e r seen where w: "walk cls ign sh ex now ''.'' root (empty_scan sh, {}) = (e, (r, seen))"
    by (metis surj_pair)
  have "scan_inv ex (empty_scan sh, {})" by (simp add: scan_inv_def empty_scan_def)
  then have "scan_inv ex (snd (walk cls ign sh ex now ''.'' root (empty_scan sh, {})))"
    by (rule walk_preserves [where I = "scan_inv ex", rotated]) (rule visit_inv [OF assms(2)])
  then have i: "scan_inv ex (r, seen)" using w by simp
  have d: "sc_Deleted r = []" using i unfolding scan_inv_def fst_conv by (rule conjunct1)
  have e: "e = None" using assms(1) w by (cases e) (simp_all add: Scan_def)
  then have "res = r\<lparr>sc_Deleted := tombstones ex seen now\<rparr>" using assms(1) w d by (simp add: Scan_def)
  then show ?thesis using that w e i by blast
qed

section \<open>Properties\<close>

text \<open>
  C4. A tombstone means the file is gone. Every row a scan turns into a tombstone was live
  and not parked, keeps its version, and its path is one whose absence the walk
  established: nothing of that name in a readable directory, or it vanished between being
  listed and being read, or a symbolic link took its place. A path that is present, or that
  could not be read for any other reason (a permission change on it or on a directory above
  it), is never tombstoned, so an unreadable subtree never deletes anything at a peer.
\<close>

theorem tombstone_means_absent:
  assumes scan: "Scan cls ign share existing now root = Inr res"
    and root: "nd_kind root = KDir" "names_plain root"
    and k: "keyed existing"
    and r: "r \<in> set (sc_Deleted res)" and nr: "hd (split_on slash (fr_RelPath r)) \<noteq> ReservedDirName"
  shows "fate_of (split_on slash (fr_RelPath r)) (nd_children root) \<notin> {Present, Unreadable} \<and>
         (\<exists>old. fmlookup existing (fr_RelPath r) = Some old \<and> \<not> fr_Deleted old \<and> \<not> fr_Ignored old \<and>
            r = old\<lparr>fr_Deleted := True, fr_UpdatedAt := now\<rparr>)"
proof -
  obtain r0 seen where w: "walk cls ign share existing now ''.'' root (empty_scan share, {}) = (None, (r0, seen))"
    and res: "res = r0\<lparr>sc_Deleted := tombstones existing seen now\<rparr>"
    using Scan_cases [OF scan k] by metis
  from r res obtain p old where o: "fmlookup existing p = Some old" "\<not> fr_Deleted old" "\<not> fr_Ignored old"
    "p \<notin> seen" "r = old\<lparr>fr_Deleted := True, fr_UpdatedAt := now\<rparr>" by (auto simp: mem_tombstones)
  have p: "fr_RelPath r = p" using o keyedD [OF k o(1)] by simp
  obtain nm kd info hash lst cs where N: "root = Node nm kd info hash lst cs" by (cases root)
  have l: "walk_list cls ign share existing now (walk_path []) cs (empty_scan share, {}) = (None, (r0, seen))"
    using w root(1) by (auto simp: N walk_path_def split: option.splits)
  have "fate_of (split_on slash p) cs \<notin> {Present, Unreadable}"
  proof
    assume "fate_of (split_on slash p) cs \<in> {Present, Unreadable}"
    from walk_reaches [OF this l] root(2) nr p o(1,4) show False
      by (auto simp: N fmdomI)
  qed
  with o p show ?thesis by (auto simp: N)
qed

definition ex_scan_tree :: "fs_err option \<Rightarrow> fs_node" where
  "ex_scan_tree e = Node ''.'' KDir (Inr \<lparr>fst_Size = 0, fst_MTimeNS = 0, fst_Perm = 0\<rparr>) (Inl OtherError) None
     [Node ''dir'' KDir (Inr \<lparr>fst_Size = 0, fst_MTimeNS = 0, fst_Perm = 0x1ED\<rparr>) (Inl OtherError) e []]"

definition ex_existing :: existing where
  "ex_existing = fmap_of_list [(''dir/a'', ex_row ''dir/a'')]"

theorem tombstone_means_absent_witness:
  "fate_of (split_on slash ''dir/a'') (nd_children (ex_scan_tree None)) \<notin> {Present, Unreadable}"
proof -
  have k: "keyed ex_existing" by code_simp
  have np: "nd_kind (ex_scan_tree None) = KDir" "names_plain (ex_scan_tree None)" by code_simp+
  let ?r = "(ex_row ''dir/a'')\<lparr>fr_Deleted := True, fr_UpdatedAt := 9\<rparr>"
  have "case Scan (\<lambda>_. None) None ''s'' ex_existing 9 (ex_scan_tree None) of
          Inl _ \<Rightarrow> False | Inr res \<Rightarrow> sc_Deleted res = [?r]" by code_simp
  then obtain res where res: "Scan (\<lambda>_. None) None ''s'' ex_existing 9 (ex_scan_tree None) = Inr res"
    and d: "sc_Deleted res = [?r]" by (auto split: sum.splits)
  have "?r \<in> set (sc_Deleted res)" by (simp add: d)
  moreover have "fr_RelPath ?r = ''dir/a''" by code_simp
  moreover have "hd (split_on slash ''dir/a'') \<noteq> ReservedDirName" by code_simp
  ultimately show ?thesis using tombstone_means_absent [OF res np k, of ?r] by simp
qed

text \<open>
  Ignoring is not deleting. A path queued for parking is a live indexed row and is never
  also tombstoned by the same scan, and the rows a scan reports as added, changed or
  touched are never tombstones and carry exactly the version the index holds for their path
  (none for a new path), so that one local bump makes them newer than what peers know.
\<close>

theorem scan_result_sound:
  assumes "Scan cls ign share existing now root = Inr res" "keyed existing"
  shows "fr_RelPath ` set (sc_Deleted res) \<inter>
           fr_RelPath ` set (sc_Ignored res @ sc_Added res @ sc_ContentChanged res @ sc_MetadataOnly res) = {} \<and>
         list_all (\<lambda>r. fmlookup existing (fr_RelPath r) = Some r \<and> \<not> fr_Deleted r \<and> \<not> fr_Ignored r) (sc_Ignored res) \<and>
         list_all (\<lambda>r. fr_Version r = carriedVersion (fmlookup existing (fr_RelPath r)) \<and> \<not> fr_Deleted r)
           (sc_Added res @ sc_ContentChanged res @ sc_MetadataOnly res)"
proof -
  obtain r seen where i: "scan_inv existing (r, seen)" and res: "res = r\<lparr>sc_Deleted := tombstones existing seen now\<rparr>"
    using Scan_cases [OF assms] by metis
  have sel: "sc_Ignored res = sc_Ignored r" "sc_Added res = sc_Added r"
    "sc_ContentChanged res = sc_ContentChanged r" "sc_MetadataOnly res = sc_MetadataOnly r"
    by (simp_all add: res)
  have d: "fr_RelPath x \<notin> seen" if "x \<in> set (sc_Deleted res)" for x
    using that keyedD [OF assms(2)] by (auto simp: res mem_tombstones)
  have s: "fr_RelPath x \<in> seen" if "x \<in> set (sc_Ignored res @ sc_Added res @ sc_ContentChanged res @ sc_MetadataOnly res)" for x
    using that i [unfolded scan_inv_def fst_conv snd_conv] unfolding sel set_append by blast
  have c: "list_all (\<lambda>r. fmlookup existing (fr_RelPath r) = Some r \<and> \<not> fr_Deleted r \<and> \<not> fr_Ignored r) (sc_Ignored res)"
    "list_all (\<lambda>r. fr_Version r = carriedVersion (fmlookup existing (fr_RelPath r)) \<and> \<not> fr_Deleted r)
           (sc_Added res @ sc_ContentChanged res @ sc_MetadataOnly res)"
    using i [unfolded scan_inv_def carries_def fst_conv snd_conv] unfolding sel list_all_iff set_append by blast+
  have "fr_RelPath ` set (sc_Deleted res) \<inter>
      fr_RelPath ` set (sc_Ignored res @ sc_Added res @ sc_ContentChanged res @ sc_MetadataOnly res) = {}"
  proof -
    have "fr_RelPath ` set (sc_Deleted res) \<subseteq> - seen" using d by (simp add: image_subset_iff)
    moreover have "fr_RelPath ` set (sc_Ignored res @ sc_Added res @ sc_ContentChanged res @ sc_MetadataOnly res) \<subseteq> seen"
      unfolding image_subset_iff using s by (rule ballI)
    ultimately show ?thesis by blast
  qed
  with c show ?thesis by (intro conjI)
qed

theorem scan_result_sound_witness:
  "case Scan (\<lambda>_. None) None ''s'' ex_existing 9 (ex_scan_tree (Some OtherError)) of
     Inr res \<Rightarrow> sc_Deleted res = [] \<and> list_all (\<lambda>r. fr_Version r = fmempty) (sc_Added res)
   | Inl _ \<Rightarrow> False"
proof -
  have k: "keyed ex_existing" by code_simp
  have "case Scan (\<lambda>_. None) None ''s'' ex_existing 9 (ex_scan_tree (Some OtherError)) of
     Inr res \<Rightarrow> sc_Deleted res = [] \<and> map fr_RelPath (sc_Added res) = [''dir''] | Inl _ \<Rightarrow> False" by code_simp
  then obtain res where res: "Scan (\<lambda>_. None) None ''s'' ex_existing 9 (ex_scan_tree (Some OtherError)) = Inr res"
    and d: "sc_Deleted res = []" "map fr_RelPath (sc_Added res) = [''dir'']" by (auto split: sum.splits)
  have "carriedVersion (fmlookup ex_existing ''dir'') = fmempty" by code_simp
  then show ?thesis using scan_result_sound [OF res k] d by (auto simp: res list_all_iff)
qed

end
