(* ===== verification/Replication.thy ===== *)
theory Replication
  imports IndexStore
begin

text \<open>
  How one node's mirror of another node's share stays right: the journal of
  \<^verbatim>\<open>internal/index/store.go\<close> replays to the files table, a committed snapshot equals the
  sender's listing, and deltas applied in sequence carry the mirror forward.

  \<open>follows\<close> is the refinement relation between a sender's database and a receiver's; the
  locale \<open>replica_link\<close> is the contract a client of the exchange relies on, interpreted on
  the store's own operations.
\<close>

section \<open>A receiver that follows a sender\<close>

text \<open>
  \<open>tail_replays share a base s\<close>: the journal of \<open>s\<close> still holds every entry of the share
  after sequence number \<open>a\<close>, and replaying them over \<open>base\<close> gives the current row of every
  path that is not parked.
\<close>

definition journal_infos :: "string \<Rightarrow> nat list \<Rightarrow> store \<Rightarrow> FileInfo list" where
  "journal_infos share qs s = map (\<lambda>q. Info (jr_Row (journal_row share s q))) qs"

definition tail_replays :: "string \<Rightarrow> string \<Rightarrow> nat \<Rightarrow> (string \<Rightarrow> FileInfo option) \<Rightarrow> store \<Rightarrow> bool" where
  "tail_replays share e a base s \<longleftrightarrow>
     (\<exists>n. fmlookup (share_state s) share = Some (e, n) \<and> a < n \<and>
          (\<forall>q. a < q \<longrightarrow> q < n \<longrightarrow> (share, q) |\<in>| fmdom (change_journal s)) \<and>
          (\<forall>p. \<not> parked share s p \<longrightarrow>
             share_infos share s p = replay (journal_infos share [Suc a ..< n] s) base p))"

lemma journal_row_lookup:
  "fmlookup (change_journal s) (share, q) = Some e \<Longrightarrow>
   Info (jr_Row (journal_row share s q)) = Info (je_Row e) \<and> jr_Seq (journal_row share s q) = q"
  by (simp add: journal_row_def)

lemma journal_infos_cong:
  assumes "\<And>q. q \<in> set qs \<Longrightarrow> fmlookup (change_journal s) (share, q) = fmlookup (change_journal t) (share, q)"
  shows "journal_infos share qs s = journal_infos share qs t"
  using assms by (simp add: journal_infos_def journal_row_def)

lemma put_tail_replays:
  assumes j: "journal_ok s" and p: "putFileAndJournal fresh now row s = Inr s'"
    and t: "tail_replays share e a base s"
  shows "tail_replays share e a base s'"
proof -
  obtain n where st: "fmlookup (share_state s) share = Some (e, n)" "a < n"
    and jr: "\<And>q. a < q \<Longrightarrow> q < n \<Longrightarrow> (share, q) |\<in>| fmdom (change_journal s)"
    and rp: "\<And>p. \<not> parked share s p \<Longrightarrow>
             share_infos share s p = replay (journal_infos share [Suc a ..< n] s) base p"
    using t unfolding tail_replays_def by blast
  obtain e' n' where st': "state_of fresh (fr_ShareID row) s = (e', n')" by force
  note f = putFileAndJournal_eq [OF j st', of now, unfolded p, simplified]
  show ?thesis
  proof (cases "fr_ShareID row = share")
    case False
    have "journal_infos share [Suc a ..< n] s' = journal_infos share [Suc a ..< n] s"
      by (rule journal_infos_cong) (use f False in auto)
    moreover have "fmlookup (files s') (share, p) = fmlookup (files s) (share, p)" for p
      using f False by auto
    ultimately show ?thesis
      unfolding tail_replays_def parked_def share_infos_def
      using f False st jr rp by (intro exI [of _ n]) (auto simp: parked_def share_infos_def)
  next
    case True
    have en: "e' = e" "n' = n" using st st' True by (simp_all add: state_of_def)
    have old: "journal_infos share [Suc a ..< n] s' = journal_infos share [Suc a ..< n] s"
      by (rule journal_infos_cong) (use f True en in auto)
    have new: "journal_infos share [n] s' = [Info row]"
      using f True en by (simp add: journal_infos_def journal_row_def)
    have all: "journal_infos share [Suc a ..< Suc n] s' = journal_infos share [Suc a ..< n] s @ [Info row]"
      using st(2) old new by (simp add: journal_infos_def)
    have "share_infos share s' p = replay (journal_infos share [Suc a ..< Suc n] s') base p"
      if "\<not> parked share s' p" for p
    proof (cases "p = fr_RelPath row")
      case True
      then show ?thesis
        unfolding all replay_append using f \<open>fr_ShareID row = share\<close>
        by (simp add: share_infos_def replay_def)
    next
      case False
      then have "share_infos share s' p = share_infos share s p" "parked share s' p = parked share s p"
        using f by (simp_all add: share_infos_def parked_def)
      then show ?thesis
        unfolding all replay_append using that rp False by (simp add: replay_def)
    qed
    moreover have "fmlookup (share_state s') share = Some (e, Suc n)" using f True en by simp
    moreover have "(share, q) |\<in>| fmdom (change_journal s')" if "a < q" "q < Suc n" for q
      using that f jr True en by (cases "q = n") auto
    ultimately show ?thesis unfolding tail_replays_def using st(2) less_SucI by blast
  qed
qed

lemma park_tail_replays:
  assumes "tail_replays share e a base s"
  shows "tail_replays share e a base (park r s)"
proof -
  have "share_infos share (park r s) p = share_infos share s p" for p
    by (auto simp: share_infos_def park_def split: option.split)
  moreover have "parked share s p \<Longrightarrow> parked share (park r s) p" for p
    by (auto simp: parked_def park_def split: option.splits)
  moreover have "journal_infos share qs (park r s) = journal_infos share qs s" for qs
    by (rule journal_infos_cong) simp
  ultimately show ?thesis using assms unfolding tail_replays_def park_fields by metis
qed

lemma fold_park_tail: "tail_replays share e a base s \<Longrightarrow> tail_replays share e a base (fold park rs s)"
  by (induction rs arbitrary: s) (simp_all add: park_tail_replays)

lemma put_rows_tail:
  "journal_ok s \<Longrightarrow> tail_replays share e a base s \<Longrightarrow> put_rows fresh now rs s = Inr s' \<Longrightarrow>
   tail_replays share e a base s'"
proof (induction rs arbitrary: s)
  case (Cons r rs)
  from Cons.prems(3) obtain s1 where s1: "putFileAndJournal fresh now r s = Inr s1"
    and r: "put_rows fresh now rs s1 = Inr s'" by (auto split: sum.splits)
  show ?case
    by (rule Cons.IH [OF put_journal_ok [OF Cons.prems(1) s1] put_tail_replays [OF Cons.prems(1) s1 Cons.prems(2)] r])
qed simp

definition follows :: "string \<Rightarrow> string \<Rightarrow> string \<Rightarrow> nat \<Rightarrow> store \<Rightarrow> store \<Rightarrow> bool" where
  "follows peer share e a sender receiver \<longleftrightarrow>
     (\<exists>c. fmlookup (peer_cursors receiver) (peer, share, ''incoming'') = Some c \<and>
          cu_Epoch c = e \<and> cu_AppliedSeq c = of_nat a) \<and>
     tail_replays share e a (mirror_infos peer share receiver) sender"

lemma mem_journal_seqs:
  "q \<in> set (journal_seqs share e s) \<longleftrightarrow> (\<exists>j. fmlookup (change_journal s) (share, q) = Some j \<and> je_Epoch j = e)"
  by (force simp: journal_seqs_def sorted_list_of_fset.rep_eq fmlookup_dom_iff split: option.splits)

lemma journal_seqs_sorted: "sorted (journal_seqs share e s)" "distinct (journal_seqs share e s)"
  by (simp_all add: journal_seqs_def sorted_list_of_fset.rep_eq sorted_wrt_filter)

lemma JournalSince_tail:
  assumes j: "journal_ok s" and st: "fmlookup (share_state s) share = Some (e, n)"
    and full: "\<And>q. a < q \<Longrightarrow> q < n \<Longrightarrow> (share, q) |\<in>| fmdom (change_journal s)"
  shows "JournalSince share e a limit s = take limit (map (journal_row share s) [Suc a ..< n])"
proof -
  have "filter (\<lambda>q. q > a) (journal_seqs share e s) = [Suc a ..< n]"
  proof (rule sorted_distinct_set_unique)
    show "set (filter (\<lambda>q. a < q) (journal_seqs share e s)) = set [Suc a ..< n]"
    proof (intro set_eqI)
      fix q
      have "q \<in> set (journal_seqs share e s) \<longleftrightarrow> q < n" if q: "a < q"
      proof
        assume "q \<in> set (journal_seqs share e s)"
        then obtain x where "fmlookup (change_journal s) (share, q) = Some x" by (auto simp: mem_journal_seqs)
        then show "q < n" by (rule journal_okD [OF j]) (use st in auto)
      next
        assume "q < n"
        with full q obtain x where x: "fmlookup (change_journal s) (share, q) = Some x" by (auto simp: fmlookup_dom_iff)
        then have "je_Epoch x = e" by (rule journal_okD [OF j]) (use st in auto)
        with x show "q \<in> set (journal_seqs share e s)" by (auto simp: mem_journal_seqs)
      qed
      then show "q \<in> set (filter (\<lambda>q. a < q) (journal_seqs share e s)) \<longleftrightarrow> q \<in> set [Suc a ..< n]" by auto
    qed
  qed (auto simp: journal_seqs_sorted sorted_wrt_filter)
  then show ?thesis by (simp add: JournalSince_def)
qed

lemma mirror_put_peer:
  "mirror_infos peer share (put_peer_file peer (r\<lparr>fr_ShareID := share, fr_UpdatedAt := now\<rparr>) s) =
     (mirror_infos peer share s)(fr_RelPath r \<mapsto> Info r)"
  by (auto simp: mirror_infos_def put_peer_file_def)

lemma mirror_fold_put_peer:
  "mirror_infos peer share (fold (\<lambda>r. put_peer_file peer (r\<lparr>fr_ShareID := share, fr_UpdatedAt := now\<rparr>)) rows s) =
     replay (map Info rows) (mirror_infos peer share s)"
  by (induction rows arbitrary: s) (simp_all add: replay_def mirror_put_peer)

text \<open>The rows a receiver builds from the entries of a delta.\<close>

definition delta_rows :: "string \<Rightarrow> int \<Rightarrow> JournalRow list \<Rightarrow> FileRow list" where
  "delta_rows share t js = map (\<lambda>j. FileRowFromInfo share (Info (jr_Row j)) t) js"

lemma delta_follows:
  assumes j: "journal_ok ss" and f: "follows peer share e a ss rs"
    and rows: "rows = JournalSince share e a limit ss" "rows \<noteq> []"
  shows "\<exists>rs'. ApplyPeerDelta peer share e (of_nat (jr_Seq (hd rows))) (of_nat (jr_Seq (last rows)))
                 (delta_rows share t rows) now rs = Inr rs' \<and>
               follows peer share e (a + length rows) ss rs' \<and>
               (length rows < limit \<longrightarrow>
                  (\<forall>p. \<not> parked share ss p \<longrightarrow> mirror_infos peer share rs' p = share_infos share ss p))"
proof -
  obtain c where c: "fmlookup (peer_cursors rs) (peer, share, ''incoming'') = Some c" "cu_Epoch c = e" "cu_AppliedSeq c = of_nat a"
    using f unfolding follows_def by blast
  obtain n where st: "fmlookup (share_state ss) share = Some (e, n)" "a < n"
    and jr: "\<And>q. a < q \<Longrightarrow> q < n \<Longrightarrow> (share, q) |\<in>| fmdom (change_journal ss)"
    and rp: "\<And>p. \<not> parked share ss p \<Longrightarrow>
             share_infos share ss p = replay (journal_infos share [Suc a ..< n] ss) (mirror_infos peer share rs) p"
    using f unfolding follows_def tail_replays_def by blast
  define k where "k = length rows"
  have r: "rows = map (journal_row share ss) [Suc a ..< Suc (a + k)]" and kn: "a + k < n" "k = min limit (n - Suc a)"
  proof -
    have w: "rows = take limit (map (journal_row share ss) [Suc a ..< n])"
      using rows(1) JournalSince_tail [OF j st(1) jr] by simp
    then show km: "k = min limit (n - Suc a)" by (simp add: k_def)
    with st(2) show an: "a + k < n" by simp
    show "rows = map (journal_row share ss) [Suc a ..< Suc (a + k)]"
      using w km an by (cases "limit \<le> n - Suc a") (simp_all add: take_map take_upt)
  qed
  have k0: "0 < k" using rows(2) by (simp add: k_def)
  have seq: "jr_Seq (journal_row share ss q) = q" if "a < q" "q < n" for q
    using jr [OF that] by (auto simp: fmlookup_dom_iff dest: journal_row_lookup)
  have hd: "jr_Seq (hd rows) = Suc a" "jr_Seq (last rows) = a + k"
  proof -
    have ne: "[Suc a ..< Suc (a + k)] \<noteq> []" using k0 by simp
    have "hd rows = journal_row share ss (Suc a)" "last rows = journal_row share ss (a + k)"
      unfolding r using ne k0 by (simp_all add: hd_map last_map hd_upt del: upt_Suc)
    then show "jr_Seq (hd rows) = Suc a" "jr_Seq (last rows) = a + k"
      using seq k0 kn(1) by simp_all
  qed
  let ?f = "fold (\<lambda>r. put_peer_file peer (r\<lparr>fr_ShareID := share, fr_UpdatedAt := now\<rparr>)) (delta_rows share t rows) rs"
  define rs' where "rs' = ?f\<lparr>peer_cursors := fmupd (peer, share, ''incoming'') (c\<lparr>cu_AppliedSeq := of_nat (a + k)\<rparr>) (peer_cursors rs)\<rparr>"
  have len: "length (delta_rows share t rows) = k" by (simp add: delta_rows_def k_def)
  have 1: "ApplyPeerDelta peer share e (of_nat (jr_Seq (hd rows))) (of_nat (jr_Seq (last rows)))
             (delta_rows share t rows) now rs = Inr rs'"
    unfolding hd using c len by (simp add: ApplyPeerDelta_def get_cursor_def rs'_def Let_def)
  have m: "mirror_infos peer share rs' = replay (journal_infos share [Suc a ..< Suc (a + k)] ss) (mirror_infos peer share rs)"
  proof -
    have "mirror_infos peer share rs' = mirror_infos peer share ?f" by (simp add: rs'_def mirror_infos_def fun_eq_iff)
    then show ?thesis
      by (simp add: mirror_fold_put_peer delta_rows_def r journal_infos_def o_def del: upt_Suc)
  qed
  have sp: "[Suc a ..< n] = [Suc a ..< Suc (a + k)] @ [Suc (a + k) ..< n]"
    using kn(1) by (metis Suc_leI le_add1 upt_add_eq_append le_Suc_ex Suc_le_mono)
  have t': "share_infos share ss p = replay (journal_infos share [Suc (a + k) ..< n] ss) (mirror_infos peer share rs') p"
    if "\<not> parked share ss p" for p
    using rp [OF that] unfolding sp m by (simp add: journal_infos_def replay_append del: upt_Suc)
  have 2: "follows peer share e (a + length rows) ss rs'"
    unfolding follows_def tail_replays_def k_def [symmetric]
    using t' st(1) kn(1) jr c by (auto simp: rs'_def)
  have 3: "mirror_infos peer share rs' p = share_infos share ss p" if "k < limit" "\<not> parked share ss p" for p
  proof -
    have e: "[Suc (a + k) ..< n] = []" using that kn by simp
    show ?thesis using t' [OF that(2), unfolded e] by (simp add: journal_infos_def replay_def)
  qed
  show ?thesis using 1 2 3 k_def by blast
qed

section \<open>Snapshots\<close>

lemma set_share_rows:
  "set (ordered_rows (files s) (\<lambda>(sh, p). if sh = share then Some p else None) (Pair share)) =
     {r. \<exists>p. fmlookup (files s) (share, p) = Some r}"
  by (force simp: ordered_rows_def set_map_filter sorted_list_of_fset.rep_eq fmlookup_dom_iff split: if_splits)

lemma set_ListShare:
  "set (ListShare share incl s) =
     {r. \<not> fr_Ignored r \<and> (incl \<or> \<not> fr_Deleted r) \<and> (\<exists>p. fmlookup (files s) (share, p) = Some r)}"
  by (auto simp: ListShare_def set_share_rows)

lemma replay_find:
  "replay is m p = (case find (\<lambda>i. fi_RelPath i = p) (rev is) of Some i \<Rightarrow> Some i | None \<Rightarrow> m p)"
  by (induction "is" arbitrary: m) (auto simp: replay_def find_snoc split: option.splits)

lemma replay_ListShare:
  assumes "keys_ok s"
  shows "replay (map Info (ListShare share True s)) Map.empty p =
           (if parked share s p then None else share_infos share s p)"
proof -
  have k: "fr_RelPath r = q" if "fmlookup (files s) (share, q) = Some r" for q r
  proof -
    have "fmpred (\<lambda>(sh, p) r. fr_ShareID r = sh \<and> fr_RelPath r = p) (files s)"
      using assms by (simp add: keys_ok_def)
    from fmpredD [OF this that] show ?thesis by simp
  qed
  let ?f = "find (\<lambda>i. fi_RelPath i = p) (rev (map Info (ListShare share True s)))"
  show ?thesis
  proof (cases ?f)
    case None
    have "parked share s p" if "fmlookup (files s) (share, p) = Some r" for r
    proof (rule ccontr)
      assume "\<not> parked share s p"
      then have "r \<in> set (ListShare share True s)" using that by (auto simp: set_ListShare parked_def)
      then show False using find_NoneD [OF None, of "Info r"] k [OF that] by simp
    qed
    then show ?thesis
      using None by (cases "fmlookup (files s) (share, p)") (auto simp: replay_find share_infos_def)
  next
    case (Some i)
    from find_mem [OF Some] obtain r where i: "i = Info r" and r: "r \<in> set (ListShare share True s)"
      and p: "fr_RelPath r = p"
      unfolding set_rev set_map by (metis imageE Info_sel(1))
    from r obtain q where q: "fmlookup (files s) (share, q) = Some r" and ig: "\<not> fr_Ignored r"
      unfolding set_ListShare by blast
    have qp: "q = p" using k [OF q] p by (rule trans [OF sym])
    have "replay (map Info (ListShare share True s)) Map.empty p = Some i"
      unfolding replay_find Some by simp
    moreover have "\<not> parked share s p" "share_infos share s p = Some i"
      using i ig q qp by (simp_all add: parked_def share_infos_def)
    ultimately show ?thesis by simp
  qed
qed

definition staged_infos :: "string \<Rightarrow> string \<Rightarrow> string \<Rightarrow> store \<Rightarrow> string \<Rightarrow> FileInfo option" where
  "staged_infos peer share i s p =
     map_option (\<lambda>(b, r). Info r) (fmlookup (snapshot_staging s) (peer, share, i, p))"

lemma staged_infos_upd:
  "map_option (\<lambda>(b, r). Info r) (fmlookup (fold (\<lambda>r. fmupd (peer, share, i, fr_RelPath r) (batch, r)) fs m) (peer, share, i, p)) =
     replay (map Info fs) (\<lambda>p. map_option (\<lambda>(b, r). Info r) (fmlookup m (peer, share, i, p))) p"
proof (induction fs arbitrary: m)
  case (Cons f fs)
  have "(\<lambda>p. map_option (\<lambda>(b, r). Info r) (fmlookup (fmupd (peer, share, i, fr_RelPath f) (batch, f) m) (peer, share, i, p))) =
    (\<lambda>p. map_option (\<lambda>(b, r). Info r) (fmlookup m (peer, share, i, p)))(fr_RelPath f \<mapsto> Info f)"
    by (auto simp: fun_eq_iff)
  then show ?case using Cons.IH by (simp add: replay_def)
qed (simp add: replay_def)

lemma staged_infos_stage:
  "staged_infos peer share i (StageSnapshotBatch peer share i batch fs s) =
     replay (map Info fs) (staged_infos peer share i s)"
  by (auto simp: fun_eq_iff staged_infos_def [abs_def] StageSnapshotBatch_def Let_def staged_infos_upd)

text \<open>Staging a snapshot's batches one after the other.\<close>

fun stage_batches :: "string \<Rightarrow> string \<Rightarrow> string \<Rightarrow> 64 word \<Rightarrow> FileRow list list \<Rightarrow> store \<Rightarrow> store" where
  "stage_batches peer share i b [] s = s"
| "stage_batches peer share i b (fs # bs) s =
     stage_batches peer share i (b + 1) bs (StageSnapshotBatch peer share i b fs s)"

lemma staged_infos_batches:
  "staged_infos peer share i (stage_batches peer share i b bs s) =
     replay (map Info (concat bs)) (staged_infos peer share i s)"
  by (induction bs arbitrary: b s) (simp_all add: staged_infos_stage replay_append, simp add: replay_def)

lemma mirror_commit:
  "mirror_infos peer share (CommitSnapshot peer share i epoch seq now s) = staged_infos peer share i s"
proof
  fix p
  let ?m = "fmlookup (snapshot_staging s) (peer, share, i, p)"
  show "mirror_infos peer share (CommitSnapshot peer share i epoch seq now s) p = staged_infos peer share i s p"
  proof (cases ?m)
    case None
    then have "(peer, share, p) |\<notin>| fmdom (staged_rows peer share i now s)"
      by (simp add: fmdom_notI staged_rows_lookup)
    with None show ?thesis by (simp add: mirror_infos_def staged_infos_def CommitSnapshot_def)
  next
    case (Some x)
    obtain b r where x: "x = (b, r)" by force
    have l: "fmlookup (staged_rows peer share i now s) (peer, share, p) =
        Some (r\<lparr>fr_ShareID := share, fr_UpdatedAt := now, fr_Ignored := False\<rparr>)"
      using Some x by (simp add: staged_rows_lookup)
    then have "(peer, share, p) |\<in>| fmdom (staged_rows peer share i now s)" by (simp add: fmdomI)
    with l Some x show ?thesis by (simp add: mirror_infos_def staged_infos_def CommitSnapshot_def)
  qed
qed

lemma snapshot_follows:
  assumes s: "store_ok ss" and st: "fmlookup (share_state ss) share = Some (e, n)"
    and b: "map Info (concat batches) = map Info (ListShare share True ss)"
    and clean: "\<And>p. fmlookup (snapshot_staging rs) (peer, share, i, p) = None"
  shows "follows peer share e (n - 1) ss
           (CommitSnapshot peer share i e (of_nat (n - 1)) now (stage_batches peer share i 0 batches rs))"
proof -
  let ?r = "CommitSnapshot peer share i e (of_nat (n - 1)) now (stage_batches peer share i 0 batches rs)"
  have n: "0 < n" using s st journal_ok_state by (auto simp: store_ok_def)
  have "staged_infos peer share i rs = Map.empty" using clean by (simp add: staged_infos_def fun_eq_iff)
  then have "mirror_infos peer share ?r = replay (map Info (ListShare share True ss)) Map.empty"
    by (simp add: mirror_commit staged_infos_batches b)
  then have "share_infos share ss p = mirror_infos peer share ?r p" if "\<not> parked share ss p" for p
    using that s replay_ListShare by (simp add: store_ok_def)
  moreover have "[Suc (n - 1) ..< n] = []" using n by simp
  ultimately have "tail_replays share e (n - 1) (mirror_infos peer share ?r) ss"
    unfolding tail_replays_def using st n by (intro exI [of _ n]) (auto simp: journal_infos_def replay_def)
  then show ?thesis unfolding follows_def by (simp add: CommitSnapshot_def)
qed

section \<open>The contract between a sender and a receiver\<close>

text \<open>
  What a link promises: the sender may write at any time without losing a receiver that
  follows it, one exchange moves the receiver strictly forward, and a receiver with nothing
  pending agrees with the sender. Any client then knows that repeating the exchange ends in
  agreement.
\<close>

locale replica_link =
  fixes inv :: "'s \<Rightarrow> bool"
    and follow :: "nat \<Rightarrow> 's \<Rightarrow> 'r \<Rightarrow> bool"
    and wr :: "'w \<Rightarrow> 's \<Rightarrow> 's"
    and pending :: "nat \<Rightarrow> 's \<Rightarrow> nat"
    and exchange :: "nat \<Rightarrow> 's \<Rightarrow> 'r \<Rightarrow> (nat \<times> 'r) option"
    and agree :: "'s \<Rightarrow> 'r \<Rightarrow> bool"
  assumes inv_wr: "inv s \<Longrightarrow> inv (wr w s)"
    and follow_wr: "inv s \<Longrightarrow> follow a s r \<Longrightarrow> follow a (wr w s) r"
    and exchange: "inv s \<Longrightarrow> follow a s r \<Longrightarrow> 0 < pending a s \<Longrightarrow>
          \<exists>a' r'. exchange a s r = Some (a', r') \<and> follow a' s r' \<and> pending a' s < pending a s"
    and idle: "inv s \<Longrightarrow> follow a s r \<Longrightarrow> pending a s = 0 \<Longrightarrow> exchange a s r = None \<and> agree s r"
begin

fun catch_up :: "nat \<Rightarrow> nat \<Rightarrow> 's \<Rightarrow> 'r \<Rightarrow> nat \<times> 'r" where
  "catch_up 0 a s r = (a, r)"
| "catch_up (Suc n) a s r =
     (case exchange a s r of None \<Rightarrow> (a, r) | Some (a', r') \<Rightarrow> catch_up n a' s r')"

lemma writes_follow: "inv s \<Longrightarrow> follow a s r \<Longrightarrow> inv (fold wr ws s) \<and> follow a (fold wr ws s) r"
  by (induction ws arbitrary: s) (simp_all add: inv_wr follow_wr)

lemma catch_up_agrees:
  "inv s \<Longrightarrow> follow a s r \<Longrightarrow> pending a s \<le> n \<Longrightarrow>
     agree s (snd (catch_up n a s r)) \<and> follow (fst (catch_up n a s r)) s (snd (catch_up n a s r))"
proof (induction n arbitrary: a r)
  case 0
  then show ?case using idle by simp
next
  case (Suc n)
  show ?case
  proof (cases "pending a s = 0")
    case True
    then show ?thesis using Suc.prems idle by simp
  next
    case False
    then obtain a' r' where "exchange a s r = Some (a', r')" "follow a' s r'" "pending a' s < pending a s"
      using exchange Suc.prems by (metis gr0I)
    then show ?thesis using Suc by simp
  qed
qed

lemma writes_then_catch_up:
  assumes "inv s" "follow a s r" "pending a (fold wr ws s) \<le> n"
  shows "agree (fold wr ws s) (snd (catch_up n a (fold wr ws s) r))"
  using assms writes_follow catch_up_agrees by blast

end

datatype db_write = WritePut string int FileRow | WriteScan string int ScanResult

fun apply_write :: "db_write \<Rightarrow> store \<Rightarrow> store" where
  "apply_write (WritePut fresh now row) s = snd (PutFile fresh now row s)"
| "apply_write (WriteScan fresh now result) s = snd (ApplyScanResult fresh now result s)"

definition pending_deltas :: "string \<Rightarrow> nat \<Rightarrow> store \<Rightarrow> nat" where
  "pending_deltas share a s =
     (case fmlookup (share_state s) share of None \<Rightarrow> 0 | Some (e, n) \<Rightarrow> n - Suc a)"

text \<open>One delta batch of at most \<open>limit\<close> entries, taken from the sender and applied.\<close>

definition send_delta ::
  "string \<Rightarrow> string \<Rightarrow> string \<Rightarrow> nat \<Rightarrow> int \<Rightarrow> nat \<Rightarrow> store \<Rightarrow> store \<Rightarrow> (nat \<times> store) option" where
  "send_delta peer share e limit now a sender receiver =
     (let rows = JournalSince share e a limit sender in
      if rows = [] then None
      else case ApplyPeerDelta peer share e (of_nat (jr_Seq (hd rows))) (of_nat (jr_Seq (last rows)))
                  (delta_rows share now rows) now receiver of
             Inl _ \<Rightarrow> None
           | Inr receiver' \<Rightarrow> Some (a + length rows, receiver'))"

fun send_deltas ::
  "string \<Rightarrow> string \<Rightarrow> string \<Rightarrow> nat \<Rightarrow> int \<Rightarrow> nat \<Rightarrow> nat \<Rightarrow> store \<Rightarrow> store \<Rightarrow> nat \<times> store" where
  "send_deltas peer share e limit now 0 a sender receiver = (a, receiver)"
| "send_deltas peer share e limit now (Suc n) a sender receiver =
     (case send_delta peer share e limit now a sender receiver of
        None \<Rightarrow> (a, receiver)
      | Some (a', receiver') \<Rightarrow> send_deltas peer share e limit now n a' sender receiver')"

definition agrees :: "string \<Rightarrow> string \<Rightarrow> store \<Rightarrow> store \<Rightarrow> bool" where
  "agrees peer share sender receiver \<longleftrightarrow>
     (\<forall>p. \<not> parked share sender p \<longrightarrow> mirror_infos peer share receiver p = share_infos share sender p)"

lemma write_journal_ok: "journal_ok s \<Longrightarrow> journal_ok (apply_write w s)"
proof (cases w)
  case (WritePut fresh now row)
  assume "journal_ok s"
  then show ?thesis using put_journal_ok by (auto simp: WritePut PutFile_def split: sum.splits)
next
  case (WriteScan fresh now res)
  assume "journal_ok s"
  then show ?thesis
    using put_rows_journal_ok [of s fresh now "sc_Added res @ sc_ContentChanged res @ sc_MetadataOnly res @ sc_Deleted res"]
    by (auto simp: WriteScan ApplyScanResult_def intro: journal_ok_same)
qed

lemma write_tail_replays:
  "journal_ok s \<Longrightarrow> tail_replays share e a base s \<Longrightarrow> tail_replays share e a base (apply_write w s)"
proof (cases w)
  case (WritePut fresh now row)
  assume "journal_ok s" "tail_replays share e a base s"
  then show ?thesis using put_tail_replays by (auto simp: WritePut PutFile_def split: sum.splits)
next
  case (WriteScan fresh now res)
  assume "journal_ok s" "tail_replays share e a base s"
  then show ?thesis
    using put_rows_tail by (auto simp: WriteScan ApplyScanResult_def split: sum.splits intro!: fold_park_tail)
qed

interpretation link: replica_link journal_ok "follows peer share e" apply_write "pending_deltas share"
  "send_delta peer share e (Suc l) now" "agrees peer share" for peer share e l now
proof
  show "\<exists>a' r'. send_delta peer share e (Suc l) now a s r = Some (a', r') \<and>
      follows peer share e a' s r' \<and> pending_deltas share a' s < pending_deltas share a s"
    if j: "journal_ok s" and f: "follows peer share e a s r" and p: "0 < pending_deltas share a s" for s a r
  proof -
    obtain n where st: "fmlookup (share_state s) share = Some (e, n)" "a < n"
      and jr: "\<And>q. a < q \<Longrightarrow> q < n \<Longrightarrow> (share, q) |\<in>| fmdom (change_journal s)"
      using f unfolding follows_def tail_replays_def by blast
    have "length (JournalSince share e a (Suc l) s) = min (Suc l) (n - Suc a)"
      using JournalSince_tail [OF j st(1) jr] by simp
    moreover have "0 < n - Suc a" using p st by (simp add: pending_deltas_def)
    ultimately have ne: "JournalSince share e a (Suc l) s \<noteq> []" by auto
    let ?rows = "JournalSince share e a (Suc l) s"
    from delta_follows [OF j f refl ne, of now now] obtain r' where
      r': "ApplyPeerDelta peer share e (of_nat (jr_Seq (hd ?rows))) (of_nat (jr_Seq (last ?rows)))
             (delta_rows share now ?rows) now r = Inr r'"
      and "follows peer share e (a + length ?rows) s r'" by blast
    moreover have "send_delta peer share e (Suc l) now a s r = Some (a + length ?rows, r')"
      using ne r' by (simp add: send_delta_def)
    moreover have "pending_deltas share (a + length ?rows) s < pending_deltas share a s"
    proof -
      have "0 < length ?rows" using ne by (rule length_greater_0_conv [THEN iffD2])
      moreover have "0 < n - Suc a" using p st by (simp add: pending_deltas_def)
      ultimately have "n - Suc (a + length ?rows) < n - Suc a" by arith
      then show ?thesis using st by (simp add: pending_deltas_def)
    qed
    ultimately show ?thesis by blast
  qed
  show "send_delta peer share e (Suc l) now a s r = None \<and> agrees peer share s r"
    if j: "journal_ok s" and f: "follows peer share e a s r" and p: "pending_deltas share a s = 0" for s a r
  proof -
    obtain n where st: "fmlookup (share_state s) share = Some (e, n)" "a < n"
      and jr: "\<And>q. a < q \<Longrightarrow> q < n \<Longrightarrow> (share, q) |\<in>| fmdom (change_journal s)"
      and rp: "\<And>p. \<not> parked share s p \<Longrightarrow>
             share_infos share s p = replay (journal_infos share [Suc a ..< n] s) (mirror_infos peer share r) p"
      using f unfolding follows_def tail_replays_def by blast
    have e: "[Suc a ..< n] = []" using p st by (simp add: pending_deltas_def)
    have "JournalSince share e a (Suc l) s = take (Suc l) (map (journal_row share s) [Suc a ..< n])"
      by (rule JournalSince_tail [OF j st(1) jr])
    then have "JournalSince share e a (Suc l) s = []" unfolding e by simp
    then show ?thesis using rp unfolding e by (simp add: send_delta_def agrees_def journal_infos_def replay_def)
  qed
qed (auto simp: write_journal_ok follows_def write_tail_replays)

lemma send_deltas_catch_up:
  "send_deltas peer share e (Suc l) now n a s r = link.catch_up peer share e l now n a s r"
  by (induction n arbitrary: a r) (auto split: option.splits)

section \<open>Agreement\<close>

text \<open>
  C6. The mirror follows the sender. A receiver that commits a snapshot made of the sender's
  listing, in batches of any size, and then pulls journal deltas in batches of at most
  \<open>limit\<close> entries ends up, after any sequence of local writes and scans at the sender, with
  exactly the sender's current row for every path the sender has not parked (including that
  a path the sender never had is absent). As many exchanges as there are pending journal
  entries are enough.
\<close>

theorem mirror_follows_sender:
  assumes "store_ok sender" "fmlookup (share_state sender) share = Some (e, n)"
    and "map Info (concat batches) = map Info (ListShare share True sender)"
    and "\<forall>p. fmlookup (snapshot_staging receiver) (peer, share, i, p) = None"
    and "receiver0 = CommitSnapshot peer share i e (of_nat (n - 1)) now
                       (stage_batches peer share i 0 batches receiver)"
    and "sender' = fold apply_write ws sender"
    and "0 < limit" "pending_deltas share (n - 1) sender' \<le> fuel"
    and "\<not> parked share sender' p"
  shows "mirror_infos peer share (snd (send_deltas peer share e limit now fuel (n - 1) sender' receiver0)) p
           = share_infos share sender' p"
proof -
  obtain l where l: "limit = Suc l" using assms(7) by (cases limit) auto
  have "follows peer share e (n - 1) sender receiver0"
    using snapshot_follows [OF assms(1,2,3)] assms(4,5) by blast
  from link.writes_then_catch_up [OF _ this, of ws fuel l now] assms(1,6,8,9) show ?thesis
    by (simp add: l send_deltas_catch_up agrees_def store_ok_def)
qed

theorem mirror_follows_sender_witness:
  "mirror_infos ''p'' ''s''
     (snd (send_deltas ''p'' ''s'' ''epoch'' 1 9 5 1
        (fold apply_write [WritePut ''x'' 4 (ex_row ''b.txt'')] ex_sender)
        (CommitSnapshot ''p'' ''s'' ''snap'' ''epoch'' (of_nat (2 - 1)) 9
           (stage_batches ''p'' ''s'' ''snap'' 0 [ListShare ''s'' True ex_sender] empty_store)))) ''b.txt''
   = Some (ex_file ''b.txt'' 1 5 ex_va)"
proof -
  let ?s' = "fold apply_write [WritePut ''x'' 4 (ex_row ''b.txt'')] ex_sender"
  have st: "fmlookup (share_state ex_sender) ''s'' = Some (''epoch'', 2)" by code_simp
  have pend: "pending_deltas ''s'' (2 - 1) ?s' \<le> 5" by code_simp
  have np: "\<not> parked ''s'' ?s' ''b.txt''" by code_simp
  have cl: "\<forall>p. fmlookup (snapshot_staging empty_store) (''p'', ''s'', ''snap'', p) = None"
    by (simp add: empty_store_def)
  have v: "share_infos ''s'' ?s' ''b.txt'' = Some (ex_file ''b.txt'' 1 5 ex_va)" by code_simp
  have b: "map Info (concat [ListShare ''s'' True ex_sender]) = map Info (ListShare ''s'' True ex_sender)" by simp
  from mirror_follows_sender [OF ex_sender_ok st b cl refl refl zero_less_one pend np, of 9] v
  show ?thesis by simp
qed

end
