(* ===== verification/ShareScan.thy ===== *)
theory ShareScan
  imports HoldGuard Scanner Replication
begin

text \<open>
  One scan of a share as \<^verbatim>\<open>internal/core/shares.go\<close> runs it: \<open>scanShareLocked\<close>, which puts
  the scanner, the hold guard and the index together, and the scan gate of
  \<open>rescanShareAsync\<close> and \<open>runShareScan\<close>, which lets one scan of a share run at a time and
  merges triggers that arrive meanwhile.

  What the file system and the rest of the node answer during a scan is the record
  \<open>scan_env\<close>. The results: a scan never tombstones every file of a share unless the user
  confirmed it, a scan that is held leaves the index alone, a content change is announced
  under a bumped version, scans of a share exclude each other and no trigger is lost.
\<close>

section \<open>One scan\<close>

record scan_env =
  en_watched :: bool
  en_reservedTaken :: bool
  en_classes :: class_reader
  en_ignore :: "Matcher option"
  en_tree :: fs_node
  en_rootGone :: bool
  en_current :: bool
  en_safety :: "string \<Rightarrow> Safety"
  en_nodeID :: string
  en_now :: int
  en_holdWrites :: bool
  en_freshEpoch :: string

datatype rescan_err = NoActiveWatch | ReservedTaken | ScanError fs_err | ApplyError store_err

definition bump_rows :: "string \<Rightarrow> FileRow list \<Rightarrow> FileRow list" where
  "bump_rows nodeID rows = map (\<lambda>r. r\<lparr>fr_Version := Bump (fr_Version r) nodeID\<rparr>) rows"

definition bump_result :: "string \<Rightarrow> ScanResult \<Rightarrow> ScanResult" where
  "bump_result nodeID r =
     r\<lparr>sc_Added := bump_rows nodeID (sc_Added r), sc_ContentChanged := bump_rows nodeID (sc_ContentChanged r),
       sc_Deleted := bump_rows nodeID (sc_Deleted r)\<rparr>"

record scan_outcome =
  so_guard :: Guard
  so_changed :: bool
  so_err :: "rescan_err err"
  so_released :: bool

definition outcome :: "Guard \<Rightarrow> bool \<Rightarrow> rescan_err err \<Rightarrow> bool \<Rightarrow> scan_outcome" where
  "outcome g c e r = \<lparr>so_guard = g, so_changed = c, so_err = e, so_released = r\<rparr>"

definition scanShareLocked :: "scan_env \<Rightarrow> string \<Rightarrow> Guard \<Rightarrow> scan_outcome" where
  "scanShareLocked env shareID g =
     (if \<not> en_watched env then outcome g False (Some NoActiveWatch) False
      else if en_reservedTaken env then
        outcome (ScanFailed (en_now env) (en_holdWrites env) shareID (en_rootGone env) fmempty True g)
          False (Some ReservedTaken) False
      else
        let existing = ListShareMap shareID (g_store g) in
        case Scan (en_classes env) (en_ignore env) shareID existing (en_now env) (en_tree env) of
          Inl e \<Rightarrow>
            outcome (ScanFailed (en_now env) (en_holdWrites env) shareID (en_rootGone env) existing False g)
              False (Some (ScanError e)) False
        | Inr result \<Rightarrow>
            if \<not> en_current env then outcome g False ok False
            else
              let (g1, apply, released) =
                    Guard_Scan (en_safety env) (en_now env) (en_holdWrites env) shareID existing result g in
              if \<not> apply then outcome g1 False ok released
              else case ApplyScanResult (en_freshEpoch env) (en_now env) (bump_result (en_nodeID env) result)
                          (g_store g1) of
                     (Some e, s) \<Rightarrow> outcome (g1\<lparr>g_store := s\<rparr>) False (Some (ApplyError e)) released
                   | (None, s) \<Rightarrow>
                       outcome (g1\<lparr>g_store := s\<rparr>)
                         (sc_Added result \<noteq> [] \<or> sc_ContentChanged result \<noteq> [] \<or> sc_Deleted result \<noteq> [])
                         ok released)"

section \<open>What a scan does to the index\<close>

lemma option_eqI: "(\<And>y. a = Some y \<longleftrightarrow> b = Some y) \<Longrightarrow> a = b"
  by (cases a; cases b) auto

lemma ListShareMap_lookup:
  assumes "keys_ok s"
  shows "fmlookup (ListShareMap share s) p = fmlookup (files s) (share, p)"
proof -
  let ?rows = "ordered_rows (files s) (\<lambda>(sh, p). if sh = share then Some p else None) (Pair share)"
  have key: "fr_RelPath r = p" if "fmlookup (files s) (share, p) = Some r" for r p
    using that assms unfolding keys_ok_def by (auto dest: fmpredD)
  have mem: "r \<in> set ?rows \<longleftrightarrow> (\<exists>p. fmlookup (files s) (share, p) = Some r)" for r
    using set_share_rows by auto
  have "distinct (map fr_RelPath ?rows)"
  proof -
    have "map fr_RelPath (List.map_filter (\<lambda>x. fmlookup (files s) (share, x)) ps) =
          filter (\<lambda>x. fmlookup (files s) (share, x) \<noteq> None) ps" for ps
      by (induction ps) (auto simp: map_filter_simps key split: option.splits)
    then show ?thesis by (simp add: ordered_rows_def sorted_list_of_fset.rep_eq)
  qed
  then have "distinct (map fst (map (\<lambda>r. (fr_RelPath r, r)) ?rows))" by (simp add: comp_def)
  note some = map_of_eq_Some_iff [OF this]
  have "map_of (map (\<lambda>r. (fr_RelPath r, r)) ?rows) p = Some r \<longleftrightarrow> r \<in> set ?rows \<and> fr_RelPath r = p" for r
    unfolding some by auto
  moreover have "r \<in> set ?rows \<and> fr_RelPath r = p \<longleftrightarrow> fmlookup (files s) (share, p) = Some r" for r
    unfolding mem using key by blast
  ultimately have "map_of (map (\<lambda>r. (fr_RelPath r, r)) ?rows) p = fmlookup (files s) (share, p)"
    by (intro option_eqI) blast
  then show ?thesis by (simp add: ListShareMap_def fmlookup_of_list)
qed

lemma ListShareMap_keyed: "keys_ok s \<Longrightarrow> keyed (ListShareMap share s)"
  unfolding keyed_def by (rule fmpredI) (auto simp: ListShareMap_lookup keys_ok_def dest: fmpredD)

lemma put_files:
  assumes "putFileAndJournal fresh now row s = Inr s'"
  shows "files s' = fmupd (fr_ShareID row, fr_RelPath row) (row\<lparr>fr_Ignored := False\<rparr>) (files s) \<and>
         holds s' = holds s"
  using assms by (auto simp: putFileAndJournal_def Let_def split: option.splits if_splits prod.splits)

lemma put_rows_files:
  "put_rows fresh now rs s = Inr s' \<Longrightarrow>
   files s' = fold (\<lambda>r. fmupd (fr_ShareID r, fr_RelPath r) (r\<lparr>fr_Ignored := False\<rparr>)) rs (files s) \<and>
   holds s' = holds s"
  by (induction rs arbitrary: s) (auto dest!: put_files split: sum.splits)

text \<open>Parking changes nothing a peer can see.\<close>

lemma park_content:
  "map_option Info (fmlookup (files (fold park rs s)) k) = map_option Info (fmlookup (files s) k)"
proof (induction rs arbitrary: s)
  case (Cons r rs)
  have "map_option Info (fmlookup (files (park r s)) k) = map_option Info (fmlookup (files s) k)"
    by (auto simp: park_def split: option.split)
  with Cons show ?case by simp
qed simp

definition written :: "ScanResult \<Rightarrow> FileRow list" where
  "written r = sc_Added r @ sc_ContentChanged r @ sc_MetadataOnly r @ sc_Deleted r"

lemma ApplyScanResult_content:
  assumes "ApplyScanResult fresh now res s = (ok, s')"
  shows "map_option Info (fmlookup (files s') k) =
     (case find (\<lambda>r. (fr_ShareID r, fr_RelPath r) = k) (rev (written res)) of
        Some r \<Rightarrow> Some (Info r) | None \<Rightarrow> map_option Info (fmlookup (files s) k))"
proof -
  from assms obtain s1 where p: "put_rows fresh now (written res) s = Inr s1"
    and s': "s' = fold park (sc_Ignored res) s1"
    by (auto simp: ApplyScanResult_def written_def split: sum.splits)
  have "fmlookup (files s1) k =
     (case find (\<lambda>r. (fr_ShareID r, fr_RelPath r) = k) (rev (written res)) of
        Some r \<Rightarrow> Some (r\<lparr>fr_Ignored := False\<rparr>) | None \<Rightarrow> fmlookup (files s) k)"
    using put_rows_files [OF p] by (simp add: fold_fmupd_lookup)
  then show ?thesis
    by (simp add: s' park_content split: option.split)
qed

text \<open>Every row a scan reports belongs to the share, and a row reported as touched has the
  content of the indexed row.\<close>

definition same_content :: "FileRow \<Rightarrow> FileRow \<Rightarrow> bool" where
  "same_content a b \<longleftrightarrow> fr_Type a = fr_Type b \<and> fr_SHA256 a = fr_SHA256 b \<and> fr_Deleted a = fr_Deleted b"

definition rows_inv :: "string \<Rightarrow> existing \<Rightarrow> scan_state \<Rightarrow> bool" where
  "rows_inv share ex st \<longleftrightarrow>
     (\<forall>x \<in> set (sc_Added (fst st)) \<union> set (sc_ContentChanged (fst st)) \<union> set (sc_MetadataOnly (fst st)).
        fr_ShareID x = share) \<and>
     (\<forall>x \<in> set (sc_MetadataOnly (fst st)). \<exists>old. fmlookup ex (fr_RelPath x) = Some old \<and> same_content x old)"

definition of_share :: "string \<Rightarrow> existing \<Rightarrow> bool" where
  "of_share share ex \<longleftrightarrow> fmpred (\<lambda>p r. fr_ShareID r = share) ex"

lemma noteIgnored_rows: "rows_inv sh ex (noteIgnored ex' p st) = rows_inv sh ex st"
  by (cases st) (auto simp: noteIgnored_def rows_inv_def split: option.split)

lemma fold_noteIgnored_rows: "rows_inv sh ex (fold (noteIgnored ex') ps st) = rows_inv sh ex st"
  by (induction ps arbitrary: st) (simp_all add: noteIgnored_rows)

lemma rows_inv_seen: "rows_inv sh ex (r, s) \<longleftrightarrow> rows_inv sh ex (r, {})"
  by (simp add: rows_inv_def)

lemma rows_inv_warn: "rows_inv sh ex (warn w r, s) \<longleftrightarrow> rows_inv sh ex (r, {})"
  by (simp add: rows_inv_def warn_def)

lemma visit_dir_rows: "rows_inv sh ex (r, seen) \<Longrightarrow> rows_inv sh ex (visit_dir sh ex now p info (r, seen))"
  by (auto simp: visit_dir_def Let_def rows_inv_def new_row_def)

lemma classify_rows:
  assumes "classifyExisting sh p old info sha now = (Some row, ch)" "fr_RelPath old = p" "fr_ShareID old = sh"
    "fr_Type old = FileTypeFile" "\<not> fr_Deleted old"
  shows "fr_ShareID row = sh \<and> fr_RelPath row = p \<and> (ch = fileMetadataOnly \<longrightarrow> same_content row old)"
  using assms
  by (auto simp: classifyExisting_def new_row_def Let_def same_content_def split: if_splits)

lemma visit_file_rows:
  assumes k: "keyed ex" and o: "of_share sh ex" and i: "rows_inv sh ex (r, seen)"
  shows "rows_inv sh ex (visit_file sh ex now p info h (r, seen))"
proof (cases "case fmlookup ex p of None \<Rightarrow> True | Some o' \<Rightarrow> fr_Deleted o' \<or> fr_Ignored o' \<or> fr_Type o' \<noteq> FileTypeFile")
  case True
  then show ?thesis
    using i by (cases h) (auto simp: visit_file_def rows_inv_def new_row_def warn_def)
next
  case False
  then obtain old where old: "fmlookup ex p = Some old" "\<not> fr_Deleted old" "\<not> fr_Ignored old" "fr_Type old = FileTypeFile"
    by (auto split: option.splits)
  have sh: "fr_ShareID old = sh" using o old(1) unfolding of_share_def by (auto dest: fmpredD)
  have i': "rows_inv sh ex (r, {})" using i rows_inv_seen by metis
  note row = classify_rows [OF _ keyedD [OF k old(1)] sh old(4,2)]
  show ?thesis
    using False old i i'
    by (auto simp: visit_file_def rows_inv_warn Let_def
        split: sum.split prod.split option.split fileChange.split)
      (auto simp: rows_inv_def dest: row)
qed

lemma visit_rows:
  assumes k: "keyed ex" and o: "of_share sh ex" and i: "rows_inv sh ex st"
  shows "rows_inv sh ex (snd (visit cls ign sh ex now p d err st))"
proof -
  obtain r seen where st: "st = (r, seen)" by (metis surj_pair)
  have i': "rows_inv sh ex (r, s)" for s using i st rows_inv_seen by metis
  show ?thesis
  proof (cases "p = ''.''")
    case True
    then show ?thesis using i by simp
  next
    case False
    show ?thesis
    proof (cases err)
      case None
      show ?thesis
        unfolding st None visit_entry [OF False] using i'
        by (cases "nd_info d")
          (auto simp: Let_def rows_inv_warn noteIgnored_rows noteIgnoredSubtree_def fold_noteIgnored_rows
             intro!: visit_dir_rows visit_file_rows k o)
    next
      case (Some e)
      show ?thesis unfolding st Some visit_err [OF False] by (simp add: rows_inv_warn i')
    qed
  qed
qed

lemma Scan_rows:
  assumes "Scan cls ign sh ex now root = Inr res" "keyed ex" "of_share sh ex"
  shows "(\<forall>x \<in> set (written res). fr_ShareID x = sh) \<and>
         (\<forall>x \<in> set (sc_MetadataOnly res). \<exists>old. fmlookup ex (fr_RelPath x) = Some old \<and> same_content x old)"
proof -
  obtain r seen where w: "walk cls ign sh ex now ''.'' root (empty_scan sh, {}) = (None, (r, seen))"
    and res: "res = r\<lparr>sc_Deleted := tombstones ex seen now\<rparr>" using Scan_cases [OF assms(1,2)] by metis
  have "rows_inv sh ex (empty_scan sh, {})" by (simp add: rows_inv_def empty_scan_def)
  then have "rows_inv sh ex (snd (walk cls ign sh ex now ''.'' root (empty_scan sh, {})))"
    by (rule walk_preserves [where I = "rows_inv sh ex", rotated]) (rule visit_rows [OF assms(2,3)])
  then have i: "rows_inv sh ex (r, seen)" using w by simp
  have "fr_ShareID x = sh" if "x \<in> set (tombstones ex seen now)" for x
    using that assms(3) unfolding mem_tombstones of_share_def by (auto dest: fmpredD)
  with i show ?thesis by (auto simp: rows_inv_def res written_def)
qed

section \<open>The outcomes of a scan\<close>

definition index_of :: "Guard \<Rightarrow> (string \<times> string, FileRow) fmap \<times> (string \<times> nat, journal_entry) fmap \<times>
    (string, string \<times> nat) fmap" where
  "index_of g = (files (g_store g), change_journal (g_store g), share_state (g_store g))"

lemma placeLocked_index: "index_of (fst (placeLocked now w h g)) = index_of g"
  by (simp add: placeLocked_def index_of_def PutHold_def Let_def split: option.split)

lemma clearLocked_index: "index_of (fst (clearLocked w l g)) = index_of g"
  by (simp add: clearLocked_def index_of_def DeleteHold_def)

lemma decide_index: "index_of (fst (decide sf now w l d n g)) = index_of g"
  by (simp add: decide_eq Let_def placeLocked_index clearLocked_index)

lemma ScanFailed_index: "index_of (ScanFailed now w sh rg ex rt g) = index_of g"
  by (simp add: ScanFailed_def Let_def placeLocked_index)

text \<open>Either the scan leaves the index as it was, or the guard let it through and its
  bumped result was written.\<close>

definition scan_applied :: "scan_env \<Rightarrow> string \<Rightarrow> Guard \<Rightarrow> ScanResult \<Rightarrow> Guard \<Rightarrow> bool" where
  "scan_applied env share g res g' \<longleftrightarrow>
     Scan (en_classes env) (en_ignore env) share (ListShareMap share (g_store g)) (en_now env) (en_tree env) = Inr res \<and>
     (\<exists>g1 rel s.
        Guard_Scan (en_safety env) (en_now env) (en_holdWrites env) share (ListShareMap share (g_store g)) res g =
          (g1, True, rel) \<and>
        ApplyScanResult (en_freshEpoch env) (en_now env) (bump_result (en_nodeID env) res) (g_store g1) = (ok, s) \<and>
        g' = g1\<lparr>g_store := s\<rparr>)"

lemma scanShareLocked_cases:
  fixes env share g
  defines "g' \<equiv> so_guard (scanShareLocked env share g)"
  shows "index_of g' = index_of g \<or> (\<exists>res. scan_applied env share g res g')"
proof -
  let ?ex = "ListShareMap share (g_store g)"
  let ?scan = "Scan (en_classes env) (en_ignore env) share ?ex (en_now env) (en_tree env)"
  consider (early) "\<not> en_watched env \<or> en_reservedTaken env"
    | (failed) e where "en_watched env" "\<not> en_reservedTaken env" "?scan = Inl e"
    | (stale) res where "en_watched env" "\<not> en_reservedTaken env" "?scan = Inr res" "\<not> en_current env"
    | (scanned) res where "en_watched env" "\<not> en_reservedTaken env" "?scan = Inr res" "en_current env"
    by (cases ?scan) auto
  then show ?thesis
  proof cases
    case early
    then show ?thesis by (auto simp: g'_def scanShareLocked_def outcome_def ScanFailed_index)
  next
    case failed
    then show ?thesis by (simp add: g'_def scanShareLocked_def outcome_def ScanFailed_index)
  next
    case stale
    then show ?thesis by (simp add: g'_def scanShareLocked_def outcome_def)
  next
    case scanned
    obtain g1 ap rel where g1: "Guard_Scan (en_safety env) (en_now env) (en_holdWrites env) share ?ex res g = (g1, ap, rel)"
      by (metis surj_pair)
    then have i1: "index_of g1 = index_of g"
      unfolding Guard_Scan_def by (metis (mono_tags, lifting) case_prod_beta decide_index fst_conv)
    obtain e s where a: "ApplyScanResult (en_freshEpoch env) (en_now env) (bump_result (en_nodeID env) res) (g_store g1) = (e, s)"
      by (metis surj_pair)
    have failed: "s = g_store g1" if "e = Some x" for x
      using a that by (auto simp: ApplyScanResult_def split: sum.splits)
    have g': "g' = (if ap then g1\<lparr>g_store := s\<rparr> else g1)"
      using scanned g1 a by (auto simp: g'_def scanShareLocked_def outcome_def Let_def split: option.splits)
    show ?thesis
    proof (cases "ap \<and> e = ok")
      case True
      then have "scan_applied env share g res g'" using scanned g1 a g' by (auto simp: scan_applied_def)
      then show ?thesis by blast
    next
      case False
      then have "g' = g1" using g' failed by (cases e) auto
      with i1 show ?thesis by simp
    qed
  qed
qed

lemma scan_applied_rows:
  assumes "scan_applied env share g res g'" "keys_ok (g_store g)"
  shows "map_option Info (fmlookup (files (g_store g')) (share, p)) =
     (case find (\<lambda>r. (fr_ShareID r, fr_RelPath r) = (share, p)) (rev (written (bump_result (en_nodeID env) res))) of
        Some r \<Rightarrow> Some (Info r) | None \<Rightarrow> map_option Info (fmlookup (files (g_store g)) (share, p)))"
proof -
  from assms(1) obtain g1 rel s where
    g: "Guard_Scan (en_safety env) (en_now env) (en_holdWrites env) share (ListShareMap share (g_store g)) res g = (g1, True, rel)"
    and a: "ApplyScanResult (en_freshEpoch env) (en_now env) (bump_result (en_nodeID env) res) (g_store g1) = (ok, s)"
    and g': "g' = g1\<lparr>g_store := s\<rparr>" unfolding scan_applied_def by blast
  have "index_of g1 = index_of g"
    using g unfolding Guard_Scan_def by (metis (mono_tags, lifting) case_prod_beta decide_index fst_conv)
  then have f: "files (g_store g1) = files (g_store g)" by (simp add: index_of_def)
  show ?thesis using ApplyScanResult_content [OF a, of "(share, p)", unfolded f] by (simp add: g')
qed

lemma share_map_facts:
  assumes "keys_ok s"
  shows "keyed (ListShareMap share s)" "of_share share (ListShareMap share s)"
proof -
  show "of_share share (ListShareMap share s)"
    unfolding of_share_def
    by (rule fmpredI) (use assms in \<open>auto simp: ListShareMap_lookup keys_ok_def dest: fmpredD\<close>)
qed (rule ListShareMap_keyed [OF assms])

lemma Info_eqD:
  assumes "map_option Info (fmlookup m k) = Some (Info r)"
  obtains r' where "fmlookup m k = Some r'" "fr_Deleted r' = fr_Deleted r" "fr_Version r' = fr_Version r"
    "fr_SHA256 r' = fr_SHA256 r" "fr_Type r' = fr_Type r"
proof -
  from assms obtain r' where r': "fmlookup m k = Some r'" and i: "Info r' = Info r" by auto
  have "fi_Deleted (Info r') = fi_Deleted (Info r)" "fi_Version (Info r') = fi_Version (Info r)"
    "fi_SHA256 (Info r') = fi_SHA256 (Info r)" "fi_Type (Info r') = fi_Type (Info r)"
    by (simp_all only: i)
  then show thesis using that r' by simp
qed

lemma written_bumped:
  "set (written (bump_result n res)) =
     (\<lambda>r. r\<lparr>fr_Version := Bump (fr_Version r) n\<rparr>) ` (set (sc_Added res) \<union> set (sc_ContentChanged res) \<union> set (sc_Deleted res))
     \<union> set (sc_MetadataOnly res)"
  by (auto simp: written_def bump_result_def bump_rows_def)

lemma scan_rows_carry:
  assumes "Scan cls ign share ex now root = Inr res" "keyed ex"
  shows "r \<in> set (sc_Added res) \<union> set (sc_ContentChanged res) \<union> set (sc_MetadataOnly res) \<Longrightarrow>
           fr_Version r = carriedVersion (fmlookup ex (fr_RelPath r)) \<and> \<not> fr_Deleted r"
    and "r \<in> set (sc_Deleted res) \<Longrightarrow>
           \<exists>old. fmlookup ex (fr_RelPath r) = Some old \<and> fr_Version r = fr_Version old \<and> fr_Deleted r"
proof -
  obtain w seen where i: "scan_inv ex (w, seen)" and res: "res = w\<lparr>sc_Deleted := tombstones ex seen now\<rparr>"
    using Scan_cases [OF assms] by metis
  show "r \<in> set (sc_Added res) \<union> set (sc_ContentChanged res) \<union> set (sc_MetadataOnly res) \<Longrightarrow>
           fr_Version r = carriedVersion (fmlookup ex (fr_RelPath r)) \<and> \<not> fr_Deleted r"
    using i by (auto simp: scan_inv_def carries_def res)
  show "r \<in> set (sc_Deleted res) \<Longrightarrow>
           \<exists>old. fmlookup ex (fr_RelPath r) = Some old \<and> fr_Version r = fr_Version old \<and> fr_Deleted r"
    using keyedD [OF assms(2)] by (auto simp: res mem_tombstones)
qed

text \<open>The live paths of a share, as the guard counts them.\<close>

definition live_count :: "string \<Rightarrow> Guard \<Rightarrow> nat" where
  "live_count share g = snd (measure_rows (map_rows (ListShareMap share (g_store g))) [])"

lemma set_map_rows: "r \<in> set (map_rows m) \<longleftrightarrow> (\<exists>p. fmlookup m p = Some r)"
  unfolding map_rows_def set_map_filter sorted_list_of_fset_simps(1) by (blast intro: fmdomI)

lemma survivor:
  assumes "fst (measure_rows rows ps) < snd (measure_rows rows ps)"
  obtains r where "r \<in> set rows" "is_live r" "fr_RelPath r \<notin> set ps"
proof -
  have "\<exists>r \<in> set rows. is_live r \<and> fr_RelPath r \<notin> set ps"
  proof (rule ccontr)
    assume "\<not> ?thesis"
    then have "filter (\<lambda>r. is_live r \<and> fr_RelPath r \<in> set ps) rows = filter is_live rows"
      by (intro filter_cong) auto
    with assms show False by (simp add: measure_rows_def)
  qed
  with that show thesis by blast
qed

lemma applied_leaves_survivor:
  assumes ap: "scan_applied env share g res g'" and g: "guard_ok g" and k: "keys_ok (g_store g)"
    and unconf: "\<forall>h. fmlookup (g_held g) (share, []) = Some h \<longrightarrow> \<not> ho_Confirmed h"
    and two: "2 \<le> live_count share g"
  obtains r where "r \<in> set (map_rows (ListShareMap share (g_store g)))" "is_live r"
    "fr_RelPath r \<notin> fr_RelPath ` set (sc_Deleted res)"
proof -
  let ?rows = "map_rows (ListShareMap share (g_store g))" and ?del = "map fr_RelPath (sc_Deleted res)"
  let ?d = "fst (measure_rows ?rows ?del)" and ?n = "snd (measure_rows ?rows ?del)"
  have n: "?n = live_count share g" by (simp add: live_count_def measure_rows_def)
  from ap obtain g1 rel where
    "Guard_Scan (en_safety env) (en_now env) (en_holdWrites env) share (ListShareMap share (g_store g)) res g = (g1, True, rel)"
    unfolding scan_applied_def by blast
  then have "lets_through (en_safety env share) (fmlookup (g_held g) (share, [])) ?d ?n"
    by (simp add: Guard_Scan_def decide_eq Let_def split_beta split: if_splits)
  moreover have "\<And>h0. fmlookup (g_held g) (share, []) = Some h0 \<Longrightarrow> ho_Reason h0 \<noteq> []"
    using guard_okD [OF g] by blast
  ultimately have "?d = 0 \<or> trigger (en_safety env share) ?d ?n = []"
    using unconf lets_through_iff [of "fmlookup (g_held g) (share, [])" "en_safety env share" ?d ?n]
    by (auto split: option.splits)
  then have "?d < ?n" using two n by (auto simp: trigger_def reason_defs split: if_splits)
  then show thesis using survivor that by (metis set_map)
qed

section \<open>Properties of one scan\<close>

definition ex_two :: Guard where
  "ex_two = Load (snd (PutFile ''epoch'' 4 (ex_row ''b.txt'') ex_sender))"

definition ex_env :: scan_env where
  "ex_env = \<lparr>en_watched = True, en_reservedTaken = False, en_classes = (\<lambda>_. None), en_ignore = None,
     en_tree = ex_scan_tree None, en_rootGone = False, en_current = True, en_safety = ex_sf,
     en_nodeID = ''aaaaaaaaaaaaaaaa'', en_now = 9, en_holdWrites = True, en_freshEpoch = ''e2''\<rparr>"

lemma ex_two_ok: "guard_ok ex_two" "keys_ok (g_store ex_two)"
proof -
  have "store_ok (g_store ex_two)"
    unfolding ex_two_def Load_store by (rule put_step_ok [OF ex_sender_ok])
  then show "keys_ok (g_store ex_two)" by (simp add: store_ok_def)
  have "holds (snd (PutFile ''epoch'' 4 (ex_row ''b.txt'') ex_sender)) = fmempty" by code_simp
  then show "guard_ok ex_two" unfolding ex_two_def by (intro Load_ok) (simp add: holds_ok_def)
qed

text \<open>
  C22. No scan empties a share behind the user's back. When a share has at least two live
  files in the index and its hold, if any, is not confirmed, then after any scan, whatever
  the folder looked like, at least one of those files is still indexed and not a
  tombstone.
\<close>

theorem scan_never_empties_share:
  assumes "guard_ok g" "keys_ok (g_store g)"
    and "\<forall>h. fmlookup (g_held g) (share, []) = Some h \<longrightarrow> \<not> ho_Confirmed h"
    and "2 \<le> live_count share g"
  shows "\<exists>p r r'. fmlookup (files (g_store g)) (share, p) = Some r \<and> is_live r \<and>
           fmlookup (files (g_store (so_guard (scanShareLocked env share g)))) (share, p) = Some r' \<and>
           \<not> fr_Deleted r'"
proof -
  let ?g' = "so_guard (scanShareLocked env share g)" and ?ex = "ListShareMap share (g_store g)"
  consider (same) "index_of ?g' = index_of g" | (applied) res where "scan_applied env share g res ?g'"
    using scanShareLocked_cases by blast
  then show ?thesis
  proof cases
    case same
    then have f: "files (g_store ?g') = files (g_store g)" by (simp add: index_of_def)
    have "\<exists>r \<in> set (map_rows ?ex). is_live r"
    proof (rule ccontr)
      assume "\<not> ?thesis"
      then have "filter is_live (map_rows ?ex) = []" by (simp add: filter_empty_conv)
      with assms(4) show False by (simp add: live_count_def measure_rows_def)
    qed
    then obtain p r where "fmlookup ?ex p = Some r" "is_live r" by (auto simp: set_map_rows)
    then show ?thesis
      unfolding f using assms(2) by (auto simp: ListShareMap_lookup is_live_def)
  next
    case applied
    then obtain r where r: "r \<in> set (map_rows ?ex)" "is_live r" "fr_RelPath r \<notin> fr_RelPath ` set (sc_Deleted res)"
      using applied_leaves_survivor assms by blast
    then obtain p where p: "fmlookup ?ex p = Some r" by (auto simp: set_map_rows)
    then have f: "fmlookup (files (g_store g)) (share, p) = Some r" using assms(2) by (simp add: ListShareMap_lookup)
    have rp: "fr_RelPath r = p" using p ListShareMap_keyed [OF assms(2)] keyedD by blast
    have scan: "Scan (en_classes env) (en_ignore env) share ?ex (en_now env) (en_tree env) = Inr res"
      using applied by (simp add: scan_applied_def)
    let ?find = "find (\<lambda>r. (fr_ShareID r, fr_RelPath r) = (share, p)) (rev (written (bump_result (en_nodeID env) res)))"
    have live: "\<not> fr_Deleted x" if "?find = Some x" for x
    proof -
      have x: "x \<in> set (written (bump_result (en_nodeID env) res))" "fr_RelPath x = p"
        using find_mem [OF that] by auto
      then show ?thesis
        using scan_rows_carry [OF scan ListShareMap_keyed [OF assms(2)]] r(3) rp
        unfolding written_bumped by fastforce
    qed
    have "\<not> fr_Deleted r" using r(2) by (simp add: is_live_def)
    then obtain x where x: "map_option Info (fmlookup (files (g_store ?g')) (share, p)) = Some (Info x)" "\<not> fr_Deleted x"
      using scan_applied_rows [OF applied assms(2), of p] live f by (cases ?find) simp_all
    then obtain r' where "fmlookup (files (g_store ?g')) (share, p) = Some r'" "\<not> fr_Deleted r'"
      by (elim Info_eqD) simp
    with f r(2) show ?thesis by blast
  qed
qed

theorem scan_never_empties_share_witness:
  "\<exists>p r r'. fmlookup (files (g_store ex_two)) (''s'', p) = Some r \<and> is_live r \<and>
     fmlookup (files (g_store (so_guard (scanShareLocked ex_env ''s'' ex_two)))) (''s'', p) = Some r' \<and>
     \<not> fr_Deleted r'"
proof -
  have "fmlookup (g_held ex_two) (''s'', []) = None" "2 \<le> live_count ''s'' ex_two" by code_simp+
  then show ?thesis using scan_never_empties_share [OF ex_two_ok] by simp
qed

text \<open>
  What a scan records. While the node's own copy is held after a scan, the index, its
  journal and its sequence numbers are exactly as before. When a scan does change the
  content, the type or the deletion of a path, the new row carries the old version bumped
  once at this node (the empty version bumped, for a new path), so peers will see it as
  newer than what it replaces; every other path keeps its version.
\<close>

theorem scan_records_bumped_changes:
  fixes env share
  assumes "guard_ok g" "keys_ok (g_store g)"
  defines "g' \<equiv> so_guard (scanShareLocked env share g)"
  shows "(fmlookup (g_held g') (share, []) \<noteq> None \<longrightarrow> en_holdWrites env \<longrightarrow> index_of g' = index_of g) \<and>
         (\<forall>p r'. fmlookup (files (g_store g')) (share, p) = Some r' \<longrightarrow>
            (case fmlookup (files (g_store g)) (share, p) of
               None \<Rightarrow> fr_Version r' = Bump fmempty (en_nodeID env)
             | Some r \<Rightarrow> if same_content r' r
                         then fr_Version r' = fr_Version r \<or> fr_Version r' = Bump (fr_Version r) (en_nodeID env)
                         else fr_Version r' = Bump (fr_Version r) (en_nodeID env)))"
proof (cases "index_of g' = index_of g")
  case True
  then have "files (g_store g') = files (g_store g)" by (simp add: index_of_def)
  then show ?thesis using True by (simp add: same_content_def)
next
  case False
  let ?ex = "ListShareMap share (g_store g)" and ?n = "en_nodeID env"
  obtain res where ap: "scan_applied env share g res g'"
    using scanShareLocked_cases False g'_def by blast
  then have scan: "Scan (en_classes env) (en_ignore env) share ?ex (en_now env) (en_tree env) = Inr res"
    by (simp add: scan_applied_def)
  note carry = scan_rows_carry [OF scan share_map_facts(1) [OF assms(2)]]
  note rows = Scan_rows [OF scan share_map_facts [OF assms(2)]]
  have held: "fmlookup (g_held g') (share, []) = None" if "en_holdWrites env"
  proof -
    from ap obtain g1 rel s where
      "Guard_Scan (en_safety env) (en_now env) (en_holdWrites env) share ?ex res g = (g1, True, rel)" "g' = g1\<lparr>g_store := s\<rparr>"
      unfolding scan_applied_def by blast
    with that show ?thesis
      by (auto simp: Guard_Scan_def decide_eq Let_def split_beta clearLocked_lookup split: if_splits)
  qed
  have ver: "case fmlookup (files (g_store g)) (share, p) of
               None \<Rightarrow> fr_Version r' = Bump fmempty ?n
             | Some r \<Rightarrow> if same_content r' r
                         then fr_Version r' = fr_Version r \<or> fr_Version r' = Bump (fr_Version r) ?n
                         else fr_Version r' = Bump (fr_Version r) ?n"
    if r': "fmlookup (files (g_store g')) (share, p) = Some r'" for p r'
  proof -
    let ?old = "fmlookup (files (g_store g)) (share, p)"
    let ?find = "find (\<lambda>r. (fr_ShareID r, fr_RelPath r) = (share, p)) (rev (written (bump_result ?n res)))"
    have ex: "fmlookup ?ex p = ?old" using assms(2) by (simp add: ListShareMap_lookup)
    show ?thesis
    proof (cases ?find)
      case None
      then obtain r where r: "?old = Some r" "Info r' = Info r"
        using scan_applied_rows [OF ap assms(2), of p] r' by (cases ?old) auto
      then have "same_content r' r \<and> fr_Version r' = fr_Version r"
        unfolding same_content_def by (metis Info_sel)
      with r show ?thesis by simp
    next
      case (Some x)
      then have x: "x \<in> set (written (bump_result ?n res))" "fr_RelPath x = p"
        using find_mem [OF Some] by auto
      have i: "Info r' = Info x" using scan_applied_rows [OF ap assms(2), of p] r' Some by simp
      then have eq: "fr_Version r' = fr_Version x" "same_content r' x"
        unfolding same_content_def by (metis Info_sel)+
      from x(1) consider (touched) "x \<in> set (sc_MetadataOnly res)"
        | (bumped) y where "y \<in> set (sc_Added res) \<union> set (sc_ContentChanged res) \<union> set (sc_Deleted res)"
            "x = y\<lparr>fr_Version := Bump (fr_Version y) ?n\<rparr>"
        unfolding written_bumped by blast
      then show ?thesis
      proof cases
        case touched
        then obtain old where old: "?old = Some old" "same_content x old" using rows x(2) ex by metis
        moreover have "fr_Version x = fr_Version old"
          using carry(1) [of x] touched old x(2) ex by (simp add: carriedVersion_def)
        ultimately show ?thesis using eq by (auto simp: same_content_def)
      next
        case bumped
        then have "fr_Version y = carriedVersion ?old"
          using carry [of y] x(2) ex by (auto simp: carriedVersion_def)
        then show ?thesis using eq bumped(2) by (auto simp: carriedVersion_def split: option.split)
      qed
    qed
  qed
  show ?thesis
  proof (intro conjI allI impI)
    assume "fmlookup (g_held g') (share, []) \<noteq> None" "en_holdWrites env"
    with held show "index_of g' = index_of g" by simp
  qed (rule ver)
qed

definition ex_env_gone :: scan_env where
  "ex_env_gone = ex_env\<lparr>en_tree := Node ''.'' KDir (Inr \<lparr>fst_Size = 0, fst_MTimeNS = 0, fst_Perm = 0\<rparr>) (Inl OtherError) None []\<rparr>"

theorem scan_records_bumped_changes_witness:
  "index_of (so_guard (scanShareLocked ex_env_gone ''s'' ex_two)) = index_of ex_two"
proof -
  have "fmlookup (g_held (so_guard (scanShareLocked ex_env_gone ''s'' ex_two))) (''s'', []) \<noteq> None"
    "en_holdWrites ex_env_gone" by code_simp+
  then show ?thesis using scan_records_bumped_changes [OF ex_two_ok] by blast
qed

section \<open>The scan gate\<close>

text \<open>
  The gate of one share: \<open>mu\<close> (who scans), \<open>running\<close> and \<open>dirty\<close>. The background loop is
  at one of four points; each step is one critical section of the source. \<open>owed\<close> is not in
  the code: it records that a trigger has arrived that no scan has begun after.
\<close>

datatype loop_pc = LoopIdle | LoopWaits | LoopScans | LoopDone

datatype mu_holder = MuFree | MuLoop | MuCaller

record gate =
  ga_mu :: mu_holder
  ga_running :: bool
  ga_dirty :: bool
  ga_pc :: loop_pc
  ga_closed :: bool
  ga_owed :: bool

definition gate0 :: gate where
  "gate0 = \<lparr>ga_mu = MuFree, ga_running = False, ga_dirty = False, ga_pc = LoopIdle, ga_closed = False, ga_owed = False\<rparr>"

text \<open>\<open>rescanShareAsync\<close> up to the start of its goroutine, which \<open>goTracked\<close> refuses once
  the node is closing.\<close>

definition trigger_scan :: "bool \<Rightarrow> gate \<Rightarrow> gate" where
  "trigger_scan started g =
     (if ga_running g then g\<lparr>ga_dirty := True, ga_owed := True\<rparr>
      else if started then g\<lparr>ga_running := True, ga_pc := LoopWaits, ga_owed := True\<rparr>
      else g\<lparr>ga_running := False, ga_dirty := False, ga_owed := True\<rparr>)"

text \<open>The loop takes the gate and clears \<open>dirty\<close> before its scan reads the tree.\<close>

definition loop_lock :: "gate \<Rightarrow> gate" where
  "loop_lock g = g\<lparr>ga_mu := MuLoop, ga_dirty := False, ga_pc := LoopScans, ga_owed := False\<rparr>"

definition loop_unlock :: "gate \<Rightarrow> gate" where
  "loop_unlock g = g\<lparr>ga_mu := MuFree, ga_pc := LoopDone\<rparr>"

definition loop_check :: "gate \<Rightarrow> gate" where
  "loop_check g =
     (if \<not> ga_dirty g \<or> ga_closed g then g\<lparr>ga_running := False, ga_dirty := False, ga_pc := LoopIdle\<rparr>
      else g\<lparr>ga_pc := LoopWaits\<rparr>)"

inductive gate_step :: "gate \<Rightarrow> gate \<Rightarrow> bool" where
  trigger: "started \<longrightarrow> \<not> ga_closed g \<Longrightarrow> \<not> started \<longrightarrow> ga_closed g \<Longrightarrow> gate_step g (trigger_scan started g)"
| lock: "ga_pc g = LoopWaits \<Longrightarrow> ga_mu g = MuFree \<Longrightarrow> gate_step g (loop_lock g)"
| skip: "ga_pc g = LoopWaits \<Longrightarrow> ga_closed g \<Longrightarrow> gate_step g (g\<lparr>ga_pc := LoopDone\<rparr>)"
| unlock: "ga_pc g = LoopScans \<Longrightarrow> gate_step g (loop_unlock g)"
| check: "ga_pc g = LoopDone \<Longrightarrow> gate_step g (loop_check g)"
| caller_lock: "ga_mu g = MuFree \<Longrightarrow> gate_step g (g\<lparr>ga_mu := MuCaller, ga_owed := False\<rparr>)"
| caller_unlock: "ga_mu g = MuCaller \<Longrightarrow> gate_step g (g\<lparr>ga_mu := MuFree\<rparr>)"
| close: "gate_step g (g\<lparr>ga_closed := True\<rparr>)"

inductive_cases gate_stepE: "gate_step g g'"

definition gate_ok :: "gate \<Rightarrow> bool" where
  "gate_ok g \<longleftrightarrow>
     (ga_running g \<longleftrightarrow> ga_pc g \<noteq> LoopIdle) \<and>
     (ga_mu g = MuLoop \<longleftrightarrow> ga_pc g = LoopScans) \<and>
     (ga_owed g \<and> \<not> ga_closed g \<longrightarrow> ga_pc g = LoopWaits \<or> ga_dirty g \<and> ga_running g)"

lemma gate_step_ok: "gate_step g g' \<Longrightarrow> gate_ok g \<Longrightarrow> gate_ok g'"
  by (erule gate_stepE)
    (auto simp: gate_ok_def trigger_scan_def loop_lock_def loop_unlock_def loop_check_def)

interpretation scan_gate: kept_by_steps gate_step gate_ok
  by unfold_locales (rule gate_step_ok)

lemma gate_reachable_ok: "gate_step\<^sup>*\<^sup>* gate0 g \<Longrightarrow> gate_ok g"
  by (erule scan_gate.reachable) (simp add: gate0_def gate_ok_def)

text \<open>Steps of the loop alone, plus the caller letting go of the gate.\<close>

definition loop_move :: "gate \<Rightarrow> gate" where
  "loop_move g = (case ga_pc g of
       LoopIdle \<Rightarrow> g
     | LoopWaits \<Rightarrow> if ga_mu g = MuCaller then g\<lparr>ga_mu := MuFree\<rparr> else loop_lock g
     | LoopScans \<Rightarrow> loop_unlock g
     | LoopDone \<Rightarrow> loop_check g)"

definition scans_within :: "nat \<Rightarrow> gate \<Rightarrow> bool" where
  "scans_within k g \<longleftrightarrow>
     (\<exists>n \<le> k. gate_step\<^sup>*\<^sup>* g ((loop_move ^^ n) g) \<and> ga_pc ((loop_move ^^ n) g) = LoopScans \<and>
               \<not> ga_owed ((loop_move ^^ n) g))"

lemma scans_within_step:
  assumes "gate_step g (loop_move g)" "scans_within k (loop_move g)"
  shows "scans_within (Suc k) g"
proof -
  obtain n where n: "n \<le> k" "gate_step\<^sup>*\<^sup>* (loop_move g) ((loop_move ^^ n) (loop_move g))"
    "ga_pc ((loop_move ^^ n) (loop_move g)) = LoopScans" "\<not> ga_owed ((loop_move ^^ n) (loop_move g))"
    using assms(2) unfolding scans_within_def by blast
  have "(loop_move ^^ Suc n) g = (loop_move ^^ n) (loop_move g)" by (simp only: funpow_Suc_right comp_def)
  then show ?thesis
    unfolding scans_within_def using n assms(1)
    by (intro exI [of _ "Suc n"]) (simp add: converse_rtranclp_into_rtranclp del: funpow.simps)
qed

lemma scans_within_mono: "scans_within k g \<Longrightarrow> k \<le> l \<Longrightarrow> scans_within l g"
  unfolding scans_within_def by (meson order_trans)

lemma free_gate_scans:
  assumes "ga_pc g = LoopWaits" "ga_mu g = MuFree"
  shows "scans_within 1 g"
proof -
  have m: "loop_move g = loop_lock g" using assms by (simp add: loop_move_def)
  have "scans_within 0 (loop_lock g)" by (simp add: scans_within_def loop_lock_def)
  then show ?thesis
    using scans_within_step [of g 0] gate_step.lock [OF assms] by (simp add: m)
qed

lemma waiting_scans:
  assumes "ga_pc g = LoopWaits" "ga_mu g \<noteq> MuLoop"
  shows "scans_within 2 g"
proof (cases "ga_mu g")
  case MuFree
  with assms(1) show ?thesis using free_gate_scans scans_within_mono by fastforce
next
  case MuCaller
  then have m: "loop_move g = g\<lparr>ga_mu := MuFree\<rparr>" using assms by (simp add: loop_move_def)
  have "scans_within 1 (g\<lparr>ga_mu := MuFree\<rparr>)" using assms by (intro free_gate_scans) simp_all
  then show ?thesis
    using scans_within_step [of g 1] gate_step.caller_unlock [OF MuCaller] m by (simp add: numeral_2_eq_2)
qed (use assms in simp)

lemma dirty_done_scans:
  assumes "ga_pc g = LoopDone" "ga_dirty g" "\<not> ga_closed g" "ga_mu g \<noteq> MuLoop"
  shows "scans_within 3 g"
proof -
  have m: "loop_move g = g\<lparr>ga_pc := LoopWaits\<rparr>" "loop_check g = g\<lparr>ga_pc := LoopWaits\<rparr>"
    using assms by (simp_all add: loop_move_def loop_check_def)
  have "scans_within 2 (g\<lparr>ga_pc := LoopWaits\<rparr>)" using assms by (intro waiting_scans) simp_all
  then show ?thesis
    using scans_within_step [of g 2] gate_step.check [OF assms(1)] m by (simp add: numeral_3_eq_3 numeral_2_eq_2)
qed

lemma dirty_scanning_scans:
  assumes "ga_pc g = LoopScans" "ga_dirty g" "\<not> ga_closed g"
  shows "scans_within 4 g"
proof -
  have m: "loop_move g = loop_unlock g" using assms by (simp add: loop_move_def)
  have "scans_within 3 (loop_unlock g)" using assms by (intro dirty_done_scans) (simp_all add: loop_unlock_def)
  then show ?thesis
    using scans_within_step [of g 3] gate_step.unlock [OF assms(1)] m by simp
qed

text \<open>
  The scan gate. In every reachable state at most one of the background loop and the
  direct callers is scanning, and a trigger that no scan has begun after is never lost: as
  long as the node is open, the loop is about to scan or is marked dirty and running, and
  at most four steps of the loop (one of them a caller that finishes its own scan) begin a
  scan after the trigger.
\<close>

theorem scan_gate_keeps_triggers:
  assumes "gate_step\<^sup>*\<^sup>* gate0 g"
  shows "(ga_mu g = MuLoop \<longleftrightarrow> ga_pc g = LoopScans) \<and>
         (ga_owed g \<and> \<not> ga_closed g \<longrightarrow>
            (ga_pc g = LoopWaits \<or> ga_dirty g \<and> ga_running g) \<and> scans_within 4 g)"
proof (intro conjI impI)
  have ok: "gate_ok g" using assms by (rule gate_reachable_ok)
  then show mu: "ga_mu g = MuLoop \<longleftrightarrow> ga_pc g = LoopScans" by (simp add: gate_ok_def)
  assume o: "ga_owed g \<and> \<not> ga_closed g"
  with ok show w: "ga_pc g = LoopWaits \<or> ga_dirty g \<and> ga_running g" by (auto simp: gate_ok_def)
  have r: "ga_running g \<longleftrightarrow> ga_pc g \<noteq> LoopIdle" using ok by (simp add: gate_ok_def)
  show "scans_within 4 g"
  proof (cases "ga_pc g")
    case LoopWaits
    then show ?thesis using waiting_scans mu scans_within_mono by fastforce
  next
    case LoopScans
    then show ?thesis using dirty_scanning_scans w o by simp
  next
    case LoopDone
    then show ?thesis using dirty_done_scans [of g] w o mu scans_within_mono by fastforce
  qed (use w r in simp)
qed

theorem scan_gate_keeps_triggers_witness:
  "scans_within 4 (trigger_scan True (loop_lock (trigger_scan True gate0)))"
proof -
  let ?g1 = "trigger_scan True gate0"
  have "gate_step gate0 ?g1" by (rule gate_step.trigger) (simp_all add: gate0_def)
  moreover have "gate_step ?g1 (loop_lock ?g1)"
    by (rule gate_step.lock) (simp_all add: gate0_def trigger_scan_def)
  moreover have "gate_step (loop_lock ?g1) (trigger_scan True (loop_lock ?g1))"
    by (rule gate_step.trigger) (simp_all add: gate0_def trigger_scan_def loop_lock_def)
  ultimately have "gate_step\<^sup>*\<^sup>* gate0 (trigger_scan True (loop_lock ?g1))"
    by (meson r_into_rtranclp rtranclp_trans)
  then show ?thesis
    using scan_gate_keeps_triggers by (simp add: gate0_def trigger_scan_def loop_lock_def)
qed

end
