(* ===== verification/Frame.thy ===== *)
theory Frame
  imports Wire
begin

text \<open>
  The framing of \<^verbatim>\<open>internal/protocol/message.go\<close>: a 4-byte big-endian length, a type
  byte and a payload. \<open>encodeFrame\<close> builds a frame, \<open>Reader_ReadFrame\<close> takes one frame off
  the front of everything the peer will ever send (the list is the whole rest of the
  stream, so its end is the close of the connection).

  The CBOR codec is a third-party package: \<open>cbor.Marshal\<close> and the streaming decoder with
  its \<open>NumBytesRead\<close> are arguments of the definitions that call them, and what the code
  relies on (an encoded item is self-delimiting) is a hypothesis of the theorems.
\<close>

section \<open>Message types\<close>

type_synonym MsgType = byte

definition MsgHello :: MsgType where "MsgHello = 1"
definition MsgAuth :: MsgType where "MsgAuth = 2"
definition MsgShareList :: MsgType where "MsgShareList = 3"
definition MsgSubscribeRequest :: MsgType where "MsgSubscribeRequest = 4"
definition MsgAccessUpdate :: MsgType where "MsgAccessUpdate = 5"
definition MsgIndexUpdate :: MsgType where "MsgIndexUpdate = 6"
definition MsgFileRequest :: MsgType where "MsgFileRequest = 7"
definition MsgFileChunk :: MsgType where "MsgFileChunk = 8"
definition MsgPing :: MsgType where "MsgPing = 9"
definition MsgPong :: MsgType where "MsgPong = 10"
definition MsgError :: MsgType where "MsgError = 11"
definition MsgFinished :: MsgType where "MsgFinished = 12"
definition MsgIndexSyncRequest :: MsgType where "MsgIndexSyncRequest = 13"
definition MsgIndexSnapshotBegin :: MsgType where "MsgIndexSnapshotBegin = 14"
definition MsgIndexSnapshotBatch :: MsgType where "MsgIndexSnapshotBatch = 15"
definition MsgIndexSnapshotEnd :: MsgType where "MsgIndexSnapshotEnd = 16"
definition MsgIndexDeltaBatch :: MsgType where "MsgIndexDeltaBatch = 17"
definition MsgIndexAck :: MsgType where "MsgIndexAck = 18"
definition MsgCancelTransfer :: MsgType where "MsgCancelTransfer = 19"

lemmas MsgType_defs = MsgHello_def MsgAuth_def MsgShareList_def MsgSubscribeRequest_def
  MsgAccessUpdate_def MsgIndexUpdate_def MsgFileRequest_def MsgFileChunk_def MsgPing_def
  MsgPong_def MsgError_def MsgFinished_def MsgIndexSyncRequest_def MsgIndexSnapshotBegin_def
  MsgIndexSnapshotBatch_def MsgIndexSnapshotEnd_def MsgIndexDeltaBatch_def MsgIndexAck_def
  MsgCancelTransfer_def

section \<open>Frames\<close>

definition frameLenSize :: nat where "frameLenSize = 4"
definition MaxFrameSize :: nat where "MaxFrameSize = 4194304"
definition MaxFileChunkData :: nat where "MaxFileChunkData = 1048576"
definition TargetIndexBatchSize :: nat where "TargetIndexBatchSize = 3145728"

text \<open>\<open>binary.BigEndian\<close>'s \<open>PutUint32\<close> and \<open>Uint32\<close>.\<close>

definition put_uint32 :: "32 word \<Rightarrow> bytes" where
  "put_uint32 w = [ucast (drop_bit 24 w), ucast (drop_bit 16 w), ucast (drop_bit 8 w), ucast w]"

fun get_uint32 :: "bytes \<Rightarrow> 32 word" where
  "get_uint32 (a # b # c # d # _) =
     push_bit 24 (ucast a) OR push_bit 16 (ucast b) OR push_bit 8 (ucast c) OR ucast d"
| "get_uint32 _ = 0"

lemma get_put_uint32 [simp]: "get_uint32 (put_uint32 w) = w"
proof (rule bit_word_eqI)
  fix n :: nat
  assume "n < LENGTH(32)"
  then consider "n < 8" | "8 \<le> n" "n < 16" | "16 \<le> n" "n < 24" | "24 \<le> n" "n < 32"
    by (simp add: not_le [symmetric]) linarith
  then show "bit (get_uint32 (put_uint32 w)) n \<longleftrightarrow> bit w n"
    by cases (auto simp: put_uint32_def bit_simps)
qed

lemma length_put_uint32 [simp]: "length (put_uint32 w) = 4"
  by (simp add: put_uint32_def)

lemma put_get_uint32:
  assumes "length b = 4"
  shows "put_uint32 (get_uint32 b) = b"
proof -
  obtain x y z w where b: "b = [x, y, z, w]"
    using assms by (auto simp: length_Suc_conv eval_nat_numeral)
  show ?thesis
    unfolding b put_uint32_def get_uint32.simps
    by (simp only: list.inject, intro conjI refl; rule bit_word_eqI) (auto simp: bit_simps dest: bit_imp_le_length)
qed

datatype io_err = IO_EOF | IO_UnexpectedEOF

datatype frame_err =
    BodyTooLong nat
  | StreamEOF
  | HeaderRead io_err
  | ZeroLengthFrame
  | DeclaredTooLong nat
  | BodyRead nat io_err
  | ChunkDataTooLong nat
  | CborEncode
  | CborDecode
  | HeaderConsumedInvalid int
  | InvalidChunkHeader wire_err
  | InvalidMessage wire_err

definition encodeFrame :: "MsgType \<Rightarrow> bytes \<Rightarrow> frame_err + bytes" where
  "encodeFrame typ payload =
     (let bodyLen = 1 + length payload in
      if bodyLen > MaxFrameSize then Inl (BodyTooLong bodyLen)
      else Inr (put_uint32 (of_nat bodyLen) @ typ # payload))"

text \<open>
  \<open>io.ReadFull\<close> of \<open>n\<close> bytes: \<open>EOF\<close> when the stream ends before the first byte,
  \<open>ErrUnexpectedEOF\<close> when it ends later.
\<close>

definition read_full :: "nat \<Rightarrow> bytes \<Rightarrow> io_err + (bytes \<times> bytes)" where
  "read_full n s =
     (if n \<le> length s then Inr (take n s, drop n s)
      else if s = [] then Inl IO_EOF
      else Inl IO_UnexpectedEOF)"

definition Reader_ReadFrame :: "bytes \<Rightarrow> frame_err + (MsgType \<times> bytes) \<times> bytes" where
  "Reader_ReadFrame s =
     (case read_full frameLenSize s of
        Inl IO_EOF \<Rightarrow> Inl StreamEOF
      | Inl e \<Rightarrow> Inl (HeaderRead e)
      | Inr (lenBuf, s1) \<Rightarrow>
         let bodyLen = unat (get_uint32 lenBuf) in
         if bodyLen = 0 then Inl ZeroLengthFrame
         else if bodyLen > MaxFrameSize then Inl (DeclaredTooLong bodyLen)
         else (case read_full bodyLen s1 of
                 Inl e \<Rightarrow> Inl (BodyRead bodyLen e)
               | Inr (body, s2) \<Rightarrow> Inr ((hd body, tl body), s2)))"

text \<open>The loop every connection runs: frames until the stream ends or a frame is refused.\<close>

fun read_frames :: "nat \<Rightarrow> bytes \<Rightarrow> (MsgType \<times> bytes) list \<times> frame_err" where
  "read_frames 0 s = ([], StreamEOF)"
| "read_frames (Suc n) s =
     (case Reader_ReadFrame s of
        Inl e \<Rightarrow> ([], e)
      | Inr (f, s') \<Rightarrow> (case read_frames n s' of (fs, e) \<Rightarrow> (f # fs, e)))"

section \<open>File chunks\<close>

definition encodeFileChunk ::
  "('h \<Rightarrow> bytes option) \<Rightarrow> 'h \<Rightarrow> bytes \<Rightarrow> frame_err + bytes" where
  "encodeFileChunk marshal hdr payload_data =
     (if length payload_data > MaxFileChunkData then Inl (ChunkDataTooLong (length payload_data))
      else case marshal hdr of
             None \<Rightarrow> Inl CborEncode
           | Some hdrBytes \<Rightarrow> Inr (hdrBytes @ payload_data))"

definition DecodeFileChunk ::
  "(bytes \<Rightarrow> (FileChunkHeader \<times> int) option) \<Rightarrow> bytes \<Rightarrow> frame_err + FileChunkHeader \<times> bytes" where
  "DecodeFileChunk decode payload =
     (case decode payload of
        None \<Rightarrow> Inl CborDecode
      | Some (hdr, n) \<Rightarrow>
         if n < 0 \<or> n > int (length payload) then Inl (HeaderConsumedInvalid n)
         else let data = drop (nat n) payload in
              if length data > MaxFileChunkData then Inl (ChunkDataTooLong (length data))
              else case validateFileChunkHeader hdr of
                     Some e \<Rightarrow> Inl (InvalidChunkHeader e)
                   | None \<Rightarrow> Inr (hdr, data))"

definition DecodeAndValidateMessage ::
  "(bytes \<Rightarrow> message option) \<Rightarrow> bytes \<Rightarrow> frame_err + message" where
  "DecodeAndValidateMessage unmarshal payload =
     (case unmarshal payload of
        None \<Rightarrow> Inl CborDecode
      | Some v \<Rightarrow> (case ValidateMessage v of
                     Some e \<Rightarrow> Inl (InvalidMessage e)
                   | None \<Rightarrow> Inr v))"

definition EncodedMessageSize :: "('m \<Rightarrow> bytes option) \<Rightarrow> 'm \<Rightarrow> frame_err + nat" where
  "EncodedMessageSize marshal v =
     (case marshal v of None \<Rightarrow> Inl CborEncode | Some b \<Rightarrow> Inr (length b))"

section \<open>Round trips\<close>

lemma encodeFrame_shape:
  "encodeFrame t p = Inr b \<longleftrightarrow> length p < MaxFrameSize \<and> b = put_uint32 (of_nat (1 + length p)) @ t # p"
  by (auto simp: encodeFrame_def Let_def)

lemma body_len_word:
  assumes "n \<le> MaxFrameSize"
  shows "unat (of_nat n :: 32 word) = n"
proof -
  have "n < 2 ^ 32" using assms by (simp add: MaxFrameSize_def)
  then show ?thesis by (simp add: unat_of_nat take_bit_eq_mod)
qed

lemma ReadFrame_encoded:
  assumes "encodeFrame t p = Inr b"
  shows "Reader_ReadFrame (b @ rest) = Inr ((t, p), rest)"
proof -
  let ?n = "1 + length p"
  have n: "?n \<le> MaxFrameSize" and b: "b = put_uint32 (of_nat ?n) @ t # p"
    using assms by (simp_all add: encodeFrame_shape)
  have h: "read_full frameLenSize (b @ rest) = Inr (put_uint32 (of_nat ?n), t # p @ rest)"
    by (simp add: read_full_def frameLenSize_def b)
  have r: "read_full ?n (t # p @ rest) = Inr (t # p, rest)"
    by (simp add: read_full_def)
  show ?thesis
    unfolding Reader_ReadFrame_def h using n r by (simp add: body_len_word del: of_nat_Suc of_nat_add)
qed

lemma ReadFrame_nil [simp]: "Reader_ReadFrame [] = Inl StreamEOF"
  by (simp add: Reader_ReadFrame_def read_full_def frameLenSize_def)

text \<open>
  C19. Frames survive the wire: whatever sequence of frames is encoded and concatenated, the
  reader returns exactly those types and payloads, in order, and then a clean end of
  stream. One more read than there are frames is enough.
\<close>

theorem frames_round_trip:
  assumes "list_all2 (\<lambda>(t, p) b. encodeFrame t p = Inr b) fs bs"
  shows "read_frames (Suc (length fs)) (concat bs) = (fs, StreamEOF)"
  using assms
proof (induction rule: list_all2_induct)
  case (Cons f fs b bs)
  obtain t p where f: "f = (t, p)" by force
  show ?case using Cons by (simp add: f ReadFrame_encoded)
qed simp

theorem frames_round_trip_witness:
  "read_frames (Suc 2) (concat [[0, 0, 0, 1, 9], [0, 0, 0, 3, 11, 7, 8]])
     = ([(9, []), (11, [7, 8])], StreamEOF)"
proof -
  have "encodeFrame 9 [] = Inr [0, 0, 0, 1, 9]" "encodeFrame 11 [7, 8] = Inr [0, 0, 0, 3, 11, 7, 8]"
    by (simp_all add: encodeFrame_def MaxFrameSize_def put_uint32_def)
  then have "list_all2 (\<lambda>(t, p) b. encodeFrame t p = Inr b)
               [(9, []), (11, [7, 8])] [[0, 0, 0, 1, 9], [0, 0, 0, 3, 11, 7, 8]]"
    by simp
  from frames_round_trip [OF this] show ?thesis
    by (simp only: list.size numeral_2_eq_2 add_0_right add_Suc_right One_nat_def)
qed

text \<open>
  A hostile length prefix never makes the reader accept or buffer an oversized body:
  a frame it returns has a payload shorter than 4 MiB, the bytes consumed are exactly the
  header and that body, and a prefix of 0 or above 4 MiB is an error no matter what
  follows.
\<close>

theorem read_frame_bounded:
  "case Reader_ReadFrame s of
     Inr ((t, p), rest) \<Rightarrow> length p < MaxFrameSize \<and> encodeFrame t p = Inr (take (5 + length p) s) \<and>
                           s = take (5 + length p) s @ rest
   | Inl (DeclaredTooLong n) \<Rightarrow> MaxFrameSize < n \<and> n = unat (get_uint32 (take 4 s))
   | Inl (BodyRead n e) \<Rightarrow> n \<le> MaxFrameSize \<and> length s < 4 + n
   | Inl e \<Rightarrow> e = StreamEOF \<and> s = [] \<or> e = HeaderRead IO_UnexpectedEOF \<and> length s < 4 \<or>
              e = ZeroLengthFrame \<and> get_uint32 (take 4 s) = 0"
proof (cases "length s < 4")
  case True
  then show ?thesis by (simp add: Reader_ReadFrame_def read_full_def frameLenSize_def)
next
  case False
  define n where "n = unat (get_uint32 (take 4 s))"
  have h: "read_full frameLenSize s = Inr (take 4 s, drop 4 s)"
    using False by (simp add: read_full_def frameLenSize_def)
  show ?thesis
  proof (cases "n = 0 \<or> MaxFrameSize < n \<or> length s < 4 + n")
    case True
    then consider "n = 0" | "n \<noteq> 0" "MaxFrameSize < n"
      | "n \<noteq> 0" "\<not> MaxFrameSize < n" "length s < 4 + n" by blast
    then show ?thesis
    proof cases
      case 1
      then show ?thesis by (simp add: Reader_ReadFrame_def h n_def unat_eq_0)
    next
      case 2
      then show ?thesis by (simp add: Reader_ReadFrame_def h n_def [symmetric])
    next
      case 3
      have "\<not> n \<le> length (drop 4 s)" using 3 False by simp
      then obtain e where e: "read_full n (drop 4 s) = Inl e"
        by (cases "length s \<le> 4") (auto simp: read_full_def)
      have "Reader_ReadFrame s = Inl (BodyRead n e)"
        using 3 e by (simp add: Reader_ReadFrame_def h n_def [symmetric])
      with 3 show ?thesis by simp
    qed
  next
    case ok: False
    then have n: "0 < n" "n \<le> MaxFrameSize" "n \<le> length (drop 4 s)" by auto
    obtain t p where tp: "take n (drop 4 s) = t # p" "length p + 1 = n"
      using n by (metis Suc_eq_plus1 length_Suc_conv length_take min.absorb2 gr0_implies_Suc)
    have "read_full n (drop 4 s) = Inr (t # p, drop n (drop 4 s))"
      using n tp(1) by (simp add: read_full_def)
    then have "Reader_ReadFrame s = Inr ((t, p), drop n (drop 4 s))"
      using n by (simp add: Reader_ReadFrame_def h n_def [symmetric])
    moreover have "take (5 + length p) s = take 4 s @ t # p"
    proof -
      have "5 + length p = 4 + n" using tp(2) by simp
      then show ?thesis using tp(1) by (metis take_add)
    qed
    moreover have "put_uint32 (of_nat n) = take 4 s"
      using False by (simp add: n_def put_get_uint32)
    moreover have "s = take 4 s @ take n (drop 4 s) @ drop n (drop 4 s)"
      by (simp only: append_take_drop_id)
    moreover have "length p < MaxFrameSize" "of_nat (1 + length p) = (of_nat n :: 32 word)"
      using n tp(2) by auto
    ultimately show ?thesis using tp(1) by (simp add: encodeFrame_shape del: of_nat_add drop_drop)
  qed
qed

text \<open>
  A close right after a frame's length header is reported as \<^verbatim>\<open>io.EOF\<close>, not as
  \<^verbatim>\<open>io.ErrUnexpectedEOF\<close>: only a close inside the header or after at least one byte of the
  body is.
\<close>

theorem close_mid_frame:
  assumes "encodeFrame t p = Inr b" "0 < k" "k < length b"
  shows "Reader_ReadFrame (take k b) =
           Inl (if k < 4 then HeaderRead IO_UnexpectedEOF
                else BodyRead (1 + length p) (if k = 4 then IO_EOF else IO_UnexpectedEOF))"
proof (cases "k < 4")
  case True
  moreover have "b \<noteq> []" using assms(3) by auto
  ultimately show ?thesis
    using assms by (simp add: Reader_ReadFrame_def read_full_def frameLenSize_def)
next
  case False
  define w :: "32 word" where "w = of_nat (1 + length p)"
  have b: "b = put_uint32 w @ t # p" and n: "1 + length p \<le> MaxFrameSize" and w: "unat w = 1 + length p"
    using assms(1) body_len_word [of "1 + length p"] by (simp_all add: encodeFrame_shape w_def)
  have tk: "take k b = put_uint32 w @ take (k - 4) (t # p)" and k: "k - 4 < 1 + length p"
    using False assms(3) by (simp_all add: b)
  have h: "read_full frameLenSize (take k b) = Inr (put_uint32 w, take (k - 4) (t # p))"
    using tk by (simp add: read_full_def frameLenSize_def)
  have r: "read_full (1 + length p) (take (k - 4) (t # p)) = Inl (if k = 4 then IO_EOF else IO_UnexpectedEOF)"
    using k False by (simp add: read_full_def)
  show ?thesis
    unfolding Reader_ReadFrame_def h using False n r by (simp add: w del: One_nat_def)
qed

theorem close_mid_frame_witness: "Reader_ReadFrame [0, 0, 0, 1] = Inl (BodyRead 1 IO_EOF)"
proof -
  have "encodeFrame 9 [] = Inr [0, 0, 0, 1, 9]"
    by (simp add: encodeFrame_def MaxFrameSize_def put_uint32_def)
  from close_mid_frame [OF this, of 4] show ?thesis by simp
qed

text \<open>
  A file chunk survives the wire: decoding what \<^verbatim>\<open>encodeFileChunk\<close> built gives back the
  header and exactly the data bytes, for every header that validation accepts. The
  hypothesis on the CBOR decoder is that it returns the header and the length of its
  encoding whatever bytes follow.
\<close>

theorem file_chunk_round_trip:
  assumes "encodeFileChunk marshal h d = Inr payload"
    and "validateFileChunkHeader h = ok"
    and "\<And>hb rest. marshal h = Some hb \<Longrightarrow> decode (hb @ rest) = Some (h, int (length hb))"
  shows "DecodeFileChunk decode payload = Inr (h, d)"
proof -
  obtain hb where hb: "marshal h = Some hb" and p: "payload = hb @ d" and d: "length d \<le> MaxFileChunkData"
    using assms(1) by (auto simp: encodeFileChunk_def split: if_splits option.splits)
  show ?thesis
    using assms(2) assms(3) [OF hb, of d] d by (simp add: DecodeFileChunk_def p)
qed

definition ex_chunk :: FileChunkHeader where
  "ex_chunk = \<lparr> ch_TransferID = replicate 32 CHR ''0'', ch_ShareID = ''s'', ch_RelPath = ''a.txt'',
     ch_Version = fmempty, ch_Offset = 0, ch_EOF = True \<rparr>"

theorem file_chunk_round_trip_witness:
  "DecodeFileChunk (\<lambda>b. if b \<noteq> [] \<and> hd b = 0xA0 then Some (ex_chunk, 1) else None) [0xA0, 1, 2]
     = Inr (ex_chunk, [1, 2])"
proof (rule file_chunk_round_trip)
  show "encodeFileChunk (\<lambda>h. Some [0xA0]) ex_chunk [1, 2] = Inr [0xA0, 1, 2]"
    by (simp add: encodeFileChunk_def MaxFileChunkData_def)
  show "validateFileChunkHeader ex_chunk = ok" by code_simp
qed auto

end
