(* ===== verification/SessionWriter.thy ===== *)
theory SessionWriter
  imports Frame
begin

text \<open>
  The session writer of \<^verbatim>\<open>internal/protocol/stream.go\<close>: one goroutine fed by an urgent, an
  ordered control, a latest-state and a bulk lane. The record \<open>StreamWriter\<close> holds the
  struct's fields; \<open>writer_run\<close> adds the local state of \<open>run\<close> (where it is, its burst
  counter, the key it has just received) and history variables, which are not in the code.
  A channel is the list of what it holds, oldest first. A \<open>select\<close> is the list of the
  cases that are ready, so that every choice the runtime may make is a step. Callbacks
  (\<open>onWritten\<close>, the observer), the clock and the byte counters are not modelled.

  The results: lanes keep their order on the wire, a waiting bulk frame is passed by at
  most eight control frames, the latest lane never leaves stale state behind, the queues
  stay within their bounds, and a failed writer writes nothing more.
\<close>

section \<open>State\<close>

definition urgentQueueDepth :: nat where "urgentQueueDepth = 8"
definition ctrlQueueDepth :: nat where "ctrlQueueDepth = 64"
definition dataQueueDepth :: nat where "dataQueueDepth = 4"
definition maxControlBurst :: nat where "maxControlBurst = 8"

record queuedFrame =
  qf_typ :: MsgType
  qf_data :: bytes

datatype streamWriterState = streamWriterNew | streamWriterRunning | streamWriterClosed

datatype stream_err =
    ErrWriterClosed
  | ErrWriterNotStarted
  | ErrWriterAlreadyStarted
  | UrgentQueueFull
  | NoUnderlyingWriter
  | SetDeadlineFailed
  | WriteFailed
  | CtxDone

record StreamWriter =
  sw_hasConn :: bool
  sw_hasWriter :: bool
  sw_urgent :: "queuedFrame list"
  sw_ctrl :: "queuedFrame list"
  sw_latest :: "string list"
  sw_data :: "queuedFrame list"
  sw_latestFrames :: "(string, queuedFrame) fmap"
  sw_latestReplaced :: "64 word"
  sw_framesWritten :: "64 word"
  sw_urgentWritten :: "64 word"
  sw_controlWritten :: "64 word"
  sw_bulkWritten :: "64 word"
  sw_writeFailures :: "64 word"
  sw_writeTimeouts :: "64 word"
  sw_state :: streamWriterState
  sw_wasStarted :: bool
  sw_stop :: bool
  sw_connClosed :: bool
  sw_err :: "stream_err option"

definition NewStreamWriter :: "bool \<Rightarrow> StreamWriter" where
  "NewStreamWriter conn = \<lparr>sw_hasConn = conn, sw_hasWriter = conn, sw_urgent = [], sw_ctrl = [], sw_latest = [],
     sw_data = [], sw_latestFrames = fmempty, sw_latestReplaced = 0, sw_framesWritten = 0, sw_urgentWritten = 0,
     sw_controlWritten = 0, sw_bulkWritten = 0, sw_writeFailures = 0, sw_writeTimeouts = 0,
     sw_state = streamWriterNew, sw_wasStarted = False, sw_stop = False, sw_connClosed = False, sw_err = None\<rparr>"

definition isUrgent :: "MsgType \<Rightarrow> bool" where
  "isUrgent typ \<longleftrightarrow> typ = MsgPong \<or> typ = MsgError"

definition isBulk :: "MsgType \<Rightarrow> bool" where
  "isBulk typ \<longleftrightarrow> typ = MsgFileChunk \<or> typ = MsgIndexUpdate \<or> typ = MsgIndexSnapshotBegin \<or>
     typ = MsgIndexSnapshotBatch \<or> typ = MsgIndexSnapshotEnd \<or> typ = MsgIndexDeltaBatch"

section \<open>Starting, failing and closing\<close>

definition Start :: "'a StreamWriter_scheme \<Rightarrow> stream_err err \<times> 'a StreamWriter_scheme" where
  "Start s = (case sw_state s of
       streamWriterRunning \<Rightarrow> (Some ErrWriterAlreadyStarted, s)
     | streamWriterClosed \<Rightarrow> (Some ErrWriterClosed, s)
     | streamWriterNew \<Rightarrow> (ok, s\<lparr>sw_state := streamWriterRunning, sw_wasStarted := True\<rparr>))"

definition Close :: "'a StreamWriter_scheme \<Rightarrow> 'a StreamWriter_scheme" where
  "Close s = s\<lparr>sw_state := streamWriterClosed, sw_stop := True\<rparr>"

definition fail :: "stream_err \<Rightarrow> 'a StreamWriter_scheme \<Rightarrow> 'a StreamWriter_scheme" where
  "fail e s = s\<lparr>sw_err := (case sw_err s of None \<Rightarrow> Some e | Some e0 \<Rightarrow> Some e0), sw_stop := True,
     sw_connClosed := (sw_connClosed s \<or> sw_hasConn s)\<rparr>"

definition errOrClosed :: "'a StreamWriter_scheme \<Rightarrow> stream_err" where
  "errOrClosed s = (case sw_err s of Some e \<Rightarrow> e | None \<Rightarrow> ErrWriterClosed)"

section \<open>Queueing\<close>

text \<open>The checks both \<open>enqueue\<close> and \<open>enqueueLatest\<close> make first.\<close>

definition enqueue_check :: "'a StreamWriter_scheme \<Rightarrow> stream_err err" where
  "enqueue_check s = (case sw_err s of
       Some e \<Rightarrow> Some e
     | None \<Rightarrow> (case sw_state s of
                  streamWriterNew \<Rightarrow> Some ErrWriterNotStarted
                | streamWriterClosed \<Rightarrow> Some (errOrClosed s)
                | streamWriterRunning \<Rightarrow> ok))"

text \<open>The outcomes the \<open>select\<close> of \<open>enqueue\<close> may have, given whether the context is done; no
  outcome means that the caller waits.\<close>

definition enqueue ::
  "bool \<Rightarrow> queuedFrame \<Rightarrow> 'a StreamWriter_scheme \<Rightarrow> (stream_err err \<times> 'a StreamWriter_scheme) list" where
  "enqueue ctxDone q s =
     (let stopped = (if sw_stop s then [(Some (errOrClosed s), s)] else []);
          cancelled = (if ctxDone then [(Some CtxDone, s)] else [])
      in if isBulk (qf_typ q) then
           (if length (sw_data s) < dataQueueDepth then [(ok, s\<lparr>sw_data := sw_data s @ [q]\<rparr>)] else []) @
           cancelled @ stopped
         else if isUrgent (qf_typ q) then
           (let ready = (if length (sw_urgent s) < urgentQueueDepth
                         then [(ok, s\<lparr>sw_urgent := sw_urgent s @ [q]\<rparr>)] else []) @ stopped
            in if ready = [] then [(Some UrgentQueueFull, fail UrgentQueueFull s)] else ready)
         else
           (if length (sw_ctrl s) < ctrlQueueDepth then [(ok, s\<lparr>sw_ctrl := sw_ctrl s @ [q]\<rparr>)] else []) @
           cancelled @ stopped)"

definition enqueueLatest ::
  "bool \<Rightarrow> string \<Rightarrow> queuedFrame \<Rightarrow> 'a StreamWriter_scheme \<Rightarrow> (stream_err err \<times> 'a StreamWriter_scheme) list" where
  "enqueueLatest ctxDone key q s =
     (if fmlookup (sw_latestFrames s) key \<noteq> None then
        [(ok, s\<lparr>sw_latestFrames := fmupd key q (sw_latestFrames s), sw_latestReplaced := sw_latestReplaced s + 1\<rparr>)]
      else
        (if length (sw_latest s) < ctrlQueueDepth
         then [(ok, s\<lparr>sw_latestFrames := fmupd key q (sw_latestFrames s), sw_latest := sw_latest s @ [key]\<rparr>)] else []) @
        (if ctxDone then [(Some CtxDone, s)] else []) @
        (if sw_stop s then [(Some (errOrClosed s), s)] else []))"

definition popLatest :: "string \<Rightarrow> 'a StreamWriter_scheme \<Rightarrow> queuedFrame option \<times> 'a StreamWriter_scheme" where
  "popLatest key s = (fmlookup (sw_latestFrames s) key, s\<lparr>sw_latestFrames := fmdrop key (sw_latestFrames s)\<rparr>)"

section \<open>Writing\<close>

text \<open>What the connection does with one frame. A closed connection accepts none.\<close>

datatype write_outcome = WriteOK | DeadlineErr | WriteErr bool

definition writeFrame ::
  "write_outcome \<Rightarrow> queuedFrame \<Rightarrow> 'a StreamWriter_scheme \<Rightarrow> bool \<times> 'a StreamWriter_scheme" where
  "writeFrame w q s =
     (if \<not> sw_hasWriter s then (False, fail NoUnderlyingWriter (s\<lparr>sw_writeFailures := sw_writeFailures s + 1\<rparr>))
      else case w of
        DeadlineErr \<Rightarrow>
          (False, fail SetDeadlineFailed (s\<lparr>sw_writeFailures := sw_writeFailures s + 1\<rparr>))
      | WriteErr timeout \<Rightarrow>
          (False, fail WriteFailed (s\<lparr>sw_writeFailures := sw_writeFailures s + 1,
             sw_writeTimeouts := (if timeout then sw_writeTimeouts s + 1 else sw_writeTimeouts s)\<rparr>))
      | WriteOK \<Rightarrow>
          (True, if isUrgent (qf_typ q)
                 then s\<lparr>sw_framesWritten := sw_framesWritten s + 1, sw_urgentWritten := sw_urgentWritten s + 1\<rparr>
                 else if isBulk (qf_typ q)
                 then s\<lparr>sw_framesWritten := sw_framesWritten s + 1, sw_bulkWritten := sw_bulkWritten s + 1\<rparr>
                 else s\<lparr>sw_framesWritten := sw_framesWritten s + 1, sw_controlWritten := sw_controlWritten s + 1\<rparr>))"

section \<open>The writer goroutine\<close>

text \<open>
  \<open>run\<close> is at the top of its loop, at the burst check, in the main \<open>select\<close>, between
  receiving a key and \<open>popLatest\<close>, or has returned. The history variables: the frames
  each lane accepted, the frames written with the lane they came from, the newest frame
  accepted and the last one written for each latest-state key, and how many control frames
  were written since a bulk frame has been waiting.
\<close>

datatype run_pc = AtTop | AtBurst | AtSelect | AtPop string | Returned

datatype lane = Urgent | Control | Latest string | Bulk

record writer_run = StreamWriter +
  wr_pc :: run_pc
  wr_burst :: nat
  gh_sent :: "lane \<Rightarrow> queuedFrame list"
  gh_wire :: "(lane \<times> queuedFrame) list"
  gh_newest :: "(string, queuedFrame) fmap"
  gh_written :: "(string, queuedFrame) fmap"
  gh_passed :: nat

definition start_run :: "bool \<Rightarrow> writer_run" where
  "start_run conn = StreamWriter.extend (NewStreamWriter conn)
     (writer_run.fields AtTop 0 (\<lambda>_. []) [] fmempty fmempty 0)"

text \<open>Write a frame taken from a lane; on failure \<open>run\<close> returns.\<close>

definition deliver :: "write_outcome \<Rightarrow> lane \<Rightarrow> queuedFrame \<Rightarrow> nat \<Rightarrow> writer_run \<Rightarrow> writer_run" where
  "deliver w l q burst' s =
     (let (keep, s1) = writeFrame w q s in
      if \<not> keep then s1\<lparr>wr_pc := Returned\<rparr>
      else s1\<lparr>wr_pc := AtTop, wr_burst := burst', gh_wire := gh_wire s1 @ [(l, q)],
              gh_written := (case l of Latest key \<Rightarrow> fmupd key q (gh_written s1) | _ \<Rightarrow> gh_written s1),
              gh_passed := (if l = Urgent then gh_passed s1
                            else if l = Bulk then 0
                            else if sw_data s1 = [] then 0 else Suc (gh_passed s1))\<rparr>)"

definition take_urgent :: "write_outcome \<Rightarrow> writer_run \<Rightarrow> writer_run" where
  "take_urgent w s = deliver w Urgent (hd (sw_urgent s)) (wr_burst s) (s\<lparr>sw_urgent := tl (sw_urgent s)\<rparr>)"

definition take_ctrl :: "write_outcome \<Rightarrow> writer_run \<Rightarrow> writer_run" where
  "take_ctrl w s = deliver w Control (hd (sw_ctrl s)) (Suc (wr_burst s)) (s\<lparr>sw_ctrl := tl (sw_ctrl s)\<rparr>)"

definition take_data :: "write_outcome \<Rightarrow> writer_run \<Rightarrow> writer_run" where
  "take_data w s = deliver w Bulk (hd (sw_data s)) 0 (s\<lparr>sw_data := tl (sw_data s)\<rparr>)"

definition take_latest :: "writer_run \<Rightarrow> writer_run" where
  "take_latest s = s\<lparr>wr_pc := AtPop (hd (sw_latest s)), sw_latest := tl (sw_latest s)\<rparr>"

definition finish_pop :: "write_outcome \<Rightarrow> string \<Rightarrow> writer_run \<Rightarrow> writer_run" where
  "finish_pop w key s =
     (case popLatest key s of
        (None, s1) \<Rightarrow> s1\<lparr>wr_pc := AtTop\<rparr>
      | (Some q, s1) \<Rightarrow> deliver w (Latest key) q (Suc (wr_burst s1)) s1)"

text \<open>Accepting a frame, with the history that goes with it.\<close>

definition lane_of :: "queuedFrame \<Rightarrow> lane" where
  "lane_of q = (if isBulk (qf_typ q) then Bulk else if isUrgent (qf_typ q) then Urgent else Control)"

definition accept :: "lane \<Rightarrow> queuedFrame \<Rightarrow> writer_run \<Rightarrow> writer_run" where
  "accept l q s = s\<lparr>gh_sent := (gh_sent s)(l := gh_sent s l @ [q]),
     gh_newest := (case l of Latest key \<Rightarrow> fmupd key q (gh_newest s) | _ \<Rightarrow> gh_newest s)\<rparr>"

inductive stream_step :: "writer_run \<Rightarrow> writer_run \<Rightarrow> bool" where
  start: "Start s = (ok, s') \<Longrightarrow> stream_step s s'"
| close: "stream_step s (Close s)"
| enq: "sw_state s \<noteq> streamWriterNew \<Longrightarrow> (ok, s') \<in> set (enqueue c q s) \<Longrightarrow> stream_step s (accept (lane_of q) q s')"
| enq_err: "sw_state s \<noteq> streamWriterNew \<Longrightarrow> (Some e, s') \<in> set (enqueue c q s) \<Longrightarrow> stream_step s s'"
| latest: "sw_state s \<noteq> streamWriterNew \<Longrightarrow> (ok, s') \<in> set (enqueueLatest c key q s) \<Longrightarrow>
     stream_step s (accept (Latest key) q s')"
| top_urgent: "sw_wasStarted s \<Longrightarrow> wr_pc s = AtTop \<Longrightarrow> sw_urgent s \<noteq> [] \<Longrightarrow> w = WriteOK \<longrightarrow> \<not> sw_connClosed s \<Longrightarrow>
     stream_step s (take_urgent w s)"
| top: "sw_wasStarted s \<Longrightarrow> wr_pc s = AtTop \<Longrightarrow> sw_urgent s = [] \<Longrightarrow> stream_step s (s\<lparr>wr_pc := AtBurst\<rparr>)"
| burst_data: "wr_pc s = AtBurst \<Longrightarrow> maxControlBurst \<le> wr_burst s \<Longrightarrow> sw_data s \<noteq> [] \<Longrightarrow>
     w = WriteOK \<longrightarrow> \<not> sw_connClosed s \<Longrightarrow> stream_step s (take_data w s)"
| burst: "wr_pc s = AtBurst \<Longrightarrow> wr_burst s < maxControlBurst \<or> sw_data s = [] \<Longrightarrow> stream_step s (s\<lparr>wr_pc := AtSelect\<rparr>)"
| sel_urgent: "wr_pc s = AtSelect \<Longrightarrow> sw_urgent s \<noteq> [] \<Longrightarrow> w = WriteOK \<longrightarrow> \<not> sw_connClosed s \<Longrightarrow>
     stream_step s (take_urgent w s)"
| sel_ctrl: "wr_pc s = AtSelect \<Longrightarrow> sw_ctrl s \<noteq> [] \<Longrightarrow> w = WriteOK \<longrightarrow> \<not> sw_connClosed s \<Longrightarrow>
     stream_step s (take_ctrl w s)"
| sel_latest: "wr_pc s = AtSelect \<Longrightarrow> sw_latest s \<noteq> [] \<Longrightarrow> stream_step s (take_latest s)"
| pop: "wr_pc s = AtPop key \<Longrightarrow> w = WriteOK \<longrightarrow> \<not> sw_connClosed s \<Longrightarrow> stream_step s (finish_pop w key s)"
| sel_data: "wr_pc s = AtSelect \<Longrightarrow> sw_data s \<noteq> [] \<Longrightarrow> w = WriteOK \<longrightarrow> \<not> sw_connClosed s \<Longrightarrow>
     stream_step s (take_data w s)"
| sel_stop: "wr_pc s = AtSelect \<Longrightarrow> sw_stop s \<Longrightarrow> stream_step s (s\<lparr>wr_pc := Returned\<rparr>)"

inductive_cases stream_stepE: "stream_step s s'"

section \<open>What each step leaves alone\<close>

definition wrote :: "write_outcome \<Rightarrow> writer_run \<Rightarrow> bool" where
  "wrote w s \<longleftrightarrow> sw_hasWriter s \<and> w = WriteOK"

definition healthy :: "writer_run \<Rightarrow> bool" where
  "healthy s \<longleftrightarrow> sw_err s = None"

lemma healthy_upd [simp]:
  "healthy (s\<lparr>sw_urgent := a\<rparr>) = healthy s" "healthy (s\<lparr>sw_ctrl := a\<rparr>) = healthy s" "healthy (s\<lparr>sw_data := a\<rparr>) = healthy s"
  "healthy (s\<lparr>sw_latest := b\<rparr>) = healthy s" "healthy (s\<lparr>sw_latestFrames := m\<rparr>) = healthy s"
  "healthy (s\<lparr>wr_pc := pc\<rparr>) = healthy s" "healthy (s\<lparr>wr_burst := n\<rparr>) = healthy s"
  "healthy (s\<lparr>gh_wire := x\<rparr>) = healthy s" "healthy (s\<lparr>gh_written := m\<rparr>) = healthy s"
  "healthy (s\<lparr>gh_passed := n\<rparr>) = healthy s" "healthy (s\<lparr>gh_sent := y\<rparr>) = healthy s"
  "healthy (s\<lparr>gh_newest := m\<rparr>) = healthy s" "healthy (s\<lparr>sw_latestReplaced := z\<rparr>) = healthy s"
  "healthy (s\<lparr>sw_state := st\<rparr>) = healthy s" "healthy (s\<lparr>sw_wasStarted := c\<rparr>) = healthy s"
  "healthy (s\<lparr>sw_stop := c\<rparr>) = healthy s"
  by (simp_all add: healthy_def)

lemma healthy_fail [simp]: "\<not> healthy (fail e s)"
  by (simp add: healthy_def fail_def split: option.split)

lemma writeFrame_eq:
  "fst (writeFrame w q s) = wrote w s"
  "sw_urgent (snd (writeFrame w q s)) = sw_urgent s" "sw_ctrl (snd (writeFrame w q s)) = sw_ctrl s"
  "sw_latest (snd (writeFrame w q s)) = sw_latest s" "sw_data (snd (writeFrame w q s)) = sw_data s"
  "sw_latestFrames (snd (writeFrame w q s)) = sw_latestFrames s"
  "wr_burst (snd (writeFrame w q s)) = wr_burst s" "gh_sent (snd (writeFrame w q s)) = gh_sent s"
  "gh_wire (snd (writeFrame w q s)) = gh_wire s" "gh_newest (snd (writeFrame w q s)) = gh_newest s"
  "gh_written (snd (writeFrame w q s)) = gh_written s" "gh_passed (snd (writeFrame w q s)) = gh_passed s"
  "sw_hasConn (snd (writeFrame w q s)) = sw_hasConn s"
  "sw_connClosed (snd (writeFrame w q s)) = (sw_connClosed s \<or> \<not> wrote w s \<and> sw_hasConn s)"
  "healthy (snd (writeFrame w q s)) \<longleftrightarrow> healthy s \<and> wrote w s"
  for s :: writer_run
  by (cases w; simp add: writeFrame_def fail_def wrote_def healthy_def split: option.split; fail)+

lemma deliver_eq:
  "sw_urgent (deliver w l q b s) = sw_urgent s" "sw_ctrl (deliver w l q b s) = sw_ctrl s"
  "sw_latest (deliver w l q b s) = sw_latest s" "sw_data (deliver w l q b s) = sw_data s"
  "sw_latestFrames (deliver w l q b s) = sw_latestFrames s" "gh_sent (deliver w l q b s) = gh_sent s"
  "gh_newest (deliver w l q b s) = gh_newest s" "sw_hasConn (deliver w l q b s) = sw_hasConn s"
  "wr_pc (deliver w l q b s) = (if wrote w s then AtTop else Returned)"
  "wr_burst (deliver w l q b s) = (if wrote w s then b else wr_burst s)"
  "gh_wire (deliver w l q b s) = (if wrote w s then gh_wire s @ [(l, q)] else gh_wire s)"
  "gh_written (deliver w l q b s) =
     (case l of Latest key \<Rightarrow> if wrote w s then fmupd key q (gh_written s) else gh_written s | _ \<Rightarrow> gh_written s)"
  "gh_passed (deliver w l q b s) =
     (if \<not> wrote w s \<or> l = Urgent then gh_passed s else if l = Bulk \<or> sw_data s = [] then 0 else Suc (gh_passed s))"
  "sw_connClosed (deliver w l q b s) = (sw_connClosed s \<or> \<not> wrote w s \<and> sw_hasConn s)"
  "healthy (deliver w l q b s) \<longleftrightarrow> healthy s \<and> wrote w s"
  using writeFrame_eq [of w q s]
  by (simp_all add: deliver_def Let_def split_beta split: lane.split)

lemmas take_defs = take_urgent_def take_ctrl_def take_data_def take_latest_def finish_pop_def popLatest_def

lemma enqueue_ok:
  assumes "(ok, s') \<in> set (enqueue c q s)"
  shows "(lane_of q = Bulk \<and> length (sw_data s) < dataQueueDepth \<and> s' = s\<lparr>sw_data := sw_data s @ [q]\<rparr>) \<or>
         (lane_of q = Urgent \<and> length (sw_urgent s) < urgentQueueDepth \<and> s' = s\<lparr>sw_urgent := sw_urgent s @ [q]\<rparr>) \<or>
         (lane_of q = Control \<and> length (sw_ctrl s) < ctrlQueueDepth \<and> s' = s\<lparr>sw_ctrl := sw_ctrl s @ [q]\<rparr>)"
  using assms by (auto simp: enqueue_def lane_of_def Let_def split: if_splits)

lemma enqueue_err:
  assumes "(Some e, s') \<in> set (enqueue c q s)"
  shows "s' = s \<or> s' = fail UrgentQueueFull s"
  using assms by (auto simp: enqueue_def Let_def split: if_splits)

lemma enqueueLatest_ok:
  assumes "(ok, s') \<in> set (enqueueLatest c key q s)"
  shows "(fmlookup (sw_latestFrames s) key \<noteq> None \<and>
            s' = s\<lparr>sw_latestFrames := fmupd key q (sw_latestFrames s), sw_latestReplaced := sw_latestReplaced s + 1\<rparr>) \<or>
         (fmlookup (sw_latestFrames s) key = None \<and> length (sw_latest s) < ctrlQueueDepth \<and>
            s' = s\<lparr>sw_latestFrames := fmupd key q (sw_latestFrames s), sw_latest := sw_latest s @ [key]\<rparr>)"
  using assms by (auto simp: enqueueLatest_def split: if_splits)

lemma Start_ok: "Start s = (ok, s') \<Longrightarrow> s' = s\<lparr>sw_state := streamWriterRunning, sw_wasStarted := True\<rparr>"
  by (auto simp: Start_def split: streamWriterState.splits)

section \<open>Invariants\<close>

definition lane_queue :: "lane \<Rightarrow> writer_run \<Rightarrow> queuedFrame list" where
  "lane_queue l s = (case l of Urgent \<Rightarrow> sw_urgent s | Control \<Rightarrow> sw_ctrl s | Bulk \<Rightarrow> sw_data s | Latest _ \<Rightarrow> [])"

definition on_wire :: "lane \<Rightarrow> writer_run \<Rightarrow> queuedFrame list" where
  "on_wire l s = map snd (filter (\<lambda>x. fst x = l) (gh_wire s))"

definition order_inv :: "lane \<Rightarrow> writer_run \<Rightarrow> bool" where
  "order_inv l s \<longleftrightarrow> (\<exists>lost. gh_sent s l = on_wire l s @ lost @ lane_queue l s \<and> (wr_pc s \<noteq> Returned \<longrightarrow> lost = []))"

definition passed_inv :: "writer_run \<Rightarrow> bool" where
  "passed_inv s \<longleftrightarrow>
     (sw_data s = [] \<and> wr_pc s \<noteq> Returned \<longrightarrow> gh_passed s = 0) \<and> gh_passed s \<le> wr_burst s \<and> gh_passed s \<le> maxControlBurst \<and>
     (0 < gh_passed s \<and> (wr_pc s = AtSelect \<or> (\<exists>k. wr_pc s = AtPop k)) \<longrightarrow> wr_burst s < maxControlBurst)"

definition queues_inv :: "writer_run \<Rightarrow> bool" where
  "queues_inv s \<longleftrightarrow> length (sw_urgent s) \<le> urgentQueueDepth \<and> length (sw_ctrl s) \<le> ctrlQueueDepth \<and>
     length (sw_data s) \<le> dataQueueDepth \<and> length (sw_latest s) \<le> ctrlQueueDepth"

definition pending_keys :: "writer_run \<Rightarrow> string list" where
  "pending_keys s = (case wr_pc s of AtPop k \<Rightarrow> [k] | _ \<Rightarrow> []) @ sw_latest s"

definition latest_inv :: "writer_run \<Rightarrow> bool" where
  "latest_inv s \<longleftrightarrow>
     distinct (pending_keys s) \<and> set (pending_keys s) = fset (fmdom (sw_latestFrames s)) \<and>
     (\<forall>k. k \<in> set (pending_keys s) \<longrightarrow> fmlookup (sw_latestFrames s) k = fmlookup (gh_newest s) k) \<and>
     (\<forall>k. k \<notin> set (pending_keys s) \<and> wr_pc s \<noteq> Returned \<longrightarrow> fmlookup (gh_written s) k = fmlookup (gh_newest s) k)"

definition fail_inv :: "writer_run \<Rightarrow> bool" where
  "fail_inv s \<longleftrightarrow> (\<not> healthy s \<and> sw_hasConn s \<longrightarrow> sw_connClosed s)"

lemma queues_step: "stream_step s s' \<Longrightarrow> queues_inv s \<Longrightarrow> queues_inv s'"
proof (erule stream_stepE)
  fix c q t assume "queues_inv s" "s' = accept (lane_of q) q t" "(ok, t) \<in> set (enqueue c q s)"
  then show "queues_inv s'" by (auto dest!: enqueue_ok simp: queues_inv_def accept_def)
next
  fix c e q assume "queues_inv s" "(Some e, s') \<in> set (enqueue c q s)"
  then show "queues_inv s'" by (auto dest!: enqueue_err simp: queues_inv_def fail_def)
next
  fix c k q t assume "queues_inv s" "s' = accept (Latest k) q t" "(ok, t) \<in> set (enqueueLatest c k q s)"
  then show "queues_inv s'" by (auto dest!: enqueueLatest_ok simp: queues_inv_def accept_def)
qed (auto dest!: Start_ok simp: queues_inv_def Close_def take_defs deliver_eq split: option.split)

lemma fail_step: "stream_step s s' \<Longrightarrow> fail_inv s \<Longrightarrow> fail_inv s'"
proof (erule stream_stepE)
  fix c q t assume "fail_inv s" "s' = accept (lane_of q) q t" "(ok, t) \<in> set (enqueue c q s)"
  then show "fail_inv s'" by (auto dest!: enqueue_ok simp: fail_inv_def accept_def)
next
  fix c e q assume "fail_inv s" "(Some e, s') \<in> set (enqueue c q s)"
  then show "fail_inv s'" by (auto dest!: enqueue_err simp: fail_inv_def) (simp_all add: fail_def)
next
  fix c k q t assume "fail_inv s" "s' = accept (Latest k) q t" "(ok, t) \<in> set (enqueueLatest c k q s)"
  then show "fail_inv s'" by (auto dest!: enqueueLatest_ok simp: fail_inv_def accept_def)
qed (auto dest!: Start_ok simp: fail_inv_def Close_def take_defs deliver_eq split: option.split)

lemma passed_step: "stream_step s s' \<Longrightarrow> passed_inv s \<Longrightarrow> passed_inv s'"
proof (erule stream_stepE)
  fix c q t assume "passed_inv s" "s' = accept (lane_of q) q t" "(ok, t) \<in> set (enqueue c q s)"
  then show "passed_inv s'" by (auto dest!: enqueue_ok simp: passed_inv_def accept_def)
next
  fix c e q assume "passed_inv s" "(Some e, s') \<in> set (enqueue c q s)"
  then show "passed_inv s'" by (auto dest!: enqueue_err simp: passed_inv_def fail_def)
next
  fix c k q t assume "passed_inv s" "s' = accept (Latest k) q t" "(ok, t) \<in> set (enqueueLatest c k q s)"
  then show "passed_inv s'" by (auto dest!: enqueueLatest_ok simp: passed_inv_def accept_def)
qed (auto dest!: Start_ok simp: passed_inv_def Close_def take_defs deliver_eq maxControlBurst_def split: option.split)

text \<open>Delivering the head of a lane moves it from the queue to the wire, or loses it when the
  writer returns; the other lanes do not notice.\<close>

lemma order_deliver:
  assumes o: "order_inv l s" and pc: "wr_pc s \<noteq> Returned"
    and q: "lane_queue l s = (if l = m then q # lane_queue l t else lane_queue l t)"
    and t: "gh_sent t = gh_sent s" "gh_wire t = gh_wire s"
  shows "order_inv l (deliver w m q b t)"
proof -
  have sent: "gh_sent s l = on_wire l s @ lane_queue l s" using o pc by (auto simp: order_inv_def)
  have lq: "lane_queue l (deliver w m q b t) = lane_queue l t"
    by (cases l) (simp_all add: lane_queue_def deliver_eq)
  show ?thesis
  proof (cases "wrote w t")
    case True
    have "on_wire l (deliver w m q b t) = on_wire l s @ (if l = m then [q] else [])"
      using True t by (auto simp: on_wire_def deliver_eq)
    then show ?thesis
      using sent q t lq by (auto simp: order_inv_def deliver_eq)
  next
    case False
    then have "on_wire l (deliver w m q b t) = on_wire l s" using t by (simp add: on_wire_def deliver_eq)
    then show ?thesis
      using sent q t lq False
      by (auto simp: order_inv_def deliver_eq intro: exI [of _ "if l = m then [q] else []"])
  qed
qed

lemma order_accept:
  assumes "order_inv l s" "lane_queue l t = lane_queue l s @ (if l = m then [q] else [])"
    and "gh_sent t = gh_sent s" "gh_wire t = gh_wire s" "wr_pc t = wr_pc s" "\<forall>k. l \<noteq> Latest k"
  shows "order_inv l (accept m q t)"
proof -
  have "lane_queue l (accept m q t) = lane_queue l t"
    by (simp add: lane_queue_def accept_def split: lane.split)
  then show ?thesis
    using assms by (auto simp: order_inv_def on_wire_def accept_def)
qed

lemma order_same:
  assumes "order_inv l s" "lane_queue l s' = lane_queue l s" "gh_sent s' = gh_sent s" "gh_wire s' = gh_wire s"
    "wr_pc s = Returned \<longrightarrow> wr_pc s' = Returned"
  shows "order_inv l s'"
  using assms by (auto simp: order_inv_def on_wire_def)

lemma order_step:
  assumes st: "stream_step s s'" and o: "order_inv l s" and l: "\<forall>k. l \<noteq> Latest k"
  shows "order_inv l s'"
  using st
proof cases
  case (enq t c q)
  from enqueue_ok [OF enq(3)] show ?thesis
    unfolding enq(1) by (elim disjE; intro order_accept [OF o]) (cases l; simp add: lane_queue_def l)+
next
  case (enq_err e c q)
  from enqueue_err [OF enq_err(2)] show ?thesis
    by (elim disjE) (auto intro!: order_same [OF o] simp: fail_def lane_queue_def split: lane.split)
next
  case (latest t c k q)
  from enqueueLatest_ok [OF latest(3)] show ?thesis
    unfolding latest(1) by (elim disjE; intro order_accept [OF o]) (cases l; simp add: lane_queue_def l)+
next
  case (top_urgent w)
  then show ?thesis unfolding top_urgent(1) take_urgent_def
    by (intro order_deliver [OF o]) (cases l; cases "sw_urgent s"; simp add: lane_queue_def)+
next
  case (burst_data w)
  then show ?thesis unfolding burst_data(1) take_data_def
    by (intro order_deliver [OF o]) (cases l; cases "sw_data s"; simp add: lane_queue_def)+
next
  case (sel_urgent w)
  then show ?thesis unfolding sel_urgent(1) take_urgent_def
    by (intro order_deliver [OF o]) (cases l; cases "sw_urgent s"; simp add: lane_queue_def)+
next
  case (sel_ctrl w)
  then show ?thesis unfolding sel_ctrl(1) take_ctrl_def
    by (intro order_deliver [OF o]) (cases l; cases "sw_ctrl s"; simp add: lane_queue_def)+
next
  case (sel_data w)
  then show ?thesis unfolding sel_data(1) take_data_def
    by (intro order_deliver [OF o]) (cases l; cases "sw_data s"; simp add: lane_queue_def)+
next
  case (pop k w)
  show ?thesis
  proof (cases "fmlookup (sw_latestFrames s) k")
    case None
    then show ?thesis
      unfolding pop(1) using pop(2) by (intro order_same [OF o]) (auto simp: take_defs lane_queue_def split: lane.split)
  next
    case (Some q)
    then show ?thesis
      unfolding pop(1) finish_pop_def popLatest_def using pop(2) l
      by (simp, intro order_deliver [OF o]) (simp_all add: lane_queue_def split: lane.split)
  qed
qed (auto intro!: order_same [OF o] dest!: Start_ok simp: Close_def take_latest_def lane_queue_def split: lane.split)

lemma latest_same:
  assumes "latest_inv s" "pending_keys s' = pending_keys s" "sw_latestFrames s' = sw_latestFrames s"
    "gh_newest s' = gh_newest s" "gh_written s' = gh_written s" "wr_pc s = Returned \<longrightarrow> wr_pc s' = Returned"
  shows "latest_inv s'"
  using assms by (auto simp: latest_inv_def)

lemma latest_deliver:
  assumes i: "latest_inv s" and l: "\<forall>k. m \<noteq> Latest k" and pc: "wr_pc s \<noteq> Returned" "\<forall>k. wr_pc s \<noteq> AtPop k"
    and t: "sw_latest t = sw_latest s" "sw_latestFrames t = sw_latestFrames s" "gh_newest t = gh_newest s"
      "gh_written t = gh_written s"
  shows "latest_inv (deliver w m q b t)"
proof -
  have "pending_keys s = sw_latest s" using pc by (cases "wr_pc s") (auto simp: pending_keys_def)
  moreover have "pending_keys (deliver w m q b t) = sw_latest s"
    using t by (simp add: pending_keys_def deliver_eq)
  moreover have "gh_written (deliver w m q b t) = gh_written s"
    using l t by (cases m) (simp_all add: deliver_eq)
  ultimately show ?thesis
    using i pc(1) t by (auto simp: latest_inv_def deliver_eq)
qed

lemma latest_accept:
  assumes "latest_inv s" "sw_latestFrames t = fmupd k q (sw_latestFrames s)" "gh_newest t = gh_newest s"
    "gh_written t = gh_written s" "wr_pc t = wr_pc s"
    "sw_latest t = sw_latest s @ (if fmlookup (sw_latestFrames s) k = None then [k] else [])"
  shows "latest_inv (accept (Latest k) q t)"
proof -
  let ?new = "if fmlookup (sw_latestFrames s) k = None then [k] else []"
  have pk: "pending_keys (accept (Latest k) q t) = pending_keys s @ ?new"
    using assms by (simp add: pending_keys_def accept_def split: run_pc.split)
  have mem: "k \<in> set (pending_keys s) \<longleftrightarrow> fmlookup (sw_latestFrames s) k \<noteq> None"
    using assms(1) unfolding latest_inv_def by (simp add: fmlookup_dom_iff)
  have set': "set (pending_keys s @ ?new) = insert k (set (pending_keys s))" using mem by auto
  have "distinct (pending_keys s @ ?new)" using assms(1) mem by (auto simp: latest_inv_def)
  moreover have "set (pending_keys s @ ?new) = fset (fmdom (fmupd k q (sw_latestFrames s)))"
    unfolding set' using assms(1) by (simp add: latest_inv_def)
  ultimately show ?thesis
    using assms(1) set' unfolding latest_inv_def pk
    by (simp only: assms(2,3,4,5) accept_def) (simp add: assms)
qed

lemma latest_pop:
  assumes i: "latest_inv s" and pc: "wr_pc s = AtPop k"
  shows "latest_inv (finish_pop w k s)"
proof -
  have pk: "pending_keys s = k # sw_latest s" using pc by (simp add: pending_keys_def)
  then obtain q where q: "fmlookup (sw_latestFrames s) k = Some q"
    using i unfolding latest_inv_def by (metis fmlookup_dom_iff list.set_intros(1))
  let ?t = "s\<lparr>sw_latestFrames := fmdrop k (sw_latestFrames s)\<rparr>"
  let ?s = "deliver w (Latest k) q (Suc (wr_burst ?t)) ?t"
  have eq: "finish_pop w k s = ?s" by (simp add: finish_pop_def popLatest_def q)
  have pk': "pending_keys ?s = sw_latest s" by (simp add: pending_keys_def deliver_eq)
  have d: "distinct (sw_latest s)" "k \<notin> set (sw_latest s)" using i pk by (auto simp: latest_inv_def)
  have dom: "set (sw_latest s) = fset (fmdom (fmdrop k (sw_latestFrames s)))"
    using i pk d by (auto simp: latest_inv_def)
  have new: "fmlookup (gh_newest s) k = Some q" using i pk q by (auto simp: latest_inv_def)
  have old: "fmlookup (sw_latestFrames s) x = fmlookup (gh_newest s) x" if "x \<in> set (sw_latest s)" for x
    using i pk that by (auto simp: latest_inv_def)
  have wr: "fmlookup (gh_written s) x = fmlookup (gh_newest s) x" if "x \<notin> set (sw_latest s)" "x \<noteq> k" for x
    using i pk that pc by (auto simp: latest_inv_def)
  show ?thesis
    unfolding eq latest_inv_def pk' using d dom new old wr
    by (auto simp: deliver_eq)
qed

lemma latest_step:
  assumes st: "stream_step s s'" and i: "latest_inv s"
  shows "latest_inv s'"
  using st
proof cases
  case (enq t c q)
  have "accept (lane_of q) q t = t\<lparr>gh_sent := (gh_sent t)(lane_of q := gh_sent t (lane_of q) @ [q])\<rparr>"
    by (simp add: accept_def lane_of_def)
  with enqueue_ok [OF enq(3)] show ?thesis
    unfolding enq(1) by (elim disjE) (auto intro!: latest_same [OF i] simp: pending_keys_def)
next
  case (enq_err e c q)
  from enqueue_err [OF enq_err(2)] show ?thesis
    by (elim disjE) (auto intro!: latest_same [OF i] simp: fail_def pending_keys_def)
next
  case (latest t c k q)
  from enqueueLatest_ok [OF latest(3)] show ?thesis
    unfolding latest(1) by (elim disjE) (auto intro!: latest_accept [OF i])
next
  case (top_urgent w)
  then show ?thesis unfolding top_urgent(1) take_urgent_def by (intro latest_deliver [OF i]) auto
next
  case (burst_data w)
  then show ?thesis unfolding burst_data(1) take_data_def by (intro latest_deliver [OF i]) auto
next
  case (sel_urgent w)
  then show ?thesis unfolding sel_urgent(1) take_urgent_def by (intro latest_deliver [OF i]) auto
next
  case (sel_ctrl w)
  then show ?thesis unfolding sel_ctrl(1) take_ctrl_def by (intro latest_deliver [OF i]) auto
next
  case (sel_data w)
  then show ?thesis unfolding sel_data(1) take_data_def by (intro latest_deliver [OF i]) auto
next
  case sel_latest
  then have "pending_keys s' = pending_keys s"
    by (cases "sw_latest s") (simp_all add: take_latest_def pending_keys_def)
  then show ?thesis
    using sel_latest by (intro latest_same [OF i]) (simp_all add: take_latest_def)
next
  case (pop k w)
  then show ?thesis using latest_pop [OF i] by simp
next
  case sel_stop
  then show ?thesis using i by (auto simp: latest_inv_def pending_keys_def)
qed (auto intro!: latest_same [OF i] dest!: Start_ok simp: Close_def pending_keys_def)

lemma start_run_fields:
  "sw_urgent (start_run c) = []" "sw_ctrl (start_run c) = []" "sw_data (start_run c) = []" "sw_latest (start_run c) = []"
  "sw_latestFrames (start_run c) = fmempty" "wr_pc (start_run c) = AtTop" "wr_burst (start_run c) = 0"
  "gh_sent (start_run c) = (\<lambda>_. [])" "gh_wire (start_run c) = []" "gh_newest (start_run c) = fmempty"
  "gh_written (start_run c) = fmempty" "gh_passed (start_run c) = 0" "healthy (start_run c)"
  by (simp_all add: start_run_def NewStreamWriter_def StreamWriter.defs writer_run.defs healthy_def)

lemma reachable_invs:
  assumes "stream_step\<^sup>*\<^sup>* (start_run c) s"
  shows "queues_inv s" "fail_inv s" "passed_inv s" "latest_inv s" "(\<forall>k. l \<noteq> Latest k) \<Longrightarrow> order_inv l s"
proof -
  note base = start_run_fields [of c]
  have inv: "P s" if "P (start_run c)" "\<And>a b. stream_step a b \<Longrightarrow> P a \<Longrightarrow> P b" for P
    using assms by (induction rule: rtranclp_induct) (use that in blast)+
  show "queues_inv s" by (rule inv [OF _ queues_step]) (simp_all add: queues_inv_def base)
  show "fail_inv s" by (rule inv [OF _ fail_step]) (simp_all add: fail_inv_def base)
  show "passed_inv s" by (rule inv [OF _ passed_step]) (simp_all add: passed_inv_def base)
  have "latest_inv (start_run c)" by (simp add: latest_inv_def pending_keys_def base)
  then show "latest_inv s" using latest_step by (rule inv)
  assume l: "\<forall>k. l \<noteq> Latest k"
  have "order_inv l (start_run c)"
    by (simp add: order_inv_def on_wire_def lane_queue_def base split: lane.split)
  then show "order_inv l s" using order_step l by (intro inv [of "order_inv l"]) blast+
qed

text \<open>After a failure nothing more is written.\<close>

lemma closed_step:
  assumes "stream_step s s'" "sw_connClosed s"
  shows "sw_connClosed s' \<and> gh_wire s' = gh_wire s"
  using assms(1)
proof cases
  case (enq t c q)
  from enqueue_ok [OF enq(3)] assms(2) show ?thesis unfolding enq(1) by (auto simp: accept_def)
next
  case (enq_err e c q)
  from enqueue_err [OF enq_err(2)] assms(2) show ?thesis by (auto simp: fail_def)
next
  case (latest t c k q)
  from enqueueLatest_ok [OF latest(3)] assms(2) show ?thesis unfolding latest(1) by (auto simp: accept_def)
qed (use assms(2) in \<open>auto dest!: Start_ok simp: Close_def take_defs deliver_eq wrote_def split: option.split\<close>)

lemma closed_steps: "stream_step\<^sup>*\<^sup>* s s' \<Longrightarrow> sw_connClosed s \<Longrightarrow> gh_wire s' = gh_wire s"
proof -
  assume "stream_step\<^sup>*\<^sup>* s s'" "sw_connClosed s"
  then have "sw_connClosed s' \<and> gh_wire s' = gh_wire s"
    by (induction rule: rtranclp_induct) (auto dest: closed_step)
  then show ?thesis by simp
qed

section \<open>Properties\<close>

text \<open>
  C24. Fair lanes. In every reachable state of the writer, whatever the callers do: at most
  eight control or latest-state frames have been written since a bulk frame has been
  waiting, so bulk traffic always progresses; no queue exceeds its depth; and the frames
  of the urgent, control and bulk lanes reach the wire in the order they were accepted,
  none twice and, as long as the writer runs, none lost.
\<close>

theorem lanes_are_fair_and_ordered:
  assumes "stream_step\<^sup>*\<^sup>* (start_run conn) s"
  shows "gh_passed s \<le> 8 \<and>
         length (sw_urgent s) \<le> 8 \<and> length (sw_ctrl s) \<le> 64 \<and> length (sw_latest s) \<le> 64 \<and> length (sw_data s) \<le> 4 \<and>
         (\<forall>l. l = Urgent \<or> l = Control \<or> l = Bulk \<longrightarrow>
            (\<exists>rest. gh_sent s l = on_wire l s @ rest) \<and>
            (wr_pc s \<noteq> Returned \<longrightarrow> gh_sent s l = on_wire l s @ lane_queue l s))"
proof (intro conjI allI impI)
  show "gh_passed s \<le> 8"
    using reachable_invs(3) [OF assms] by (simp add: passed_inv_def maxControlBurst_def)
  show "length (sw_urgent s) \<le> 8" "length (sw_ctrl s) \<le> 64" "length (sw_latest s) \<le> 64" "length (sw_data s) \<le> 4"
    using reachable_invs(1) [OF assms]
    by (simp_all add: queues_inv_def urgentQueueDepth_def ctrlQueueDepth_def dataQueueDepth_def)
  fix l assume "l = Urgent \<or> l = Control \<or> l = Bulk"
  then have "order_inv l s" by (intro reachable_invs(5) [OF assms]) auto
  then obtain lost where o: "gh_sent s l = on_wire l s @ lost @ lane_queue l s" "wr_pc s \<noteq> Returned \<longrightarrow> lost = []"
    unfolding order_inv_def by blast
  then show "\<exists>rest. gh_sent s l = on_wire l s @ rest" by blast
  assume "wr_pc s \<noteq> Returned"
  with o show "gh_sent s l = on_wire l s @ lane_queue l s" by simp
qed

definition ex_pong :: queuedFrame where
  "ex_pong = \<lparr>qf_typ = MsgPong, qf_data = [1]\<rparr>"

theorem lanes_are_fair_and_ordered_witness:
  "\<exists>s. stream_step\<^sup>*\<^sup>* (start_run True) s \<and> on_wire Urgent s = [ex_pong] \<and> gh_sent s Urgent = [ex_pong] \<and> gh_passed s \<le> 8"
proof -
  let ?s0 = "start_run True"
  let ?s1 = "?s0\<lparr>sw_state := streamWriterRunning, sw_wasStarted := True\<rparr>"
  let ?s2 = "accept (lane_of ex_pong) ex_pong (?s1\<lparr>sw_urgent := sw_urgent ?s1 @ [ex_pong]\<rparr>)"
  let ?s3 = "take_urgent WriteOK ?s2"
  have new: "sw_state ?s0 = streamWriterNew" "sw_hasWriter ?s0" "\<not> sw_connClosed ?s0"
    by (simp_all add: start_run_def NewStreamWriter_def StreamWriter.defs writer_run.defs)
  have lane: "lane_of ex_pong = Urgent" by (simp add: lane_of_def ex_pong_def isBulk_def isUrgent_def MsgType_defs)
  have "stream_step ?s0 ?s1" by (rule stream_step.start) (simp add: Start_def new)
  moreover have "stream_step ?s1 ?s2"
  proof (rule stream_step.enq [where c = False])
    show "(ok, ?s1\<lparr>sw_urgent := sw_urgent ?s1 @ [ex_pong]\<rparr>) \<in> set (enqueue False ex_pong ?s1)"
      by (simp add: enqueue_def start_run_fields urgentQueueDepth_def ex_pong_def isBulk_def isUrgent_def MsgType_defs)
  qed simp
  moreover have "stream_step ?s2 ?s3"
    by (rule stream_step.top_urgent) (simp_all add: accept_def lane start_run_fields new)
  ultimately have r: "stream_step\<^sup>*\<^sup>* ?s0 ?s3" by (meson r_into_rtranclp rtranclp_trans)
  have "on_wire Urgent ?s3 = [ex_pong]" "gh_sent ?s3 Urgent = [ex_pong]"
    by (simp_all add: on_wire_def take_urgent_def deliver_eq wrote_def accept_def lane start_run_fields new)
  with r lanes_are_fair_and_ordered [OF r] show ?thesis by blast
qed

text \<open>
  Latest state wins. In every reachable state a latest-state key is pending at most
  once and carries the newest frame accepted for it, and while the writer runs, a key that
  is not pending has its newest frame as the last one written: replacing a pending frame
  never leaves a peer with stale state. Once a writer with a connection has failed, no
  frame is written any more, whatever is queued or was accepted later.
\<close>

theorem latest_state_wins:
  assumes "stream_step\<^sup>*\<^sup>* (start_run conn) s"
  shows "distinct (pending_keys s) \<and>
         (\<forall>k. k \<in> set (pending_keys s) \<longrightarrow> fmlookup (sw_latestFrames s) k = fmlookup (gh_newest s) k \<and>
                fmlookup (sw_latestFrames s) k \<noteq> None) \<and>
         (wr_pc s \<noteq> Returned \<longrightarrow> (\<forall>k. k \<notin> set (pending_keys s) \<longrightarrow> fmlookup (gh_written s) k = fmlookup (gh_newest s) k)) \<and>
         (sw_err s \<noteq> None \<and> sw_hasConn s \<longrightarrow> (\<forall>s'. stream_step\<^sup>*\<^sup>* s s' \<longrightarrow> gh_wire s' = gh_wire s))"
proof -
  have l: "latest_inv s" and f: "fail_inv s" using reachable_invs [OF assms] by blast+
  have "fmlookup (sw_latestFrames s) k \<noteq> None" if "k \<in> set (pending_keys s)" for k
    using l that unfolding latest_inv_def by (simp add: fmlookup_dom_iff)
  moreover have "\<forall>s'. stream_step\<^sup>*\<^sup>* s s' \<longrightarrow> gh_wire s' = gh_wire s" if "sw_err s \<noteq> None" "sw_hasConn s"
    using closed_steps f that by (auto simp: fail_inv_def healthy_def)
  ultimately show ?thesis using l unfolding latest_inv_def by blast
qed

theorem latest_state_wins_witness:
  "distinct (pending_keys (start_run True)) \<and> fmlookup (gh_written (start_run True)) ''k'' = fmlookup (gh_newest (start_run True)) ''k''"
  using latest_state_wins [of True "start_run True"]
  by (simp add: start_run_fields pending_keys_def)

end
