(* ===== verification/Handshake.thy ===== *)
theory Handshake
  imports Keys Frame
begin

text \<open>
  The mutually authenticated handshake of \<^verbatim>\<open>internal/protocol/handshake.go\<close>. Each side is
  cut at its reads: what it does before the first frame arrives, after it, and after the
  second, with the frame it sends and, on a rejection, the code of the \<open>Error\<close> frame. A
  received frame is what \<open>ReadFrame\<close> returned. Ed25519, SHA-256 and the CBOR codec are
  arguments, collected in \<open>hs_lib\<close>; the random nonce is an argument too. Deadlines,
  cancellation and the \<open>OnUnknownPeer\<close> callback are not modelled.

  The results: two honest nodes that know each other always complete and agree, and a
  completed handshake with an honest peer's key means that this peer ran the other side of
  this very exchange.
\<close>

section \<open>Messages and configuration\<close>

definition CurrentProtoVersion :: int where "CurrentProtoVersion = 3"
definition nonceSize :: nat where "nonceSize = 32"
definition authContext :: string where "authContext = ''syncat-handshake-v3''"

definition ErrCodeUnsupportedVersion :: string where "ErrCodeUnsupportedVersion = ''unsupported_proto_version''"
definition ErrCodeUnauthorized :: string where "ErrCodeUnauthorized = ''unauthorized''"
definition ErrCodeBadHello :: string where "ErrCodeBadHello = ''bad_hello''"
definition ErrCodeBadAuth :: string where "ErrCodeBadAuth = ''bad_auth''"

record hs_lib =
  hl_sign :: "bytes \<Rightarrow> bytes \<Rightarrow> bytes"
  hl_verify :: "bytes \<Rightarrow> bytes \<Rightarrow> bytes \<Rightarrow> bool"
  hl_sha256 :: "bytes \<Rightarrow> bytes"
  hl_encHello :: "Hello \<Rightarrow> bytes"
  hl_decHello :: "bytes \<Rightarrow> Hello option"
  hl_encHelloAuth :: "HelloAuth \<Rightarrow> bytes"
  hl_decHelloAuth :: "bytes \<Rightarrow> HelloAuth option"
  hl_encAuth :: "bytes \<Rightarrow> bytes"
  hl_decAuth :: "bytes \<Rightarrow> bytes option"
  hl_encFinished :: bytes
  hl_decFinished :: "bytes \<Rightarrow> bool"
  hl_decError :: "bytes \<Rightarrow> ErrorMsg option"
  hl_decToken :: "bytes \<Rightarrow> tokenPayload option"

record HandshakeConfig =
  hc_IdentityKey :: bytes
  hc_NodeName :: string
  hc_Token :: string
  hc_OurVersion :: int
  hc_MinVersion :: int
  hc_IsKnownPeer :: "(bytes \<Rightarrow> bool) option"

record HandshakeResult =
  hr_PeerPub :: bytes
  hr_PeerName :: string
  hr_PeerToken :: string
  hr_ProtoVersion :: int

datatype hello_err =
    PubSize nat
  | PubAllZero
  | NonceSize nat
  | HelloToken token_err
  | HelloTokenMismatch
  | VersionInvalid int
  | NoCommonVersion
  | UnknownPeer bytes

datatype hs_err =
    IdentityKeySize nat
  | NoIsKnownPeer
  | OwnToken token_err
  | OwnTokenMismatch
  | ReadFailed frame_err
  | RemoteError string string
  | UndecodableError
  | UnexpectedType MsgType
  | DecodeFailed
  | Rejected hello_err
  | PeerSignature

type_synonym hs_fail = "hs_err \<times> string option"
type_synonym received = "frame_err + MsgType \<times> bytes"
type_synonym sent = "MsgType \<times> bytes"

section \<open>Validation\<close>

definition negotiateVersion :: "int \<Rightarrow> int \<Rightarrow> int \<Rightarrow> hello_err + int" where
  "negotiateVersion our minVer their =
     (if their < 1 then Inl (VersionInvalid their)
      else let negotiated = (if our < their then our else their) in
           if negotiated < minVer then Inl NoCommonVersion else Inr negotiated)"

definition isAllZero :: "bytes \<Rightarrow> bool" where
  "isAllZero b = list_all (\<lambda>x. x = 0) b"

definition validateHelloShape :: "hs_lib \<Rightarrow> Hello \<Rightarrow> hello_err err" where
  "validateHelloShape lib h =
     (if length (he_Ed25519Pub h) \<noteq> ed25519_PublicKeySize then Some (PubSize (length (he_Ed25519Pub h)))
      else if isAllZero (he_Ed25519Pub h) then Some PubAllZero
      else if length (he_Nonce h) \<noteq> nonceSize then Some (NonceSize (length (he_Nonce h)))
      else case ParseToken (hl_decToken lib) (he_Token h) of
             Inl e \<Rightarrow> Some (HelloToken e)
           | Inr tok \<Rightarrow> if nt_ID tok \<noteq> he_Ed25519Pub h then Some HelloTokenMismatch else ok)"

text \<open>The wire code and the reason. \<open>IsKnownPeer\<close> has been checked to be set.\<close>

definition validatePeerHello ::
  "hs_lib \<Rightarrow> HandshakeConfig \<Rightarrow> int \<Rightarrow> int \<Rightarrow> Hello \<Rightarrow> (string \<times> hello_err) option" where
  "validatePeerHello lib cfg ourVersion minVersion h =
     (case validateHelloShape lib h of
        Some e \<Rightarrow> Some (ErrCodeBadHello, e)
      | None \<Rightarrow>
          (case negotiateVersion ourVersion minVersion (he_ProtoVersion h) of
             Inl e \<Rightarrow> Some (ErrCodeUnsupportedVersion, e)
           | Inr v \<Rightarrow>
               if (case hc_IsKnownPeer cfg of None \<Rightarrow> False | Some known \<Rightarrow> known (he_Ed25519Pub h)) then None
               else Some (ErrCodeUnauthorized, UnknownPeer (he_Ed25519Pub h))))"

definition checkOwnToken :: "hs_lib \<Rightarrow> string \<Rightarrow> bytes \<Rightarrow> hs_err err" where
  "checkOwnToken lib token ourPub =
     (case ParseToken (hl_decToken lib) token of
        Inl e \<Rightarrow> Some (OwnToken e)
      | Inr t \<Rightarrow> if nt_ID t \<noteq> ourPub then Some OwnTokenMismatch else ok)"

section \<open>The transcript\<close>

definition transcript_input :: "hs_lib \<Rightarrow> Hello \<Rightarrow> Hello \<Rightarrow> int \<Rightarrow> bytes" where
  "transcript_input lib client server negotiated =
     (let c = hl_encHello lib client; s = hl_encHello lib server in
      text_bytes authContext @ put_uint32 (of_nat (length c)) @ c @ put_uint32 (of_nat (length s)) @ s @
      put_uint32 (of_int negotiated))"

definition handshakeTranscript :: "hs_lib \<Rightarrow> Hello \<Rightarrow> Hello \<Rightarrow> int \<Rightarrow> bytes" where
  "handshakeTranscript lib client server negotiated = hl_sha256 lib (transcript_input lib client server negotiated)"

definition appendRole :: "bytes \<Rightarrow> string \<Rightarrow> bytes" where
  "appendRole transcript role =
     text_bytes authContext @ [0, of_nat (length role)] @ text_bytes role @ transcript"

section \<open>The two sides\<close>

definition readExpected :: "hs_lib \<Rightarrow> MsgType \<Rightarrow> received \<Rightarrow> hs_err + bytes" where
  "readExpected lib want r =
     (case r of
        Inl e \<Rightarrow> Inl (ReadFailed e)
      | Inr (typ, payload) \<Rightarrow>
          if typ = MsgError then
            (case hl_decError lib payload of
               Some e \<Rightarrow> Inl (RemoteError (er_Code e) (er_Msg e)) | None \<Rightarrow> Inl UndecodableError)
          else if typ \<noteq> want then Inl (UnexpectedType typ) else Inr payload)"

definition readMessage :: "hs_lib \<Rightarrow> MsgType \<Rightarrow> (bytes \<Rightarrow> 'a option) \<Rightarrow> received \<Rightarrow> hs_err + 'a" where
  "readMessage lib want dec r =
     (case readExpected lib want r of
        Inl e \<Rightarrow> Inl e
      | Inr payload \<Rightarrow> (case dec payload of None \<Rightarrow> Inl DecodeFailed | Some m \<Rightarrow> Inr m))"

text \<open>The part both roles share: the offered and minimal version and this side's \<open>Hello\<close>.\<close>

definition prepare :: "hs_lib \<Rightarrow> HandshakeConfig \<Rightarrow> bytes \<Rightarrow> hs_err + (int \<times> int \<times> Hello)" where
  "prepare lib cfg nonce =
     (if length (hc_IdentityKey cfg) \<noteq> ed25519_PrivateKeySize then Inl (IdentityKeySize (length (hc_IdentityKey cfg)))
      else if hc_IsKnownPeer cfg = None then Inl NoIsKnownPeer
      else
        let ourVersion = (if hc_OurVersion cfg \<le> 0 then CurrentProtoVersion else hc_OurVersion cfg);
            minVersion = (if hc_MinVersion cfg \<le> 0 then CurrentProtoVersion else hc_MinVersion cfg);
            ourPub = Public \<lparr>ik_Private = hc_IdentityKey cfg\<rparr>
        in case checkOwnToken lib (hc_Token cfg) ourPub of
             Some e \<Rightarrow> Inl e
           | None \<Rightarrow> Inr (ourVersion, minVersion,
               \<lparr>he_ProtoVersion = ourVersion, he_NodeName = hc_NodeName cfg, he_Ed25519Pub = ourPub,
                he_Token = hc_Token cfg, he_Nonce = nonce\<rparr>))"

definition result_of :: "Hello \<Rightarrow> int \<Rightarrow> HandshakeResult" where
  "result_of peer negotiated = \<lparr>hr_PeerPub = he_Ed25519Pub peer, hr_PeerName = he_NodeName peer,
     hr_PeerToken = he_Token peer, hr_ProtoVersion = negotiated\<rparr>"

text \<open>The initiator once the \<open>HelloAuth\<close> arrives: its \<open>Auth\<close> frame and the pending result.\<close>

definition init_auth ::
  "hs_lib \<Rightarrow> HandshakeConfig \<Rightarrow> int \<times> int \<times> Hello \<Rightarrow> received \<Rightarrow> hs_fail + sent \<times> HandshakeResult" where
  "init_auth lib cfg st r =
     (case st of (ourVersion, minVersion, ourHello) \<Rightarrow>
      case readMessage lib MsgAuth (hl_decHelloAuth lib) r of
        Inl e \<Rightarrow> Inl (e, None)
      | Inr response \<Rightarrow>
          let peerHello = ha_Hello response in
          (case validatePeerHello lib cfg ourVersion minVersion peerHello of
             Some (code, e) \<Rightarrow> Inl (Rejected e, Some code)
           | None \<Rightarrow>
               (case negotiateVersion ourVersion minVersion (he_ProtoVersion peerHello) of
                  Inl e \<Rightarrow> Inl (Rejected e, Some ErrCodeUnsupportedVersion)
                | Inr negotiated \<Rightarrow>
                    let proof = handshakeTranscript lib ourHello peerHello negotiated in
                    if \<not> hl_verify lib (he_Ed25519Pub peerHello) (appendRole proof ''server'') (ha_Sig response)
                    then Inl (PeerSignature, Some ErrCodeBadAuth)
                    else Inr ((MsgAuth, hl_encAuth lib (hl_sign lib (hc_IdentityKey cfg) (appendRole proof ''client''))),
                              result_of peerHello negotiated))))"

definition init_finish :: "hs_lib \<Rightarrow> HandshakeResult \<Rightarrow> received \<Rightarrow> hs_fail + HandshakeResult" where
  "init_finish lib res r =
     (case readMessage lib MsgFinished (\<lambda>p. if hl_decFinished lib p then Some () else None) r of
        Inl e \<Rightarrow> Inl (e, None) | Inr u \<Rightarrow> Inr res)"

text \<open>The responder once the \<open>Hello\<close> arrives: its \<open>HelloAuth\<close> frame and what it remembers.\<close>

definition resp_auth ::
  "hs_lib \<Rightarrow> HandshakeConfig \<Rightarrow> int \<times> int \<times> Hello \<Rightarrow> received \<Rightarrow>
     hs_fail + sent \<times> bytes \<times> HandshakeResult" where
  "resp_auth lib cfg st r =
     (case st of (ourVersion, minVersion, ourHello) \<Rightarrow>
      case readMessage lib MsgHello (hl_decHello lib) r of
        Inl e \<Rightarrow> Inl (e, None)
      | Inr peerHello \<Rightarrow>
          (case validatePeerHello lib cfg ourVersion minVersion peerHello of
             Some (code, e) \<Rightarrow> Inl (Rejected e, Some code)
           | None \<Rightarrow>
               (case negotiateVersion ourVersion minVersion (he_ProtoVersion peerHello) of
                  Inl e \<Rightarrow> Inl (Rejected e, Some ErrCodeUnsupportedVersion)
                | Inr negotiated \<Rightarrow>
                    let proof = handshakeTranscript lib peerHello ourHello negotiated;
                        sig = hl_sign lib (hc_IdentityKey cfg) (appendRole proof ''server'')
                    in Inr ((MsgAuth, hl_encHelloAuth lib \<lparr>ha_Hello = ourHello, ha_Sig = sig\<rparr>), proof,
                            result_of peerHello negotiated))))"

definition resp_finish ::
  "hs_lib \<Rightarrow> bytes \<times> HandshakeResult \<Rightarrow> received \<Rightarrow> hs_fail + sent \<times> HandshakeResult" where
  "resp_finish lib st r =
     (case readMessage lib MsgAuth (hl_decAuth lib) r of
        Inl e \<Rightarrow> Inl (e, None)
      | Inr sig \<Rightarrow>
          if \<not> hl_verify lib (hr_PeerPub (snd st)) (appendRole (fst st) ''client'') sig
          then Inl (PeerSignature, Some ErrCodeBadAuth)
          else Inr ((MsgFinished, hl_encFinished lib), snd st))"

text \<open>Whole runs, given the frames that arrive.\<close>

definition InitiateHandshake ::
  "hs_lib \<Rightarrow> HandshakeConfig \<Rightarrow> bytes \<Rightarrow> received \<Rightarrow> received \<Rightarrow> hs_fail + HandshakeResult" where
  "InitiateHandshake lib cfg nonce r1 r2 =
     (case prepare lib cfg nonce of
        Inl e \<Rightarrow> Inl (e, None)
      | Inr st \<Rightarrow> (case init_auth lib cfg st r1 of
            Inl f \<Rightarrow> Inl f
          | Inr (frame, res) \<Rightarrow> init_finish lib res r2))"

definition AcceptHandshake ::
  "hs_lib \<Rightarrow> HandshakeConfig \<Rightarrow> bytes \<Rightarrow> received \<Rightarrow> received \<Rightarrow> hs_fail + HandshakeResult" where
  "AcceptHandshake lib cfg nonce r1 r2 =
     (case prepare lib cfg nonce of
        Inl e \<Rightarrow> Inl (e, None)
      | Inr st \<Rightarrow> (case resp_auth lib cfg st r1 of
            Inl f \<Rightarrow> Inl f
          | Inr (frame, rest) \<Rightarrow> map_sum id snd (resp_finish lib rest r2)))"

section \<open>What a signature binds\<close>

lemma put_uint32_inj: "put_uint32 a = put_uint32 b \<longleftrightarrow> a = b"
  by (metis get_put_uint32)

lemma put_uint32_append: "put_uint32 a @ x = put_uint32 b @ y \<longleftrightarrow> a = b \<and> x = y"
  by (metis append_eq_append_conv length_put_uint32 put_uint32_inj)

lemma of_nat32_inj: "m < 2 ^ 32 \<Longrightarrow> n < 2 ^ 32 \<Longrightarrow> (of_nat m :: 32 word) = of_nat n \<longleftrightarrow> m = n"
proof
  assume m: "m < 2 ^ 32" and n: "n < 2 ^ 32" and "(of_nat m :: 32 word) = of_nat n"
  then have "unat (of_nat m :: 32 word) = unat (of_nat n :: 32 word)" by simp
  then show "m = n" using m n by (simp add: unat_of_nat)
qed simp

lemma of_int32_inj:
  assumes "0 \<le> a" "a < 2 ^ 32" "0 \<le> b" "b < 2 ^ 32"
  shows "(of_int a :: 32 word) = of_int b \<longleftrightarrow> a = b"
  using of_nat32_inj [of "nat a" "nat b"] assms by (simp add: nat_less_iff eq_nat_nat_iff)

text \<open>What the arguments have to satisfy on the \<open>Hello\<close>s that are ever exchanged: no two
  of them encode alike, their transcripts do not collide, and each encoding is shorter than
  the 32-bit length in front of it (a frame is at most 4 MiB).\<close>

definition binding_lib :: "hs_lib \<Rightarrow> Hello set \<Rightarrow> bool" where
  "binding_lib lib H \<longleftrightarrow>
     inj_on (hl_sha256 lib) {transcript_input lib c s v | c s v. c \<in> H \<and> s \<in> H} \<and>
     inj_on (hl_encHello lib) H \<and> (\<forall>h \<in> H. length (hl_encHello lib h) < 2 ^ 32)"

lemma transcript_inj:
  assumes lib: "binding_lib lib H" and H: "c \<in> H" "s \<in> H" "c' \<in> H" "s' \<in> H"
    and v: "0 \<le> v" "v < 2 ^ 32" "0 \<le> v'" "v' < 2 ^ 32"
    and eq: "handshakeTranscript lib c s v = handshakeTranscript lib c' s' v'"
  shows "c = c' \<and> s = s' \<and> v = v'"
proof -
  let ?e = "hl_encHello lib"
  have short: "\<And>h. h \<in> H \<Longrightarrow> length (?e h) < 2 ^ 32" using lib by (simp add: binding_lib_def)
  have "inj_on (hl_sha256 lib) {transcript_input lib c s v | c s v. c \<in> H \<and> s \<in> H}"
    using lib by (simp add: binding_lib_def)
  from inj_onD [OF this eq [unfolded handshakeTranscript_def]]
  have "transcript_input lib c s v = transcript_input lib c' s' v'" using H by blast
  then have 1: "(of_nat (length (?e c)) :: 32 word) = of_nat (length (?e c'))"
    and rest: "?e c @ put_uint32 (of_nat (length (?e s))) @ ?e s @ put_uint32 (of_int v) =
         ?e c' @ put_uint32 (of_nat (length (?e s'))) @ ?e s' @ put_uint32 (of_int v')"
    by (simp_all add: transcript_input_def Let_def put_uint32_append)
  have "length (?e c) = length (?e c')" using 1 of_nat32_inj short H by blast
  with rest have c: "?e c = ?e c'" and
    "put_uint32 (of_nat (length (?e s))) @ ?e s @ put_uint32 (of_int v) =
     put_uint32 (of_nat (length (?e s'))) @ ?e s' @ put_uint32 (of_int v')"
    by simp_all
  then have 2: "(of_nat (length (?e s)) :: 32 word) = of_nat (length (?e s'))"
    and r2: "?e s @ put_uint32 (of_int v) = ?e s' @ put_uint32 (of_int v')"
    by (simp_all add: put_uint32_append)
  have "length (?e s) = length (?e s')" using 2 of_nat32_inj short H by blast
  with r2 have s: "?e s = ?e s'" and "(of_int v :: 32 word) = of_int v'"
    by (simp_all add: put_uint32_inj)
  moreover have "inj_on ?e H" using lib by (simp add: binding_lib_def)
  ultimately show ?thesis
    using c s v of_int32_inj H by (auto dest: inj_onD)
qed

lemma role_bytes: "text_bytes ''server'' \<noteq> text_bytes ''client''" "length (text_bytes s) = length s"
  by (simp_all add: text_bytes_def)

lemma appendRole_inj: "appendRole t r = appendRole t' r \<longleftrightarrow> t = t'"
  by (simp add: appendRole_def)

lemma roles_differ: "appendRole t ''server'' \<noteq> appendRole t' ''client''"
proof
  assume "appendRole t ''server'' = appendRole t' ''client''"
  then have "text_bytes ''server'' @ t = text_bytes ''client'' @ t'" by (simp add: appendRole_def)
  then have "text_bytes ''server'' = text_bytes ''client''"
    using role_bytes(2) by (simp add: append_eq_append_conv)
  with role_bytes(1) show False by blast
qed

text \<open>What an honest node signs: in some run of its own, in one of the two roles.\<close>

definition signs_as_server :: "hs_lib \<Rightarrow> HandshakeConfig \<Rightarrow> Hello \<Rightarrow> Hello \<Rightarrow> int \<Rightarrow> bytes \<Rightarrow> bool" where
  "signs_as_server lib cfg c s v m \<longleftrightarrow>
     (\<exists>nonce ov mv. prepare lib cfg nonce = Inr (ov, mv, s) \<and> validatePeerHello lib cfg ov mv c = ok \<and>
        negotiateVersion ov mv (he_ProtoVersion c) = Inr v \<and>
        m = appendRole (handshakeTranscript lib c s v) ''server'')"

definition signs_as_client :: "hs_lib \<Rightarrow> HandshakeConfig \<Rightarrow> Hello \<Rightarrow> Hello \<Rightarrow> int \<Rightarrow> bytes \<Rightarrow> bool" where
  "signs_as_client lib cfg c s v m \<longleftrightarrow>
     (\<exists>nonce ov mv. prepare lib cfg nonce = Inr (ov, mv, c) \<and> validatePeerHello lib cfg ov mv s = ok \<and>
        negotiateVersion ov mv (he_ProtoVersion s) = Inr v \<and>
        m = appendRole (handshakeTranscript lib c s v) ''client'')"

text \<open>Signatures under the key of \<open>cfg\<close> verify only on messages that node signed.\<close>

definition unforgeable :: "hs_lib \<Rightarrow> HandshakeConfig \<Rightarrow> Hello set \<Rightarrow> bool" where
  "unforgeable lib cfg H \<longleftrightarrow>
     (\<forall>m sig. hl_verify lib (Public \<lparr>ik_Private = hc_IdentityKey cfg\<rparr>) m sig \<longrightarrow>
        (\<exists>c \<in> H. \<exists>s \<in> H. \<exists>v. signs_as_server lib cfg c s v m \<or> signs_as_client lib cfg c s v m))"

lemma negotiated_range:
  assumes "negotiateVersion our minv their = Inr v" "0 < our" "our < 2 ^ 32"
  shows "0 \<le> v" "v < 2 ^ 32" "v = min our their"
  using assms by (auto simp: negotiateVersion_def Let_def split: if_splits)

lemma prepare_version:
  assumes "prepare lib cfg nonce = Inr (ov, mv, h)" "hc_OurVersion cfg < 2 ^ 32"
  shows "0 < ov" "ov < 2 ^ 32" "he_ProtoVersion h = ov" "he_Nonce h = nonce"
    "he_Ed25519Pub h = Public \<lparr>ik_Private = hc_IdentityKey cfg\<rparr>" "he_NodeName h = hc_NodeName cfg"
    "he_Token h = hc_Token cfg"
  using assms by (auto simp: prepare_def Let_def CurrentProtoVersion_def split: if_splits option.splits)

lemma prepared_shape:
  assumes "prepare lib cfg nonce = Inr (ov, mv, h)" "hc_OurVersion cfg < 2 ^ 32"
    and "length nonce = 32" "\<not> isAllZero (he_Ed25519Pub h)"
  shows "validateHelloShape lib h = ok"
proof -
  note p = prepare_version [OF assms(1,2)]
  have "length (hc_IdentityKey cfg) = 64"
    and t: "checkOwnToken lib (hc_Token cfg) (Public \<lparr>ik_Private = hc_IdentityKey cfg\<rparr>) = ok"
    using assms(1) by (auto simp: prepare_def Let_def ed25519_PrivateKeySize_def split: if_splits option.splits)
  then have "length (he_Ed25519Pub h) = 32" using p by (simp add: Public_def)
  then show ?thesis
    using t p assms(3,4)
    by (auto simp: validateHelloShape_def ed25519_PublicKeySize_def nonceSize_def checkOwnToken_def split: sum.splits if_splits)
qed

lemma signed_range:
  assumes "hc_OurVersion cfg < 2 ^ 32" "signs_as_server lib cfg c s v m \<or> signs_as_client lib cfg c s v m"
  shows "0 \<le> v \<and> v < 2 ^ 32"
  using assms prepare_version negotiated_range
  unfolding signs_as_server_def signs_as_client_def by metis

lemma init_auth_ok:
  assumes "init_auth lib cfg (ov, mv, h) r = Inr (frame, res)"
  obtains peer sig v where "readMessage lib MsgAuth (hl_decHelloAuth lib) r = Inr \<lparr>ha_Hello = peer, ha_Sig = sig\<rparr>"
    "validatePeerHello lib cfg ov mv peer = ok" "negotiateVersion ov mv (he_ProtoVersion peer) = Inr v"
    "hl_verify lib (he_Ed25519Pub peer) (appendRole (handshakeTranscript lib h peer v) ''server'') sig"
    "res = result_of peer v"
proof -
  obtain a where a: "readMessage lib MsgAuth (hl_decHelloAuth lib) r = Inr a"
    using assms by (auto simp: init_auth_def split: sum.splits)
  obtain peer sig where "a = \<lparr>ha_Hello = peer, ha_Sig = sig\<rparr>" by (cases a) simp
  with a assms show thesis
    by (auto simp: init_auth_def Let_def split: sum.splits option.splits if_splits intro: that)
qed

lemma resp_auth_ok:
  assumes "resp_auth lib cfg (ov, mv, h) r = Inr (frame, proof', res)"
  obtains peer v where "readMessage lib MsgHello (hl_decHello lib) r = Inr peer"
    "validatePeerHello lib cfg ov mv peer = ok" "negotiateVersion ov mv (he_ProtoVersion peer) = Inr v"
    "proof' = handshakeTranscript lib peer h v" "res = result_of peer v"
  using assms by (auto simp: resp_auth_def Let_def split: sum.splits option.splits)

lemma server_signature:
  assumes "binding_lib lib H" "unforgeable lib cfgB H" "hc_OurVersion cfgB < 2 ^ 32"
    and "hl_verify lib (Public \<lparr>ik_Private = hc_IdentityKey cfgB\<rparr>) (appendRole (handshakeTranscript lib c s v) ''server'') sig"
    and "c \<in> H" "s \<in> H" "0 \<le> v" "v < 2 ^ 32"
  shows "signs_as_server lib cfgB c s v (appendRole (handshakeTranscript lib c s v) ''server'')"
proof -
  let ?m = "appendRole (handshakeTranscript lib c s v) ''server''"
  obtain c' s' v' where H: "c' \<in> H" "s' \<in> H"
    and sg: "signs_as_server lib cfgB c' s' v' ?m \<or> signs_as_client lib cfgB c' s' v' ?m"
    using assms(2,4) unfolding unforgeable_def by blast
  have "\<not> signs_as_client lib cfgB c' s' v' ?m" unfolding signs_as_client_def using roles_differ by blast
  with sg have sv: "signs_as_server lib cfgB c' s' v' ?m" by blast
  then have "handshakeTranscript lib c s v = handshakeTranscript lib c' s' v'"
    by (auto simp: signs_as_server_def appendRole_inj)
  moreover have "0 \<le> v' \<and> v' < 2 ^ 32" using signed_range [OF assms(3)] sv by blast
  ultimately have "c = c' \<and> s = s' \<and> v = v'"
    using transcript_inj [OF assms(1,5,6) H assms(7,8)] by blast
  with sv show ?thesis by simp
qed

lemma client_signature:
  assumes "binding_lib lib H" "unforgeable lib cfgA H" "hc_OurVersion cfgA < 2 ^ 32"
    and "hl_verify lib (Public \<lparr>ik_Private = hc_IdentityKey cfgA\<rparr>) (appendRole (handshakeTranscript lib c s v) ''client'') sig"
    and "c \<in> H" "s \<in> H" "0 \<le> v" "v < 2 ^ 32"
  shows "signs_as_client lib cfgA c s v (appendRole (handshakeTranscript lib c s v) ''client'')"
proof -
  let ?m = "appendRole (handshakeTranscript lib c s v) ''client''"
  obtain c' s' v' where H: "c' \<in> H" "s' \<in> H"
    and sg: "signs_as_server lib cfgA c' s' v' ?m \<or> signs_as_client lib cfgA c' s' v' ?m"
    using assms(2,4) unfolding unforgeable_def by blast
  have "\<not> signs_as_server lib cfgA c' s' v' ?m" unfolding signs_as_server_def using roles_differ by metis
  with sg have sv: "signs_as_client lib cfgA c' s' v' ?m" by blast
  then have "handshakeTranscript lib c s v = handshakeTranscript lib c' s' v'"
    by (auto simp: signs_as_client_def appendRole_inj)
  moreover have "0 \<le> v' \<and> v' < 2 ^ 32" using signed_range [OF assms(3)] sv by blast
  ultimately have "c = c' \<and> s = s' \<and> v = v'"
    using transcript_inj [OF assms(1,5,6) H assms(7,8)] by blast
  with sv show ?thesis by simp
qed

section \<open>Properties\<close>

text \<open>
  C7. A completed handshake authenticates the peer. When the initiator completes with the
  key of an honest node, that node ran the responder side of this very exchange: it
  received exactly the \<open>Hello\<close> sent here, nonce included, accepted it, sent exactly the
  \<open>Hello\<close> received here and settled on the same version; and likewise for the responder.
  In particular nobody can replay an old exchange, reflect a node's own signature back in
  the other role, or talk either side down to another version. The assumptions are that
  signatures cannot be forged and that the hashed transcripts of exchanged \<open>Hello\<close>s do
  not collide.
\<close>

theorem handshake_authenticates:
  assumes "binding_lib lib H" "unforgeable lib peer H" "hc_OurVersion peer < 2 ^ 32" "hc_OurVersion cfg < 2 ^ 32"
    and "prepare lib cfg nonce = Inr (ov, mv, ours)" "ours \<in> H"
    and "\<And>a. readMessage lib MsgAuth (hl_decHelloAuth lib) r1 = Inr a \<Longrightarrow> ha_Hello a \<in> H"
    and "\<And>h. readMessage lib MsgHello (hl_decHello lib) r1 = Inr h \<Longrightarrow> h \<in> H"
    and "hr_PeerPub res = Public \<lparr>ik_Private = hc_IdentityKey peer\<rparr>"
  shows "(InitiateHandshake lib cfg nonce r1 r2 = Inr res \<longrightarrow>
            (\<exists>theirs m. signs_as_server lib peer ours theirs (hr_ProtoVersion res) m \<and>
               res = result_of theirs (hr_ProtoVersion res))) \<and>
         (AcceptHandshake lib cfg nonce r1 r2 = Inr res \<longrightarrow>
            (\<exists>theirs m. signs_as_client lib peer theirs ours (hr_ProtoVersion res) m \<and>
               res = result_of theirs (hr_ProtoVersion res)))"
proof (intro conjI impI)
  note v = negotiated_range [OF _ prepare_version(1,2) [OF assms(5,4)]]
  assume "InitiateHandshake lib cfg nonce r1 r2 = Inr res"
  then obtain frame where "init_auth lib cfg (ov, mv, ours) r1 = Inr (frame, res)"
    using assms(5) by (auto simp: InitiateHandshake_def init_finish_def split: sum.splits)
  then obtain theirs sig v where t: "readMessage lib MsgAuth (hl_decHelloAuth lib) r1 = Inr \<lparr>ha_Hello = theirs, ha_Sig = sig\<rparr>"
    "negotiateVersion ov mv (he_ProtoVersion theirs) = Inr v"
    "hl_verify lib (he_Ed25519Pub theirs) (appendRole (handshakeTranscript lib ours theirs v) ''server'') sig"
    "res = result_of theirs v" by (elim init_auth_ok)
  have "theirs \<in> H" using assms(7) [OF t(1)] by simp
  moreover have "he_Ed25519Pub theirs = Public \<lparr>ik_Private = hc_IdentityKey peer\<rparr>"
    using assms(9) t(4) by (simp add: result_of_def)
  ultimately show "\<exists>theirs m. signs_as_server lib peer ours theirs (hr_ProtoVersion res) m \<and>
               res = result_of theirs (hr_ProtoVersion res)"
    using server_signature [OF assms(1,2,3), of ours theirs v sig] assms(6) t v [OF t(2)]
    by (auto simp: result_of_def)
next
  note v = negotiated_range [OF _ prepare_version(1,2) [OF assms(5,4)]]
  assume "AcceptHandshake lib cfg nonce r1 r2 = Inr res"
  then obtain frame p where r: "resp_auth lib cfg (ov, mv, ours) r1 = Inr (frame, p, res)"
    "\<exists>f. resp_finish lib (p, res) r2 = Inr f"
    using assms(5) by (auto simp: AcceptHandshake_def resp_finish_def split: sum.splits if_splits)
  then obtain theirs v where t: "readMessage lib MsgHello (hl_decHello lib) r1 = Inr theirs"
    "negotiateVersion ov mv (he_ProtoVersion theirs) = Inr v"
    "p = handshakeTranscript lib theirs ours v" "res = result_of theirs v" by (elim resp_auth_ok)
  obtain sig where "hl_verify lib (he_Ed25519Pub theirs) (appendRole (handshakeTranscript lib theirs ours v) ''client'') sig"
    using r(2) t by (auto simp: resp_finish_def result_of_def split: sum.splits if_splits)
  moreover have "theirs \<in> H" using assms(8) [OF t(1)] .
  moreover have "he_Ed25519Pub theirs = Public \<lparr>ik_Private = hc_IdentityKey peer\<rparr>"
    using assms(9) t(4) by (simp add: result_of_def)
  ultimately show "\<exists>theirs m. signs_as_client lib peer theirs ours (hr_ProtoVersion res) m \<and>
               res = result_of theirs (hr_ProtoVersion res)"
    using client_signature [OF assms(1,2,3), of theirs ours v sig] assms(6) t v [OF t(2)]
    by (auto simp: result_of_def)
qed

definition ex_key :: "byte \<Rightarrow> bytes" where
  "ex_key b = replicate 32 b @ replicate 32 (b + 1)"

definition ex_hs :: "byte \<Rightarrow> byte \<Rightarrow> HandshakeConfig" where
  "ex_hs me other = \<lparr>hc_IdentityKey = ex_key me, hc_NodeName = ''n'',
     hc_Token = TokenPrefix @ base64_encode (replicate 32 (me + 1)), hc_OurVersion = 3, hc_MinVersion = 0,
     hc_IsKnownPeer = Some (\<lambda>p. p = replicate 32 (other + 1))\<rparr>"

definition ex_hello :: "byte \<Rightarrow> Hello" where
  "ex_hello me = \<lparr>he_ProtoVersion = 3, he_NodeName = ''n'', he_Ed25519Pub = replicate 32 (me + 1),
     he_Token = TokenPrefix @ base64_encode (replicate 32 (me + 1)), he_Nonce = replicate 32 me\<rparr>"

definition ex_lib0 :: hs_lib where
  "ex_lib0 = \<lparr>hl_sign = (\<lambda>k m. m), hl_verify = (\<lambda>p m s. s = m), hl_sha256 = (\<lambda>b. b),
     hl_encHello = he_Nonce, hl_decHello = (\<lambda>b. Some (ex_hello (hd b))),
     hl_encHelloAuth = (\<lambda>a. he_Nonce (ha_Hello a) @ ha_Sig a),
     hl_decHelloAuth = (\<lambda>b. Some \<lparr>ha_Hello = ex_hello (hd b), ha_Sig = drop 32 b\<rparr>),
     hl_encAuth = (\<lambda>s. s), hl_decAuth = Some, hl_encFinished = [], hl_decFinished = (\<lambda>b. b = []),
     hl_decError = (\<lambda>b. None), hl_decToken = ex_uncbor\<rparr>"

text \<open>A verifier that accepts only the messages of the one exchange between nodes 1 and 3.\<close>

definition ex_proof :: bytes where
  "ex_proof = handshakeTranscript ex_lib0 (ex_hello 1) (ex_hello 3) 3"

definition ex_lib :: hs_lib where
  "ex_lib = ex_lib0\<lparr>hl_verify := (\<lambda>p m s. s = m \<and>
     (p = replicate 32 4 \<and> m = appendRole ex_proof ''server'' \<or>
      p = replicate 32 2 \<and> m = appendRole ex_proof ''client''))\<rparr>"

lemma ex_lib_sel [simp]:
  "hl_sha256 ex_lib b = b" "hl_encHello ex_lib h = he_Nonce h" "hl_decToken ex_lib = ex_uncbor"
  "hl_sign ex_lib k m = m" "hl_decHello ex_lib b = Some (ex_hello (hd b))"
  "hl_encHelloAuth ex_lib a = he_Nonce (ha_Hello a) @ ha_Sig a"
  "hl_decHelloAuth ex_lib b = Some \<lparr>ha_Hello = ex_hello (hd b), ha_Sig = drop 32 b\<rparr>"
  "hl_encAuth ex_lib b = b" "hl_decAuth ex_lib b = Some b" "hl_encFinished ex_lib = []"
  "hl_decFinished ex_lib b \<longleftrightarrow> b = []"
  "hl_verify ex_lib p m s \<longleftrightarrow> s = m \<and>
     (p = replicate 32 4 \<and> m = appendRole ex_proof ''server'' \<or>
      p = replicate 32 2 \<and> m = appendRole ex_proof ''client'')"
  by (simp_all add: ex_lib_def ex_lib0_def)

lemma ex_proof_eq: "handshakeTranscript ex_lib (ex_hello 1) (ex_hello 3) 3 = ex_proof"
  by (simp add: ex_proof_def ex_lib_def ex_lib0_def handshakeTranscript_def transcript_input_def)

lemma ex_token: "ParseToken ex_uncbor (TokenPrefix @ base64_encode (replicate 32 b)) =
    Inr \<lparr>nt_TailcatAddr = [], nt_ID = replicate 32 b, nt_Name = []\<rparr>"
  by (simp add: ParseToken_def base64_round_trip has_prefix_iff ex_uncbor_def ed25519_PublicKeySize_def)

lemma ex_prepare: "prepare ex_lib (ex_hs me other) (replicate 32 me) = Inr (3, 3, ex_hello me)"
  by (simp add: prepare_def ex_hs_def ex_key_def ed25519_PrivateKeySize_def checkOwnToken_def ex_token
      Public_def ex_hello_def CurrentProtoVersion_def Let_def)

lemma ex_validate:
  "other + 1 \<noteq> 0 \<Longrightarrow> validatePeerHello ex_lib (ex_hs me other) 3 3 (ex_hello other) = ok"
  by (simp add: validatePeerHello_def validateHelloShape_def ex_hello_def ed25519_PublicKeySize_def isAllZero_def
      nonceSize_def ex_token negotiateVersion_def ex_hs_def list_all_iff)

lemma ex_negotiate: "negotiateVersion 3 3 (he_ProtoVersion (ex_hello b)) = Inr 3"
  by (simp add: negotiateVersion_def ex_hello_def)

lemma ex_unforgeable: "unforgeable ex_lib (ex_hs 3 1) {ex_hello 1, ex_hello 3}"
proof -
  have p: "Public \<lparr>ik_Private = hc_IdentityKey (ex_hs 3 1)\<rparr> = replicate 32 4"
    by (simp add: Public_def ex_hs_def ex_key_def)
  have "signs_as_server ex_lib (ex_hs 3 1) (ex_hello 1) (ex_hello 3) 3 (appendRole ex_proof ''server'')"
    unfolding signs_as_server_def ex_proof_eq
    using ex_prepare [of 3 1] ex_validate [of 1 3] ex_negotiate [of 1] by force
  moreover have "hl_verify ex_lib (replicate 32 4) m s \<Longrightarrow> m = appendRole ex_proof ''server''" for m s
    by (simp add: replicate_eq_replicate)
  ultimately show ?thesis unfolding unforgeable_def p by blast
qed

lemma ex_binding: "binding_lib ex_lib {ex_hello 1, ex_hello 3}"
  by (auto simp: binding_lib_def inj_on_def ex_hello_def)

definition ex_r1 :: received where
  "ex_r1 = Inr (MsgAuth, replicate 32 3 @ appendRole ex_proof ''server'')"

lemma ex_read: "readMessage ex_lib MsgAuth (hl_decHelloAuth ex_lib) ex_r1 =
    Inr \<lparr>ha_Hello = ex_hello 3, ha_Sig = appendRole ex_proof ''server''\<rparr>"
  by (simp add: readMessage_def readExpected_def ex_r1_def MsgType_defs)

lemma ex_init: "InitiateHandshake ex_lib (ex_hs 1 3) (replicate 32 1) ex_r1 (Inr (MsgFinished, [])) =
    Inr (result_of (ex_hello 3) 3)"
proof -
  have "he_Ed25519Pub (ex_hello 3) = replicate 32 4" by (simp add: ex_hello_def)
  then have "init_auth ex_lib (ex_hs 1 3) (3, 3, ex_hello 1) ex_r1 =
      Inr ((MsgAuth, appendRole ex_proof ''client''), result_of (ex_hello 3) 3)"
    using ex_read ex_validate [of 3 1] ex_negotiate [of 3] ex_proof_eq by (simp add: init_auth_def Let_def)
  then show ?thesis
    by (simp add: InitiateHandshake_def ex_prepare init_finish_def readMessage_def readExpected_def MsgType_defs)
qed

theorem handshake_authenticates_witness:
  "\<exists>theirs m. signs_as_server ex_lib (ex_hs 3 1) (ex_hello 1) theirs 3 m \<and>
     result_of (ex_hello 3) 3 = result_of theirs 3"
proof -
  have "readMessage ex_lib MsgHello (hl_decHello ex_lib) ex_r1 \<noteq> Inr h" for h
    by (simp add: readMessage_def readExpected_def ex_r1_def MsgType_defs)
  moreover have "hr_PeerPub (result_of (ex_hello 3) 3) = Public \<lparr>ik_Private = hc_IdentityKey (ex_hs 3 1)\<rparr>"
    by (simp add: result_of_def ex_hello_def Public_def ex_hs_def ex_key_def)
  moreover have "hr_ProtoVersion (result_of (ex_hello 3) 3) = 3" by (simp add: result_of_def)
  ultimately show ?thesis
    using handshake_authenticates [OF ex_binding ex_unforgeable, of "ex_hs 1 3" "replicate 32 1" 3 3 "ex_hello 1" ex_r1
        "result_of (ex_hello 3) 3" "Inr (MsgFinished, [])"]
      ex_init ex_prepare [of 1 3] ex_read
    by (simp add: ex_hs_def)
qed

text \<open>
  C26. Two honest nodes always connect. When each knows the other's key, both tokens are
  sound, the nonces have the right length and the versions overlap, the four frames of the
  exchange are accepted in order, both sides finish, and they agree on the lower of the
  two versions and on who they are talking to.
\<close>

theorem handshake_completes:
  assumes A: "prepare lib cfgA nonceA = Inr (ovA, mvA, hA)" and B: "prepare lib cfgB nonceB = Inr (ovB, mvB, hB)"
    and small: "hc_OurVersion cfgA < 2 ^ 32" "hc_OurVersion cfgB < 2 ^ 32"
    and knows: "hc_IsKnownPeer cfgA = Some kA" "kA (he_Ed25519Pub hB)" "hc_IsKnownPeer cfgB = Some kB" "kB (he_Ed25519Pub hA)"
    and shape: "length nonceA = 32" "length nonceB = 32" "\<not> isAllZero (he_Ed25519Pub hA)" "\<not> isAllZero (he_Ed25519Pub hB)"
    and versions: "mvA \<le> min ovA ovB" "mvB \<le> min ovA ovB"
    and codec: "hl_decHello lib (hl_encHello lib hA) = Some hA" "hl_decFinished lib (hl_encFinished lib)"
      "\<And>sig. hl_decHelloAuth lib (hl_encHelloAuth lib \<lparr>ha_Hello = hB, ha_Sig = sig\<rparr>) = Some \<lparr>ha_Hello = hB, ha_Sig = sig\<rparr>"
      "\<And>sig. hl_decAuth lib (hl_encAuth lib sig) = Some sig"
    and verify: "hl_verify lib (he_Ed25519Pub hB) (appendRole (handshakeTranscript lib hA hB (min ovA ovB)) ''server'')
          (hl_sign lib (hc_IdentityKey cfgB) (appendRole (handshakeTranscript lib hA hB (min ovA ovB)) ''server''))"
      "hl_verify lib (he_Ed25519Pub hA) (appendRole (handshakeTranscript lib hA hB (min ovA ovB)) ''client'')
          (hl_sign lib (hc_IdentityKey cfgA) (appendRole (handshakeTranscript lib hA hB (min ovA ovB)) ''client''))"
  shows "\<exists>f2 p f3 f4.
     resp_auth lib cfgB (ovB, mvB, hB) (Inr (MsgHello, hl_encHello lib hA)) = Inr (f2, p, result_of hA (min ovA ovB)) \<and>
     init_auth lib cfgA (ovA, mvA, hA) (Inr f2) = Inr (f3, result_of hB (min ovA ovB)) \<and>
     resp_finish lib (p, result_of hA (min ovA ovB)) (Inr f3) = Inr (f4, result_of hA (min ovA ovB)) \<and>
     init_finish lib (result_of hB (min ovA ovB)) (Inr f4) = Inr (result_of hB (min ovA ovB))"
proof -
  let ?v = "min ovA ovB" and ?t = "handshakeTranscript lib hA hB (min ovA ovB)"
  note pA = prepare_version [OF A small(1)] and pB = prepare_version [OF B small(2)]
  have negA: "negotiateVersion ovA mvA (he_ProtoVersion hB) = Inr ?v"
    using versions pA pB by (auto simp: negotiateVersion_def Let_def)
  have negB: "negotiateVersion ovB mvB (he_ProtoVersion hA) = Inr ?v"
    using versions pA pB by (auto simp: negotiateVersion_def Let_def)
  have shapeA: "validateHelloShape lib hA = ok" using prepared_shape [OF A small(1)] shape by simp
  have shapeB: "validateHelloShape lib hB = ok" using prepared_shape [OF B small(2)] shape by simp
  have okA: "validatePeerHello lib cfgA ovA mvA hB = ok"
    using shapeB negA knows by (simp add: validatePeerHello_def)
  have okB: "validatePeerHello lib cfgB ovB mvB hA = ok"
    using shapeA negB knows by (simp add: validatePeerHello_def)
  let ?sB = "hl_sign lib (hc_IdentityKey cfgB) (appendRole ?t ''server'')"
  let ?sA = "hl_sign lib (hc_IdentityKey cfgA) (appendRole ?t ''client'')"
  let ?f2 = "(MsgAuth, hl_encHelloAuth lib \<lparr>ha_Hello = hB, ha_Sig = ?sB\<rparr>)"
  let ?f3 = "(MsgAuth, hl_encAuth lib ?sA)" and ?f4 = "(MsgFinished, hl_encFinished lib)"
  note read = readMessage_def readExpected_def MsgType_defs
  have "resp_auth lib cfgB (ovB, mvB, hB) (Inr (MsgHello, hl_encHello lib hA)) = Inr (?f2, ?t, result_of hA ?v)"
    using okB negB codec(1) by (simp add: resp_auth_def read Let_def)
  moreover have "init_auth lib cfgA (ovA, mvA, hA) (Inr ?f2) = Inr (?f3, result_of hB ?v)"
    using okA negA codec(3) verify(1) by (simp add: init_auth_def read Let_def)
  moreover have "resp_finish lib (?t, result_of hA ?v) (Inr ?f3) = Inr (?f4, result_of hA ?v)"
    using codec(4) verify(2) by (simp add: resp_finish_def read result_of_def)
  moreover have "init_finish lib (result_of hB ?v) (Inr ?f4) = Inr (result_of hB ?v)"
    using codec(2) by (simp add: init_finish_def read)
  ultimately show ?thesis by blast
qed

theorem handshake_completes_witness:
  "\<exists>f2 p f3 f4.
     resp_auth ex_lib (ex_hs 3 1) (3, 3, ex_hello 3) (Inr (MsgHello, replicate 32 1)) = Inr (f2, p, result_of (ex_hello 1) 3) \<and>
     init_auth ex_lib (ex_hs 1 3) (3, 3, ex_hello 1) (Inr f2) = Inr (f3, result_of (ex_hello 3) 3) \<and>
     resp_finish ex_lib (p, result_of (ex_hello 1) 3) (Inr f3) = Inr (f4, result_of (ex_hello 1) 3) \<and>
     init_finish ex_lib (result_of (ex_hello 3) 3) (Inr f4) = Inr (result_of (ex_hello 3) 3)"
proof -
  have h: "he_Nonce (ex_hello b) = replicate 32 b" "he_Ed25519Pub (ex_hello b) = replicate 32 (b + 1)" for b
    by (simp_all add: ex_hello_def)
  have z: "\<not> isAllZero (replicate 32 (2 :: byte))" "\<not> isAllZero (replicate 32 (4 :: byte))"
    by (simp_all add: isAllZero_def list_all_iff)
  show ?thesis
    using handshake_completes [OF ex_prepare [of 1 3] ex_prepare [of 3 1]] z
    by (simp add: h ex_hs_def ex_proof_eq)
qed

end
