(* ===== verification/Keepalive.thy ===== *)
theory Keepalive
  imports Prelude
begin

text \<open>
  The keepalive timer of \<^verbatim>\<open>internal/protocol/keepalive.go\<close>. Times are nanoseconds as
  integers. \<open>Run\<close> is a loop that may go on forever, so it is a partial function: \<open>None\<close>
  means that it has not returned. What happens around it is given by functions of the round
  number: whether the context was done, the clock at the check, and what the session
  recorded since the last round; its \<open>onPing\<close> callback sends a ping, which the session
  records as sent.
\<close>

definition DefaultPingInterval :: int where "DefaultPingInterval = 30000000000"
definition DefaultDeadAfter :: int where "DefaultDeadAfter = 90000000000"
definition DefaultKeepaliveCheckInterval :: int where "DefaultKeepaliveCheckInterval = 5000000000"

record Keepalive =
  ka_pingInterval :: int
  ka_deadAfter :: int
  ka_lastSent :: int
  ka_lastRecv :: int

definition NewKeepalive :: "int \<Rightarrow> int \<Rightarrow> int \<Rightarrow> Keepalive" where
  "NewKeepalive now pingInterval deadAfter =
     \<lparr>ka_pingInterval = (if pingInterval \<le> 0 then DefaultPingInterval else pingInterval),
      ka_deadAfter = (if deadAfter \<le> 0 then DefaultDeadAfter else deadAfter),
      ka_lastSent = now, ka_lastRecv = now\<rparr>"

definition RecordSent :: "int \<Rightarrow> Keepalive \<Rightarrow> Keepalive" where
  "RecordSent now k = k\<lparr>ka_lastSent := now\<rparr>"

definition RecordReceived :: "int \<Rightarrow> Keepalive \<Rightarrow> Keepalive" where
  "RecordReceived now k = k\<lparr>ka_lastRecv := now\<rparr>"

definition NeedsPing :: "int \<Rightarrow> Keepalive \<Rightarrow> bool" where
  "NeedsPing now k \<longleftrightarrow> \<not> now < ka_lastSent k + ka_pingInterval k"

definition Dead :: "int \<Rightarrow> Keepalive \<Rightarrow> bool" where
  "Dead now k \<longleftrightarrow> \<not> now < ka_lastRecv k + ka_deadAfter k"

datatype run_end = Cancelled nat | DeclaredDead nat

partial_function (option) Run ::
  "(nat \<Rightarrow> bool) \<Rightarrow> (nat \<Rightarrow> int) \<Rightarrow> (nat \<Rightarrow> Keepalive \<Rightarrow> Keepalive) \<Rightarrow> nat \<Rightarrow> Keepalive \<Rightarrow> run_end option" where
  "Run ctxDone clock activity i k =
     (if ctxDone i then Some (Cancelled i)
      else let k1 = activity i k in
           if Dead (clock i) k1 then Some (DeclaredDead i)
           else Run ctxDone clock activity (Suc i)
                  (if NeedsPing (clock i) k1 then RecordSent (clock i) k1 else k1))"

declare Run.simps [code]

text \<open>A silent peer: the session may record sends, but nothing is received.\<close>

definition silent :: "(nat \<Rightarrow> Keepalive \<Rightarrow> Keepalive) \<Rightarrow> bool" where
  "silent activity \<longleftrightarrow>
     (\<forall>i k. ka_lastRecv (activity i k) = ka_lastRecv k \<and> ka_deadAfter (activity i k) = ka_deadAfter k)"

lemma Run_silent:
  assumes "silent activity" "\<And>i. \<not> ctxDone i" "clock (i + n) \<ge> ka_lastRecv k + ka_deadAfter k"
    and "\<And>j. j < n \<Longrightarrow> clock (i + j) < ka_lastRecv k + ka_deadAfter k"
  shows "Run ctxDone clock activity i k = Some (DeclaredDead (i + n))"
  using assms(3,4)
proof (induction n arbitrary: i k)
  case 0
  have "ka_lastRecv (activity i k) + ka_deadAfter (activity i k) = ka_lastRecv k + ka_deadAfter k"
    using assms(1) by (simp add: silent_def)
  then have "Dead (clock i) (activity i k)" using 0 by (simp add: Dead_def)
  then show ?case using assms(2) by (subst Run.simps) (simp add: Let_def)
next
  case (Suc n)
  let ?k = "activity i k"
  let ?k' = "if NeedsPing (clock i) ?k then RecordSent (clock i) ?k else ?k"
  have k: "ka_lastRecv ?k' = ka_lastRecv k" "ka_deadAfter ?k' = ka_deadAfter k"
    using assms(1) by (simp_all add: silent_def RecordSent_def)
  have "clock i < ka_lastRecv k + ka_deadAfter k" using Suc.prems(2) [of 0] by simp
  then have "\<not> Dead (clock i) ?k" using assms(1) by (simp add: Dead_def silent_def)
  then have "Run ctxDone clock activity i k = Run ctxDone clock activity (Suc i) ?k'"
    using assms(2) by (subst Run.simps) (simp add: Let_def)
  also have "\<dots> = Some (DeclaredDead (Suc i + n))"
  proof (rule Suc.IH)
    show "clock (Suc i + n) \<ge> ka_lastRecv ?k' + ka_deadAfter ?k'" unfolding k using Suc.prems(1) by simp
    show "clock (Suc i + j) < ka_lastRecv ?k' + ka_deadAfter ?k'" if "j < n" for j
      unfolding k using Suc.prems(2) [of "Suc j"] that by simp
  qed
  finally show ?case by simp
qed

text \<open>
  C27. A silent peer is declared dead, on time. When checks come every \<open>c\<close> nanoseconds and
  nothing is received any more, \<open>Run\<close> returns, after at most \<open>deadAfter / c + 1\<close> rounds,
  never before the full dead interval has passed since the last receive, and at most one
  check interval after it; pings the timer itself sends in the meantime do not postpone it.
\<close>

theorem silent_peer_declared_dead:
  assumes "silent activity" "\<And>i. \<not> ctxDone i" "0 < c" "0 < ka_deadAfter k"
    and "\<And>i. clock i = ka_lastRecv k + (int i + 1) * c"
  shows "\<exists>n. Run ctxDone clock activity 0 k = Some (DeclaredDead n) \<and>
           int n \<le> ka_deadAfter k div c + 1 \<and>
           ka_lastRecv k + ka_deadAfter k \<le> clock n \<and> clock n < ka_lastRecv k + ka_deadAfter k + c"
proof -
  let ?d = "ka_deadAfter k"
  define n where "n = nat ((?d - 1) div c)"
  define r where "r = (?d - 1) mod c"
  have n: "int n = (?d - 1) div c" using assms(3,4) by (simp add: n_def pos_imp_zdiv_nonneg_iff)
  have d: "?d = int n * c + r + 1"
    unfolding n r_def using div_mult_mod_eq [of "?d - 1" c] by linarith
  have r: "0 \<le> r" "r < c" using assms(3) by (simp_all add: r_def)
  have e: "(int n + 1) * c = int n * c + c" by (simp add: distrib_right)
  have lo: "?d \<le> (int n + 1) * c" and hi: "(int n + 1) * c < ?d + c"
    unfolding e using d r by linarith+
  have early: "clock j < ka_lastRecv k + ?d" if "j < n" for j
  proof -
    have "(int j + 1) * c \<le> int n * c" using that assms(3) by (intro mult_right_mono) auto
    also have "\<dots> < ?d" using d r by linarith
    finally show ?thesis by (simp add: assms(5))
  qed
  have "Run ctxDone clock activity 0 k = Some (DeclaredDead (0 + n))"
    using assms(1,2) lo early by (intro Run_silent) (simp_all add: assms(5))
  moreover have "int n \<le> ?d div c + 1" using n zdiv_mono1 [of "?d - 1" ?d c] assms(3) by simp
  ultimately show ?thesis using lo hi by (intro exI [of _ n]) (simp add: assms(5))
qed

theorem silent_peer_declared_dead_witness:
  "\<exists>n. Run (\<lambda>_. False) (\<lambda>i. (int i + 1) * DefaultKeepaliveCheckInterval) (\<lambda>_ k. k) 0 (NewKeepalive 0 0 0) =
     Some (DeclaredDead n) \<and> int n \<le> 19"
  using silent_peer_declared_dead [of "\<lambda>_ k. k" "\<lambda>_. False" DefaultKeepaliveCheckInterval "NewKeepalive 0 0 0"
      "\<lambda>i. (int i + 1) * DefaultKeepaliveCheckInterval"]
  by (auto simp: silent_def NewKeepalive_def DefaultKeepaliveCheckInterval_def DefaultDeadAfter_def)

end
