(* ===== verification/Disk.thy ===== *)
theory Disk
  imports SharePath "HOL-Library.Sublist"
begin

text \<open>
  The file system calls that \<^verbatim>\<open>internal/sync/trash.go\<close> and \<^verbatim>\<open>internal/sync/apply.go\<close> make,
  as functions of a disk. A path is the list of its elements. The disk lists every entry;
  an event log is kept as its lines rather than as their JSON text. Any call may fail at any
  time without having done anything: \<open>w_fault\<close> says which ones do, by their position in the
  sequence of calls, so that a statement for all disks holds for every pattern of failures;
  \<open>w_done\<close> says likewise when the caller's context is cancelled. \<open>w_now\<close> is the clock.
  A path that leads through a symbolic link is an error here (the callers check for such
  links first), and no other process changes the disk meanwhile.
\<close>

section \<open>Disks\<close>

type_synonym fkey = "string list"

datatype logline =
    LogHeader int string string
  | LogItem string string string

datatype fnode = FDir | FSym string | FFile bytes "32 word" int | FLog "logline list"

type_synonym disk = "(fkey \<times> fnode) list"

datatype oserr = ENOENT | EEXIST | EXDEV | EOTHER

datatype fault = Fine | Fails | CrossDevice

record world =
  w_disk :: disk
  w_fault :: "nat \<Rightarrow> fault"
  w_tick :: nat
  w_done :: "nat \<Rightarrow> bool"
  w_now :: int

abbreviation node_at :: "world \<Rightarrow> fkey \<Rightarrow> fnode option" where
  "node_at w \<equiv> map_of (w_disk w)"

definition fkey_of :: "string \<Rightarrow> fkey" where
  "fkey_of p = split_on slash p"

definition put_node :: "fkey \<Rightarrow> fnode \<Rightarrow> disk \<Rightarrow> disk" where
  "put_node k n d = (k, n) # filter (\<lambda>e. fst e \<noteq> k) d"

definition del_node :: "fkey \<Rightarrow> disk \<Rightarrow> disk" where
  "del_node k d = filter (\<lambda>e. fst e \<noteq> k) d"

definition del_tree :: "fkey \<Rightarrow> disk \<Rightarrow> disk" where
  "del_tree k d = filter (\<lambda>e. \<not> prefix k (fst e)) d"

text \<open>Moving an entry with everything below it, replacing what is at the destination.\<close>

definition move_tree :: "fkey \<Rightarrow> fkey \<Rightarrow> disk \<Rightarrow> disk" where
  "move_tree src dst d =
     map (\<lambda>e. (if prefix src (fst e) then dst @ drop (length src) (fst e) else fst e, snd e))
       (del_tree dst d)"

definition has_children :: "fkey \<Rightarrow> disk \<Rightarrow> bool" where
  "has_children k d = list_ex (\<lambda>e. strict_prefix k (fst e)) d"

text \<open>The directories above a path, outermost first.\<close>

definition parents :: "fkey \<Rightarrow> fkey list" where
  "parents k = filter (\<lambda>p. p \<noteq> [] \<and> p \<noteq> k) (prefixes k)"

text \<open>The error for a path that is not there: something other than a directory above it
  is not \<open>os.IsNotExist\<close>.\<close>

definition stat_err :: "disk \<Rightarrow> fkey \<Rightarrow> oserr" where
  "stat_err d k =
     (if list_ex (\<lambda>p. case map_of d p of None \<Rightarrow> False | Some n \<Rightarrow> n \<noteq> FDir) (parents k)
      then EOTHER else ENOENT)"

section \<open>Calls\<close>

definition faulty :: "world \<Rightarrow> bool" where
  "faulty w \<longleftrightarrow> w_fault w (w_tick w) \<noteq> Fine"

definition tick :: "world \<Rightarrow> world" where
  "tick w = w\<lparr>w_tick := Suc (w_tick w)\<rparr>"

definition with_disk :: "world \<Rightarrow> disk \<Rightarrow> world" where
  "with_disk w d = (tick w)\<lparr>w_disk := d\<rparr>"

definition os_lstat :: "fkey \<Rightarrow> world \<Rightarrow> (oserr + fnode) \<times> world" where
  "os_lstat k w =
     (if faulty w then Inl EOTHER
      else case node_at w k of Some n \<Rightarrow> Inr n | None \<Rightarrow> Inl (stat_err (w_disk w) k), tick w)"

definition os_mkdir :: "fkey \<Rightarrow> world \<Rightarrow> oserr err \<times> world" where
  "os_mkdir k w =
     (if faulty w then (Some EOTHER, tick w)
      else if node_at w k \<noteq> None then (Some EEXIST, tick w)
      else if node_at w (butlast k) \<noteq> Some FDir then (Some (stat_err (w_disk w) k), tick w)
      else (ok, with_disk w (put_node k FDir (w_disk w))))"

text \<open>\<open>os.MkdirAll\<close>: the missing directories, one by one.\<close>

fun mkdir_each :: "fkey list \<Rightarrow> world \<Rightarrow> oserr err \<times> world" where
  "mkdir_each [] w = (ok, w)"
| "mkdir_each (k # ks) w =
     (case os_lstat k w of
        (Inr FDir, w1) \<Rightarrow> mkdir_each ks w1
      | (Inl ENOENT, w1) \<Rightarrow>
          (case os_mkdir k w1 of (None, w2) \<Rightarrow> mkdir_each ks w2 | (Some e, w2) \<Rightarrow> (Some e, w2))
      | (_, w1) \<Rightarrow> (Some EOTHER, w1))"

definition os_MkdirAll :: "fkey \<Rightarrow> world \<Rightarrow> oserr err \<times> world" where
  "os_MkdirAll k w = mkdir_each (parents k @ [k]) w"

text \<open>\<open>O_CREATE|O_EXCL\<close> with the node the new file starts as.\<close>

definition os_create :: "fkey \<Rightarrow> fnode \<Rightarrow> world \<Rightarrow> oserr err \<times> world" where
  "os_create k n w =
     (if faulty w then (Some EOTHER, tick w)
      else if node_at w k \<noteq> None then (Some EEXIST, tick w)
      else if node_at w (butlast k) \<noteq> Some FDir then (Some (stat_err (w_disk w) k), tick w)
      else (ok, with_disk w (put_node k n (w_disk w))))"

text \<open>A call on a file that this process has open: replaces its node.\<close>

definition os_update :: "fkey \<Rightarrow> (fnode \<Rightarrow> fnode) \<Rightarrow> world \<Rightarrow> oserr err \<times> world" where
  "os_update k f w =
     (if faulty w then (Some EOTHER, tick w)
      else case node_at w k of
             None \<Rightarrow> (Some ENOENT, tick w)
           | Some n \<Rightarrow> (ok, with_disk w (put_node k (f n) (w_disk w))))"

definition os_remove :: "fkey \<Rightarrow> world \<Rightarrow> oserr err \<times> world" where
  "os_remove k w =
     (if faulty w then (Some EOTHER, tick w)
      else case node_at w k of
             None \<Rightarrow> (Some (stat_err (w_disk w) k), tick w)
           | Some n \<Rightarrow> if n = FDir \<and> has_children k (w_disk w) then (Some EOTHER, tick w)
                       else (ok, with_disk w (del_node k (w_disk w))))"

text \<open>\<open>os.RemoveAll\<close>: removing nothing is not an error.\<close>

definition os_RemoveAll :: "fkey \<Rightarrow> world \<Rightarrow> oserr err \<times> world" where
  "os_RemoveAll k w =
     (if faulty w then (Some EOTHER, tick w) else (ok, with_disk w (del_tree k (w_disk w))))"

text \<open>\<open>rename(2)\<close>: a file replaces a file or link, a directory only an empty directory,
  and nothing moves into itself or onto a directory above it.\<close>

definition os_rename :: "fkey \<Rightarrow> fkey \<Rightarrow> world \<Rightarrow> oserr err \<times> world" where
  "os_rename src dst w =
     (case w_fault w (w_tick w) of
        Fails \<Rightarrow> (Some EOTHER, tick w)
      | CrossDevice \<Rightarrow> (Some EXDEV, tick w)
      | Fine \<Rightarrow>
         (case node_at w src of
            None \<Rightarrow> (Some (stat_err (w_disk w) src), tick w)
          | Some n \<Rightarrow>
             if src = dst then (ok, tick w)
             else if prefix src dst \<or> prefix dst src then (Some EOTHER, tick w)
             else if node_at w (butlast dst) \<noteq> Some FDir then (Some (stat_err (w_disk w) dst), tick w)
             else if has_children dst (w_disk w) \<or>
                     (case node_at w dst of None \<Rightarrow> False | Some m \<Rightarrow> (n = FDir) \<noteq> (m = FDir))
             then (Some EOTHER, tick w)
             else (ok, with_disk w (if n = FDir then move_tree src dst (w_disk w)
                                    else put_node dst n (del_node src (w_disk w))))))"

text \<open>What \<open>JoinSharePath\<close> sees.\<close>

definition lstat_view :: "world \<Rightarrow> string \<Rightarrow> lstat_result" where
  "lstat_view w p =
     (if faulty w then LError
      else case node_at w (fkey_of p) of
             None \<Rightarrow> if stat_err (w_disk w) (fkey_of p) = ENOENT then LNotExist else LNotDir
           | Some FDir \<Rightarrow> LDirectory
           | Some (FSym t) \<Rightarrow> LSymlink
           | Some n \<Rightarrow> LOther)"

definition join_in :: "string \<Rightarrow> string \<Rightarrow> world \<Rightarrow> (join_err + string) \<times> world" where
  "join_in root relpath w = (JoinSharePath (lstat_view w) root relpath, tick w)"

section \<open>What a call leaves\<close>

lemma map_of_put_node [simp]: "map_of (put_node k n d) j = (if j = k then Some n else map_of d j)"
  by (induction d) (auto simp: put_node_def)

lemma map_of_del_node [simp]: "map_of (del_node k d) j = (if j = k then None else map_of d j)"
  by (induction d) (auto simp: del_node_def)

lemma map_of_del_tree [simp]: "map_of (del_tree k d) j = (if prefix k j then None else map_of d j)"
  by (induction d) (auto simp: del_tree_def)

lemma move_key_eq:
  assumes "\<not> prefix dst k"
  shows "(if prefix src k then dst @ drop (length src) k else k) = j \<longleftrightarrow>
           k = (if prefix dst j then src @ drop (length dst) j else j) \<and> (prefix dst j \<or> \<not> prefix src j)"
  using assms by (auto simp: prefix_def)

lemma map_of_move_tree:
  assumes "\<not> prefix dst src" "\<not> prefix src dst"
  shows "map_of (move_tree src dst d) j =
           (if prefix dst j then map_of d (src @ drop (length dst) j)
            else if prefix src j then None else map_of d j)"
proof (induction d)
  case (Cons e d)
  obtain k n where e: "e = (k, n)" by (cases e)
  have nd: "\<not> prefix dst (src @ s)" for s
    using assms prefix_same_cases [of dst "src @ s" src] by auto
  show ?case
  proof (cases "prefix dst k")
    case True
    then have "move_tree src dst (e # d) = move_tree src dst d"
      by (simp add: move_tree_def del_tree_def e)
    moreover have "src @ s \<noteq> k" for s using nd True by metis
    ultimately show ?thesis using Cons True by (auto simp: e)
  next
    case False
    then have "move_tree src dst (e # d) =
        (if prefix src k then dst @ drop (length src) k else k, n) # move_tree src dst d"
      by (simp add: move_tree_def del_tree_def e)
    with Cons move_key_eq [OF False, of src j] show ?thesis by (auto simp: e)
  qed
qed (simp add: move_tree_def del_tree_def)

text \<open>The user's data: what a file holds and where a link points.\<close>

fun data_of :: "fnode option \<Rightarrow> (bytes + string) option" where
  "data_of (Some (FFile c m t)) = Some (Inl c)"
| "data_of (Some (FSym t)) = Some (Inr t)"
| "data_of _ = None"

definition data_at :: "world \<Rightarrow> fkey \<Rightarrow> (bytes + string) option" where
  "data_at w k = data_of (node_at w k)"

text \<open>Nothing is lost from one world to the next, but data may have moved into \<open>A\<close>.\<close>

definition kept :: "fkey set \<Rightarrow> world \<Rightarrow> world \<Rightarrow> bool" where
  "kept A w w' \<longleftrightarrow>
     (\<forall>k c. data_at w k = Some c \<longrightarrow> data_at w' k = Some c \<or> (\<exists>q \<in> A. data_at w' q = Some c))"

lemma kept_refl [simp]: "kept A w w"
  by (simp add: kept_def)

lemma kept_trans: "kept A w w' \<Longrightarrow> kept B w' w'' \<Longrightarrow> B \<subseteq> A \<Longrightarrow> kept A w w''"
  unfolding kept_def by (meson subsetD)

lemma kept_step: "kept A w w' \<Longrightarrow> kept A w' w'' \<Longrightarrow> kept A w w''"
  by (rule kept_trans) auto

lemma kept_mono: "kept A w w' \<Longrightarrow> A \<subseteq> B \<Longrightarrow> kept B w w'"
  unfolding kept_def by (meson subsetD)

text \<open>Entries only appear, or are logs that grow.\<close>

definition same_node :: "fnode \<Rightarrow> fnode \<Rightarrow> bool" where
  "same_node n m \<longleftrightarrow> n = m \<or> (case (n, m) of (FLog a, FLog b) \<Rightarrow> True | _ \<Rightarrow> False)"

lemma same_node_refl [simp]: "same_node n n"
  by (simp add: same_node_def)

lemma same_node_trans: "same_node a b \<Longrightarrow> same_node b c \<Longrightarrow> same_node a c"
  by (auto simp: same_node_def split: fnode.splits)

lemma same_node_data: "same_node a b \<Longrightarrow> data_of (Some a) = data_of (Some b)"
  by (auto simp: same_node_def split: fnode.splits)

definition grows :: "world \<Rightarrow> world \<Rightarrow> bool" where
  "grows w w' \<longleftrightarrow> (\<forall>k n. node_at w k = Some n \<longrightarrow> (\<exists>m. node_at w' k = Some m \<and> same_node n m))"

lemma grows_refl [simp]: "grows w w"
  by (auto simp: grows_def)

lemma grows_trans: "grows w w' \<Longrightarrow> grows w' w'' \<Longrightarrow> grows w w''"
  unfolding grows_def by (metis same_node_trans)

lemma grows_kept: "grows w w' \<Longrightarrow> kept A w w'"
  unfolding grows_def kept_def data_at_def
proof (intro allI impI disjI1)
  fix k c assume g: "\<forall>k n. node_at w k = Some n \<longrightarrow> (\<exists>m. node_at w' k = Some m \<and> same_node n m)"
    and c: "data_of (node_at w k) = Some c"
  then obtain n where "node_at w k = Some n" by (cases "node_at w k") auto
  with g c show "data_of (node_at w' k) = Some c" using same_node_data by force
qed

lemma tick_disk [simp]: "w_disk (tick w) = w_disk w" and with_disk_disk [simp]: "w_disk (with_disk w d) = d"
  by (simp_all add: tick_def with_disk_def)

lemma grows_same_disk: "w_disk w' = w_disk w \<Longrightarrow> grows w w'"
  by (auto simp: grows_def)

lemma lstat_disk [simp]: "w_disk (snd (os_lstat k w)) = w_disk w"
  by (simp add: os_lstat_def)

lemma lstat_ok: "os_lstat k w = (Inr n, w') \<Longrightarrow> node_at w k = Some n \<and> w_disk w' = w_disk w"
  by (auto simp: os_lstat_def split: if_splits option.splits)

lemma lstat_absent: "os_lstat k w = (Inl ENOENT, w') \<Longrightarrow> node_at w k = None \<and> w_disk w' = w_disk w"
  by (auto simp: os_lstat_def split: if_splits option.splits)

lemma join_disk [simp]: "w_disk (snd (join_in r p w)) = w_disk w"
  by (simp add: join_in_def)

lemma grows_put: "node_at w k = None \<Longrightarrow> grows w (with_disk w (put_node k n (w_disk w)))"
  by (auto simp: grows_def)

lemma mkdir_grows: "grows w (snd (os_mkdir k w))"
  by (auto simp: os_mkdir_def grows_put grows_same_disk)

lemma create_grows: "grows w (snd (os_create k n w))"
  by (auto simp: os_create_def grows_put grows_same_disk)

lemma create_ok:
  "os_create k n w = (ok, w') \<Longrightarrow> node_at w k = None \<and> node_at w' = (node_at w)(k \<mapsto> n)"
  by (auto simp: os_create_def fun_eq_iff split: if_splits)

lemma mkdir_ok: "os_mkdir k w = (ok, w') \<Longrightarrow> node_at w k = None \<and> node_at w' = (node_at w)(k \<mapsto> FDir)"
  by (auto simp: os_mkdir_def fun_eq_iff split: if_splits)

lemma mkdir_each_grows: "grows w (snd (mkdir_each ks w))"
proof (induction ks arbitrary: w)
  case (Cons k ks)
  obtain r w1 where l: "os_lstat k w = (r, w1)" by (cases "os_lstat k w")
  then have w1: "grows w w1" using lstat_disk [of k w] by (simp add: grows_same_disk)
  obtain e w2 where m: "os_mkdir k w1 = (e, w2)" by (cases "os_mkdir k w1")
  then have w2: "grows w w2" using mkdir_grows [of w1 k] w1 by (auto intro: grows_trans)
  show ?case using Cons [of w1] Cons [of w2] w1 w2
    by (auto simp: l m intro: grows_trans split: sum.splits oserr.splits option.splits fnode.splits)
qed simp

lemma MkdirAll_grows: "grows w (snd (os_MkdirAll k w))"
  by (simp add: os_MkdirAll_def mkdir_each_grows)

text \<open>\<open>MkdirAll\<close> touches nothing below the path.\<close>

lemma mkdir_each_only:
  "mkdir_each ks w = (e, w') \<Longrightarrow> j \<notin> set ks \<Longrightarrow> node_at w' j = node_at w j"
proof (induction ks arbitrary: w)
  case (Cons k ks)
  obtain r w1 where l: "os_lstat k w = (r, w1)" by (metis surj_pair)
  then have w1: "w_disk w1 = w_disk w" using lstat_disk [of k w] by simp
  obtain x w2 where m: "os_mkdir k w1 = (x, w2)" by (metis surj_pair)
  have w2: "node_at w2 j = node_at w j" using m Cons.prems(2) w1
    by (auto simp: os_mkdir_def split: if_splits)
  show ?case using Cons.prems Cons.IH [of w1] Cons.IH [of w2] w1 w2
    by (auto simp: l m split: sum.splits oserr.splits option.splits fnode.splits)
qed simp

lemma MkdirAll_above:
  assumes m: "os_MkdirAll (butlast k) w = (e, w')" and "k \<noteq> []"
  shows "node_at w' k = node_at w k"
proof -
  have "length (butlast k) < length k" using assms(2) by simp
  then have "\<not> prefix k (butlast k)" using prefix_length_le linorder_not_le by metis
  then have "k \<notin> set (parents (butlast k) @ [butlast k])" by (auto simp: parents_def)
  then show ?thesis using mkdir_each_only m [unfolded os_MkdirAll_def] by blast
qed

lemma remove_cases:
  assumes "os_remove k w = (e, w')"
  shows "w_disk w' = w_disk w \<or> node_at w' = (node_at w)(k := None) \<and> e = ok"
  using assms by (auto simp: os_remove_def fun_eq_iff split: if_splits option.splits)

text \<open>The paths that move: everything below a directory, or the one file.\<close>

definition moves :: "world \<Rightarrow> fkey \<Rightarrow> fkey \<Rightarrow> fkey \<Rightarrow> bool" where
  "moves w src k j \<longleftrightarrow> (if node_at w src = Some FDir then prefix k j else j = k)"

lemma rename_cases:
  assumes "os_rename src dst w = (e, w')"
  obtains "w_disk w' = w_disk w" "e = ok \<longrightarrow> src = dst"
  | "e = ok" "\<not> prefix src dst" "\<not> prefix dst src" "node_at w src \<noteq> None" "\<not> has_children dst (w_disk w)"
    "\<And>j. node_at w' j = (if moves w src dst j then node_at w (src @ drop (length dst) j)
                    else if moves w src src j then None else node_at w j)"
  using assms that
  by (auto simp: os_rename_def map_of_move_tree moves_def split: if_splits option.splits fault.splits)

lemma moves_prefix: "moves w src k j \<Longrightarrow> prefix k j"
  by (auto simp: moves_def split: if_splits)

lemma moves_append: "moves w src k (k @ s) \<longleftrightarrow> moves w src l (l @ s)"
  by (auto simp: moves_def)

lemma moves_self [simp]: "moves w src k k"
  by (simp add: moves_def)

lemma no_children:
  assumes "\<not> has_children k (w_disk w)" "s \<noteq> []"
  shows "node_at w (k @ s) = None"
proof (cases "node_at w (k @ s)")
  case (Some n)
  then have "(k @ s, n) \<in> set (w_disk w)" by (rule map_of_SomeD)
  moreover have "strict_prefix k (k @ s)" using assms(2) by (simp add: strict_prefix_def)
  ultimately show ?thesis using assms(1) by (force simp: has_children_def list_ex_iff)
qed

lemma free_below:
  assumes "\<not> has_children d (w_disk w)" "data_at w k = Some c" "data_at w d = None"
  shows "\<not> prefix d k"
proof
  assume "prefix d k"
  then obtain s where "k = d @ s" by (auto simp: prefix_def)
  then show False using assms no_children [OF assms(1), of s] by (cases "s = []") (auto simp: data_at_def)
qed

text \<open>A rename onto a path that holds no data keeps everything, when the destination is
  within the safe area.\<close>

lemma rename_kept:
  assumes "os_rename src dst w = (e, w')" "data_at w dst = None" "\<And>s. dst @ s \<in> A"
  shows "kept A w w'"
  using assms(1)
proof (cases rule: rename_cases)
  case 1
  then show ?thesis by (simp add: grows_kept grows_same_disk)
next
  case 2
  have "\<exists>q. (q = k \<or> q \<in> A) \<and> data_at w' q = Some c" if c: "data_at w k = Some c" for k c
  proof (cases "moves w src src k")
    case True
    then obtain s where k: "k = src @ s" using moves_prefix [OF True] by (auto simp: prefix_def)
    have "moves w src dst (dst @ s)" using True k moves_append by blast
    then have "data_at w' (dst @ s) = Some c" using c k 2(6) by (simp add: data_at_def)
    then show ?thesis using assms(3) by blast
  next
    case False
    have "\<not> prefix dst k" using c assms(2) by (rule free_below [OF 2(5)])
    then have "data_at w' k = Some c" using c False 2(6) moves_prefix by (auto simp: data_at_def)
    then show ?thesis by blast
  qed
  then show ?thesis unfolding kept_def by blast
qed

text \<open>Nothing changes outside one path.\<close>

definition same_but :: "fkey \<Rightarrow> world \<Rightarrow> world \<Rightarrow> bool" where
  "same_but k w w' \<longleftrightarrow> (\<forall>j. j \<noteq> k \<longrightarrow> node_at w' j = node_at w j)"

lemma same_but_refl [simp]: "w_disk w' = w_disk w \<Longrightarrow> same_but k w w'"
  by (simp add: same_but_def)

lemma same_but_trans: "same_but k w w' \<Longrightarrow> same_but k w' w'' \<Longrightarrow> same_but k w w''"
  by (simp add: same_but_def)

lemma same_but_kept: "same_but k w w' \<Longrightarrow> data_at w k = None \<Longrightarrow> kept A w w'"
  unfolding same_but_def kept_def data_at_def by (metis option.distinct(1))

lemma same_but_calls:
  "same_but k w (snd (os_create k n w))" "same_but k w (snd (os_update k f w))"
  "same_but k w (snd (os_remove k w))"
  by (auto simp: same_but_def os_create_def os_update_def os_remove_def split: option.splits)

text \<open>Regular files outside \<open>X\<close> are untouched.\<close>

definition frame :: "fkey set \<Rightarrow> world \<Rightarrow> world \<Rightarrow> bool" where
  "frame X w w' \<longleftrightarrow> (\<forall>j c m t. j \<notin> X \<longrightarrow> node_at w j = Some (FFile c m t) \<longrightarrow> node_at w' j = Some (FFile c m t))"

definition below :: "fkey \<Rightarrow> fkey set" where
  "below k = {j. prefix k j}"

lemma frame_trans: "frame X w w' \<Longrightarrow> frame X w' w'' \<Longrightarrow> frame X w w''"
  by (simp add: frame_def)

lemma frame_mono: "frame X w w' \<Longrightarrow> X \<subseteq> Y \<Longrightarrow> frame Y w w'"
  by (auto simp: frame_def)

lemma frame_same_disk: "w_disk w' = w_disk w \<Longrightarrow> frame X w w'"
  by (simp add: frame_def)

lemma grows_frame:
  assumes g: "grows w w'"
  shows "frame X w w'"
proof -
  have "node_at w' j = Some (FFile c m t)" if n: "node_at w j = Some (FFile c m t)" for j c m t
  proof -
    obtain n where "node_at w' j = Some n" "same_node (FFile c m t) n" using g n unfolding grows_def by blast
    then show ?thesis by (simp add: same_node_def)
  qed
  then show ?thesis by (simp add: frame_def)
qed

lemma same_but_frame: "same_but k w w' \<Longrightarrow> k \<in> X \<Longrightarrow> frame X w w'"
  by (auto simp: same_but_def frame_def)

lemma rename_frame: "os_rename src dst w = (e, w') \<Longrightarrow> frame (below src \<union> below dst) w w'"
  by (erule rename_cases) (auto simp: frame_def below_def dest: moves_prefix)

end
