(* ===== verification/Trash.thy ===== *)
theory Trash
  imports Disk Reconcile
begin

text \<open>
  The writing half of \<^verbatim>\<open>internal/sync/trash.go\<close>: the reserved directory, trash events and
  \<open>Put\<close>, which moves a file out of the share before a peer's change destroys it. The time
  zone is an argument. The locks that order concurrent calls are not modelled; each
  operation runs alone. The main result is \<open>Put_kept\<close>: whatever fails, no data leaves the
  disk, and after a \<open>Put\<close> that succeeded the path is free.
\<close>

section \<open>Names\<close>

definition trashDirName :: string where "trashDirName = ''trash''"
definition trashLogDirName :: string where "trashLogDirName = ''trash-events''"
definition reservedReadme :: string where "reservedReadme = ''README''"

definition nl :: string where "nl = [CHR 0x0A]"

definition reservedReadmeText :: string where
  "reservedReadmeText =
     ''This folder belongs to syncat. It is never synced to other nodes.'' @ nl @ nl @
     ''trash/ holds files that a peer deleted or overwrote here, one folder per'' @ nl @
     ''change. To undo a change, move its files back, or use the trash page of the'' @ nl @
     ''web UI or '' @ [CHR 0x60] @ ''syncat trash'' @ [CHR 0x60] @ ''. Old changes are removed after the share's'' @ nl @
     ''retention period, or when the trash outgrows its size limit.'' @ nl @ nl @
     ''The trash is an undo, not a backup. Use a backup tool for this folder too.'' @ nl"

definition TrashDeleted :: string where "TrashDeleted = ''deleted''"
definition TrashOverwritten :: string where "TrashOverwritten = ''overwritten''"
definition TrashMigrated :: string where "TrashMigrated = ''migrated''"
definition TrashSourcePeer :: string where "TrashSourcePeer = ''peer''"
definition TrashSourceRestore :: string where "TrashSourceRestore = ''restore''"
definition TrashSourceMigrated :: string where "TrashSourceMigrated = ''migrated''"

datatype trash_err =
    ErrReservedDirTaken
  | ErrRestoreDestExists
  | ErrTrashEntryNotFound string
  | TrashCancelled
  | TrashOs oserr
  | TrashJoin join_err
  | TooManyEvents
  | TooManyCopies string
  | IncompleteCopy
  | NotRegular string
  | RefusedEvent string
  | TrashStore

definition trashDir :: "string \<Rightarrow> string" where
  "trashDir root = path_join [root, ReservedDirName, trashDirName]"

definition trashLogDir :: "string \<Rightarrow> string" where
  "trashLogDir root = path_join [root, ReservedDirName, trashLogDirName]"

text \<open>\<open>at.Local().Format("2006-01-02 15.04.05")\<close>; \<open>tz\<close> is the zone's offset in seconds.\<close>

definition format_event_time :: "(int \<Rightarrow> int) \<Rightarrow> int \<Rightarrow> string" where
  "format_event_time tz at =
     (let sec = at div 1000000000 + tz at;
          days = sec div 86400; sod = sec mod 86400;
          (y, yday) = civil_year_day days;
          (m, d) = month_day (is_leap y) yday
      in pad_dec 4 y @ ''-'' @ pad_dec 2 m @ ''-'' @ pad_dec 2 d @ '' '' @
         pad_dec 2 (sod div 3600) @ ''.'' @ pad_dec 2 (sod mod 3600 div 60) @ ''.'' @ pad_dec 2 (sod mod 60))"

definition event_name_safe :: "char \<Rightarrow> bool" where
  "event_name_safe c \<longleftrightarrow>
     (let n = of_char c :: nat in 65 \<le> n \<and> n \<le> 90 \<or> 97 \<le> n \<and> n \<le> 122 \<or> 48 \<le> n \<and> n \<le> 57) \<or>
     c \<in> set '' ._()-''"

text \<open>\<open>eventNameUnsafe.ReplaceAllString(label, "_")\<close>: every maximal run of unsafe bytes.\<close>

fun replace_unsafe :: "bool \<Rightarrow> string \<Rightarrow> string" where
  "replace_unsafe in_run [] = []"
| "replace_unsafe in_run (c # cs) =
     (if event_name_safe c then c # replace_unsafe False cs
      else if in_run then replace_unsafe True cs
      else CHR ''_'' # replace_unsafe True cs)"

definition trim_blanks :: "string \<Rightarrow> string" where
  "trim_blanks s = rev (dropWhile (\<lambda>c. c = CHR '' '') (rev (dropWhile (\<lambda>c. c = CHR '' '') s)))"

definition eventFolderName :: "(int \<Rightarrow> int) \<Rightarrow> int \<Rightarrow> string \<Rightarrow> string" where
  "eventFolderName tz at label =
     (let l = take 48 (trim_blanks (replace_unsafe False label));
          name = format_event_time tz at
      in if l \<noteq> [] then name @ '' '' @ l else name)"

definition numbered :: "string \<Rightarrow> nat \<Rightarrow> string" where
  "numbered base n = base @ '' ('' @ dec_digits n @ '')''"

section \<open>The reserved directory\<close>

definition EnsureReservedDir :: "string \<Rightarrow> world \<Rightarrow> trash_err err \<times> world" where
  "EnsureReservedDir root w =
     (let dir = fkey_of (path_join [root, ReservedDirName]);
          readme = dir @ [reservedReadme]
      in case os_lstat dir w of
           (Inr FDir, w1) \<Rightarrow>
             (case os_lstat readme w1 of
                (Inr n, w2) \<Rightarrow> (ok, w2)
              | (Inl ENOENT, w2) \<Rightarrow> (Some ErrReservedDirTaken, w2)
              | (Inl e, w2) \<Rightarrow> (Some (TrashOs e), w2))
         | (Inr n, w1) \<Rightarrow> (Some ErrReservedDirTaken, w1)
         | (Inl ENOENT, w1) \<Rightarrow>
             (case os_mkdir dir w1 of
                (Some e, w2) \<Rightarrow> (Some (TrashOs e), w2)
              | (None, w2) \<Rightarrow>
                  (case os_create readme (FFile (text_bytes reservedReadmeText) 0x180 (w_now w2)) w2 of
                     (Some e, w3) \<Rightarrow> (Some (TrashOs e), w3)
                   | (None, w3) \<Rightarrow> (ok, w3)))
         | (Inl e, w1) \<Rightarrow> (Some (TrashOs e), w1))"

section \<open>Events\<close>

record TrashEvent =
  te_root :: string
  te_label :: string
  te_source :: string
  te_at :: int
  te_id :: string
  te_log :: bool

definition begin_event :: "string \<Rightarrow> string \<Rightarrow> string \<Rightarrow> int \<Rightarrow> TrashEvent" where
  "begin_event root label source at =
     \<lparr>te_root = root, te_label = label, te_source = source, te_at = at, te_id = [], te_log = False\<rparr>"

definition BeginPeerEvent :: "string \<Rightarrow> string \<Rightarrow> int \<Rightarrow> TrashEvent" where
  "BeginPeerEvent root peerName now = begin_event root (''from '' @ peerName) TrashSourcePeer now"

definition event_dir :: "string \<Rightarrow> string \<Rightarrow> string" where
  "event_dir root i = path_join [trashDir root, i]"

definition log_file :: "string \<Rightarrow> string \<Rightarrow> string" where
  "log_file root i = path_join [trashLogDir root, i @ ''.jsonl'']"

text \<open>The loop that creates the event's folder under the first free name.\<close>

function event_loop :: "string \<Rightarrow> string \<Rightarrow> string \<Rightarrow> nat \<Rightarrow> world \<Rightarrow> (trash_err + string) \<times> world" where
  "event_loop root base i n w =
     (let r = os_mkdir (fkey_of (event_dir root i)) w in
      if fst r = ok then (Inr i, snd r)
      else if fst r \<noteq> Some EEXIST then (Inl (TrashOs (the (fst r))), snd r)
      else if 10000 < n then (Inl TooManyEvents, snd r)
      else event_loop root base (numbered base n) (Suc n) (snd r))"
  by pat_completeness auto
termination by (relation "measure (\<lambda>(root, base, i, n, w). 10001 - n)") auto

declare event_loop.simps [simp del]

definition append_log :: "fkey \<Rightarrow> logline \<Rightarrow> world \<Rightarrow> oserr err \<times> world" where
  "append_log k l w =
     os_update k (\<lambda>n. case n of FLog ls \<Rightarrow> FLog (ls @ [l]) | _ \<Rightarrow> n) w"

text \<open>\<open>O_CREATE|O_APPEND\<close>: a log that is already there is kept.\<close>

definition open_log :: "fkey \<Rightarrow> world \<Rightarrow> oserr err \<times> world" where
  "open_log k w =
     (case node_at w k of
        Some (FLog ls) \<Rightarrow> (if faulty w then Some EOTHER else ok, tick w)
      | Some n \<Rightarrow> (Some EOTHER, tick w)
      | None \<Rightarrow> os_create k (FLog []) w)"

definition open_event :: "(int \<Rightarrow> int) \<Rightarrow> TrashEvent \<Rightarrow> world \<Rightarrow> trash_err err \<times> TrashEvent \<times> world" where
  "open_event tz ev w =
     (if te_id ev \<noteq> [] then (ok, ev, w)
      else case EnsureReservedDir (te_root ev) w of
        (Some e, w1) \<Rightarrow> (Some e, ev, w1)
      | (None, w1) \<Rightarrow> (case os_MkdirAll (fkey_of (trashDir (te_root ev))) w1 of
        (Some e, w2) \<Rightarrow> (Some (TrashOs e), ev, w2)
      | (None, w2) \<Rightarrow> (case os_MkdirAll (fkey_of (trashLogDir (te_root ev))) w2 of
        (Some e, w3) \<Rightarrow> (Some (TrashOs e), ev, w3)
      | (None, w3) \<Rightarrow>
         let base = eventFolderName tz (te_at ev) (te_label ev) in
         (case event_loop (te_root ev) base base 2 w3 of
            (Inl e, w4) \<Rightarrow> (Some e, ev, w4)
          | (Inr i, w4) \<Rightarrow>
             let log = fkey_of (log_file (te_root ev) i) in
             (case open_log log w4 of
                (Some e, w5) \<Rightarrow> (Some (TrashOs e), ev, w5)
              | (None, w5) \<Rightarrow>
                 (case append_log log (LogHeader (te_at ev) (te_label ev) (te_source ev)) w5 of
                    (Some e, w6) \<Rightarrow> (Some (TrashOs e), ev, w6)
                  | (None, w6) \<Rightarrow> (ok, ev\<lparr>te_id := i, te_log := True\<rparr>, w6)))))))"

definition Close_event :: "TrashEvent \<Rightarrow> TrashEvent" where
  "Close_event ev = ev\<lparr>te_log := False\<rparr>"

section \<open>Putting a file into an event\<close>

text \<open>\<open>path.Ext\<close> of a name without slashes.\<close>

definition path_Ext :: "string \<Rightarrow> string" where
  "path_Ext base = (case last_index_byte base (CHR ''.'') of None \<Rightarrow> [] | Some i \<Rightarrow> drop i base)"

definition copy_name :: "string \<Rightarrow> nat \<Rightarrow> string" where
  "copy_name relpath n =
     (let (dir, base) = path_split relpath;
          ext = path_Ext base;
          stem = take (length base - length ext) base
      in dir @ stem @ '' ('' @ dec_digits n @ '')'' @ ext)"

function stored_loop :: "string \<Rightarrow> string \<Rightarrow> nat \<Rightarrow> world \<Rightarrow> (trash_err + string \<times> string) \<times> world" where
  "stored_loop eventDir relpath n w =
     (if n < 10000 then
        let stored = copy_name relpath n; j = join_in eventDir stored w in
        if isl (fst j) then (Inl (TrashJoin (projl (fst j))), snd j)
        else let r = os_lstat (fkey_of (projr (fst j))) (snd j) in
             if fst r = Inl ENOENT then (Inr (stored, projr (fst j)), snd r)
             else stored_loop eventDir relpath (Suc n) (snd r)
      else (Inl (TooManyCopies relpath), w))"
  by pat_completeness auto
termination by (relation "measure (\<lambda>(e, r, n, w). 10000 - n)") auto

declare stored_loop.simps [simp del]

definition freeStoredPath :: "string \<Rightarrow> string \<Rightarrow> world \<Rightarrow> (trash_err + string \<times> string) \<times> world" where
  "freeStoredPath eventDir relpath w =
     (case join_in eventDir relpath w of
        (Inl e, w1) \<Rightarrow> (Inl (TrashJoin e), w1)
      | (Inr full, w1) \<Rightarrow>
          (case os_lstat (fkey_of full) w1 of
             (Inl ENOENT, w2) \<Rightarrow> (Inr (relpath, full), w2)
           | (r, w2) \<Rightarrow> stored_loop eventDir relpath 2 w2))"

definition node_size :: "fnode \<Rightarrow> int" where
  "node_size n = (case n of FFile c m t \<Rightarrow> int (length c) | FSym t \<Rightarrow> int (length t) | _ \<Rightarrow> 0)"

definition is_regular :: "fnode \<Rightarrow> bool" where
  "is_regular n = (case n of FFile c m t \<Rightarrow> True | FLog ls \<Rightarrow> True | _ \<Rightarrow> False)"

definition is_symlink :: "fnode \<Rightarrow> bool" where
  "is_symlink n = (case n of FSym t \<Rightarrow> True | _ \<Rightarrow> False)"

text \<open>A call that only succeeds or fails, such as \<open>Sync\<close> and \<open>Close\<close>.\<close>

definition os_check :: "world \<Rightarrow> oserr err \<times> world" where
  "os_check w = (if faulty w then Some EOTHER else ok, tick w)"

text \<open>The empty file \<open>O_EXCL\<close> creates, and the file once everything is written to it.\<close>

definition new_copy :: "fnode \<Rightarrow> int \<Rightarrow> fnode" where
  "new_copy n now = (case n of FFile c m t \<Rightarrow> FFile [] m now | FLog ls \<Rightarrow> FLog [] | _ \<Rightarrow> FFile [] 0 now)"

definition full_copy :: "fnode \<Rightarrow> int \<Rightarrow> fnode" where
  "full_copy n now = (case n of FFile c m t \<Rightarrow> FFile c m now | _ \<Rightarrow> n)"

definition set_mtime :: "int \<Rightarrow> fnode \<Rightarrow> fnode" where
  "set_mtime t n = (case n of FFile c m t' \<Rightarrow> FFile c m t | _ \<Rightarrow> n)"

definition mtime_of :: "fnode \<Rightarrow> int" where
  "mtime_of n = (case n of FFile c m t \<Rightarrow> t | _ \<Rightarrow> 0)"

text \<open>The deferred cleanup of a copy that failed.\<close>

definition discard :: "fkey \<Rightarrow> oserr \<Rightarrow> world \<Rightarrow> oserr err \<times> world" where
  "discard dst e w = (Some e, snd (os_remove dst (snd (os_check w))))"

definition copyFileOrSymlink :: "fkey \<Rightarrow> fkey \<Rightarrow> fnode \<Rightarrow> world \<Rightarrow> oserr err \<times> world" where
  "copyFileOrSymlink src dst fi w =
     (case os_lstat src w of
        (Inl e, w1) \<Rightarrow> (Some e, w1)
      | (Inr n, w1) \<Rightarrow>
          if is_symlink fi then
            (case n of FSym target \<Rightarrow> os_create dst (FSym target) w1 | _ \<Rightarrow> (Some EOTHER, w1))
          else
             (case os_create dst (new_copy fi (w_now w1)) w1 of
                (Some e, w2) \<Rightarrow> (Some e, w2)
              | (None, w2) \<Rightarrow>
                 if \<not> is_regular n then discard dst EOTHER w2
                 else (case os_update dst (\<lambda>_. full_copy n (w_now w2)) w2 of
                   (Some e, w3) \<Rightarrow> discard dst e w3
                 | (None, w3) \<Rightarrow> (case os_check w3 of
                   (Some e, w4) \<Rightarrow> discard dst e w4
                 | (None, w4) \<Rightarrow> (case os_check w4 of
                   (Some e, w5) \<Rightarrow> discard dst e w5
                 | (None, w5) \<Rightarrow> (ok, snd (os_update dst (set_mtime (mtime_of fi)) w5)))))))"

definition copyThenRemove :: "fkey \<Rightarrow> fkey \<Rightarrow> fnode \<Rightarrow> world \<Rightarrow> trash_err err \<times> world" where
  "copyThenRemove src dst fi w =
     (case copyFileOrSymlink src dst fi w of
        (Some e, w1) \<Rightarrow> (Some (TrashOs e), w1)
      | (None, w1) \<Rightarrow>
         let (incomplete, w2) =
               (if is_regular fi then
                  (case os_lstat dst w1 of
                     (Inr got, w') \<Rightarrow> (node_size got \<noteq> node_size fi, w')
                   | (Inl e, w') \<Rightarrow> (True, w'))
                else (False, w1))
         in if incomplete then (Some IncompleteCopy, snd (os_remove dst w2))
            else (case os_remove src w2 of
                    (None, w3) \<Rightarrow> (ok, w3)
                  | (Some ENOENT, w3) \<Rightarrow> (ok, w3)
                  | (Some e, w3) \<Rightarrow> (Some (TrashOs e), w3)))"

definition rename_or_copy :: "fkey \<Rightarrow> fkey \<Rightarrow> fnode \<Rightarrow> world \<Rightarrow> trash_err err \<times> world" where
  "rename_or_copy src dst fi w =
     (case os_rename src dst w of
        (None, w1) \<Rightarrow> (ok, w1)
      | (Some EXDEV, w1) \<Rightarrow> copyThenRemove src dst fi w1
      | (Some e, w1) \<Rightarrow> (Some (TrashOs e), w1))"

definition moveOrCopy :: "fkey \<Rightarrow> fkey \<Rightarrow> world \<Rightarrow> trash_err err \<times> world" where
  "moveOrCopy src dst w =
     (case os_lstat src w of
        (Inl e, w1) \<Rightarrow> (Some (TrashOs e), w1)
      | (Inr fi, w1) \<Rightarrow> rename_or_copy src dst fi w1)"

text \<open>The second half of \<open>Put\<close>, once the event is open.\<close>

definition put_into ::
  "TrashEvent \<Rightarrow> string \<Rightarrow> fkey \<Rightarrow> fnode \<Rightarrow> string \<Rightarrow> world \<Rightarrow> trash_err err \<times> world" where
  "put_into ev relpath src fi kind w =
     (case freeStoredPath (event_dir (te_root ev) (te_id ev)) relpath w of
        (Inl e, w1) \<Rightarrow> (Some e, w1)
      | (Inr (stored, dest), w1) \<Rightarrow>
         (case os_MkdirAll (butlast (fkey_of dest)) w1 of
            (Some e, w2) \<Rightarrow> (Some (TrashOs e), w2)
          | (None, w2) \<Rightarrow>
             (case rename_or_copy src (fkey_of dest) fi w2 of
                (Some e, w3) \<Rightarrow> (Some e, w3)
              | (None, w3) \<Rightarrow>
                 (case append_log (fkey_of (log_file (te_root ev) (te_id ev)))
                         (LogItem relpath kind stored) w3 of
                    (Some e, w4) \<Rightarrow> (Some (TrashOs e), w4)
                  | (None, w4) \<Rightarrow> (ok, w4)))))"

definition Put ::
  "(int \<Rightarrow> int) \<Rightarrow> string \<Rightarrow> string \<Rightarrow> string \<Rightarrow> TrashEvent \<Rightarrow> world \<Rightarrow> trash_err err \<times> TrashEvent \<times> world" where
  "Put tz relpath srcAbs kind ev w =
     (if w_done w (w_tick w) then (Some TrashCancelled, ev, w)
      else case os_lstat (fkey_of srcAbs) w of
        (Inl ENOENT, w1) \<Rightarrow> (ok, ev, w1)
      | (Inl e, w1) \<Rightarrow> (Some (TrashOs e), ev, w1)
      | (Inr fi, w1) \<Rightarrow>
         (case open_event tz ev w1 of
            (Some e, ev1, w2) \<Rightarrow> (Some e, ev1, w2)
          | (None, ev1, w2) \<Rightarrow>
             (case put_into ev1 relpath (fkey_of srcAbs) fi kind w2 of (e, w3) \<Rightarrow> (e, ev1, w3))))"

section \<open>Where things are\<close>

definition share_root :: "string \<Rightarrow> bool" where
  "share_root r \<longleftrightarrow> is_abs r \<and> path_clean r = r \<and> r \<noteq> ''/''"

definition trash_area :: "string \<Rightarrow> fkey set" where
  "trash_area root = {k. prefix (fkey_of (trashDir root)) k}"

lemma fkey_of_below [simp]: "fkey_of (r @ slash # p) = fkey_of r @ fkey_of p"
  by (simp add: fkey_of_def split_on_append_sep)

lemma fkey_of_not_Nil [simp]: "fkey_of p \<noteq> []"
  by (simp add: fkey_of_def)

interpretation plain_path: path_guard "\<lambda>p. \<forall>e \<in> set (split_on slash p). plain_elem e"
  by unfold_locales blast

lemma share_root_join:
  assumes "share_root r" "\<forall>e \<in> set (split_on slash p). plain_elem e"
  shows "path_join (r # split_on slash p) = r @ slash # p" "share_root (r @ slash # p)"
proof -
  have r: "is_abs r" "path_clean r = r" "r \<noteq> ''/''" "r \<noteq> []"
    using assms(1) by (auto simp: share_root_def is_abs_def has_prefix_def)
  show j: "path_join (r # split_on slash p) = r @ slash # p"
    using plain_path.join_below_root [of p r] assms(2) r by simp
  have "path_join (r # split_on slash p) = path_clean (r @ slash # p)"
    using r(4) by (simp add: path_join_def join_on_Cons)
  moreover have "r @ slash # p \<noteq> ''/''" using r(4) by (cases r) auto
  moreover have "is_abs (r @ slash # p)" using r(1,4) by (auto simp: is_abs_def has_prefix_iff)
  ultimately show "share_root (r @ slash # p)" using j by (simp add: share_root_def)
qed

lemma reserved_paths:
  assumes "share_root r"
  shows "path_join [r, ReservedDirName] = r @ slash # ''.syncat''"
    and "trashDir r = r @ slash # ''.syncat/trash''" and "share_root (trashDir r)"
    and "trashLogDir r = r @ slash # ''.syncat/trash-events''" and "share_root (trashLogDir r)"
proof -
  have e: "split_on slash ''.syncat'' = [''.syncat'']" "split_on slash ''.syncat/trash'' = [''.syncat'', ''trash'']"
    "split_on slash ''.syncat/trash-events'' = [''.syncat'', ''trash-events'']" by code_simp+
  have p: "plain_elem ''.syncat''" "plain_elem ''trash''" "plain_elem ''trash-events''" by code_simp+
  show "path_join [r, ReservedDirName] = r @ slash # ''.syncat''"
    using share_root_join(1) [OF assms, of "''.syncat''"] e p by (simp add: ReservedDirName_def)
  show t: "trashDir r = r @ slash # ''.syncat/trash''"
    using share_root_join(1) [OF assms, of "''.syncat/trash''"] e p
    by (simp add: trashDir_def ReservedDirName_def trashDirName_def)
  show l: "trashLogDir r = r @ slash # ''.syncat/trash-events''"
    using share_root_join(1) [OF assms, of "''.syncat/trash-events''"] e p
    by (simp add: trashLogDir_def ReservedDirName_def trashLogDirName_def)
  show "share_root (trashDir r)" "share_root (trashLogDir r)"
    unfolding t l using share_root_join(2) [OF assms, of "''.syncat/trash''"]
      share_root_join(2) [OF assms, of "''.syncat/trash-events''"] e p by simp_all
qed

definition event_id :: "string \<Rightarrow> bool" where
  "event_id i \<longleftrightarrow> plain_elem i \<and> slash \<notin> set i"

lemma event_dir_below:
  assumes "share_root r" "event_id i"
  shows "event_dir r i = trashDir r @ slash # i" "share_root (event_dir r i)"
  using share_root_join [OF reserved_paths(3) [OF assms(1)], of i] assms(2)
  by (simp_all add: event_dir_def event_id_def split_on_single)

lemma join_in_below:
  assumes "join_in r p w = (Inr full, w')" "share_root r"
  shows "full = r @ slash # p" "ValidateRelPath p = ok" "w_disk w' = w_disk w"
proof -
  have j: "JoinSharePath (lstat_view w) r p = Inr full" and w: "w' = tick w"
    using assms(1) by (simp_all add: join_in_def)
  show v: "ValidateRelPath p = ok" using j by (simp add: JoinSharePath_def split: option.splits)
  show "full = r @ slash # p"
    using j valid_join [OF v, of r] assms(2) by (auto simp: share_root_def split: if_splits option.splits)
  show "w_disk w' = w_disk w" by (simp add: w)
qed

lemma valid_first_elem:
  assumes "ValidateRelPath p = ok"
  shows "hd (fkey_of p) \<noteq> ReservedDirName"
proof
  assume h: "hd (fkey_of p) = ReservedDirName"
  obtain es where es: "split_on slash p = ReservedDirName # es"
    using h by (cases "split_on slash p") (auto simp: fkey_of_def)
  then have "p = join_on slash (ReservedDirName # es)" using join_split [of slash p] by simp
  then have "p = ReservedDirName \<or> has_prefix p (ReservedDirName @ ''/'')"
    by (cases es) (auto simp: has_prefix_iff join_on_Cons)
  then show False using assms by (auto simp: ValidateRelPath_def split: if_splits)
qed

section \<open>Folder names are single plain elements\<close>

lemma name_safe_lits [simp]:
  "event_name_safe (CHR '' '')" "event_name_safe (CHR ''.'')" "event_name_safe (CHR ''_'')"
  "event_name_safe (CHR ''-'')" "event_name_safe (CHR ''('')" "event_name_safe (CHR '')'')"
  by (simp_all add: event_name_safe_def)

lemma replace_unsafe_safe: "list_all event_name_safe (replace_unsafe b s)"
  by (induction b s rule: replace_unsafe.induct) auto

lemma dec_digits_name_safe: "list_all event_name_safe (dec_digits n)"
  using dec_digits_is_digit [of _ n]
  by (auto simp: list_all_iff is_digit_def event_name_safe_def Let_def)

lemma pad_dec_name_safe: "list_all event_name_safe (pad_dec w i)"
proof -
  have "event_name_safe (CHR ''0'')" by (simp add: event_name_safe_def)
  then show ?thesis using dec_digits_name_safe by (auto simp: pad_dec_def Let_def list_all_iff)
qed

lemma format_event_time_safe:
  "list_all event_name_safe (format_event_time tz at)" "CHR '' '' \<in> set (format_event_time tz at)"
proof -
  obtain y yday where y: "civil_year_day ((at div 1000000000 + tz at) div 86400) = (y, yday)" by fastforce
  obtain m d where m: "month_day (is_leap y) yday = (m, d)" by fastforce
  show "list_all event_name_safe (format_event_time tz at)" "CHR '' '' \<in> set (format_event_time tz at)"
    using pad_dec_name_safe by (simp_all add: format_event_time_def Let_def y m)
qed

lemma trim_blanks_subset: "set (trim_blanks s) \<subseteq> set s"
  unfolding trim_blanks_def using set_dropWhileD by (metis set_rev subsetI)

lemma eventFolderName_safe:
  "list_all event_name_safe (eventFolderName tz at label)" "CHR '' '' \<in> set (eventFolderName tz at label)"
proof -
  have "list_all event_name_safe (take 48 (trim_blanks (replace_unsafe False label)))"
    using replace_unsafe_safe [of False label] trim_blanks_subset [of "replace_unsafe False label"]
    by (auto simp: list_all_iff dest!: in_set_takeD)
  then show "list_all event_name_safe (eventFolderName tz at label)" "CHR '' '' \<in> set (eventFolderName tz at label)"
    using format_event_time_safe [of tz at] by (simp_all add: eventFolderName_def Let_def)
qed

lemma numbered_safe:
  "list_all event_name_safe b \<Longrightarrow> list_all event_name_safe (numbered b n)" "CHR '' '' \<in> set (numbered b n)"
  using dec_digits_name_safe by (simp_all add: numbered_def)

lemma safe_event_id: "list_all event_name_safe i \<Longrightarrow> CHR '' '' \<in> set i \<Longrightarrow> event_id i"
  by (auto simp: event_id_def plain_elem_def list_all_iff event_name_safe_def)

section \<open>Opening an event\<close>

lemma EnsureReservedDir_grows: "grows w (snd (EnsureReservedDir root w))"
proof -
  let ?d = "fkey_of (path_join [root, ReservedDirName])"
  obtain r w1 where l: "os_lstat ?d w = (r, w1)" by (cases "os_lstat ?d w")
  then have w1: "grows w w1" using lstat_disk [of ?d w] by (simp add: grows_same_disk)
  obtain r2 w2 where l2: "os_lstat (?d @ [reservedReadme]) w1 = (r2, w2)" by (metis surj_pair)
  then have w2: "grows w w2"
    using lstat_disk [of "?d @ [reservedReadme]" w1] w1 by (auto intro: grows_trans grows_same_disk)
  obtain e w3 where m: "os_mkdir ?d w1 = (e, w3)" by (metis surj_pair)
  then have w3: "grows w w3" using mkdir_grows [of w1 ?d] w1 by (auto intro: grows_trans)
  obtain e' w4 where c: "os_create (?d @ [reservedReadme])
      (FFile (text_bytes reservedReadmeText) 0x180 (w_now w3)) w3 = (e', w4)" by (metis surj_pair)
  then have w4: "grows w w4" using create_grows [of w3] w3 by (metis grows_trans snd_conv)
  show ?thesis using w1 w2 w3 w4
    by (auto simp: EnsureReservedDir_def Let_def l l2 m c
        split: sum.splits oserr.splits option.splits fnode.splits)
qed

lemma event_loop_result:
  assumes "event_loop root base i n w = (r, w')" "list_all event_name_safe base" "list_all event_name_safe i"
    "CHR '' '' \<in> set i"
  shows "grows w w' \<and> (\<forall>j. r = Inr j \<longrightarrow> event_id j)"
  using assms
proof (induction root base i n w rule: event_loop.induct)
  case (1 root base i n w)
  let ?r = "os_mkdir (fkey_of (event_dir root i)) w"
  have g: "grows w (snd ?r)" by (rule mkdir_grows)
  show ?case
  proof (cases "fst ?r = ok \<or> fst ?r \<noteq> Some EEXIST \<or> 10000 < n")
    case True
    with g 1(2,4,5) show ?thesis
      by (subst (asm) event_loop.simps) (auto simp: Let_def safe_event_id split: if_splits)
  next
    case False
    then have "event_loop root base (numbered base n) (Suc n) (snd ?r) = (r, w')"
      using 1(2) by (subst (asm) event_loop.simps) (simp add: Let_def)
    with False g 1(1) [OF refl] 1(3) numbered_safe show ?thesis by (auto intro: grows_trans)
  qed
qed

lemma append_log_grows: "grows w (snd (append_log k l w))"
  by (auto simp: append_log_def os_update_def grows_def same_node_def split: option.splits fnode.splits)

lemma open_log_grows: "grows w (snd (open_log k w))"
  using create_grows [of w k "FLog []"]
  by (auto simp: open_log_def grows_same_disk split: option.splits fnode.splits)

definition event_ok :: "TrashEvent \<Rightarrow> bool" where
  "event_ok ev \<longleftrightarrow> share_root (te_root ev) \<and> (te_id ev = [] \<or> event_id (te_id ev))"

lemma event_id_not_Nil: "event_id i \<Longrightarrow> i \<noteq> []"
  by (simp add: event_id_def plain_elem_def)

lemma open_event_result:
  assumes "open_event tz ev w = (e, ev', w')" "event_ok ev"
  shows "grows w w' \<and> event_ok ev' \<and> te_root ev' = te_root ev \<and> (e = ok \<longrightarrow> event_id (te_id ev'))"
proof (cases "te_id ev \<noteq> []")
  case True
  with assms show ?thesis by (auto simp: open_event_def event_ok_def)
next
  case False
  let ?r = "te_root ev" and ?base = "eventFolderName tz (te_at ev) (te_label ev)"
  obtain e1 w1 where 1: "EnsureReservedDir ?r w = (e1, w1)" by (metis surj_pair)
  then have g1: "grows w w1" using EnsureReservedDir_grows [of w ?r] by simp
  obtain e2 w2 where 2: "os_MkdirAll (fkey_of (trashDir ?r)) w1 = (e2, w2)" by (metis surj_pair)
  then have g2: "grows w w2" using MkdirAll_grows [of w1 "fkey_of (trashDir ?r)"] g1 by (auto intro: grows_trans)
  obtain e3 w3 where 3: "os_MkdirAll (fkey_of (trashLogDir ?r)) w2 = (e3, w3)" by (metis surj_pair)
  then have g3: "grows w w3" using MkdirAll_grows [of w2 "fkey_of (trashLogDir ?r)"] g2 by (auto intro: grows_trans)
  obtain r4 w4 where 4: "event_loop ?r ?base ?base 2 w3 = (r4, w4)" by (metis surj_pair)
  from event_loop_result [OF this eventFolderName_safe(1) eventFolderName_safe(1,2)] g3
  have g4: "grows w w4" and id4: "\<And>i. r4 = Inr i \<Longrightarrow> event_id i" by (auto intro: grows_trans)
  define log where "log = fkey_of (log_file ?r (projr r4))"
  obtain e5 w5 where 5: "open_log log w4 = (e5, w5)" by (metis surj_pair)
  then have g5: "grows w w5" using open_log_grows [of w4 log] g4 by (auto intro: grows_trans)
  obtain e6 w6 where 6: "append_log log (LogHeader (te_at ev) (te_label ev) (te_source ev)) w5 = (e6, w6)"
    by (metis surj_pair)
  then have g6: "grows w w6" using append_log_grows [of w5 log] g5 by (metis grows_trans snd_conv)
  show ?thesis using assms(2) False assms(1) [unfolded open_event_def] g1 g2 g3 g4 g5 g6 id4 5 6
    by (auto simp: 1 2 3 4 log_def Let_def event_ok_def split: option.splits sum.splits)
qed

section \<open>Finding a free name\<close>

lemma stored_loop_result:
  assumes "stored_loop eventDir relpath n w = (r, w')" "share_root eventDir"
  shows "w_disk w' = w_disk w \<and> (\<forall>s d. r = Inr (s, d) \<longrightarrow>
           d = eventDir @ slash # s \<and> node_at w (fkey_of d) = None)"
  using assms
proof (induction eventDir relpath n w rule: stored_loop.induct)
  case (1 eventDir relpath n w)
  define j where "j = join_in eventDir (copy_name relpath n) w"
  define r1 where "r1 = os_lstat (fkey_of (projr (fst j))) (snd j)"
  have jd: "w_disk (snd j) = w_disk w" and rd: "w_disk (snd r1) = w_disk w"
    by (simp_all add: j_def r1_def)
  consider "\<not> n < 10000" | "n < 10000" "isl (fst j)" | "n < 10000" "\<not> isl (fst j)" "fst r1 = Inl ENOENT"
    | "n < 10000" "\<not> isl (fst j)" "fst r1 \<noteq> Inl ENOENT" by blast
  then show ?case
  proof cases
    case 3
    then have "join_in eventDir (copy_name relpath n) w = (Inr (projr (fst j)), snd j)"
      by (metis j_def prod.collapse sum.collapse(2))
    from join_in_below(1) [OF this 1(3)]
    have d: "projr (fst j) = eventDir @ slash # copy_name relpath n" .
    have "os_lstat (fkey_of (projr (fst j))) (snd j) = (Inl ENOENT, snd r1)"
      using 3(3) by (metis prod.collapse r1_def)
    from lstat_absent [OF this] jd have "node_at w (fkey_of (projr (fst j))) = None" by simp
    with 3 d rd 1(2) show ?thesis
      by (subst (asm) stored_loop.simps) (auto simp: Let_def j_def r1_def)
  next
    case 4
    then have "stored_loop eventDir relpath (Suc n) (snd r1) = (r, w')"
      using 1(2) by (subst (asm) stored_loop.simps) (simp add: Let_def j_def r1_def)
    with 1(1) [OF 4(1) refl j_def 4(2) r1_def 4(3)] 1(3) rd show ?thesis by simp
  qed (use 1(2) jd in \<open>subst (asm) stored_loop.simps, auto simp: Let_def j_def\<close>)+
qed

lemma freeStoredPath_result:
  assumes "freeStoredPath eventDir relpath w = (r, w')" "share_root eventDir"
  shows "w_disk w' = w_disk w \<and> (\<forall>s d. r = Inr (s, d) \<longrightarrow>
           d = eventDir @ slash # s \<and> node_at w (fkey_of d) = None)"
proof -
  obtain j w1 where j: "join_in eventDir relpath w = (j, w1)" by (metis surj_pair)
  have w1: "w_disk w1 = w_disk w" using join_disk [of eventDir relpath w] j by simp
  show ?thesis
  proof (cases j)
    case (Inl e)
    with assms(1) j w1 show ?thesis by (auto simp: freeStoredPath_def)
  next
    case (Inr full)
    obtain l w2 where l: "os_lstat (fkey_of full) w1 = (l, w2)" by (metis surj_pair)
    have w2: "w_disk w2 = w_disk w" using lstat_disk [of "fkey_of full" w1] l w1 by simp
    show ?thesis
    proof (cases "l = Inl ENOENT")
      case True
      with assms j l w2 Inr join_in_below(1) [OF j [unfolded Inr]] lstat_absent [OF l [unfolded True]] w1
      show ?thesis by (auto simp: freeStoredPath_def)
    next
      case False
      then have "stored_loop eventDir relpath 2 w2 = (r, w')"
        using assms(1) j l Inr by (auto simp: freeStoredPath_def split: sum.splits oserr.splits)
      from stored_loop_result [OF this assms(2)] w2 show ?thesis by simp
    qed
  qed
qed

section \<open>Moving data\<close>

lemma check_disk [simp]: "w_disk (snd (os_check w)) = w_disk w"
  by (simp add: os_check_def)

lemma discard_same_but: "same_but dst w (snd (discard dst e w))"
  using same_but_calls(3) [of dst "snd (os_check w)"] by (simp add: discard_def same_but_def)

lemma copy_result:
  assumes "copyFileOrSymlink src dst fi w = (e, w')" "node_at w src = Some n0" "same_node fi n0" "src \<noteq> dst"
  shows "same_but dst w w'" "e = ok \<Longrightarrow> data_at w' dst = data_at w src"
proof -
  obtain l w1 where l: "os_lstat src w = (l, w1)" by (metis surj_pair)
  have w1: "w_disk w1 = w_disk w" using lstat_disk [of src w] l by simp
  have n: "l = Inr n0 \<or> (\<exists>e. l = Inl e)" using lstat_ok [of src w] l assms(2) by (cases l) auto
  obtain e2 w2 where c: "os_create dst (new_copy fi (w_now w1)) w1 = (e2, w2)" by (metis surj_pair)
  have w2: "same_but dst w w2"
    using same_but_calls(1) [of dst w1 "new_copy fi (w_now w1)"] c w1 by (simp add: same_but_def)
  obtain e3 w3 where u: "os_update dst (\<lambda>_. full_copy n0 (w_now w2)) w2 = (e3, w3)" by (metis surj_pair)
  have w3: "same_but dst w w3"
    using same_but_calls(2) [of dst w2 "\<lambda>_. full_copy n0 (w_now w2)"] u w2 by (auto intro: same_but_trans)
  obtain e4 w4 where c4: "os_check w3 = (e4, w4)" by (metis surj_pair)
  obtain e5 w5 where c5: "os_check w4 = (e5, w5)" by (metis surj_pair)
  have w45: "w_disk w4 = w_disk w3" "w_disk w5 = w_disk w3"
    using check_disk [of w3] check_disk [of w4] c4 c5 by simp_all
  let ?w6 = "snd (os_update dst (set_mtime (mtime_of fi)) w5)"
  have w6: "same_but dst w ?w6"
    using same_but_calls(2) [of dst w5 "set_mtime (mtime_of fi)"] w3 w45 by (simp add: same_but_def)
  have d: "same_but dst w (snd (discard dst x v))" if "same_but dst w v" for v x
    using discard_same_but that by (rule same_but_trans [rotated])
  have w45': "same_but dst w w4" "same_but dst w w5" using w3 w45 by (simp_all add: same_but_def)
  have both: "same_but dst w w' \<and> (e = ok \<longrightarrow> data_at w' dst = data_at w src)"
  proof (cases "is_symlink fi")
    case True
    then obtain t where t: "fi = FSym t" "n0 = FSym t"
      using assms(3) by (auto simp: is_symlink_def same_node_def split: fnode.splits)
    obtain e7 w7 where s: "os_create dst (FSym t) w1 = (e7, w7)" by (metis surj_pair)
    have "same_but dst w w7" "e7 = ok \<longrightarrow> node_at w7 dst = Some n0"
      using same_but_calls(1) [of dst w1 "FSym t"] s w1 create_ok [of dst "FSym t" w1] t
      by (auto simp: same_but_def)
    then show ?thesis using assms(1,2) n t w1
      by (auto simp: copyFileOrSymlink_def l s is_symlink_def data_at_def)
  next
    case False
    have "same_but dst w w' \<and> (e = ok \<longrightarrow> is_regular n0 \<and> e3 = ok \<and> w' = ?w6)"
      using assms(1) [unfolded copyFileOrSymlink_def] n w1 w2 w3 w6 d [OF w2] d [OF w3] d [OF w45'(1)] d [OF w45'(2)]
      by (auto simp: l c u c4 c5 False discard_def split: option.splits if_splits)
    moreover have "data_at ?w6 dst = data_at w src" if "is_regular n0" "e3 = ok"
    proof -
      have "node_at w3 dst = Some (full_copy n0 (w_now w2))"
        using u that(2) by (auto simp: os_update_def split: if_splits option.splits)
      then have "node_at ?w6 dst = Some (full_copy n0 (w_now w2)) \<or>
          node_at ?w6 dst = Some (set_mtime (mtime_of fi) (full_copy n0 (w_now w2)))"
        by (auto simp: os_update_def w45)
      then show ?thesis using that(1) assms(2)
        by (auto simp: data_at_def is_regular_def full_copy_def set_mtime_def split: fnode.splits)
    qed
    ultimately show ?thesis by blast
  qed
  show "same_but dst w w'" and "e = ok \<Longrightarrow> data_at w' dst = data_at w src" using both by simp_all
qed

lemma kept_same_disk: "w_disk w'' = w_disk w' \<Longrightarrow> kept A w w' \<Longrightarrow> kept A w w''"
  by (simp add: kept_def data_at_def)

lemma copyThenRemove_kept:
  assumes "copyThenRemove src dst fi w = (e, w')" "node_at w src = Some n0" "same_node fi n0" "node_at w dst = None" "dst \<in> A"
  shows "kept A w w' \<and> (e = ok \<longrightarrow> node_at w' src = None)"
proof -
  have ne: "src \<noteq> dst" using assms(2,4) by auto
  obtain e1 w1 where c: "copyFileOrSymlink src dst fi w = (e1, w1)" by (metis surj_pair)
  note w1 = copy_result [OF c assms(2,3) ne]
  have none: "data_at w dst = None" using assms(4) by (simp add: data_at_def)
  have kept_if: "kept A w v" if "same_but dst w v" for v using same_but_kept [OF that none] .
  define z where "z = (if is_regular fi then
                  (case os_lstat dst w1 of
                     (Inr got, w') \<Rightarrow> (node_size got \<noteq> node_size fi, w')
                   | (Inl e, w') \<Rightarrow> (True, w'))
                else (False, w1))"
  obtain inc w2 where z: "z = (inc, w2)" by (metis surj_pair)
  have w2: "w_disk w2 = w_disk w1"
    using z lstat_disk [of dst w1]
    by (cases "os_lstat dst w1"; cases "fst (os_lstat dst w1)") (auto simp: z_def split: if_splits)
  consider (err) "e1 \<noteq> ok" | (inc) "e1 = ok" "inc" | (fine) "e1 = ok" "\<not> inc" by blast
  then show ?thesis
  proof cases
    case err
    with assms(1) c w1(1) kept_if show ?thesis by (auto simp: copyThenRemove_def split: option.splits)
  next
    case inc
    then have "e \<noteq> ok" "w' = snd (os_remove dst w2)"
      using assms(1) c z by (auto simp: copyThenRemove_def z_def [symmetric])
    moreover have "same_but dst w (snd (os_remove dst w2))"
      using same_but_calls(3) [of dst w2] w1(1) w2 by (simp add: same_but_def)
    ultimately show ?thesis using kept_if by auto
  next
    case fine
    obtain e3 w3 where r: "os_remove src w2 = (e3, w3)" by (metis surj_pair)
    have e: "w' = w3" "e = ok \<longrightarrow> e3 = ok \<or> e3 = Some ENOENT"
      using assms(1) c z fine r
      by (auto simp: copyThenRemove_def z_def [symmetric] split: option.splits oserr.splits)
    have src: "node_at w2 src = Some n0" using w1(1) w2 assms(2) ne by (simp add: same_but_def)
    have "data_at w1 dst = data_at w src" using w1(2) fine by simp
    then have moved: "data_at w3 dst = data_at w src" if "node_at w3 = (node_at w2)(src := None)"
      using that w2 ne by (simp add: data_at_def)
    have "kept A w w2" using kept_if [of w2] w1(1) w2 by (simp add: same_but_def)
    moreover have "kept A w w3" if u: "node_at w3 = (node_at w2)(src := None)"
    proof -
      have "data_at w3 k = Some c \<or> (\<exists>q\<in>A. data_at w3 q = Some c)" if "data_at w k = Some c" for k c
      proof (cases "k = src")
        case True
        then show ?thesis using moved [OF u] that assms(5) by auto
      next
        case False
        moreover have "k \<noteq> dst" using that none by auto
        ultimately show ?thesis using that u w1(1) w2 by (simp add: data_at_def same_but_def)
      qed
      then show ?thesis by (simp add: kept_def)
    qed
    ultimately have "kept A w w3" using remove_cases [OF r] kept_same_disk by blast
    moreover have "e3 = ok \<or> e3 = Some ENOENT \<Longrightarrow> node_at w3 src = None"
      using r src by (auto simp: os_remove_def split: if_splits)
    ultimately show ?thesis using e by blast
  qed
qed

lemma copyThenRemove_frame:
  assumes "copyThenRemove src dst fi w = (e, w')" "node_at w src = Some n0" "same_node fi n0" "src \<noteq> dst"
  shows "frame (below src \<union> below dst) w w'"
proof -
  let ?X = "below src \<union> below dst"
  have in_X: "src \<in> ?X" "dst \<in> ?X" by (simp_all add: below_def)
  obtain e1 w1 where c: "copyFileOrSymlink src dst fi w = (e1, w1)" by (metis surj_pair)
  have f1: "frame ?X w w1" using copy_result(1) [OF c assms(2,3,4)] in_X(2) by (rule same_but_frame)
  obtain l w2 where l: "os_lstat dst w1 = (l, w2)" by (metis surj_pair)
  have f2: "frame ?X w w2"
    using f1 lstat_disk [of dst w1] l by (auto intro: frame_trans frame_same_disk)
  have rm: "frame ?X w (snd (os_remove k v))" if "frame ?X w v" "k \<in> ?X" for k v
    using frame_trans [OF that(1) same_but_frame [OF same_but_calls(3) that(2)]] .
  show ?thesis
    using assms(1) f1 rm [OF f1 in_X(1)] rm [OF f2 in_X(1)] rm [OF f2 in_X(2)]
    by (cases l; cases e1) (auto simp: copyThenRemove_def c l Let_def
        split: if_splits prod.splits option.splits oserr.splits)
qed

lemma rename_or_copy_frame:
  assumes "rename_or_copy src dst fi w = (e, w')" "node_at w src = Some n0" "same_node fi n0" "src \<noteq> dst"
  shows "frame (below src \<union> below dst) w w'"
proof -
  obtain e1 w1 where r: "os_rename src dst w = (e1, w1)" by (metis surj_pair)
  note f = rename_frame [OF r]
  show ?thesis
  proof (cases "e1 = Some EXDEV")
    case True
    then have d: "w_disk w1 = w_disk w" using r
      by (auto simp: os_rename_def split: fault.splits option.splits if_splits)
    have "copyThenRemove src dst fi w1 = (e, w')" using assms(1) r True by (simp add: rename_or_copy_def)
    from copyThenRemove_frame [OF this _ assms(3,4)] assms(2) d show ?thesis by (simp add: frame_def)
  next
    case False
    with assms(1) r f show ?thesis by (auto simp: rename_or_copy_def split: option.splits oserr.splits)
  qed
qed

lemma rename_or_copy_kept:
  assumes "rename_or_copy src dst fi w = (e, w')" "node_at w src = Some n0" "same_node fi n0" "node_at w dst = None" "\<And>s. dst @ s \<in> A"
  shows "kept A w w' \<and> (e = ok \<longrightarrow> node_at w' src = None)"
proof -
  have ne: "src \<noteq> dst" using assms(2,4) by auto
  have A: "dst \<in> A" using assms(5) [of "[]"] by simp
  obtain e1 w1 where r: "os_rename src dst w = (e1, w1)" by (metis surj_pair)
  have k: "kept A w w1" using rename_kept [OF r _ assms(5)] assms(4) by (simp add: data_at_def)
  consider "e1 = ok" | "e1 = Some EXDEV" | x where "e1 = Some x" "x \<noteq> EXDEV" by (cases e1) auto
  then show ?thesis
  proof cases
    case 1
    have "node_at w1 src = None" using r [unfolded 1] ne
      by (cases rule: rename_cases) (auto dest: moves_prefix)
    with 1 assms(1) r k show ?thesis by (auto simp: rename_or_copy_def)
  next
    case 2
    have d: "w_disk w1 = w_disk w" using r 2
      by (auto simp: os_rename_def split: fault.splits option.splits if_splits)
    have "copyThenRemove src dst fi w1 = (e, w')" using assms(1) r 2 by (simp add: rename_or_copy_def)
    from copyThenRemove_kept [OF this _ assms(3) _ A] assms(2,4) d
    show ?thesis by (simp add: kept_def data_at_def)
  next
    case 3
    with assms(1) r k show ?thesis by (auto simp: rename_or_copy_def split: oserr.splits)
  qed
qed

section \<open>Put\<close>

lemma append_log_absent: "append_log k l w = (e, w') \<Longrightarrow> node_at w j = None \<Longrightarrow> node_at w' j = None"
  by (auto simp: append_log_def os_update_def split: if_splits option.splits)

lemma in_trash_area: "share_root r \<Longrightarrow> event_id i \<Longrightarrow> fkey_of (event_dir r i @ slash # s) @ t \<in> trash_area r"
  by (simp add: trash_area_def event_dir_below)

text \<open>\<open>A\<close> is any set of paths that covers the trash. After a successful \<open>Put\<close> nothing is
  left at the path, and whatever the outcome no data is lost. Directories above other paths
  stay directories.\<close>

lemma put_into_kept:
  assumes "put_into ev relpath src fi kind w = (e, w')" "share_root (te_root ev)" "event_id (te_id ev)"
    "node_at w src = Some n0" "same_node fi n0" "trash_area (te_root ev) \<subseteq> A"
  shows "kept A w w' \<and> frame (below src \<union> A) w w' \<and> (e = ok \<longrightarrow> node_at w' src = None)"
proof -
  let ?F = "frame (below src \<union> A)"
  let ?ed = "event_dir (te_root ev) (te_id ev)"
  obtain f w1 where f: "freeStoredPath ?ed relpath w = (f, w1)" by (metis surj_pair)
  note fr = freeStoredPath_result [OF f event_dir_below(2) [OF assms(2,3)]]
  have k1: "kept A w w1" "?F w w1" using fr kept_same_disk [of w1 w A w] by (simp_all add: frame_same_disk)
  show ?thesis
  proof (cases f)
    case (Inl x)
    with assms(1) f k1 show ?thesis by (auto simp: put_into_def)
  next
    case (Inr sd)
    obtain stored dest where sd: "sd = (stored, dest)" by (metis surj_pair)
    have dest: "dest = ?ed @ slash # stored" "node_at w (fkey_of dest) = None" using fr Inr sd by auto
    have inA: "fkey_of dest @ t \<in> A" for t
      using in_trash_area [OF assms(2,3), of stored t] assms(6) dest(1) by auto
    let ?par = "butlast (fkey_of dest)" and ?log = "fkey_of (log_file (te_root ev) (te_id ev))"
    obtain e2 w2 where m: "os_MkdirAll ?par w1 = (e2, w2)" by (metis surj_pair)
    have g: "grows w1 w2" using MkdirAll_grows [of w1 ?par] m by simp
    have k2: "kept A w w2" using k1(1) grows_kept [OF g] by (rule kept_step)
    have f2: "?F w w2" using k1(2) grows_frame [OF g] by (rule frame_trans)
    obtain n1 where n1: "node_at w2 src = Some n1" "same_node fi n1"
      using g fr assms(4,5) unfolding grows_def by (metis same_node_trans)
    have free: "node_at w2 (fkey_of dest) = None" using MkdirAll_above [OF m fkey_of_not_Nil] dest(2) fr by simp
    obtain e3 w3 where r: "rename_or_copy src (fkey_of dest) fi w2 = (e3, w3)" by (metis surj_pair)
    note rk = rename_or_copy_kept [OF r n1 free inA]
    have k3: "kept A w w3" using k2 rk kept_step by blast
    have "below (fkey_of dest) \<subseteq> A" using inA by (auto simp: below_def prefix_def)
    moreover have "src \<noteq> fkey_of dest" using n1(1) free by auto
    ultimately have f3: "?F w w3"
      using frame_trans [OF f2 frame_mono [OF rename_or_copy_frame [OF r n1]]] by blast
    obtain e4 w4 where a: "append_log ?log (LogItem relpath kind stored) w3 = (e4, w4)" by (metis surj_pair)
    have g4: "grows w3 w4" using append_log_grows a by (metis snd_conv)
    have k4: "kept A w w4" using k3 grows_kept [OF g4] by (rule kept_step)
    have f4: "?F w w4" using f3 grows_frame [OF g4] by (rule frame_trans)
    have gone: "node_at w4 src = None" if "e3 = ok"
      using append_log_absent [OF a] rk that by simp
    show ?thesis using assms(1) k2 k3 k4 f2 f3 f4 gone
      by (auto simp: put_into_def f Inr sd m r a split: option.splits)
  qed
qed

lemma Put_kept:
  assumes "Put tz relpath srcAbs kind ev w = (e, ev', w')" "event_ok ev" "trash_area (te_root ev) \<subseteq> A"
  shows "kept A w w' \<and> frame (below (fkey_of srcAbs) \<union> A) w w' \<and>
         event_ok ev' \<and> te_root ev' = te_root ev \<and>
         (e = ok \<longrightarrow> node_at w' (fkey_of srcAbs) = None)"
proof (cases "w_done w (w_tick w)")
  case True
  with assms show ?thesis by (auto simp: Put_def frame_same_disk)
next
  case run: False
  let ?s = "fkey_of srcAbs"
  let ?F = "frame (below ?s \<union> A)"
  obtain l w1 where l: "os_lstat ?s w = (l, w1)" by (metis surj_pair)
  have w1: "w_disk w1 = w_disk w" using lstat_disk [of ?s w] l by simp
  have k1: "kept A w w1" "?F w w1" using w1 kept_same_disk [of w1 w A w] by (simp_all add: frame_same_disk)
  show ?thesis
  proof (cases l)
    case (Inl x)
    have "x = ENOENT \<Longrightarrow> node_at w1 ?s = None" using lstat_absent l Inl w1 by metis
    with Inl assms run k1 show ?thesis by (auto simp: Put_def l split: oserr.splits)
  next
    case (Inr fi)
    have fi: "node_at w1 ?s = Some fi" using lstat_ok l Inr w1 by metis
    obtain e2 ev1 w2 where o: "open_event tz ev w1 = (e2, ev1, w2)" by (metis surj_pair)
    note ev1 = open_event_result [OF o assms(2)]
    have k2: "kept A w w2" using k1(1) grows_kept [of w1 w2 A] ev1 kept_step by blast
    have f2: "?F w w2" using k1(2) grows_frame [of w1 w2] ev1 frame_trans by blast
    obtain n0 where n0: "node_at w2 ?s = Some n0" "same_node fi n0" using ev1 fi unfolding grows_def by blast
    obtain e3 w3 where p: "put_into ev1 relpath ?s fi kind w2 = (e3, w3)" by (metis surj_pair)
    have "kept A w2 w3 \<and> ?F w2 w3 \<and> (e3 = ok \<longrightarrow> node_at w3 ?s = None)" if "e2 = ok"
      using put_into_kept [OF p _ _ n0, of A] ev1 that assms(3) by (auto simp: event_ok_def)
    then have "e2 = ok \<Longrightarrow> kept A w w3 \<and> ?F w w3 \<and> (e3 = ok \<longrightarrow> node_at w3 ?s = None)"
      using k2 f2 kept_step frame_trans by blast
    then show ?thesis using assms(1) run ev1 k2 f2 by (auto simp: Put_def l Inr o p split: option.splits)
  qed
qed

end
