(* ===== verification/TrashRestore.thy ===== *)
theory TrashRestore
  imports Trash IndexStore Config
begin

text \<open>
  The reading half of \<^verbatim>\<open>internal/sync/trash.go\<close> and the node's side of the trash in
  \<^verbatim>\<open>internal/core/trash.go\<close>: listing events, restoring files from one, expiring old events,
  moving the old data-directory trash into the share, and the retention and size limits
  these use. A directory's modification time is an argument. Log texts and the sweeper's
  timer are not modelled; the loop over the watched shares is one \<open>sweep_share\<close> per share.

  The results: a restore loses nothing and its row supersedes the index's; a sweep removes
  whole events, oldest first, keeps the newest whatever its size, and ends under the limit
  when nothing fails. Two faults of the code are stated as they are: a restore of a path by
  name can pick an older copy, and a long retention wraps around.
\<close>

section \<open>Listing\<close>

record TrashItem =
  ti_RelPath :: string
  ti_Kind :: string
  ti_Size :: int
  ti_stored :: string

record TrashEventInfo =
  ei_ID :: string
  ei_At :: int
  ei_Label :: string
  ei_Source :: string
  ei_Items :: "TrashItem list"
  ei_Size :: int

text \<open>Go's zero time, in nanoseconds since 1970.\<close>

definition zero_time :: int where "zero_time = -62135596800 * 1000000000"

text \<open>Everything at and below a path, in the order of \<open>filepath.WalkDir\<close>.\<close>

definition walk :: "disk \<Rightarrow> fkey \<Rightarrow> fkey list" where
  "walk d k = sort (remdups (filter (prefix k) (map fst d)))"

definition log_lines :: "fkey \<Rightarrow> world \<Rightarrow> logline list \<times> world" where
  "log_lines k w =
     (case os_lstat k w of (Inr (FLog ls), w1) \<Rightarrow> (ls, w1) | (r, w1) \<Rightarrow> ([], w1))"

definition log_header :: "logline list \<Rightarrow> int \<times> string \<times> string" where
  "log_header ls = (case ls of LogHeader at label source # rest \<Rightarrow> (at, label, source) | _ \<Rightarrow> (zero_time, [], []))"

definition log_items :: "logline list \<Rightarrow> (string \<times> string \<times> string) list" where
  "log_items ls = List.map_filter
     (\<lambda>l. case l of LogItem p kind stored \<Rightarrow> if stored \<noteq> [] then Some (p, kind, stored) else None | _ \<Rightarrow> None) (tl ls)"

text \<open>The logged files that are still there.\<close>

fun described_items :: "string \<Rightarrow> (string \<times> string \<times> string) list \<Rightarrow> world \<Rightarrow> TrashItem list \<times> world" where
  "described_items eventDir [] w = ([], w)"
| "described_items eventDir ((p, kind, stored) # ls) w =
     (case join_in eventDir stored w of
        (Inl e, w1) \<Rightarrow> described_items eventDir ls w1
      | (Inr full, w1) \<Rightarrow>
         (case os_lstat (fkey_of full) w1 of
            (Inl e, w2) \<Rightarrow> described_items eventDir ls w2
          | (Inr n, w2) \<Rightarrow>
             if n = FDir then described_items eventDir ls w2
             else (case described_items eventDir ls w2 of
                     (is, w3) \<Rightarrow> (\<lparr>ti_RelPath = p, ti_Kind = kind, ti_Size = node_size n, ti_stored = stored\<rparr> # is, w3))))"

text \<open>The files in the folder that the log does not describe. An entry that cannot be read
  is skipped.\<close>

fun stray_items :: "fkey \<Rightarrow> string list \<Rightarrow> fkey list \<Rightarrow> world \<Rightarrow> TrashItem list \<times> world" where
  "stray_items dir described [] w = ([], w)"
| "stray_items dir described (k # ks) w =
     (let stored = join_on slash (drop (length dir) k) in
      case os_lstat k w of
        (Inr n, w1) \<Rightarrow>
          if n = FDir \<or> stored \<in> set described \<or> ValidateRelPath stored \<noteq> ok then stray_items dir described ks w1
          else (case stray_items dir described ks w1 of
                  (is, w2) \<Rightarrow> (\<lparr>ti_RelPath = stored, ti_Kind = [], ti_Size = node_size n, ti_stored = stored\<rparr> # is, w2))
      | (Inl e, w1) \<Rightarrow> stray_items dir described ks w1)"

text \<open>The final sort need not be stable; here items of one path stay in log order.\<close>

definition readEvent :: "(fkey \<Rightarrow> int) \<Rightarrow> string \<Rightarrow> string \<Rightarrow> world \<Rightarrow> TrashEventInfo \<times> world" where
  "readEvent dir_mtime root i w =
     (let eventDir = event_dir root i;
          (ls, w1) = log_lines (fkey_of (log_file root i)) w;
          (at, label, source) = log_header ls;
          (at', w2) = (if at = zero_time then
                         (case os_lstat (fkey_of eventDir) w1 of
                            (Inr n, w') \<Rightarrow> (dir_mtime (fkey_of eventDir), w') | (Inl e, w') \<Rightarrow> (at, w'))
                       else (at, w1));
          (logged, w3) = described_items eventDir (log_items ls) w2;
          (stray, w4) = stray_items (fkey_of eventDir) (map ti_stored logged) (walk (w_disk w3) (fkey_of eventDir)) w3;
          items = logged @ stray
      in (\<lparr>ei_ID = i, ei_At = at', ei_Label = label, ei_Source = source,
           ei_Items = sort_key ti_RelPath items, ei_Size = sum_list (map ti_Size items)\<rparr>, w4))"

text \<open>The names of the folders directly inside a directory.\<close>

definition subdirs :: "disk \<Rightarrow> fkey \<Rightarrow> string list" where
  "subdirs d k = map last (filter (\<lambda>j. length j = Suc (length k) \<and> map_of d j = Some FDir) (walk d k))"

fun read_events :: "(fkey \<Rightarrow> int) \<Rightarrow> string \<Rightarrow> string list \<Rightarrow> world \<Rightarrow> TrashEventInfo list \<times> world" where
  "read_events mt root [] w = ([], w)"
| "read_events mt root (i # is) w =
     (case readEvent mt root i w of
        (ev, w1) \<Rightarrow> (case read_events mt root is w1 of
           (evs, w2) \<Rightarrow> (if ei_Items ev \<noteq> [] then ev # evs else evs, w2)))"

definition ListEvents :: "(fkey \<Rightarrow> int) \<Rightarrow> string \<Rightarrow> world \<Rightarrow> (trash_err + TrashEventInfo list) \<times> world" where
  "ListEvents mt root w =
     (case os_lstat (fkey_of (trashDir root)) w of
        (Inl ENOENT, w1) \<Rightarrow> (Inr [], w1)
      | (Inl e, w1) \<Rightarrow> (Inl (TrashOs e), w1)
      | (Inr n, w1) \<Rightarrow>
          if n \<noteq> FDir then (Inl (TrashOs EOTHER), w1)
          else (case read_events mt root (subdirs (w_disk w1) (fkey_of (trashDir root))) w1 of
                  (evs, w2) \<Rightarrow> (Inr (rev (sort_key ei_At (sort_key ei_ID evs))), w2)))"

section \<open>Restoring\<close>

text \<open>The paths asked for, or every item: of several copies of a path, the one with the
  greatest stored name.\<close>

definition latest_copies :: "TrashItem list \<Rightarrow> string \<Rightarrow> TrashItem option" where
  "latest_copies is = fold (\<lambda>it m. case m (ti_RelPath it) of
       None \<Rightarrow> m(ti_RelPath it \<mapsto> it)
     | Some prev \<Rightarrow> if ti_stored it > ti_stored prev then m(ti_RelPath it \<mapsto> it) else m) is Map.empty"

fun pick_items :: "(string \<Rightarrow> TrashItem option) \<Rightarrow> string list \<Rightarrow> trash_err + TrashItem list" where
  "pick_items m [] = Inr []"
| "pick_items m (p # ps) =
     (case m p of
        None \<Rightarrow> Inl (ErrTrashEntryNotFound p)
      | Some it \<Rightarrow> (case pick_items m ps of Inl e \<Rightarrow> Inl e | Inr is \<Rightarrow> Inr (it # is)))"

definition restore_items :: "TrashItem list \<Rightarrow> string list \<Rightarrow> trash_err + TrashItem list" where
  "restore_items is relpaths = (if relpaths = [] then Inr is else pick_items (latest_copies is) relpaths)"

definition buildRestoredRow ::
  "(bytes \<Rightarrow> bytes) \<Rightarrow> string \<Rightarrow> string \<Rightarrow> string \<Rightarrow> fkey \<Rightarrow> store \<Rightarrow> world \<Rightarrow> (trash_err + FileRow) \<times> world" where
  "buildRestoredRow sha nodeID shareID relpath dest db w =
     (case os_lstat dest w of
        (Inl e, w1) \<Rightarrow> (Inl (TrashOs e), w1)
      | (Inr fi, w1) \<Rightarrow>
         let current = (case GetFile shareID relpath db of Inr r \<Rightarrow> fr_Version r | Inl e \<Rightarrow> fmempty) in
         if \<not> is_regular fi then (Inl (NotRegular relpath), w1)
         else (case os_lstat dest w1 of
                 (Inr (FFile c m t), w2) \<Rightarrow>
                   (Inr \<lparr>fr_ShareID = shareID, fr_RelPath = relpath, fr_Type = FileTypeFile,
                         fr_Size = node_size fi, fr_MTimeNS = mtime_of fi,
                         fr_Mode = (case fi of FFile c' m' t' \<Rightarrow> and m' 0x1FF | _ \<Rightarrow> 0),
                         fr_SHA256 = sha c, fr_Version = Bump current nodeID, fr_Deleted = False,
                         fr_UpdatedAt = w_now w2, fr_Ignored = False\<rparr>, w2)
               | (Inr n, w2) \<Rightarrow> (Inl (NotRegular relpath), w2)
               | (Inl e, w2) \<Rightarrow> (Inl (TrashOs e), w2)))"

record restore_state =
  rs_world :: world
  rs_replaced :: TrashEvent
  rs_store :: store

text \<open>Moving what is in the way into the \<open>replaced\<close> event.\<close>

definition clear_dest ::
  "(int \<Rightarrow> int) \<Rightarrow> string \<Rightarrow> string \<Rightarrow> TrashEvent \<Rightarrow> world \<Rightarrow> trash_err err \<times> TrashEvent \<times> world" where
  "clear_dest tz relpath dest ev w =
     (case os_lstat (fkey_of dest) w of
        (Inr n, w1) \<Rightarrow> if n = FDir then (Some ErrRestoreDestExists, ev, w1)
                      else Put tz relpath dest TrashOverwritten ev w1
      | (Inl ENOENT, w1) \<Rightarrow> (ok, ev, w1)
      | (Inl e, w1) \<Rightarrow> (Some (TrashOs e), ev, w1))"

definition restoreOne ::
  "(int \<Rightarrow> int) \<Rightarrow> (bytes \<Rightarrow> bytes) \<Rightarrow> string \<Rightarrow> string \<Rightarrow> string \<Rightarrow> string \<Rightarrow> string \<Rightarrow> TrashItem \<Rightarrow> restore_state \<Rightarrow>
     (trash_err + FileRow option) \<times> restore_state" where
  "restoreOne tz sha fresh nodeID shareID root eventDir it s =
     (case join_in eventDir (ti_stored it) (rs_world s) of
        (Inl e, w1) \<Rightarrow> (Inl (TrashJoin e), s\<lparr>rs_world := w1\<rparr>)
      | (Inr src, w1) \<Rightarrow>
     (case join_in root (ti_RelPath it) w1 of
        (Inl e, w2) \<Rightarrow> (Inl (TrashJoin e), s\<lparr>rs_world := w2\<rparr>)
      | (Inr dest, w2) \<Rightarrow>
     (case clear_dest tz (ti_RelPath it) dest (rs_replaced s) w2 of
        (Some e, ev, w3) \<Rightarrow> (Inl e, s\<lparr>rs_world := w3, rs_replaced := ev\<rparr>)
      | (None, ev, w3) \<Rightarrow>
     (case os_MkdirAll (butlast (fkey_of dest)) w3 of
        (Some e, w4) \<Rightarrow> (Inl (TrashOs e), s\<lparr>rs_world := w4, rs_replaced := ev\<rparr>)
      | (None, w4) \<Rightarrow>
     (case moveOrCopy (fkey_of src) (fkey_of dest) w4 of
        (Some e, w5) \<Rightarrow> (Inl e, s\<lparr>rs_world := w5, rs_replaced := ev\<rparr>)
      | (None, w5) \<Rightarrow>
     (case os_lstat (fkey_of dest) w5 of
        (Inr (FSym t), w6) \<Rightarrow> (Inr None, s\<lparr>rs_world := w6, rs_replaced := ev\<rparr>)
      | (r, w6) \<Rightarrow>
     (case buildRestoredRow sha nodeID shareID (ti_RelPath it) (fkey_of dest) (rs_store s) w6 of
        (Inl e, w7) \<Rightarrow> (Inl e, s\<lparr>rs_world := w7, rs_replaced := ev\<rparr>)
      | (Inr row, w7) \<Rightarrow>
     (case PutFile fresh (w_now w7) row (rs_store s) of
        (Some e, db) \<Rightarrow> (Inl TrashStore, s\<lparr>rs_world := w7, rs_replaced := ev, rs_store := db\<rparr>)
      | (None, db) \<Rightarrow> (Inr (Some row), s\<lparr>rs_world := w7, rs_replaced := ev, rs_store := db\<rparr>)))))))))"

fun restore_all ::
  "(TrashItem \<Rightarrow> restore_state \<Rightarrow> (trash_err + FileRow option) \<times> restore_state) \<Rightarrow> TrashItem list \<Rightarrow> restore_state \<Rightarrow>
     FileRow list \<times> trash_err list \<times> restore_state" where
  "restore_all f [] s = ([], [], s)"
| "restore_all f (it # its) s =
     (if w_done (rs_world s) (w_tick (rs_world s)) then ([], [TrashCancelled], s)
      else case f it s of
        (r, s1) \<Rightarrow> (case restore_all f its s1 of
           (rows, errs, s2) \<Rightarrow>
             (case r of Inl e \<Rightarrow> (rows, e # errs, s2)
              | Inr None \<Rightarrow> (rows, errs, s2)
              | Inr (Some row) \<Rightarrow> (row # rows, errs, s2))))"

text \<open>Removing the folders of an event that holds no file any more, innermost first.\<close>

fun remove_each :: "fkey list \<Rightarrow> world \<Rightarrow> world" where
  "remove_each [] w = w"
| "remove_each (k # ks) w = remove_each ks (snd (os_remove k w))"

definition pruneEmptyEvent :: "string \<Rightarrow> string \<Rightarrow> world \<Rightarrow> world" where
  "pruneEmptyEvent root i w =
     (let dir = fkey_of (event_dir root i); ks = walk (w_disk w) dir in
      if faulty w \<or> list_ex (\<lambda>k. map_of (w_disk w) k \<noteq> Some FDir) ks then tick w
      else remove_each (rev ks @ [fkey_of (log_file root i)]) (tick w))"

definition bad_event_id :: "string \<Rightarrow> bool" where
  "bad_event_id i \<longleftrightarrow> slash \<in> set i \<or> CHR 0x5C \<in> set i \<or> i = [] \<or> i = ''.'' \<or> i = ''..''"

definition Restore ::
  "(int \<Rightarrow> int) \<Rightarrow> (fkey \<Rightarrow> int) \<Rightarrow> (bytes \<Rightarrow> bytes) \<Rightarrow> string \<Rightarrow> string \<Rightarrow> string \<Rightarrow> string \<Rightarrow> string \<Rightarrow> string list \<Rightarrow>
     world \<Rightarrow> store \<Rightarrow> FileRow list \<times> trash_err list \<times> world \<times> store" where
  "Restore tz mt sha fresh nodeID shareID root eventID relpaths w db =
     (if bad_event_id eventID then ([], [ErrTrashEntryNotFound eventID], w, db)
      else case os_lstat (fkey_of (event_dir root eventID)) w of
        (Inl e, w1) \<Rightarrow> ([], [ErrTrashEntryNotFound eventID], w1, db)
      | (Inr n, w1) \<Rightarrow>
     (case readEvent mt root eventID w1 of
        (ev, w2) \<Rightarrow>
     (case restore_items (ei_Items ev) relpaths of
        Inl e \<Rightarrow> ([], [e], w2, db)
      | Inr its \<Rightarrow>
     (case restore_all (restoreOne tz sha fresh nodeID shareID root (event_dir root eventID)) its
             \<lparr>rs_world = w2, rs_replaced = begin_event root ''replaced by restore'' TrashSourceRestore (w_now w2),
              rs_store = db\<rparr> of
        (rows, errs, s) \<Rightarrow> (rows, errs, pruneEmptyEvent root eventID (rs_world s), rs_store s)))))"

section \<open>Expiry\<close>

record TrashSweep =
  ts_Purged :: nat
  ts_Size :: int

definition removeEvent :: "string \<Rightarrow> string \<Rightarrow> world \<Rightarrow> trash_err err \<times> world" where
  "removeEvent root i w =
     (if bad_event_id i then (Some (RefusedEvent i), w)
      else case os_RemoveAll (fkey_of (event_dir root i)) w of
        (Some e, w1) \<Rightarrow> (Some (TrashOs e), w1)
      | (None, w1) \<Rightarrow>
         (case os_remove (fkey_of (log_file root i)) w1 of
            (None, w2) \<Rightarrow> (ok, w2)
          | (Some ENOENT, w2) \<Rightarrow> (ok, w2)
          | (Some e, w2) \<Rightarrow> (Some (TrashOs e), w2)))"

text \<open>The loop over the events, oldest first; \<open>rest = []\<close> marks the newest. The result is
  the events removed, the errors and the bytes left.\<close>

fun sweep_loop ::
  "string \<Rightarrow> int \<Rightarrow> int \<Rightarrow> int \<Rightarrow> TrashEventInfo list \<Rightarrow> int \<Rightarrow> world \<Rightarrow>
     TrashEventInfo list \<times> trash_err list \<times> int \<times> world" where
  "sweep_loop root cutoff maxAge maxBytes [] left w = ([], [], left, w)"
| "sweep_loop root cutoff maxAge maxBytes (ev # rest) left w =
     (if \<not> (maxAge > 0 \<and> ei_At ev < cutoff) \<and> \<not> (left > maxBytes \<and> rest \<noteq> [])
      then sweep_loop root cutoff maxAge maxBytes rest left w
      else case removeEvent root (ei_ID ev) w of
        (Some e, w1) \<Rightarrow> (case sweep_loop root cutoff maxAge maxBytes rest left w1 of
            (rem, errs, t, w2) \<Rightarrow> (rem, e # errs, t, w2))
      | (None, w1) \<Rightarrow> (case sweep_loop root cutoff maxAge maxBytes rest (left - ei_Size ev) w1 of
            (rem, errs, t, w2) \<Rightarrow> (ev # rem, errs, t, w2)))"

definition Sweep ::
  "(fkey \<Rightarrow> int) \<Rightarrow> string \<Rightarrow> int \<Rightarrow> int \<Rightarrow> world \<Rightarrow> (TrashSweep \<times> trash_err list) \<times> world" where
  "Sweep mt root maxAge maxBytes w =
     (case ListEvents mt root w of
        (Inl e, w1) \<Rightarrow> ((\<lparr>ts_Purged = 0, ts_Size = 0\<rparr>, [e]), w1)
      | (Inr evs, w1) \<Rightarrow>
         let events = sort_key ei_At evs in
         (case sweep_loop root (w_now w1 - maxAge) maxAge maxBytes events (sum_list (map ei_Size events)) w1 of
            (rem, errs, left, w2) \<Rightarrow>
              ((\<lparr>ts_Purged = length rem, ts_Size = left\<rparr>, errs),
               if faulty w2 then tick w2
               else fold (pruneEmptyEvent root) (subdirs (w_disk w2) (fkey_of (trashDir root))) (tick w2))))"

section \<open>The node's limits\<close>

definition trashSweepInterval :: int where "trashSweepInterval = 3600 * 1000000000"

definition shareOrSubscriptionRoot :: "Config \<Rightarrow> string \<Rightarrow> string option" where
  "shareOrSubscriptionRoot cfg shareID =
     (case find (\<lambda>s. sh_ID s = shareID) (co_Shares cfg) of
        Some s \<Rightarrow> Some (sh_Path s)
      | None \<Rightarrow> map_option su_LocalPath (find (\<lambda>s. su_ShareID s = shareID) (co_Subscriptions cfg)))"

definition trashLimit :: "store \<Rightarrow> string \<Rightarrow> Safety \<Rightarrow> int option" where
  "trashLimit db shareID s =
     (case ParseTrashMaxSize (sf_TrashMaxSize s) of
        None \<Rightarrow> None
      | Some m \<Rightarrow>
          if tm_Percent m = 0 then Some (tm_Bytes m)
          else let live = fold (\<lambda>r t. if fr_Type r \<noteq> FileTypeDir then int64 (t + fr_Size r) else t)
                            (ListShare shareID False db) 0
               in Some (Limit m live))"

text \<open>\<open>time.Duration(days) * 24 * time.Hour\<close>, in 64 bits.\<close>

definition retention_ns :: "int \<Rightarrow> int" where
  "retention_ns days = int64 (int64 (days * 24) * (3600 * 1000000000))"

text \<open>One share of \<open>sweepTrash\<close>; a limit that cannot be read skips the share.\<close>

definition sweep_share ::
  "(fkey \<Rightarrow> int) \<Rightarrow> Config \<Rightarrow> store \<Rightarrow> string \<Rightarrow> string \<Rightarrow> world \<Rightarrow> (TrashSweep \<times> trash_err list) option \<times> world" where
  "sweep_share mt cfg db shareID root w =
     (let safety = SafetyFor cfg shareID in
      case trashLimit db shareID safety of
        None \<Rightarrow> (None, w)
      | Some limit \<Rightarrow>
          (case Sweep mt root (retention_ns (sf_TrashRetentionDays safety)) limit w of (r, w1) \<Rightarrow> (Some r, w1)))"

section \<open>A concrete trash\<close>

text \<open>A share at \<^verbatim>\<open>/s\<close> with a file and two events, one second apart.\<close>

definition ex_trash :: world where
  "ex_trash = \<lparr>w_disk =
     [([[]], FDir), ([[], ''s''], FDir), ([[], ''s'', ''a.txt''], FFile [9] 0x1A4 7),
      ([[], ''s'', ''.syncat''], FDir), ([[], ''s'', ''.syncat'', ''README''], FFile [] 0x180 0),
      ([[], ''s'', ''.syncat'', ''trash''], FDir), ([[], ''s'', ''.syncat'', ''trash-events''], FDir),
      ([[], ''s'', ''.syncat'', ''trash'', ''e1''], FDir),
      ([[], ''s'', ''.syncat'', ''trash'', ''e1'', ''a.txt''], FFile [1] 0x1A4 3),
      ([[], ''s'', ''.syncat'', ''trash-events'', ''e1.jsonl''],
        FLog [LogHeader 1000000000 ''from b'' TrashSourcePeer, LogItem ''a.txt'' TrashDeleted ''a.txt'']),
      ([[], ''s'', ''.syncat'', ''trash'', ''e2''], FDir),
      ([[], ''s'', ''.syncat'', ''trash'', ''e2'', ''b''], FFile [2, 3] 0x1A4 3),
      ([[], ''s'', ''.syncat'', ''trash-events'', ''e2.jsonl''],
        FLog [LogHeader 2000000000 ''from b'' TrashSourcePeer, LogItem ''b'' TrashOverwritten ''b''])],
     w_fault = (\<lambda>n. Fine), w_tick = 0, w_done = (\<lambda>n. False), w_now = 3000000000\<rparr>"

definition ex_item :: TrashItem where
  "ex_item = \<lparr>ti_RelPath = ''a.txt'', ti_Kind = TrashDeleted, ti_Size = 1, ti_stored = ''a.txt''\<rparr>"

lemma ex_sweep: "fst (Sweep (\<lambda>_. 0) ''/s'' 0 2 ex_trash) = (\<lparr>ts_Purged = 1, ts_Size = 2\<rparr>, [])"
  by code_simp

lemma ex_list: "map_sum id (map ei_ID) (fst (ListEvents (\<lambda>_. 0) ''/s'' ex_trash)) = Inr [''e2'', ''e1'']"
  by code_simp

lemma ex_root: "share_root ''/s''"
  unfolding share_root_def by code_simp

lemma ex_restored:
  "let r = Restore (\<lambda>_. 0) (\<lambda>_. 0) id ''f'' ''n'' ''x'' ''/s'' ''e1'' [''a.txt''] ex_trash empty_store; w = fst (snd (snd r)) in
     map fr_RelPath (fst r) = [''a.txt''] \<and> fst (snd r) = [] \<and>
     data_at w [[], ''s'', ''a.txt''] = Some (Inl [1]) \<and>
     data_at w [[], ''s'', ''.syncat'', ''trash'', ''1970-01-01 00.00.03 replaced by restore'', ''a.txt''] = Some (Inl [9])"
  by code_simp

section \<open>What a sweep removes\<close>

definition expired :: "int \<Rightarrow> int \<Rightarrow> TrashEventInfo \<Rightarrow> bool" where
  "expired cutoff maxAge ev \<longleftrightarrow> maxAge > 0 \<and> ei_At ev < cutoff"

definition size_of :: "TrashEventInfo list \<Rightarrow> int" where
  "size_of evs = sum_list (map ei_Size evs)"

lemma size_of_simps [simp]: "size_of [] = 0" "size_of (e # es) = ei_Size e + size_of es"
  by (simp_all add: size_of_def)

text \<open>Once an event stays, every newer one stays.\<close>

lemma sweep_loop_stays:
  assumes "\<not> (left > maxBytes \<and> evs \<noteq> [])" "\<forall>e \<in> set evs. \<not> expired cutoff maxAge e"
  shows "sweep_loop root cutoff maxAge maxBytes evs left w = ([], [], left, w)"
  using assms by (induction evs) (auto simp: expired_def)

lemma sweep_loop_policy:
  assumes "sweep_loop root cutoff maxAge maxBytes evs left w = (rem, [], t, w')"
    and "sorted (map ei_At evs)" "left = size_of evs"
  shows "rem = take (length rem) evs \<and> t = size_of (drop (length rem) evs) \<and>
         (t \<le> maxBytes \<or> length evs \<le> Suc (length rem)) \<and>
         (\<forall>e \<in> set (drop (length rem) evs). \<not> expired cutoff maxAge e) \<and>
         (\<forall>i < length rem. expired cutoff maxAge (evs ! i) \<or> size_of (drop i evs) > maxBytes \<and> Suc i < length evs)"
  using assms
proof (induction evs arbitrary: left w rem)
  case (Cons ev rest)
  show ?case
  proof (cases "expired cutoff maxAge ev \<or> left > maxBytes \<and> rest \<noteq> []")
    case False
    have "\<forall>e \<in> set (ev # rest). \<not> expired cutoff maxAge e"
      using False Cons.prems(2) by (fastforce simp: expired_def)
    moreover from this False have "sweep_loop root cutoff maxAge maxBytes (ev # rest) left w = ([], [], left, w)"
      using sweep_loop_stays [of maxBytes left rest cutoff maxAge root w] by (auto simp: expired_def)
    ultimately show ?thesis using Cons.prems False by auto
  next
    case True
    obtain r1 w1 where r: "removeEvent root (ei_ID ev) w = (r1, w1)" by (metis surj_pair)
    obtain rem' errs t' w2 where l: "sweep_loop root cutoff maxAge maxBytes rest (left - ei_Size ev) w1 = (rem', errs, t', w2)"
      by (metis surj_pair)
    have "r1 = ok \<and> errs = [] \<and> rem = ev # rem' \<and> t' = t \<and> w2 = w'"
      using Cons.prems(1) True by (auto simp: r l expired_def split: option.splits prod.splits)
    then have e: "errs = []" "rem = ev # rem'" "t' = t" "w2 = w'" by simp_all
    have IH: "rem' = take (length rem') rest \<and> t = size_of (drop (length rem') rest) \<and>
         (t \<le> maxBytes \<or> length rest \<le> Suc (length rem')) \<and>
         (\<forall>e \<in> set (drop (length rem') rest). \<not> expired cutoff maxAge e) \<and>
         (\<forall>i < length rem'. expired cutoff maxAge (rest ! i) \<or> size_of (drop i rest) > maxBytes \<and> Suc i < length rest)"
      using Cons.IH [OF l [unfolded e]] Cons.prems(2,3) by auto
    have "expired cutoff maxAge ((ev # rest) ! i) \<or> size_of (drop i (ev # rest)) > maxBytes \<and> Suc i < length (ev # rest)"
      if "i < length rem" for i
      using IH that True Cons.prems(3) e(2) by (cases i) auto
    then show ?thesis using IH e(2) by auto
  qed
qed simp

text \<open>A sweep only removes entries.\<close>

definition shrinks :: "world \<Rightarrow> world \<Rightarrow> bool" where
  "shrinks w w' \<longleftrightarrow> (\<forall>k. node_at w' k = node_at w k \<or> node_at w' k = None)"

lemma shrinks_same: "w_disk w' = w_disk w \<Longrightarrow> shrinks w w'"
  by (simp add: shrinks_def)

lemma shrinks_trans: "shrinks w w' \<Longrightarrow> shrinks w' w'' \<Longrightarrow> shrinks w w''"
  unfolding shrinks_def by metis

lemma remove_shrinks: "shrinks w (snd (os_remove k w))"
  by (auto simp: shrinks_def os_remove_def split: option.splits)

lemma RemoveAll_result:
  assumes "os_RemoveAll k w = (e, w')"
  shows "shrinks w w' \<and> (e = ok \<longrightarrow> (\<forall>j. prefix k j \<longrightarrow> node_at w' j = None)) \<and>
         (\<forall>j. \<not> prefix k j \<longrightarrow> node_at w' j = node_at w j)"
  using assms by (auto simp: shrinks_def os_RemoveAll_def split: if_splits)

lemma removeEvent_result:
  assumes "removeEvent root i w = (e, w')"
  shows "shrinks w w' \<and> (e = ok \<longrightarrow> (\<forall>j. prefix (fkey_of (event_dir root i)) j \<longrightarrow> node_at w' j = None))"
proof -
  obtain e1 w1 where 1: "os_RemoveAll (fkey_of (event_dir root i)) w = (e1, w1)" by (metis surj_pair)
  obtain e2 w2 where 2: "os_remove (fkey_of (log_file root i)) w1 = (e2, w2)" by (metis surj_pair)
  have s2: "shrinks w1 w2" using remove_shrinks 2 by (metis snd_conv)
  note r1 = RemoveAll_result [OF 1]
  have s: "shrinks w w2" "e1 = ok \<longrightarrow> (\<forall>j. prefix (fkey_of (event_dir root i)) j \<longrightarrow> node_at w2 j = None)"
    using r1 s2 shrinks_trans by (blast, metis shrinks_def)
  show ?thesis using assms r1 s
    by (auto simp: removeEvent_def 1 2 shrinks_same split: if_splits option.splits oserr.splits)
qed

lemma sweep_loop_disk:
  assumes "sweep_loop root cutoff maxAge maxBytes evs left w = (rem, errs, t, w')"
  shows "shrinks w w' \<and> (\<forall>e \<in> set rem. \<forall>j. prefix (fkey_of (event_dir root (ei_ID e))) j \<longrightarrow> node_at w' j = None)"
  using assms
proof (induction evs arbitrary: left w rem errs)
  case (Cons ev rest)
  show ?case
  proof (cases "expired cutoff maxAge ev \<or> left > maxBytes \<and> rest \<noteq> []")
    case False
    then show ?thesis using Cons by (auto simp: expired_def split: if_splits)
  next
    case True
    obtain r1 w1 where r: "removeEvent root (ei_ID ev) w = (r1, w1)" by (metis surj_pair)
    note r' = removeEvent_result [OF r]
    obtain left' rem' errs' where l: "sweep_loop root cutoff maxAge maxBytes rest left' w1 = (rem', errs', t, w')"
      "rem = (if r1 = ok then ev # rem' else rem')"
      using Cons.prems True by (auto simp: r expired_def split: option.splits prod.splits)
    note IH = Cons.IH [OF l(1)]
    have "node_at w1 j = None \<Longrightarrow> node_at w' j = None" for j using IH by (metis shrinks_def)
    then show ?thesis using IH r' l(2) shrinks_trans by (auto split: if_splits)
  qed
qed (simp add: shrinks_same)

lemma remove_each_shrinks: "shrinks w (remove_each ks w)"
  by (induction ks arbitrary: w) (auto intro: shrinks_same shrinks_trans remove_shrinks)

lemma prune_shrinks: "shrinks w (pruneEmptyEvent root i w)"
  using remove_each_shrinks [of "tick w"] by (auto simp: pruneEmptyEvent_def Let_def shrinks_def)

lemma prune_all_shrinks: "shrinks w (fold (pruneEmptyEvent root) is w)"
  by (induction "is" arbitrary: w) (auto intro: shrinks_same shrinks_trans prune_shrinks)

lemma Sweep_loop:
  assumes "Sweep mt root maxAge maxBytes w = ((res, errs), w')" "ListEvents mt root w = (Inr evs, w1)"
  obtains rem t w2 where "sweep_loop root (w_now w1 - maxAge) maxAge maxBytes (sort_key ei_At evs)
      (size_of (sort_key ei_At evs)) w1 = (rem, errs, t, w2)"
    "ts_Size res = t" "ts_Purged res = length rem" "shrinks w2 w'"
proof -
  let ?evs = "sort_key ei_At evs"
  obtain rem errs' t w2 where l: "sweep_loop root (w_now w1 - maxAge) maxAge maxBytes ?evs (size_of ?evs) w1
      = (rem, errs', t, w2)" by (metis surj_pair)
  let ?w' = "if faulty w2 then tick w2
     else fold (pruneEmptyEvent root) (subdirs (w_disk w2) (fkey_of (trashDir root))) (tick w2)"
  have "shrinks w2 ?w'"
    using shrinks_trans [OF shrinks_same prune_all_shrinks, of "tick w2" w2] by (simp add: shrinks_same)
  moreover have "errs' = errs" "ts_Size res = t" "ts_Purged res = length rem" "w' = ?w'"
    using assms l by (auto simp: Sweep_def Let_def size_of_def)
  ultimately show thesis using that l by blast
qed

text \<open>
  What a sweep removes. When no removal fails, a sweep removes a run of the oldest
  events: every event older than the retention goes, and after that only as many as it takes
  to get under the size limit, each of them removed because the trash was still over the
  limit; so the trash ends under the limit or holds at most its newest event. The newest event
  is never removed for its size, and a retention of zero or less expires nothing by age. The
  reported size is that of the events left, and nothing is left on disk of the removed ones.
\<close>

theorem sweep_policy:
  assumes "Sweep mt root maxAge maxBytes w = ((res, []), w')" "ListEvents mt root w = (Inr evs, w1)"
  defines "events \<equiv> sort_key ei_At evs" and "n \<equiv> ts_Purged res"
  shows "ts_Size res = size_of (drop n events) \<and>
         (ts_Size res \<le> maxBytes \<or> length events \<le> Suc n) \<and>
         (\<forall>e \<in> set (drop n events). \<not> expired (w_now w1 - maxAge) maxAge e) \<and>
         (\<forall>i < n. expired (w_now w1 - maxAge) maxAge (events ! i) \<or>
            size_of (drop i events) > maxBytes \<and> Suc i < length events) \<and>
         (\<forall>e \<in> set (take n events). \<forall>j. prefix (fkey_of (event_dir root (ei_ID e))) j \<longrightarrow> node_at w' j = None)"
proof -
  obtain rem t w2 where l: "sweep_loop root (w_now w1 - maxAge) maxAge maxBytes events (size_of events) w1
      = (rem, [], t, w2)" and r: "ts_Size res = t" "ts_Purged res = length rem" and s: "shrinks w2 w'"
    using Sweep_loop [OF assms(1,2)] unfolding events_def by metis
  have "sorted (map ei_At events)" by (simp add: events_def)
  note p = sweep_loop_policy [OF l this refl]
  have "\<forall>e \<in> set rem. \<forall>j. prefix (fkey_of (event_dir root (ei_ID e))) j \<longrightarrow> node_at w' j = None"
    using sweep_loop_disk [OF l] s unfolding shrinks_def by metis
  moreover have "rem = take n events" using p r(2) by (simp add: n_def)
  ultimately show ?thesis using p r unfolding n_def by metis
qed

theorem sweep_policy_witness:
  "map_sum id (map ei_ID) (fst (ListEvents (\<lambda>_. 0) ''/s'' ex_trash)) = Inr [''e2'', ''e1''] \<and>
   (\<exists>evs w1. ListEvents (\<lambda>_. 0) ''/s'' ex_trash = (Inr evs, w1) \<and> size_of (drop 1 (sort_key ei_At evs)) = 2 \<and>
      (\<forall>e \<in> set (take 1 (sort_key ei_At evs)). \<forall>j. prefix (fkey_of (event_dir ''/s'' (ei_ID e))) j \<longrightarrow>
         node_at (snd (Sweep (\<lambda>_. 0) ''/s'' 0 2 ex_trash)) j = None))"
proof -
  obtain evs w1 where l: "ListEvents (\<lambda>_. 0) ''/s'' ex_trash = (Inr evs, w1)"
    using ex_list by (cases "ListEvents (\<lambda>_. 0) ''/s'' ex_trash"; cases "fst (ListEvents (\<lambda>_. 0) ''/s'' ex_trash)") auto
  have "Sweep (\<lambda>_. 0) ''/s'' 0 2 ex_trash =
      ((\<lparr>ts_Purged = 1, ts_Size = 2\<rparr>, []), snd (Sweep (\<lambda>_. 0) ''/s'' 0 2 ex_trash))"
    using ex_sweep by (metis prod.collapse)
  from sweep_policy [OF this l] show ?thesis using ex_list l by auto
qed

section \<open>What a restore keeps\<close>

lemma described_items_disk: "w_disk (snd (described_items ed ls w)) = w_disk w"
proof (induction ed ls w rule: described_items.induct)
  case (2 ed p kind stored ls w)
  obtain j w1 where j: "join_in ed stored w = (j, w1)" by (metis surj_pair)
  have w1: "w_disk w1 = w_disk w" using join_disk [of ed stored w] j by simp
  show ?case
  proof (cases j)
    case (Inl e)
    then show ?thesis using 2(1) [OF j [symmetric]] w1 by (simp add: j)
  next
    case (Inr full)
    obtain l w2 where l: "os_lstat (fkey_of full) w1 = (l, w2)" by (metis surj_pair)
    have w2: "w_disk w2 = w_disk w" using lstat_disk [of "fkey_of full" w1] l w1 by simp
    show ?thesis using 2(2-4) j l Inr w2 by (cases l) (auto split: prod.splits)
  qed
qed simp

lemma stray_items_disk: "w_disk (snd (stray_items dir ds ks w)) = w_disk w"
proof (induction ks arbitrary: w)
  case (Cons k ks)
  obtain l w1 where l: "os_lstat k w = (l, w1)" by (metis surj_pair)
  have w1: "w_disk w1 = w_disk w" using lstat_disk [of k w] l by simp
  show ?case using Cons.IH [of w1] w1 l by (cases l) (auto simp: Let_def split: prod.splits)
qed simp

lemma log_lines_disk: "w_disk (snd (log_lines k w)) = w_disk w"
  using lstat_disk [of k w] by (cases "os_lstat k w") (auto simp: log_lines_def split: sum.splits fnode.splits)

lemma readEvent_disk: "w_disk (snd (readEvent mt root i w)) = w_disk w"
proof -
  obtain ls w1 where 1: "log_lines (fkey_of (log_file root i)) w = (ls, w1)" by (metis surj_pair)
  obtain at label source where h: "log_header ls = (at, label, source)" by (metis surj_pair)
  obtain l w1' where l: "os_lstat (fkey_of (event_dir root i)) w1 = (l, w1')" by (metis surj_pair)
  define z where "z = (if at = zero_time then
       (case os_lstat (fkey_of (event_dir root i)) w1 of
          (Inr n, w') \<Rightarrow> (mt (fkey_of (event_dir root i)), w') | (Inl e, w') \<Rightarrow> (at, w'))
     else (at, w1))"
  obtain at' w2 where 2: "z = (at', w2)" by (metis surj_pair)
  have "w_disk w1' = w_disk w1" using lstat_disk [of "fkey_of (event_dir root i)" w1] l by simp
  then have d2: "w_disk w2 = w_disk w1" using 2 l by (cases l) (auto simp: z_def split: if_splits)
  have d1: "w_disk w1 = w_disk w" using log_lines_disk [of "fkey_of (log_file root i)" w] 1 by simp
  obtain its w3 where 3: "described_items (event_dir root i) (log_items ls) w2 = (its, w3)" by (metis surj_pair)
  have d3: "w_disk w3 = w_disk w2" using described_items_disk [of "event_dir root i" "log_items ls" w2] 3 by simp
  obtain st w4 where 4: "stray_items (fkey_of (event_dir root i)) (map ti_stored its)
      (walk (w_disk w3) (fkey_of (event_dir root i))) w3 = (st, w4)" by (metis surj_pair)
  have d4: "w_disk w4 = w_disk w3"
    using stray_items_disk [of "fkey_of (event_dir root i)" "map ti_stored its"
        "walk (w_disk w3) (fkey_of (event_dir root i))" w3] 4 by simp
  show ?thesis unfolding readEvent_def Let_def 1 h prod.case z_def [symmetric] 2 3 4 using d1 d2 d3 d4 by simp
qed

text \<open>Everything below the share except the event logs.\<close>

definition share_area :: "string \<Rightarrow> fkey set" where
  "share_area root = below (fkey_of root) - below (fkey_of (trashLogDir root))"

lemma trash_in_share:
  assumes "share_root root"
  shows "trash_area root \<subseteq> share_area root"
proof
  fix x assume x: "x \<in> trash_area root"
  have e: "fkey_of ''.syncat/trash'' = [''.syncat'', ''trash'']"
    "fkey_of ''.syncat/trash-events'' = [''.syncat'', ''trash-events'']" by code_simp+
  have "fkey_of (trashDir root) = fkey_of root @ [''.syncat'', ''trash'']"
    unfolding reserved_paths(2) [OF assms] fkey_of_below e ..
  then have "prefix (fkey_of root @ [''.syncat'', ''trash'']) x" using x by (simp add: trash_area_def)
  then obtain z where z: "x = (fkey_of root @ [''.syncat'', ''trash'']) @ z" by (rule prefixE)
  have l: "fkey_of (trashLogDir root) = fkey_of root @ [''.syncat'', ''trash-events'']"
    unfolding reserved_paths(4) [OF assms] fkey_of_below e ..
  show "x \<in> share_area root" unfolding share_area_def below_def l z by simp
qed

lemma dest_in_share:
  assumes "share_root root" "ValidateRelPath p = ok"
  shows "fkey_of (root @ slash # p) @ s \<in> share_area root"
proof -
  have e: "fkey_of ''.syncat/trash-events'' = [''.syncat'', ''trash-events'']" by code_simp
  obtain x xs where x: "fkey_of p = x # xs" by (cases "fkey_of p") auto
  have "x \<noteq> ''.syncat''"
    using valid_first_elem [OF assms(2)] x by (simp add: ReservedDirName_def)
  then show ?thesis using x by (auto simp: share_area_def below_def reserved_paths [OF assms(1)] e)
qed

lemma clear_dest_result:
  assumes "clear_dest tz p dest ev w = (e, ev', w')" "event_ok ev" "trash_area (te_root ev) \<subseteq> A"
  shows "kept A w w' \<and> event_ok ev' \<and> te_root ev' = te_root ev \<and> (e = ok \<longrightarrow> node_at w' (fkey_of dest) = None)"
proof -
  obtain l w1 where l: "os_lstat (fkey_of dest) w = (l, w1)" by (metis surj_pair)
  have w1: "w_disk w1 = w_disk w" using lstat_disk [of "fkey_of dest" w] l by simp
  have k1: "kept A w w1" using w1 by (simp add: grows_kept grows_same_disk)
  obtain x ev2 w2 where p: "Put tz p dest TrashOverwritten ev w1 = (x, ev2, w2)" by (metis surj_pair)
  note pk = Put_kept [OF p assms(2,3)]
  have "kept A w w2" using k1 pk kept_step by blast
  moreover have "l = Inl ENOENT \<Longrightarrow> node_at w1 (fkey_of dest) = None" using lstat_absent l w1 by metis
  ultimately show ?thesis using assms(1,2) k1 pk
    by (cases l) (auto simp: clear_dest_def l p split: if_splits oserr.splits)
qed

lemma moveOrCopy_kept:
  assumes "moveOrCopy src dst w = (e, w')" "node_at w dst = None" "\<And>s. dst @ s \<in> A"
  shows "kept A w w'"
proof -
  obtain l w1 where l: "os_lstat src w = (l, w1)" by (metis surj_pair)
  have w1: "w_disk w1 = w_disk w" using lstat_disk [of src w] l by simp
  have k1: "kept A w w1" using w1 by (simp add: grows_kept grows_same_disk)
  show ?thesis
  proof (cases l)
    case (Inl x)
    then show ?thesis using assms(1) k1 by (simp add: moveOrCopy_def l)
  next
    case (Inr fi)
    then have n: "node_at w1 src = Some fi" using lstat_ok l w1 by metis
    have "rename_or_copy src dst fi w1 = (e, w')" using assms(1) Inr by (simp add: moveOrCopy_def l)
    from rename_or_copy_kept [OF this n same_node_refl _ assms(3)] assms(2) w1
    show ?thesis using kept_step [OF k1] by simp
  qed
qed

definition rs_ok :: "string \<Rightarrow> restore_state \<Rightarrow> bool" where
  "rs_ok root s \<longleftrightarrow> share_root root \<and> event_ok (rs_replaced s) \<and> te_root (rs_replaced s) = root"

lemma buildRestoredRow_result:
  assumes "buildRestoredRow sha nodeID shareID p dest db w = (r, w')"
  shows "w_disk w' = w_disk w"
    and "r = Inr row \<Longrightarrow> \<exists>c m t. node_at w dest = Some (FFile c m t) \<and> fr_SHA256 row = sha c \<and>
      fr_Size row = int (length c) \<and> fr_ShareID row = shareID \<and> fr_RelPath row = p \<and> \<not> fr_Deleted row \<and>
      \<not> fr_Ignored row \<and>
      fr_Version row = Bump (case GetFile shareID p db of Inr r \<Rightarrow> fr_Version r | Inl e \<Rightarrow> fmempty) nodeID"
proof -
  obtain l w1 where l: "os_lstat dest w = (l, w1)" by (metis surj_pair)
  obtain l2 w2 where l2: "os_lstat dest w1 = (l2, w2)" by (metis surj_pair)
  have d: "w_disk w1 = w_disk w" "w_disk w2 = w_disk w"
    using lstat_disk [of dest w] lstat_disk [of dest w1] l l2 by simp_all
  then show "w_disk w' = w_disk w" using assms
    by (cases l; cases l2) (auto simp: buildRestoredRow_def l l2 Let_def split: if_splits fnode.splits)
  assume row: "r = Inr row"
  then obtain fi c m t where f: "l = Inr fi" "l2 = Inr (FFile c m t)"
    using assms by (cases l; cases l2) (auto simp: buildRestoredRow_def l l2 Let_def split: if_splits fnode.splits)
  have "node_at w dest = Some fi" "node_at w1 dest = Some (FFile c m t)"
    using lstat_ok l l2 f by blast+
  then have "fi = FFile c m t" "node_at w dest = Some (FFile c m t)" using d by auto
  then show "\<exists>c m t. node_at w dest = Some (FFile c m t) \<and> fr_SHA256 row = sha c \<and>
      fr_Size row = int (length c) \<and> fr_ShareID row = shareID \<and> fr_RelPath row = p \<and> \<not> fr_Deleted row \<and>
      \<not> fr_Ignored row \<and>
      fr_Version row = Bump (case GetFile shareID p db of Inr r \<Rightarrow> fr_Version r | Inl e \<Rightarrow> fmempty) nodeID"
    using assms row f by (auto simp: buildRestoredRow_def l l2 Let_def is_regular_def node_size_def)
qed

lemma PutFile_get:
  assumes "PutFile fresh now row db = (ok, db')" "\<not> fr_Ignored row"
  shows "GetFile (fr_ShareID row) (fr_RelPath row) db' = Inr row"
proof -
  have "row\<lparr>fr_Ignored := False\<rparr> = row" using assms(2) by (cases row) simp
  then show ?thesis using assms
    by (auto simp: PutFile_def putFileAndJournal_def GetFile_def ensure_state_def Let_def
        split: option.splits if_splits prod.splits sum.splits)
qed

lemma restoreOne_result:
  assumes "restoreOne tz sha fresh nodeID shareID root ed it s = (r, s')" "rs_ok root s"
  defines "d \<equiv> fkey_of root @ fkey_of (ti_RelPath it)"
  shows "kept (share_area root) (rs_world s) (rs_world s') \<and> rs_ok root s'"
    and "r = Inr (Some row) \<Longrightarrow>
      (\<exists>c m t. node_at (rs_world s') d = Some (FFile c m t) \<and> fr_SHA256 row = sha c \<and> fr_Size row = int (length c)) \<and>
      GetFile shareID (ti_RelPath it) (rs_store s') = Inr row \<and> \<not> fr_Deleted row \<and>
      fr_Version row = Bump (case GetFile shareID (ti_RelPath it) (rs_store s) of Inr r \<Rightarrow> fr_Version r | Inl e \<Rightarrow> fmempty) nodeID"
proof -
  let ?A = "share_area root" and ?w = "rs_world s"
  let ?G = "\<lambda>s'. kept ?A ?w (rs_world s') \<and> rs_ok root s'"
  let ?R = "\<lambda>row s'. (\<exists>c m t. node_at (rs_world s') d = Some (FFile c m t) \<and> fr_SHA256 row = sha c \<and> fr_Size row = int (length c)) \<and>
      GetFile shareID (ti_RelPath it) (rs_store s') = Inr row \<and> \<not> fr_Deleted row \<and>
      fr_Version row = Bump (case GetFile shareID (ti_RelPath it) (rs_store s) of Inr r \<Rightarrow> fr_Version r | Inl e \<Rightarrow> fmempty) nodeID"
  have root: "share_root root" using assms(2) by (simp add: rs_ok_def)
  have G: "kept ?A ?w w \<Longrightarrow> event_ok ev \<Longrightarrow> te_root ev = root \<Longrightarrow> rs_world s'' = w \<Longrightarrow> rs_replaced s'' = ev \<Longrightarrow> ?G s''"
    for w ev s'' using root by (simp add: rs_ok_def)
  have ev0: "event_ok (rs_replaced s)" "te_root (rs_replaced s) = root" using assms(2) by (simp_all add: rs_ok_def)
  obtain j w1 where 1: "join_in ed (ti_stored it) ?w = (j, w1)" by (metis surj_pair)
  have d1: "w_disk w1 = w_disk ?w" using join_disk [of ed "ti_stored it" ?w] 1 by simp
  have k1: "kept ?A ?w w1" using d1 by (simp add: grows_kept grows_same_disk)
  obtain k w2 where 2: "join_in root (ti_RelPath it) w1 = (k, w2)" by (metis surj_pair)
  have d2: "w_disk w2 = w_disk ?w" using join_disk [of root "ti_RelPath it" w1] 2 d1 by simp
  have k2: "kept ?A ?w w2" using d2 by (simp add: grows_kept grows_same_disk)
  have all: "?G s' \<and> (\<forall>row. r = Inr (Some row) \<longrightarrow> ?R row s')"
  proof (cases "isl j \<or> isl k")
    case True
    then show ?thesis using assms(1) k1 k2 ev0 root
      by (cases j; cases k) (auto simp: restoreOne_def 1 2 rs_ok_def)
  next
    case False
    then obtain src dest where jk: "j = Inr src" "k = Inr dest" by (cases j; cases k) auto
    note kb = join_in_below [OF 2 [unfolded jk] root]
    have dd: "fkey_of dest = d" by (simp add: kb(1) d_def)
    have inA: "d @ t \<in> ?A" for t using dest_in_share [OF root kb(2), of t] by (simp add: d_def)
    obtain e3 ev w3 where 3: "clear_dest tz (ti_RelPath it) dest (rs_replaced s) w2 = (e3, ev, w3)" by (metis surj_pair)
    have "trash_area (te_root (rs_replaced s)) \<subseteq> ?A" using trash_in_share [OF root] ev0 by simp
    note c3 = clear_dest_result [OF 3 ev0(1) this, unfolded dd]
    have k3: "kept ?A ?w w3" using k2 c3 kept_step by blast
    have ev: "event_ok ev" "te_root ev = root" using c3 ev0 by simp_all
    obtain e4 w4 where 4: "os_MkdirAll (butlast d) w3 = (e4, w4)" by (metis surj_pair)
    have k4: "kept ?A ?w w4" using kept_step [OF k3] grows_kept MkdirAll_grows 4 by (metis snd_conv)
    have n4: "e3 = ok \<Longrightarrow> node_at w4 d = None" using MkdirAll_above [OF 4] c3 by (simp add: d_def)
    obtain e5 w5 where 5: "moveOrCopy (fkey_of src) d w4 = (e5, w5)" by (metis surj_pair)
    have k5: "e3 = ok \<Longrightarrow> kept ?A ?w w5" using kept_step [OF k4 moveOrCopy_kept [OF 5 n4 inA]] .
    obtain l w6 where 6: "os_lstat d w5 = (l, w6)" by (metis surj_pair)
    have d6: "w_disk w6 = w_disk w5" using lstat_disk [of d w5] 6 by simp
    have k6: "e3 = ok \<Longrightarrow> kept ?A ?w w6" using k5 kept_same_disk [OF d6] by simp
    obtain b w7 where 7: "buildRestoredRow sha nodeID shareID (ti_RelPath it) d (rs_store s) w6 = (b, w7)" by (metis surj_pair)
    note b7 = buildRestoredRow_result [OF 7]
    have k7: "e3 = ok \<Longrightarrow> kept ?A ?w w7" using k6 kept_same_disk [OF b7(1)] by simp
    let ?sl = "\<exists>t. l = Inr (FSym t)"
    have eq: "(r, s') = (case e3 of Some e \<Rightarrow> (Inl e, s\<lparr>rs_world := w3, rs_replaced := ev\<rparr>) | None \<Rightarrow>
        (case e4 of Some e \<Rightarrow> (Inl (TrashOs e), s\<lparr>rs_world := w4, rs_replaced := ev\<rparr>) | None \<Rightarrow>
        (case e5 of Some e \<Rightarrow> (Inl e, s\<lparr>rs_world := w5, rs_replaced := ev\<rparr>) | None \<Rightarrow>
        if ?sl then (Inr None, s\<lparr>rs_world := w6, rs_replaced := ev\<rparr>)
        else (case b of Inl e \<Rightarrow> (Inl e, s\<lparr>rs_world := w7, rs_replaced := ev\<rparr>) | Inr row \<Rightarrow>
          (case PutFile fresh (w_now w7) row (rs_store s) of
             (Some e, db) \<Rightarrow> (Inl TrashStore, s\<lparr>rs_world := w7, rs_replaced := ev, rs_store := db\<rparr>)
           | (None, db) \<Rightarrow> (Inr (Some row), s\<lparr>rs_world := w7, rs_replaced := ev, rs_store := db\<rparr>))))))"
      using assms(1) [symmetric] unfolding restoreOne_def 1 2 jk prod.case sum.case 3 dd 4 5 6 7
      by (cases e3; cases e4; cases e5; cases l; cases "projr l") simp_all
    have row: "?R row s'" if "b = Inr row" "PutFile fresh (w_now w7) row (rs_store s) = (ok, db)"
      "s' = s\<lparr>rs_world := w7, rs_replaced := ev, rs_store := db\<rparr>" for row db
      using b7(2) [OF that(1)] PutFile_get [OF that(2)] that(3) b7(1) by auto
    have good: "?G s''" if "kept ?A ?w (rs_world s'')" "rs_replaced s'' = ev" for s''
      using that ev root by (simp add: rs_ok_def)
    show ?thesis
    proof (cases "e3 = ok \<and> e4 = ok \<and> e5 = ok \<and> \<not> ?sl \<and> \<not> isl b")
      case False
      then have "(\<forall>row. r \<noteq> Inr (Some row)) \<and> rs_replaced s' = ev \<and>
          (rs_world s' = w3 \<or> rs_world s' = w4 \<or> e3 = ok \<and> rs_world s' \<in> {w5, w6, w7})"
        using eq by (cases e3; cases e4; cases e5; cases b; cases ?sl) simp_all
      then show ?thesis using good [of s'] k3 k4 k5 k6 k7 by auto
    next
      case True
      then obtain x where b: "b = Inr x" by (cases b) auto
      obtain y db where pf: "PutFile fresh (w_now w7) x (rs_store s) = (y, db)" by (metis surj_pair)
      have rs: "(r, s') = (case y of None \<Rightarrow> (Inr (Some x), s\<lparr>rs_world := w7, rs_replaced := ev, rs_store := db\<rparr>)
          | Some e \<Rightarrow> (Inl TrashStore, s\<lparr>rs_world := w7, rs_replaced := ev, rs_store := db\<rparr>))"
        using eq True b pf by (cases y) simp_all
      then have "?G s'" using good [of s'] k7 True by (cases y) simp_all
      moreover have "?R row s'" if "r = Inr (Some row)" for row
        using row [of x db] rs b pf that by (cases y) simp_all
      ultimately show ?thesis by blast
    qed
  qed
  show "kept ?A ?w (rs_world s') \<and> rs_ok root s'" using all by simp
  show "?R row s'" if "r = Inr (Some row)" using all that by simp
qed

lemma remove_each_only: "k \<notin> set ks \<Longrightarrow> node_at (remove_each ks w) k = node_at w k"
proof (induction ks arbitrary: w)
  case (Cons j ks)
  have "node_at (snd (os_remove j w)) k = node_at w k"
    using Cons.prems same_but_calls(3) [of j w] by (simp add: same_but_def)
  then show ?case using Cons by simp
qed simp

lemma prune_data:
  assumes "k \<noteq> fkey_of (log_file root i)" "data_at w k = Some c"
  shows "data_at (pruneEmptyEvent root i w) k = Some c"
proof -
  let ?ks = "walk (w_disk w) (fkey_of (event_dir root i))"
  show ?thesis
  proof (cases "faulty w \<or> list_ex (\<lambda>k. map_of (w_disk w) k \<noteq> Some FDir) ?ks")
    case True
    then show ?thesis using assms(2) by (simp add: pruneEmptyEvent_def Let_def data_at_def)
  next
    case False
    then have "k \<notin> set ?ks" using assms(2) by (auto simp: list_ex_iff data_at_def)
    then have "node_at (pruneEmptyEvent root i w) k = node_at w k"
      using False assms(1) remove_each_only [of k "rev ?ks @ [fkey_of (log_file root i)]" "tick w"]
      by (simp add: pruneEmptyEvent_def Let_def)
    then show ?thesis using assms(2) by (simp add: data_at_def)
  qed
qed

lemma restore_all_result:
  assumes "restore_all (restoreOne tz sha fresh nodeID shareID root ed) its s = (rows, errs, s')" "rs_ok root s"
  shows "kept (share_area root) (rs_world s) (rs_world s') \<and> rs_ok root s'"
  using assms
proof (induction its arbitrary: s rows errs)
  case (Cons it its)
  show ?case
  proof (cases "w_done (rs_world s) (w_tick (rs_world s))")
    case True
    then show ?thesis using Cons.prems by auto
  next
    case False
    obtain r s1 where 1: "restoreOne tz sha fresh nodeID shareID root ed it s = (r, s1)" by (metis surj_pair)
    note k1 = restoreOne_result(1) [OF 1 Cons.prems(2)]
    obtain rows' errs' where 2: "restore_all (restoreOne tz sha fresh nodeID shareID root ed) its s1 = (rows', errs', s')"
      using Cons.prems(1) False by (auto simp: 1 split: prod.splits sum.splits option.splits)
    from Cons.IH [OF 2] k1 show ?thesis using kept_step by blast
  qed
qed auto

lemma log_file_below:
  assumes "share_root root" "\<not> bad_event_id i"
  shows "fkey_of (log_file root i) \<in> below (fkey_of (trashLogDir root))"
proof -
  let ?p = "i @ ''.jsonl''"
  have "slash \<notin> set ?p" using assms(2) by (auto simp: bad_event_id_def)
  moreover have "plain_elem ?p" using assms(2) by (auto simp: bad_event_id_def plain_elem_def append_eq_Cons_conv)
  ultimately have "log_file root i = trashLogDir root @ slash # ?p"
    using share_root_join(1) [OF reserved_paths(5) [OF assms(1)], of ?p] by (simp add: log_file_def split_on_single)
  then show ?thesis by (simp add: below_def)
qed

lemma event_ok_begin: "share_root root \<Longrightarrow> event_ok (begin_event root l src at)"
  by (simp add: event_ok_def begin_event_def)



text \<open>
  A restored file supersedes what the index had. When a restore reports a row, the file
  is on disk at its path with the row's size and SHA-256, the index returns exactly this row,
  and its version dominates the version the index had for the path, so the restore reaches
  the peers as a new change (unless this node's counter is the largest 64-bit value and
  wraps).
\<close>

theorem restored_row_supersedes:
  assumes "restoreOne tz sha fresh nodeID shareID root ed it s = (Inr (Some row), s')" "rs_ok root s"
  shows "(\<exists>c m t. node_at (rs_world s') (fkey_of root @ fkey_of (ti_RelPath it)) = Some (FFile c m t) \<and>
            fr_SHA256 row = sha c \<and> fr_Size row = int (length c)) \<and>
         GetFile shareID (ti_RelPath it) (rs_store s') = Inr row \<and> \<not> fr_Deleted row \<and>
         (\<forall>old. GetFile shareID (ti_RelPath it) (rs_store s) = Inr old \<longrightarrow> mget (fr_Version old) nodeID \<noteq> - 1 \<longrightarrow>
            Dominates (fr_Version row) (fr_Version old))"
  using restoreOne_result(2) [OF assms refl] vv.bump_dom by (auto simp: has_room_def)

definition ex_rs :: restore_state where
  "ex_rs = \<lparr>rs_world = ex_trash, rs_replaced = begin_event ''/s'' ''replaced by restore'' TrashSourceRestore 0,
     rs_store = snd (PutFile ''f'' 0 (FileRowFromInfo ''x'' (zero_FileInfo\<lparr>fi_RelPath := ''a.txt'', fi_Deleted := True\<rparr>) 0) empty_store)\<rparr>"

lemma ex_restore_one:
  "isl (fst (restoreOne (\<lambda>_. 0) id ''f'' ''n'' ''x'' ''/s'' ''/s/.syncat/trash/e1'' ex_item ex_rs)) = False \<and>
   projr (fst (restoreOne (\<lambda>_. 0) id ''f'' ''n'' ''x'' ''/s'' ''/s/.syncat/trash/e1'' ex_item ex_rs)) \<noteq> None"
  by code_simp

theorem restored_row_supersedes_witness:
  "\<exists>row old. fst (restoreOne (\<lambda>_. 0) id ''f'' ''n'' ''x'' ''/s'' ''/s/.syncat/trash/e1'' ex_item ex_rs) = Inr (Some row) \<and>
     GetFile ''x'' ''a.txt'' (rs_store ex_rs) = Inr old \<and> Dominates (fr_Version row) (fr_Version old)"
proof -
  obtain row s' where r: "restoreOne (\<lambda>_. 0) id ''f'' ''n'' ''x'' ''/s'' ''/s/.syncat/trash/e1'' ex_item ex_rs = (Inr (Some row), s')"
    using ex_restore_one by (metis not_None_eq prod.collapse sum.collapse(2))
  have ok: "rs_ok ''/s'' ex_rs"
    using ex_root event_ok_begin [OF ex_root] by (simp add: rs_ok_def ex_rs_def) (simp add: begin_event_def)
  let ?old = "FileRowFromInfo ''x'' (zero_FileInfo\<lparr>fi_RelPath := ''a.txt'', fi_Deleted := True\<rparr>) 0"
  have g: "GetFile ''x'' ''a.txt'' (rs_store ex_rs) = Inr ?old" by code_simp
  have v: "mget (fr_Version ?old) ''n'' \<noteq> - 1" by (simp add: FileRowFromInfo_def zero_FileInfo_def)
  have i: "ti_RelPath ex_item = ''a.txt''" by (simp add: ex_item_def)
  have "Dominates (fr_Version row) (fr_Version ?old)"
    using restored_row_supersedes [OF r ok] g v unfolding i by blast
  then show ?thesis using r g by auto
qed

section \<open>Which copy is restored\<close>

lemma less_at_first_difference: "(a :: char) < b \<Longrightarrow> xs @ a # ys < xs @ b # zs"
  by (induction xs) (auto simp: list_less_def)

text \<open>A numbered copy of a name with an extension sorts before the name itself.\<close>

lemma copy_name_less:
  assumes "path_Ext (snd (path_split p)) \<noteq> []"
  shows "copy_name p n < p"
proof -
  obtain dir base where p: "path_split p = (dir, base)" by (metis surj_pair)
  have pe: "p = dir @ base" using p by (auto simp: path_split_def split: option.splits)
  obtain i where i: "last_index_byte base (CHR ''.'') = Some i" "path_Ext base = drop i base"
    using assms p by (auto simp: path_Ext_def split: option.splits)
  then have b: "i < length base" "base ! i = CHR ''.''" using last_index_byte_Some by metis+
  have ext: "drop i base = CHR ''.'' # drop (Suc i) base" using b by (metis Cons_nth_drop_Suc)
  have "copy_name p n = (dir @ take i base) @ CHR '' '' # ''('' @ dec_digits n @ '')'' @ drop i base"
    using b by (simp add: copy_name_def p i(2))
  moreover have "p = (dir @ take i base) @ CHR ''.'' # drop (Suc i) base" using pe ext by (metis append.assoc append_take_drop_id)
  moreover have "CHR '' '' < (CHR ''.'' :: char)" by (simp add: less_char_def)
  ultimately show ?thesis using less_at_first_difference by metis
qed



section \<open>The retention\<close>

lemma int64_id_iff: "int64 x = x \<longleftrightarrow> - (2 ^ 63) \<le> x \<and> x < 2 ^ 63"
proof
  assume "int64 x = x"
  then have e: "(x + 2 ^ 63) mod 2 ^ 64 = x + 2 ^ 63" by (simp add: int64_def)
  have "0 \<le> (x + 2 ^ 63) mod 2 ^ 64" "(x + 2 ^ 63) mod 2 ^ 64 < 2 ^ 64" by simp_all
  then show "- (2 ^ 63) \<le> x \<and> x < 2 ^ 63" unfolding e by simp
next
  assume "- (2 ^ 63) \<le> x \<and> x < 2 ^ 63"
  then have "(x + 2 ^ 63) mod 2 ^ 64 = x + 2 ^ 63" by (intro mod_pos_pos_trivial) auto
  then show "int64 x = x" by (simp add: int64_def)
qed

lemma int64_mult: "int64 (int64 a * b) = int64 (a * b)"
proof -
  define k where "k = (a + 2 ^ 63) div 2 ^ 64"
  have "a + 2 ^ 63 = 2 ^ 64 * k + (a + 2 ^ 63) mod 2 ^ 64" by (simp add: k_def)
  then have a: "int64 a = a - 2 ^ 64 * k" unfolding int64_def by linarith
  have e: "int64 a * b + 2 ^ 63 = a * b + 2 ^ 63 + 2 ^ 64 * (- (k * b))" by (simp add: a algebra_simps)
  have "(int64 a * b + 2 ^ 63) mod 2 ^ 64 = (a * b + 2 ^ 63) mod 2 ^ 64"
    unfolding e by (rule mod_mult_self2)
  then show ?thesis unfolding int64_def by simp
qed

lemma retention_eq: "retention_ns days = int64 (days * 86400 * 1000000000)"
  by (simp add: retention_ns_def int64_mult)

text \<open>
  The retention setting wraps. The duration the sweeper uses for a retention of
  \<open>days \<ge> 0\<close> is the configured one exactly up to 106751 days; beyond that the 64-bit product
  wraps. The configuration accepts 213504 days, which become 25 minutes, so that a sweep
  expires an event that is one hour old.
\<close>

theorem retention_wraps:
  "(0 \<le> days \<longrightarrow> (retention_ns days = days * 86400 * 1000000000 \<longleftrightarrow> days \<le> 106751)) \<and>
   Safety_Validate \<lparr>sf_HoldDeletePercent = 0, sf_HoldDeleteMin = 0, sf_TrashRetentionDays = 213504, sf_TrashMaxSize = []\<rparr> = [] \<and>
   0 < retention_ns 213504 \<and> retention_ns 213504 < 1600 * 1000000000 \<and>
   (ei_At ev = now - 3600 * 1000000000 \<longrightarrow>
      expired (now - retention_ns 213504) (retention_ns 213504) ev)"
proof -
  have r: "retention_ns 213504 = 1526290448384" by (simp add: retention_eq int64_def)
  have "retention_ns days = days * 86400 * 1000000000 \<longleftrightarrow> days \<le> 106751" if "0 \<le> days"
    using that unfolding retention_eq int64_id_iff by auto
  then show ?thesis by (auto simp: r Safety_Validate_def expired_def)
qed

theorem retention_wraps_witness:
  "retention_ns 30 = 30 * 86400 * 1000000000 \<and> retention_ns 106752 \<noteq> 106752 * 86400 * 1000000000"
  using retention_wraps [of 30] retention_wraps [of 106752] by auto


end
