(* ===== verification/Apply.thy ===== *)
theory Apply
  imports Trash IndexStore
begin

text \<open>
  How a reconcile pass changes the disk: \<^verbatim>\<open>internal/sync/apply.go\<close>, the receiving half of a
  file transfer (\<open>pullFile\<close> of \<^verbatim>\<open>internal/sync/transfer.go\<close>) and \<open>applyAndPersist\<close> of
  \<^verbatim>\<open>internal/sync/session.go\<close>. What the peer sends in answer to a request, the random names of
  staging files, transfer ids and SHA-256 are arguments, collected in \<open>apply_env\<close>; a pull
  whose answers end without an EOF has stalled, was cancelled or lost its connection.
  Counters other than the hash failures, log lines and the limit on concurrent pulls are
  not modelled, and actions run one at a time.

  The results: whatever fails on the way, applying an action with a trash configured loses
  no data; a file is installed only with the size and digest the peer advertised; and the
  rows handed to the index describe what is on disk.
\<close>

section \<open>State\<close>

datatype arrival = Chunk FileChunkHeader bytes bool | ChunkErr

datatype apply_err =
    SymlinkNotSynced
  | ApplyJoin join_err
  | ApplyOs oserr
  | ApplyTrash trash_err
  | NoTrashEvent
  | TransferFailed
  | InvalidChunk
  | ShortTransfer
  | SizeMismatch
  | HashMismatch
  | NoTempName
  | UnexpectedSources

record LocallyModifiedWarning =
  lw_ShareID :: string
  lw_RelPath :: string
  lw_At :: int
  lw_Reverted :: bool
  lw_Reason :: Reason

record apply_env =
  ae_tz :: "int \<Rightarrow> int"
  ae_sha256 :: "bytes \<Rightarrow> bytes"
  ae_rand :: "nat \<Rightarrow> bytes"
  ae_tid :: "nat \<Rightarrow> string"
  ae_peer :: "FileRequest \<Rightarrow> arrival list"

record apply_state =
  as_world :: world
  as_trash :: bool
  as_event :: "TrashEvent option"
  as_hashFailures :: nat
  as_warnings :: "LocallyModifiedWarning list"

record ShareConfig =
  scfg_ShareID :: string
  scfg_Root :: string
  scfg_Direction :: Direction
  scfg_Ignore :: "(string \<Rightarrow> bool \<Rightarrow> bool) option"

text \<open>A file system call, and a sequence of steps that stops at the first error.\<close>

definition sys :: "(world \<Rightarrow> 'a \<times> world) \<Rightarrow> apply_state \<Rightarrow> 'a \<times> apply_state" where
  "sys f st = (case f (as_world st) of (r, w) \<Rightarrow> (r, st\<lparr>as_world := w\<rparr>))"

definition syse :: "(world \<Rightarrow> oserr err \<times> world) \<Rightarrow> apply_state \<Rightarrow> apply_err err \<times> apply_state" where
  "syse f st = (case f (as_world st) of (r, w) \<Rightarrow> (map_option ApplyOs r, st\<lparr>as_world := w\<rparr>))"

fun steps :: "('s \<Rightarrow> 'e err \<times> 's) list \<Rightarrow> 's \<Rightarrow> 'e err \<times> 's" where
  "steps [] st = (ok, st)"
| "steps (f # fs) st = (case f st of (None, st1) \<Rightarrow> steps fs st1 | (Some e, st1) \<Rightarrow> (Some e, st1))"

section \<open>Warnings\<close>

fun recordWarning :: "LocallyModifiedWarning \<Rightarrow> LocallyModifiedWarning list \<Rightarrow> bool \<times> LocallyModifiedWarning list" where
  "recordWarning w [] = (True, [w])"
| "recordWarning w (x # xs) =
     (if lw_ShareID x = lw_ShareID w \<and> lw_RelPath x = lw_RelPath w then (False, w # xs)
      else case recordWarning w xs of (new, ys) \<Rightarrow> (new, x # ys))"

definition retainWarnings ::
  "string \<Rightarrow> (string \<Rightarrow> bool) \<Rightarrow> LocallyModifiedWarning list \<Rightarrow> nat \<times> LocallyModifiedWarning list" where
  "retainWarnings shareID stillFlagged ws =
     (let drop_it = (\<lambda>w. lw_ShareID w = shareID \<and> \<not> stillFlagged (lw_RelPath w))
      in (length (filter drop_it ws), filter (\<lambda>w. \<not> drop_it w) ws))"

section \<open>Pulling a file\<close>

text \<open>The receive loop: every chunk must belong to this transfer and follow the previous
  one; its data is appended to the staging file. The result is what was written.\<close>

fun pull_loop ::
  "FileRequest \<Rightarrow> int \<Rightarrow> fkey \<Rightarrow> bytes \<Rightarrow> arrival list \<Rightarrow> world \<Rightarrow> (apply_err + bytes) \<times> world" where
  "pull_loop req expectedSize tmp got [] w = (Inl TransferFailed, w)"
| "pull_loop req expectedSize tmp got (ChunkErr # rest) w = (Inl TransferFailed, w)"
| "pull_loop req expectedSize tmp got (Chunk h data eof # rest) w =
     (if ch_TransferID h \<noteq> rq_TransferID req \<or> ch_ShareID h \<noteq> rq_ShareID req \<or>
         ch_RelPath h \<noteq> rq_RelPath req \<or> \<not> Equal (ch_Version h) (rq_Version req) \<or>
         ch_Offset h \<noteq> int (length got)
      then (Inl InvalidChunk, w)
      else
        let r = (if data = [] then (ok, w)
                 else os_update tmp (\<lambda>n. case n of FFile c m t \<Rightarrow> FFile (c @ data) m (w_now w) | _ \<Rightarrow> n) w)
        in if fst r \<noteq> ok then (Inl (ApplyOs (the (fst r))), snd r)
           else if eof then
             (if 0 \<le> expectedSize \<and> int (length (got @ data)) \<noteq> expectedSize then (Inl ShortTransfer, snd r)
              else (Inr (got @ data), snd r))
           else pull_loop req expectedSize tmp (got @ data) rest (snd r))"

definition pullFile ::
  "apply_env \<Rightarrow> string \<Rightarrow> string \<Rightarrow> version_vector \<Rightarrow> int \<Rightarrow> fkey \<Rightarrow> world \<Rightarrow> (apply_err + bytes) \<times> world" where
  "pullFile env shareID wireRelPath version expectedSize tmp w =
     (let req = \<lparr>rq_TransferID = ae_tid env (w_tick w), rq_ShareID = shareID, rq_RelPath = wireRelPath,
                 rq_Version = version, rq_Offset = 0\<rparr>
      in pull_loop req expectedSize tmp [] (ae_peer env req) w)"

section \<open>Installing\<close>

definition trashHook ::
  "apply_env \<Rightarrow> string \<Rightarrow> string \<Rightarrow> string \<Rightarrow> apply_state \<Rightarrow> apply_err err \<times> apply_state" where
  "trashHook env relpath destAbs kind st =
     (if \<not> as_trash st then (ok, st)
      else case as_event st of
             None \<Rightarrow> (Some NoTrashEvent, st)
           | Some ev \<Rightarrow> (case Put (ae_tz env) relpath destAbs kind ev (as_world st) of
               (e, ev', w') \<Rightarrow> (map_option ApplyTrash e, st\<lparr>as_event := Some ev', as_world := w'\<rparr>)))"

text \<open>\<open>os.OpenRoot\<close> and \<open>Root.MkdirAll\<close>.\<close>

definition open_root :: "string \<Rightarrow> world \<Rightarrow> oserr err \<times> world" where
  "open_root root w =
     (case os_lstat (fkey_of root) w of
        (Inr FDir, w1) \<Rightarrow> (ok, w1) | (Inr n, w1) \<Rightarrow> (Some EOTHER, w1) | (Inl e, w1) \<Rightarrow> (Some e, w1))"

definition root_MkdirAll :: "string \<Rightarrow> fkey \<Rightarrow> world \<Rightarrow> oserr err \<times> world" where
  "root_MkdirAll root rel w = mkdir_each (map (\<lambda>p. fkey_of root @ p) (filter (\<lambda>p. p \<noteq> []) (prefixes rel))) w"

definition temp_name :: "bytes \<Rightarrow> string" where
  "temp_name r = TempFilePrefix @ hex_encode r"

fun temp_loop :: "apply_env \<Rightarrow> nat \<Rightarrow> fkey \<Rightarrow> world \<Rightarrow> (apply_err + fkey) \<times> world" where
  "temp_loop env 0 dir w = (Inl NoTempName, w)"
| "temp_loop env (Suc n) dir w =
     (let k = dir @ [temp_name (ae_rand env (w_tick w))]; r = os_create k (FFile [] 0x180 (w_now w)) w in
      if fst r = ok then (Inr k, snd r)
      else if fst r \<noteq> Some EEXIST then (Inl (ApplyOs (the (fst r))), snd r)
      else temp_loop env n dir (snd r))"

definition createTempIn :: "apply_env \<Rightarrow> fkey \<Rightarrow> world \<Rightarrow> (apply_err + fkey) \<times> world" where
  "createTempIn env dir w = temp_loop env 100 dir w"

text \<open>\<open>Chmod(os.FileMode(mode))\<close>: of the bits a valid \<open>FileInfo\<close> can carry, only the
  permission bits mean anything to \<open>os.FileMode\<close>.\<close>

definition set_mode :: "32 word \<Rightarrow> fnode \<Rightarrow> fnode" where
  "set_mode mode n = (case n of FFile c m t \<Rightarrow> FFile c (and mode 0x1FF) t | _ \<Rightarrow> n)"

definition finalizeFile ::
  "apply_env \<Rightarrow> string \<Rightarrow> string \<Rightarrow> fkey \<Rightarrow> FileInfo \<Rightarrow> apply_state \<Rightarrow> apply_err err \<times> apply_state" where
  "finalizeFile env destRelPath destAbs tmp info st =
     steps [syse os_check,
            if fi_Mode info \<noteq> 0 then syse (os_update tmp (set_mode (fi_Mode info))) else Pair ok,
            syse os_check,
            syse (os_update tmp (set_mtime (fi_MTimeNS info))),
            trashHook env destRelPath destAbs TrashOverwritten,
            syse (os_rename tmp (fkey_of destAbs))] st"

text \<open>The deferred cleanup: the staging file is closed and, unless it became the
  destination, removed.\<close>

definition drop_temp :: "fkey \<Rightarrow> apply_err \<Rightarrow> apply_state \<Rightarrow> apply_err err \<times> apply_state" where
  "drop_temp tmp e st = (Some e, snd (syse (os_remove tmp) (snd (syse os_check st))))"

definition install_file ::
  "apply_env \<Rightarrow> string \<Rightarrow> string \<Rightarrow> string \<Rightarrow> string \<Rightarrow> FileInfo \<Rightarrow> version_vector \<Rightarrow> fkey \<Rightarrow> apply_state \<Rightarrow>
     apply_err err \<times> apply_state" where
  "install_file env shareID wireRelPath destRelPath destAbs info wireVersion tmp st =
     (case sys (pullFile env shareID wireRelPath wireVersion (fi_Size info) tmp) st of
        (Inl e, st1) \<Rightarrow> drop_temp tmp e st1
      | (Inr content, st1) \<Rightarrow>
          if int (length content) \<noteq> fi_Size info then drop_temp tmp SizeMismatch st1
          else if ae_sha256 env content \<noteq> fi_SHA256 info
          then drop_temp tmp HashMismatch (st1\<lparr>as_hashFailures := Suc (as_hashFailures st1)\<rparr>)
          else (case finalizeFile env destRelPath destAbs tmp info st1 of
                  (Some e, st2) \<Rightarrow> drop_temp tmp e st2
                | (None, st2) \<Rightarrow> (ok, snd (syse os_check st2))))"

definition pullAndInstall ::
  "apply_env \<Rightarrow> string \<Rightarrow> string \<Rightarrow> string \<Rightarrow> string \<Rightarrow> FileInfo \<Rightarrow> version_vector \<Rightarrow> apply_state \<Rightarrow>
     apply_err err \<times> apply_state" where
  "pullAndInstall env shareID root wireRelPath destRelPath info wireVersion st =
     (if fi_Type info = FileTypeSymlink then (Some SymlinkNotSynced, st)
      else case sys (join_in root destRelPath) st of
        (Inl e, st1) \<Rightarrow> (Some (ApplyJoin e), st1)
      | (Inr destAbs, st1) \<Rightarrow>
         (case steps [syse (open_root root), syse (root_MkdirAll root (butlast (fkey_of destRelPath)))] st1 of
            (Some e, st2) \<Rightarrow> (Some e, st2)
          | (None, st2) \<Rightarrow>
             if fi_Type info = FileTypeDir then syse (root_MkdirAll root (fkey_of destRelPath)) st2
             else (case sys (createTempIn env (butlast (fkey_of destAbs))) st2 of
                     (Inl e, st3) \<Rightarrow> (Some e, st3)
                   | (Inr tmp, st3) \<Rightarrow>
                       install_file env shareID wireRelPath destRelPath destAbs info wireVersion tmp st3)))"

section \<open>Applying an action\<close>

definition applyDelete :: "apply_env \<Rightarrow> ShareConfig \<Rightarrow> string \<Rightarrow> apply_state \<Rightarrow> (apply_err + bool) \<times> apply_state" where
  "applyDelete env cfg relpath st =
     (case sys (join_in (scfg_Root cfg) relpath) st of
        (Inl e, st1) \<Rightarrow> (Inl (ApplyJoin e), st1)
      | (Inr absPath, st1) \<Rightarrow>
         (case syse (open_root (scfg_Root cfg)) st1 of
            (Some e, st2) \<Rightarrow> (Inl e, st2)
          | (None, st2) \<Rightarrow>
             (case sys (os_lstat (fkey_of absPath)) st2 of
                (Inl ENOENT, st3) \<Rightarrow> (Inr True, st3)
              | (Inl e, st3) \<Rightarrow> (Inl (ApplyOs e), st3)
              | (Inr FDir, st3) \<Rightarrow>
                  (case syse (os_remove (fkey_of absPath)) st3 of
                     (Some e, st4) \<Rightarrow> (Inr False, st4) | (None, st4) \<Rightarrow> (Inr True, st4))
              | (Inr n, st3) \<Rightarrow>
                  (case trashHook env relpath absPath TrashDeleted st3 of
                     (Some e, st4) \<Rightarrow> (Inl e, st4)
                   | (None, st4) \<Rightarrow>
                       (case sys (os_remove (fkey_of absPath)) st4 of
                          (None, st5) \<Rightarrow> (Inr True, st5)
                        | (Some ENOENT, st5) \<Rightarrow> (Inr True, st5)
                        | (Some e, st5) \<Rightarrow> (Inl (ApplyOs e), st5))))))"

text \<open>The outcome of an action: the rows to store, and the error if there was one.\<close>

type_synonym applied = "FileRow list \<times> apply_err err"

definition row_at :: "ShareConfig \<Rightarrow> FileInfo \<Rightarrow> string \<Rightarrow> int \<Rightarrow> FileRow" where
  "row_at cfg info relpath now = FileRowFromInfo (scfg_ShareID cfg) (info\<lparr>fi_RelPath := relpath\<rparr>) now"

text \<open>The loser is this node's own file: it is moved to the conflict path.\<close>

definition preserve_loser :: "apply_env \<Rightarrow> ShareConfig \<Rightarrow> Action \<Rightarrow> apply_state \<Rightarrow> apply_err err \<times> apply_state" where
  "preserve_loser env cfg a st =
     (case sys (join_in (scfg_Root cfg) (ac_RelPath a)) st of
        (Inl e, st1) \<Rightarrow> (Some (ApplyJoin e), st1)
      | (Inr srcAbs, st1) \<Rightarrow>
         (case sys (join_in (scfg_Root cfg) (ac_ConflictRelPath a)) st1 of
            (Inl e, st2) \<Rightarrow> (Some (ApplyJoin e), st2)
          | (Inr dstAbs, st2) \<Rightarrow>
              steps [trashHook env (ac_ConflictRelPath a) dstAbs TrashOverwritten,
                     syse (open_root (scfg_Root cfg)),
                     syse (root_MkdirAll (scfg_Root cfg) (butlast (fkey_of (ac_ConflictRelPath a)))),
                     syse (os_rename (fkey_of srcAbs) (fkey_of dstAbs))] st2))"

definition applyConflictCopy ::
  "apply_env \<Rightarrow> ShareConfig \<Rightarrow> Action \<Rightarrow> int \<Rightarrow> apply_state \<Rightarrow> applied \<times> apply_state" where
  "applyConflictCopy env cfg a now st =
     (let winnerRow = row_at cfg (ac_Resolved a) (ac_RelPath a) now;
          loserRow = row_at cfg (ac_ConflictInfo a) (ac_ConflictRelPath a) now
      in if ac_Source a = SourceLocal \<and> ac_ConflictSource a = SourceRemote then
           (case pullAndInstall env (scfg_ShareID cfg) (scfg_Root cfg) (ac_RelPath a) (ac_ConflictRelPath a)
                   (ac_ConflictInfo a) (fi_Version (ac_ConflictInfo a)) st of
              (Some e, st1) \<Rightarrow> (([winnerRow], Some e), st1)
            | (None, st1) \<Rightarrow> (([winnerRow, loserRow], ok), st1))
         else if ac_Source a = SourceRemote \<and> ac_ConflictSource a = SourceLocal then
           (case preserve_loser env cfg a st of
              (Some e, st1) \<Rightarrow> (([], Some e), st1)
            | (None, st1) \<Rightarrow>
               (case pullAndInstall env (scfg_ShareID cfg) (scfg_Root cfg) (ac_RelPath a) (ac_RelPath a)
                       (ac_Resolved a) (ac_SourceVersion a) st1 of
                  (Some e, st2) \<Rightarrow> (([loserRow], Some e), st2)
                | (None, st2) \<Rightarrow> (([winnerRow, loserRow], ok), st2)))
         else (([], Some UnexpectedSources), st))"

definition pull_action :: "apply_env \<Rightarrow> ShareConfig \<Rightarrow> Action \<Rightarrow> apply_state \<Rightarrow> apply_err err \<times> apply_state" where
  "pull_action env cfg a st =
     pullAndInstall env (scfg_ShareID cfg) (scfg_Root cfg) (ac_RelPath a) (ac_RelPath a) (ac_Resolved a)
       (ac_SourceVersion a) st"

definition applyLocallyModified ::
  "apply_env \<Rightarrow> ShareConfig \<Rightarrow> Action \<Rightarrow> int \<Rightarrow> apply_state \<Rightarrow> applied \<times> apply_state" where
  "applyLocallyModified env cfg a now st =
     (let w = \<lparr>lw_ShareID = scfg_ShareID cfg, lw_RelPath = ac_RelPath a, lw_At = now, lw_Reverted = False,
               lw_Reason = ac_Reason a\<rparr>
      in if ac_Source a \<noteq> SourceRemote
         then (([], ok), st\<lparr>as_warnings := snd (recordWarning w (as_warnings st))\<rparr>)
         else (case pull_action env cfg a st of
                 (Some e, st1) \<Rightarrow> (([], Some e), st1)
               | (None, st1) \<Rightarrow>
                   (([FileRowFromInfo (scfg_ShareID cfg) (ac_Resolved a) now], ok),
                    st1\<lparr>as_warnings := snd (recordWarning (w\<lparr>lw_Reverted := True\<rparr>) (as_warnings st1))\<rparr>)))"

definition applyAction ::
  "apply_env \<Rightarrow> ShareConfig \<Rightarrow> Action \<Rightarrow> int \<Rightarrow> apply_state \<Rightarrow> applied \<times> apply_state" where
  "applyAction env cfg a now st =
     (let row = FileRowFromInfo (scfg_ShareID cfg) (ac_Resolved a) now in
      case ac_Kind a of
        ActionNone \<Rightarrow> (([], ok), st)
      | ActionLocallyModified \<Rightarrow> applyLocallyModified env cfg a now st
      | ActionDelete \<Rightarrow>
          (case applyDelete env cfg (ac_RelPath a) st of
             (Inl e, st1) \<Rightarrow> (([], Some e), st1)
           | (Inr deleted, st1) \<Rightarrow> if deleted then (([row], ok), st1) else (([], ok), st1))
      | ActionConflictCopy \<Rightarrow> applyConflictCopy env cfg a now st
      | _ \<Rightarrow> if ac_Source a = SourceRemote
             then (case pull_action env cfg a st of
                     (Some e, st1) \<Rightarrow> (([], Some e), st1) | (None, st1) \<Rightarrow> (([row], ok), st1))
             else (([row], ok), st))"

text \<open>Every row that landed is stored, also when the action failed half way; \<open>fresh\<close> and
  \<open>at\<close> are the epoch and time \<open>PutFile\<close> uses.\<close>

fun store_rows :: "string \<Rightarrow> int \<Rightarrow> FileRow list \<Rightarrow> store \<Rightarrow> FileRow list \<times> store" where
  "store_rows fresh at [] db = ([], db)"
| "store_rows fresh at (r # rs) db =
     (case PutFile fresh at r db of
        (Some e, db1) \<Rightarrow> store_rows fresh at rs db1
      | (None, db1) \<Rightarrow> (case store_rows fresh at rs db1 of (stored, db2) \<Rightarrow> (r # stored, db2)))"

definition applyAndPersist ::
  "apply_env \<Rightarrow> string \<Rightarrow> ShareConfig \<Rightarrow> Action \<Rightarrow> int \<Rightarrow> apply_state \<times> store \<Rightarrow> FileRow list \<times> apply_state \<times> store" where
  "applyAndPersist env fresh cfg a now s =
     (case applyAction env cfg a now (fst s) of
        ((rows, e), st) \<Rightarrow> (case store_rows fresh now rows (snd s) of (stored, db) \<Rightarrow> (stored, st, db)))"

section \<open>Paths of the share\<close>

lemma valid_last_not_temp:
  assumes "ValidateRelPath p = ok"
  shows "last (fkey_of p) \<noteq> temp_name r"
proof -
  have "check_elem (last (split_on slash p)) = ok"
    using ValidateRelPath_elem [OF assms] by simp
  then have "\<not> has_prefix (last (split_on slash p)) TempFilePrefix" by (simp add: check_elem_ok)
  then show ?thesis by (auto simp: fkey_of_def temp_name_def)
qed

lemma trash_area_eq: "share_root r \<Longrightarrow> trash_area r = below (fkey_of r @ [ReservedDirName, trashDirName])"
proof -
  have "fkey_of ''.syncat/trash'' = [ReservedDirName, trashDirName]" by code_simp
  then show "share_root r \<Longrightarrow> trash_area r = below (fkey_of r @ [ReservedDirName, trashDirName])"
    by (simp add: trash_area_def below_def reserved_paths(2))
qed

lemma share_not_trash:
  assumes "share_root r" "hd p \<noteq> ReservedDirName" "p \<noteq> []"
  shows "fkey_of r @ p \<notin> trash_area r"
  using assms by (cases p) (auto simp: trash_area_eq below_def)

lemma temp_place:
  fixes x
  assumes "share_root r" "ValidateRelPath p = ok"
  defines "t \<equiv> butlast (fkey_of (r @ slash # p)) @ [temp_name x]"
  shows "t \<notin> trash_area r" "\<not> prefix (fkey_of (r @ slash # p)) t"
proof -
  have t: "t = fkey_of r @ butlast (fkey_of p) @ [temp_name x]" by (simp add: t_def butlast_append)
  have "has_prefix (temp_name x) ''.syncat.''" by (simp add: temp_name_def TempFilePrefix_def has_prefix_def)
  then have ne: "temp_name x \<noteq> ReservedDirName" by (auto simp: ReservedDirName_def has_prefix_def)
  have "hd (butlast (fkey_of p) @ [temp_name x]) \<noteq> ReservedDirName"
  proof (cases "butlast (fkey_of p) = []")
    case False
    then have "hd (butlast (fkey_of p)) = hd (fkey_of p)"
      by (metis append_butlast_last_id butlast.simps(1) hd_append2)
    then show ?thesis using False valid_first_elem [OF assms(2)] by simp
  qed (use ne in simp)
  then show "t \<notin> trash_area r" unfolding t using share_not_trash [OF assms(1)] by simp
  have "last (fkey_of p) = temp_name x" if pre: "prefix (fkey_of p) (butlast (fkey_of p) @ [temp_name x])"
  proof -
    obtain z where z: "butlast (fkey_of p) @ [temp_name x] = fkey_of p @ z" using pre by (auto simp: prefix_def)
    have "length (butlast (fkey_of p) @ [temp_name x]) = length (fkey_of p)" by simp
    then have "z = []" using z by simp
    then show ?thesis using z by (metis append_Nil2 last_snoc)
  qed
  then show "\<not> prefix (fkey_of (r @ slash # p)) t"
    unfolding t using valid_last_not_temp [OF assms(2)] by auto
qed

section \<open>Staging files\<close>

lemma syseE:
  assumes "syse f st = (e, st')"
  obtains r where "f (as_world st) = (r, as_world st')" "e = map_option ApplyOs r"
    "as_event st' = as_event st" "as_trash st' = as_trash st"
  using assms that by (auto simp: syse_def split: prod.splits)

lemma sysE:
  assumes "sys f st = (r, st')"
  obtains "f (as_world st) = (r, as_world st')" "as_event st' = as_event st" "as_trash st' = as_trash st"
  using assms that by (auto simp: sys_def split: prod.splits)

lemma pull_loop_result:
  assumes "pull_loop req sz tmp got arr w = (r, w')" "node_at w tmp = Some (FFile got m t)"
  shows "same_but tmp w w' \<and> (\<exists>c t. node_at w' tmp = Some (FFile c m t)) \<and>
         (\<forall>c. r = Inr c \<longrightarrow> (\<exists>t. node_at w' tmp = Some (FFile c m t)))"
  using assms
proof (induction req sz tmp got arr w arbitrary: t rule: pull_loop.induct)
  case (3 req sz tmp got h data eof rest w)
  define u where "u = (if data = [] then (ok, w)
     else os_update tmp (\<lambda>n. case n of FFile c m t \<Rightarrow> FFile (c @ data) m (w_now w) | _ \<Rightarrow> n) w)"
  have sb: "same_but tmp w (snd u)" using same_but_calls(2) [of tmp w] by (simp add: u_def)
  have nd: "fst u = ok \<Longrightarrow> \<exists>t. node_at (snd u) tmp = Some (FFile (got @ data) m t)"
    using 3(3) by (auto simp: u_def os_update_def split: if_splits)
  have nd': "\<exists>c t. node_at (snd u) tmp = Some (FFile c m t)"
    using 3(3) by (auto simp: u_def os_update_def)
  show ?case
  proof (cases "ch_TransferID h \<noteq> rq_TransferID req \<or> ch_ShareID h \<noteq> rq_ShareID req \<or>
         ch_RelPath h \<noteq> rq_RelPath req \<or> \<not> Equal (ch_Version h) (rq_Version req) \<or>
         ch_Offset h \<noteq> int (length got)")
    case True
    with 3(2,3) show ?thesis by auto
  next
    case False
    have eq: "(r, w') = (if fst u \<noteq> ok then (Inl (ApplyOs (the (fst u))), snd u)
           else if eof then
             (if 0 \<le> sz \<and> int (length (got @ data)) \<noteq> sz then (Inl ShortTransfer, snd u)
              else (Inr (got @ data), snd u))
           else pull_loop req sz tmp (got @ data) rest (snd u))"
      using 3(2) False by (simp add: u_def [symmetric] Let_def)
    show ?thesis
    proof (cases "fst u \<noteq> ok \<or> eof")
      case True
      with eq sb nd nd' show ?thesis by (auto split: if_splits)
    next
      case go: False
      then have "pull_loop req sz tmp (got @ data) rest (snd u) = (r, w')" using eq by simp
      moreover obtain t' where "node_at (snd u) tmp = Some (FFile (got @ data) m t')" using nd go by auto
      ultimately show ?thesis using 3(1) [OF False u_def _ _ ] go sb by (auto intro: same_but_trans)
    qed
  qed
qed auto

lemma temp_loop_result:
  assumes "temp_loop env n dir w = (r, w')"
  shows "grows w w' \<and> (\<forall>k. r = Inr k \<longrightarrow> node_at w k = None \<and> (\<exists>x. k = dir @ [temp_name x]) \<and>
           (\<exists>t. node_at w' k = Some (FFile [] 0x180 t)))"
  using assms
proof (induction env n dir w rule: temp_loop.induct)
  case (2 env n dir w)
  let ?k = "dir @ [temp_name (ae_rand env (w_tick w))]"
  define u where "u = os_create ?k (FFile [] 0x180 (w_now w)) w"
  have g: "grows w (snd u)" by (simp add: u_def create_grows)
  show ?case
  proof (cases "fst u = ok \<or> fst u \<noteq> Some EEXIST")
    case True
    then have "(r, w') = (if fst u = ok then (Inr ?k, snd u) else (Inl (ApplyOs (the (fst u))), snd u))"
      using 2(2) by (auto simp: u_def Let_def)
    moreover have "fst u = ok \<Longrightarrow> node_at w ?k = None \<and> node_at (snd u) ?k = Some (FFile [] 0x180 (w_now w))"
      using create_ok [of ?k "FFile [] 0x180 (w_now w)" w "snd u"] by (cases u) (auto simp: u_def)
    ultimately show ?thesis using g by (auto split: if_splits)
  next
    case False
    then have "temp_loop env n dir (snd u) = (r, w')" using 2(2) by (simp add: u_def Let_def)
    moreover have "node_at (snd u) k = None \<Longrightarrow> node_at w k = None" for k
      using g unfolding grows_def by (metis not_Some_eq)
    ultimately show ?thesis using 2(1) [OF refl u_def] False g by (auto intro: grows_trans)
  qed
qed auto

section \<open>Nothing is lost while a file is installed\<close>

definition st_ok :: "string \<Rightarrow> apply_state \<Rightarrow> bool" where
  "st_ok root st \<longleftrightarrow> as_trash st \<and> share_root root \<and>
     (\<forall>ev. as_event st = Some ev \<longrightarrow> event_ok ev \<and> te_root ev = root)"

lemma trashHook_result:
  assumes "trashHook env relpath destAbs kind st = (e, st')" "st_ok root st"
  defines "w \<equiv> as_world st" and "w' \<equiv> as_world st'" and "A \<equiv> trash_area root"
  shows "kept A w w' \<and> frame (below (fkey_of destAbs) \<union> A) w w' \<and> st_ok root st' \<and>
         (e = ok \<longrightarrow> data_at w' (fkey_of destAbs) = None)"
proof (cases "as_event st")
  case None
  with assms show ?thesis by (auto simp: trashHook_def st_ok_def frame_same_disk)
next
  case (Some ev)
  obtain x ev' w1 where p: "Put (ae_tz env) relpath destAbs kind ev w = (x, ev', w1)" by (metis surj_pair)
  have ev: "event_ok ev" "te_root ev = root" using assms(2) Some by (auto simp: st_ok_def)
  have "trash_area (te_root ev) \<subseteq> A" by (simp add: ev(2) A_def)
  from Put_kept [OF p ev(1) this] show ?thesis
    using assms(1,2) Some p by (auto simp: trashHook_def st_ok_def w_def w'_def ev(2) data_at_def)
qed

text \<open>Nothing is lost except at the staging file.\<close>

definition kept_but :: "fkey \<Rightarrow> fkey set \<Rightarrow> world \<Rightarrow> world \<Rightarrow> bool" where
  "kept_but t A w w' \<longleftrightarrow>
     (\<forall>k c. k \<noteq> t \<longrightarrow> data_at w k = Some c \<longrightarrow>
        (k \<noteq> t \<and> data_at w' k = Some c) \<or> (\<exists>q \<in> A. data_at w' q = Some c))"

lemma kept_but_trans: "kept_but t A w w' \<Longrightarrow> kept_but t A w' w'' \<Longrightarrow> t \<notin> A \<Longrightarrow> kept_but t A w w''"
  unfolding kept_but_def by metis

lemma kept_kept_but: "kept A w w' \<Longrightarrow> kept_but t A w w'"
  by (auto simp: kept_def kept_but_def)

lemma same_but_kept_but: "same_but t w w' \<Longrightarrow> kept_but t A w w'"
  by (auto simp: same_but_def kept_but_def data_at_def)

lemma kept_but_kept: "kept_but t A w w' \<Longrightarrow> data_at w t = None \<Longrightarrow> kept A w w'"
  unfolding kept_but_def kept_def by (metis option.distinct(1))

lemma rename_kept_but:
  assumes "os_rename t d w = (e, w')" "node_at w t = Some (FFile c m x)" "data_at w d = None"
  shows "kept_but t A w w' \<and> (e = ok \<longrightarrow> node_at w' d = Some (FFile c m x))"
  using assms(1)
proof (cases rule: rename_cases)
  case 1
  then have "e \<noteq> ok" using assms(2,3) by (auto simp: data_at_def)
  with 1 show ?thesis by (auto simp: same_but_kept_but)
next
  case 2
  have m: "moves w t k j \<longleftrightarrow> j = k" for k j using assms(2) by (simp add: moves_def)
  have "data_at w' k = Some y" if "k \<noteq> t" "data_at w k = Some y" for k y
    using that free_below [OF 2(5) that(2) assms(3)] 2(6) by (auto simp: data_at_def m)
  then show ?thesis using 2(6) [of d] assms(2) by (auto simp: kept_but_def)
qed

text \<open>The four calls on the staging file before anything is displaced.\<close>

lemma update_temp:
  assumes "syse (os_update tmp f) st = (e, st')" "node_at (as_world st) tmp = Some n"
  shows "same_but tmp (as_world st) (as_world st') \<and> as_event st' = as_event st \<and> as_trash st' = as_trash st \<and>
         (node_at (as_world st') tmp = Some (if e = ok then f n else n))"
  using assms by (auto simp: syse_def os_update_def same_but_def split: if_splits)

lemma check_state:
  assumes "syse os_check st = (e, st')"
  shows "w_disk (as_world st') = w_disk (as_world st)" "as_event st' = as_event st" "as_trash st' = as_trash st"
  using assms by (auto simp: syse_def os_check_def)

definition staged :: "FileInfo \<Rightarrow> bytes \<Rightarrow> fnode" where
  "staged info c = FFile c (if fi_Mode info \<noteq> 0 then and (fi_Mode info) 0x1FF else 0x180) (fi_MTimeNS info)"

lemma stage_result:
  assumes "steps [syse os_check,
            if fi_Mode info \<noteq> 0 then syse (os_update tmp (set_mode (fi_Mode info))) else Pair ok,
            syse os_check,
            syse (os_update tmp (set_mtime (fi_MTimeNS info)))] st = (e, st')"
    "node_at (as_world st) tmp = Some (FFile c 0x180 t)"
  shows "same_but tmp (as_world st) (as_world st') \<and> as_event st' = as_event st \<and> as_trash st' = as_trash st \<and>
         (e = ok \<longrightarrow> node_at (as_world st') tmp = Some (staged info c))"
proof -
  let ?S = "\<lambda>a b. same_but tmp (as_world a) (as_world b) \<and> as_event b = as_event a \<and> as_trash b = as_trash a"
  obtain e1 s1 where 1: "syse os_check st = (e1, s1)" by (metis surj_pair)
  note c1 = check_state [OF 1]
  define f where "f = (if fi_Mode info \<noteq> 0 then syse (os_update tmp (set_mode (fi_Mode info))) else Pair ok)"
  let ?m = "if fi_Mode info \<noteq> 0 then and (fi_Mode info) 0x1FF else 0x180"
  obtain e2 s2 where 2: "f s1 = (e2, s2)" by (metis surj_pair)
  have c2: "?S st s2" "e2 = ok \<Longrightarrow> node_at (as_world s2) tmp = Some (FFile c ?m t)"
    using 2 update_temp [of tmp "set_mode (fi_Mode info)" s1 e2 s2] c1 assms(2)
    by (auto simp: f_def set_mode_def same_but_def split: if_splits)
  obtain e3 s3 where 3: "syse os_check s2 = (e3, s3)" by (metis surj_pair)
  note c3 = check_state [OF 3]
  have S3: "?S st s3" using c2(1) c3 by (simp add: same_but_def)
  obtain e4 s4 where 4: "syse (os_update tmp (set_mtime (fi_MTimeNS info))) s3 = (e4, s4)" by (metis surj_pair)
  have c4: "?S st s4 \<and> (e4 = ok \<longrightarrow> node_at (as_world s4) tmp = Some (staged info c))" if "e2 = ok"
    using update_temp [OF 4] c2(2) [OF that] c3 S3 by (auto simp: staged_def set_mtime_def same_but_def)
  have "?S st s1" using c1 by simp
  then show ?thesis using assms(1) c2 S3 c4
    by (auto simp: 1 2 3 4 f_def [symmetric] split: option.splits)
qed

lemma steps_single: "steps [f] st = f st"
  by (auto split: prod.splits option.splits)

lemma steps_append: "steps (fs @ gs) st = (case steps fs st of (None, st1) \<Rightarrow> steps gs st1 | (Some e, st1) \<Rightarrow> (Some e, st1))"
  by (induction fs arbitrary: st) (auto split: prod.splits option.splits)

lemma rename_file_frame:
  assumes "os_rename src dst w = (e, w')" "node_at w src = Some (FFile c m t)"
  shows "frame {src, dst} w w'"
  using assms(1)
proof (cases rule: rename_cases)
  case 1
  then show ?thesis by (simp add: frame_same_disk)
next
  case 2
  then show ?thesis using assms(2) by (auto simp: frame_def moves_def)
qed

lemma finalizeFile_result:
  assumes "finalizeFile env rel destAbs tmp info st = (e, st')" "st_ok root st"
    "node_at (as_world st) tmp = Some (FFile c 0x180 t)"
    "tmp \<notin> trash_area root" "\<not> prefix (fkey_of destAbs) tmp"
  defines "w \<equiv> as_world st" and "w' \<equiv> as_world st'" and "A \<equiv> trash_area root" and "d \<equiv> fkey_of destAbs"
  shows "kept_but tmp A w w' \<and> frame ({tmp} \<union> below d \<union> A) w w' \<and> st_ok root st' \<and>
         (e = ok \<longrightarrow> node_at w' d = Some (staged info c))"
proof -
  let ?X = "{tmp} \<union> below d \<union> A"
  let ?stage = "[syse os_check,
            if fi_Mode info \<noteq> 0 then syse (os_update tmp (set_mode (fi_Mode info))) else Pair ok,
            syse os_check,
            syse (os_update tmp (set_mtime (fi_MTimeNS info)))]"
  obtain e1 s1 where 1: "steps ?stage st = (e1, s1)" by (metis surj_pair)
  note r1 = stage_result [OF 1 assms(3)]
  have in_X: "tmp \<in> ?X" by (simp add: below_def)
  have k1: "kept_but tmp A w (as_world s1)" and f1: "frame ?X w (as_world s1)" and o1: "st_ok root s1"
    using r1 same_but_kept_but same_but_frame [OF _ in_X] assms(2) by (auto simp: w_def st_ok_def)
  obtain e2 s2 where 2: "trashHook env rel destAbs TrashOverwritten s1 = (e2, s2)" by (metis surj_pair)
  note r2 = trashHook_result [OF 2 o1]
  have k2: "kept_but tmp A w (as_world s2)" using kept_but_trans [OF k1 kept_kept_but] r2 assms(4) by (simp add: A_def)
  have f2: "frame ?X w (as_world s2)" by (rule frame_trans [OF f1], rule frame_mono) (use r2 in \<open>auto simp: d_def A_def\<close>)
  have t2: "e1 = ok \<Longrightarrow> node_at (as_world s2) tmp = Some (staged info c)"
    using r1 r2 assms(4,5) by (auto simp: frame_def staged_def below_def d_def)
  obtain x w3 where 3: "os_rename tmp d (as_world s2) = (x, w3)" by (metis surj_pair)
  have f3: "frame ?X w w3" if "e1 = ok"
    by (rule frame_trans [OF f2], rule frame_mono [OF rename_file_frame [OF 3 t2 [OF that, unfolded staged_def]]])
      (auto simp: below_def)
  have k3: "kept_but tmp A w w3 \<and> (x = ok \<longrightarrow> node_at w3 d = Some (staged info c))" if "e1 = ok" "e2 = ok"
    using rename_kept_but [OF 3 t2 [OF that(1), unfolded staged_def], of A] r2 that k2 kept_but_trans assms(4)
    by (auto simp: d_def A_def staged_def)
  have eq: "finalizeFile env rel destAbs tmp info st = steps (?stage @ [trashHook env rel destAbs TrashOverwritten,
            syse (os_rename tmp (fkey_of destAbs))]) st" by (simp add: finalizeFile_def)
  show ?thesis using assms(1) [unfolded eq steps_append 1] k1 f1 o1 k2 f2 r2 k3 f3
    by (auto simp: 2 3 [unfolded d_def] syse_def w'_def st_ok_def d_def split: option.splits)
qed

lemma drop_temp_result:
  assumes "drop_temp tmp x st = (e, st')"
  shows "same_but tmp (as_world st) (as_world st') \<and> e = Some x \<and> as_event st' = as_event st \<and> as_trash st' = as_trash st"
proof -
  obtain e1 s1 where 1: "syse os_check st = (e1, s1)" by (metis surj_pair)
  obtain e2 s2 where 2: "syse (os_remove tmp) s1 = (e2, s2)" by (metis surj_pair)
  have "same_but tmp (as_world s1) (as_world s2)" "as_event s2 = as_event s1" "as_trash s2 = as_trash s1"
    using 2 same_but_calls(3) [of tmp "as_world s1"] by (auto elim!: syseE)
  then show ?thesis using assms check_state [OF 1] by (auto simp: drop_temp_def 1 2 same_but_def)
qed

definition installed :: "apply_env \<Rightarrow> FileInfo \<Rightarrow> fkey \<Rightarrow> world \<Rightarrow> bool" where
  "installed env info d w \<longleftrightarrow>
     (if fi_Type info = FileTypeDir then node_at w d = Some FDir
      else \<exists>c. node_at w d = Some (staged info c) \<and> ae_sha256 env c = fi_SHA256 info \<and> int (length c) = fi_Size info)"

lemma install_file_result:
  assumes "install_file env shareID wire rel destAbs info v tmp st = (e, st')" "st_ok root st"
    "node_at (as_world st) tmp = Some (FFile [] 0x180 t)" "fi_Type info \<noteq> FileTypeDir"
    "tmp \<notin> trash_area root" "\<not> prefix (fkey_of destAbs) tmp"
  defines "w \<equiv> as_world st" and "w' \<equiv> as_world st'" and "A \<equiv> trash_area root" and "d \<equiv> fkey_of destAbs"
  shows "kept_but tmp A w w' \<and> frame ({tmp} \<union> below d \<union> A) w w' \<and> st_ok root st' \<and>
         (e = ok \<longrightarrow> installed env info d w')"
proof -
  let ?X = "{tmp} \<union> below d \<union> A"
  let ?G = "\<lambda>s. kept_but tmp A w (as_world s) \<and> frame ?X w (as_world s) \<and> st_ok root s"
  have in_X: "tmp \<in> ?X" by (simp add: below_def)
  obtain r s1 where 1: "sys (pullFile env shareID wire v (fi_Size info) tmp) st = (r, s1)" by (metis surj_pair)
  then have "pullFile env shareID wire v (fi_Size info) tmp w = (r, as_world s1)"
    and ev: "as_event s1 = as_event st" "as_trash s1 = as_trash st" by (auto simp: w_def elim: sysE)
  note p = pull_loop_result [OF this(1) [unfolded pullFile_def Let_def] assms(3) [folded w_def]]
  have S: "?G s" if "same_but tmp w (as_world s)" "as_event s = as_event st" "as_trash s = as_trash st" for s
    using that same_but_kept_but same_but_frame [OF _ in_X] assms(2) by (auto simp: st_ok_def)
  have drop: "?G s'" if "?G s" "drop_temp tmp x s = (y, s')" for s s' x y
  proof -
    note dr = drop_temp_result [OF that(2)]
    have "kept_but tmp A w (as_world s')"
      using kept_but_trans [of tmp A w "as_world s" "as_world s'"] that(1) dr same_but_kept_but assms(5)
      by (simp add: A_def)
    moreover have "frame ?X w (as_world s')"
      using that(1) dr same_but_frame [OF _ in_X] frame_trans by blast
    ultimately show ?thesis using that(1) dr by (simp add: st_ok_def)
  qed
  have G1: "?G s1" using S p ev by blast
  show ?thesis
  proof (cases r)
    case (Inl x)
    then have "drop_temp tmp x s1 = (e, st')" using assms(1) 1 by (simp add: install_file_def)
    then show ?thesis using drop [OF G1] drop_temp_result by (fastforce simp: w'_def)
  next
    case (Inr c)
    define s1' where "s1' = s1\<lparr>as_hashFailures := Suc (as_hashFailures s1)\<rparr>"
    have G1': "?G s1'" using G1 by (simp add: s1'_def st_ok_def)
    obtain y s2 where 2: "finalizeFile env rel destAbs tmp info s1 = (y, s2)" by (metis surj_pair)
    obtain t' where "node_at (as_world s1) tmp = Some (FFile c 0x180 t')" using p Inr by auto
    note f = finalizeFile_result [OF 2 _ this assms(5,6)]
    have G2: "?G s2" using f G1 kept_but_trans assms(5) frame_trans by (fastforce simp: A_def d_def)
    obtain z s3 where 3: "syse os_check s2 = (z, s3)" by (metis surj_pair)
    note c3 = check_state [OF 3]
    have G3: "?G s3" "node_at (as_world s3) = node_at (as_world s2)"
      using G2 c3 by (auto simp: st_ok_def kept_but_def frame_def data_at_def)
    have "(if int (length c) \<noteq> fi_Size info then drop_temp tmp SizeMismatch s1
          else if ae_sha256 env c \<noteq> fi_SHA256 info then drop_temp tmp HashMismatch s1'
          else (case y of Some e \<Rightarrow> drop_temp tmp e s2 | None \<Rightarrow> (ok, s3))) = (e, st')"
      using assms(1) by (cases y) (auto simp: install_file_def 1 Inr 2 3 s1'_def split: if_splits)
    then show ?thesis
      using drop [OF G1] drop [OF G1'] drop [OF G2] G3 drop_temp_result f G1 assms(4)
      by (fastforce simp: w'_def installed_def d_def split: if_splits option.splits)
  qed
qed

lemma mkdir_each_dirs: "mkdir_each ks w = (ok, w') \<Longrightarrow> k \<in> set ks \<Longrightarrow> node_at w' k = Some FDir"
proof (induction ks arbitrary: w)
  case (Cons x ks)
  obtain r w1 where l: "os_lstat x w = (r, w1)" by (metis surj_pair)
  obtain e w2 where m: "os_mkdir x w1 = (e, w2)" by (metis surj_pair)
  have dir: "node_at v x = Some FDir \<Longrightarrow> mkdir_each ks v = (ok, w') \<Longrightarrow> node_at w' x = Some FDir" for v
    using mkdir_each_grows [of v ks] by (force simp: grows_def same_node_def)
  have "r = Inr FDir \<Longrightarrow> node_at w1 x = Some FDir" using lstat_ok l by metis
  moreover have "e = ok \<Longrightarrow> node_at w2 x = Some FDir" using mkdir_ok m by fastforce
  ultimately show ?case using Cons.prems Cons.IH [of w1] Cons.IH [of w2] dir [of w1] dir [of w2]
    by (auto simp: l m split: sum.splits oserr.splits option.splits fnode.splits)
qed simp

lemma open_root_disk: "w_disk (snd (open_root r w)) = w_disk w"
  using lstat_disk [of "fkey_of r" w]
  by (cases "os_lstat (fkey_of r) w") (auto simp: open_root_def split: sum.splits fnode.splits)

lemma prepare_parents:
  assumes "steps [syse (open_root root), syse (root_MkdirAll root p)] st = (e, st')"
  shows "grows (as_world st) (as_world st')" "as_event st' = as_event st" "as_trash st' = as_trash st"
proof -
  obtain r1 w1 where 1: "open_root root (as_world st) = (r1, w1)" by (metis surj_pair)
  have d: "w_disk w1 = w_disk (as_world st)" using open_root_disk [of root "as_world st"] 1 by simp
  obtain r2 w2 where 2: "root_MkdirAll root p w1 = (r2, w2)" by (metis surj_pair)
  have g: "grows w1 w2" using 2 mkdir_each_grows by (metis root_MkdirAll_def snd_conv)
  have "grows (as_world st) w1" "grows (as_world st) w2" using d g by (auto simp: grows_def)
  then show "grows (as_world st) (as_world st')" "as_event st' = as_event st" "as_trash st' = as_trash st"
    using assms by (auto simp: syse_def 1 2 split: option.splits)
qed

lemma pullAndInstall_result:
  assumes "pullAndInstall env shareID root wire rel info v st = (e, st')" "st_ok root st"
  defines "w \<equiv> as_world st" and "w' \<equiv> as_world st'" and "A \<equiv> trash_area root" and "d \<equiv> fkey_of root @ fkey_of rel"
  shows "kept A w w' \<and> frame (below d \<union> A) w w' \<and> st_ok root st' \<and> (e = ok \<longrightarrow> installed env info d w')"
proof -
  let ?G = "\<lambda>s. kept A w (as_world s) \<and> frame (below d \<union> A) w (as_world s) \<and> st_ok root s"
  have grow: "?G s" if "grows w (as_world s)" "as_event s = as_event st" "as_trash s = as_trash st" for s
    using that grows_kept grows_frame assms(2) by (auto simp: st_ok_def)
  have G0: "?G st" by (rule grow) (simp_all add: w_def)
  have root: "share_root root" using assms(2) by (simp add: st_ok_def)
  obtain j s1 where j: "sys (join_in root rel) st = (j, s1)" by (metis surj_pair)
  then have jw: "join_in root rel w = (j, as_world s1)" and ev1: "as_event s1 = as_event st" "as_trash s1 = as_trash st"
    by (auto simp: w_def elim: sysE)
  have w1: "w_disk (as_world s1) = w_disk w" using join_disk [of root rel w] jw by simp
  have G1: "?G s1" by (rule grow) (simp_all add: w1 ev1 grows_same_disk)
  show ?thesis
  proof (cases "fi_Type info = FileTypeSymlink \<or> isl j")
    case True
    then show ?thesis using assms(1) G0 G1 by (auto simp: pullAndInstall_def j w'_def split: sum.splits if_splits)
  next
    case False
    then obtain destAbs where dest: "j = Inr destAbs" by (cases j) auto
    note jb = join_in_below [OF jw [unfolded dest] root]
    have d: "fkey_of destAbs = d" by (simp add: jb(1) d_def)
    obtain e2 s2 where 2: "steps [syse (open_root root), syse (root_MkdirAll root (butlast (fkey_of rel)))] s1 = (e2, s2)"
      by (metis surj_pair)
    note p2 = prepare_parents [OF 2]
    have g2: "grows w (as_world s2)" using p2(1) w1 by (simp add: grows_def)
    have G2: "?G s2" by (rule grow) (use g2 p2 ev1 in simp_all)
    show ?thesis
    proof (cases "e2 = ok \<and> fi_Type info \<noteq> FileTypeDir")
      case False
      obtain r3 w3 where 3: "root_MkdirAll root (fkey_of rel) (as_world s2) = (r3, w3)" by (metis surj_pair)
      have "grows (as_world s2) w3" using 3 mkdir_each_grows by (metis root_MkdirAll_def snd_conv)
      then have "?G (s2\<lparr>as_world := w3\<rparr>)" by (intro grow) (use g2 grows_trans p2 ev1 in auto)
      moreover have sy: "syse (root_MkdirAll root (fkey_of rel)) s2 = (map_option ApplyOs r3, s2\<lparr>as_world := w3\<rparr>)"
        by (simp add: syse_def 3)
      moreover have "node_at w3 d = Some FDir" if "r3 = ok"
        using mkdir_each_dirs [OF 3 [unfolded root_MkdirAll_def that], of d] by (auto simp: d_def)
      ultimately show ?thesis using assms(1) \<open>\<not> (fi_Type info = FileTypeSymlink \<or> isl j)\<close> False G2
        by (auto simp: pullAndInstall_def j dest 2 sy installed_def w'_def simp del: steps.simps
            split: option.splits if_splits)
    next
      case True
      obtain r3 s3 where 3: "sys (createTempIn env (butlast (fkey_of destAbs))) s2 = (r3, s3)" by (metis surj_pair)
      then have tl: "temp_loop env 100 (butlast d) (as_world s2) = (r3, as_world s3)"
        and ev3: "as_event s3 = as_event s2" "as_trash s3 = as_trash s2" by (auto simp: createTempIn_def d elim: sysE)
      note t3 = temp_loop_result [OF tl]
      have G3: "?G s3" by (intro grow) (use t3 g2 grows_trans ev1 ev3 p2 in auto)
      show ?thesis
      proof (cases r3)
        case (Inl x)
        then show ?thesis using assms(1) False True G3
          by (auto simp: pullAndInstall_def j dest 2 3 w'_def simp del: steps.simps)
      next
        case (Inr tmp)
        obtain x t where tmp: "tmp = butlast d @ [temp_name x]" "node_at (as_world s3) tmp = Some (FFile [] 0x180 t)"
          "node_at (as_world s2) tmp = None" using t3 Inr by auto
        have pl: "tmp \<notin> trash_area root" "\<not> prefix (fkey_of destAbs) tmp"
          using temp_place [OF root jb(2), of x] d by (simp_all add: tmp(1) jb(1))
        have i: "install_file env shareID wire rel destAbs info v tmp s3 = (e, st')"
          using assms(1) False True by (simp add: pullAndInstall_def j dest 2 3 Inr del: steps.simps)
        have ok3: "st_ok root s3" using G3 by simp
        from install_file_result [OF i ok3 tmp(2) _ pl] True
        have k: "kept_but tmp A (as_world s3) w'" "frame ({tmp} \<union> below d \<union> A) (as_world s3) w'" "st_ok root st'"
          "e = ok \<longrightarrow> installed env info d w'" by (simp_all add: A_def w'_def d)
        have none: "node_at w tmp = None" using g2 tmp(3) unfolding grows_def by (metis not_Some_eq)
        have "kept_but tmp A w w'" using kept_but_trans [OF kept_kept_but k(1)] G3 pl by (simp add: A_def)
        then have "kept A w w'" using kept_but_kept none by (simp add: data_at_def)
        moreover have "frame (below d \<union> A) w w'"
          using G3 k(2) none unfolding frame_def by (metis Un_iff option.distinct(1) singletonD)
        ultimately show ?thesis using k by simp
      qed
    qed
  qed
qed

section \<open>Deleting and keeping the loser\<close>

lemma applyDelete_result:
  assumes "applyDelete env cfg rel st = (r, st')" "st_ok root st" "scfg_Root cfg = root"
  defines "w \<equiv> as_world st" and "w' \<equiv> as_world st'" and "A \<equiv> trash_area root" and "d \<equiv> fkey_of root @ fkey_of rel"
  shows "kept A w w' \<and> st_ok root st' \<and> (r = Inr True \<longrightarrow> node_at w' d = None)"
proof -
  let ?G = "\<lambda>s. kept A w (as_world s) \<and> st_ok root s"
  have root: "share_root root" using assms(2) by (simp add: st_ok_def)
  have same: "?G s" if "w_disk (as_world s) = w_disk w" "as_event s = as_event st" "as_trash s = as_trash st" for s
    using that assms(2) by (auto simp: st_ok_def kept_def data_at_def)
  obtain j s1 where j: "sys (join_in root rel) st = (j, s1)" by (metis surj_pair)
  then have jw: "join_in root rel w = (j, as_world s1)" and ev1: "as_event s1 = as_event st" "as_trash s1 = as_trash st"
    by (auto simp: w_def elim: sysE)
  have w1: "w_disk (as_world s1) = w_disk w" using join_disk [of root rel w] jw by simp
  show ?thesis
  proof (cases j)
    case (Inl x)
    then show ?thesis using assms(1,3) j same [of s1] w1 ev1 by (auto simp: applyDelete_def w'_def)
  next
    case (Inr ab)
    have d: "fkey_of ab = d" using join_in_below(1) [OF jw [unfolded Inr] root] by (simp add: d_def)
    obtain e2 s2 where o: "syse (open_root root) s1 = (e2, s2)" by (metis surj_pair)
    have w2: "w_disk (as_world s2) = w_disk w" "as_event s2 = as_event st" "as_trash s2 = as_trash st"
      using o open_root_disk [of root "as_world s1"] w1 ev1 by (auto elim!: syseE)
    obtain l s3 where l: "sys (os_lstat d) s2 = (l, s3)" by (metis surj_pair)
    then have lw: "os_lstat d (as_world s2) = (l, as_world s3)" and
      ev3: "as_event s3 = as_event s2" "as_trash s3 = as_trash s2" by (auto elim: sysE)
    have w3: "w_disk (as_world s3) = w_disk w" "as_event s3 = as_event st" "as_trash s3 = as_trash st"
      using w2 ev3 lstat_disk [of d "as_world s2"] by (simp_all add: lw)
    have G3: "?G s3" using same w3 by blast
    obtain x s4 where r: "syse (os_remove d) s3 = (x, s4)" by (metis surj_pair)
    have G4: "?G s4 \<and> (x = ok \<longrightarrow> node_at (as_world s4) d = None)" if "l = Inr FDir"
    proof -
      have n: "node_at (as_world s3) d = Some FDir" using lstat_ok lw that by metis
      then have "data_at (as_world s3) d = None" by (simp add: data_at_def)
      moreover have "same_but d (as_world s3) (as_world s4)"
        using same_but_calls(3) [of d "as_world s3"] r by (auto simp: syse_def split: prod.splits)
      ultimately have "kept A (as_world s3) (as_world s4)" by (simp add: same_but_kept)
      then show ?thesis using G3 r kept_step
        by (auto simp: syse_def os_remove_def st_ok_def split: if_splits option.splits)
    qed
    obtain y s5 where t: "trashHook env rel ab TrashDeleted s3 = (y, s5)" by (metis surj_pair)
    have "st_ok root s3" using G3 by simp
    note h = trashHook_result [OF t this]
    have G5: "?G s5" using h G3 kept_step by (auto simp: A_def)
    obtain z s6 where r6: "sys (os_remove d) s5 = (z, s6)" by (metis surj_pair)
    have G6: "?G s6 \<and> (z = ok \<or> z = Some ENOENT \<longrightarrow> node_at (as_world s6) d = None)" if "y = ok"
    proof -
      have "data_at (as_world s5) d = None" using h that d by simp
      moreover have "same_but d (as_world s5) (as_world s6)"
        using same_but_calls(3) [of d "as_world s5"] r6 by (auto simp: sys_def split: prod.splits)
      ultimately have "kept A (as_world s5) (as_world s6)" by (simp add: same_but_kept)
      then show ?thesis using G5 r6 kept_step
        by (auto simp: sys_def os_remove_def st_ok_def split: if_splits option.splits)
    qed
    have none: "l = Inl ENOENT \<Longrightarrow> node_at (as_world s3) d = None" using lstat_absent lw by metis
    have G2: "?G s2" using same w2 by blast
    show ?thesis
    proof (cases "e2 = ok")
      case False
      then show ?thesis using assms(1,3) G2 by (auto simp: applyDelete_def j Inr o w'_def)
    next
      case True
      consider "l = Inr FDir" | "\<exists>x. l = Inl x" | n where "l = Inr n" "n \<noteq> FDir" by (cases l) auto
      then show ?thesis
      proof cases
        case 1
        then show ?thesis using assms(1,3) G4 True
          by (auto simp: applyDelete_def j Inr o l r w'_def d split: option.splits)
      next
        case 2
        then show ?thesis using assms(1,3) G3 True none
          by (auto simp: applyDelete_def j Inr o l w'_def d split: oserr.splits)
      next
        case 3
        then show ?thesis using assms(1,3) G5 G6 True
          by (cases n) (auto simp: applyDelete_def j Inr o l t r6 w'_def d
              split: option.splits oserr.splits)
      qed
    qed
  qed
qed

lemma mkdir_parents_only:
  assumes "root_MkdirAll root (butlast p) w = (e, w')" "p \<noteq> []"
  shows "node_at w' (fkey_of root @ p) = node_at w (fkey_of root @ p)"
proof -
  have "length (butlast p) < length p" using assms(2) by simp
  then have "\<not> prefix p (butlast p)" using prefix_length_le linorder_not_le by metis
  then show ?thesis using mkdir_each_only [OF assms(1) [unfolded root_MkdirAll_def]] by auto
qed

lemma preserve_loser_result:
  assumes "preserve_loser env cfg a st = (e, st')" "st_ok root st" "scfg_Root cfg = root"
  defines "w \<equiv> as_world st" and "w' \<equiv> as_world st'" and "A \<equiv> trash_area root"
    and "src \<equiv> fkey_of root @ fkey_of (ac_RelPath a)" and "dst \<equiv> fkey_of root @ fkey_of (ac_ConflictRelPath a)"
  shows "kept (A \<union> below dst) w w' \<and> st_ok root st' \<and>
         (e = ok \<longrightarrow> ValidateRelPath (ac_RelPath a) = ok \<and> ValidateRelPath (ac_ConflictRelPath a) = ok \<and>
            (\<forall>c m t. \<not> prefix dst src \<longrightarrow> node_at w src = Some (FFile c m t) \<longrightarrow> node_at w' dst = Some (FFile c m t)))"
proof -
  let ?A = "A \<union> below dst"
  let ?G = "\<lambda>s. kept ?A w (as_world s) \<and> st_ok root s"
  have root: "share_root root" using assms(2) by (simp add: st_ok_def)
  have same: "?G s" if "w_disk (as_world s) = w_disk w" "as_event s = as_event st" "as_trash s = as_trash st" for s
    using that assms(2) by (auto simp: st_ok_def kept_def data_at_def)
  obtain j s1 where j: "sys (join_in root (ac_RelPath a)) st = (j, s1)" by (metis surj_pair)
  then have jw: "join_in root (ac_RelPath a) w = (j, as_world s1)" and ev1: "as_event s1 = as_event st" "as_trash s1 = as_trash st"
    by (auto simp: w_def elim: sysE)
  have w1: "w_disk (as_world s1) = w_disk w" using join_disk [of root "ac_RelPath a" w] jw by simp
  obtain k s2 where k: "sys (join_in root (ac_ConflictRelPath a)) s1 = (k, s2)" by (metis surj_pair)
  then have kw: "join_in root (ac_ConflictRelPath a) (as_world s1) = (k, as_world s2)"
    and ev2: "as_event s2 = as_event st" "as_trash s2 = as_trash st" using ev1 by (auto elim: sysE)
  have w2: "w_disk (as_world s2) = w_disk w" using join_disk [of root "ac_ConflictRelPath a" "as_world s1"] kw w1 by simp
  show ?thesis
  proof (cases "isl j \<or> isl k")
    case True
    then show ?thesis using assms(1,3) same [of s1] same [of s2] w1 w2 ev1 ev2
      by (auto simp: preserve_loser_def j k w'_def split: sum.splits)
  next
    case False
    then obtain sa da where jk: "j = Inr sa" "k = Inr da" by (cases j; cases k) auto
    note jb = join_in_below [OF jw [unfolded jk] root] and kb = join_in_below [OF kw [unfolded jk] root]
    have sd: "fkey_of sa = src" "fkey_of da = dst" by (simp_all add: jb(1) kb(1) src_def dst_def)
    have ok2: "st_ok root s2" using same w2 ev2 by blast
    obtain e3 s3 where 3: "trashHook env (ac_ConflictRelPath a) da TrashOverwritten s2 = (e3, s3)" by (metis surj_pair)
    note t3 = trashHook_result [OF 3 ok2, unfolded sd]
    have k3: "kept A w (as_world s3)" using t3 w2 by (simp add: A_def kept_def data_at_def)
    have f3: "frame (below dst \<union> A) w (as_world s3)" using t3 w2 by (simp add: A_def frame_def)
    obtain e4 s4 where 4: "steps [syse (open_root root), syse (root_MkdirAll root (butlast (fkey_of (ac_ConflictRelPath a))))] s3
        = (e4, s4)" by (metis surj_pair)
    note p4 = prepare_parents [OF 4]
    have k3': "kept ?A w (as_world s3)" using k3 by (rule kept_mono) simp
    have k4: "kept ?A w (as_world s4)" using k3' grows_kept [OF p4(1)] by (rule kept_step)
    have o4: "st_ok root s4" using p4 t3 by (auto simp: st_ok_def)
    have f4: "frame (below dst \<union> A) w (as_world s4)" using f3 grows_frame [OF p4(1)] frame_trans by blast
    have d4: "data_at (as_world s4) dst = None" if "e3 = ok" "e4 = ok"
    proof -
      obtain r5 w5 where 5: "open_root root (as_world s3) = (r5, w5)" by (metis surj_pair)
      obtain r6 w6 where 6: "root_MkdirAll root (butlast (fkey_of (ac_ConflictRelPath a))) w5 = (r6, w6)" by (metis surj_pair)
      have "as_world s4 = w6" using 4 that(2) 5 6 by (auto simp: syse_def split: option.splits)
      moreover have "node_at w6 dst = node_at (as_world s3) dst"
        using mkdir_parents_only [OF 6] open_root_disk [of root "as_world s3"] 5 by (simp add: dst_def)
      ultimately show ?thesis using t3 that(1) by (simp add: data_at_def)
    qed
    obtain r7 w7 where 7: "os_rename src dst (as_world s4) = (r7, w7)" by (metis surj_pair)
    have k7: "kept ?A w w7" if "e3 = ok" "e4 = ok"
      using kept_step [OF k4 rename_kept [OF 7 d4 [OF that]]] by (auto simp: below_def)
    have m7: "node_at w7 dst = Some (FFile c m t)"
      if ok: "r7 = ok" and np: "\<not> prefix dst src" and n: "node_at w src = Some (FFile c m t)" for c m t
    proof -
      have "hd (fkey_of (ac_RelPath a)) \<noteq> ReservedDirName" by (rule valid_first_elem [OF jb(2)])
      then have "src \<notin> A" unfolding src_def A_def using share_not_trash [OF root] by simp
      then have "node_at (as_world s4) src = Some (FFile c m t)" using f4 n np by (auto simp: frame_def below_def)
      moreover have "src \<noteq> dst" using np by auto
      ultimately show ?thesis using 7 ok by (auto elim!: rename_cases)
    qed
    have eq: "preserve_loser env cfg a st =
       steps ([trashHook env (ac_ConflictRelPath a) da TrashOverwritten] @
         [syse (open_root root), syse (root_MkdirAll root (butlast (fkey_of (ac_ConflictRelPath a))))] @
         [syse (os_rename src dst)]) s2"
      by (simp add: preserve_loser_def assms(3) j k jk sd)
    have "(e, st') = (case e3 of Some x \<Rightarrow> (Some x, s3) | None \<Rightarrow> (case e4 of Some x \<Rightarrow> (Some x, s4)
        | None \<Rightarrow> (map_option ApplyOs r7, s4\<lparr>as_world := w7\<rparr>)))"
      using assms(1) [unfolded eq steps_append 4] 
      by (cases e3; cases e4) (auto simp: steps_single 3 4 syse_def 7 simp del: steps.simps)
    then show ?thesis using k3' k4 o4 k7 m7 jb(2) kb(2) t3
      by (auto simp: w'_def st_ok_def split: option.splits)
  qed
qed

section \<open>A whole pass\<close>

text \<open>The actions of one pass, one after the other.\<close>

fun apply_pass ::
  "apply_env \<Rightarrow> string \<Rightarrow> ShareConfig \<Rightarrow> Action list \<Rightarrow> int \<Rightarrow> apply_state \<times> store \<Rightarrow> FileRow list \<times> apply_state \<times> store" where
  "apply_pass env fresh cfg [] now s = ([], s)"
| "apply_pass env fresh cfg (a # as) now s =
     (case applyAndPersist env fresh cfg a now s of
        (rows, s1) \<Rightarrow> (case apply_pass env fresh cfg as now s1 of (rows2, s2) \<Rightarrow> (rows @ rows2, s2)))"

definition conflict_area :: "ShareConfig \<Rightarrow> Action \<Rightarrow> fkey set" where
  "conflict_area cfg a =
     (if ac_Kind a = ActionConflictCopy then below (fkey_of (scfg_Root cfg) @ fkey_of (ac_ConflictRelPath a)) else {})"

lemma warnings_ok [simp]: "st_ok r (st\<lparr>as_warnings := ws\<rparr>) = st_ok r st"
  by (simp add: st_ok_def)

lemma applyAction_kept:
  assumes "applyAction env cfg a now st = (out, st')" "st_ok (scfg_Root cfg) st"
  defines "A \<equiv> trash_area (scfg_Root cfg) \<union> conflict_area cfg a"
  shows "kept A (as_world st) (as_world st') \<and> st_ok (scfg_Root cfg) st'"
proof -
  have pull: "kept A (as_world s) (as_world s') \<and> st_ok (scfg_Root cfg) s'"
    if "pullAndInstall env (scfg_ShareID cfg) (scfg_Root cfg) wire rel info v s = (e, s')" "st_ok (scfg_Root cfg) s"
    for s s' wire rel info v e
    using pullAndInstall_result [OF that] kept_mono by (auto simp: A_def)
  obtain e1 s1 where p: "pull_action env cfg a st = (e1, s1)" by (metis surj_pair)
  note p' = pull [OF p [unfolded pull_action_def] assms(2)]
  show ?thesis
  proof (cases "ac_Kind a")
    case ActionDelete
    obtain r s2 where d: "applyDelete env cfg (ac_RelPath a) st = (r, s2)" by (metis surj_pair)
    have "kept A (as_world st) (as_world s2) \<and> st_ok (scfg_Root cfg) s2"
      using applyDelete_result [OF d assms(2) refl] kept_mono by (auto simp: A_def)
    then show ?thesis using assms(1) ActionDelete by (auto simp: applyAction_def d split: sum.splits if_splits)
  next
    case ActionLocallyModified
    then show ?thesis using assms(1,2) p'
      by (auto simp: applyAction_def applyLocallyModified_def p Let_def split: option.splits if_splits)
  next
    case ActionConflictCopy
    obtain e2 s2 where l: "preserve_loser env cfg a st = (e2, s2)" by (metis surj_pair)
    have l': "kept A (as_world st) (as_world s2) \<and> st_ok (scfg_Root cfg) s2"
      using preserve_loser_result [OF l assms(2) refl] ActionConflictCopy by (simp add: A_def conflict_area_def)
    obtain e3 s3 where w: "pullAndInstall env (scfg_ShareID cfg) (scfg_Root cfg) (ac_RelPath a) (ac_RelPath a)
        (ac_Resolved a) (ac_SourceVersion a) s2 = (e3, s3)" by (metis surj_pair)
    have w': "kept A (as_world st) (as_world s3) \<and> st_ok (scfg_Root cfg) s3"
      using pull [OF w] l' kept_step by blast
    obtain e4 s4 where c: "pullAndInstall env (scfg_ShareID cfg) (scfg_Root cfg) (ac_RelPath a) (ac_ConflictRelPath a)
        (ac_ConflictInfo a) (fi_Version (ac_ConflictInfo a)) st = (e4, s4)" by (metis surj_pair)
    show ?thesis using assms(1,2) ActionConflictCopy l' w' pull [OF c assms(2)]
      by (auto simp: applyAction_def applyConflictCopy_def l w c Let_def split: option.splits if_splits)
  qed (use assms(1,2) p' in \<open>auto simp: applyAction_def p Let_def split: option.splits if_splits\<close>)
qed

lemma applyAndPersist_state:
  "applyAndPersist env fresh cfg a now s = (rows, s') \<Longrightarrow> \<exists>out. applyAction env cfg a now (fst s) = (out, fst s')"
  by (auto simp: applyAndPersist_def split: prod.splits)

section \<open>Concrete passes\<close>

text \<open>A share at \<^verbatim>\<open>/s\<close> with one file; the peer answers every request with the bytes 2, 3.\<close>

definition ex_world :: world where
  "ex_world = \<lparr>w_disk = [([[]], FDir), ([[], ''s''], FDir), ([[], ''s'', ''a''], FFile [1] 0x1A4 7)],
     w_fault = (\<lambda>n. Fine), w_tick = 0, w_done = (\<lambda>n. False), w_now = 0\<rparr>"

definition ex_env :: apply_env where
  "ex_env = \<lparr>ae_tz = (\<lambda>_. 0), ae_sha256 = id, ae_rand = (\<lambda>n. [0]), ae_tid = (\<lambda>n. ''t''),
     ae_peer = (\<lambda>rq. [Chunk \<lparr>ch_TransferID = rq_TransferID rq, ch_ShareID = rq_ShareID rq, ch_RelPath = rq_RelPath rq,
        ch_Version = rq_Version rq, ch_Offset = 0, ch_EOF = True\<rparr> [2, 3] True])\<rparr>"

definition ex_st :: apply_state where
  "ex_st = \<lparr>as_world = ex_world, as_trash = True, as_event = Some (BeginPeerEvent ''/s'' ''b'' 0),
     as_hashFailures = 0, as_warnings = []\<rparr>"

definition ex_cfg :: ShareConfig where
  "ex_cfg = \<lparr>scfg_ShareID = ''x'', scfg_Root = ''/s'',
     scfg_Direction = \<lparr>InboundBlocked = False, OutboundBlocked = False\<rparr>, scfg_Ignore = None\<rparr>"

definition ex_info :: FileInfo where
  "ex_info = zero_FileInfo\<lparr>fi_RelPath := ''a'', fi_Type := FileTypeFile, fi_Size := 2, fi_SHA256 := [2, 3]\<rparr>"

definition ex_pull :: Action where
  "ex_pull = zero_Action\<lparr>ac_Kind := ActionPull, ac_RelPath := ''a'', ac_Resolved := ex_info, ac_Source := SourceRemote\<rparr>"

definition ex_trashed :: fkey where
  "ex_trashed = [[], ''s'', ''.syncat'', ''trash'', ''1970-01-01 00.00.00 from b'', ''a'']"

lemma ex_ok: "st_ok (scfg_Root ex_cfg) ex_st"
proof -
  have "share_root ''/s''" unfolding share_root_def by code_simp
  then show ?thesis by (simp add: st_ok_def ex_cfg_def ex_st_def BeginPeerEvent_def begin_event_def event_ok_def)
qed

lemma ex_run:
  "let r = apply_pass ex_env ''e'' ex_cfg [ex_pull] 0 (ex_st, empty_store) in
     data_at (as_world (fst (snd r))) ex_trashed = Some (Inl [1]) \<and>
     data_at (as_world (fst (snd r))) [[], ''s'', ''a''] = Some (Inl [2, 3]) \<and> length (fst r) = 1"
  by code_simp

lemma ex_action:
  "fst (applyAction ex_env ex_cfg ex_pull 0 ex_st) = ([FileRowFromInfo ''x'' ex_info 0], ok)"
  by code_simp

section \<open>Properties\<close>

text \<open>
  A reconcile pass never loses data. With a trash configured, whatever a pass over any
  list of actions does and whichever file system calls, transfers or copies fail on the
  way, every file content and every link that was on disk before the pass is still on disk
  after it: at its old path, in the share's trash, or below the path of a conflict copy the
  pass made.
\<close>

theorem pass_loses_nothing:
  assumes "apply_pass env fresh cfg as now (st, db) = (rows, st', db')" "st_ok (scfg_Root cfg) st"
  shows "kept (trash_area (scfg_Root cfg) \<union> (\<Union>a \<in> set as. conflict_area cfg a)) (as_world st) (as_world st')"
proof -
  have "kept (trash_area (scfg_Root cfg) \<union> (\<Union>a \<in> set as. conflict_area cfg a)) (as_world (fst s)) (as_world (fst s'))"
    if "apply_pass env fresh cfg as now s = (rows, s')" "st_ok (scfg_Root cfg) (fst s)" for s s' rows
    using that
  proof (induction as arbitrary: s rows)
    case (Cons a as)
    obtain r1 s1 where 1: "applyAndPersist env fresh cfg a now s = (r1, s1)" by (metis surj_pair)
    obtain out where "applyAction env cfg a now (fst s) = (out, fst s1)" using applyAndPersist_state [OF 1] by blast
    note k = applyAction_kept [OF this Cons.prems(2)]
    obtain r2 where 2: "apply_pass env fresh cfg as now s1 = (r2, s')"
      using Cons.prems(1) by (auto simp: 1 split: prod.splits)
    let ?A = "trash_area (scfg_Root cfg) \<union> (\<Union>b \<in> set (a # as). conflict_area cfg b)"
    have "kept ?A (as_world (fst s)) (as_world (fst s1))" using k by (auto elim: kept_mono)
    moreover have "kept ?A (as_world (fst s1)) (as_world (fst s'))"
      using Cons.IH [OF 2] k by (auto elim!: kept_mono)
    ultimately show ?case by (rule kept_step)
  qed auto
  from this [OF assms(1)] assms(2) show ?thesis by simp
qed

theorem pass_loses_nothing_witness:
  "let w' = as_world (fst (snd (apply_pass ex_env ''e'' ex_cfg [ex_pull] 0 (ex_st, empty_store)))) in
     kept (trash_area ''/s'') ex_world w' \<and>
     data_at ex_world [[], ''s'', ''a''] = Some (Inl [1]) \<and> data_at w' ex_trashed = Some (Inl [1])"
proof -
  obtain rows st db where r: "apply_pass ex_env ''e'' ex_cfg [ex_pull] 0 (ex_st, empty_store) = (rows, st, db)"
    by (metis surj_pair)
  have "data_at ex_world [[], ''s'', ''a''] = Some (Inl [1])" by code_simp
  moreover have "kept (trash_area ''/s'') ex_world (as_world st)"
    using pass_loses_nothing [OF r ex_ok]
    by (simp add: conflict_area_def ex_pull_def ex_st_def ex_cfg_def)
  ultimately show ?thesis using ex_run by (simp add: r Let_def del: apply_pass.simps)
qed

lemma sibling_apart:
  assumes "butlast p = butlast q" "p \<noteq> q" "p \<noteq> []" "q \<noteq> []"
  shows "\<not> prefix (r @ p) (r @ q)"
proof
  assume "prefix (r @ p) (r @ q)"
  then have "prefix p q" by simp
  moreover have "length p = length q" using assms(1,3,4) by (metis One_nat_def Suc_pred length_butlast length_greater_0_conv)
  ultimately show False using assms(2) by (auto simp: prefix_def)
qed

lemma split_inj: "fkey_of p = fkey_of q \<longleftrightarrow> p = q"
  by (metis fkey_of_def join_split)

lemma conflict_rows:
  assumes "applyConflictCopy env cfg a now st = ((rows, e), st')" "st_ok (scfg_Root cfg) st"
    and "butlast (fkey_of (ac_ConflictRelPath a)) = butlast (fkey_of (ac_RelPath a))" "ac_ConflictRelPath a \<noteq> ac_RelPath a"
  defines "w \<equiv> as_world st" and "w' \<equiv> as_world st'" and "at \<equiv> (\<lambda>p. fkey_of (scfg_Root cfg) @ fkey_of p)"
  shows "(ac_Source a = SourceRemote \<longrightarrow> row_at cfg (ac_Resolved a) (ac_RelPath a) now \<in> set rows \<longrightarrow>
            rows = [row_at cfg (ac_Resolved a) (ac_RelPath a) now, row_at cfg (ac_ConflictInfo a) (ac_ConflictRelPath a) now] \<longrightarrow>
            installed env (ac_Resolved a) (at (ac_RelPath a)) w') \<and>
         (ac_Source a = SourceRemote \<longrightarrow> rows \<noteq> [] \<longrightarrow>
            (\<forall>c m t. node_at w (at (ac_RelPath a)) = Some (FFile c m t) \<longrightarrow>
               node_at w' (at (ac_ConflictRelPath a)) = Some (FFile c m t))) \<and>
         (ac_Source a = SourceLocal \<longrightarrow> length rows = 2 \<longrightarrow> installed env (ac_ConflictInfo a) (at (ac_ConflictRelPath a)) w')"
proof -
  let ?root = "scfg_Root cfg"
  have root: "share_root ?root" using assms(2) by (simp add: st_ok_def)
  obtain e2 s2 where l: "preserve_loser env cfg a st = (e2, s2)" by (metis surj_pair)
  note l' = preserve_loser_result [OF l assms(2) refl]
  obtain e3 s3 where w: "pullAndInstall env (scfg_ShareID cfg) ?root (ac_RelPath a) (ac_RelPath a)
      (ac_Resolved a) (ac_SourceVersion a) s2 = (e3, s3)" by (metis surj_pair)
  have "st_ok ?root s2" using l' by simp
  note w3 = pullAndInstall_result [OF w this]
  obtain e4 s4 where c: "pullAndInstall env (scfg_ShareID cfg) ?root (ac_RelPath a) (ac_ConflictRelPath a)
      (ac_ConflictInfo a) (fi_Version (ac_ConflictInfo a)) st = (e4, s4)" by (metis surj_pair)
  note c4 = pullAndInstall_result [OF c assms(2)]
  have ne: "fkey_of (ac_ConflictRelPath a) \<noteq> fkey_of (ac_RelPath a)" using assms(4) by (simp add: split_inj)
  have apart: "\<not> prefix (at (ac_ConflictRelPath a)) (at (ac_RelPath a))" "\<not> prefix (at (ac_RelPath a)) (at (ac_ConflictRelPath a))"
    using sibling_apart [OF assms(3) ne] sibling_apart [OF assms(3) [symmetric] ne [symmetric]] by (simp_all add: at_def)
  have loser: "node_at (as_world s2) (at (ac_ConflictRelPath a)) = Some (FFile x m t)"
    "node_at (as_world s3) (at (ac_ConflictRelPath a)) = Some (FFile x m t)"
    if "e2 = ok" "node_at w (at (ac_RelPath a)) = Some (FFile x m t)" for x m t
  proof -
    show 1: "node_at (as_world s2) (at (ac_ConflictRelPath a)) = Some (FFile x m t)"
      using l' that apart(1) by (simp add: at_def w_def)
    have "hd (fkey_of (ac_ConflictRelPath a)) \<noteq> ReservedDirName" using l' that(1) valid_first_elem by blast
    then have "at (ac_ConflictRelPath a) \<notin> trash_area ?root" unfolding at_def using share_not_trash [OF root] by simp
    then show "node_at (as_world s3) (at (ac_ConflictRelPath a)) = Some (FFile x m t)"
      using w3 1 apart(2) by (auto simp: frame_def below_def at_def)
  qed
  show ?thesis
    using assms(1) l' w3 c4 loser
    by (auto simp: applyConflictCopy_def l w c Let_def w'_def at_def split: option.splits if_splits)
qed

text \<open>
  C15. The rows handed to the index describe the disk. A file the peer sends is recorded only
  when it is on disk at its path with the advertised size, SHA-256 and modification time
  (a directory: when it exists), a deletion only when nothing is left at the path. In a
  conflict copy whose winner is the peer's, nothing is recorded unless this node's own
  regular file is, unchanged, at the conflict path beside it, also when the winner's
  transfer fails afterwards; when the winner is local, the loser is recorded only once it is
  installed at the conflict path.
\<close>

theorem rows_describe_disk:
  assumes "applyAction env cfg a now st = ((rows, e), st')" "st_ok (scfg_Root cfg) st"
    and "ac_Kind a = ActionConflictCopy \<Longrightarrow>
           butlast (fkey_of (ac_ConflictRelPath a)) = butlast (fkey_of (ac_RelPath a)) \<and> ac_ConflictRelPath a \<noteq> ac_RelPath a"
  shows "(ac_Kind a \<in> {ActionPull, ActionResurrect, ActionLocallyModified} \<longrightarrow> ac_Source a = SourceRemote \<longrightarrow> rows \<noteq> [] \<longrightarrow>
            rows = [FileRowFromInfo (scfg_ShareID cfg) (ac_Resolved a) now] \<and> e = ok \<and>
            installed env (ac_Resolved a) (fkey_of (scfg_Root cfg) @ fkey_of (ac_RelPath a)) (as_world st')) \<and>
         (ac_Kind a = ActionDelete \<longrightarrow> rows \<noteq> [] \<longrightarrow>
            node_at (as_world st') (fkey_of (scfg_Root cfg) @ fkey_of (ac_RelPath a)) = None) \<and>
         (ac_Kind a = ActionConflictCopy \<longrightarrow> ac_Source a = SourceRemote \<longrightarrow> rows \<noteq> [] \<longrightarrow>
            (e = ok \<longrightarrow> installed env (ac_Resolved a) (fkey_of (scfg_Root cfg) @ fkey_of (ac_RelPath a)) (as_world st')) \<and>
            (\<forall>c m t. node_at (as_world st) (fkey_of (scfg_Root cfg) @ fkey_of (ac_RelPath a)) = Some (FFile c m t) \<longrightarrow>
               node_at (as_world st') (fkey_of (scfg_Root cfg) @ fkey_of (ac_ConflictRelPath a)) = Some (FFile c m t))) \<and>
         (ac_Kind a = ActionConflictCopy \<longrightarrow> ac_Source a = SourceLocal \<longrightarrow> length rows = 2 \<longrightarrow>
            installed env (ac_ConflictInfo a) (fkey_of (scfg_Root cfg) @ fkey_of (ac_ConflictRelPath a)) (as_world st'))"
proof -
  obtain e1 s1 where p: "pull_action env cfg a st = (e1, s1)" by (metis surj_pair)
  note p' = pullAndInstall_result [OF p [unfolded pull_action_def] assms(2)]
  obtain r s2 where d: "applyDelete env cfg (ac_RelPath a) st = (r, s2)" by (metis surj_pair)
  note d' = applyDelete_result [OF d assms(2) refl]
  show ?thesis
  proof (cases "ac_Kind a = ActionConflictCopy")
    case True
    then have c: "applyConflictCopy env cfg a now st = ((rows, e), st')" using assms(1) by (simp add: applyAction_def)
    have "e = ok \<Longrightarrow> ac_Source a = SourceRemote \<Longrightarrow> rows \<noteq> [] \<Longrightarrow>
        rows = [row_at cfg (ac_Resolved a) (ac_RelPath a) now, row_at cfg (ac_ConflictInfo a) (ac_ConflictRelPath a) now]"
      using c by (auto simp: applyConflictCopy_def Let_def split: option.splits prod.splits if_splits)
    with conflict_rows [OF c assms(2)] assms(3) True show ?thesis by auto
  next
    case False
    then show ?thesis using assms(1) p' d'
      by (auto simp: applyAction_def applyLocallyModified_def p d Let_def
          split: option.splits sum.splits if_splits ActionKind.splits)
  qed
qed

theorem rows_describe_disk_witness:
  "installed ex_env ex_info [[], ''s'', ''a''] (as_world (snd (applyAction ex_env ex_cfg ex_pull 0 ex_st)))"
proof -
  obtain st where r: "applyAction ex_env ex_cfg ex_pull 0 ex_st = (([FileRowFromInfo ''x'' ex_info 0], ok), st)"
    using ex_action by (metis prod.collapse)
  have k: "fkey_of ''/s'' @ fkey_of ''a'' = [[], ''s'', ''a'']" by code_simp
  show ?thesis using rows_describe_disk [OF r ex_ok] k
    by (simp add: r) (simp add: ex_pull_def ex_cfg_def)
qed

end
