(* ===== verification/IndexQueue.thy ===== *)
theory IndexQueue
  imports Prelude
begin

text \<open>
  The queue of index work of a session: \<open>enqueueIndex\<close> and \<open>runIndexWorker\<close> of
  \<^verbatim>\<open>internal/sync/session.go\<close>.

  Work is keyed by share and operation. \<open>indexPending\<close> holds the newest function waiting
  under a key, \<open>indexRunning\<close> the keys a worker is busy with, and the channel \<open>indexJobs\<close>
  the keys ready for a worker. Every transition of the code that holds \<open>indexMu\<close> is one
  step here. The functions are an arbitrary type. The state also records what ran, and
  what was accepted, in order, so that the results can speak of it.

  The result: the send on the channel at the end of a job, which the code makes while it
  holds the lock, never blocks; no two workers run the same key; and an accepted function
  is never lost, only superseded by a newer one under its key.
\<close>

definition maxConcurrentIndexJobs :: nat where "maxConcurrentIndexJobs = 4"
definition maxPendingIndexKeys :: nat where "maxPendingIndexKeys = 64"

record 'j index_queue =
  indexPending :: "(string, 'j) fmap"
  indexRunning :: "string list"
  indexJobs :: "string list"
  iq_accepted :: "(string \<times> 'j) list"
  iq_ran :: "(string \<times> 'j) list"

definition new_queue :: "'j index_queue" where
  "new_queue = \<lparr>indexPending = fmempty, indexRunning = [], indexJobs = [], iq_accepted = [], iq_ran = []\<rparr>"

text \<open>
  \<open>closing\<close> says that the session's context is done. Go's \<open>select\<close> may then choose either
  ready branch; \<open>pick\<close> is its choice.
\<close>

definition enqueueIndex ::
  "bool \<Rightarrow> bool \<Rightarrow> string \<Rightarrow> 'j \<Rightarrow> 'j index_queue \<Rightarrow> bool \<times> 'j index_queue" where
  "enqueueIndex closing pick key fn q =
     (let q1 = q\<lparr>indexPending := fmupd key fn (indexPending q), iq_accepted := iq_accepted q @ [(key, fn)]\<rparr> in
      if key |\<in>| fmdom (indexPending q) then (True, q1)
      else if fcard (fmdom (indexPending q)) \<ge> maxPendingIndexKeys then (False, q)
      else if key \<in> set (indexRunning q) then (True, q1)
      else if length (indexJobs q) < maxPendingIndexKeys \<and> \<not> (closing \<and> pick)
           then (True, q1\<lparr>indexJobs := indexJobs q @ [key]\<rparr>)
           else (False, q))"

text \<open>A worker receives a key and takes the function waiting under it.\<close>

definition worker_take :: "'j index_queue \<Rightarrow> ('j option \<times> 'j index_queue) option" where
  "worker_take q =
     (case indexJobs q of
        [] \<Rightarrow> None
      | key # keys \<Rightarrow>
         if length (indexRunning q) \<ge> maxConcurrentIndexJobs then None
         else case fmlookup (indexPending q) key of
                None \<Rightarrow> Some (None, q\<lparr>indexJobs := keys\<rparr>)
              | Some fn \<Rightarrow>
                  Some (Some fn, q\<lparr>indexJobs := keys, indexPending := fmdrop key (indexPending q),
                                  indexRunning := key # indexRunning q, iq_ran := iq_ran q @ [(key, fn)]\<rparr>))"

text \<open>A worker is done with a key. The send blocks (no step) when the channel is full.\<close>

definition would_block :: "string \<Rightarrow> 'j index_queue \<Rightarrow> bool" where
  "would_block key q \<longleftrightarrow> key |\<in>| fmdom (indexPending q) \<and> length (indexJobs q) \<ge> maxPendingIndexKeys"

definition worker_finish :: "string \<Rightarrow> 'j index_queue \<Rightarrow> 'j index_queue option" where
  "worker_finish key q =
     (if key \<notin> set (indexRunning q) \<or> would_block key q then None
      else Some (q\<lparr>indexRunning := remove1 key (indexRunning q),
                  indexJobs := (if key |\<in>| fmdom (indexPending q) then indexJobs q @ [key] else indexJobs q)\<rparr>))"

inductive queue_step :: "'j index_queue \<Rightarrow> 'j index_queue \<Rightarrow> bool" where
  enqueue: "queue_step q (snd (enqueueIndex closing pick key fn q))"
| take_job: "worker_take q = Some (r, q') \<Longrightarrow> queue_step q q'"
| finish_job: "worker_finish key q = Some q' \<Longrightarrow> queue_step q q'"

inductive_cases queue_stepE: "queue_step q q'"

section \<open>The invariant\<close>

text \<open>
  The keys in the channel and the keys being run partition the keys that have or had work:
  a key that waits is in the channel or is being run, never both, never twice.
\<close>

definition queue_ok :: "'j index_queue \<Rightarrow> bool" where
  "queue_ok q \<longleftrightarrow>
     distinct (indexJobs q) \<and> distinct (indexRunning q) \<and> set (indexJobs q) \<inter> set (indexRunning q) = {} \<and>
     set (indexJobs q) \<subseteq> fset (fmdom (indexPending q)) \<and>
     fset (fmdom (indexPending q)) \<subseteq> set (indexJobs q) \<union> set (indexRunning q) \<and>
     fcard (fmdom (indexPending q)) \<le> maxPendingIndexKeys \<and>
     length (indexRunning q) \<le> maxConcurrentIndexJobs"

text \<open>The newest function accepted under a key is waiting, or has been taken.\<close>

definition newest :: "string \<Rightarrow> (string \<times> 'j) list \<Rightarrow> 'j option" where
  "newest key xs = map_of (rev xs) key"

definition nothing_lost :: "'j index_queue \<Rightarrow> bool" where
  "nothing_lost q \<longleftrightarrow>
     (\<forall>key. fmlookup (indexPending q) key = None \<longrightarrow> newest key (iq_ran q) = newest key (iq_accepted q)) \<and>
     (\<forall>key fn. fmlookup (indexPending q) key = Some fn \<longrightarrow> newest key (iq_accepted q) = Some fn)"

lemma newest_snoc [simp]: "newest k (xs @ [(key, fn)]) = (if k = key then Some fn else newest k xs)"
  by (simp add: newest_def)

lemma jobs_room:
  assumes "queue_ok q"
  shows "length (indexJobs q) \<le> fcard (fmdom (indexPending q))"
    and "key \<in> set (indexRunning q) \<Longrightarrow> key |\<in>| fmdom (indexPending q) \<Longrightarrow>
         length (indexJobs q) < fcard (fmdom (indexPending q))"
proof -
  have sub: "set (indexJobs q) \<subseteq> fset (fmdom (indexPending q))" and d: "distinct (indexJobs q)"
    using assms by (simp_all add: queue_ok_def)
  show "length (indexJobs q) \<le> fcard (fmdom (indexPending q))"
    using card_mono [OF finite_fset sub] d by (simp add: distinct_card fcard.rep_eq)
  assume "key \<in> set (indexRunning q)" "key |\<in>| fmdom (indexPending q)"
  then have "set (indexJobs q) \<subset> fset (fmdom (indexPending q))" using assms sub by (auto simp: queue_ok_def)
  from psubset_card_mono [OF finite_fset this] d
  show "length (indexJobs q) < fcard (fmdom (indexPending q))" by (simp add: distinct_card fcard.rep_eq)
qed

lemma never_blocks: "queue_ok q \<Longrightarrow> key \<in> set (indexRunning q) \<Longrightarrow> \<not> would_block key q"
  using jobs_room(2) [of q key] by (auto simp: would_block_def queue_ok_def)

lemma finsert_fcard: "fcard (finsert x A) \<le> Suc (fcard A)"
  by (simp add: fcard.rep_eq card_insert_le_m1 card_insert_if)

lemma enqueueIndex_ok:
  assumes "queue_ok q" "nothing_lost q"
  shows "queue_ok (snd (enqueueIndex closing pick key fn q)) \<and> nothing_lost (snd (enqueueIndex closing pick key fn q))"
proof -
  have c: "fcard (finsert key (fmdom (indexPending q))) \<le> maxPendingIndexKeys"
    if "\<not> maxPendingIndexKeys \<le> fcard (fmdom (indexPending q))"
    using finsert_fcard [of key "fmdom (indexPending q)"] that by linarith
  have k: "finsert key (fmdom (indexPending q)) = fmdom (indexPending q)" if "key |\<in>| fmdom (indexPending q)"
    using that by blast
  show ?thesis
    using assms c k by (auto simp: enqueueIndex_def Let_def queue_ok_def nothing_lost_def)
qed

lemma take_ok:
  assumes "queue_ok q" "nothing_lost q" "worker_take q = Some (r, q')"
  shows "queue_ok q' \<and> nothing_lost q' \<and> r \<noteq> None"
proof -
  obtain key keys where j: "indexJobs q = key # keys" using assms(3) by (auto simp: worker_take_def split: list.splits)
  then have "key |\<in>| fmdom (indexPending q)" using assms(1) by (auto simp: queue_ok_def)
  then obtain fn where f: "fmlookup (indexPending q) key = Some fn" by (auto simp: fmlookup_dom_iff)
  have q': "q' = q\<lparr>indexJobs := keys, indexPending := fmdrop key (indexPending q),
                   indexRunning := key # indexRunning q, iq_ran := iq_ran q @ [(key, fn)]\<rparr>" "r = Some fn"
    and l: "length (indexRunning q) < maxConcurrentIndexJobs"
    using assms(3) by (auto simp: worker_take_def j f split: if_splits)
  have "fcard (fmdom (indexPending q) |-| {|key|}) \<le> maxPendingIndexKeys"
  proof -
    have "fcard (fmdom (indexPending q) |-| {|key|}) \<le> fcard (fmdom (indexPending q))"
      by (rule fcard_mono) blast
    then show ?thesis using assms(1) by (simp add: queue_ok_def)
  qed
  then show ?thesis
    using assms(1,2) l f by (auto simp: q' queue_ok_def nothing_lost_def j)
qed

lemma finish_ok:
  assumes "queue_ok q" "nothing_lost q" "worker_finish key q = Some q'"
  shows "queue_ok q' \<and> nothing_lost q'"
  using assms by (auto simp: worker_finish_def queue_ok_def nothing_lost_def length_remove1 split: if_splits)

lemma queue_step_ok: "queue_step q q' \<Longrightarrow> queue_ok q \<and> nothing_lost q \<Longrightarrow> queue_ok q' \<and> nothing_lost q'"
  by (elim queue_stepE) (simp add: enqueueIndex_ok, auto dest: take_ok finish_ok)

interpretation work_queue: kept_by_steps queue_step "\<lambda>q. queue_ok q \<and> nothing_lost q"
  by unfold_locales (rule queue_step_ok)

lemma new_queue_ok: "queue_ok new_queue \<and> nothing_lost new_queue"
  by (simp add: new_queue_def queue_ok_def nothing_lost_def newest_def fcard.rep_eq)

lemma queue_reachable_ok: "queue_step\<^sup>*\<^sup>* new_queue q \<Longrightarrow> queue_ok q \<and> nothing_lost q"
  by (rule work_queue.reachable [OF _ new_queue_ok])

text \<open>
  C31. The index queue never blocks a worker and never loses work. In every reachable state
  of the queue, a worker that finishes a key can always put the key back in the channel when
  work has arrived for it meanwhile, so it never waits while it holds the lock; the keys
  being run are distinct and at most four; a key received from the channel always has work;
  and for every key the newest function accepted is either waiting, with its key in the
  channel or being run, or is the newest one taken.
\<close>

theorem index_queue_never_blocks:
  assumes "queue_step\<^sup>*\<^sup>* new_queue q"
  shows "(\<forall>key \<in> set (indexRunning q). worker_finish key q \<noteq> None) \<and>
         distinct (indexRunning q) \<and> length (indexRunning q) \<le> maxConcurrentIndexJobs \<and>
         (\<forall>r q'. worker_take q = Some (r, q') \<longrightarrow> r \<noteq> None) \<and>
         (\<forall>key. newest key (iq_accepted q) = newest key (iq_ran q) \<or>
                (newest key (iq_accepted q) = fmlookup (indexPending q) key \<and>
                 key \<in> set (indexJobs q) \<union> set (indexRunning q)))"
proof -
  note ok = queue_reachable_ok [OF assms]
  have "newest key (iq_accepted q) = newest key (iq_ran q) \<or>
      (newest key (iq_accepted q) = fmlookup (indexPending q) key \<and> key \<in> set (indexJobs q) \<union> set (indexRunning q))"
    for key
    using ok by (cases "fmlookup (indexPending q) key") (auto simp: nothing_lost_def queue_ok_def dest: fmdomI)
  moreover have "worker_finish key q \<noteq> None" if "key \<in> set (indexRunning q)" for key
    using never_blocks [of q key] ok that by (simp add: worker_finish_def)
  moreover have "distinct (indexRunning q) \<and> length (indexRunning q) \<le> maxConcurrentIndexJobs"
    using ok by (simp add: queue_ok_def)
  ultimately show ?thesis using ok take_ok by blast
qed

theorem index_queue_never_blocks_witness:
  "\<exists>q. queue_step\<^sup>*\<^sup>* new_queue q \<and> indexRunning q = [''sync''] \<and>
       fmlookup (indexPending q) ''sync'' = Some (2::nat) \<and> worker_finish ''sync'' q \<noteq> None"
proof -
  define q1 where "q1 = snd (enqueueIndex False False ''sync'' (1::nat) new_queue)"
  define q2 where "q2 = snd (the (worker_take q1))"
  define q3 where "q3 = snd (enqueueIndex False False ''sync'' 2 q2)"
  have t: "worker_take q1 = Some (Some 1, q2)" unfolding q2_def q1_def by code_simp
  have "queue_step new_queue q1" unfolding q1_def by (rule queue_step.enqueue)
  moreover have "queue_step q1 q2" by (rule queue_step.take_job [OF t])
  moreover have "queue_step q2 q3" unfolding q3_def by (rule queue_step.enqueue)
  ultimately have r: "queue_step\<^sup>*\<^sup>* new_queue q3"
    by (meson rtranclp.rtrancl_into_rtrancl rtranclp.rtrancl_refl)
  have "indexRunning q3 = [''sync'']" "fmlookup (indexPending q3) ''sync'' = Some 2"
    unfolding q3_def q2_def q1_def by code_simp+
  with index_queue_never_blocks [OF r] r show ?thesis by force
qed

end
