(* ===== verification/IndexSync.thy ===== *)
theory IndexSync
  imports Replication Apply Frame IndexQueue
begin

text \<open>
  The index exchange between two sessions: the index frames of \<^verbatim>\<open>internal/sync/dispatch.go\<close> and
  the functions of \<^verbatim>\<open>internal/sync/session.go\<close> that answer a sync request, plan its batches,
  track what was written and accept acknowledgements.

  \<open>Session\<close> holds the fields of the Go struct that the exchange uses. A frame handed to the
  writer goes to \<open>ss_queue\<close> with the callback to run once it is on the wire; the writer moves
  it to \<open>ss_wire\<close>. \<open>ss_fuse\<close> is the number of frames the writer still accepts before it
  fails (\<open>None\<close>: it never fails). A handler receives the decoded message and starts with the
  validation that decoding includes. The CBOR codec is an argument, random snapshot ids and
  the time are arguments, and one answer reads one state of the database.

  The results: a peer's frames touch only its own mirror of shares that accept changes;
  only what was written is ever acknowledged; and nothing ignored is advertised. What a
  whole exchange achieves is the next theory.
\<close>

section \<open>Planning batches\<close>

record codec =
  cd_message :: "message \<Rightarrow> bytes option"
  cd_file :: "FileInfo \<Rightarrow> bytes option"
  cd_entry :: "IndexDeltaEntry \<Rightarrow> bytes option"

definition EncodedEntrySize :: "('a \<Rightarrow> bytes option) \<Rightarrow> 'a \<Rightarrow> frame_err + nat" where
  "EncodedEntrySize marshal v =
     (case marshal v of None \<Rightarrow> Inl CborEncode | Some b \<Rightarrow> Inr (length b))"

definition batchArrayHeaderSlack :: nat where "batchArrayHeaderSlack = 8"
definition journalPageSize :: nat where "journalPageSize = 20000"

text \<open>The loop both planners share: how many rows fit before the target size is passed.\<close>

fun fit_len :: "('r \<Rightarrow> frame_err + nat) \<Rightarrow> nat \<Rightarrow> 'r list \<Rightarrow> nat" where
  "fit_len sz used [] = 0"
| "fit_len sz used (r # rs) =
     (case sz r of
        Inl e \<Rightarrow> 0
      | Inr n \<Rightarrow> if used + n > TargetIndexBatchSize then 0 else Suc (fit_len sz (used + n) rs))"

definition snapshotBatchLen :: "codec \<Rightarrow> string \<Rightarrow> string \<Rightarrow> 64 word \<Rightarrow> FileRow list \<Rightarrow> nat" where
  "snapshotBatchLen cd share i b rows =
     (case EncodedMessageSize (cd_message cd) (MIndexSnapshotBatch
             \<lparr>st_ShareID = share, st_SnapshotID = i, st_Batch = b, st_Files = []\<rparr>) of
        Inl e \<Rightarrow> 0
      | Inr envelope \<Rightarrow>
          fit_len (\<lambda>r. EncodedEntrySize (cd_file cd) (Info r)) (envelope + batchArrayHeaderSlack) rows)"

definition delta_entry :: "JournalRow \<Rightarrow> IndexDeltaEntry" where
  "delta_entry j = \<lparr>de_Seq = of_nat (jr_Seq j), de_File = Info (jr_Row j)\<rparr>"

definition deltaBatchLen :: "codec \<Rightarrow> string \<Rightarrow> string \<Rightarrow> JournalRow list \<Rightarrow> nat" where
  "deltaBatchLen cd share epoch rows =
     (if rows = [] then 0
      else case EncodedMessageSize (cd_message cd) (MIndexDeltaBatch
             \<lparr>db_ShareID = share, db_Epoch = epoch, db_FromSeq = of_nat (jr_Seq (hd rows)),
              db_ToSeq = of_nat (jr_Seq (last rows)), db_Entries = []\<rparr>) of
        Inl e \<Rightarrow> 0
      | Inr envelope \<Rightarrow>
          fit_len (\<lambda>r. EncodedEntrySize (cd_entry cd) (delta_entry r)) (envelope + batchArrayHeaderSlack) rows)"

section \<open>The session\<close>

record sentIndexState =
  si_epoch :: string
  si_high :: "64 word"
  si_snapshotID :: string

datatype written_note =
    NoNote
  | SnapshotNote string string string "64 word"
  | DeltaNote string string "64 word"

datatype index_job = SyncJob IndexSyncRequest | ReconcileJob string

record Session =
  ss_nodeID :: string
  ss_peerID :: string
  ss_store :: store
  ss_shares :: "(string, ShareConfig) fmap"
  ss_snapshots :: "(string, IndexSnapshotBegin) fmap"
  ss_sentIndex :: "(string, sentIndexState) fmap"
  ss_index :: "index_job index_queue"
  ss_indexSem :: nat
  ss_updates :: "IndexUpdate list"
  ss_queue :: "(message \<times> written_note) list"
  ss_wire :: "(message \<times> written_note) list"
  ss_fuse :: "nat option"
  ss_open :: bool
  ss_warnings :: "LocallyModifiedWarning list"
  ss_protocolViolations :: nat
  ss_rejectedShareOperations :: nat
  ss_rejectedWork :: nat

definition protocolViolation :: "Session \<Rightarrow> Session" where
  "protocolViolation s = s\<lparr>ss_protocolViolations := Suc (ss_protocolViolations s)\<rparr>"

definition rejectShareOperation :: "Session \<Rightarrow> Session" where
  "rejectShareOperation s = s\<lparr>ss_rejectedShareOperations := Suc (ss_rejectedShareOperations s)\<rparr>"

text \<open>Refused work closes the connection.\<close>

definition rejectWork :: "Session \<Rightarrow> Session" where
  "rejectWork s = s\<lparr>ss_rejectedWork := Suc (ss_rejectedWork s), ss_open := False\<rparr>"

definition send_frame :: "message \<Rightarrow> written_note \<Rightarrow> Session \<Rightarrow> bool \<times> Session" where
  "send_frame m note s =
     (if ss_fuse s = Some 0 then (False, s)
      else (True, s\<lparr>ss_queue := ss_queue s @ [(m, note)], ss_fuse := map_option (\<lambda>n. n - 1) (ss_fuse s)\<rparr>))"

definition AddShare :: "ShareConfig \<Rightarrow> Session \<Rightarrow> Session" where
  "AddShare cfg s = s\<lparr>ss_shares := fmupd (scfg_ShareID cfg) cfg (ss_shares s)\<rparr>"

definition getShare :: "Session \<Rightarrow> string \<Rightarrow> ShareConfig option" where
  "getShare s shareID = fmlookup (ss_shares s) shareID"

definition acceptsInboundIndex :: "Session \<Rightarrow> string \<Rightarrow> bool" where
  "acceptsInboundIndex s shareID =
     (case getShare s shareID of None \<Rightarrow> False | Some cfg \<Rightarrow> \<not> InboundBlocked (scfg_Direction cfg))"

definition servesOutboundShare :: "Session \<Rightarrow> string \<Rightarrow> bool" where
  "servesOutboundShare s shareID =
     (case getShare s shareID of None \<Rightarrow> False | Some cfg \<Rightarrow> \<not> OutboundBlocked (scfg_Direction cfg))"

definition cfg_ignored :: "ShareConfig \<Rightarrow> string \<Rightarrow> bool \<Rightarrow> bool" where
  "cfg_ignored c relpath isDir = (case scfg_Ignore c of None \<Rightarrow> False | Some f \<Rightarrow> f relpath isDir)"

definition row_ignored :: "ShareConfig \<Rightarrow> FileRow \<Rightarrow> bool" where
  "row_ignored c r = cfg_ignored c (fr_RelPath r) (fr_Type r = FileTypeDir)"

definition journalHasIgnored :: "ShareConfig \<Rightarrow> JournalRow list \<Rightarrow> bool" where
  "journalHasIgnored c rows = list_ex (\<lambda>j. row_ignored c (jr_Row j)) rows"

definition filterIgnoredRows :: "ShareConfig \<Rightarrow> FileRow list \<Rightarrow> FileRow list" where
  "filterIgnoredRows c rows = filter (\<lambda>r. \<not> row_ignored c r) rows"

section \<open>Answering a sync request\<close>

datatype sync_err = InactiveShare | EntryTooLarge string | WriteFailed

definition canAnswerWithDeltas :: "IndexSyncRequest \<Rightarrow> string \<Rightarrow> 64 word \<Rightarrow> 64 word \<Rightarrow> bool" where
  "canAnswerWithDeltas req epoch high oldest =
     (if sr_Epoch req \<noteq> epoch \<or> sr_AppliedSeq req > high then False
      else if sr_AppliedSeq req = high then True
      else oldest > 0 \<and> oldest \<le> sr_AppliedSeq req + 1)"

function send_batches ::
  "codec \<Rightarrow> string \<Rightarrow> string \<Rightarrow> 64 word \<Rightarrow> FileRow list \<Rightarrow> Session \<Rightarrow> (sync_err + 64 word) \<times> Session" where
  "send_batches cd share i batch rows s =
     (if rows = [] then (Inr batch, s)
      else let n = snapshotBatchLen cd share i batch rows in
        if n = 0 then (Inl (EntryTooLarge (fr_RelPath (hd rows))), s)
        else case send_frame (MIndexSnapshotBatch \<lparr>st_ShareID = share, st_SnapshotID = i, st_Batch = batch,
                           st_Files = map Info (take n rows)\<rparr>) NoNote s of
               (False, s1) \<Rightarrow> (Inl WriteFailed, s1)
             | (True, s1) \<Rightarrow> send_batches cd share i (batch + 1) (drop n rows) s1)"
  by pat_completeness auto
termination by (relation "measure (\<lambda>(cd, share, i, b, rows, s). length rows)") auto

declare send_batches.simps [simp del]

definition send_snapshot ::
  "codec \<Rightarrow> string \<Rightarrow> string \<Rightarrow> string \<Rightarrow> nat \<Rightarrow> FileRow list \<Rightarrow> Session \<Rightarrow> sync_err err \<times> Session" where
  "send_snapshot cd share i epoch high rows s =
     (case send_frame (MIndexSnapshotBegin \<lparr>sb_ShareID = share, sb_SnapshotID = i, sb_Epoch = epoch,
                    sb_HighSeq = of_nat high\<rparr>) NoNote s of
        (False, s1) \<Rightarrow> (Some WriteFailed, s1)
      | (True, s1) \<Rightarrow> (case send_batches cd share i 0 rows s1 of
          (Inl e, s2) \<Rightarrow> (Some e, s2)
        | (Inr batch, s2) \<Rightarrow>
            (case send_frame (MIndexSnapshotEnd \<lparr>se_ShareID = share, se_SnapshotID = i, se_BatchCount = batch\<rparr>)
                    (SnapshotNote share epoch i (of_nat high)) s2 of
               (False, s3) \<Rightarrow> (Some WriteFailed, s3) | (True, s3) \<Rightarrow> (ok, s3))))"

text \<open>One page of the journal, as delta batches.\<close>

definition delta_batch :: "string \<Rightarrow> string \<Rightarrow> JournalRow list \<Rightarrow> IndexDeltaBatch" where
  "delta_batch share epoch js =
     \<lparr>db_ShareID = share, db_Epoch = epoch, db_FromSeq = of_nat (jr_Seq (hd js)),
      db_ToSeq = of_nat (jr_Seq (last js)), db_Entries = map delta_entry js\<rparr>"

function send_page :: "codec \<Rightarrow> string \<Rightarrow> string \<Rightarrow> JournalRow list \<Rightarrow> Session \<Rightarrow> sync_err err \<times> Session" where
  "send_page cd share epoch page s =
     (if page = [] then (ok, s)
      else let n = deltaBatchLen cd share epoch page in
        if n = 0 then (Some (EntryTooLarge (fr_RelPath (jr_Row (hd page)))), s)
        else let m = delta_batch share epoch (take n page) in
          case send_frame (MIndexDeltaBatch m) (DeltaNote share epoch (db_ToSeq m)) s of
            (False, s1) \<Rightarrow> (Some WriteFailed, s1)
          | (True, s1) \<Rightarrow> send_page cd share epoch (drop n page) s1)"
  by pat_completeness auto
termination by (relation "measure (\<lambda>(cd, share, e, page, s). length page)") auto

declare send_page.simps [simp del]

text \<open>Every page brings the loop past at least one journal entry.\<close>

definition journal_left :: "string \<Rightarrow> string \<Rightarrow> nat \<Rightarrow> store \<Rightarrow> nat" where
  "journal_left share epoch applied db = length (filter (\<lambda>q. q > applied) (journal_seqs share epoch db))"

lemma journal_row_seq: "q \<in> set (journal_seqs share epoch db) \<Longrightarrow> jr_Seq (journal_row share db q) = q"
  by (auto simp: mem_journal_seqs journal_row_def)

lemma JournalSince_last:
  assumes "JournalSince share epoch applied k db \<noteq> []"
  shows "jr_Seq (last (JournalSince share epoch applied k db)) \<in>
           set (filter (\<lambda>q. q > applied) (journal_seqs share epoch db))"
proof -
  let ?qs = "filter (\<lambda>q. q > applied) (journal_seqs share epoch db)"
  have "last (JournalSince share epoch applied k db) \<in> set (map (journal_row share db) ?qs)"
    using last_in_set [OF assms] unfolding JournalSince_def by (rule in_set_takeD)
  then show ?thesis using journal_row_seq by force
qed

lemma journal_left_shrinks:
  assumes "JournalSince share epoch applied k db \<noteq> []"
  shows "journal_left share epoch (jr_Seq (last (JournalSince share epoch applied k db))) db < journal_left share epoch applied db"
proof -
  let ?l = "jr_Seq (last (JournalSince share epoch applied k db))" and ?qs = "journal_seqs share epoch db"
  have l: "?l \<in> set ?qs" "applied < ?l" using JournalSince_last [OF assms] by auto
  have "filter (\<lambda>q. q > ?l) ?qs = filter (\<lambda>q. q > ?l) (filter (\<lambda>q. q > applied) ?qs)"
    using l(2) by (auto intro: filter_cong)
  moreover have "length \<dots> < length (filter (\<lambda>q. q > applied) ?qs)"
    by (rule length_filter_less [of ?l]) (use l in auto)
  ultimately show ?thesis by (simp add: journal_left_def)
qed

function sendJournalDeltas ::
  "codec \<Rightarrow> nat \<Rightarrow> ShareConfig \<Rightarrow> string \<Rightarrow> nat \<Rightarrow> store \<Rightarrow> Session \<Rightarrow> (sync_err + bool) \<times> Session" where
  "sendJournalDeltas cd pageSize cfg epoch applied db s =
     (let share = scfg_ShareID cfg; rows = JournalSince share epoch applied pageSize db in
      if rows = [] then (Inr True, s)
      else if journalHasIgnored cfg rows then (Inr False, s)
      else case send_page cd share epoch rows s of
             (Some e, s1) \<Rightarrow> (Inl e, s1)
           | (None, s1) \<Rightarrow>
               if length rows < pageSize then (Inr True, s1)
               else sendJournalDeltas cd pageSize cfg epoch (jr_Seq (last rows)) db s1)"
  by pat_completeness auto
termination
  by (relation "measure (\<lambda>(cd, n, cfg, e, a, db, s). journal_left (scfg_ShareID cfg) e a db)")
    (auto simp: journal_left_shrinks)

declare sendJournalDeltas.simps [simp del]

definition answerSyncRequest ::
  "codec \<Rightarrow> nat \<Rightarrow> string \<Rightarrow> string \<Rightarrow> IndexSyncRequest \<Rightarrow> Session \<Rightarrow> sync_err err \<times> Session" where
  "answerSyncRequest cd pageSize fresh newSnapshotID req s =
     (let share = sr_ShareID req in
      if \<not> servesOutboundShare s share then (Some InactiveShare, s)
      else case ShareState fresh share (ss_store s) of ((epoch, high), db) \<Rightarrow>
        let s0 = s\<lparr>ss_store := db\<rparr>;
            oldest = OldestJournalSeq share epoch db;
            cfg = the (getShare s share);
            full = send_snapshot cd share newSnapshotID epoch high
                     (filterIgnoredRows cfg (ListShare share True db))
        in if canAnswerWithDeltas req epoch (of_nat high) (of_nat oldest)
           then (case sendJournalDeltas cd pageSize cfg epoch (unat (sr_AppliedSeq req)) db s0 of
                   (Inl e, s1) \<Rightarrow> (Some e, s1)
                 | (Inr complete, s1) \<Rightarrow> if complete then (ok, s1) else full s1)
           else full s0)"

section \<open>What was written and acknowledged\<close>

definition zero_sent :: sentIndexState where
  "zero_sent = \<lparr>si_epoch = [], si_high = 0, si_snapshotID = []\<rparr>"

definition note_sent :: "string \<Rightarrow> sentIndexState \<Rightarrow> Session \<Rightarrow> Session" where
  "note_sent share new s =
     (let cur = (case fmlookup (ss_sentIndex s) share of None \<Rightarrow> zero_sent | Some x \<Rightarrow> x) in
      if si_epoch cur \<noteq> si_epoch new \<or> si_high new \<ge> si_high cur
      then s\<lparr>ss_sentIndex := fmupd share new (ss_sentIndex s)\<rparr> else s)"

definition noteSnapshotWritten :: "string \<Rightarrow> string \<Rightarrow> string \<Rightarrow> 64 word \<Rightarrow> Session \<Rightarrow> Session" where
  "noteSnapshotWritten share epoch i high s =
     note_sent share \<lparr>si_epoch = epoch, si_high = high, si_snapshotID = i\<rparr> s"

definition noteDeltaWritten :: "string \<Rightarrow> string \<Rightarrow> 64 word \<Rightarrow> Session \<Rightarrow> Session" where
  "noteDeltaWritten share epoch high s =
     note_sent share \<lparr>si_epoch = epoch, si_high = high, si_snapshotID = []\<rparr> s"

text \<open>The writer puts the next frame on the wire and runs its callback.\<close>

definition run_note :: "written_note \<Rightarrow> Session \<Rightarrow> Session" where
  "run_note note s = (case note of
       NoNote \<Rightarrow> s
     | SnapshotNote share epoch i high \<Rightarrow> noteSnapshotWritten share epoch i high s
     | DeltaNote share epoch high \<Rightarrow> noteDeltaWritten share epoch high s)"

definition write_next :: "Session \<Rightarrow> Session" where
  "write_next s = (case ss_queue s of
       [] \<Rightarrow> s
     | (m, note) # rest \<Rightarrow> run_note note (s\<lparr>ss_queue := rest, ss_wire := ss_wire s @ [(m, note)]\<rparr>))"

definition acceptIndexAck :: "IndexAck \<Rightarrow> Session \<Rightarrow> bool \<times> Session" where
  "acceptIndexAck m s =
     (case fmlookup (ss_sentIndex s) (ia_ShareID m) of
        None \<Rightarrow> (False, s)
      | Some sent \<Rightarrow>
         if ia_Epoch m \<noteq> si_epoch sent \<or> ia_AppliedSeq m \<noteq> si_high sent \<or> ia_SnapshotID m \<noteq> si_snapshotID sent
         then (False, s)
         else let cur = get_cursor (ss_peerID s) (ia_ShareID m) ''outgoing'' (ss_store s) in
           if cu_Epoch cur = ia_Epoch m \<and> cu_AppliedSeq cur \<ge> ia_AppliedSeq m then (False, s)
           else (True, s\<lparr>ss_store := SetCursor (ss_peerID s) (ia_ShareID m) ''outgoing''
                   (zero_cursor\<lparr>cu_Epoch := ia_Epoch m, cu_AppliedSeq := ia_AppliedSeq m\<rparr>) (ss_store s)\<rparr>))"


section \<open>The frames of the exchange\<close>

definition index_key :: "string \<Rightarrow> string \<Rightarrow> string" where
  "index_key operation share = operation @ [CHR 0x00] @ share"

text \<open>Schedules index work; a refusal closes the session.\<close>

definition schedule :: "bool \<Rightarrow> bool \<Rightarrow> string \<Rightarrow> index_job \<Rightarrow> Session \<Rightarrow> bool \<times> Session" where
  "schedule closing pick key job s =
     (case enqueueIndex closing pick key job (ss_index s) of
        (True, q) \<Rightarrow> (True, s\<lparr>ss_index := q\<rparr>)
      | (False, q) \<Rightarrow> (False, rejectWork (s\<lparr>ss_index := q\<rparr>)))"

definition ask :: "string \<Rightarrow> Cursor \<Rightarrow> Session \<Rightarrow> Session" where
  "ask share c s = snd (send_frame (MIndexSyncRequest
     \<lparr>sr_ShareID = share, sr_Epoch = cu_Epoch c, sr_AppliedSeq = cu_AppliedSeq c,
      sr_SnapshotID = cu_SnapshotID c, sr_SnapshotBatch = cu_SnapshotBatch c\<rparr>) NoNote s)"

definition acknowledge :: "string \<Rightarrow> string \<Rightarrow> 64 word \<Rightarrow> string \<Rightarrow> Session \<Rightarrow> Session" where
  "acknowledge share epoch seq i s = snd (send_frame (MIndexAck
     \<lparr>ia_ShareID = share, ia_Epoch = epoch, ia_AppliedSeq = seq, ia_SnapshotID = i, ia_Replay = False\<rparr>) NoNote s)"

definition handleIndexSyncRequestFrame :: "bool \<Rightarrow> bool \<Rightarrow> IndexSyncRequest \<Rightarrow> Session \<Rightarrow> bool \<times> Session" where
  "handleIndexSyncRequestFrame closing pick m s =
     (if ValidateMessage (MIndexSyncRequest m) \<noteq> ok then (True, protocolViolation s)
      else if \<not> servesOutboundShare s (sr_ShareID m) then (True, rejectShareOperation s)
      else schedule closing pick (index_key ''sync'' (sr_ShareID m)) (SyncJob m) s)"

definition handleIndexSnapshotBeginFrame :: "IndexSnapshotBegin \<Rightarrow> Session \<Rightarrow> bool \<times> Session" where
  "handleIndexSnapshotBeginFrame m s =
     (if ValidateMessage (MIndexSnapshotBegin m) \<noteq> ok then (True, protocolViolation s)
      else if \<not> acceptsInboundIndex s (sb_ShareID m) \<or> sb_SnapshotID m = [] then (True, rejectShareOperation s)
      else (True, s\<lparr>ss_snapshots := fmupd (sb_ShareID m) m (ss_snapshots s),
                   ss_store := SetCursor (ss_peerID s) (sb_ShareID m) ''incoming''
                     (zero_cursor\<lparr>cu_Epoch := sb_Epoch m, cu_SnapshotID := sb_SnapshotID m\<rparr>) (ss_store s)\<rparr>))"

definition handleIndexSnapshotBatchFrame :: "int \<Rightarrow> IndexSnapshotBatch \<Rightarrow> Session \<Rightarrow> bool \<times> Session" where
  "handleIndexSnapshotBatchFrame now m s =
     (let share = st_ShareID m; c = get_cursor (ss_peerID s) share ''incoming'' (ss_store s) in
      if ValidateMessage (MIndexSnapshotBatch m) \<noteq> ok then (True, protocolViolation s)
      else if \<not> acceptsInboundIndex s share then (True, rejectShareOperation s)
      else if map_option sb_SnapshotID (fmlookup (ss_snapshots s) share) \<noteq> Some (st_SnapshotID m)
      then (True, protocolViolation s)
      else if st_Batch m < cu_SnapshotBatch c then (True, s)
      else if st_Batch m \<noteq> cu_SnapshotBatch c then (True, ask share c s)
      else (True, s\<lparr>ss_store := SetCursor (ss_peerID s) share ''incoming''
                      (c\<lparr>cu_SnapshotBatch := cu_SnapshotBatch c + 1\<rparr>)
                      (StageSnapshotBatch (ss_peerID s) share (st_SnapshotID m) (st_Batch m)
                         (map (\<lambda>f. FileRowFromInfo share f now) (st_Files m)) (ss_store s))\<rparr>))"

definition handleIndexSnapshotEndFrame :: "bool \<Rightarrow> bool \<Rightarrow> int \<Rightarrow> IndexSnapshotEnd \<Rightarrow> Session \<Rightarrow> bool \<times> Session" where
  "handleIndexSnapshotEndFrame closing pick now m s =
     (let share = se_ShareID m; i = se_SnapshotID m in
      if ValidateMessage (MIndexSnapshotEnd m) \<noteq> ok then (True, protocolViolation s)
      else if \<not> acceptsInboundIndex s share then (True, rejectShareOperation s)
      else case fmlookup (ss_snapshots s) share of
             None \<Rightarrow> (True, s)
           | Some b \<Rightarrow>
               if sb_SnapshotID b \<noteq> i then (True, s)
               else let s1 = s\<lparr>ss_snapshots := fmdrop share (ss_snapshots s)\<rparr>;
                        c = get_cursor (ss_peerID s) share ''incoming'' (ss_store s)
                    in if cu_SnapshotBatch c \<noteq> se_BatchCount m then (True, s1)
                       else schedule closing pick (index_key ''reconcile'' share) (ReconcileJob share)
                              (acknowledge share (sb_Epoch b) (sb_HighSeq b) i
                                (s1\<lparr>ss_store := CommitSnapshot (ss_peerID s) share i (sb_Epoch b) (sb_HighSeq b) now
                                                 (ss_store s)\<rparr>)))"

text \<open>The rows of a delta: the loop stops at the first entry out of sequence.\<close>

definition delta_in_sequence :: "IndexDeltaBatch \<Rightarrow> bool" where
  "delta_in_sequence m =
     list_all (\<lambda>(i, e). de_Seq e = db_FromSeq m + of_nat i) (enumerate 0 (db_Entries m))"

definition handleIndexDeltaBatchFrame :: "bool \<Rightarrow> bool \<Rightarrow> int \<Rightarrow> IndexDeltaBatch \<Rightarrow> Session \<Rightarrow> bool \<times> Session" where
  "handleIndexDeltaBatchFrame closing pick now m s =
     (let share = db_ShareID m;
          c = get_cursor (ss_peerID s) share ''incoming'' (ss_store s);
          again = (True, ask share (c\<lparr>cu_SnapshotID := [], cu_SnapshotBatch := 0\<rparr>) s)
      in if ValidateMessage (MIndexDeltaBatch m) \<noteq> ok then (True, protocolViolation s)
      else if \<not> acceptsInboundIndex s share then (True, rejectShareOperation s)
      else if \<not> delta_in_sequence m then again
      else case ApplyPeerDelta (ss_peerID s) share (db_Epoch m) (db_FromSeq m) (db_ToSeq m)
                  (map (\<lambda>e. FileRowFromInfo share (de_File e) now) (db_Entries m)) now (ss_store s) of
             Inl e \<Rightarrow> again
           | Inr db \<Rightarrow>
               schedule closing pick (index_key ''reconcile'' share) (ReconcileJob share)
                 (acknowledge share (db_Epoch m) (db_ToSeq m) [] (s\<lparr>ss_store := db\<rparr>)))"

definition handleIndexAckFrame :: "IndexAck \<Rightarrow> Session \<Rightarrow> bool \<times> Session" where
  "handleIndexAckFrame m s =
     (let valid = ValidateMessage (MIndexAck m) = ok;
          s1 = (if valid then s else protocolViolation s)
      in if valid \<and> servesOutboundShare s (ia_ShareID m) then (True, snd (acceptIndexAck m s))
         else if ia_ShareID m \<noteq> [] then (True, rejectShareOperation s1)
         else (True, s1))"

text \<open>\<open>startBounded(s.indexSem, ...)\<close>: a full semaphore refuses the work.\<close>

definition handleIndexUpdateFrame :: "IndexUpdate \<Rightarrow> Session \<Rightarrow> bool \<times> Session" where
  "handleIndexUpdateFrame m s =
     (if ValidateMessage (MIndexUpdate m) \<noteq> ok then (True, protocolViolation s)
      else if \<not> acceptsInboundIndex s (iu_ShareID m) then (True, rejectShareOperation s)
      else if ss_indexSem s \<ge> maxConcurrentIndexJobs then (False, rejectWork s)
      else (True, s\<lparr>ss_indexSem := Suc (ss_indexSem s), ss_updates := ss_updates s @ [m]\<rparr>))"

text \<open>The entries of \<open>sessionFrameHandlers\<close> that concern the index; other frames pass.\<close>

definition handle_index_frame :: "bool \<Rightarrow> bool \<Rightarrow> int \<Rightarrow> message \<Rightarrow> Session \<Rightarrow> bool \<times> Session" where
  "handle_index_frame closing pick now f s = (case f of
       MIndexSyncRequest m \<Rightarrow> handleIndexSyncRequestFrame closing pick m s
     | MIndexSnapshotBegin m \<Rightarrow> handleIndexSnapshotBeginFrame m s
     | MIndexSnapshotBatch m \<Rightarrow> handleIndexSnapshotBatchFrame now m s
     | MIndexSnapshotEnd m \<Rightarrow> handleIndexSnapshotEndFrame closing pick now m s
     | MIndexDeltaBatch m \<Rightarrow> handleIndexDeltaBatchFrame closing pick now m s
     | MIndexAck m \<Rightarrow> handleIndexAckFrame m s
     | MIndexUpdate m \<Rightarrow> handleIndexUpdateFrame m s
     | _ \<Rightarrow> (True, s))"

section \<open>What a frame can change\<close>

lemma send_frame_fields [simp]:
  "ss_store (snd (send_frame m n s)) = ss_store s" "ss_peerID (snd (send_frame m n s)) = ss_peerID s"
  "ss_shares (snd (send_frame m n s)) = ss_shares s" "ss_sentIndex (snd (send_frame m n s)) = ss_sentIndex s"
  "ss_wire (snd (send_frame m n s)) = ss_wire s" "ss_snapshots (snd (send_frame m n s)) = ss_snapshots s"
  "ss_index (snd (send_frame m n s)) = ss_index s"
  by (simp_all add: send_frame_def)

lemma ask_fields [simp]:
  "ss_store (ask share c s) = ss_store s" "ss_peerID (ask share c s) = ss_peerID s"
  "ss_shares (ask share c s) = ss_shares s" "ss_sentIndex (ask share c s) = ss_sentIndex s"
  "ss_wire (ask share c s) = ss_wire s"
  by (simp_all add: ask_def)

lemma acknowledge_fields [simp]:
  "ss_store (acknowledge share e q i s) = ss_store s" "ss_peerID (acknowledge share e q i s) = ss_peerID s"
  "ss_shares (acknowledge share e q i s) = ss_shares s" "ss_sentIndex (acknowledge share e q i s) = ss_sentIndex s"
  "ss_wire (acknowledge share e q i s) = ss_wire s" "ss_snapshots (acknowledge share e q i s) = ss_snapshots s"
  "ss_index (acknowledge share e q i s) = ss_index s"
  by (simp_all add: acknowledge_def)

lemma counter_fields [simp]:
  "ss_store (protocolViolation s) = ss_store s" "ss_peerID (protocolViolation s) = ss_peerID s"
  "ss_shares (protocolViolation s) = ss_shares s" "ss_sentIndex (protocolViolation s) = ss_sentIndex s"
  "ss_wire (protocolViolation s) = ss_wire s" "ss_queue (protocolViolation s) = ss_queue s"
  "ss_store (rejectShareOperation s) = ss_store s" "ss_peerID (rejectShareOperation s) = ss_peerID s"
  "ss_shares (rejectShareOperation s) = ss_shares s" "ss_sentIndex (rejectShareOperation s) = ss_sentIndex s"
  "ss_wire (rejectShareOperation s) = ss_wire s" "ss_queue (rejectShareOperation s) = ss_queue s"
  "ss_store (rejectWork s) = ss_store s" "ss_peerID (rejectWork s) = ss_peerID s"
  "ss_shares (rejectWork s) = ss_shares s" "ss_sentIndex (rejectWork s) = ss_sentIndex s"
  "ss_wire (rejectWork s) = ss_wire s" "ss_queue (rejectWork s) = ss_queue s"
  by (simp_all add: protocolViolation_def rejectShareOperation_def rejectWork_def)

lemma schedule_fields [simp]:
  "ss_store (snd (schedule closing pick k j s)) = ss_store s" "ss_peerID (snd (schedule closing pick k j s)) = ss_peerID s"
  "ss_shares (snd (schedule closing pick k j s)) = ss_shares s"
  "ss_sentIndex (snd (schedule closing pick k j s)) = ss_sentIndex s"
  "ss_wire (snd (schedule closing pick k j s)) = ss_wire s" "ss_queue (snd (schedule closing pick k j s)) = ss_queue s"
  "ss_snapshots (snd (schedule closing pick k j s)) = ss_snapshots s"
  by (simp_all add: schedule_def rejectWork_def split: prod.split bool.split)


text \<open>
  \<open>only_link peer share db db'\<close>: the two databases differ at most in the mirror, the staged
  snapshots and the incoming cursor of one peer and share.
\<close>

definition only_link :: "string \<Rightarrow> string \<Rightarrow> store \<Rightarrow> store \<Rightarrow> bool" where
  "only_link peer share db db' \<longleftrightarrow>
     files db' = files db \<and> share_state db' = share_state db \<and> change_journal db' = change_journal db \<and>
     holds db' = holds db \<and>
     (\<forall>pk sh p. fmlookup (peer_files db') (pk, sh, p) = fmlookup (peer_files db) (pk, sh, p) \<or> (pk = peer \<and> sh = share)) \<and>
     (\<forall>pk sh d. fmlookup (peer_cursors db') (pk, sh, d) = fmlookup (peer_cursors db) (pk, sh, d) \<or>
                (pk = peer \<and> sh = share \<and> d = ''incoming''))"

lemma only_link_refl [simp]: "only_link peer share db db" by (simp add: only_link_def)

lemma only_link_cursor [simp]: "only_link peer share db (SetCursor peer share ''incoming'' c db)"
  by (auto simp: only_link_def SetCursor_def)

lemma only_link_out:
  assumes "only_link peer share db db'"
  shows "fmlookup (peer_cursors db') (pk, sh, ''outgoing'') = fmlookup (peer_cursors db) (pk, sh, ''outgoing'')"
proof -
  have "fmlookup (peer_cursors db') (pk, sh, ''outgoing'') = fmlookup (peer_cursors db) (pk, sh, ''outgoing'') \<or>
      ''outgoing'' = ''incoming''"
    using assms unfolding only_link_def by metis
  then show ?thesis by simp
qed

lemma only_link_stage: "only_link peer share db (StageSnapshotBatch peer share i b fs db)"
  by (simp add: only_link_def StageSnapshotBatch_def Let_def)

lemma only_link_trans: "only_link peer share a b \<Longrightarrow> only_link peer share b c \<Longrightarrow> only_link peer share a c"
  unfolding only_link_def by metis

lemma staged_rows_dom: "k |\<in>| fmdom (staged_rows peer share i now s) \<Longrightarrow> fst k = peer \<and> fst (snd k) = share"
  by (auto simp: staged_rows_def List.map_filter_def image_iff split: option.splits)

lemma only_link_commit: "only_link peer share db (CommitSnapshot peer share i epoch seq now db)"
  unfolding only_link_def CommitSnapshot_def by (auto dest: staged_rows_dom)

lemma only_link_puts:
  "only_link peer share db (fold (\<lambda>r. put_peer_file peer (r\<lparr>fr_ShareID := share, fr_UpdatedAt := now\<rparr>)) rows db)"
proof (induction rows arbitrary: db)
  case (Cons r rows)
  have "only_link peer share db (put_peer_file peer (r\<lparr>fr_ShareID := share, fr_UpdatedAt := now\<rparr>) db)"
    by (auto simp: only_link_def put_peer_file_def)
  then show ?case using Cons.IH by (auto intro: only_link_trans)
qed simp

lemma only_link_delta:
  assumes "ApplyPeerDelta peer share epoch a b rows now db = Inr db'"
  shows "only_link peer share db db'"
proof -
  let ?f = "fold (\<lambda>r. put_peer_file peer (r\<lparr>fr_ShareID := share, fr_UpdatedAt := now\<rparr>)) rows db"
  obtain cs where "db' = ?f\<lparr>peer_cursors := cs\<rparr>"
    and "\<And>pk sh d. fmlookup cs (pk, sh, d) = fmlookup (peer_cursors ?f) (pk, sh, d) \<or>
               (pk = peer \<and> sh = share \<and> d = ''incoming'')"
    using assms by (auto simp: ApplyPeerDelta_def Let_def split: if_splits option.splits)
  then show ?thesis using only_link_puts [of peer share db now rows] by (auto simp: only_link_def)
qed

text \<open>What a handler did to the database, and which work it scheduled.\<close>

definition frame_effect :: "Session \<Rightarrow> string \<Rightarrow> store \<Rightarrow> bool" where
  "frame_effect s share db' \<longleftrightarrow>
     db' = ss_store s \<or>
     (only_link (ss_peerID s) share (ss_store s) db' \<and> acceptsInboundIndex s share) \<or>
     (servesOutboundShare s share \<and> (\<exists>c. db' = SetCursor (ss_peerID s) share ''outgoing'' c (ss_store s)))"

definition accepted_serve :: "Session \<Rightarrow> Session \<Rightarrow> bool" where
  "accepted_serve s s' \<longleftrightarrow>
     (\<forall>key req. (key, SyncJob req) \<in> set (iq_accepted (ss_index s')) \<longrightarrow>
        (key, SyncJob req) \<in> set (iq_accepted (ss_index s)) \<or> servesOutboundShare s (sr_ShareID req))"

lemma enqueue_accepted:
  "set (iq_accepted (snd (enqueueIndex closing pick key fn q))) \<subseteq> insert (key, fn) (set (iq_accepted q))"
  by (auto simp: enqueueIndex_def Let_def)

lemma schedule_accepted:
  "(k, j) \<in> set (iq_accepted (ss_index (snd (schedule closing pick key job s)))) \<Longrightarrow>
   (k, j) \<in> set (iq_accepted (ss_index s)) \<or> (k, j) = (key, job)"
  using enqueue_accepted [of closing pick key job "ss_index s"]
  by (auto simp: schedule_def rejectWork_def split: prod.splits bool.splits)

lemma other_accepted [simp]:
  "ss_index (protocolViolation s) = ss_index s" "ss_index (rejectShareOperation s) = ss_index s"
  "ss_index (rejectWork s) = ss_index s" "ss_index (ask share c s) = ss_index s"
  "ss_index (snd (acceptIndexAck a s)) = ss_index s"
  by (simp_all add: protocolViolation_def rejectShareOperation_def rejectWork_def ask_def acceptIndexAck_def
      Let_def split: option.split)

lemmas frame_handlers = handleIndexSyncRequestFrame_def handleIndexSnapshotBeginFrame_def
  handleIndexSnapshotBatchFrame_def handleIndexSnapshotEndFrame_def handleIndexDeltaBatchFrame_def
  handleIndexAckFrame_def handleIndexUpdateFrame_def

lemma frame_accepts: "accepted_serve s (snd (handle_index_frame closing pick now m s))"
  unfolding accepted_serve_def handle_index_frame_def frame_handlers Let_def
  by (auto split: message.splits option.splits sum.splits dest!: schedule_accepted)

lemma frame_inbound:
  assumes "\<And>a. m \<noteq> MIndexAck a"
  shows "\<exists>share. ss_store (snd (handle_index_frame closing pick now m s)) = ss_store s \<or>
           only_link (ss_peerID s) share (ss_store s) (ss_store (snd (handle_index_frame closing pick now m s))) \<and>
           acceptsInboundIndex s share"
proof (cases m)
  case (MIndexSnapshotBegin x)
  then show ?thesis by (auto simp: handle_index_frame_def handleIndexSnapshotBeginFrame_def)
next
  case (MIndexSnapshotBatch x)
  have "only_link (ss_peerID s) (st_ShareID x) (ss_store s) (SetCursor (ss_peerID s) (st_ShareID x) ''incoming'' c
          (StageSnapshotBatch (ss_peerID s) (st_ShareID x) i b fs (ss_store s)))" for c i b fs
    using only_link_stage only_link_cursor only_link_trans by blast
  then show ?thesis
    by (auto simp: MIndexSnapshotBatch handle_index_frame_def handleIndexSnapshotBatchFrame_def Let_def)
next
  case (MIndexSnapshotEnd x)
  then show ?thesis
    by (auto simp: handle_index_frame_def handleIndexSnapshotEndFrame_def Let_def only_link_commit split: option.split)
next
  case (MIndexDeltaBatch x)
  then show ?thesis
    by (auto simp: handle_index_frame_def handleIndexDeltaBatchFrame_def Let_def split: sum.split dest: only_link_delta)
qed (use assms in \<open>auto simp: handle_index_frame_def handleIndexSyncRequestFrame_def handleIndexUpdateFrame_def\<close>)

lemma ack_store:
  "ss_store (snd (handle_index_frame closing pick now (MIndexAck a) s)) = ss_store s \<or>
   (servesOutboundShare s (ia_ShareID a) \<and> (\<exists>x. fmlookup (ss_sentIndex s) (ia_ShareID a) = Some x \<and>
      ss_store (snd (handle_index_frame closing pick now (MIndexAck a) s)) =
        SetCursor (ss_peerID s) (ia_ShareID a) ''outgoing''
          (zero_cursor\<lparr>cu_Epoch := si_epoch x, cu_AppliedSeq := si_high x\<rparr>) (ss_store s)))"
  by (auto simp: handle_index_frame_def handleIndexAckFrame_def acceptIndexAck_def Let_def split: option.split)

lemma frame_effects: "\<exists>share. frame_effect s share (ss_store (snd (handle_index_frame closing pick now m s)))"
proof (cases "\<exists>a. m = MIndexAck a")
  case True
  then show ?thesis using ack_store [of closing pick now _ s] by (auto simp: frame_effect_def)
next
  case False
  then show ?thesis using frame_inbound [of m closing pick now s] unfolding frame_effect_def by blast
qed

lemma frame_effect_facts:
  assumes "frame_effect s share db'"
  shows "files db' = files (ss_store s)" "share_state db' = share_state (ss_store s)"
    "change_journal db' = change_journal (ss_store s)" "holds db' = holds (ss_store s)"
    "fmlookup (peer_files db') (pk, sh, p) = fmlookup (peer_files (ss_store s)) (pk, sh, p) \<or>
       (pk = ss_peerID s \<and> acceptsInboundIndex s sh)"
    "fmlookup (peer_cursors db') (pk, sh, d) = fmlookup (peer_cursors (ss_store s)) (pk, sh, d) \<or>
       (pk = ss_peerID s \<and> ((d = ''incoming'' \<and> acceptsInboundIndex s sh) \<or> (d = ''outgoing'' \<and> servesOutboundShare s sh)))"
proof -
  consider "db' = ss_store s" | "only_link (ss_peerID s) share (ss_store s) db'" "acceptsInboundIndex s share"
    | c where "servesOutboundShare s share" "db' = SetCursor (ss_peerID s) share ''outgoing'' c (ss_store s)"
    using assms by (auto simp: frame_effect_def)
  note cases = this
  show "files db' = files (ss_store s)" "share_state db' = share_state (ss_store s)"
    "change_journal db' = change_journal (ss_store s)" "holds db' = holds (ss_store s)"
    by (cases rule: cases; simp add: only_link_def SetCursor_def)+
  show "fmlookup (peer_files db') (pk, sh, p) = fmlookup (peer_files (ss_store s)) (pk, sh, p) \<or>
       (pk = ss_peerID s \<and> acceptsInboundIndex s sh)"
    by (cases rule: cases) (simp, (unfold only_link_def)[1], metis, simp add: SetCursor_def)
  show "fmlookup (peer_cursors db') (pk, sh, d) = fmlookup (peer_cursors (ss_store s)) (pk, sh, d) \<or>
       (pk = ss_peerID s \<and> ((d = ''incoming'' \<and> acceptsInboundIndex s sh) \<or> (d = ''outgoing'' \<and> servesOutboundShare s sh)))"
    by (cases rule: cases) (simp, (unfold only_link_def)[1], metis, auto simp: SetCursor_def)
qed

text \<open>
  C11. What a peer's index frame can change. Whatever frame arrives, valid or not, the node's
  own files, their journal and the holds stay as they are. Mirror rows and cursors change
  only under this session's peer and only for one share that is active on the session: an
  incoming cursor or a mirror row only where the share accepts changes from the peer, an
  outgoing cursor only where it serves the peer. A sync request is scheduled only for a
  share that serves the peer.
\<close>

theorem frames_stay_admitted:
  "let s' = snd (handle_index_frame closing pick now m s); db = ss_store s; db' = ss_store s';
       accepts = (\<lambda>sh. \<exists>cfg. getShare s sh = Some cfg \<and> \<not> InboundBlocked (scfg_Direction cfg));
       serves = (\<lambda>sh. \<exists>cfg. getShare s sh = Some cfg \<and> \<not> OutboundBlocked (scfg_Direction cfg)) in
     (files db', share_state db', change_journal db', holds db') = (files db, share_state db, change_journal db, holds db) \<and>
     (\<forall>pk sh p. fmlookup (peer_files db') (pk, sh, p) = fmlookup (peer_files db) (pk, sh, p) \<or>
                (pk = ss_peerID s \<and> accepts sh)) \<and>
     (\<forall>pk sh d. fmlookup (peer_cursors db') (pk, sh, d) = fmlookup (peer_cursors db) (pk, sh, d) \<or>
                (pk = ss_peerID s \<and> ((d = ''incoming'' \<and> accepts sh) \<or> (d = ''outgoing'' \<and> serves sh)))) \<and>
     {(key, req). (key, SyncJob req) \<in> set (iq_accepted (ss_index s'))} \<subseteq>
       {(key, req). (key, SyncJob req) \<in> set (iq_accepted (ss_index s))} \<union> {(key, req). serves (sr_ShareID req)}"
proof -
  let ?s' = "snd (handle_index_frame closing pick now m s)"
  have a: "acceptsInboundIndex s sh \<longleftrightarrow> (\<exists>cfg. getShare s sh = Some cfg \<and> \<not> InboundBlocked (scfg_Direction cfg))"
    "servesOutboundShare s sh \<longleftrightarrow> (\<exists>cfg. getShare s sh = Some cfg \<and> \<not> OutboundBlocked (scfg_Direction cfg))" for sh
    by (auto simp: acceptsInboundIndex_def servesOutboundShare_def split: option.splits)
  have "accepted_serve s ?s'" by (rule frame_accepts)
  moreover obtain share where "frame_effect s share (ss_store ?s')" using frame_effects by blast
  ultimately show ?thesis
    using frame_effect_facts [of s share "ss_store ?s'"] unfolding Let_def accepted_serve_def a [symmetric] by auto
qed


section \<open>What an answer puts on the wire\<close>

definition message_files :: "message \<Rightarrow> FileInfo list" where
  "message_files m = (case m of
       MIndexSnapshotBatch b \<Rightarrow> st_Files b
     | MIndexDeltaBatch d \<Rightarrow> map de_File (db_Entries d)
     | MIndexUpdate u \<Rightarrow> iu_Files u
     | _ \<Rightarrow> [])"

definition shows_nothing_ignored :: "ShareConfig \<Rightarrow> message \<Rightarrow> bool" where
  "shows_nothing_ignored cfg m =
     list_all (\<lambda>f. \<not> cfg_ignored cfg (fi_RelPath f) (fi_Type f = FileTypeDir)) (message_files m)"

text \<open>A callback is justified by its frame and, for a snapshot, by the frame that opened it.\<close>

definition justified :: "(message \<times> written_note) list \<Rightarrow> message \<times> written_note \<Rightarrow> bool" where
  "justified pre x = (case snd x of
       NoNote \<Rightarrow> True
     | DeltaNote share epoch high \<Rightarrow>
         (\<exists>d. fst x = MIndexDeltaBatch d \<and> db_ShareID d = share \<and> db_Epoch d = epoch \<and> db_ToSeq d = high)
     | SnapshotNote share epoch i high \<Rightarrow>
         (\<exists>n. fst x = MIndexSnapshotEnd \<lparr>se_ShareID = share, se_SnapshotID = i, se_BatchCount = n\<rparr>) \<and>
         MIndexSnapshotBegin \<lparr>sb_ShareID = share, sb_SnapshotID = i, sb_Epoch = epoch, sb_HighSeq = high\<rparr> \<in> fst ` set pre)"

definition notes_ok :: "(message \<times> written_note) list \<Rightarrow> bool" where
  "notes_ok xs \<longleftrightarrow> (\<forall>k < length xs. justified (take k xs) (xs ! k))"

lemma notes_ok_Nil [simp]: "notes_ok []" by (simp add: notes_ok_def)

lemma notes_ok_snoc [simp]: "notes_ok (xs @ [x]) \<longleftrightarrow> notes_ok xs \<and> justified xs x"
  by (auto simp: notes_ok_def nth_append All_less_Suc)

definition sends :: "ShareConfig \<Rightarrow> Session \<Rightarrow> Session \<Rightarrow> bool" where
  "sends cfg s s' \<longleftrightarrow>
     (\<exists>new f. s' = s\<lparr>ss_queue := ss_queue s @ new, ss_fuse := f\<rparr> \<and>
            (\<forall>x \<in> set new. shows_nothing_ignored cfg (fst x)) \<and> (\<forall>pre. notes_ok pre \<longrightarrow> notes_ok (pre @ new)))"

lemma sendsI:
  assumes "s' = s\<lparr>ss_queue := ss_queue s @ new, ss_fuse := f\<rparr>" "\<And>x. x \<in> set new \<Longrightarrow> shows_nothing_ignored cfg (fst x)"
    and "\<And>pre. notes_ok pre \<Longrightarrow> notes_ok (pre @ new)"
  shows "sends cfg s s'"
  using assms unfolding sends_def by blast

lemma sends_refl [simp]: "sends cfg s s" by (rule sendsI [where new = "[]" and f = "ss_fuse s"]) simp_all

lemma sends_trans:
  assumes "sends cfg a b" "sends cfg b c"
  shows "sends cfg a c"
proof -
  obtain x f where x: "b = a\<lparr>ss_queue := ss_queue a @ x, ss_fuse := f\<rparr>"
    "\<And>m. m \<in> set x \<Longrightarrow> shows_nothing_ignored cfg (fst m)" "\<And>pre. notes_ok pre \<Longrightarrow> notes_ok (pre @ x)"
    using assms(1) unfolding sends_def by blast
  obtain y g where y: "c = b\<lparr>ss_queue := ss_queue b @ y, ss_fuse := g\<rparr>"
    "\<And>m. m \<in> set y \<Longrightarrow> shows_nothing_ignored cfg (fst m)" "\<And>pre. notes_ok pre \<Longrightarrow> notes_ok (pre @ y)"
    using assms(2) unfolding sends_def by blast
  show ?thesis
  proof (rule sendsI [where new = "x @ y" and f = g])
    show "c = a\<lparr>ss_queue := ss_queue a @ x @ y, ss_fuse := g\<rparr>" by (simp add: y(1) x(1))
    show "notes_ok (pre @ x @ y)" if "notes_ok pre" for pre using y(3) [OF x(3) [OF that]] by simp
  qed (use x(2) y(2) in auto)
qed

lemma send_frame_sends:
  assumes "send_frame m note s = (b, s')" "shows_nothing_ignored cfg m" "\<And>pre. justified pre (m, note)"
  shows "sends cfg s s'"
  using assms by (cases b) (auto simp: send_frame_def split: if_splits intro!: sendsI [where new = "[(m, note)]" and f = "map_option (\<lambda>n. n - 1) (ss_fuse s)"])

lemma unnoted [simp]: "justified pre (m, NoNote)" by (simp add: justified_def)

lemma filtered_shown:
  "list_all (\<lambda>r. \<not> row_ignored cfg r) rows \<Longrightarrow>
   list_all (\<lambda>f. \<not> cfg_ignored cfg (fi_RelPath f) (fi_Type f = FileTypeDir)) (map Info rows)"
  by (auto simp: list_all_iff row_ignored_def)

lemma list_all_take_drop: "list_all P xs \<Longrightarrow> list_all P (take n xs) \<and> list_all P (drop n xs)"
  by (metis append_take_drop_id list_all_append)

lemma send_batches_sends:
  "list_all (\<lambda>r. \<not> row_ignored cfg r) rows \<Longrightarrow> sends cfg s (snd (send_batches cd share i b rows s))"
proof (induction cd share i b rows s rule: send_batches.induct)
  case (1 cd share i b rows s)
  let ?n = "snapshotBatchLen cd share i b rows"
  let ?m = "MIndexSnapshotBatch \<lparr>st_ShareID = share, st_SnapshotID = i, st_Batch = b, st_Files = map Info (take ?n rows)\<rparr>"
  note sub = list_all_take_drop [OF 1(2), of ?n]
  obtain k s1 where w: "send_frame ?m NoNote s = (k, s1)" by force
  have "shows_nothing_ignored cfg ?m"
    using filtered_shown [of cfg "take ?n rows"] sub by (simp add: shows_nothing_ignored_def message_files_def)
  then have 2: "sends cfg s s1" using send_frame_sends [OF w] by simp
  show ?case
  proof (cases "rows = [] \<or> ?n = 0 \<or> \<not> k")
    case True
    then show ?thesis using 2 by (subst send_batches.simps) (auto simp: Let_def w)
  next
    case False
    then have "sends cfg s1 (snd (send_batches cd share i (b + 1) (drop ?n rows) s1))"
      using 1(1) [OF _ refl _ w [symmetric]] sub by simp
    then show ?thesis using 2 False sends_trans by (subst send_batches.simps) (auto simp: Let_def w)
  qed
qed

lemma send_page_sends:
  "\<not> journalHasIgnored cfg page \<Longrightarrow> sends cfg s (snd (send_page cd share e page s))"
proof (induction cd share e page s rule: send_page.induct)
  case (1 cd share e page s)
  let ?n = "deltaBatchLen cd share e page"
  let ?m = "delta_batch share e (take ?n page)"
  have sub: "list_all (\<lambda>j. \<not> row_ignored cfg (jr_Row j)) page" using 1(2)
    by (simp add: journalHasIgnored_def list_ex_iff list_all_iff)
  note sub = list_all_take_drop [OF this, of ?n]
  obtain k s1 where w: "send_frame (MIndexDeltaBatch ?m) (DeltaNote share e (db_ToSeq ?m)) s = (k, s1)" by force
  have "shows_nothing_ignored cfg (MIndexDeltaBatch ?m)"
    using sub by (auto simp: shows_nothing_ignored_def message_files_def delta_batch_def delta_entry_def list_all_iff row_ignored_def)
  then have 2: "sends cfg s s1"
    using send_frame_sends [OF w] by (simp add: justified_def delta_batch_def)
  show ?case
  proof (cases "page = [] \<or> ?n = 0 \<or> \<not> k")
    case True
    then show ?thesis using 2 by (subst send_page.simps) (auto simp: Let_def w)
  next
    case False
    then have "sends cfg s1 (snd (send_page cd share e (drop ?n page) s1))"
      using 1(1) [OF _ refl _ refl w [symmetric]] sub by (simp add: journalHasIgnored_def list_ex_iff list_all_iff)
    then show ?thesis using 2 False sends_trans by (subst send_page.simps) (auto simp: Let_def w)
  qed
qed

lemma sendJournalDeltas_sends: "sends cfg s (snd (sendJournalDeltas cd k cfg e a db s))"
proof (induction cd k cfg e a db s rule: sendJournalDeltas.induct)
  case (1 cd k cfg e a db s)
  let ?rows = "JournalSince (scfg_ShareID cfg) e a k db"
  obtain r s1 where p: "send_page cd (scfg_ShareID cfg) e ?rows s = (r, s1)" by force
  show ?case
  proof (cases "?rows = [] \<or> journalHasIgnored cfg ?rows")
    case True
    then show ?thesis by (subst sendJournalDeltas.simps) (auto simp: Let_def)
  next
    case False
    then have 2: "sends cfg s s1" using send_page_sends [of cfg ?rows s cd "scfg_ShareID cfg" e] p by simp
    have "sends cfg s1 (snd (sendJournalDeltas cd k cfg e (jr_Seq (last ?rows)) db s1))"
      if "r = None" "\<not> length ?rows < k" using 1 [OF refl refl] False that p by metis
    then show ?thesis using 2 False sends_trans
      by (subst sendJournalDeltas.simps) (auto simp: Let_def p split: option.split)
  qed
qed


lemma send_snapshot_sends:
  assumes "list_all (\<lambda>r. \<not> row_ignored cfg r) rows"
  shows "sends cfg s (snd (send_snapshot cd share i epoch high rows s))"
proof -
  let ?b = "MIndexSnapshotBegin \<lparr>sb_ShareID = share, sb_SnapshotID = i, sb_Epoch = epoch, sb_HighSeq = of_nat high\<rparr>"
  obtain k s1 where w: "send_frame ?b NoNote s = (k, s1)" by force
  have 1: "sends cfg s s1"
    using send_frame_sends [OF w] by (simp add: shows_nothing_ignored_def message_files_def)
  obtain r s2 where b: "send_batches cd share i 0 rows s1 = (r, s2)" by force
  have 2: "sends cfg s1 s2" using send_batches_sends [OF assms, of s1 cd share i 0] b by simp
  let ?e = "\<lambda>n. MIndexSnapshotEnd \<lparr>se_ShareID = share, se_SnapshotID = i, se_BatchCount = n\<rparr>"
  have 3: "sends cfg s (snd (send_frame (?e n) (SnapshotNote share epoch i (of_nat high)) s2))" if "k" for n
  proof -
    obtain x f where x: "s2 = s1\<lparr>ss_queue := ss_queue s1 @ x, ss_fuse := f\<rparr>"
      "\<And>m. m \<in> set x \<Longrightarrow> shows_nothing_ignored cfg (fst m)" "\<And>pre. notes_ok pre \<Longrightarrow> notes_ok (pre @ x)"
      using 2 unfolding sends_def by blast
    have s1: "s1 = s\<lparr>ss_queue := ss_queue s @ [(?b, NoNote)], ss_fuse := map_option (\<lambda>n. n - 1) (ss_fuse s)\<rparr>"
      using w that by (auto simp: send_frame_def split: if_splits)
    show ?thesis
    proof (cases "ss_fuse s2 = Some 0")
      case True
      then show ?thesis using sends_trans [OF 1 2] by (simp add: send_frame_def)
    next
      case False
      let ?x = "(?b, NoNote) # x @ [(?e n, SnapshotNote share epoch i (of_nat high))]"
      have "notes_ok (pre @ ?x)" if "notes_ok pre" for pre
      proof -
        have "notes_ok ((pre @ [(?b, NoNote)]) @ x)" by (rule x(3)) (simp add: that)
        moreover have "justified ((pre @ [(?b, NoNote)]) @ x) (?e n, SnapshotNote share epoch i (of_nat high))"
          by (simp add: justified_def)
        ultimately have "notes_ok (((pre @ [(?b, NoNote)]) @ x) @ [(?e n, SnapshotNote share epoch i (of_nat high))])"
          by (simp del: append_assoc)
        then show ?thesis by simp
      qed
      then show ?thesis
        using False x(2)
        by (intro sendsI [where new = ?x and f = "map_option (\<lambda>n. n - 1) (ss_fuse s2)"])
          (auto simp: send_frame_def x(1) s1 shows_nothing_ignored_def message_files_def)
    qed
  qed
  have 12: "sends cfg s s2" by (rule sends_trans [OF 1 2])
  show ?thesis
  proof (cases k)
    case False
    then show ?thesis using 1 by (simp add: send_snapshot_def w)
  next
    case True
    show ?thesis
    proof (cases r)
      case (Inl e)
      then show ?thesis using 12 True by (simp add: send_snapshot_def w b)
    next
      case (Inr n)
      obtain k3 s3 where e: "send_frame (?e n) (SnapshotNote share epoch i (of_nat high)) s2 = (k3, s3)" by force
      then have "sends cfg s s3" using 3 [OF True, of n] by simp
      then show ?thesis using True by (cases k3) (simp_all add: send_snapshot_def w b Inr e)
    qed
  qed
qed

lemma answer_sends:
  assumes "getShare s (sr_ShareID req) = Some cfg" "servesOutboundShare s (sr_ShareID req)"
  shows "sends cfg (s\<lparr>ss_store := snd (ShareState fresh (sr_ShareID req) (ss_store s))\<rparr>)
           (snd (answerSyncRequest cd k fresh i req s))"
proof -
  let ?share = "sr_ShareID req"
  obtain epoch high db where st: "ShareState fresh ?share (ss_store s) = ((epoch, high), db)" by (metis surj_pair)
  let ?rows = "filterIgnoredRows cfg (ListShare ?share True db)" and ?s0 = "s\<lparr>ss_store := db\<rparr>"
  have r: "list_all (\<lambda>r. \<not> row_ignored cfg r) ?rows" by (simp add: filterIgnoredRows_def list_all_iff)
  have full: "sends cfg s1 (snd (send_snapshot cd ?share i epoch high ?rows s1))" for s1
    by (rule send_snapshot_sends [OF r])
  obtain x s1 where d: "sendJournalDeltas cd k cfg epoch (unat (sr_AppliedSeq req)) db ?s0 = (x, s1)" by force
  have 1: "sends cfg ?s0 s1" using sendJournalDeltas_sends [of cfg ?s0] d by (metis snd_conv)
  note eqs = answerSyncRequest_def Let_def assms st d
  show ?thesis
  proof (cases "canAnswerWithDeltas req epoch (of_nat high) (of_nat (OldestJournalSeq ?share epoch db))")
    case False
    then show ?thesis using full by (simp add: eqs)
  next
    case True
    then show ?thesis
    proof (cases x)
      case (Inr complete)
      then show ?thesis using True 1 sends_trans [OF 1 full] by (cases complete) (simp_all add: eqs)
    qed (use True 1 in \<open>simp add: eqs\<close>)
  qed
qed

text \<open>
  An answer never shows what the share hides. Every frame an answer to a sync request
  hands to the writer leaves out every path that the share's ignore rules match, whichever
  of the answers is given and wherever it breaks off; and a request for a share that is not
  active on the session, or may not be served to the peer, is refused with nothing written
  and nothing changed.
\<close>

theorem answer_hides_ignored:
  assumes "answerSyncRequest cd k fresh i req s = (r, s')"
  shows "(\<exists>cfg. getShare s (sr_ShareID req) = Some cfg \<and> \<not> OutboundBlocked (scfg_Direction cfg) \<and>
            (\<exists>new. ss_queue s' = ss_queue s @ new \<and> (\<forall>x \<in> set new. shows_nothing_ignored cfg (fst x)))) \<or>
         (r = Some InactiveShare \<and> s' = s \<and> \<not> servesOutboundShare s (sr_ShareID req))"
proof (cases "servesOutboundShare s (sr_ShareID req)")
  case False
  then show ?thesis using assms by (simp add: answerSyncRequest_def)
next
  case True
  then obtain cfg where cfg: "getShare s (sr_ShareID req) = Some cfg" "\<not> OutboundBlocked (scfg_Direction cfg)"
    by (auto simp: servesOutboundShare_def split: option.splits)
  then show ?thesis using answer_sends [OF cfg(1) True, of fresh cd k i] assms by (auto simp: sends_def)
qed

section \<open>Acknowledgements\<close>

inductive session_step :: "codec \<Rightarrow> Session \<Rightarrow> Session \<Rightarrow> bool" for cd where
  frame: "session_step cd s (snd (handle_index_frame closing pick now m s))"
| answer: "session_step cd s (snd (answerSyncRequest cd k fresh i req s))"
| written: "session_step cd s (write_next s)"
| share: "session_step cd s (AddShare cfg s)"
| local: "session_step cd s (s\<lparr>ss_store := apply_write w (ss_store s)\<rparr>)"
| worker: "session_step cd s (s\<lparr>ss_index := q\<rparr>)"

inductive_cases session_stepE: "session_step cd s s'"

definition written_endpoint :: "(message \<times> written_note) list \<Rightarrow> string \<Rightarrow> string \<Rightarrow> 64 word \<Rightarrow> bool" where
  "written_endpoint wire share epoch seq \<longleftrightarrow>
     (\<exists>d. MIndexDeltaBatch d \<in> fst ` set wire \<and> db_ShareID d = share \<and> db_Epoch d = epoch \<and> db_ToSeq d = seq) \<or>
     (\<exists>i n. MIndexSnapshotBegin \<lparr>sb_ShareID = share, sb_SnapshotID = i, sb_Epoch = epoch, sb_HighSeq = seq\<rparr> \<in> fst ` set wire \<and>
            MIndexSnapshotEnd \<lparr>se_ShareID = share, se_SnapshotID = i, se_BatchCount = n\<rparr> \<in> fst ` set wire)"

definition out_cursor :: "Session \<Rightarrow> string \<Rightarrow> Cursor" where
  "out_cursor s share = get_cursor (ss_peerID s) share ''outgoing'' (ss_store s)"

definition ack_inv :: "(string \<Rightarrow> Cursor) \<Rightarrow> Session \<Rightarrow> bool" where
  "ack_inv start s \<longleftrightarrow>
     notes_ok (ss_wire s @ ss_queue s) \<and>
     (\<forall>share x. fmlookup (ss_sentIndex s) share = Some x \<longrightarrow> written_endpoint (ss_wire s) share (si_epoch x) (si_high x)) \<and>
     (\<forall>share. out_cursor s share = start share \<or>
              written_endpoint (ss_wire s) share (cu_Epoch (out_cursor s share)) (cu_AppliedSeq (out_cursor s share)))"


lemma notes_ok_quiet: "notes_ok xs \<Longrightarrow> \<forall>x \<in> set ys. snd x = NoNote \<Longrightarrow> notes_ok (xs @ ys)"
proof (induction ys rule: rev_induct)
  case (snoc y ys)
  then have "notes_ok ((xs @ ys) @ [y])" by (cases y) (simp del: append_assoc)
  then show ?case by simp
qed simp

definition quiet :: "Session \<Rightarrow> Session \<Rightarrow> bool" where
  "quiet s s' \<longleftrightarrow>
     ss_wire s' = ss_wire s \<and> ss_sentIndex s' = ss_sentIndex s \<and> ss_peerID s' = ss_peerID s \<and>
     (\<exists>new. ss_queue s' = ss_queue s @ new \<and> (\<forall>x \<in> set new. snd x = NoNote))"

lemma quiet_refl [simp]: "quiet s s" by (simp add: quiet_def)

lemma quiet_trans: "quiet a b \<Longrightarrow> quiet b c \<Longrightarrow> quiet a c" by (fastforce simp: quiet_def)

lemma quiet_steps [simp]:
  "quiet s (protocolViolation s)" "quiet s (rejectShareOperation s)" "quiet s (rejectWork s)"
  "quiet s (ask share c s)" "quiet s (acknowledge share e q i s)" "quiet s (snd (schedule closing pick key job s))"
  by (auto simp: quiet_def ask_def acknowledge_def send_frame_def)

lemma quiet_store [simp]: "quiet s (s\<lparr>ss_store := db\<rparr>)" "quiet s (s\<lparr>ss_snapshots := sn\<rparr>)" "quiet s (s\<lparr>ss_index := q\<rparr>)"
  by (simp_all add: quiet_def)

lemma quiet_accept: "quiet s (snd (acceptIndexAck a s))"
  by (simp add: acceptIndexAck_def Let_def quiet_def split: option.split)

lemma quiet_commit:
  "quiet s (snd (schedule closing pick key job (acknowledge share e q i (s\<lparr>ss_snapshots := sn, ss_store := db\<rparr>))))"
  "quiet s (snd (schedule closing pick key job (acknowledge share e q i (s\<lparr>ss_store := db\<rparr>))))"
  by (rule quiet_trans [OF _ quiet_steps(6)], rule quiet_trans [OF _ quiet_steps(5)], simp add: quiet_def)+

lemma frame_quiet: "quiet s (snd (handle_index_frame closing pick now m s))"
  unfolding handle_index_frame_def frame_handlers Let_def
  by (auto simp: quiet_commit quiet_accept split: message.split option.split sum.split)
    (auto simp: quiet_def protocolViolation_def rejectShareOperation_def)

lemma frame_out_cursor:
  "out_cursor (snd (handle_index_frame closing pick now m s)) share = out_cursor s share \<or>
   (\<exists>x. fmlookup (ss_sentIndex s) share = Some x \<and>
        cu_Epoch (out_cursor (snd (handle_index_frame closing pick now m s)) share) = si_epoch x \<and>
        cu_AppliedSeq (out_cursor (snd (handle_index_frame closing pick now m s)) share) = si_high x)"
proof -
  have p: "ss_peerID (snd (handle_index_frame closing pick now m s)) = ss_peerID s"
    using frame_quiet by (simp add: quiet_def)
  show ?thesis
  proof (cases "\<exists>a. m = MIndexAck a")
    case True
    then obtain a where a: "m = MIndexAck a" by blast
    show ?thesis
      using ack_store [of closing pick now a s] unfolding out_cursor_def p [unfolded a] a
      by (elim disjE conjE exE) (auto simp: SetCursor_def get_cursor_def)
  next
    case False
    then obtain sh where "ss_store (snd (handle_index_frame closing pick now m s)) = ss_store s \<or>
        only_link (ss_peerID s) sh (ss_store s) (ss_store (snd (handle_index_frame closing pick now m s)))"
      using frame_inbound [of m closing pick now s] by blast
    then have "fmlookup (peer_cursors (ss_store (snd (handle_index_frame closing pick now m s)))) (ss_peerID s, share, ''outgoing'')
        = fmlookup (peer_cursors (ss_store s)) (ss_peerID s, share, ''outgoing'')"
      using only_link_out by (elim disjE) (simp, blast)
    then show ?thesis by (simp add: out_cursor_def get_cursor_def p)
  qed
qed

lemma written_endpoint_mono:
  "written_endpoint w share e q \<Longrightarrow> set w \<subseteq> set w' \<Longrightarrow> written_endpoint w' share e q"
proof -
  assume w: "written_endpoint w share e q" and "set w \<subseteq> set w'"
  then have sub: "fst ` set w \<subseteq> fst ` set w'" by (intro image_mono)
  from w [unfolded written_endpoint_def] show "written_endpoint w' share e q"
  proof (elim disjE exE conjE)
    fix d assume "MIndexDeltaBatch d \<in> fst ` set w" "db_ShareID d = share" "db_Epoch d = e" "db_ToSeq d = q"
    then show ?thesis using subsetD [OF sub] unfolding written_endpoint_def by (intro disjI1) blast
  next
    fix i n assume "MIndexSnapshotBegin \<lparr>sb_ShareID = share, sb_SnapshotID = i, sb_Epoch = e, sb_HighSeq = q\<rparr> \<in> fst ` set w"
      "MIndexSnapshotEnd \<lparr>se_ShareID = share, se_SnapshotID = i, se_BatchCount = n\<rparr> \<in> fst ` set w"
    then show ?thesis using subsetD [OF sub] unfolding written_endpoint_def by (intro disjI2) blast
  qed
qed

lemma quiet_inv:
  assumes "ack_inv start s" "quiet s s'" "\<And>share. out_cursor s' share = out_cursor s share \<or>
      (\<exists>x. fmlookup (ss_sentIndex s) share = Some x \<and> cu_Epoch (out_cursor s' share) = si_epoch x \<and>
           cu_AppliedSeq (out_cursor s' share) = si_high x)"
  shows "ack_inv start s'"
proof -
  obtain new where n: "ss_queue s' = ss_queue s @ new" "\<forall>x \<in> set new. snd x = NoNote"
    and f: "ss_wire s' = ss_wire s" "ss_sentIndex s' = ss_sentIndex s" using assms(2) by (auto simp: quiet_def)
  have "notes_ok (ss_wire s' @ ss_queue s')"
    using notes_ok_quiet [of "ss_wire s @ ss_queue s" new] assms(1) n f by (simp add: ack_inv_def)
  then show ?thesis using assms(1,3) f unfolding ack_inv_def by metis
qed

lemma sends_inv:
  assumes "ack_inv start s" "sends cfg (s\<lparr>ss_store := db\<rparr>) s'" "peer_cursors db = peer_cursors (ss_store s)"
  shows "ack_inv start s'"
proof -
  obtain new f where s': "s' = s\<lparr>ss_store := db, ss_queue := ss_queue s @ new, ss_fuse := f\<rparr>"
    and n: "\<And>pre. notes_ok pre \<Longrightarrow> notes_ok (pre @ new)" using assms(2) by (auto simp: sends_def)
  have "out_cursor s' = out_cursor s" using assms(3) by (simp add: s' out_cursor_def get_cursor_def fun_eq_iff)
  then show ?thesis using assms(1) n [of "ss_wire s @ ss_queue s"] unfolding ack_inv_def by (simp add: s')
qed

lemma run_note_fields [simp]:
  "ss_queue (run_note n s) = ss_queue s" "ss_wire (run_note n s) = ss_wire s" "ss_store (run_note n s) = ss_store s"
  "ss_peerID (run_note n s) = ss_peerID s"
  by (simp_all add: run_note_def noteSnapshotWritten_def noteDeltaWritten_def note_sent_def Let_def split: written_note.split)

lemma run_note_sent:
  assumes "fmlookup (ss_sentIndex (run_note n s)) share = Some x" "fmlookup (ss_sentIndex s) share \<noteq> Some x"
  shows "n = SnapshotNote share (si_epoch x) (si_snapshotID x) (si_high x) \<or> n = DeltaNote share (si_epoch x) (si_high x)"
  using assms by (cases n) (auto simp: run_note_def noteSnapshotWritten_def noteDeltaWritten_def note_sent_def Let_def split: if_splits)

lemma write_next_inv:
  assumes "ack_inv start s"
  shows "ack_inv start (write_next s)"
proof (cases "ss_queue s")
  case (Cons y rest)
  obtain m n where y: "y = (m, n)" by force
  let ?s' = "write_next s" and ?w = "ss_wire s @ [(m, n)]"
  have w: "ss_wire ?s' = ?w" "ss_queue ?s' = rest" "out_cursor ?s' = out_cursor s"
    "ss_sentIndex ?s' = ss_sentIndex (run_note n (s\<lparr>ss_queue := rest, ss_wire := ?w\<rparr>))"
    by (simp_all add: write_next_def Cons y out_cursor_def fun_eq_iff)
  have nk: "notes_ok (ss_wire s @ (m, n) # rest)" using assms by (simp add: ack_inv_def Cons y)
  then have "justified (ss_wire s) (m, n)"
    unfolding notes_ok_def by (elim allE [of _ "length (ss_wire s)"]) simp
  then have new1: "n = SnapshotNote share e i q \<Longrightarrow> written_endpoint ?w share e q"
    and new2: "n = DeltaNote share e q \<Longrightarrow> written_endpoint ?w share e q" for share e i q
    unfolding written_endpoint_def justified_def by auto
  have mono: "written_endpoint (ss_wire s) share e q \<Longrightarrow> written_endpoint ?w share e q" for share e q
    by (rule written_endpoint_mono) auto
  have "written_endpoint ?w share (si_epoch x) (si_high x)" if "fmlookup (ss_sentIndex ?s') share = Some x" for share x
  proof (cases "fmlookup (ss_sentIndex s) share = Some x")
    case True
    then show ?thesis using assms written_endpoint_mono [of "ss_wire s" share _ _ ?w] by (auto simp: ack_inv_def)
  next
    case False
    then show ?thesis using new1 new2 run_note_sent [OF that [unfolded w(4)]] by auto
  qed
  moreover have "out_cursor s share = start share \<or>
      written_endpoint ?w share (cu_Epoch (out_cursor s share)) (cu_AppliedSeq (out_cursor s share))" for share
    using assms mono unfolding ack_inv_def by blast
  ultimately show ?thesis using nk unfolding ack_inv_def w by simp
qed (use assms in \<open>simp add: write_next_def\<close>)


lemma apply_write_cursors: "peer_cursors (apply_write w db) = peer_cursors db"
proof -
  have put: "putFileAndJournal fresh now r d = Inr d' \<Longrightarrow> peer_cursors d' = peer_cursors d" for fresh now r d d'
    by (auto simp: putFileAndJournal_def Let_def split: option.splits prod.splits if_splits)
  have rows: "put_rows fresh now rs d = Inr d' \<Longrightarrow> peer_cursors d' = peer_cursors d" for fresh now rs d d'
    by (induction rs arbitrary: d) (auto split: sum.splits dest: put)
  show ?thesis
    by (cases w) (auto simp: PutFile_def ApplyScanResult_def split: sum.split dest: put rows)
qed

lemma ack_inv_step:
  assumes "session_step cd s s'" "ack_inv start s"
  shows "ack_inv start s'"
  using assms(1)
proof (cases rule: session_step.cases)
  case (frame closing pick now m)
  then show ?thesis using quiet_inv [OF assms(2) frame_quiet] frame_out_cursor by blast
next
  case (answer k fresh i req)
  show ?thesis
  proof (cases "servesOutboundShare s (sr_ShareID req)")
    case True
    then obtain cfg where "getShare s (sr_ShareID req) = Some cfg"
      by (auto simp: servesOutboundShare_def split: option.splits)
    from answer_sends [OF this True] show ?thesis unfolding answer
      by (rule sends_inv [OF assms(2)]) (simp add: ShareState_def Let_def split: option.split prod.split)
  qed (use assms(2) answer in \<open>simp add: answerSyncRequest_def\<close>)
next
  case written
  then show ?thesis using write_next_inv [OF assms(2)] by simp
next
  case (share cfg)
  then show ?thesis using assms(2) by (simp add: ack_inv_def AddShare_def out_cursor_def)
next
  case (local w)
  then show ?thesis using assms(2) by (simp add: ack_inv_def out_cursor_def get_cursor_def apply_write_cursors)
next
  case (worker q)
  then show ?thesis using assms(2) by (simp add: ack_inv_def out_cursor_def)
qed

definition new_session :: "string \<Rightarrow> string \<Rightarrow> store \<Rightarrow> Session" where
  "new_session nodeID peerID db =
     \<lparr>ss_nodeID = nodeID, ss_peerID = peerID, ss_store = db, ss_shares = fmempty, ss_snapshots = fmempty,
      ss_sentIndex = fmempty, ss_index = new_queue, ss_indexSem = 0, ss_updates = [], ss_queue = [], ss_wire = [],
      ss_fuse = None, ss_open = True, ss_warnings = [], ss_protocolViolations = 0, ss_rejectedShareOperations = 0,
      ss_rejectedWork = 0\<rparr>"

interpretation acks: kept_by_steps "session_step cd" "ack_inv start" for cd start
  by unfold_locales (rule ack_inv_step)

text \<open>
  C14. Only what was written is acknowledged. In every state a new session can reach, with
  any frames from the peer, valid or forged, any answers, shares and local changes in any
  order, the outgoing cursor of a share is the one the session started with, or stands at
  the end of a delta batch of that share that this session put on the wire, or at the high
  mark of a snapshot of that share whose first and last frames it put on the wire.
\<close>

theorem acks_only_written:
  assumes "(session_step cd)\<^sup>*\<^sup>* (new_session nodeID peerID db) s"
  shows "out_cursor s share = get_cursor peerID share ''outgoing'' db \<or>
         written_endpoint (ss_wire s) share (cu_Epoch (out_cursor s share)) (cu_AppliedSeq (out_cursor s share))"
proof -
  have "ack_inv (\<lambda>sh. get_cursor peerID sh ''outgoing'' db) s"
    using assms by (rule acks.reachable) (simp add: new_session_def ack_inv_def out_cursor_def)
  then show ?thesis by (simp add: ack_inv_def)
qed


section \<open>A concrete exchange\<close>

text \<open>A codec with entries of a fixed size, the sender of the index database and its share.\<close>

definition ex_codec :: codec where
  "ex_codec = \<lparr>cd_message = (\<lambda>m. Some (replicate (50 + 110 * length (message_files m)) 0)),
     cd_file = (\<lambda>f. Some (replicate 110 0)), cd_entry = (\<lambda>e. Some (replicate 110 0))\<rparr>"

definition ex_share :: ShareConfig where
  "ex_share = \<lparr>scfg_ShareID = ''s'', scfg_Root = ''/s'',
     scfg_Direction = \<lparr>InboundBlocked = False, OutboundBlocked = False\<rparr>, scfg_Ignore = None\<rparr>"

definition ex_serving :: Session where
  "ex_serving = AddShare ex_share (new_session ''bbbbbbbbbbbbbbbb'' ''p'' ex_sender)"

definition ex_request :: IndexSyncRequest where
  "ex_request = \<lparr>sr_ShareID = ''s'', sr_Epoch = [], sr_AppliedSeq = 0, sr_SnapshotID = [], sr_SnapshotBatch = 0\<rparr>"

definition ex_answered :: Session where
  "ex_answered = ex_serving\<lparr>ss_queue :=
     [(MIndexSnapshotBegin \<lparr>sb_ShareID = ''s'', sb_SnapshotID = ''i'', sb_Epoch = ''epoch'', sb_HighSeq = 1\<rparr>, NoNote),
      (MIndexSnapshotBatch \<lparr>st_ShareID = ''s'', st_SnapshotID = ''i'', st_Batch = 0,
         st_Files = [ex_file ''a.txt'' 1 5 ex_va]\<rparr>, NoNote),
      (MIndexSnapshotEnd \<lparr>se_ShareID = ''s'', se_SnapshotID = ''i'', se_BatchCount = 1\<rparr>,
         SnapshotNote ''s'' ''epoch'' ''i'' 1)]\<rparr>"

lemma ex_plan: "snapshotBatchLen ex_codec share i b [r] = 1"
  by (simp add: snapshotBatchLen_def EncodedMessageSize_def EncodedEntrySize_def ex_codec_def message_files_def
      batchArrayHeaderSlack_def TargetIndexBatchSize_def)

lemma ex_answer: "answerSyncRequest ex_codec 2 ''x'' ''i'' ex_request ex_serving = (ok, ex_answered)"
proof -
  have st: "ShareState ''x'' ''s'' ex_sender = ((''epoch'', 1), ex_sender)" by code_simp
  have l: "ListShare ''s'' True ex_sender = [ex_row ''a.txt'']" by code_simp
  have serve: "servesOutboundShare ex_serving ''s''" "getShare ex_serving ''s'' = Some ex_share"
    "ss_store ex_serving = ex_sender" "ss_fuse ex_serving = None" "ss_queue ex_serving = []"
    "ex_serving\<lparr>ss_store := ex_sender\<rparr> = ex_serving" "ex_serving\<lparr>ss_queue := q, ss_fuse := None\<rparr> = ex_serving\<lparr>ss_queue := q\<rparr>" for q
    by (simp_all add: servesOutboundShare_def getShare_def ex_serving_def AddShare_def new_session_def ex_share_def)
  have row: "filterIgnoredRows ex_share [ex_row ''a.txt''] = [ex_row ''a.txt'']" "Info (ex_row ''a.txt'') = ex_file ''a.txt'' 1 5 ex_va"
    by (simp_all add: filterIgnoredRows_def row_ignored_def cfg_ignored_def ex_share_def ex_row_def)
  have nd: "\<not> canAnswerWithDeltas ex_request ''epoch'' h old" for h old
    by (simp add: canAnswerWithDeltas_def ex_request_def)
  have batches: "send_batches ex_codec ''s'' ''i'' 0 [ex_row ''a.txt''] s = (Inr 1, s\<lparr>ss_queue := ss_queue s @
      [(MIndexSnapshotBatch \<lparr>st_ShareID = ''s'', st_SnapshotID = ''i'', st_Batch = 0,
         st_Files = [ex_file ''a.txt'' 1 5 ex_va]\<rparr>, NoNote)]\<rparr>)" if "ss_fuse s = None" for s
    using that by (simp add: send_batches.simps [of _ _ _ _ "[ex_row ''a.txt'']"] send_batches.simps [of _ _ _ _ "[]"]
        ex_plan send_frame_def row)
  have "sr_ShareID ex_request = ''s''" by (simp add: ex_request_def)
  then show ?thesis
    by (simp add: answerSyncRequest_def Let_def serve st l row nd send_snapshot_def send_frame_def batches ex_answered_def)
qed

definition ex_acked :: Session where
  "ex_acked = snd (handle_index_frame False False 0
     (MIndexAck \<lparr>ia_ShareID = ''s'', ia_Epoch = ''epoch'', ia_AppliedSeq = 1, ia_SnapshotID = ''i'', ia_Replay = False\<rparr>)
     (write_next (write_next (write_next ex_answered))))"

theorem answer_hides_ignored_witness:
  "length (ss_queue ex_answered) = 3 \<and> servesOutboundShare ex_serving ''s'' \<and>
   (\<exists>new. ss_queue ex_answered = ss_queue ex_serving @ new)"
proof -
  have "length (ss_queue ex_answered) = 3" "servesOutboundShare ex_serving ''s''" by code_simp+
  then show ?thesis using answer_hides_ignored [OF ex_answer] by auto
qed

theorem acks_only_written_witness:
  "(session_step ex_codec)\<^sup>*\<^sup>* (new_session ''bbbbbbbbbbbbbbbb'' ''p'' ex_sender) ex_acked \<and>
   out_cursor ex_acked ''s'' \<noteq> get_cursor ''p'' ''s'' ''outgoing'' ex_sender \<and>
   written_endpoint (ss_wire ex_acked) ''s'' ''epoch'' 1"
proof -
  let ?w = "write_next (write_next (write_next ex_answered))"
  have "session_step ex_codec (new_session ''bbbbbbbbbbbbbbbb'' ''p'' ex_sender) ex_serving"
    unfolding ex_serving_def by (rule session_step.share)
  moreover have "session_step ex_codec ex_serving ex_answered" using session_step.answer [of ex_codec ex_serving 2 "''x''" "''i''" ex_request] by (simp add: ex_answer)
  moreover have "(session_step ex_codec)\<^sup>*\<^sup>* ex_answered ?w"
    by (meson rtranclp.rtrancl_into_rtrancl rtranclp.rtrancl_refl session_step.written)
  moreover have "session_step ex_codec ?w ex_acked" unfolding ex_acked_def by (rule session_step.frame)
  ultimately have r: "(session_step ex_codec)\<^sup>*\<^sup>* (new_session ''bbbbbbbbbbbbbbbb'' ''p'' ex_sender) ex_acked"
    by (meson converse_rtranclp_into_rtranclp rtranclp.rtrancl_into_rtrancl)
  have c: "out_cursor ex_acked ''s'' = zero_cursor\<lparr>cu_Epoch := ''epoch'', cu_AppliedSeq := 1\<rparr>"
    "get_cursor ''p'' ''s'' ''outgoing'' ex_sender = zero_cursor" by code_simp+
  then have "out_cursor ex_acked ''s'' \<noteq> get_cursor ''p'' ''s'' ''outgoing'' ex_sender" by (simp add: zero_cursor_def)
  with acks_only_written [OF r, of "''s''"] r c show ?thesis by (simp add: zero_cursor_def)
qed

end
