(* ===== verification/IndexExchange.thy ===== *)
theory IndexExchange
  imports IndexSync
begin

text \<open>
  One whole exchange of the index protocol, end to end: the receiver's sync request, the
  sender's answer (\<open>answerSyncRequest\<close>), and the receiver's handlers for every frame of it.

  The assumptions about the CBOR codec are collected in \<open>codec_ok\<close>: encoding succeeds, an
  entry takes at least the 48 bytes its field names alone need and at most a megabyte, the
  envelope of a batch is small, and a message is at most its empty envelope, eight bytes
  for the array header and its entries (the claim of \<open>batchArrayHeaderSlack\<close>'s comment).

  The results: every frame of an answer is accepted by the receiver's validation and fits a
  frame; after the exchange the mirror agrees with the sender; a journal with a hole and an
  oversized tombstone each stop the exchange.
\<close>

lemma of_nat64_inj: "(of_nat x :: 64 word) = of_nat y \<Longrightarrow> x < 2 ^ 64 \<Longrightarrow> y < 2 ^ 64 \<Longrightarrow> x = y"
proof -
  assume "(of_nat x :: 64 word) = of_nat y" and b: "x < 2 ^ 64" "y < 2 ^ 64"
  then have "unat (of_nat x :: 64 word) = unat (of_nat y :: 64 word)" by simp
  then show "x = y" using b by (simp add: unat_of_nat)
qed

section \<open>The codec\<close>

definition msg_len :: "codec \<Rightarrow> message \<Rightarrow> nat" where
  "msg_len cd m = (case cd_message cd m of None \<Rightarrow> 0 | Some b \<Rightarrow> length b)"

definition enc_len :: "bytes option \<Rightarrow> nat" where
  "enc_len b = (case b of None \<Rightarrow> 0 | Some x \<Rightarrow> length x)"

text \<open>A row as this node's own index holds it: valid on the wire, with a digest of at most 32 bytes.\<close>

definition small_file :: "FileInfo \<Rightarrow> bool" where
  "small_file f \<longleftrightarrow> validateFileInfo f = ok \<and> length (fi_SHA256 f) \<le> 32"

definition entry_ok :: "bytes option \<Rightarrow> bool" where
  "entry_ok b \<longleftrightarrow> b \<noteq> None \<and> 48 \<le> enc_len b \<and> enc_len b \<le> 1048576"

definition codec_ok :: "codec \<Rightarrow> bool" where
  "codec_ok cd \<longleftrightarrow>
     (\<forall>m. cd_message cd m \<noteq> None) \<and>
     (\<forall>f. small_file f \<longrightarrow> entry_ok (cd_file cd f)) \<and>
     (\<forall>e. small_file (de_File e) \<longrightarrow> entry_ok (cd_entry cd e)) \<and>
     (\<forall>m. length (st_ShareID m) \<le> 128 \<longrightarrow> length (st_SnapshotID m) \<le> 128 \<longrightarrow>
          msg_len cd (MIndexSnapshotBatch (m\<lparr>st_Files := []\<rparr>)) \<le> 1048576) \<and>
     (\<forall>m. length (db_ShareID m) \<le> 128 \<longrightarrow> length (db_Epoch m) \<le> 128 \<longrightarrow>
          msg_len cd (MIndexDeltaBatch (m\<lparr>db_Entries := []\<rparr>)) \<le> 1048576) \<and>
     (\<forall>m. msg_len cd (MIndexSnapshotBatch m) \<le>
          msg_len cd (MIndexSnapshotBatch (m\<lparr>st_Files := []\<rparr>)) + 8 + sum_list (map (enc_len \<circ> cd_file cd) (st_Files m))) \<and>
     (\<forall>m z. db_ToSeq m \<le> z \<longrightarrow> msg_len cd (MIndexDeltaBatch m) \<le>
          msg_len cd (MIndexDeltaBatch (m\<lparr>db_ToSeq := z, db_Entries := []\<rparr>)) + 8 +
          sum_list (map (enc_len \<circ> cd_entry cd) (db_Entries m)))"

lemma codec_okD:
  assumes "codec_ok cd"
  shows "cd_message cd m \<noteq> None"
    and "small_file f \<Longrightarrow> entry_ok (cd_file cd f)"
    and "small_file (de_File e) \<Longrightarrow> entry_ok (cd_entry cd e)"
    and "length (st_ShareID b) \<le> 128 \<Longrightarrow> length (st_SnapshotID b) \<le> 128 \<Longrightarrow>
          msg_len cd (MIndexSnapshotBatch (b\<lparr>st_Files := []\<rparr>)) \<le> 1048576"
    and "length (db_ShareID d) \<le> 128 \<Longrightarrow> length (db_Epoch d) \<le> 128 \<Longrightarrow>
          msg_len cd (MIndexDeltaBatch (d\<lparr>db_Entries := []\<rparr>)) \<le> 1048576"
    and "msg_len cd (MIndexSnapshotBatch b) \<le>
          msg_len cd (MIndexSnapshotBatch (b\<lparr>st_Files := []\<rparr>)) + 8 + sum_list (map (enc_len \<circ> cd_file cd) (st_Files b))"
    and "db_ToSeq d \<le> z \<Longrightarrow> msg_len cd (MIndexDeltaBatch d) \<le>
          msg_len cd (MIndexDeltaBatch (d\<lparr>db_ToSeq := z, db_Entries := []\<rparr>)) + 8 +
          sum_list (map (enc_len \<circ> cd_entry cd) (db_Entries d))"
  using assms unfolding codec_ok_def by blast+

section \<open>Planning\<close>

lemma EncodedMessageSize_ok: "codec_ok cd \<Longrightarrow> EncodedMessageSize (cd_message cd) m = Inr (msg_len cd m)"
  using codec_okD(1) [of cd m] by (auto simp: EncodedMessageSize_def msg_len_def split: option.split)

lemma EncodedEntrySize_ok: "entry_ok (f x) \<Longrightarrow> EncodedEntrySize f x = Inr (enc_len (f x))"
  by (auto simp: EncodedEntrySize_def entry_ok_def enc_len_def split: option.split)

lemma fit_len_le: "fit_len sz used rows \<le> length rows"
  by (induction sz used rows rule: fit_len.induct) (auto split: sum.split)

lemma fit_len_sum:
  assumes "\<And>r. r \<in> set rows \<Longrightarrow> sz r = Inr (f r)" "used \<le> TargetIndexBatchSize"
  shows "used + sum_list (map f (take (fit_len sz used rows) rows)) \<le> TargetIndexBatchSize"
  using assms by (induction sz used rows rule: fit_len.induct) (auto split: sum.split)

lemma fit_len_pos:
  assumes "rows \<noteq> []" "sz (hd rows) = Inr k" "used + k \<le> TargetIndexBatchSize"
  shows "0 < fit_len sz used rows"
  using assms by (cases rows) auto

lemma entries_count:
  assumes "\<And>r. r \<in> set rs \<Longrightarrow> 48 \<le> f r" "u + sum_list (map f rs) \<le> TargetIndexBatchSize"
  shows "length rs \<le> 65536"
proof -
  have "48 * length rs \<le> sum_list (map f rs)" using assms(1) by (induction rs) force+
  then show ?thesis using assms(2) by (simp add: TargetIndexBatchSize_def)
qed

text \<open>What a planned run of rows satisfies.\<close>

lemma snapshot_plan:
  fixes b :: "64 word"
  assumes cd: "codec_ok cd" and rows: "\<forall>r \<in> set rows. small_file (Info r)" "rows \<noteq> []"
    and ids: "length share \<le> 128" "length i \<le> 128"
  defines "n \<equiv> snapshotBatchLen cd share i b rows"
  defines "m \<equiv> \<lparr>st_ShareID = share, st_SnapshotID = i, st_Batch = b, st_Files = map Info (take n rows)\<rparr>"
  shows "0 < n" "n \<le> length rows" "n \<le> 65536" "msg_len cd (MIndexSnapshotBatch m) \<le> TargetIndexBatchSize"
proof -
  let ?env = "msg_len cd (MIndexSnapshotBatch (m\<lparr>st_Files := []\<rparr>))" and ?sz = "\<lambda>r. EncodedEntrySize (cd_file cd) (Info r)"
  let ?f = "\<lambda>r. enc_len (cd_file cd (Info r))"
  have env: "?env \<le> 1048576" using codec_okD(4) [OF cd, of m] ids by (simp add: m_def)
  have ent: "entry_ok (cd_file cd (Info r))" if "r \<in> set rows" for r using codec_okD(2) [OF cd] rows(1) that by blast
  have sz: "?sz r = Inr (?f r)" if "r \<in> set rows" for r by (rule EncodedEntrySize_ok) (rule ent [OF that])
  have len: "48 \<le> ?f r" "?f r \<le> 1048576" if "r \<in> set rows" for r using ent [OF that] by (simp_all add: entry_ok_def)
  have n: "n = fit_len ?sz (?env + 8) rows"
    by (simp add: n_def snapshotBatchLen_def EncodedMessageSize_ok [OF cd] batchArrayHeaderSlack_def m_def)
  show "0 < n" unfolding n
    by (rule fit_len_pos [OF rows(2) sz]) (use rows(2) env len [of "hd rows"] in \<open>auto simp: TargetIndexBatchSize_def\<close>)
  show "n \<le> length rows" unfolding n by (rule fit_len_le)
  have s: "?env + 8 + sum_list (map ?f (take n rows)) \<le> TargetIndexBatchSize"
    unfolding n by (rule fit_len_sum [OF sz]) (use env in \<open>auto simp: TargetIndexBatchSize_def\<close>)
  have "length (take n rows) \<le> 65536"
    by (rule entries_count [OF _ s]) (use len in \<open>auto dest: in_set_takeD\<close>)
  then show "n \<le> 65536" using \<open>n \<le> length rows\<close> by simp
  show "msg_len cd (MIndexSnapshotBatch m) \<le> TargetIndexBatchSize"
    using codec_okD(6) [OF cd, of m] s by (simp add: m_def o_def)
qed

lemma delta_plan:
  assumes cd: "codec_ok cd" and rows: "\<forall>j \<in> set rows. small_file (Info (jr_Row j))" "rows \<noteq> []"
    and ids: "length share \<le> 128" "length e \<le> 128"
    and asc: "\<forall>j \<in> set rows. (of_nat (jr_Seq j) :: 64 word) \<le> of_nat (jr_Seq (last rows))"
  defines "n \<equiv> deltaBatchLen cd share e rows"
  shows "0 < n" "n \<le> length rows" "msg_len cd (MIndexDeltaBatch (delta_batch share e (take n rows))) \<le> TargetIndexBatchSize"
proof -
  let ?d = "\<lparr>db_ShareID = share, db_Epoch = e, db_FromSeq = of_nat (jr_Seq (hd rows)),
              db_ToSeq = of_nat (jr_Seq (last rows)), db_Entries = []\<rparr>"
  let ?env = "msg_len cd (MIndexDeltaBatch ?d)" and ?sz = "\<lambda>r. EncodedEntrySize (cd_entry cd) (delta_entry r)"
  let ?f = "\<lambda>r. enc_len (cd_entry cd (delta_entry r))"
  have env: "?env \<le> 1048576" using codec_okD(5) [OF cd, of ?d] ids by simp
  have ent: "entry_ok (cd_entry cd (delta_entry r))" if "r \<in> set rows" for r
    using codec_okD(3) [OF cd, of "delta_entry r"] rows(1) that by (simp add: delta_entry_def)
  have sz: "?sz r = Inr (?f r)" if "r \<in> set rows" for r by (rule EncodedEntrySize_ok) (rule ent [OF that])
  have len: "?f r \<le> 1048576" if "r \<in> set rows" for r using ent [OF that] by (simp add: entry_ok_def)
  have n: "n = fit_len ?sz (?env + 8) rows"
    using rows(2) by (simp add: n_def deltaBatchLen_def EncodedMessageSize_ok [OF cd] batchArrayHeaderSlack_def)
  show p: "0 < n" unfolding n
    by (rule fit_len_pos [OF rows(2) sz]) (use rows(2) env len [of "hd rows"] in \<open>auto simp: TargetIndexBatchSize_def\<close>)
  show "n \<le> length rows" unfolding n by (rule fit_len_le)
  have s: "?env + 8 + sum_list (map ?f (take n rows)) \<le> TargetIndexBatchSize"
    unfolding n by (rule fit_len_sum [OF sz]) (use env in \<open>auto simp: TargetIndexBatchSize_def\<close>)
  let ?m = "delta_batch share e (take n rows)"
  have "last (take n rows) \<in> set rows" using p rows(2) by (metis last_in_set take_eq_Nil in_set_takeD neq0_conv)
  then have "db_ToSeq ?m \<le> db_ToSeq ?d" using asc by (simp add: delta_batch_def)
  from codec_okD(7) [OF cd this] s p rows(2)
  show "msg_len cd (MIndexDeltaBatch ?m) \<le> TargetIndexBatchSize"
    by (simp add: delta_batch_def o_def hd_take)
qed


section \<open>The frames of an answer\<close>

lemma send_frame_ok: "ss_fuse s = None \<Longrightarrow> send_frame m note s = (True, s\<lparr>ss_queue := ss_queue s @ [(m, note)]\<rparr>)"
  by (cases s) (simp add: send_frame_def)

lemma queue_upd [simp]:
  "s\<lparr>ss_queue := xs, ss_queue := ys\<rparr> = s\<lparr>ss_queue := ys\<rparr>" by simp

fun snapshot_frames :: "string \<Rightarrow> string \<Rightarrow> 64 word \<Rightarrow> FileRow list list \<Rightarrow> (message \<times> written_note) list" where
  "snapshot_frames share i b [] = []"
| "snapshot_frames share i b (c # cs) =
     (MIndexSnapshotBatch \<lparr>st_ShareID = share, st_SnapshotID = i, st_Batch = b, st_Files = map Info c\<rparr>, NoNote)
       # snapshot_frames share i (b + 1) cs"

definition delta_frames :: "string \<Rightarrow> string \<Rightarrow> JournalRow list list \<Rightarrow> (message \<times> written_note) list" where
  "delta_frames share e cs =
     map (\<lambda>c. (MIndexDeltaBatch (delta_batch share e c), DeltaNote share e (of_nat (jr_Seq (last c))))) cs"

text \<open>A frame the receiver accepts: valid, and short enough for one frame.\<close>

definition frame_ok :: "codec \<Rightarrow> message \<Rightarrow> bool" where
  "frame_ok cd m \<longleftrightarrow> ValidateMessage m = ok \<and> msg_len cd m \<le> TargetIndexBatchSize"

definition ids_ok :: "string \<Rightarrow> string \<Rightarrow> string \<Rightarrow> bool" where
  "ids_ok share e i \<longleftrightarrow> validateShareID share = ok \<and> validBoundedText ''epoch'' e maxWireIDLen True = ok \<and>
     validBoundedText ''snapshot_id'' i maxWireIDLen True = ok"

lemma ids_len: "ids_ok share e i \<Longrightarrow> length share \<le> 128 \<and> length e \<le> 128 \<and> length i \<le> 128"
  by (auto simp: ids_ok_def validateShareID_def validBoundedText_def maxWireIDLen_def split: if_splits)

lemma send_batches_frames:
  assumes "codec_ok cd" "ids_ok share e i"
  shows "\<forall>r \<in> set rows. small_file (Info r) \<Longrightarrow> ss_fuse s = None \<Longrightarrow>
    \<exists>cs. send_batches cd share i b rows s =
           (Inr (b + of_nat (length cs)), s\<lparr>ss_queue := ss_queue s @ snapshot_frames share i b cs\<rparr>) \<and>
         concat cs = rows \<and> (\<forall>x \<in> set (snapshot_frames share i b cs). frame_ok cd (fst x))"
proof (induction "length rows" arbitrary: b rows s rule: less_induct)
  case less
  show ?case
  proof (cases "rows = []")
    case True
    then show ?thesis by (intro exI [of _ "[]"]) (simp add: send_batches.simps)
  next
    case False
    define n where "n = snapshotBatchLen cd share i b rows"
    note len = ids_len [OF assms(2)]
    note plan = snapshot_plan [OF assms(1) less.prems(1) False, of share i b, folded n_def]
    have n: "0 < n" "n \<le> 65536" using plan len by auto
    let ?m = "MIndexSnapshotBatch \<lparr>st_ShareID = share, st_SnapshotID = i, st_Batch = b, st_Files = map Info (take n rows)\<rparr>"
    let ?s1 = "s\<lparr>ss_queue := ss_queue s @ [(?m, NoNote)]\<rparr>"
    have "list_all (\<lambda>f. validateFileInfo f = ok) (map Info (take n rows))"
      using less.prems(1) by (auto simp: list_all_iff small_file_def dest: in_set_takeD)
    then have "ValidateMessage ?m = ok"
      using n assms(2) by (simp add: ValidateMessage_def ids_ok_def validateFiles_ok)
    then have ok: "frame_ok cd ?m" using plan(4) len by (simp add: frame_ok_def)
    have "length (drop n rows) < length rows" using n(1) False by simp
    moreover have "\<forall>r \<in> set (drop n rows). small_file (Info r)" using less.prems(1) by (auto dest: in_set_dropD)
    moreover have "ss_fuse ?s1 = None" using less.prems(2) by simp
    ultimately obtain cs where cs: "send_batches cd share i (b + 1) (drop n rows) ?s1 =
        (Inr (b + 1 + of_nat (length cs)), ?s1\<lparr>ss_queue := ss_queue ?s1 @ snapshot_frames share i (b + 1) cs\<rparr>)"
      "concat cs = drop n rows" "\<forall>x \<in> set (snapshot_frames share i (b + 1) cs). frame_ok cd (fst x)"
      using less.hyps [of "drop n rows" ?s1 "b + 1"] by blast
    have "send_batches cd share i b rows s = send_batches cd share i (b + 1) (drop n rows) ?s1"
      using False n(1) less.prems(2) by (subst send_batches.simps) (simp add: n_def [symmetric] send_frame_ok)
    then show ?thesis using cs ok
      by (intro exI [of _ "take n rows # cs"]) (simp add: algebra_simps)
  qed
qed

text \<open>A run of consecutive journal entries.\<close>

definition journal_run :: "string \<Rightarrow> store \<Rightarrow> nat \<Rightarrow> nat \<Rightarrow> JournalRow list" where
  "journal_run share db x y = map (journal_row share db) [x ..< y]"

definition run_ok :: "string \<Rightarrow> store \<Rightarrow> nat \<Rightarrow> nat \<Rightarrow> bool" where
  "run_ok share db x y \<longleftrightarrow> 0 < x \<and> y \<le> 2 ^ 64 \<and>
     (\<forall>q. x \<le> q \<longrightarrow> q < y \<longrightarrow> jr_Seq (journal_row share db q) = q \<and> small_file (Info (jr_Row (journal_row share db q))))"

lemma run_seq_le:
  assumes "run_ok share db x y" "x < y" "j \<in> set (journal_run share db x y)"
  shows "(of_nat (jr_Seq j) :: 64 word) \<le> of_nat (jr_Seq (last (journal_run share db x y)))"
proof -
  obtain q where q: "x \<le> q" "q < y" "j = journal_row share db q" using assms(3) by (auto simp: journal_run_def)
  have l: "last (journal_run share db x y) = journal_row share db (y - 1)"
    using assms(2) by (simp add: journal_run_def last_map)
  have y: "y - 1 < 2 ^ 64" "q < 2 ^ 64" using assms(1,2) q by (auto simp: run_ok_def)
  have "unat (of_nat q :: 64 word) = q" "unat (of_nat (y - 1) :: 64 word) = y - 1"
    using y by (simp_all add: unat_of_nat take_bit_eq_mod)
  moreover have "q \<le> y - 1" using q by simp
  ultimately have "(of_nat q :: 64 word) \<le> of_nat (y - 1)" by (simp add: word_le_nat_alt)
  then show ?thesis using assms(1,2) q l by (simp add: run_ok_def)
qed

lemma delta_frame_valid:
  assumes r: "run_ok share db x y" "x < y" and ids: "ids_ok share e i"
  shows "ValidateMessage (MIndexDeltaBatch (delta_batch share e (journal_run share db x y))) = ok"
proof -
  let ?js = "journal_run share db x y"
  let ?m = "delta_batch share e ?js"
  have seq: "jr_Seq (journal_row share db q) = q" "validateFileInfo (Info (jr_Row (journal_row share db q))) = ok"
    if "x \<le> q" "q < y" for q using r(1) that by (auto simp: run_ok_def small_file_def)
  have hl: "hd ?js = journal_row share db x" "last ?js = journal_row share db (y - 1)"
    using r(2) by (simp_all add: journal_run_def hd_map last_map)
  have x: "0 < x" "y \<le> 2 ^ 64" using r(1) by (simp_all add: run_ok_def)
  have ft: "db_FromSeq ?m = of_nat x" "db_ToSeq ?m = of_nat (y - 1)"
    using seq r(2) by (simp_all add: delta_batch_def hl)
  have u: "unat (of_nat q :: 64 word) = q" if "q < y" for q
    using that x(2) by (simp add: unat_of_nat take_bit_eq_mod)
  have diff: "(of_nat (y - 1) :: 64 word) - of_nat x = of_nat (y - 1 - x)" using r(2) by (simp add: of_nat_diff)
  have "validateDeltaEntries (of_nat x) 0 (db_Entries ?m) = ok"
    using seq by (auto simp: validateDeltaEntries_ok delta_batch_def delta_entry_def journal_run_def)
  moreover have "db_Entries ?m \<noteq> []" using r(2) by (simp add: delta_batch_def journal_run_def)
  moreover have "(of_nat x :: 64 word) \<noteq> 0" using u [of x] r(2) x(1) by (metis unat_0 less_irrefl)
  moreover have "\<not> (of_nat (y - 1) :: 64 word) < of_nat x" using u [of x] u [of "y - 1"] r(2) by (simp add: word_less_nat_alt)
  moreover have "(of_nat (y - 1 - x) :: 64 word) \<noteq> NOT 0"
  proof
    assume "(of_nat (y - 1 - x) :: 64 word) = NOT 0"
    then have "unat (of_nat (y - 1 - x) :: 64 word) = 2 ^ 64 - 1" by (simp add: unsigned_minus_1_eq_mask mask_eq_exp_minus_1)
    then show False using u [of "y - 1 - x"] r(2) x by simp
  qed
  moreover have "of_nat (y - 1 - x) + 1 = (of_nat (length (db_Entries ?m)) :: 64 word)"
  proof -
    have "length (db_Entries ?m) = Suc (y - 1 - x)" using r(2) by (simp add: delta_batch_def journal_run_def)
    then show ?thesis by simp
  qed
  ultimately show ?thesis
    using ids unfolding ValidateMessage_def validateDeltaBatch_def message.case ft diff ids_ok_def
    by (simp add: delta_batch_def)
qed


lemma run_take: "n \<le> y - x \<Longrightarrow> take n (journal_run share db x y) = journal_run share db x (x + n)"
  by (cases "x + n \<le> y") (simp_all add: journal_run_def take_map take_upt)

lemma run_drop: "drop n (journal_run share db x y) = journal_run share db (x + n) y"
  by (simp add: journal_run_def drop_map)

lemma run_append: "x \<le> y \<Longrightarrow> y \<le> z \<Longrightarrow> journal_run share db x z = journal_run share db x y @ journal_run share db y z"
  by (simp add: journal_run_def) (metis le_add_diff_inverse upt_add_eq_append map_append)

lemma length_run [simp]: "length (journal_run share db x y) = y - x" by (simp add: journal_run_def)

lemma run_ok_sub: "run_ok share db x y \<Longrightarrow> x \<le> x' \<Longrightarrow> y' \<le> y \<Longrightarrow> run_ok share db x' y'"
  by (auto simp: run_ok_def)

lemma send_page_frames:
  assumes "codec_ok cd" "ids_ok share e i"
  shows "run_ok share db x y \<Longrightarrow> ss_fuse s = None \<Longrightarrow>
    \<exists>cs. send_page cd share e (journal_run share db x y) s =
           (ok, s\<lparr>ss_queue := ss_queue s @ delta_frames share e cs\<rparr>) \<and>
         concat cs = journal_run share db x y \<and> [] \<notin> set cs \<and>
         (\<forall>f \<in> set (delta_frames share e cs). frame_ok cd (fst f))"
proof (induction "y - x" arbitrary: x s rule: less_induct)
  case less
  show ?case
  proof (cases "x < y")
    case False
    then show ?thesis by (intro exI [of _ "[]"]) (simp add: send_page.simps journal_run_def delta_frames_def)
  next
    case True
    let ?page = "journal_run share db x y"
    have ne: "?page \<noteq> []" using True by (simp add: journal_run_def)
    define n where "n = deltaBatchLen cd share e ?page"
    have small: "\<forall>j \<in> set ?page. small_file (Info (jr_Row j))" using less.prems(1) by (auto simp: run_ok_def journal_run_def)
    have asc: "\<forall>j \<in> set ?page. (of_nat (jr_Seq j) :: 64 word) \<le> of_nat (jr_Seq (last ?page))"
      using run_seq_le [OF less.prems(1) True] by blast
    note len = ids_len [OF assms(2)]
    note plan = delta_plan [OF assms(1) small ne _ _ asc, of share e, folded n_def]
    have n: "0 < n" "n \<le> y - x" using plan len by auto
    have tk: "take n ?page = journal_run share db x (x + n)" by (rule run_take [OF n(2)])
    have dr: "drop n ?page = journal_run share db (x + n) y" by (rule run_drop)
    let ?c = "journal_run share db x (x + n)"
    let ?f = "(MIndexDeltaBatch (delta_batch share e ?c), DeltaNote share e (of_nat (jr_Seq (last ?c))))"
    let ?s1 = "s\<lparr>ss_queue := ss_queue s @ [?f]\<rparr>"
    have "run_ok share db x (x + n)" by (rule run_ok_sub [OF less.prems(1)]) (use n in auto)
    then have ok: "frame_ok cd (fst ?f)"
      using delta_frame_valid [OF _ _ assms(2), of db x "x + n"] n(1) plan(3) len by (simp add: frame_ok_def tk)
    have "y - (x + n) < y - x" using n True by simp
    moreover have "run_ok share db (x + n) y" by (rule run_ok_sub [OF less.prems(1)]) auto
    ultimately obtain cs where cs: "send_page cd share e (journal_run share db (x + n) y) ?s1 =
        (ok, ?s1\<lparr>ss_queue := ss_queue ?s1 @ delta_frames share e cs\<rparr>)"
      "concat cs = journal_run share db (x + n) y" "[] \<notin> set cs" "\<forall>f \<in> set (delta_frames share e cs). frame_ok cd (fst f)"
      using less.hyps [of "x + n" ?s1] less.prems(2) by auto
    have "send_page cd share e ?page s = send_page cd share e (journal_run share db (x + n) y) ?s1"
      using ne n(1) less.prems(2)
      by (subst send_page.simps) (simp add: n_def [symmetric] send_frame_ok tk dr Let_def, simp add: delta_batch_def)
    moreover have "concat (?c # cs) = ?page" using cs(2) n True by (simp add: run_append [of x "x + n" y])
    moreover have "?c \<noteq> []" using n(1) by (simp add: journal_run_def)
    ultimately show ?thesis using cs ok
      by (intro exI [of _ "?c # cs"]) (simp add: delta_frames_def)
  qed
qed

text \<open>
  \<open>full_journal share e a n db\<close>: the journal of \<open>db\<close> holds every entry after \<open>a\<close>, and they
  are rows a peer accepts.
\<close>

definition full_journal :: "string \<Rightarrow> string \<Rightarrow> nat \<Rightarrow> nat \<Rightarrow> store \<Rightarrow> bool" where
  "full_journal share e a n db \<longleftrightarrow>
     fmlookup (share_state db) share = Some (e, n) \<and> (\<forall>q. a < q \<longrightarrow> q < n \<longrightarrow> (share, q) |\<in>| fmdom (change_journal db)) \<and>
     run_ok share db (Suc a) n"

lemma page_run:
  assumes "journal_ok db" "full_journal share e a n db"
  shows "JournalSince share e a k db = journal_run share db (Suc a) (min n (Suc a + k))"
proof -
  have "JournalSince share e a k db = take k (journal_run share db (Suc a) n)"
    using JournalSince_tail [OF assms(1)] assms(2) by (simp add: full_journal_def journal_run_def)
  then show ?thesis
    by (cases "k \<le> n - Suc a") (simp_all add: run_take min_def journal_run_def, auto simp: take_map take_upt)
qed

lemma sendJournalDeltas_frames:
  assumes "codec_ok cd" "ids_ok (scfg_ShareID cfg) e i" "journal_ok db" "0 < k"
  shows "full_journal (scfg_ShareID cfg) e a n db \<Longrightarrow> ss_fuse s = None \<Longrightarrow>
    \<exists>cs y complete. sendJournalDeltas cd k cfg e a db s =
           (Inr complete, s\<lparr>ss_queue := ss_queue s @ delta_frames (scfg_ShareID cfg) e cs\<rparr>) \<and>
         concat cs = journal_run (scfg_ShareID cfg) db (Suc a) y \<and> [] \<notin> set cs \<and>
         (y \<le> max n (Suc a) \<and> Suc a \<le> y) \<and> (complete \<longrightarrow> n \<le> y) \<and>
         (\<forall>f \<in> set (delta_frames (scfg_ShareID cfg) e cs). frame_ok cd (fst f))"
proof (induction "n - a" arbitrary: a s rule: less_induct)
  case less
  let ?share = "scfg_ShareID cfg"
  define z where "z = min n (Suc a + k)"
  have rows: "JournalSince ?share e a k db = journal_run ?share db (Suc a) z"
    unfolding z_def by (rule page_run [OF assms(3) less.prems(1)])
  show ?case
  proof (cases "Suc a < n \<and> \<not> journalHasIgnored cfg (journal_run ?share db (Suc a) z)")
    case False
    then show ?thesis
    proof (cases "Suc a < n")
      case True
      then have "journal_run ?share db (Suc a) z \<noteq> []" using assms(4) by (auto simp: z_def journal_run_def)
      then show ?thesis using False True rows
        by (intro exI [of _ "[]"] exI [of _ "Suc a"] exI [of _ False])
          (simp add: sendJournalDeltas.simps [of _ _ _ _ a] delta_frames_def journal_run_def)
    next
      case nlt: False
      then show ?thesis using rows
        by (intro exI [of _ "[]"] exI [of _ "Suc a"] exI [of _ True])
          (simp add: sendJournalDeltas.simps [of _ _ _ _ a] delta_frames_def journal_run_def z_def)
    qed
  next
    case True
    have z: "Suc a < z" "z \<le> n" using True assms(4) by (auto simp: z_def)
    have "run_ok ?share db (Suc a) z" using less.prems(1) z run_ok_sub by (auto simp: full_journal_def)
    from send_page_frames [OF assms(1,2) this less.prems(2)] obtain cs where
      cs: "send_page cd ?share e (journal_run ?share db (Suc a) z) s = (ok, s\<lparr>ss_queue := ss_queue s @ delta_frames ?share e cs\<rparr>)"
        "concat cs = journal_run ?share db (Suc a) z" "[] \<notin> set cs" "\<forall>f \<in> set (delta_frames ?share e cs). frame_ok cd (fst f)"
      by blast
    let ?s1 = "s\<lparr>ss_queue := ss_queue s @ delta_frames ?share e cs\<rparr>"
    have ne: "journal_run ?share db (Suc a) z \<noteq> []" using z by (simp add: journal_run_def)
    have step: "sendJournalDeltas cd k cfg e a db s =
        (if z - Suc a < k then (Inr True, ?s1)
         else sendJournalDeltas cd k cfg e (jr_Seq (last (journal_run ?share db (Suc a) z))) db ?s1)"
      using ne True by (subst sendJournalDeltas.simps) (simp add: rows cs(1) Let_def)
    show ?thesis
    proof (cases "z - Suc a < k")
      case True
      then have "z = n" using z by (auto simp: z_def)
      then show ?thesis using cs step True z
        by (intro exI [of _ cs] exI [of _ z] exI [of _ True]) simp
    next
      case False
      have l: "jr_Seq (last (journal_run ?share db (Suc a) z)) = z - 1"
        using less.prems(1) z by (simp add: journal_run_def last_map full_journal_def run_ok_def)
      have zz: "Suc (z - 1) = z" using z by simp
      have "n - (z - 1) < n - a" using z by simp
      moreover have "full_journal ?share e (z - 1) n db"
        using less.prems(1) z run_ok_sub [of ?share db "Suc a" n z n] by (auto simp: full_journal_def zz)
      moreover have "ss_fuse ?s1 = None" using less.prems(2) by simp
      note IH = less.hyps [OF calculation this, unfolded zz]
      obtain ds y complete where ds: "sendJournalDeltas cd k cfg e (z - 1) db ?s1 =
            (Inr complete, ?s1\<lparr>ss_queue := ss_queue ?s1 @ delta_frames ?share e ds\<rparr>)"
          "concat ds = journal_run ?share db z y" "[] \<notin> set ds" "y \<le> max n z" "z \<le> y" "complete \<longrightarrow> n \<le> y"
          "\<forall>f \<in> set (delta_frames ?share e ds). frame_ok cd (fst f)"
        using IH by blast
      have "concat (cs @ ds) = journal_run ?share db (Suc a) y"
        using cs(2) ds(2,5) z by (simp add: run_append [of "Suc a" z y])
      then show ?thesis using step False l ds cs(3,4) z
        by (intro exI [of _ "cs @ ds"] exI [of _ y] exI [of _ complete]) (auto simp: delta_frames_def)
    qed
  qed
qed


section \<open>Delivery\<close>

text \<open>The read loop over the frames of an answer: it ends when a handler returns false.\<close>

fun deliver :: "int \<Rightarrow> message list \<Rightarrow> Session \<Rightarrow> Session" where
  "deliver now [] r = r"
| "deliver now (m # ms) r =
     (case handle_index_frame False False now m r of (True, r1) \<Rightarrow> deliver now ms r1 | (False, r1) \<Rightarrow> r1)"

text \<open>The queue has room for the reconcile job of the share, or already holds it.\<close>

definition ready :: "string \<Rightarrow> 'j index_queue \<Rightarrow> bool" where
  "ready key q \<longleftrightarrow> key |\<in>| fmdom (indexPending q) \<or>
     (fcard (fmdom (indexPending q)) < maxPendingIndexKeys \<and> length (indexJobs q) < maxPendingIndexKeys)"

definition receiving :: "string \<Rightarrow> string \<Rightarrow> Session \<Rightarrow> bool" where
  "receiving peer share r \<longleftrightarrow> ss_peerID r = peer \<and> acceptsInboundIndex r share \<and>
     ready (index_key ''reconcile'' share) (ss_index r)"

lemma schedule_ready:
  assumes "ready key (ss_index r)"
  obtains r1 where "schedule False False key job r = (True, r1)" "ready key (ss_index r1)"
    "ss_store r1 = ss_store r" "ss_shares r1 = ss_shares r" "ss_peerID r1 = ss_peerID r"
    "ss_snapshots r1 = ss_snapshots r"
proof -
  obtain b q where e: "enqueueIndex False False key job (ss_index r) = (b, q)" by force
  have "b" "ready key q" using assms e by (auto simp: ready_def enqueueIndex_def Let_def split: if_splits)
  then show thesis using that [of "r\<lparr>ss_index := q\<rparr>"] e by (simp add: schedule_def)
qed

lemma receiving_same: "receiving peer share r \<Longrightarrow> ss_shares r1 = ss_shares r \<Longrightarrow> ss_peerID r1 = ss_peerID r \<Longrightarrow>
    ready (index_key ''reconcile'' share) (ss_index r1) \<Longrightarrow> receiving peer share r1"
  by (simp add: receiving_def acceptsInboundIndex_def getShare_def)

lemma run_in_sequence: "validateDeltaEntries x 0 es = ok \<Longrightarrow> db_FromSeq m = x \<Longrightarrow> db_Entries m = es \<Longrightarrow> delta_in_sequence m"
  by (auto simp: delta_in_sequence_def validateDeltaEntries_ok list_all_iff in_set_enumerate_eq)

lemma deliver_delta:
  assumes r: "receiving peer share r" and f: "follows peer share e a db (ss_store r)" and j: "journal_ok db"
    and fj: "full_journal share e a n db" and c: "c = journal_run share db (Suc a) (Suc (a + k))" "c \<noteq> []" "a + k < n"
    and v: "ValidateMessage (MIndexDeltaBatch (delta_batch share e c)) = ok"
  obtains r1 where "handle_index_frame False False now (MIndexDeltaBatch (delta_batch share e c)) r = (True, r1)"
    "receiving peer share r1" "follows peer share e (a + k) db (ss_store r1)"
    "snapshot_staging (ss_store r1) = snapshot_staging (ss_store r)"
proof -
  let ?m = "delta_batch share e c"
  have k: "length c = k" using c by simp
  have rows: "c = JournalSince share e a k db"
  proof -
    have "min n (Suc a + k) = Suc (a + k)" using c(3) by simp
    then show ?thesis using page_run [OF j fj, of k] c(1) by simp
  qed
  from delta_follows [OF j f rows c(2), of now now] obtain db1 where
    d: "ApplyPeerDelta peer share e (of_nat (jr_Seq (hd c))) (of_nat (jr_Seq (last c))) (delta_rows share now c) now (ss_store r) = Inr db1"
    and f1: "follows peer share e (a + k) db db1" unfolding k by blast
  have rr: "map (\<lambda>x. FileRowFromInfo share (de_File x) now) (db_Entries ?m) = delta_rows share now c"
    by (simp add: delta_batch_def delta_rows_def delta_entry_def)
  have "validateDeltaEntries (db_FromSeq ?m) 0 (db_Entries ?m) = ok"
    using v by (auto simp: ValidateMessage_def validateDeltaBatch_def split: option.splits if_splits)
  then have s: "delta_in_sequence ?m" by (rule run_in_sequence) simp_all
  let ?r = "acknowledge share e (of_nat (jr_Seq (last c))) [] (r\<lparr>ss_store := db1\<rparr>)"
  have ready: "ready (index_key ''reconcile'' share) (ss_index ?r)" using r by (simp add: receiving_def)
  obtain r1 where r1: "schedule False False (index_key ''reconcile'' share) (ReconcileJob share) ?r = (True, r1)"
    "ready (index_key ''reconcile'' share) (ss_index r1)" "ss_store r1 = db1" "ss_shares r1 = ss_shares r"
    "ss_peerID r1 = ss_peerID r"
    using schedule_ready [OF ready, of "ReconcileJob share"] by auto
  have h: "handle_index_frame False False now (MIndexDeltaBatch ?m) r = (True, r1)"
    using v s d rr r r1(1) unfolding receiving_def
    by (simp add: handle_index_frame_def handleIndexDeltaBatchFrame_def Let_def) (simp add: delta_batch_def)
  have st: "snapshot_staging db1 = snapshot_staging (ss_store r)"
  proof -
    have "snapshot_staging (fold (\<lambda>r. put_peer_file peer (r\<lparr>fr_ShareID := share, fr_UpdatedAt := now\<rparr>)) rows s) = snapshot_staging s"
      for rows s by (induction rows arbitrary: s) (simp_all add: put_peer_file_def)
    then show ?thesis using d by (auto simp: ApplyPeerDelta_def Let_def split: if_splits)
  qed
  show thesis
    by (rule that [OF h receiving_same [OF r r1(4,5,2)]]) (simp_all add: r1(3) f1 st)
qed

lemma deliver_deltas:
  assumes j: "journal_ok db"
  shows "receiving peer share r \<Longrightarrow> follows peer share e a db (ss_store r) \<Longrightarrow> full_journal share e a n db \<Longrightarrow>
    concat cs = journal_run share db (Suc a) y \<Longrightarrow> y \<le> n \<Longrightarrow> Suc a \<le> y \<Longrightarrow> [] \<notin> set cs \<Longrightarrow>
    \<forall>f \<in> set (delta_frames share e cs). ValidateMessage (fst f) = ok \<Longrightarrow>
    \<exists>r1. deliver now (map fst (delta_frames share e cs) @ ms) r = deliver now ms r1 \<and> receiving peer share r1 \<and>
         follows peer share e (y - 1) db (ss_store r1) \<and> snapshot_staging (ss_store r1) = snapshot_staging (ss_store r)"
proof (induction cs arbitrary: a r)
  case Nil
  then have "y = Suc a" by (cases "y \<le> Suc a") (auto simp: journal_run_def)
  then show ?case using Nil by (auto simp: delta_frames_def)
next
  case (Cons c cs)
  define k where "k = length c"
  have k0: "0 < k" using Cons.prems(7) by (auto simp: k_def)
  have "length (concat (c # cs)) = y - Suc a" unfolding Cons.prems(4) by simp
  then have ky: "a + k < y" using Cons.prems(6) k0 by (simp add: k_def)
  have "c = take k (journal_run share db (Suc a) y)" using Cons.prems(4) unfolding Cons.prems(4) [symmetric] k_def by simp
  then have c: "c = journal_run share db (Suc a) (Suc (a + k))" using ky by (simp add: run_take)
  have "concat cs = drop k (journal_run share db (Suc a) y)" unfolding Cons.prems(4) [symmetric] k_def by simp
  then have cs: "concat cs = journal_run share db (Suc (a + k)) y" by (simp add: run_drop)
  have v: "ValidateMessage (MIndexDeltaBatch (delta_batch share e c)) = ok" using Cons.prems(8) by (simp add: delta_frames_def)
  obtain r1 where r1: "handle_index_frame False False now (MIndexDeltaBatch (delta_batch share e c)) r = (True, r1)"
    "receiving peer share r1" "follows peer share e (a + k) db (ss_store r1)"
    "snapshot_staging (ss_store r1) = snapshot_staging (ss_store r)"
    using deliver_delta [OF Cons.prems(1,2) j Cons.prems(3) c _ _ v, of now] k0 ky Cons.prems(5) by (auto simp: k_def)
  have fj: "full_journal share e (a + k) n db"
    using Cons.prems(3) run_ok_sub [of share db "Suc a" n "Suc (a + k)" n] by (auto simp: full_journal_def)
  have "\<exists>r2. deliver now (map fst (delta_frames share e cs) @ ms) r1 = deliver now ms r2 \<and> receiving peer share r2 \<and>
         follows peer share e (y - 1) db (ss_store r2) \<and> snapshot_staging (ss_store r2) = snapshot_staging (ss_store r1)"
    by (rule Cons.IH [OF r1(2,3) fj cs Cons.prems(5)]) (use ky Cons.prems(7,8) in \<open>auto simp: delta_frames_def\<close>)
  then show ?case using r1(1,4) by (simp add: delta_frames_def)
qed


text \<open>A receiver in the middle of a snapshot: the rows staged so far and the batch it expects.\<close>

definition staging :: "string \<Rightarrow> string \<Rightarrow> string \<Rightarrow> string \<Rightarrow> 64 word \<Rightarrow> 64 word \<Rightarrow> (string \<Rightarrow> FileInfo option) \<Rightarrow> Session \<Rightarrow> bool" where
  "staging peer share e i high b m r \<longleftrightarrow>
     receiving peer share r \<and>
     fmlookup (ss_snapshots r) share = Some \<lparr>sb_ShareID = share, sb_SnapshotID = i, sb_Epoch = e, sb_HighSeq = high\<rparr> \<and>
     get_cursor peer share ''incoming'' (ss_store r) =
       \<lparr>cu_Epoch = e, cu_AppliedSeq = 0, cu_SnapshotID = i, cu_SnapshotBatch = b\<rparr> \<and>
     staged_infos peer share i (ss_store r) = m"

lemma get_SetCursor [simp]: "get_cursor p sh d (SetCursor p sh d c db) = c"
  by (simp add: get_cursor_def SetCursor_def)

lemma staged_SetCursor [simp]: "staged_infos p sh i (SetCursor p' sh' d c db) = staged_infos p sh i db"
  by (simp add: staged_infos_def SetCursor_def fun_eq_iff)

lemma deliver_begin:
  assumes "receiving peer share r" "ids_ok share e i" "\<forall>p. fmlookup (snapshot_staging (ss_store r)) (peer, share, i, p) = None"
  shows "\<exists>r1. handle_index_frame False False now (MIndexSnapshotBegin
             \<lparr>sb_ShareID = share, sb_SnapshotID = i, sb_Epoch = e, sb_HighSeq = high\<rparr>) r = (True, r1) \<and>
           staging peer share e i high 0 Map.empty r1"
proof -
  let ?m = "\<lparr>sb_ShareID = share, sb_SnapshotID = i, sb_Epoch = e, sb_HighSeq = high\<rparr>"
  let ?r = "r\<lparr>ss_snapshots := fmupd share ?m (ss_snapshots r),
      ss_store := SetCursor peer share ''incoming'' (zero_cursor\<lparr>cu_Epoch := e, cu_SnapshotID := i\<rparr>) (ss_store r)\<rparr>"
  have v: "ValidateMessage (MIndexSnapshotBegin ?m) = ok" "i \<noteq> []"
    using assms(2) by (auto simp: ids_ok_def ValidateMessage_def validBoundedText_def)
  have p: "ss_peerID r = peer" "acceptsInboundIndex r share" using assms(1) by (simp_all add: receiving_def)
  have "handle_index_frame False False now (MIndexSnapshotBegin ?m) r = (True, ?r)"
    using v p by (simp add: handle_index_frame_def handleIndexSnapshotBeginFrame_def)
  moreover have "receiving peer share ?r" by (rule receiving_same [OF assms(1)]) (use assms(1) in \<open>simp_all add: receiving_def\<close>)
  moreover have "staged_infos peer share i (ss_store r) = Map.empty" using assms(3) by (simp add: staged_infos_def fun_eq_iff)
  ultimately show ?thesis by (simp add: staging_def zero_cursor_def)
qed

lemma deliver_batch:
  assumes "staging peer share e i high b m r"
    and v: "ValidateMessage (MIndexSnapshotBatch \<lparr>st_ShareID = share, st_SnapshotID = i, st_Batch = b, st_Files = map Info c\<rparr>) = ok"
  shows "\<exists>r1. handle_index_frame False False now
            (MIndexSnapshotBatch \<lparr>st_ShareID = share, st_SnapshotID = i, st_Batch = b, st_Files = map Info c\<rparr>) r = (True, r1) \<and>
           staging peer share e i high (b + 1) (replay (map Info c) m) r1"
proof -
  have p: "ss_peerID r = peer" "acceptsInboundIndex r share" "receiving peer share r"
    and s: "fmlookup (ss_snapshots r) share = Some \<lparr>sb_ShareID = share, sb_SnapshotID = i, sb_Epoch = e, sb_HighSeq = high\<rparr>"
      "get_cursor peer share ''incoming'' (ss_store r) = \<lparr>cu_Epoch = e, cu_AppliedSeq = 0, cu_SnapshotID = i, cu_SnapshotBatch = b\<rparr>"
      "staged_infos peer share i (ss_store r) = m"
    using assms(1) by (simp_all add: staging_def receiving_def)
  let ?rows = "map (\<lambda>f. FileRowFromInfo share f now) (map Info c)"
  let ?r = "r\<lparr>ss_store := SetCursor peer share ''incoming''
        \<lparr>cu_Epoch = e, cu_AppliedSeq = 0, cu_SnapshotID = i, cu_SnapshotBatch = b + 1\<rparr>
        (StageSnapshotBatch peer share i b ?rows (ss_store r))\<rparr>"
  have "handle_index_frame False False now
            (MIndexSnapshotBatch \<lparr>st_ShareID = share, st_SnapshotID = i, st_Batch = b, st_Files = map Info c\<rparr>) r = (True, ?r)"
    using v p s by (simp add: handle_index_frame_def handleIndexSnapshotBatchFrame_def Let_def)
  moreover have "receiving peer share ?r" by (rule receiving_same [OF p(3)]) (use p(3) in \<open>simp_all add: receiving_def\<close>)
  moreover have "map Info ?rows = map Info c" by simp
  ultimately show ?thesis using s by (simp add: staging_def staged_infos_stage) (simp add: o_def)
qed

lemma deliver_batches:
  "staging peer share e i high b m r \<Longrightarrow> \<forall>f \<in> set (snapshot_frames share i b cs). ValidateMessage (fst f) = ok \<Longrightarrow>
   \<exists>r1. deliver now (map fst (snapshot_frames share i b cs) @ ms) r = deliver now ms r1 \<and>
        staging peer share e i high (b + of_nat (length cs)) (replay (map Info (concat cs)) m) r1"
proof (induction cs arbitrary: b m r)
  case Nil
  then show ?case by (auto simp: replay_def)
next
  case (Cons c cs)
  obtain r1 where r1: "handle_index_frame False False now
            (MIndexSnapshotBatch \<lparr>st_ShareID = share, st_SnapshotID = i, st_Batch = b, st_Files = map Info c\<rparr>) r = (True, r1)"
    "staging peer share e i high (b + 1) (replay (map Info c) m) r1"
    using deliver_batch [OF Cons.prems(1), of c now] Cons.prems(2) by auto
  from Cons.IH [OF r1(2)] Cons.prems(2) obtain r2 where
    "deliver now (map fst (snapshot_frames share i (b + 1) cs) @ ms) r1 = deliver now ms r2"
    "staging peer share e i high (b + 1 + of_nat (length cs)) (replay (map Info (concat cs)) (replay (map Info c) m)) r2" by auto
  then show ?case using r1(1) by (auto simp: replay_append algebra_simps)
qed

lemma deliver_end:
  assumes "staging peer share e i high b m r" "ids_ok share e i"
  shows "\<exists>r1. handle_index_frame False False now (MIndexSnapshotEnd
             \<lparr>se_ShareID = share, se_SnapshotID = i, se_BatchCount = b\<rparr>) r = (True, r1) \<and> receiving peer share r1 \<and>
           ss_store r1 = CommitSnapshot peer share i e high now (ss_store r)"
proof -
  have p: "ss_peerID r = peer" "acceptsInboundIndex r share" "receiving peer share r"
    and s: "fmlookup (ss_snapshots r) share = Some \<lparr>sb_ShareID = share, sb_SnapshotID = i, sb_Epoch = e, sb_HighSeq = high\<rparr>"
      "get_cursor peer share ''incoming'' (ss_store r) = \<lparr>cu_Epoch = e, cu_AppliedSeq = 0, cu_SnapshotID = i, cu_SnapshotBatch = b\<rparr>"
    using assms(1) by (simp_all add: staging_def receiving_def)
  let ?r = "acknowledge share e high i (r\<lparr>ss_snapshots := fmdrop share (ss_snapshots r),
      ss_store := CommitSnapshot peer share i e high now (ss_store r)\<rparr>)"
  have "ready (index_key ''reconcile'' share) (ss_index ?r)" using p(3) by (simp add: receiving_def)
  from schedule_ready [OF this, of "ReconcileJob share"] obtain r1 where
    r1: "schedule False False (index_key ''reconcile'' share) (ReconcileJob share) ?r = (True, r1)"
    "ready (index_key ''reconcile'' share) (ss_index r1)" "ss_store r1 = CommitSnapshot peer share i e high now (ss_store r)"
    "ss_shares r1 = ss_shares r" "ss_peerID r1 = ss_peerID r" by auto
  have "ValidateMessage (MIndexSnapshotEnd \<lparr>se_ShareID = share, se_SnapshotID = i, se_BatchCount = b\<rparr>) = ok"
    using assms(2) by (simp add: ids_ok_def ValidateMessage_def)
  then have "handle_index_frame False False now (MIndexSnapshotEnd
             \<lparr>se_ShareID = share, se_SnapshotID = i, se_BatchCount = b\<rparr>) r = (True, r1)"
    using p s r1(1) by (simp add: handle_index_frame_def handleIndexSnapshotEndFrame_def Let_def)
  then show ?thesis using receiving_same [OF p(3) r1(4,5,2)] r1(3) by blast
qed

lemma commit_follows:
  assumes s: "store_ok ss" and st: "fmlookup (share_state ss) share = Some (e, n)"
    and m: "staged_infos peer share i rs = replay (map Info (ListShare share True ss)) Map.empty"
  shows "follows peer share e (n - 1) ss (CommitSnapshot peer share i e (of_nat (n - 1)) now rs)"
proof -
  let ?r = "CommitSnapshot peer share i e (of_nat (n - 1)) now rs"
  have n: "0 < n" using s st journal_ok_state by (auto simp: store_ok_def)
  have "share_infos share ss p = mirror_infos peer share ?r p" if "\<not> parked share ss p" for p
    using that s replay_ListShare by (simp add: store_ok_def mirror_commit m)
  moreover have "[Suc (n - 1) ..< n] = []" using n by simp
  ultimately have "tail_replays share e (n - 1) (mirror_infos peer share ?r) ss"
    unfolding tail_replays_def using st n by (intro exI [of _ n]) (auto simp: journal_infos_def replay_def)
  then show ?thesis unfolding follows_def by (simp add: CommitSnapshot_def)
qed

lemma deliver_snapshot:
  assumes r: "receiving peer share r" and ids: "ids_ok share e i"
    and clean: "\<forall>p. fmlookup (snapshot_staging (ss_store r)) (peer, share, i, p) = None"
    and db: "store_ok db" "fmlookup (share_state db) share = Some (e, n)"
    and cs: "concat cs = ListShare share True db" "\<forall>f \<in> set (snapshot_frames share i 0 cs). ValidateMessage (fst f) = ok"
  shows "\<exists>r1. deliver now (MIndexSnapshotBegin \<lparr>sb_ShareID = share, sb_SnapshotID = i, sb_Epoch = e, sb_HighSeq = of_nat (n - 1)\<rparr>
              # map fst (snapshot_frames share i 0 cs) @
              [MIndexSnapshotEnd \<lparr>se_ShareID = share, se_SnapshotID = i, se_BatchCount = of_nat (length cs)\<rparr>]) r = r1 \<and>
           receiving peer share r1 \<and> follows peer share e (n - 1) db (ss_store r1)"
proof -
  let ?e = "MIndexSnapshotEnd \<lparr>se_ShareID = share, se_SnapshotID = i, se_BatchCount = of_nat (length cs)\<rparr>"
  obtain r1 where 1: "handle_index_frame False False now (MIndexSnapshotBegin
       \<lparr>sb_ShareID = share, sb_SnapshotID = i, sb_Epoch = e, sb_HighSeq = of_nat (n - 1)\<rparr>) r = (True, r1)"
    "staging peer share e i (of_nat (n - 1)) 0 Map.empty r1" using deliver_begin [OF r ids clean] by blast
  obtain r2 where 2: "deliver now (map fst (snapshot_frames share i 0 cs) @ [?e]) r1 = deliver now [?e] r2"
    "staging peer share e i (of_nat (n - 1)) (0 + of_nat (length cs)) (replay (map Info (concat cs)) Map.empty) r2"
    using deliver_batches [OF 1(2) cs(2)] by blast
  then have 3: "staging peer share e i (of_nat (n - 1)) (of_nat (length cs)) (replay (map Info (concat cs)) Map.empty) r2" by simp
  obtain r3 where 4: "handle_index_frame False False now ?e r2 = (True, r3)" "receiving peer share r3"
    "ss_store r3 = CommitSnapshot peer share i e (of_nat (n - 1)) now (ss_store r2)" using deliver_end [OF 3 ids] by blast
  have "follows peer share e (n - 1) db (ss_store r3)"
    unfolding 4(3) by (rule commit_follows [OF db]) (use 3 cs(1) in \<open>simp add: staging_def\<close>)
  then show ?thesis using 1(1) 2(1) 4 by simp
qed


section \<open>One exchange\<close>

text \<open>
  A sender ready to serve a share: the share is active and may be served, the writer accepts
  frames, the database is sound and at epoch \<open>e\<close> with next sequence number \<open>n\<close>, and its
  rows are ones a peer accepts, none of them ignored since the last scan.
\<close>

definition sender_ok :: "Session \<Rightarrow> string \<Rightarrow> string \<Rightarrow> string \<Rightarrow> nat \<Rightarrow> bool" where
  "sender_ok s share e i n \<longleftrightarrow>
     ids_ok share e i \<and> ss_fuse s = None \<and> ss_queue s = [] \<and> store_ok (ss_store s) \<and>
     fmlookup (share_state (ss_store s)) share = Some (e, n) \<and> n \<le> 2 ^ 64 \<and>
     (\<exists>cfg. getShare s share = Some cfg \<and> scfg_ShareID cfg = share \<and> \<not> OutboundBlocked (scfg_Direction cfg) \<and>
        (\<forall>r \<in> set (ListShare share True (ss_store s)). small_file (Info r) \<and> \<not> row_ignored cfg r))"

definition cursor_request :: "string \<Rightarrow> string \<Rightarrow> Session \<Rightarrow> IndexSyncRequest" where
  "cursor_request peer share r = (let c = get_cursor peer share ''incoming'' (ss_store r) in
     \<lparr>sr_ShareID = share, sr_Epoch = cu_Epoch c, sr_AppliedSeq = cu_AppliedSeq c,
      sr_SnapshotID = cu_SnapshotID c, sr_SnapshotBatch = cu_SnapshotBatch c\<rparr>)"

text \<open>
  Where the receiver's cursor is one of the sender's epoch and the journal reaches back to it,
  the journal has no hole from there on and the receiver has what it claims to have.
\<close>

definition in_step :: "string \<Rightarrow> string \<Rightarrow> string \<Rightarrow> nat \<Rightarrow> Session \<Rightarrow> Session \<Rightarrow> bool" where
  "in_step peer share e n s r \<longleftrightarrow>
     (let c = get_cursor peer share ''incoming'' (ss_store r); a = unat (cu_AppliedSeq c);
          oldest = OldestJournalSeq share e (ss_store s) in
      cu_Epoch c = e \<and> (Suc a = n \<or> Suc a < n \<and> 0 < oldest \<and> oldest \<le> Suc a) \<longrightarrow>
        full_journal share e a n (ss_store s) \<and> follows peer share e a (ss_store s) (ss_store r))"

text \<open>The test on words is the one on sequence numbers as long as these fit their width.\<close>

lemma OldestJournalSeq_less:
  assumes "journal_ok db" "fmlookup (share_state db) share = Some (e, n)"
  shows "OldestJournalSeq share e db < n"
proof (cases "journal_seqs share e db")
  case Nil
  then show ?thesis using assms journal_ok_state by (auto simp: OldestJournalSeq_def)
next
  case (Cons q qs)
  then have "q \<in> set (journal_seqs share e db)" by simp
  then obtain j where "fmlookup (change_journal db) (share, q) = Some j" by (auto simp: mem_journal_seqs)
  then show ?thesis using assms Cons by (auto simp: OldestJournalSeq_def journal_ok_def dest: fmpredD)
qed

lemma canAnswerWithDeltas_nat:
  assumes "0 < n" "n \<le> 2 ^ 64" "oldest < n"
  shows "canAnswerWithDeltas req e (of_nat (n - 1)) (of_nat oldest) \<longleftrightarrow>
    sr_Epoch req = e \<and> (let a = unat (sr_AppliedSeq req) in Suc a = n \<or> Suc a < n \<and> 0 < oldest \<and> oldest \<le> Suc a)"
proof -
  let ?w = "sr_AppliedSeq req"
  have v: "unat (of_nat x :: 64 word) = x" if "x < 2 ^ 64" for x using that by (simp add: unat_of_nat)
  have u: "unat (of_nat (n - 1) :: 64 word) = n - 1" "unat (of_nat oldest :: 64 word) = oldest"
    by (rule v, use assms in linarith)+
  have w: "unat (?w + 1) = Suc (unat ?w)" if "Suc (unat ?w) < n"
    using that assms(2) by (simp add: unat_word_ariths)
  have eq: "?w = of_nat (n - 1) \<longleftrightarrow> Suc (unat ?w) = n" using u(1) assms(1) by (auto simp: word_unat_eq_iff)
  have le: "of_nat (n - 1) < ?w \<longleftrightarrow> n < Suc (unat ?w)" using u(1) assms(1) by (auto simp: word_less_nat_alt)
  consider "Suc (unat ?w) = n" | "n < Suc (unat ?w)" | "Suc (unat ?w) < n" by linarith
  then show ?thesis
  proof cases
    case 3
    then show ?thesis using eq le u(2) w
      by (auto simp: canAnswerWithDeltas_def Let_def word_less_nat_alt word_le_nat_alt)
  qed (use eq le in \<open>auto simp: canAnswerWithDeltas_def Let_def\<close>)
qed

definition snapshot_part :: "string \<Rightarrow> string \<Rightarrow> string \<Rightarrow> nat \<Rightarrow> FileRow list list \<Rightarrow> (message \<times> written_note) list" where
  "snapshot_part share e i n bs =
     (MIndexSnapshotBegin \<lparr>sb_ShareID = share, sb_SnapshotID = i, sb_Epoch = e, sb_HighSeq = of_nat (n - 1)\<rparr>, NoNote)
       # snapshot_frames share i 0 bs @
       [(MIndexSnapshotEnd \<lparr>se_ShareID = share, se_SnapshotID = i, se_BatchCount = of_nat (length bs)\<rparr>,
         SnapshotNote share e i (of_nat (n - 1)))]"

lemma send_snapshot_frames:
  assumes "codec_ok cd" "ids_ok share e i" "\<forall>r \<in> set rows. small_file (Info r)" "ss_fuse s = None"
  shows "\<exists>bs. send_snapshot cd share i e (n - 1) rows s = (ok, s\<lparr>ss_queue := ss_queue s @ snapshot_part share e i n bs\<rparr>) \<and>
    concat bs = rows \<and> (\<forall>x \<in> set (snapshot_frames share i 0 bs). frame_ok cd (fst x))"
proof -
  let ?b = "(MIndexSnapshotBegin \<lparr>sb_ShareID = share, sb_SnapshotID = i, sb_Epoch = e, sb_HighSeq = of_nat (n - 1)\<rparr>, NoNote)"
  let ?s1 = "s\<lparr>ss_queue := ss_queue s @ [?b]\<rparr>"
  obtain bs where bs: "send_batches cd share i 0 rows ?s1 =
      (Inr (0 + of_nat (length bs)), ?s1\<lparr>ss_queue := ss_queue ?s1 @ snapshot_frames share i 0 bs\<rparr>)"
    "concat bs = rows" "\<forall>x \<in> set (snapshot_frames share i 0 bs). frame_ok cd (fst x)"
    using send_batches_frames [OF assms(1,2,3), of ?s1 0] assms(4) by auto
  then show ?thesis
    using assms(4) by (intro exI [of _ bs]) (simp add: send_snapshot_def send_frame_ok snapshot_part_def)
qed

lemma answer_frames:
  assumes cd: "codec_ok cd" "0 < k" and s: "sender_ok s share e i n" and st: "in_step peer share e n s r"
  defines "db \<equiv> ss_store s"
  shows "\<exists>cs a y bs complete.
      answerSyncRequest cd k fresh i (cursor_request peer share r) s =
        (ok, s\<lparr>ss_queue := delta_frames share e cs @ (if complete then [] else snapshot_part share e i n bs)\<rparr>) \<and>
      (cs \<noteq> [] \<or> complete \<longrightarrow> full_journal share e a n db \<and> follows peer share e a db (ss_store r) \<and>
          concat cs = journal_run share db (Suc a) y \<and> y \<le> n \<and> Suc a \<le> y \<and> (complete \<longrightarrow> y = n)) \<and>
      [] \<notin> set cs \<and> concat bs = ListShare share True db \<and>
      (\<forall>x \<in> set (delta_frames share e cs @ snapshot_frames share i 0 bs). frame_ok cd (fst x))"
proof -
  obtain cfg where cfg: "getShare s share = Some cfg" "scfg_ShareID cfg = share" "\<not> OutboundBlocked (scfg_Direction cfg)"
    and rows: "\<forall>r \<in> set (ListShare share True db). small_file (Info r) \<and> \<not> row_ignored cfg r"
    and ids: "ids_ok share e i" and fuse: "ss_fuse s = None" "ss_queue s = []"
    and ok: "store_ok db" "fmlookup (share_state db) share = Some (e, n)" "n \<le> 2 ^ 64"
    using s by (auto simp: sender_ok_def db_def)
  have n: "0 < n" using ok journal_ok_state by (auto simp: store_ok_def)
  let ?req = "cursor_request peer share r"
  define a where "a = unat (sr_AppliedSeq ?req)"
  have sh: "sr_ShareID ?req = share" by (simp add: cursor_request_def Let_def)
  have state: "ShareState fresh share db = ((e, n - 1), db)" using ok(2) n by (simp add: ShareState_def ensure_state_def Let_def)
  have serve: "servesOutboundShare s share" using cfg by (simp add: servesOutboundShare_def)
  have filt: "filterIgnoredRows cfg (ListShare share True db) = ListShare share True db"
    using rows by (simp add: filterIgnoredRows_def)
  have same: "s\<lparr>ss_store := db\<rparr> = s" by (simp add: db_def)
  have snap: "\<exists>bs. send_snapshot cd share i e (n - 1) (ListShare share True db) s1 =
        (ok, s1\<lparr>ss_queue := ss_queue s1 @ snapshot_part share e i n bs\<rparr>) \<and>
      concat bs = ListShare share True db \<and> (\<forall>x \<in> set (snapshot_frames share i 0 bs). frame_ok cd (fst x))"
    if "ss_fuse s1 = None" for s1
    by (rule send_snapshot_frames [OF cd(1) ids _ that]) (use rows in blast)
  let ?can = "canAnswerWithDeltas ?req e (of_nat (n - 1)) (of_nat (OldestJournalSeq share e db))"
  note ans = answerSyncRequest_def Let_def sh serve state cfg(1) filt same db_def [symmetric]
  show ?thesis
  proof (cases ?can)
    case False
    obtain bs where bs: "send_snapshot cd share i e (n - 1) (ListShare share True db) s =
        (ok, s\<lparr>ss_queue := ss_queue s @ snapshot_part share e i n bs\<rparr>)"
      "concat bs = ListShare share True db" "\<forall>x \<in> set (snapshot_frames share i 0 bs). frame_ok cd (fst x)"
      using snap [OF fuse(1)] by blast
    then have "answerSyncRequest cd k fresh i ?req s = (ok, s\<lparr>ss_queue := snapshot_part share e i n bs\<rparr>)"
      using False fuse by (simp add: ans)
    then show ?thesis using bs
      by (intro exI [of _ "[]"] exI [of _ 0] exI [of _ n] exI [of _ bs] exI [of _ False]) (simp add: delta_frames_def)
  next
    case True
    have "OldestJournalSeq share e db < n" using ok by (intro OldestJournalSeq_less) (simp_all add: store_ok_def)
    then have fj: "full_journal share e a n db" "follows peer share e a db (ss_store r)"
      using st True canAnswerWithDeltas_nat [OF n ok(3)]
      by (simp_all add: in_step_def cursor_request_def Let_def a_def db_def)
    have an: "a < n" using fj(2) by (auto simp: follows_def tail_replays_def ok(2))
    from sendJournalDeltas_frames [OF cd(1) ids [folded cfg(2)] _ cd(2), of db a n s] fj(1) ok(1) fuse(1)
    obtain cs y complete where cs: "sendJournalDeltas cd k cfg e a db s =
          (Inr complete, s\<lparr>ss_queue := ss_queue s @ delta_frames share e cs\<rparr>)"
        "concat cs = journal_run share db (Suc a) y" "[] \<notin> set cs" "y \<le> max n (Suc a)" "Suc a \<le> y" "complete \<longrightarrow> n \<le> y"
        "\<forall>f \<in> set (delta_frames share e cs). frame_ok cd (fst f)"
      by (auto simp: cfg(2) store_ok_def)
    let ?s1 = "s\<lparr>ss_queue := ss_queue s @ delta_frames share e cs\<rparr>"
    obtain bs where bs: "send_snapshot cd share i e (n - 1) (ListShare share True db) ?s1 =
        (ok, ?s1\<lparr>ss_queue := ss_queue ?s1 @ snapshot_part share e i n bs\<rparr>)"
      "concat bs = ListShare share True db" "\<forall>x \<in> set (snapshot_frames share i 0 bs). frame_ok cd (fst x)"
      using snap [of ?s1] fuse(1) by auto
    have "answerSyncRequest cd k fresh i ?req s =
        (ok, s\<lparr>ss_queue := delta_frames share e cs @ (if complete then [] else snapshot_part share e i n bs)\<rparr>)"
      using True cs(1) bs(1) fuse(2) by (simp add: ans a_def)
    moreover have "y \<le> n" using cs(4) an by simp
    ultimately show ?thesis using cs bs fj an
      by (intro exI [of _ cs] exI [of _ a] exI [of _ y] exI [of _ bs] exI [of _ complete]) auto
  qed
qed


text \<open>
  C5. One exchange brings a receiver up to date. A receiver, from whatever state its mirror
  of a share is in, sends its cursor; the sender, whose rows are ones a peer accepts, answers
  without error; and once the frames of the answer are delivered the receiver follows the
  sender at its last journal entry and its mirror agrees with the sender's row of every path
  the sender has not parked. Where the receiver's cursor is of the sender's epoch and the journal
  reaches back to it, the journal must be without a hole from there on and the receiver must
  have what its cursor says. Every batch of the answer passes the receiver's validation
  and is at most the target size of 3 MiB, below the limit of a frame.
\<close>

theorem index_exchange_agrees:
  assumes "codec_ok cd" "0 < k" "sender_ok s share e i n" "in_step peer share e n s r" "receiving peer share r"
    and "\<forall>p. fmlookup (snapshot_staging (ss_store r)) (peer, share, i, p) = None"
  shows "\<exists>s'. answerSyncRequest cd k fresh i (cursor_request peer share r) s = (ok, s') \<and>
           follows peer share e (n - 1) (ss_store s) (ss_store (deliver now (map fst (ss_queue s')) r)) \<and>
           agrees peer share (ss_store s) (ss_store (deliver now (map fst (ss_queue s')) r)) \<and>
           (\<forall>x \<in> set (ss_queue s'). ValidateMessage (fst x) = ok \<and>
              (message_files (fst x) \<noteq> [] \<longrightarrow> msg_len cd (fst x) \<le> TargetIndexBatchSize))"
proof -
  let ?db = "ss_store s"
  obtain cs a y bs complete where ans: "answerSyncRequest cd k fresh i (cursor_request peer share r) s =
        (ok, s\<lparr>ss_queue := delta_frames share e cs @ (if complete then [] else snapshot_part share e i n bs)\<rparr>)"
    and d: "cs \<noteq> [] \<or> complete \<Longrightarrow> full_journal share e a n ?db \<and> follows peer share e a ?db (ss_store r) \<and>
          concat cs = journal_run share ?db (Suc a) y \<and> y \<le> n \<and> Suc a \<le> y \<and> (complete \<longrightarrow> y = n)"
    and cs: "[] \<notin> set cs" "concat bs = ListShare share True ?db"
    and ok: "\<forall>x \<in> set (delta_frames share e cs @ snapshot_frames share i 0 bs). frame_ok cd (fst x)"
    using answer_frames [OF assms(1-4), of fresh] by blast
  have ids: "ids_ok share e i" and db: "store_ok ?db" "fmlookup (share_state ?db) share = Some (e, n)"
    using assms(3) by (simp_all add: sender_ok_def)
  have j: "journal_ok ?db" using db by (simp add: store_ok_def)
  let ?snap = "if complete then [] else snapshot_part share e i n bs"
  obtain r1 where r1: "deliver now (map fst (delta_frames share e cs) @ map fst ?snap) r = deliver now (map fst ?snap) r1"
    "receiving peer share r1" "snapshot_staging (ss_store r1) = snapshot_staging (ss_store r)"
    "complete \<Longrightarrow> follows peer share e (n - 1) ?db (ss_store r1)"
  proof (cases "cs = [] \<and> \<not> complete")
    case True
    then show ?thesis using that [of r] assms(5) by (simp add: delta_frames_def)
  next
    case False
    then show ?thesis
      using deliver_deltas [OF j assms(5), of e a n cs y now "map fst ?snap"] d cs(1) ok that by (auto simp: frame_ok_def)
  qed
  define r2 where "r2 = deliver now (map fst ?snap) r1"
  have f: "follows peer share e (n - 1) ?db (ss_store r2)"
  proof (cases complete)
    case False
    have "\<exists>r3. deliver now (MIndexSnapshotBegin \<lparr>sb_ShareID = share, sb_SnapshotID = i, sb_Epoch = e, sb_HighSeq = of_nat (n - 1)\<rparr>
              # map fst (snapshot_frames share i 0 bs) @
              [MIndexSnapshotEnd \<lparr>se_ShareID = share, se_SnapshotID = i, se_BatchCount = of_nat (length bs)\<rparr>]) r1 = r3 \<and>
           receiving peer share r3 \<and> follows peer share e (n - 1) ?db (ss_store r3)"
      by (rule deliver_snapshot [OF r1(2) ids _ db cs(2)]) (use r1(3) assms(6) ok in \<open>auto simp: frame_ok_def\<close>)
    then show ?thesis using False by (simp add: r2_def snapshot_part_def)
  qed (use r1(4) in \<open>simp add: r2_def\<close>)
  then have "agrees peer share ?db (ss_store r2)"
    using db(2) by (auto simp: agrees_def follows_def tail_replays_def journal_infos_def replay_def)
  moreover have "ValidateMessage (fst x) = ok \<and> (message_files (fst x) \<noteq> [] \<longrightarrow> msg_len cd (fst x) \<le> TargetIndexBatchSize)"
    if "x \<in> set (delta_frames share e cs @ ?snap)" for x
    using that ok ids
    by (auto simp: frame_ok_def snapshot_part_def message_files_def ids_ok_def ValidateMessage_def split: if_splits)
  ultimately show ?thesis using ans f r1(1) by (auto simp: r2_def)
qed


lemma sum_list_const: "sum_list (map (\<lambda>x. c) xs) = c * length xs" for c :: nat
  by (induction xs) simp_all

lemma ex_codec_ok: "codec_ok ex_codec"
  unfolding codec_ok_def
  by (auto simp: ex_codec_def msg_len_def enc_len_def entry_ok_def message_files_def o_def sum_list_const)

definition ex_receiving :: Session where
  "ex_receiving = AddShare ex_share (new_session ''cccccccccccccccc'' ''q'' empty_store)"

theorem index_exchange_agrees_witness:
  "\<exists>s'. answerSyncRequest ex_codec 2 ''x'' ''i'' (cursor_request ''q'' ''s'' ex_receiving) ex_serving = (ok, s') \<and>
     agrees ''q'' ''s'' ex_sender (ss_store (deliver 9 (map fst (ss_queue s')) ex_receiving))"
proof -
  have row: "small_file (Info (ex_row ''a.txt'')) \<and> \<not> row_ignored ex_share (ex_row ''a.txt'')" by code_simp
  have l: "ListShare ''s'' True ex_sender = [ex_row ''a.txt'']" by code_simp
  have st: "fmlookup (share_state ex_sender) ''s'' = Some (''epoch'', 2)" by code_simp
  have ids: "ids_ok ''s'' ''epoch'' ''i''" by code_simp
  have "getShare ex_serving ''s'' = Some ex_share" "ss_store ex_serving = ex_sender" "ss_fuse ex_serving = None"
    "ss_queue ex_serving = []" "scfg_ShareID ex_share = ''s''" "\<not> OutboundBlocked (scfg_Direction ex_share)"
    by (simp_all add: getShare_def ex_serving_def AddShare_def new_session_def ex_share_def)
  then have s: "sender_ok ex_serving ''s'' ''epoch'' ''i'' 2" and db: "ss_store ex_serving = ex_sender"
    using ids ex_sender_ok st l row unfolding sender_ok_def by auto
  have "cu_Epoch (get_cursor ''q'' ''s'' ''incoming'' empty_store) = []"
    by (simp add: get_cursor_def empty_store_def zero_cursor_def)
  then have i: "in_step ''q'' ''s'' ''epoch'' 2 ex_serving ex_receiving"
    by (simp add: in_step_def Let_def ex_receiving_def AddShare_def new_session_def)
  have r: "receiving ''q'' ''s'' ex_receiving"
    by (simp add: receiving_def ex_receiving_def AddShare_def new_session_def acceptsInboundIndex_def getShare_def ex_share_def
        ready_def new_queue_def maxPendingIndexKeys_def fcard.rep_eq)
  have c: "\<forall>p. fmlookup (snapshot_staging (ss_store ex_receiving)) (''q'', ''s'', ''i'', p) = None"
    by (simp add: ex_receiving_def AddShare_def new_session_def empty_store_def)
  from index_exchange_agrees [OF ex_codec_ok _ s i r c, of 2 "''x''" 9] db show ?thesis by auto
qed

section \<open>What stops the exchange\<close>

text \<open>
  C32. A hole in the journal stalls the exchange. \<open>canAnswerWithDeltas\<close> looks only at the oldest
  entry of the journal, while pruning removes entries by their time, which need not follow
  their order. When an entry after the receiver's cursor is missing and the rest of the
  journal is one batch, the sender answers without error with one delta batch whose range
  does not match its entries; every receiver counts it as a violation and does nothing else:
  it neither applies it nor acknowledges it nor asks again.
\<close>

theorem journal_hole_stalls:
  assumes "getShare s share = Some cfg" "scfg_ShareID cfg = share" "\<not> OutboundBlocked (scfg_Direction cfg)"
    and "ss_fuse s = None" "ss_queue s = []" "ShareState fresh share (ss_store s) = ((e, high), ss_store s)"
    and "canAnswerWithDeltas req e (of_nat high) (of_nat (OldestJournalSeq share e (ss_store s)))" "sr_ShareID req = share"
    and rows: "rows = JournalSince share e (unat (sr_AppliedSeq req)) k (ss_store s)" "rows \<noteq> []" "length rows < k"
    and "\<not> journalHasIgnored cfg rows" "deltaBatchLen cd share e rows = length rows"
    and hole: "jr_Seq (hd rows) \<le> jr_Seq (last rows)" "jr_Seq (last rows) < 2 ^ 64 - 1" "length rows < 2 ^ 64"
      "Suc (jr_Seq (last rows)) \<noteq> jr_Seq (hd rows) + length rows"
  shows "\<exists>s'. answerSyncRequest cd k fresh i req s = (ok, s') \<and> length (ss_queue s') = 1 \<and>
           (\<forall>r. deliver now (map fst (ss_queue s')) r = protocolViolation r)"
proof -
  let ?m = "delta_batch share e rows" and ?n = "DeltaNote share e (of_nat (jr_Seq (last rows)))"
  have "send_page cd share e rows s = (ok, s\<lparr>ss_queue := [(MIndexDeltaBatch ?m, ?n)]\<rparr>)"
  proof -
    have "send_page cd share e [] s1 = (ok, s1)" for s1 by (simp add: send_page.simps)
    then show ?thesis
      using rows(2) assms(4,5,13) by (subst send_page.simps) (simp add: send_frame_ok Let_def, simp add: delta_batch_def)
  qed
  then have "sendJournalDeltas cd k cfg e (unat (sr_AppliedSeq req)) (ss_store s) s =
      (Inr True, s\<lparr>ss_queue := [(MIndexDeltaBatch ?m, ?n)]\<rparr>)"
    using rows(2,3) assms(2,12) by (subst sendJournalDeltas.simps) (simp add: Let_def rows(1) [symmetric])
  then have ans: "answerSyncRequest cd k fresh i req s = (ok, s\<lparr>ss_queue := [(MIndexDeltaBatch ?m, ?n)]\<rparr>)"
    using assms by (simp add: answerSyncRequest_def Let_def servesOutboundShare_def)
  have "db_ToSeq ?m - db_FromSeq ?m + 1 \<noteq> of_nat (length (db_Entries ?m))"
  proof
    let ?l = "jr_Seq (last rows)" and ?h = "jr_Seq (hd rows)"
    assume "db_ToSeq ?m - db_FromSeq ?m + 1 = of_nat (length (db_Entries ?m))"
    then have "(of_nat (?l - ?h + 1) :: 64 word) = of_nat (length rows)"
      using hole(1) by (simp add: delta_batch_def of_nat_diff add.commute)
    moreover have "?l - ?h + 1 < 2 ^ 64" using hole(2) by simp
    ultimately have "?l - ?h + 1 = length rows" using hole(3) by (rule of_nat64_inj)
    then show False using hole(1,4) by simp
  qed
  then have "ValidateMessage (MIndexDeltaBatch ?m) \<noteq> ok"
    by (auto simp: ValidateMessage_def validateDeltaBatch_def split: option.splits)
  then have "handle_index_frame False False now (MIndexDeltaBatch ?m) r = (True, protocolViolation r)" for r
    by (simp add: handle_index_frame_def handleIndexDeltaBatchFrame_def Let_def)
  then show ?thesis using ans by simp
qed

text \<open>A journal of three entries, the second stamped by a clock that was behind, then pruned.\<close>

definition ex_hole :: store where
  "ex_hole = PruneJournal 500 (snd (PutFile ''x'' 1002 (ex_row ''c'') (snd (PutFile ''x'' 0 (ex_row ''b'')
     (snd (PutFile ''epoch'' 1000 (ex_row ''a'') empty_store))))))"

theorem journal_hole_stalls_witness:
  "\<exists>s'. answerSyncRequest ex_codec 5 ''x'' ''i'' (ex_request\<lparr>sr_Epoch := ''epoch''\<rparr>) (ex_serving\<lparr>ss_store := ex_hole\<rparr>) = (ok, s') \<and>
     deliver 0 (map fst (ss_queue s')) ex_receiving = protocolViolation ex_receiving"
proof -
  let ?s = "ex_serving\<lparr>ss_store := ex_hole\<rparr>" and ?req = "ex_request\<lparr>sr_Epoch := ''epoch''\<rparr>"
  define rows where "rows = JournalSince ''s'' ''epoch'' 0 5 ex_hole"
  have sel: "sr_ShareID ?req = ''s''" "sr_AppliedSeq ?req = 0" "ss_store ?s = ex_hole" by (simp_all add: ex_request_def)
  have seqs: "map jr_Seq rows = [1, 3]" unfolding rows_def by code_simp
  then have len: "length rows = 2" using length_map [of jr_Seq rows] by simp
  have hd: "jr_Seq (hd rows) = 1" "jr_Seq (last rows) = 3" "rows \<noteq> []"
    using seqs hd_map [of rows jr_Seq] last_map [of rows jr_Seq] by auto
  have g: "getShare ?s ''s'' = Some ex_share" "ss_fuse ?s = None" "ss_queue ?s = []"
    "scfg_ShareID ex_share = ''s''" "\<not> OutboundBlocked (scfg_Direction ex_share)"
    by (simp_all add: getShare_def ex_serving_def AddShare_def new_session_def ex_share_def)
  have st: "ShareState ''x'' ''s'' ex_hole = ((''epoch'', 3), ex_hole)" by code_simp
  have can: "canAnswerWithDeltas ?req ''epoch'' (of_nat 3) (of_nat (OldestJournalSeq ''s'' ''epoch'' ex_hole))" by code_simp
  have ni: "\<not> journalHasIgnored ex_share rows"
    by (simp add: journalHasIgnored_def list_ex_iff row_ignored_def cfg_ignored_def ex_share_def)
  obtain j1 j2 where "rows = [j1, j2]" using len by (auto simp: length_Suc_conv numeral_2_eq_2)
  then have pl: "deltaBatchLen ex_codec ''s'' ''epoch'' rows = length rows"
    by (simp add: deltaBatchLen_def EncodedMessageSize_def EncodedEntrySize_def ex_codec_def message_files_def
        batchArrayHeaderSlack_def TargetIndexBatchSize_def)
  from journal_hole_stalls [OF g(1,4,5,2,3) _ _ sel(1), of "''x''" "''epoch''" 3 rows 5 ex_codec "''i''" 0]
  show ?thesis using st can rows_def hd ni pl len sel by auto
qed

text \<open>
  One oversized tombstone blocks every full answer. A tombstone stays valid on the wire
  whatever its digest field holds, and a frame may be larger than the target size of a
  batch. With a codec that writes the digest out, a share whose listing holds a row with a
  digest of more than 3 MiB can never be sent as a snapshot again: every request that the
  journal cannot answer fails.
\<close>

theorem oversized_tombstone_blocks:
  assumes enc: "\<forall>f b. cd_file cd f = Some b \<longrightarrow> length (fi_SHA256 f) \<le> length b"
    and r: "r \<in> set (ListShare share True (snd (ShareState fresh share (ss_store s))))"
      "TargetIndexBatchSize < length (fr_SHA256 r)" "fr_Deleted r"
    and serve: "getShare s share = Some cfg" "servesOutboundShare s share" "\<not> row_ignored cfg r"
    and no: "sr_ShareID req = share" "ShareState fresh share (ss_store s) = ((e, high), db)"
      "\<not> canAnswerWithDeltas req e (of_nat high) (of_nat (OldestJournalSeq share e db))"
  shows "fst (answerSyncRequest cd k fresh i req s) \<noteq> ok \<and>
         validateFileInfo ((Info r)\<lparr>fi_SHA256 := x\<rparr>) = validateFileInfo (Info r)"
proof -
  have fit: "r \<notin> set (take (fit_len (\<lambda>r. EncodedEntrySize (cd_file cd) (Info r)) used rows) rows)" for used rows
  proof (induction "\<lambda>r. EncodedEntrySize (cd_file cd) (Info r)" used rows rule: fit_len.induct)
    case (2 used y rows)
    have "TargetIndexBatchSize < used + n" if "EncodedEntrySize (cd_file cd) (Info r) = Inr n" for n
      using that enc r(2) by (fastforce simp: EncodedEntrySize_def Info_sel split: option.splits)
    then show ?case using 2 by (auto split: sum.split)
  qed simp
  then have plan: "r \<notin> set (take (snapshotBatchLen cd share i b rows) rows)" for b rows
    by (simp add: snapshotBatchLen_def split: sum.split)
  have batches: "r \<in> set rows \<Longrightarrow> isl (fst (send_batches cd share i b rows s1))" for b rows s1
  proof (induction "length rows" arbitrary: rows b s1 rule: less_induct)
    case less
    let ?n = "snapshotBatchLen cd share i b rows"
    have "rows \<noteq> []" using less.prems by auto
    moreover have "r \<in> set (drop ?n rows)" using less.prems plan [of b rows] by (metis append_take_drop_id UnE set_append)
    ultimately show ?case
      using less.hyps [of "drop ?n rows"] by (subst send_batches.simps) (auto simp: Let_def split: prod.split bool.split)
  qed
  let ?rows = "filterIgnoredRows cfg (ListShare share True db)"
  have "r \<in> set ?rows" using r(1) no(2) serve(3) by (simp add: filterIgnoredRows_def)
  then have "isl (fst (send_batches cd share i 0 ?rows s1))" for s1 by (rule batches)
  then have "fst (send_snapshot cd share i e high ?rows s1) \<noteq> ok" for s1
    by (auto simp: send_snapshot_def split: prod.split bool.split sum.split) (metis fst_conv sum.disc(2))
  then have "fst (answerSyncRequest cd k fresh i req s) \<noteq> ok"
    using serve no by (simp add: answerSyncRequest_def Let_def)
  moreover have "validateFileInfo ((Info r)\<lparr>fi_SHA256 := x\<rparr>) = validateFileInfo (Info r)"
    using r(3) by (simp add: validateFileInfo_def Info_def split: option.split)
  ultimately show ?thesis by simp
qed

text \<open>A share whose only row is such a tombstone, and a codec that writes digests out.\<close>

definition ex_tombstone :: FileRow where
  "ex_tombstone = (ex_row ''a.txt'')\<lparr>fr_Deleted := True, fr_SHA256 := replicate (Suc TargetIndexBatchSize) 0\<rparr>"

definition ex_blocked :: store where
  "ex_blocked = empty_store\<lparr>files := fmupd (''s'', ''a.txt'') ex_tombstone fmempty,
     share_state := fmupd ''s'' (''epoch'', 1) fmempty\<rparr>"

theorem oversized_tombstone_blocks_witness:
  "fst (answerSyncRequest (ex_codec\<lparr>cd_file := (\<lambda>f. Some (fi_SHA256 f))\<rparr>) 5 ''x'' ''i'' ex_request
      (ex_serving\<lparr>ss_store := ex_blocked\<rparr>)) \<noteq> ok"
proof -
  let ?s = "ex_serving\<lparr>ss_store := ex_blocked\<rparr>"
  have g: "getShare ?s ''s'' = Some ex_share" "servesOutboundShare ?s ''s''" "\<not> row_ignored ex_share ex_tombstone"
    by (simp_all add: servesOutboundShare_def getShare_def ex_serving_def AddShare_def new_session_def ex_share_def
        row_ignored_def cfg_ignored_def)
  have st: "ShareState ''x'' ''s'' (ss_store ?s) = ((''epoch'', 0), ex_blocked)"
    by (simp add: ShareState_def ensure_state_def ex_blocked_def empty_store_def Let_def)
  have "ordered_rows (files ex_blocked) (\<lambda>(sh, p). if sh = ''s'' then Some p else None) (Pair ''s'') = [ex_tombstone]"
    by (simp add: ordered_rows_def ex_blocked_def sorted_list_of_fset.rep_eq ffilter.rep_eq List.map_filter_def)
  then have l: "ex_tombstone \<in> set (ListShare ''s'' True (snd (ShareState ''x'' ''s'' (ss_store ?s))))"
    unfolding st by (simp add: ListShare_def ex_tombstone_def ex_row_def FileRowFromInfo_def)
  have t: "TargetIndexBatchSize < length (fr_SHA256 ex_tombstone)" "fr_Deleted ex_tombstone" by (simp_all add: ex_tombstone_def)
  have no: "\<not> canAnswerWithDeltas ex_request ''epoch'' (of_nat 0) (of_nat (OldestJournalSeq ''s'' ''epoch'' ex_blocked))"
    "sr_ShareID ex_request = ''s''" by (simp_all add: canAnswerWithDeltas_def ex_request_def)
  show ?thesis
    using oversized_tombstone_blocks [OF _ l t g no(2) st no(1), of "ex_codec\<lparr>cd_file := (\<lambda>f. Some (fi_SHA256 f))\<rparr>"] by simp
qed

end
