(* ===== verification/FileTransfer.thy ===== *)
theory FileTransfer
  imports IndexSync
begin

text \<open>
  Moving file content between two nodes: the serving half of \<^verbatim>\<open>internal/sync/transfer.go\<close>
  (\<open>transferResponse\<close>, \<open>handleFileRequest\<close>, \<open>streamFile\<close>), the tables that route frames to the
  transfers in flight (\<open>routeChunk\<close>, \<open>registerServe\<close> and the bookkeeping of \<open>pullFile\<close>) and the
  file frames of \<^verbatim>\<open>internal/sync/dispatch.go\<close>. The receive loop of \<open>pullFile\<close> is in the theory
  of applied actions.

  What the system answers while a file is served is an argument, \<open>serve_env\<close>: the file as
  it is opened, with what each read returns and what it looks like before and after, so
  that another process may change it at any moment; whether the writer takes a frame; when
  the context of the transfer ends; SHA-256 and the texts of system errors. Steps of
  concurrent transfers are interleaved by a step relation.

  The results: every request gets at most one final answer, and exactly one when nothing
  breaks; a pull that succeeds got the content the server's index describes, even if the
  file changed while it was read; an unchanged file arrives whole; nothing but live,
  shared, unignored content leaves the node; each pull sees its own frames in order, and
  what is buffered is bounded.
\<close>

section \<open>The outside\<close>

datatype read_end = More | AtEOF | ReadFailed

record open_file =
  of_before :: "(int \<times> int) option"
  of_reads :: "(bytes \<times> read_end) list"
  of_after :: "(int \<times> int) option"

datatype write_answer = Accepted | CtxDone | Broken

datatype serve_err =
    AlreadyTerminal
  | Canceled
  | StatBefore
  | StatAfter
  | FileChanged
  | WriteChunk int
  | ReadAt int
  | OffsetDiverged
  | WriteEOF

record serve_env =
  se_lstat :: "string \<Rightarrow> lstat_result"
  se_root :: "string \<Rightarrow> string option"
  se_file :: "string \<Rightarrow> string \<Rightarrow> string + open_file"
  se_write :: "nat \<Rightarrow> write_answer"
  se_done :: "nat \<Rightarrow> bool"
  se_sha256 :: "bytes \<Rightarrow> bytes"
  se_text :: "serve_err \<Rightarrow> string"

definition ErrCodeFileNotFound :: string where "ErrCodeFileNotFound = ''file_not_found''"
definition ErrCodeVersionChanged :: string where "ErrCodeVersionChanged = ''version_changed''"
definition ErrCodeUnsupportedOffset :: string where "ErrCodeUnsupportedOffset = ''unsupported_offset''"
definition ErrCodeTransferFailed :: string where "ErrCodeTransferFailed = ''transfer_failed''"

definition maxConcurrentPulls :: nat where "maxConcurrentPulls = 4"
definition maxConcurrentServes :: nat where "maxConcurrentServes = 4"
definition pullQueueDepth :: nat where "pullQueueDepth = 2"
definition staleTransferLogInterval :: int where "staleTransferLogInterval = 60000000000"

section \<open>Answering a request\<close>

text \<open>The frames of a response, in the order they were handed to the writer. Chunks travel
  on the bulk lane and an error on the control lane, which may overtake them.\<close>

datatype out_frame = OutChunk FileChunkHeader bytes | OutError ErrorMsg

record transferResponse =
  tx_req :: FileRequest
  tx_version :: version_vector
  tx_offset :: int
  tx_terminal :: bool
  tx_frames :: "out_frame list"
  tx_tick :: nat

definition newTransferResponse :: "FileRequest \<Rightarrow> transferResponse" where
  "newTransferResponse req =
     \<lparr>tx_req = req, tx_version = fmempty, tx_offset = 0, tx_terminal = False, tx_frames = [], tx_tick = 0\<rparr>"

definition setVersion :: "version_vector \<Rightarrow> transferResponse \<Rightarrow> transferResponse" where
  "setVersion v r = r\<lparr>tx_version := v\<rparr>"

definition chunk_header :: "FileRequest \<Rightarrow> version_vector \<Rightarrow> int \<Rightarrow> bool \<Rightarrow> FileChunkHeader" where
  "chunk_header req v off eof =
     \<lparr>ch_TransferID = rq_TransferID req, ch_ShareID = rq_ShareID req, ch_RelPath = rq_RelPath req,
      ch_Version = v, ch_Offset = off, ch_EOF = eof\<rparr>"

text \<open>One frame for the writer. A failure is reported as \<open>e\<close>, except that the end of the
  transfer's context stays recognisable.\<close>

definition put_frame ::
  "serve_env \<Rightarrow> serve_err \<Rightarrow> out_frame \<Rightarrow> transferResponse \<Rightarrow> serve_err err \<times> transferResponse" where
  "put_frame env e f r =
     (let r1 = r\<lparr>tx_tick := Suc (tx_tick r)\<rparr> in
      case se_write env (tx_tick r) of
        Accepted \<Rightarrow> (ok, r1\<lparr>tx_frames := tx_frames r1 @ [f]\<rparr>)
      | CtxDone \<Rightarrow> (Some Canceled, r1)
      | Broken \<Rightarrow> (Some e, r1))"

definition response_send :: "serve_env \<Rightarrow> bytes \<Rightarrow> transferResponse \<Rightarrow> serve_err err \<times> transferResponse" where
  "response_send env data r =
     (if tx_terminal r then (Some AlreadyTerminal, r)
      else case put_frame env (WriteChunk (tx_offset r))
                  (OutChunk (chunk_header (tx_req r) (tx_version r) (tx_offset r) False) data) r of
             (Some e, r1) \<Rightarrow> (Some e, r1)
           | (None, r1) \<Rightarrow> (ok, r1\<lparr>tx_offset := tx_offset r1 + int (length data)\<rparr>))"

definition response_finish :: "serve_env \<Rightarrow> transferResponse \<Rightarrow> serve_err err \<times> transferResponse" where
  "response_finish env r =
     (if tx_terminal r then (Some AlreadyTerminal, r)
      else case put_frame env WriteEOF
                  (OutChunk (chunk_header (tx_req r) (tx_version r) (tx_offset r) True) []) r of
             (Some e, r1) \<Rightarrow> (Some e, r1)
           | (None, r1) \<Rightarrow> (ok, r1\<lparr>tx_terminal := True\<rparr>))"

text \<open>The error is written under no context of its own, and a failure to write it is ignored.\<close>

definition response_fail :: "serve_env \<Rightarrow> string \<Rightarrow> string \<Rightarrow> transferResponse \<Rightarrow> transferResponse" where
  "response_fail env code msg r =
     (if tx_terminal r then r
      else r\<lparr>tx_terminal := True, tx_tick := Suc (tx_tick r),
             tx_frames := tx_frames r @
               (if se_write env (tx_tick r) = Broken then []
                else [OutError \<lparr>er_Code = code, er_Msg = msg, er_ShareID = rq_ShareID (tx_req r),
                        er_RelPath = rq_RelPath (tx_req r), er_TransferID = rq_TransferID (tx_req r)\<rparr>])\<rparr>)"

section \<open>Streaming a file\<close>

text \<open>The read loop. A read fills at most the buffer; past the listed reads the file is at
  its end. \<open>h\<close> is what has been hashed so far.\<close>

fun stream_loop ::
  "serve_env \<Rightarrow> (bytes \<times> read_end) list \<Rightarrow> bytes \<Rightarrow> transferResponse \<Rightarrow> (serve_err + bytes) \<times> transferResponse" where
  "stream_loop env [] h r = (if se_done env (tx_tick r) then Inl Canceled else Inr h, r)"
| "stream_loop env ((d, e) # rest) h r =
     (if se_done env (tx_tick r) then (Inl Canceled, r)
      else
        let data = take MaxFileChunkData d;
            sent = (if data = [] then (ok, r) else response_send env data r)
        in case fst sent of
             Some err \<Rightarrow> (Inl err, snd sent)
           | None \<Rightarrow>
              (case e of
                 AtEOF \<Rightarrow> (Inr (h @ data), snd sent)
               | ReadFailed \<Rightarrow> (Inl (ReadAt (int (length (h @ data)))), snd sent)
               | More \<Rightarrow> stream_loop env rest (h @ data) (snd sent)))"

declare stream_loop.simps [simp del]

definition streamFile ::
  "serve_env \<Rightarrow> open_file \<Rightarrow> FileRow \<Rightarrow> transferResponse \<Rightarrow> serve_err err \<times> transferResponse" where
  "streamFile env f row r =
     (case of_before f of
        None \<Rightarrow> (Some StatBefore, r)
      | Some before \<Rightarrow>
         if fst before \<noteq> fr_Size row \<or> snd before \<noteq> fr_MTimeNS row then (Some FileChanged, r)
         else case stream_loop env (of_reads f) [] r of
           (Inl e, r1) \<Rightarrow> (Some e, r1)
         | (Inr content, r1) \<Rightarrow>
            (case of_after f of
               None \<Rightarrow> (Some StatAfter, r1)
             | Some after \<Rightarrow>
                if fst after \<noteq> fst before \<or> snd after \<noteq> snd before \<or> int (length content) \<noteq> fr_Size row \<or>
                   se_sha256 env content \<noteq> fr_SHA256 row
                then (Some FileChanged, r1)
                else if tx_offset r1 \<noteq> int (length content) then (Some OffsetDiverged, r1)
                else response_finish env r1))"

text \<open>\<open>openInShare\<close>; a failure carries the text of the \<open>PathError\<close>, which names the path.\<close>

definition openInShare :: "serve_env \<Rightarrow> string \<Rightarrow> string \<Rightarrow> string + open_file" where
  "openInShare env shareRoot relpath =
     (case se_root env shareRoot of
        Some reason \<Rightarrow> Inl (''open '' @ shareRoot @ '': '' @ reason)
      | None \<Rightarrow> (case se_file env shareRoot relpath of
            Inl reason \<Rightarrow> Inl (''openat '' @ relpath @ '': '' @ reason)
          | Inr f \<Rightarrow> Inr f))"

text \<open>The part of \<open>handleFileRequest\<close> that runs once the transfer is registered.\<close>

definition serve_row ::
  "serve_env \<Rightarrow> ShareConfig \<Rightarrow> FileRequest \<Rightarrow> FileRow \<Rightarrow> transferResponse \<Rightarrow> transferResponse" where
  "serve_row env cfg req row r =
     (case JoinSharePath (se_lstat env) (scfg_Root cfg) (rq_RelPath req) of
        Inl e \<Rightarrow> response_fail env ErrCodeFileNotFound ''invalid path'' r
      | Inr p \<Rightarrow>
         if fr_Type row = FileTypeSymlink
         then response_fail env ErrCodeFileNotFound ''symlinks are not synced'' r
         else (case openInShare env (scfg_Root cfg) (rq_RelPath req) of
                 Inl e \<Rightarrow> response_fail env ErrCodeFileNotFound (''open: '' @ e) r
               | Inr f \<Rightarrow>
                   (case streamFile env f row r of
                      (None, r1) \<Rightarrow> r1
                    | (Some Canceled, r1) \<Rightarrow> r1
                    | (Some FileChanged, r1) \<Rightarrow> response_fail env ErrCodeVersionChanged ''file changed during transfer'' r1
                    | (Some e, r1) \<Rightarrow> response_fail env ErrCodeTransferFailed (se_text env e) r1)))"

definition serve_share :: "serve_env \<Rightarrow> FileRequest \<Rightarrow> Session \<Rightarrow> transferResponse \<Rightarrow> transferResponse" where
  "serve_share env req s r =
     (case getShare s (rq_ShareID req) of
        None \<Rightarrow> response_fail env ErrCodeFileNotFound ''unknown share'' r
      | Some cfg \<Rightarrow>
         if OutboundBlocked (scfg_Direction cfg) then response_fail env ErrCodeFileNotFound ''unknown share'' r
         else if cfg_ignored cfg (rq_RelPath req) False then response_fail env ErrCodeFileNotFound ''file not found'' r
         else (case GetFile (rq_ShareID req) (rq_RelPath req) (ss_store s) of
                 Inl e \<Rightarrow> response_fail env ErrCodeFileNotFound ''file not found'' r
               | Inr row \<Rightarrow>
                  if fr_Deleted row then response_fail env ErrCodeFileNotFound ''file not found'' r
                  else if \<not> Equal (fr_Version row) (rq_Version req)
                  then response_fail env ErrCodeVersionChanged ''version has moved on'' r
                  else serve_row env cfg req row (setVersion (fr_Version row) r)))"

section \<open>The transfers in flight\<close>

text \<open>
  \<open>tf_serves\<close> is \<open>serveCancel\<close>, with whether the transfer was cancelled; \<open>tf_jobs\<close> are the
  accepted requests whose goroutine has not registered yet and \<open>tf_running\<close> those being
  served. \<open>tf_pulls\<close> is \<open>pullTbl\<close>, each entry with its channel. \<open>tf_routed\<close> and \<open>tf_taken\<close> record,
  for each pull, the frames the read loop delivered to it and those it has taken.
\<close>

record transfers =
  tf_session :: Session
  tf_serves :: "(string, bool) fmap"
  tf_serveSem :: nat
  tf_jobs :: "FileRequest list"
  tf_running :: "FileRequest list"
  tf_pulls :: "(string, arrival list) fmap"
  tf_pullSem :: nat
  tf_servesStarted :: nat
  tf_cancellations :: nat
  tf_stale :: nat
  tf_lastStaleLog :: "int option"
  tf_staleSuppressed :: nat
  tf_staleReports :: "nat list"
  tf_routed :: "string \<Rightarrow> arrival list"
  tf_taken :: "string \<Rightarrow> arrival list"

definition new_transfers :: "Session \<Rightarrow> transfers" where
  "new_transfers s =
     \<lparr>tf_session = s, tf_serves = fmempty, tf_serveSem = 0, tf_jobs = [], tf_running = [], tf_pulls = fmempty,
      tf_pullSem = 0, tf_servesStarted = 0, tf_cancellations = 0, tf_stale = 0, tf_lastStaleLog = None,
      tf_staleSuppressed = 0, tf_staleReports = [], tf_routed = (\<lambda>i. []), tf_taken = (\<lambda>i. [])\<rparr>"

definition registerServe :: "string \<Rightarrow> transfers \<Rightarrow> bool \<times> transfers" where
  "registerServe i t =
     (if fmlookup (tf_serves t) i \<noteq> None then (False, t)
      else (True, t\<lparr>tf_serves := fmupd i False (tf_serves t)\<rparr>))"

definition unregisterServe :: "string \<Rightarrow> transfers \<Rightarrow> transfers" where
  "unregisterServe i t = t\<lparr>tf_serves := fmdrop i (tf_serves t)\<rparr>"

definition cancelServe :: "string \<Rightarrow> transfers \<Rightarrow> transfers" where
  "cancelServe i t =
     (if fmlookup (tf_serves t) i \<noteq> None then t\<lparr>tf_serves := fmupd i True (tf_serves t)\<rparr> else t)"

text \<open>\<open>handleFileRequest\<close>, up to the registration and as a whole.\<close>

definition begin_serve :: "serve_env \<Rightarrow> FileRequest \<Rightarrow> transfers \<Rightarrow> (transferResponse + transferResponse) \<times> transfers" where
  "begin_serve env req t =
     (let r = newTransferResponse req; t1 = t\<lparr>tf_servesStarted := Suc (tf_servesStarted t)\<rparr> in
      if rq_Offset req \<noteq> 0
      then (Inl (response_fail env ErrCodeUnsupportedOffset ''resume offsets are not supported'' r), t1)
      else case registerServe (rq_TransferID req) t1 of
             (False, t2) \<Rightarrow> (Inl (response_fail env ErrCodeTransferFailed ''duplicate transfer id'' r), t2)
           | (True, t2) \<Rightarrow> (Inr r, t2))"

definition handleFileRequest :: "serve_env \<Rightarrow> FileRequest \<Rightarrow> transfers \<Rightarrow> transferResponse \<times> transfers" where
  "handleFileRequest env req t =
     (case begin_serve env req t of
        (Inl r, t1) \<Rightarrow> (r, t1)
      | (Inr r, t1) \<Rightarrow> (serve_share env req (tf_session t1) r, unregisterServe (rq_TransferID req) t1))"

definition on_session :: "(Session \<Rightarrow> Session) \<Rightarrow> transfers \<Rightarrow> transfers" where
  "on_session f t = t\<lparr>tf_session := f (tf_session t)\<rparr>"

definition noteStaleTransferFrame :: "int \<Rightarrow> transfers \<Rightarrow> transfers" where
  "noteStaleTransferFrame now t =
     (let t1 = on_session protocolViolation (t\<lparr>tf_stale := Suc (tf_stale t)\<rparr>) in
      if (case tf_lastStaleLog t of None \<Rightarrow> True | Some l \<Rightarrow> now - l \<ge> staleTransferLogInterval)
      then t1\<lparr>tf_staleReports := tf_staleReports t @ [Suc (tf_staleSuppressed t)], tf_staleSuppressed := 0,
              tf_lastStaleLog := Some now\<rparr>
      else t1\<lparr>tf_staleSuppressed := Suc (tf_staleSuppressed t)\<rparr>)"

text \<open>The read loop waits, the value \<open>None\<close>, while the channel of the pull is full.\<close>

definition routeChunk :: "int \<Rightarrow> string \<Rightarrow> arrival \<Rightarrow> transfers \<Rightarrow> transfers option" where
  "routeChunk now i c t =
     (case fmlookup (tf_pulls t) i of
        None \<Rightarrow> Some (noteStaleTransferFrame now t)
      | Some q \<Rightarrow>
          if length q < pullQueueDepth
          then Some (t\<lparr>tf_pulls := fmupd i (q @ [c]) (tf_pulls t),
                       tf_routed := (tf_routed t)(i := tf_routed t i @ [c])\<rparr>)
          else None)"

text \<open>\<open>pullFile\<close> before and after its receive loop: a slot and an entry are taken, the request
  goes out; at the end both are given back, and a transfer that did not end on the peer's
  word is cancelled there.\<close>

definition end_pull :: "string \<Rightarrow> bool \<Rightarrow> transfers \<Rightarrow> transfers" where
  "end_pull i terminal t =
     (let t1 = (if terminal then t
                else on_session (\<lambda>s. snd (send_frame (MCancelTransfer i) NoNote s))
                       (t\<lparr>tf_cancellations := Suc (tf_cancellations t)\<rparr>))
      in t1\<lparr>tf_pulls := fmdrop i (tf_pulls t1), tf_pullSem := tf_pullSem t1 - 1\<rparr>)"

definition begin_pull :: "string \<Rightarrow> string \<Rightarrow> string \<Rightarrow> version_vector \<Rightarrow> transfers \<Rightarrow> bool \<times> transfers" where
  "begin_pull i shareID wireRelPath version t =
     (if fmlookup (tf_pulls t) i \<noteq> None then (False, t)
      else
        let t1 = t\<lparr>tf_pullSem := Suc (tf_pullSem t), tf_pulls := fmupd i [] (tf_pulls t),
                   tf_routed := (tf_routed t)(i := []), tf_taken := (tf_taken t)(i := [])\<rparr>;
            req = \<lparr>rq_TransferID = i, rq_ShareID = shareID, rq_RelPath = wireRelPath,
                   rq_Version = version, rq_Offset = 0\<rparr>;
            sent = send_frame (MFileRequest req) NoNote (tf_session t1);
            t2 = t1\<lparr>tf_session := snd sent\<rparr>
        in if fst sent then (True, t2) else (False, end_pull i True t2))"

definition take_chunk :: "string \<Rightarrow> transfers \<Rightarrow> (arrival \<times> transfers) option" where
  "take_chunk i t =
     (case fmlookup (tf_pulls t) i of
        Some (c # q) \<Rightarrow> Some (c, t\<lparr>tf_pulls := fmupd i q (tf_pulls t),
                                  tf_taken := (tf_taken t)(i := tf_taken t i @ [c])\<rparr>)
      | _ \<Rightarrow> None)"

section \<open>File frames\<close>

definition handleFileRequestFrame :: "FileRequest \<Rightarrow> transfers \<Rightarrow> (bool \<times> transfers)" where
  "handleFileRequestFrame req t =
     (if ValidateMessage (MFileRequest req) \<noteq> ok then (True, on_session protocolViolation t)
      else if \<not> servesOutboundShare (tf_session t) (rq_ShareID req)
      then (True, on_session (\<lambda>s. snd (send_frame (MError
             \<lparr>er_Code = ErrCodeFileNotFound, er_Msg = ''unknown share'', er_ShareID = rq_ShareID req,
              er_RelPath = rq_RelPath req, er_TransferID = rq_TransferID req\<rparr>) NoNote (rejectShareOperation s))) t)
      else if tf_serveSem t \<ge> maxConcurrentServes then (False, on_session rejectWork t)
      else (True, t\<lparr>tf_serveSem := Suc (tf_serveSem t), tf_jobs := tf_jobs t @ [req]\<rparr>))"

definition handleFileChunkFrame ::
  "(bytes \<Rightarrow> (FileChunkHeader \<times> int) option) \<Rightarrow> int \<Rightarrow> bytes \<Rightarrow> transfers \<Rightarrow> (bool \<times> transfers) option" where
  "handleFileChunkFrame decode now payload t =
     (case DecodeFileChunk decode payload of
        Inl e \<Rightarrow> Some (True, on_session protocolViolation t)
      | Inr (hdr, data) \<Rightarrow>
          map_option (Pair True) (routeChunk now (ch_TransferID hdr) (Chunk hdr data (ch_EOF hdr)) t))"

definition handleErrorFrame :: "int \<Rightarrow> ErrorMsg \<Rightarrow> transfers \<Rightarrow> (bool \<times> transfers) option" where
  "handleErrorFrame now e t =
     (if ValidateMessage (MError e) \<noteq> ok then Some (True, on_session protocolViolation t)
      else if er_TransferID e \<noteq> [] then map_option (Pair True) (routeChunk now (er_TransferID e) ChunkErr t)
      else Some (True, t))"

definition handleCancelTransferFrame :: "string \<Rightarrow> transfers \<Rightarrow> bool \<times> transfers" where
  "handleCancelTransferFrame i t =
     (if ValidateMessage (MCancelTransfer i) \<noteq> ok then (True, on_session protocolViolation t)
      else (True, cancelServe i (t\<lparr>tf_cancellations := Suc (tf_cancellations t)\<rparr>)))"

section \<open>The shape of a response\<close>

fun chunk_run :: "FileRequest \<Rightarrow> version_vector \<Rightarrow> int \<Rightarrow> bytes list \<Rightarrow> out_frame list" where
  "chunk_run req v off [] = []"
| "chunk_run req v off (d # ds) =
     OutChunk (chunk_header req v off False) d # chunk_run req v (off + int (length d)) ds"

lemma chunk_run_append:
  "chunk_run req v off (ds @ es) = chunk_run req v off ds @ chunk_run req v (off + int (length (concat ds))) es"
  by (induction ds arbitrary: off) (simp_all add: add.assoc)

text \<open>\<open>streamed ds r0 r\<close>: the response has grown by the data \<open>ds\<close>, in chunks that fit a frame.\<close>

definition streamed :: "bytes list \<Rightarrow> transferResponse \<Rightarrow> transferResponse \<Rightarrow> bool" where
  "streamed ds r0 r \<longleftrightarrow>
     tx_req r = tx_req r0 \<and> tx_version r = tx_version r0 \<and> \<not> tx_terminal r \<and>
     tx_frames r = tx_frames r0 @ chunk_run (tx_req r0) (tx_version r0) (tx_offset r0) ds \<and>
     tx_offset r = tx_offset r0 + int (length (concat ds)) \<and>
     (\<forall>d \<in> set ds. d \<noteq> [] \<and> length d \<le> MaxFileChunkData)"

lemma streamed_refl [simp]: "\<not> tx_terminal r \<Longrightarrow> streamed [] r r"
  by (simp add: streamed_def)

lemma streamed_trans: "streamed ds r0 r1 \<Longrightarrow> streamed es r1 r2 \<Longrightarrow> streamed (ds @ es) r0 r2"
  by (auto simp: streamed_def chunk_run_append)

lemma send_streamed:
  assumes "\<not> tx_terminal r" "data \<noteq> []" "length data \<le> MaxFileChunkData" "response_send env data r = (e, r')"
  shows "\<exists>ds. streamed ds r r' \<and> (e = ok \<longrightarrow> concat ds = data)"
proof (cases e)
  case None
  then have "streamed [data] r r'" using assms
    by (auto simp: response_send_def put_frame_def streamed_def Let_def split: write_answer.splits)
  then show ?thesis by (intro exI [of _ "[data]"]) simp
next
  case (Some x)
  then have "streamed [] r r'" using assms
    by (auto simp: response_send_def put_frame_def streamed_def Let_def split: write_answer.splits)
  then show ?thesis using Some by auto
qed

lemma stream_loop_streamed:
  assumes "\<not> tx_terminal r" "stream_loop env reads h r = (res, r')"
  shows "\<exists>ds. streamed ds r r' \<and> (\<forall>c. res = Inr c \<longrightarrow> c = h @ concat ds)"
  using assms
proof (induction env reads h r arbitrary: res r' rule: stream_loop.induct)
  case (1 env h r)
  then show ?case by (intro exI [of _ "[]"]) (auto simp: stream_loop.simps split: if_splits)
next
  case (2 env d e rest h r)
  show ?case
  proof (cases "se_done env (tx_tick r)")
    case True
    then show ?thesis using 2(2,3) by (intro exI [of _ "[]"]) (auto simp: stream_loop.simps)
  next
    case False
    let ?d = "take MaxFileChunkData d"
    obtain x r1 where sent: "(if ?d = [] then (ok, r) else response_send env ?d r) = (x, r1)" by fastforce
    have "\<exists>ds. streamed ds r r1 \<and> (x = ok \<longrightarrow> concat ds = ?d)"
    proof (cases "?d = []")
      case True
      then show ?thesis using sent 2(2) by (intro exI [of _ "[]"]) (auto split: if_splits)
    next
      case False
      then show ?thesis using sent 2(2) send_streamed [of r ?d env x r1] by (simp split: if_splits)
    qed
    then obtain ds where ds: "streamed ds r r1" "x = ok \<Longrightarrow> concat ds = ?d" by blast
    have nt: "\<not> tx_terminal r1" using ds(1) by (simp add: streamed_def)
    show ?thesis
    proof (cases "x = ok \<and> e = More")
      case True
      then have rec: "stream_loop env rest (h @ ?d) r1 = (res, r')"
        using 2(3) False sent by (simp add: stream_loop.simps Let_def)
      have "\<exists>es. streamed es r1 r' \<and> (\<forall>c. res = Inr c \<longrightarrow> c = (h @ ?d) @ concat es)"
        using 2(1) [OF False refl refl] sent True nt rec by simp
      then obtain es where es: "streamed es r1 r'" "\<forall>c. res = Inr c \<longrightarrow> c = (h @ ?d) @ concat es" by blast
      then show ?thesis using streamed_trans [OF ds(1) es(1)] True ds(2) by (intro exI [of _ "ds @ es"]) simp
    next
      case F: False
      then have "r' = r1" "\<forall>c. res = Inr c \<longrightarrow> x = ok \<and> c = h @ ?d"
        using 2(3) False sent by (auto simp: stream_loop.simps Let_def split: option.splits read_end.splits)
      then show ?thesis using ds by (intro exI [of _ ds]) auto
    qed
  qed
qed

text \<open>How a response ends: open, with the final chunk of a complete file, or with an error.\<close>

datatype ending = Unfinished | Complete | Refused

definition ends_as :: "ending \<Rightarrow> FileRequest \<Rightarrow> version_vector \<Rightarrow> int \<Rightarrow> out_frame list \<Rightarrow> bool" where
  "ends_as x req v off fs \<longleftrightarrow> (case x of
       Unfinished \<Rightarrow> fs = []
     | Complete \<Rightarrow> fs = [OutChunk (chunk_header req v off True) []]
     | Refused \<Rightarrow> (\<exists>code msg. fs = [OutError \<lparr>er_Code = code, er_Msg = msg, er_ShareID = rq_ShareID req,
                      er_RelPath = rq_RelPath req, er_TransferID = rq_TransferID req\<rparr>]))"

text \<open>What it takes for the content of a file to be sent: the row it is sent for.\<close>

definition served_row :: "serve_env \<Rightarrow> FileRequest \<Rightarrow> Session \<Rightarrow> FileRow \<Rightarrow> bool" where
  "served_row env req s row \<longleftrightarrow>
     (\<exists>cfg p. getShare s (rq_ShareID req) = Some cfg \<and> \<not> OutboundBlocked (scfg_Direction cfg) \<and>
        \<not> cfg_ignored cfg (rq_RelPath req) False \<and>
        JoinSharePath (se_lstat env) (scfg_Root cfg) (rq_RelPath req) = Inr p) \<and>
     GetFile (rq_ShareID req) (rq_RelPath req) (ss_store s) = Inr row \<and> \<not> fr_Deleted row \<and>
     fr_Type row \<noteq> FileTypeSymlink \<and> Equal (fr_Version row) (rq_Version req)"

definition response_ok ::
  "serve_env \<Rightarrow> FileRequest \<Rightarrow> Session \<Rightarrow> transferResponse \<Rightarrow> version_vector \<Rightarrow> bytes list \<Rightarrow> ending \<Rightarrow> bool" where
  "response_ok env req s r v ds x \<longleftrightarrow>
     (\<exists>fin. tx_frames r = chunk_run req v 0 ds @ fin \<and> ends_as x req v (int (length (concat ds))) fin) \<and>
     (\<forall>d \<in> set ds. d \<noteq> [] \<and> length d \<le> MaxFileChunkData) \<and>
     (ds \<noteq> [] \<or> x = Complete \<longrightarrow> (\<exists>row. served_row env req s row \<and> v = fr_Version row \<and>
        (x = Complete \<longrightarrow> se_sha256 env (concat ds) = fr_SHA256 row \<and> int (length (concat ds)) = fr_Size row)))"

text \<open>An environment in which the writer takes every frame and nobody cancels.\<close>

definition steady :: "serve_env \<Rightarrow> bool" where
  "steady env \<longleftrightarrow> (\<forall>n. se_write env n = Accepted) \<and> (\<forall>n. \<not> se_done env n)"

lemma put_frame_steady [simp]: "steady env \<Longrightarrow>
    put_frame env e f r = (ok, r\<lparr>tx_tick := Suc (tx_tick r), tx_frames := tx_frames r @ [f]\<rparr>)"
  by (simp add: put_frame_def steady_def Let_def)

lemma send_steady:
  "steady env \<Longrightarrow> \<not> tx_terminal r \<Longrightarrow> \<exists>r1. response_send env data r = (ok, r1) \<and> \<not> tx_terminal r1"
  by (simp add: response_send_def)

lemma stream_loop_steady:
  assumes "steady env"
  shows "\<not> tx_terminal r \<Longrightarrow> fst (stream_loop env reads h r) \<noteq> Inl Canceled"
proof (induction reads arbitrary: h r)
  case Nil
  then show ?case using assms by (simp add: stream_loop.simps steady_def)
next
  case (Cons p rest)
  obtain d e where p: "p = (d, e)" by (cases p)
  have nd: "\<not> se_done env (tx_tick r)" using assms by (simp add: steady_def)
  obtain r1 where r1: "(if take MaxFileChunkData d = [] then (ok, r) else response_send env (take MaxFileChunkData d) r) = (ok, r1)"
      "\<not> tx_terminal r1"
    using send_steady [OF assms Cons(2), of "take MaxFileChunkData d"] Cons(2)
    by (cases "take MaxFileChunkData d = []") auto
  show ?case using Cons(1) [OF r1(2)] nd r1(1)
    by (cases e) (simp_all add: p stream_loop.simps Let_def)
qed

lemma fail_streamed:
  assumes "streamed ds r0 r" "tx_frames r0 = []" "tx_offset r0 = 0" "tx_req r0 = req"
  shows "\<exists>x fin. tx_frames (response_fail env code msg r) = chunk_run req (tx_version r0) 0 ds @ fin \<and>
           ends_as x req (tx_version r0) (int (length (concat ds))) fin \<and> x \<noteq> Complete \<and> (steady env \<longrightarrow> x = Refused)"
proof (cases "se_write env (tx_tick r) = Broken")
  case True
  then show ?thesis using assms
    by (intro exI [of _ Unfinished] exI [of _ "[]"]) (auto simp: streamed_def response_fail_def ends_as_def steady_def)
next
  case False
  then show ?thesis using assms
    by (intro exI [of _ Refused] exI conjI)
      (auto simp: streamed_def response_fail_def ends_as_def)
qed

text \<open>What \<open>streamFile\<close> checks on the way, besides the read loop.\<close>

lemma streamFile_cases:
  assumes "streamFile env f row r = (e, r')"
  obtains (refused) "e \<noteq> ok" "e \<noteq> Some Canceled" "r' = r"
    | (read) err where "e = Some err" "stream_loop env (of_reads f) [] r = (Inl err, r')"
    | (changed) err c where "e = Some err" "err \<noteq> Canceled" "stream_loop env (of_reads f) [] r = (Inr c, r')"
    | (finish) c r1 where "stream_loop env (of_reads f) [] r = (Inr c, r1)" "response_finish env r1 = (e, r')"
        "se_sha256 env c = fr_SHA256 row" "int (length c) = fr_Size row"
proof (cases "\<exists>b. of_before f = Some b \<and> fst b = fr_Size row \<and> snd b = fr_MTimeNS row")
  case False
  then show ?thesis using assms refused by (auto simp: streamFile_def split: option.splits if_splits)
next
  case True
  obtain res r1 where l: "stream_loop env (of_reads f) [] r = (res, r1)" by fastforce
  show ?thesis
  proof (cases res)
    case (Inl err)
    then show ?thesis using assms True l read by (auto simp: streamFile_def)
  next
    case (Inr c)
    show ?thesis
    proof (cases "(e, r') = response_finish env r1 \<and> se_sha256 env c = fr_SHA256 row \<and> int (length c) = fr_Size row")
      case True
      then show ?thesis using l Inr finish by simp
    next
      case False
      then have "r' = r1 \<and> e \<in> {Some StatAfter, Some FileChanged, Some OffsetDiverged}" using assms True l Inr
        by (auto simp: streamFile_def split: option.splits if_splits)
      then show ?thesis using changed [of _ c] l Inr by auto
    qed
  qed
qed

lemma streamed_tick: "streamed ds r0 r \<Longrightarrow> streamed ds r0 (r\<lparr>tx_tick := n\<rparr>)"
  by (simp add: streamed_def)

lemma finish_shape:
  assumes "response_finish env r1 = (e, r')" "streamed ds r r1"
  shows "if e = ok then tx_frames r' = tx_frames r1 @ [OutChunk (chunk_header (tx_req r) (tx_version r) (tx_offset r1) True) []]
         else streamed ds r r'"
proof -
  have "\<not> tx_terminal r1" "tx_req r1 = tx_req r" "tx_version r1 = tx_version r" using assms(2) by (simp_all add: streamed_def)
  then show ?thesis using assms(1) streamed_tick [OF assms(2), of "Suc (tx_tick r1)"]
    by (cases "se_write env (tx_tick r1)") (clarsimp simp: response_finish_def put_frame_def Let_def)+
qed

lemma streamFile_shape:
  assumes "\<not> tx_terminal r" "streamFile env f row r = (e, r')"
  shows "\<exists>ds r1. streamed ds r r1 \<and>
           (if e = ok then tx_frames r' = tx_frames r1 @ [OutChunk (chunk_header (tx_req r) (tx_version r) (tx_offset r1) True) []] \<and>
                 se_sha256 env (concat ds) = fr_SHA256 row \<and> int (length (concat ds)) = fr_Size row
            else streamed ds r r')"
  using assms(2)
proof (cases rule: streamFile_cases)
  case refused
  then show ?thesis using assms(1) by (intro exI [of _ "[]"] exI [of _ r]) simp
next
  case (read err)
  then show ?thesis using stream_loop_streamed [OF assms(1)] by fastforce
next
  case (changed err c)
  then show ?thesis using stream_loop_streamed [OF assms(1)] by fastforce
next
  case (finish c r1)
  obtain ds where ds: "streamed ds r r1" "c = concat ds" using stream_loop_streamed [OF assms(1) finish(1)] by auto
  then show ?thesis using finish_shape [OF finish(2) ds(1)] finish(3,4) by (intro exI [of _ ds] exI [of _ r1]) auto
qed

lemma streamFile_steady:
  assumes "steady env" "\<not> tx_terminal r"
  shows "fst (streamFile env f row r) \<noteq> Some Canceled"
proof
  assume "fst (streamFile env f row r) = Some Canceled"
  then obtain r' where "streamFile env f row r = (Some Canceled, r')" by (metis prod.collapse)
  then show False
  proof (cases rule: streamFile_cases)
    case refused
    then show ?thesis by simp
  next
    case (read err)
    then show ?thesis using stream_loop_steady [OF assms, of "of_reads f" "[]"] by simp
  next
    case (finish c r1)
    then show ?thesis using assms(1) by (cases "tx_terminal r1") (simp_all add: response_finish_def)
  qed auto
qed

lemma response_okI:
  assumes "tx_frames r = chunk_run req v 0 ds @ fin" "ends_as x req v (int (length (concat ds))) fin"
    "\<forall>d \<in> set ds. d \<noteq> [] \<and> length d \<le> MaxFileChunkData" "served_row env req s row" "v = fr_Version row"
    "x = Complete \<Longrightarrow> se_sha256 env (concat ds) = fr_SHA256 row \<and> int (length (concat ds)) = fr_Size row"
  shows "response_ok env req s r v ds x"
  using assms unfolding response_ok_def by blast

lemma fail_at_once:
  assumes "\<not> tx_terminal r" "tx_frames r = []" "tx_req r = req"
  shows "\<exists>v ds x. response_ok env req s (response_fail env code msg r) v ds x \<and> (steady env \<longrightarrow> x \<noteq> Unfinished)"
proof -
  have st: "streamed [] (r\<lparr>tx_offset := 0\<rparr>) (r\<lparr>tx_offset := 0\<rparr>)" using assms(1) by simp
  have eq: "tx_frames (response_fail env code msg (r\<lparr>tx_offset := 0\<rparr>)) = tx_frames (response_fail env code msg r)"
    by (simp add: response_fail_def)
  from fail_streamed [OF st, of req env code msg] assms obtain x fin where
    "tx_frames (response_fail env code msg r) = fin" "ends_as x req (tx_version r) 0 fin" "x \<noteq> Complete"
    "steady env \<longrightarrow> x = Refused" by (auto simp: eq)
  then show ?thesis
    by (intro exI [of _ "tx_version r"] exI [of _ "[]"] exI [of _ x]) (auto simp: response_ok_def)
qed

lemma stream_answer:
  assumes "served_row env req s row" "r = setVersion (fr_Version row) (newTransferResponse req)"
    "streamFile env f row r = (e, r1)"
  shows "e = ok \<Longrightarrow> \<exists>ds. response_ok env req s r1 (fr_Version row) ds Complete"
    and "e \<noteq> ok \<Longrightarrow> \<exists>ds. response_ok env req s r1 (fr_Version row) ds Unfinished"
    and "e \<noteq> ok \<Longrightarrow> \<exists>ds x. response_ok env req s (response_fail env code msg r1) (fr_Version row) ds x \<and>
          (steady env \<longrightarrow> x \<noteq> Unfinished)"
proof -
  have r: "\<not> tx_terminal r" "tx_frames r = []" "tx_offset r = 0" "tx_req r = req" "tx_version r = fr_Version row"
    by (simp_all add: assms(2) setVersion_def newTransferResponse_def)
  obtain ds r' where ds: "streamed ds r r'"
    "if e = ok then tx_frames r1 = tx_frames r' @ [OutChunk (chunk_header req (fr_Version row) (tx_offset r') True) []] \<and>
        se_sha256 env (concat ds) = fr_SHA256 row \<and> int (length (concat ds)) = fr_Size row
     else streamed ds r r1"
    using streamFile_shape [OF r(1) assms(3)] r by auto
  have chunks: "\<forall>d \<in> set ds. d \<noteq> [] \<and> length d \<le> MaxFileChunkData" using ds(1) by (simp add: streamed_def)
  show "\<exists>ds. response_ok env req s r1 (fr_Version row) ds Complete" if "e = ok"
    using that ds r chunks assms(1)
    by (intro exI [of _ ds] response_okI [where row = row]) (auto simp: streamed_def ends_as_def)
  show "\<exists>ds. response_ok env req s r1 (fr_Version row) ds Unfinished" if "e \<noteq> ok"
    using that ds(2) r chunks assms(1)
    by (intro exI [of _ ds] response_okI [where row = row and fin = "[]"]) (auto simp: streamed_def ends_as_def)
  show "\<exists>ds x. response_ok env req s (response_fail env code msg r1) (fr_Version row) ds x \<and>
          (steady env \<longrightarrow> x \<noteq> Unfinished)" if "e \<noteq> ok"
  proof -
    have "streamed ds r r1" using that ds(2) by simp
    from fail_streamed [OF this r(2-4), of env code msg] r(5) obtain x fin where
      "tx_frames (response_fail env code msg r1) = chunk_run req (fr_Version row) 0 ds @ fin"
      "ends_as x req (fr_Version row) (int (length (concat ds))) fin" "x \<noteq> Complete" "steady env \<longrightarrow> x = Refused"
      by auto
    then show ?thesis using response_okI [OF _ _ chunks assms(1)] by blast
  qed
qed

lemma serve_row_ok:
  assumes "getShare s (rq_ShareID req) = Some cfg" "\<not> OutboundBlocked (scfg_Direction cfg)"
    "\<not> cfg_ignored cfg (rq_RelPath req) False" "GetFile (rq_ShareID req) (rq_RelPath req) (ss_store s) = Inr row"
    "\<not> fr_Deleted row" "Equal (fr_Version row) (rq_Version req)"
    "r = setVersion (fr_Version row) (newTransferResponse req)"
  shows "\<exists>v ds x. response_ok env req s (serve_row env cfg req row r) v ds x \<and> (steady env \<longrightarrow> x \<noteq> Unfinished)"
proof -
  have r: "\<not> tx_terminal r" "tx_frames r = []" "tx_req r = req"
    by (simp_all add: assms(7) setVersion_def newTransferResponse_def)
  note at_once = fail_at_once [OF r, of env s]
  show ?thesis
  proof (cases "\<exists>p f. JoinSharePath (se_lstat env) (scfg_Root cfg) (rq_RelPath req) = Inr p \<and> fr_Type row \<noteq> FileTypeSymlink \<and>
      openInShare env (scfg_Root cfg) (rq_RelPath req) = Inr f")
    case False
    then obtain code msg where "serve_row env cfg req row r = response_fail env code msg r"
      by (cases "JoinSharePath (se_lstat env) (scfg_Root cfg) (rq_RelPath req)";
          cases "openInShare env (scfg_Root cfg) (rq_RelPath req)"; cases "fr_Type row = FileTypeSymlink")
        (simp_all add: serve_row_def)
    then show ?thesis using at_once [of code msg] by simp
  next
    case True
    then obtain p f where pf: "JoinSharePath (se_lstat env) (scfg_Root cfg) (rq_RelPath req) = Inr p"
      "fr_Type row \<noteq> FileTypeSymlink" "openInShare env (scfg_Root cfg) (rq_RelPath req) = Inr f" by blast
    have sr: "served_row env req s row" using assms pf unfolding served_row_def by blast
    obtain e r1 where st: "streamFile env f row r = (e, r1)" by fastforce
    note ans = stream_answer [OF sr assms(7) st]
    show ?thesis
    proof (cases e)
      case None
      then show ?thesis using ans(1) pf st by (fastforce simp: serve_row_def)
    next
      case (Some err)
      show ?thesis
      proof (cases "err = Canceled")
        case True
        then have "serve_row env cfg req row r = r1" using pf st Some by (simp add: serve_row_def)
        moreover have "\<not> steady env" using streamFile_steady [OF _ r(1), of env f row] st Some True by auto
        ultimately show ?thesis using ans(2) Some by auto
      next
        case False
        then obtain code msg where "serve_row env cfg req row r = response_fail env code msg r1"
          using pf st Some by (cases err) (auto simp: serve_row_def)
        then show ?thesis using ans(3) [of code msg] Some by auto
      qed
    qed
  qed
qed

lemma request_response:
  assumes "handleFileRequest env req t = (r, t')"
  shows "\<exists>v ds x. response_ok env req (tf_session t) r v ds x \<and> (steady env \<longrightarrow> x \<noteq> Unfinished)"
proof -
  define r0 where "r0 = newTransferResponse req"
  have r0: "\<not> tx_terminal r0" "tx_frames r0 = []" "tx_req r0 = req" by (simp_all add: r0_def newTransferResponse_def)
  note at_once = fail_at_once [OF r0, of env "tf_session t"]
  have "r = serve_share env req (tf_session t) r0 \<or> (\<exists>code msg. r = response_fail env code msg r0)"
    using assms by (auto simp: handleFileRequest_def begin_serve_def registerServe_def r0_def Let_def split: if_splits)
  moreover have "\<exists>v ds x. response_ok env req (tf_session t) (serve_share env req (tf_session t) r0) v ds x \<and>
      (steady env \<longrightarrow> x \<noteq> Unfinished)"
    using at_once serve_row_ok [of "tf_session t" req _ _ "setVersion _ r0"]
    by (auto simp: serve_share_def r0_def split: option.split sum.split)
  ultimately show ?thesis using at_once by auto
qed

section \<open>One answer\<close>

fun is_final :: "out_frame \<Rightarrow> bool" where
  "is_final (OutError m) = True"
| "is_final (OutChunk h d) = ch_EOF h"

fun frame_id :: "out_frame \<Rightarrow> string" where
  "frame_id (OutError m) = er_TransferID m"
| "frame_id (OutChunk h d) = ch_TransferID h"

lemma chunk_run_frames:
  "f \<in> set (chunk_run req v off ds) \<Longrightarrow> \<not> is_final f \<and> frame_id f = rq_TransferID req"
  by (induction ds arbitrary: off) (auto simp: chunk_header_def)

lemma ends_as_frames:
  "ends_as x req v off fin \<Longrightarrow>
     fin = [] \<and> x = Unfinished \<or> (\<exists>f. fin = [f] \<and> is_final f \<and> frame_id f = rq_TransferID req \<and> x \<noteq> Unfinished)"
  by (cases x) (auto simp: ends_as_def chunk_header_def)


section \<open>What a pull receives\<close>

fun arrival_of :: "out_frame \<Rightarrow> arrival" where
  "arrival_of (OutChunk h d) = Chunk h d (ch_EOF h)"
| "arrival_of (OutError m) = ChunkErr"

text \<open>A pull that is fed chunks of a response either stops on them or has all their data.\<close>

lemma pull_chunks:
  assumes "pull_loop rq n tmp got (map arrival_of (chunk_run req v off ds) @ rest) w = (Inr c, w')"
  shows "\<exists>w1. pull_loop rq n tmp (got @ concat ds) rest w1 = (Inr c, w')"
  using assms
proof (induction ds arbitrary: got off w)
  case (Cons d ds)
  have "\<exists>w1. pull_loop rq n tmp (got @ d) (map arrival_of (chunk_run req v (off + int (length d)) ds) @ rest) w1 = (Inr c, w')"
    using Cons(2) by (auto simp: chunk_header_def Let_def split: if_splits)
  then show ?case using Cons(1) by (metis append.assoc concat.simps(2))
qed auto

lemma pull_never_ends:
  "pull_loop rq n tmp got (map arrival_of (chunk_run req v off ds)) w \<noteq> (Inr c, w')"
  using pull_chunks [where rest = "[]"] by fastforce

text \<open>A strict prefix of a response holds no final chunk.\<close>

lemma chunk_run_prefix:
  "prefix xs (chunk_run req v off ds) \<Longrightarrow> \<exists>es. xs = chunk_run req v off es"
proof (induction ds arbitrary: xs off)
  case Nil
  then show ?case by (intro exI [of _ "[]"]) simp
next
  case (Cons d ds)
  show ?case
  proof (cases xs)
    case Nil
    then show ?thesis by (intro exI [of _ "[]"]) simp
  next
    case (Cons y ys)
    then obtain es where "y = OutChunk (chunk_header req v off False) d" "ys = chunk_run req v (off + int (length d)) es"
      using Cons.prems Cons.IH by auto
    then show ?thesis using Cons by (intro exI [of _ "d # es"]) simp
  qed
qed

lemma pull_of_response:
  assumes "response_ok env req s r v ds x" "prefix xs (tx_frames r)"
    "pull_loop rq n tmp [] (map arrival_of xs) w = (Inr c, w')"
  shows "x = Complete \<and> c = concat ds"
proof -
  obtain fin where f: "tx_frames r = chunk_run req v 0 ds @ fin" "ends_as x req v (int (length (concat ds))) fin"
    using assms(1) by (auto simp: response_ok_def)
  have "\<not> prefix xs (chunk_run req v 0 ds)" using chunk_run_prefix pull_never_ends assms(3) by metis
  then obtain ys where xs: "xs = chunk_run req v 0 ds @ ys" "prefix ys fin" "ys \<noteq> []"
    using assms(2) f(1) by (auto simp: prefix_append)
  then obtain g where g: "fin = [g]" "ys = [g]" "x \<noteq> Unfinished" using ends_as_frames [OF f(2)] by (auto simp: prefix_Cons)
  obtain w1 where "pull_loop rq n tmp (concat ds) [arrival_of g] w1 = (Inr c, w')"
    using pull_chunks [where got = "[]" and rest = "[arrival_of g]"] assms(3) xs g by fastforce
  then show ?thesis using f(2) g
    by (cases x) (auto simp: ends_as_def chunk_header_def Let_def split: if_splits)
qed

text \<open>
  C3. A pull that succeeds has what the server's index says. However the file changed
  while it was being read and wherever the connection broke, if a pull fed with the frames
  the server sent for the request, up to any point, ends successfully, then the server
  offers the share for reading, the path is not ignored, its index has a live row of the
  requested version for the path, and the content received has the size and the SHA-256
  recorded in that row.
\<close>

theorem pulled_is_indexed:
  assumes "handleFileRequest env req t = (r, t')" "prefix xs (tx_frames r)"
    "pull_loop rq n tmp [] (map arrival_of xs) w = (Inr c, w')"
  shows "\<exists>row. served_row env req (tf_session t) row \<and> se_sha256 env c = fr_SHA256 row \<and> int (length c) = fr_Size row"
proof -
  obtain v ds x where r: "response_ok env req (tf_session t) r v ds x" using request_response [OF assms(1)] by blast
  from pull_of_response [OF r assms(2,3)] r show ?thesis by (auto simp: response_ok_def)
qed

text \<open>
  C10. Only shared content leaves the node. If a response contains any data at all, the
  share is offered, the path is inside it and not ignored, and the index has a live row for
  it, not a symbolic link, of the version that was asked for; no chunk exceeds the limit of
  a frame.
\<close>

theorem serves_only_shared:
  assumes "handleFileRequest env req t = (r, t')" "OutChunk h d \<in> set (tx_frames r)"
  shows "(\<exists>row. served_row env req (tf_session t) row) \<and> length d \<le> MaxFileChunkData"
proof -
  obtain v ds x where r: "response_ok env req (tf_session t) r v ds x" using request_response [OF assms(1)] by blast
  then obtain fin where f: "tx_frames r = chunk_run req v 0 ds @ fin" "ends_as x req v (int (length (concat ds))) fin"
    by (auto simp: response_ok_def)
  have mem: "OutChunk h d \<in> set (chunk_run req v off ds) \<Longrightarrow> d \<in> set ds" for off
    by (induction ds arbitrary: off) auto
  consider "d \<in> set ds" | "x = Complete" "d = []"
    using assms(2) f mem [of 0] by (cases x) (auto simp: ends_as_def)
  then show ?thesis using r by cases (auto simp: response_ok_def)
qed

section \<open>An unchanged file arrives\<close>

text \<open>A file that is read without error in the pieces \<open>ds\<close> and is what its row says, before
  and after.\<close>

definition unchanged_file :: "serve_env \<Rightarrow> open_file \<Rightarrow> FileRow \<Rightarrow> bytes list \<Rightarrow> bool" where
  "unchanged_file env f row ds \<longleftrightarrow>
     of_before f = Some (fr_Size row, fr_MTimeNS row) \<and> of_after f = of_before f \<and>
     of_reads f = map (\<lambda>d. (d, More)) ds \<and> (\<forall>d \<in> set ds. length d \<le> MaxFileChunkData) \<and>
     int (length (concat ds)) = fr_Size row \<and> se_sha256 env (concat ds) = fr_SHA256 row"

definition fine_world :: "world \<Rightarrow> bool" where
  "fine_world w \<longleftrightarrow> (\<forall>n. w_fault w n = Fine)"

lemma stream_loop_reads:
  assumes "steady env"
  shows "\<not> tx_terminal r \<Longrightarrow> \<forall>d \<in> set ds. length d \<le> MaxFileChunkData \<Longrightarrow>
    fst (stream_loop env (map (\<lambda>d. (d, More)) ds) h r) = Inr (h @ concat ds)"
proof (induction ds arbitrary: h r)
  case Nil
  then show ?case using assms by (simp add: stream_loop.simps steady_def)
next
  case (Cons d ds)
  obtain r1 where r1: "(if d = [] then (ok, r) else response_send env d r) = (ok, r1)" "\<not> tx_terminal r1"
    using send_steady [OF assms Cons(2), of d] Cons(2) by (cases "d = []") auto
  have nd: "\<not> se_done env (tx_tick r)" using assms by (simp add: steady_def)
  show ?case using Cons(1) [OF r1(2), of "h @ d"] Cons(3) r1(1) nd
    by (simp add: stream_loop.simps Let_def)
qed

lemma streamFile_delivers:
  assumes "steady env" "\<not> tx_terminal r" "tx_offset r = 0" "tx_frames r = []" "unchanged_file env f row ds"
  shows "\<exists>es r'. streamFile env f row r = (ok, r') \<and> concat es = concat ds \<and>
           tx_frames r' = chunk_run (tx_req r) (tx_version r) 0 es @
             [OutChunk (chunk_header (tx_req r) (tx_version r) (int (length (concat es))) True) []]"
proof -
  obtain res r1 where l: "stream_loop env (of_reads f) [] r = (res, r1)" by fastforce
  then have res: "res = Inr (concat ds)"
    using stream_loop_reads [OF assms(1,2), of ds "[]"] assms(5) by (simp add: unchanged_file_def)
  obtain es where es: "streamed es r r1" "concat es = concat ds"
    using stream_loop_streamed [OF assms(2) l] res by auto
  then have r1: "tx_offset r1 = int (length (concat ds))" "\<not> tx_terminal r1" "tx_req r1 = tx_req r"
      "tx_version r1 = tx_version r" "tx_frames r1 = chunk_run (tx_req r) (tx_version r) 0 es"
    using assms(3,4) by (simp_all add: streamed_def)
  then show ?thesis using assms(1,5) l res es(2)
    by (intro exI [of _ es]) (simp add: streamFile_def unchanged_file_def response_finish_def)
qed

lemma append_step:
  assumes "fine_world w" "node_at w tmp = Some (FFile got m mt)"
  shows "\<exists>w1 mt1. os_update tmp (\<lambda>n. case n of FFile c m t \<Rightarrow> FFile (c @ d) m (w_now w) | _ \<Rightarrow> n) w = (ok, w1) \<and>
           fine_world w1 \<and> node_at w1 tmp = Some (FFile (got @ d) m mt1)"
  using assms by (simp add: os_update_def faulty_def fine_world_def with_disk_def tick_def)

lemma pull_chunks_ok:
  assumes "Equal v (rq_Version req)"
  shows "fine_world w \<Longrightarrow> node_at w tmp = Some (FFile got m mt) \<Longrightarrow>
    \<exists>w1 mt1. fine_world w1 \<and> node_at w1 tmp = Some (FFile (got @ concat ds) m mt1) \<and>
      pull_loop req n tmp got (map arrival_of (chunk_run req v (int (length got)) ds) @ rest) w =
      pull_loop req n tmp (got @ concat ds) rest w1"
proof (induction ds arbitrary: got w mt)
  case Nil
  then show ?case by auto
next
  case (Cons d ds)
  obtain w1 mt1 where w1: "fine_world w1" "node_at w1 tmp = Some (FFile (got @ d) m mt1)"
      "(if d = [] then (ok, w) else
          os_update tmp (\<lambda>n. case n of FFile c m t \<Rightarrow> FFile (c @ d) m (w_now w) | _ \<Rightarrow> n) w) = (ok, w1)"
    using append_step [OF Cons(2,3), of d] Cons(2,3) by (cases "d = []") auto
  have "pull_loop req n tmp got (map arrival_of (chunk_run req v (int (length got)) (d # ds)) @ rest) w =
        pull_loop req n tmp (got @ d) (map arrival_of (chunk_run req v (int (length (got @ d))) ds) @ rest) w1"
    using w1(3) assms by (simp add: chunk_header_def Let_def)
  with Cons(1) [OF w1(1,2)] show ?case by (metis append.assoc concat.simps(2))
qed

text \<open>
  C34. An unchanged file is transferred. A request for a row the server offers, while the
  file on its disk still is what the row says and no other transfer uses the id, makes the
  pull on the other side end successfully with exactly the content of the file, whatever the
  sizes of the single reads; the staging file holds it.
\<close>

theorem transfer_delivers:
  assumes "steady env" "served_row env req (tf_session t) row" "rq_Offset req = 0"
    "fmlookup (tf_serves t) (rq_TransferID req) = None"
    "getShare (tf_session t) (rq_ShareID req) = Some cfg"
    "openInShare env (scfg_Root cfg) (rq_RelPath req) = Inr f" "unchanged_file env f row ds"
    "fine_world w" "node_at w tmp = Some (FFile [] m mt)"
  shows "\<exists>w' mt'. pull_loop req (fr_Size row) tmp []
             (map arrival_of (tx_frames (fst (handleFileRequest env req t)))) w = (Inr (concat ds), w') \<and>
           node_at w' tmp = Some (FFile (concat ds) m mt')"
proof -
  let ?r = "setVersion (fr_Version row) (newTransferResponse req)"
  have r: "\<not> tx_terminal ?r" "tx_offset ?r = 0" "tx_frames ?r = []" "tx_req ?r = req" "tx_version ?r = fr_Version row"
    by (simp_all add: setVersion_def newTransferResponse_def)
  obtain es r1 where r1: "streamFile env f row ?r = (ok, r1)" and content: "concat es = concat ds"
    and frames: "tx_frames r1 = chunk_run req (fr_Version row) 0 es @
      [OutChunk (chunk_header req (fr_Version row) (int (length (concat es))) True) []]"
    using streamFile_delivers [OF assms(1) r(1,2,3) assms(7)] r(4,5) by auto
  obtain p where sr: "\<not> OutboundBlocked (scfg_Direction cfg)" "\<not> cfg_ignored cfg (rq_RelPath req) False"
      "JoinSharePath (se_lstat env) (scfg_Root cfg) (rq_RelPath req) = Inr p"
      "GetFile (rq_ShareID req) (rq_RelPath req) (ss_store (tf_session t)) = Inr row" "\<not> fr_Deleted row"
      "fr_Type row \<noteq> FileTypeSymlink" "Equal (fr_Version row) (rq_Version req)"
    using assms(2,5) by (auto simp: served_row_def)
  have "serve_share env req (tf_session t) (newTransferResponse req) = r1"
    using assms(5,6) sr r1 by (simp add: serve_share_def serve_row_def)
  then have served: "fst (handleFileRequest env req t) = r1"
    using assms(3,4) by (simp add: handleFileRequest_def begin_serve_def registerServe_def Let_def)
  obtain w1 mt1 where w1: "node_at w1 tmp = Some (FFile (concat es) m mt1)"
      "pull_loop req (fr_Size row) tmp [] (map arrival_of (tx_frames r1)) w =
       pull_loop req (fr_Size row) tmp (concat es)
         [arrival_of (OutChunk (chunk_header req (fr_Version row) (int (length (concat es))) True) [])] w1"
    using pull_chunks_ok [OF sr(7) assms(8,9), of es "fr_Size row"
        "[arrival_of (OutChunk (chunk_header req (fr_Version row) (int (length (concat es))) True) [])]"] frames
    by auto
  then show ?thesis using sr(7) content assms(7) served
    by (intro exI [of _ w1] exI [of _ mt1]) (auto simp: chunk_header_def unchanged_file_def)
qed

section \<open>Concurrent transfers\<close>

text \<open>A goroutine serving a request leaves the list of jobs when it registers, or gives its
  slot back when it is refused.\<close>

definition begun :: "FileRequest \<Rightarrow> transferResponse + transferResponse \<Rightarrow> transfers \<Rightarrow> transfers" where
  "begun req res t =
     (let t1 = t\<lparr>tf_jobs := remove1 req (tf_jobs t)\<rparr> in
      case res of
        Inl r \<Rightarrow> t1\<lparr>tf_serveSem := tf_serveSem t - 1\<rparr>
      | Inr r \<Rightarrow> t1\<lparr>tf_running := tf_running t @ [req]\<rparr>)"

definition end_serve :: "FileRequest \<Rightarrow> transfers \<Rightarrow> transfers" where
  "end_serve req t =
     (unregisterServe (rq_TransferID req) t)\<lparr>tf_running := remove1 req (tf_running t), tf_serveSem := tf_serveSem t - 1\<rparr>"

text \<open>The steps of the goroutines of a session that touch its transfers; whatever else the
  session does between them is \<open>session\<close>.\<close>

inductive transfer_step :: "transfers \<Rightarrow> transfers \<Rightarrow> bool" where
  pull: "tf_pullSem t < maxConcurrentPulls \<Longrightarrow> transfer_step t (snd (begin_pull i shareID path version t))"
| take_one: "take_chunk i t = Some (c, t') \<Longrightarrow> transfer_step t t'"
| pulled: "fmlookup (tf_pulls t) i = Some q \<Longrightarrow> transfer_step t (end_pull i terminal t)"
| request: "transfer_step t (snd (handleFileRequestFrame req t))"
| chunk: "handleFileChunkFrame decode now payload t = Some (b, t') \<Longrightarrow> transfer_step t t'"
| error: "handleErrorFrame now e t = Some (b, t') \<Longrightarrow> transfer_step t t'"
| cancel: "transfer_step t (snd (handleCancelTransferFrame i t))"
| serve: "req \<in> set (tf_jobs t) \<Longrightarrow> begin_serve env req t = (res, t1) \<Longrightarrow> transfer_step t (begun req res t1)"
| served: "req \<in> set (tf_running t) \<Longrightarrow> transfer_step t (end_serve req t)"
| session: "transfer_step t (t\<lparr>tf_session := s\<rparr>)"

inductive_cases transfer_stepE: "transfer_step t t'"

definition serving_inv :: "transfers \<Rightarrow> bool" where
  "serving_inv t \<longleftrightarrow>
     tf_serveSem t = length (tf_jobs t) + length (tf_running t) \<and> tf_serveSem t \<le> maxConcurrentServes \<and>
     distinct (map rq_TransferID (tf_running t)) \<and> fmdom' (tf_serves t) = rq_TransferID ` set (tf_running t)"

definition pulling_inv :: "transfers \<Rightarrow> bool" where
  "pulling_inv t \<longleftrightarrow>
     tf_pullSem t = card (fmdom' (tf_pulls t)) \<and> tf_pullSem t \<le> maxConcurrentPulls \<and>
     (\<forall>i q. fmlookup (tf_pulls t) i = Some q \<longrightarrow> length q \<le> pullQueueDepth \<and> tf_routed t i = tf_taken t i @ q)"

definition stale_inv :: "transfers \<Rightarrow> bool" where
  "stale_inv t \<longleftrightarrow> sum_list (tf_staleReports t) + tf_staleSuppressed t = tf_stale t"

lemmas transfer_inv_defs = serving_inv_def pulling_inv_def stale_inv_def

definition transfer_inv :: "transfers \<Rightarrow> bool" where
  "transfer_inv t \<longleftrightarrow> serving_inv t \<and> pulling_inv t \<and> stale_inv t"

lemma on_session_inv [simp]: "transfer_inv (on_session f t) = transfer_inv t" "transfer_inv (t\<lparr>tf_session := s\<rparr>) = transfer_inv t"
  "transfer_inv (t\<lparr>tf_cancellations := n\<rparr>) = transfer_inv t"
  by (simp_all add: transfer_inv_def transfer_inv_defs on_session_def)

lemma noteStale_inv: "transfer_inv t \<Longrightarrow> transfer_inv (noteStaleTransferFrame now t)"
  by (simp add: transfer_inv_def transfer_inv_defs noteStaleTransferFrame_def on_session_def Let_def)

lemma present_dom: "fmlookup m i = Some q \<Longrightarrow> insert i (fmdom' m) = fmdom' m"
  by (auto simp: fmlookup_dom'_iff)

lemma routeChunk_inv:
  assumes "routeChunk now i c t = Some t'" "transfer_inv t"
  shows "transfer_inv t'"
proof (cases "fmlookup (tf_pulls t) i")
  case None
  then show ?thesis using assms by (auto simp: routeChunk_def intro: noteStale_inv)
next
  case (Some q)
  then have "length q < pullQueueDepth"
    "t' = t\<lparr>tf_pulls := fmupd i (q @ [c]) (tf_pulls t), tf_routed := (tf_routed t)(i := tf_routed t i @ [c])\<rparr>"
    using assms by (auto simp: routeChunk_def split: if_splits)
  then show ?thesis using Some assms(2) present_dom [OF Some]
    by (auto simp: transfer_inv_def transfer_inv_defs)
qed

lemma take_chunk_inv:
  assumes "take_chunk i t = Some (c, t')" "transfer_inv t"
  shows "transfer_inv t'"
proof -
  obtain q where q: "fmlookup (tf_pulls t) i = Some (c # q)"
    "t' = t\<lparr>tf_pulls := fmupd i q (tf_pulls t), tf_taken := (tf_taken t)(i := tf_taken t i @ [c])\<rparr>"
    using assms(1) by (auto simp: take_chunk_def split: option.splits list.splits)
  moreover have "length (c # q) \<le> pullQueueDepth" "tf_routed t i = tf_taken t i @ c # q"
    using assms(2) q(1) unfolding transfer_inv_def pulling_inv_def by blast+
  ultimately show ?thesis using assms(2) present_dom [OF q(1)] by (auto simp: transfer_inv_def transfer_inv_defs)
qed

lemma drop_pull_inv:
  assumes "fmlookup (tf_pulls t) i = Some q" "transfer_inv t"
  shows "transfer_inv (t\<lparr>tf_pulls := fmdrop i (tf_pulls t), tf_pullSem := tf_pullSem t - 1\<rparr>)"
proof -
  have "card (fmdom' (tf_pulls t) - {i}) = card (fmdom' (tf_pulls t)) - 1"
    using assms(1) by (simp add: fmlookup_dom'_iff)
  then show ?thesis using assms(2) by (auto simp: transfer_inv_def transfer_inv_defs)
qed

lemma end_pull_inv:
  assumes "fmlookup (tf_pulls t) i = Some q" "transfer_inv t"
  shows "transfer_inv (end_pull i terminal t)"
proof (cases terminal)
  case True
  then show ?thesis using drop_pull_inv [OF assms] by (simp add: end_pull_def)
next
  case False
  let ?t = "on_session (\<lambda>s. snd (send_frame (MCancelTransfer i) NoNote s)) (t\<lparr>tf_cancellations := Suc (tf_cancellations t)\<rparr>)"
  have "fmlookup (tf_pulls ?t) i = Some q" using assms(1) by (simp add: on_session_def)
  then show ?thesis using False drop_pull_inv [of ?t i q] assms(2) by (simp add: end_pull_def Let_def)
qed

lemma begin_pull_inv:
  assumes "tf_pullSem t < maxConcurrentPulls" "transfer_inv t"
  shows "transfer_inv (snd (begin_pull i shareID path version t))"
proof (cases "fmlookup (tf_pulls t) i")
  case None
  define t1 where "t1 = t\<lparr>tf_pullSem := Suc (tf_pullSem t), tf_pulls := fmupd i [] (tf_pulls t),
                   tf_routed := (tf_routed t)(i := []), tf_taken := (tf_taken t)(i := [])\<rparr>"
  have "i \<notin> fmdom' (tf_pulls t)" using None by (simp add: fmlookup_dom'_iff)
  then have t1: "transfer_inv (t1\<lparr>tf_session := s\<rparr>)" "fmlookup (tf_pulls (t1\<lparr>tf_session := s\<rparr>)) i = Some []" for s
    using assms by (auto simp: transfer_inv_def transfer_inv_defs t1_def)
  then show ?thesis using None end_pull_inv [OF t1(2) t1(1)]
    by (auto simp: begin_pull_def Let_def t1_def)
next
  case (Some q)
  then show ?thesis using assms(2) by (simp add: begin_pull_def)
qed

lemma request_frame_inv: "transfer_inv t \<Longrightarrow> transfer_inv (snd (handleFileRequestFrame req t))"
  by (auto simp: handleFileRequestFrame_def transfer_inv_def transfer_inv_defs on_session_def)

lemma cancel_frame_inv: "transfer_inv t \<Longrightarrow> transfer_inv (snd (handleCancelTransferFrame i t))"
  by (auto simp: handleCancelTransferFrame_def cancelServe_def transfer_inv_def transfer_inv_defs on_session_def
      dest: fmdom'I)

lemma serve_inv:
  assumes "req \<in> set (tf_jobs t)" "begin_serve env req t = (res, t1)" "transfer_inv t"
  shows "transfer_inv (begun req res t1)"
proof -
  have l: "length (tf_jobs t) = Suc (length (remove1 req (tf_jobs t)))"
    using assms(1) by (simp add: length_remove1) (metis Suc_pred length_pos_if_in_set)
  show ?thesis
  proof (cases res)
    case (Inl r)
    then have "t1 = t\<lparr>tf_servesStarted := Suc (tf_servesStarted t)\<rparr>"
      using assms(2) by (auto simp: begin_serve_def registerServe_def Let_def split: if_splits)
    then show ?thesis using Inl l assms(3) by (auto simp: begun_def Let_def transfer_inv_def transfer_inv_defs)
  next
    case (Inr r)
    then have "rq_TransferID req \<notin> fmdom' (tf_serves t)"
      "t1 = t\<lparr>tf_servesStarted := Suc (tf_servesStarted t), tf_serves := fmupd (rq_TransferID req) False (tf_serves t)\<rparr>"
      using assms(2) by (auto simp: begin_serve_def registerServe_def Let_def fmlookup_dom'_iff split: if_splits)
    then show ?thesis using Inr l assms(3)
      by (auto simp: begun_def Let_def transfer_inv_def transfer_inv_defs)
  qed
qed

lemma served_inv:
  assumes "req \<in> set (tf_running t)" "transfer_inv t"
  shows "transfer_inv (end_serve req t)"
proof -
  have l: "length (tf_running t) = Suc (length (remove1 req (tf_running t)))"
    using assms(1) by (simp add: length_remove1) (metis Suc_pred length_pos_if_in_set)
  have d: "distinct (map rq_TransferID (tf_running t))" using assms(2) by (simp add: transfer_inv_def serving_inv_def)
  then have "inj_on rq_TransferID (set (tf_running t))" "distinct (tf_running t)" by (simp_all add: distinct_map)
  then have "rq_TransferID ` set (remove1 req (tf_running t)) = rq_TransferID ` set (tf_running t) - {rq_TransferID req}"
    "distinct (map rq_TransferID (remove1 req (tf_running t)))"
    using assms(1) by (auto simp: distinct_map inj_on_def)
  then show ?thesis using l assms(2)
    by (auto simp: end_serve_def unregisterServe_def transfer_inv_def transfer_inv_defs)
qed

lemma transfer_inv_step: "transfer_step t t' \<Longrightarrow> transfer_inv t \<Longrightarrow> transfer_inv t'"
proof (induction rule: transfer_step.induct)
  case (chunk decode now payload t b t')
  then show ?case by (auto simp: handleFileChunkFrame_def intro: routeChunk_inv split: sum.splits)
next
  case (error now e t b t')
  then show ?case by (auto simp: handleErrorFrame_def intro: routeChunk_inv split: if_splits)
qed (simp_all add: begin_pull_inv take_chunk_inv end_pull_inv request_frame_inv cancel_frame_inv serve_inv served_inv)

interpretation file_table: kept_by_steps transfer_step transfer_inv
  by unfold_locales (rule transfer_inv_step)

lemma transfer_inv_reachable: "transfer_step\<^sup>*\<^sup>* (new_transfers s) t \<Longrightarrow> transfer_inv t"
  by (erule file_table.reachable) (simp add: new_transfers_def transfer_inv_def transfer_inv_defs)


section \<open>A concrete transfer\<close>

text \<open>The sender of the index database serves its file \<open>a.txt\<close>; a requester pulls it into the
  staging file \<open>t\<close>.\<close>

definition ex_id :: string where "ex_id = replicate 32 (CHR ''a'')"

definition ex_pull_request :: FileRequest where
  "ex_pull_request = \<lparr>rq_TransferID = ex_id, rq_ShareID = ''s'', rq_RelPath = ''a.txt'', rq_Version = ex_va, rq_Offset = 0\<rparr>"

definition ex_content :: "bytes list" where
  "ex_content = [[104, 105], [10]]"

definition ex_serve_env :: serve_env where
  "ex_serve_env = \<lparr>se_lstat = (\<lambda>p. LDirectory), se_root = (\<lambda>r. None),
     se_file = (\<lambda>r p. Inr \<lparr>of_before = Some (fr_Size (ex_row ''a.txt''), fr_MTimeNS (ex_row ''a.txt'')),
        of_reads = map (\<lambda>d. (d, More)) ex_content,
        of_after = Some (fr_Size (ex_row ''a.txt''), fr_MTimeNS (ex_row ''a.txt''))\<rparr>),
     se_write = (\<lambda>n. Accepted), se_done = (\<lambda>n. False), se_sha256 = (\<lambda>b. fr_SHA256 (ex_row ''a.txt'')), se_text = (\<lambda>e. [])\<rparr>"

definition ex_staging :: world where
  "ex_staging = \<lparr>w_disk = [([], FDir), ([''t''], FFile [] 0x180 0)], w_fault = (\<lambda>n. Fine), w_tick = 0,
     w_done = (\<lambda>n. False), w_now = 5\<rparr>"

definition ex_transfers :: transfers where
  "ex_transfers = new_transfers ex_serving"

lemma ex_steady: "steady ex_serve_env"
  by (simp add: steady_def ex_serve_env_def)

lemma ex_get_share: "getShare (tf_session ex_transfers) (rq_ShareID ex_pull_request) = Some ex_share"
  by (simp add: ex_transfers_def new_transfers_def ex_serving_def getShare_def AddShare_def ex_pull_request_def ex_share_def)

lemma ex_get_file: "GetFile ''s'' ''a.txt'' (ss_store (tf_session ex_transfers)) = Inr (ex_row ''a.txt'')"
  by code_simp

lemma ex_join: "JoinSharePath (se_lstat ex_serve_env) (scfg_Root ex_share) ''a.txt'' = Inr ''/s/a.txt''"
  by code_simp

lemma ex_served: "served_row ex_serve_env ex_pull_request (tf_session ex_transfers) (ex_row ''a.txt'')"
proof -
  have "\<not> OutboundBlocked (scfg_Direction ex_share)" "\<not> cfg_ignored ex_share ''a.txt'' False"
    by (simp_all add: ex_share_def cfg_ignored_def)
  moreover have "\<not> fr_Deleted (ex_row ''a.txt'')" "fr_Type (ex_row ''a.txt'') \<noteq> FileTypeSymlink"
    "Equal (fr_Version (ex_row ''a.txt'')) ex_va" by code_simp+
  ultimately show ?thesis using ex_get_share ex_get_file ex_join
    by (auto simp: served_row_def ex_pull_request_def)
qed

definition ex_file_open :: open_file where
  "ex_file_open = \<lparr>of_before = Some (fr_Size (ex_row ''a.txt''), fr_MTimeNS (ex_row ''a.txt'')),
        of_reads = map (\<lambda>d. (d, More)) ex_content,
        of_after = Some (fr_Size (ex_row ''a.txt''), fr_MTimeNS (ex_row ''a.txt''))\<rparr>"

lemma ex_opened: "openInShare ex_serve_env (scfg_Root ex_share) (rq_RelPath ex_pull_request) = Inr ex_file_open"
  by (simp add: openInShare_def ex_serve_env_def ex_file_open_def)

lemma ex_unchanged: "unchanged_file ex_serve_env ex_file_open (ex_row ''a.txt'') ex_content"
proof -
  have "fr_Size (ex_row ''a.txt'') = 3" by code_simp
  then show ?thesis
    by (simp add: unchanged_file_def ex_file_open_def ex_serve_env_def ex_content_def MaxFileChunkData_def)
qed

definition ex_sent :: "out_frame list" where
  "ex_sent =
     [OutChunk (chunk_header ex_pull_request ex_va 0 False) [104, 105],
      OutChunk (chunk_header ex_pull_request ex_va 2 False) [10],
      OutChunk (chunk_header ex_pull_request ex_va 3 True) []]"

lemma ex_frames: "tx_frames (fst (handleFileRequest ex_serve_env ex_pull_request ex_transfers)) = ex_sent"
proof -
  have row: "fr_Size (ex_row ''a.txt'') = 3" "fr_Version (ex_row ''a.txt'') = ex_va"
    "fr_Type (ex_row ''a.txt'') \<noteq> FileTypeSymlink" "\<not> fr_Deleted (ex_row ''a.txt'')" "Equal ex_va ex_va" by code_simp+
  have sh: "\<not> OutboundBlocked (scfg_Direction ex_share)" "\<not> cfg_ignored ex_share ''a.txt'' False"
    by (simp_all add: ex_share_def cfg_ignored_def)
  let ?r = "setVersion ex_va (newTransferResponse ex_pull_request)"
  have "tx_frames (snd (streamFile ex_serve_env ex_file_open (ex_row ''a.txt'') ?r)) = ex_sent"
    "fst (streamFile ex_serve_env ex_file_open (ex_row ''a.txt'') ?r) = ok"
    using ex_steady
    by (simp_all add: streamFile_def ex_file_open_def row ex_content_def stream_loop.simps MaxFileChunkData_def Let_def
        response_send_def response_finish_def setVersion_def newTransferResponse_def ex_serve_env_def ex_sent_def)
  then obtain r1 where st: "streamFile ex_serve_env ex_file_open (ex_row ''a.txt'') ?r = (ok, r1)" "tx_frames r1 = ex_sent"
    by (metis prod.collapse)
  have "rq_RelPath ex_pull_request = ''a.txt''" "rq_ShareID ex_pull_request = ''s''" "rq_Offset ex_pull_request = 0"
    "rq_Version ex_pull_request = ex_va" by (simp_all add: ex_pull_request_def)
  moreover have "tf_serves ex_transfers = fmempty" by (simp add: ex_transfers_def new_transfers_def)
  ultimately show ?thesis using ex_get_share ex_get_file ex_join ex_opened row sh st
    by (simp add: handleFileRequest_def begin_serve_def registerServe_def Let_def serve_share_def serve_row_def)
qed

lemma ex_pulled: "\<exists>w'. pull_loop ex_pull_request 3 [''t''] [] (map arrival_of ex_sent) ex_staging = (Inr [104, 105, 10], w')"
proof -
  have "Equal ex_va ex_va" by code_simp
  then show ?thesis
    by (simp add: ex_sent_def chunk_header_def ex_pull_request_def Let_def os_update_def faulty_def with_disk_def tick_def
        ex_staging_def put_node_def)
qed


theorem pulled_is_indexed_witness:
  "\<exists>row. served_row ex_serve_env ex_pull_request (tf_session ex_transfers) row \<and> fr_Size row = 3"
proof -
  have "prefix ex_sent (tx_frames (fst (handleFileRequest ex_serve_env ex_pull_request ex_transfers)))"
    by (simp add: ex_frames)
  with ex_pulled show ?thesis
    using pulled_is_indexed [OF prod.collapse [symmetric], of ex_sent ex_serve_env ex_pull_request ex_transfers]
    by fastforce
qed

theorem serves_only_shared_witness:
  "OutChunk (chunk_header ex_pull_request ex_va 2 False) [10] \<in> set ex_sent \<and>
   (\<exists>row. served_row ex_serve_env ex_pull_request (tf_session ex_transfers) row)"
  using serves_only_shared [OF prod.collapse [symmetric], of "chunk_header ex_pull_request ex_va 2 False" "[10]"
      ex_serve_env ex_pull_request ex_transfers] ex_frames
  by (simp add: ex_sent_def)

theorem transfer_delivers_witness:
  "\<exists>w' mt'. pull_loop ex_pull_request (fr_Size (ex_row ''a.txt'')) [''t''] []
      (map arrival_of (tx_frames (fst (handleFileRequest ex_serve_env ex_pull_request ex_transfers)))) ex_staging =
      (Inr (concat ex_content), w') \<and> node_at w' [''t''] = Some (FFile (concat ex_content) 0x180 mt')"
proof -
  have "rq_Offset ex_pull_request = 0" "fmlookup (tf_serves ex_transfers) (rq_TransferID ex_pull_request) = None"
    by (simp_all add: ex_pull_request_def ex_transfers_def new_transfers_def)
  moreover have "fine_world ex_staging" "node_at ex_staging [''t''] = Some (FFile [] 0x180 0)"
    by (simp_all add: fine_world_def ex_staging_def)
  ultimately show ?thesis
    by (rule transfer_delivers [OF ex_steady ex_served _ _ ex_get_share ex_opened ex_unchanged])
qed


section \<open>An error nobody hears\<close>

text \<open>
  C36. A long path makes the answer inaudible. When the server cannot open a file whose
  path is 2034 bytes or longer, well within what the wire and the path rules allow, the
  error it sends carries the path inside its text and is longer than any node accepts: the
  requester counts a protocol violation and routes nothing to the waiting pull, which is
  left to time out.
\<close>

theorem long_open_error_unheard:
  assumes "served_row env req (tf_session t) row" "getShare (tf_session t) (rq_ShareID req) = Some cfg"
    "rq_Offset req = 0" "fmlookup (tf_serves t) (rq_TransferID req) = None"
    "se_root env (scfg_Root cfg) = None" "se_file env (scfg_Root cfg) (rq_RelPath req) = Inl reason"
    "se_write env 0 \<noteq> Broken" "2034 \<le> length (rq_RelPath req)"
  shows "\<exists>m. tx_frames (fst (handleFileRequest env req t)) = [OutError m] \<and>
           handleErrorFrame now m t2 = Some (True, on_session protocolViolation t2)"
proof -
  let ?m = "\<lparr>er_Code = ErrCodeFileNotFound, er_Msg = ''open: '' @ ''openat '' @ rq_RelPath req @ '': '' @ reason,
      er_ShareID = rq_ShareID req, er_RelPath = rq_RelPath req, er_TransferID = rq_TransferID req\<rparr>"
  have "serve_share env req (tf_session t) (newTransferResponse req) =
      response_fail env ErrCodeFileNotFound (er_Msg ?m) (setVersion (fr_Version row) (newTransferResponse req))"
    using assms(1,2,5,6) by (auto simp: serve_share_def serve_row_def served_row_def openInShare_def)
  then have "tx_frames (fst (handleFileRequest env req t)) = [OutError ?m]"
    using assms(3,4,7)
    by (simp add: handleFileRequest_def begin_serve_def registerServe_def Let_def response_fail_def setVersion_def
        newTransferResponse_def)
  moreover have "ValidateMessage (MError ?m) \<noteq> ok"
  proof -
    have "validBoundedText l ErrCodeFileNotFound 128 True = ok" for l
      unfolding validBoundedText_def ErrCodeFileNotFound_def by code_simp
    then show ?thesis using assms(8) by (simp add: ValidateMessage_def validateErrorMsg_def MaxDiagnosticRunes_def)
  qed
  ultimately show ?thesis by (auto simp: handleErrorFrame_def)
qed

text \<open>Such a path: twenty directories deep, with names of 110 bytes.\<close>

definition long_path :: string where
  "long_path = join_on slash (replicate 20 (replicate 110 (CHR ''d'')))"

lemma long_path_elems: "split_on slash long_path = replicate 20 (replicate 110 (CHR ''d''))"
  unfolding long_path_def by (rule split_join) simp_all

lemma join_on_replicate_chars: "set (join_on c (replicate n e)) \<subseteq> insert c (set e)"
proof (induction n)
  case (Suc n)
  then show ?case by (cases n) (auto simp: join_on_Cons)
qed simp

lemma join_on_replicate:
  "length (join_on c (replicate (Suc n) e)) = Suc n * length e + n" "\<exists>xs. join_on c (replicate (Suc n) e) = e @ xs"
  by (induction n) (auto simp: join_on_Cons)

lemma long_path_chars: "set long_path \<subseteq> {CHR ''d'', slash}" "length long_path = 2219" "\<exists>xs. long_path = CHR ''d'' # xs"
  using join_on_replicate [of slash 19 "replicate 110 (CHR ''d'')"] join_on_replicate_chars [of slash 20 "replicate 110 (CHR ''d'')"]
  by (auto simp: long_path_def numeral_eq_Suc)

lemma long_path_valid: "ValidateRelPath long_path = ok"
proof -
  obtain xs where xs: "long_path = CHR ''d'' # xs" using long_path_chars(3) by blast
  have "\<forall>x \<in> set (map of_char long_path). x < (128 :: nat)" using long_path_chars(1) by auto
  then have "string_runes long_path = map of_char long_path" unfolding string_runes_def by (rule runes_ascii)
  moreover have "\<forall>x \<in> set (map of_char long_path :: nat list). \<not> (x = 0 \<or> x < 0x20 \<or> x = 0x7F)"
    using long_path_chars(1) by auto
  moreover have "check_elem (replicate 110 (CHR ''d'')) = ok" by code_simp
  moreover have "long_path \<noteq> ''.''" "long_path \<noteq> ''..''" "long_path \<noteq> ReservedDirName" "long_path \<noteq> []"
    "\<not> has_prefix long_path ''/''" "\<not> has_prefix long_path ''.syncat/''"
    unfolding xs ReservedDirName_def has_prefix_def by simp_all
  moreover have "CHR '':'' \<notin> set long_path" "CHR 0x5C \<notin> set long_path" using long_path_chars(1) by auto
  ultimately show ?thesis using long_path_chars(2)
    by (simp add: ValidateRelPath_def maxRelPathLen_def list_ex_iff long_path_elems ReservedDirName_def)
qed

definition ex_long_request :: FileRequest where
  "ex_long_request = ex_pull_request\<lparr>rq_RelPath := long_path\<rparr>"

definition ex_gone_env :: serve_env where
  "ex_gone_env = ex_serve_env\<lparr>se_file := (\<lambda>r p. Inl ''no such file or directory'')\<rparr>"

definition ex_long_transfers :: transfers where
  "ex_long_transfers = ex_transfers\<lparr>tf_session := (tf_session ex_transfers)\<lparr>ss_store :=
     ex_sender\<lparr>files := fmupd (''s'', long_path) (ex_row long_path) (files ex_sender)\<rparr>\<rparr>\<rparr>"

lemma no_symlink_parents_all_dirs: "checkNoSymlinkParents (\<lambda>p. LDirectory) r es = ok"
  by (induction es arbitrary: r) simp_all

lemma ex_long_served: "served_row ex_gone_env ex_long_request (tf_session ex_long_transfers) (ex_row long_path)"
proof -
  have "path_clean ''/s'' = ''/s''" "is_abs ''/s''" by code_simp+
  then have "JoinSharePath (\<lambda>p. LDirectory) ''/s'' long_path = Inr (''/s'' @ slash # long_path)"
    using valid_join [OF long_path_valid, of "''/s''"] no_symlink_parents_all_dirs by simp
  moreover have "Equal ex_va ex_va" by code_simp
  moreover have "GetFile ''s'' long_path (ss_store (tf_session ex_long_transfers)) = Inr (ex_row long_path)"
    by (simp add: GetFile_def ex_long_transfers_def ex_row_def FileRowFromInfo_def)
  ultimately show ?thesis
    by (simp add: served_row_def ex_gone_env_def ex_serve_env_def ex_long_request_def ex_pull_request_def ex_long_transfers_def
        ex_transfers_def new_transfers_def ex_serving_def getShare_def AddShare_def ex_share_def cfg_ignored_def ex_row_def
        FileRowFromInfo_def ex_file_def FileTypeFile_def FileTypeSymlink_def)
qed

theorem long_open_error_unheard_witness:
  "\<exists>m. tx_frames (fst (handleFileRequest ex_gone_env ex_long_request ex_long_transfers)) = [OutError m] \<and>
     handleErrorFrame 0 m ex_transfers = Some (True, on_session protocolViolation ex_transfers)"
proof -
  have "getShare (tf_session ex_long_transfers) (rq_ShareID ex_long_request) = Some ex_share"
    "rq_Offset ex_long_request = 0" "fmlookup (tf_serves ex_long_transfers) (rq_TransferID ex_long_request) = None"
    "se_root ex_gone_env (scfg_Root ex_share) = None"
    "se_file ex_gone_env (scfg_Root ex_share) (rq_RelPath ex_long_request) = Inl ''no such file or directory''"
    "se_write ex_gone_env 0 \<noteq> Broken" "2034 \<le> length (rq_RelPath ex_long_request)"
    using long_path_chars(2)
    by (simp_all add: ex_long_transfers_def ex_transfers_def new_transfers_def ex_serving_def getShare_def AddShare_def
        ex_share_def ex_long_request_def ex_pull_request_def ex_gone_env_def ex_serve_env_def)
  then show ?thesis by (rule long_open_error_unheard [OF ex_long_served])
qed

end
