(* ===== verification/SyncPass.thy ===== *)
theory SyncPass
  imports IndexSync HoldGuard
begin

text \<open>
  The reconcile pass of a session, \<open>reconcileLocked\<close> of \<^verbatim>\<open>internal/sync/session.go\<close>, with what
  starts it (\<open>handleIndexUpdate\<close>, \<open>ReconcileShare\<close>), what it reports (\<open>sendIndexUpdate\<close>), and
  \<open>SyncShare\<close> and \<open>flagLocalEdits\<close>, which run when the local copy changes. It puts together the
  index database, the reconciler, the hold guard (wired in by \<open>shareGuardFunc\<close> of
  \<^verbatim>\<open>internal/core/holds.go\<close>) and the applier.

  A pass hands its actions to four workers. Each action runs under the share's apply lock,
  so the workers apply them one after the other, in an order that may differ from the
  plan's, and a cancelled context leaves some out: \<open>pe_sched\<close> is that order. The clock,
  whether the database answers, the settings of the hold guard and the peer's answers are
  the other arguments of \<open>pass_env\<close>. Debug output is not modelled.

  The results: a pass the guard refuses changes nothing but the hold; a pass that does
  change something is within the delete limits or was confirmed; a pass loses no data,
  whatever fails and in whatever order; an action that succeeded settles its path; and the
  warnings shown for a receive-only share are exactly the paths that differ now.
\<close>

section \<open>State\<close>

record pass_env =
  pe_apply :: apply_env
  pe_fresh :: string
  pe_lists :: bool
  pe_upserts :: bool
  pe_guard :: bool
  pe_safety :: "string \<Rightarrow> Safety"
  pe_holdWrites :: bool
  pe_peerKey :: string
  pe_peerLabel :: string
  pe_now :: int
  pe_sched :: "Action list \<Rightarrow> Action list"

record pass_state =
  ps_session :: Session
  ps_held :: "(Link, Hold) fmap"
  ps_apply :: apply_state
  ps_applied :: "string list"
  ps_reconciliations :: nat

section \<open>A pass\<close>

definition deletePaths :: "Action list \<Rightarrow> string list" where
  "deletePaths actions = map ac_RelPath (filter (\<lambda>a. ac_Kind a = ActionDelete) actions)"

definition rowsToInfos :: "FileRow list \<Rightarrow> FileInfo list" where
  "rowsToInfos rows = map Info rows"

text \<open>What a pass, or \<open>flagLocalEdits\<close>, finds to do.\<close>

definition plan :: "pass_env \<Rightarrow> ShareConfig \<Rightarrow> Session \<Rightarrow> Action list" where
  "plan env cfg s =
     Reconcile (rowsToInfos (ListShare (scfg_ShareID cfg) True (ss_store s)))
       (rowsToInfos (ListPeerFiles (ss_peerID s) (scfg_ShareID cfg) (ss_store s)))
       (ss_nodeID s) (scfg_Direction cfg) (pe_now env) (scfg_Ignore cfg)"

definition flagged_paths :: "Action list \<Rightarrow> string list" where
  "flagged_paths actions = map ac_RelPath (filter (\<lambda>a. ac_Kind a = ActionLocallyModified) actions)"

text \<open>\<open>cfg.Guard\<close>; a session without a guard allows every pass.\<close>

definition shareGuardFunc ::
  "pass_env \<Rightarrow> string \<Rightarrow> FileRow list \<Rightarrow> string list \<Rightarrow> Guard \<Rightarrow> Guard \<times> bool" where
  "shareGuardFunc env shareID local deleting g =
     (if pe_guard env
      then Pass (pe_safety env) (pe_now env) (pe_holdWrites env) shareID (pe_peerKey env) local deleting g
      else (g, True))"

definition sendIndexUpdate :: "string \<Rightarrow> FileRow list \<Rightarrow> bool \<Rightarrow> Session \<Rightarrow> bool \<times> Session" where
  "sendIndexUpdate shareID rows full s =
     (let rows' = (case getShare s shareID of None \<Rightarrow> rows | Some cfg \<Rightarrow> filterIgnoredRows cfg rows)
      in send_frame (MIndexUpdate \<lparr>iu_ShareID = shareID, iu_Files = map Info rows', iu_Full = full\<rparr>) NoNote s)"

definition guard_of :: "pass_state \<Rightarrow> Guard" where
  "guard_of st = \<lparr>g_store = ss_store (ps_session st), g_held = ps_held st\<rparr>"

definition with_guard :: "Guard \<Rightarrow> pass_state \<Rightarrow> pass_state" where
  "with_guard g st = st\<lparr>ps_session := (ps_session st)\<lparr>ss_store := g_store g\<rparr>, ps_held := g_held g\<rparr>"

definition run_plan :: "pass_env \<Rightarrow> ShareConfig \<Rightarrow> Action list \<Rightarrow> pass_state \<Rightarrow> FileRow list \<times> pass_state" where
  "run_plan env cfg actions st =
     (let s = ps_session st;
          ast = (ps_apply st)\<lparr>as_warnings := ss_warnings s,
                  as_event := (if as_trash (ps_apply st)
                               then Some (BeginPeerEvent (scfg_Root cfg) (pe_peerLabel env) (pe_now env)) else None)\<rparr>
      in case apply_pass (pe_apply env) (pe_fresh env) cfg (pe_sched env actions) (pe_now env) (ast, ss_store s) of
           (changed, ast', db) \<Rightarrow>
             (changed, st\<lparr>ps_apply := ast'\<lparr>as_event := None\<rparr>,
                ps_session := s\<lparr>ss_store := db,
                  ss_warnings := snd (retainWarnings (scfg_ShareID cfg) (\<lambda>p. p \<in> set (flagged_paths actions)) (as_warnings ast'))\<rparr>\<rparr>))"

definition reconcileLocked :: "pass_env \<Rightarrow> ShareConfig \<Rightarrow> pass_state \<Rightarrow> pass_state" where
  "reconcileLocked env cfg st0 =
     (let st = st0\<lparr>ps_reconciliations := Suc (ps_reconciliations st0)\<rparr>; shareID = scfg_ShareID cfg in
      if \<not> pe_lists env then st
      else
        let actions = plan env cfg (ps_session st);
            verdict = shareGuardFunc env shareID (ListShare shareID True (ss_store (ps_session st)))
                        (deletePaths actions) (guard_of st);
            st1 = with_guard (fst verdict) st
        in if \<not> snd verdict then st1
           else
             let ran = run_plan env cfg actions st1; changed = fst ran; st2 = snd ran;
                 st3 = (if \<not> OutboundBlocked (scfg_Direction cfg) \<and> changed \<noteq> []
                        then st2\<lparr>ps_session := snd (sendIndexUpdate shareID changed False (ps_session st2))\<rparr> else st2)
             in if changed \<noteq> [] then st3\<lparr>ps_applied := ps_applied st3 @ [shareID]\<rparr> else st3)"

text \<open>The two ways into a pass. A share that is gone, or takes nothing from this peer, is left
  alone. The code looks twice, before and after it has the lock; only the second look
  matters, and it is the one that is here.\<close>

definition admits :: "Session \<Rightarrow> string \<Rightarrow> ShareConfig option" where
  "admits s shareID =
     (case getShare s shareID of
        None \<Rightarrow> None | Some cfg \<Rightarrow> if InboundBlocked (scfg_Direction cfg) then None else Some cfg)"

definition handleIndexUpdate :: "pass_env \<Rightarrow> IndexUpdate \<Rightarrow> pass_state \<Rightarrow> pass_state" where
  "handleIndexUpdate env msg st =
     (case admits (ps_session st) (iu_ShareID msg) of
        None \<Rightarrow> st
      | Some cfg \<Rightarrow>
          if \<not> pe_upserts env then st
          else reconcileLocked env cfg
                 (st\<lparr>ps_session := (ps_session st)\<lparr>ss_store := UpsertPeerFiles (ss_peerID (ps_session st))
                       (map (\<lambda>f. FileRowFromInfo (iu_ShareID msg) f (pe_now env)) (iu_Files msg))
                       (ss_store (ps_session st))\<rparr>\<rparr>))"

definition ReconcileShare :: "pass_env \<Rightarrow> string \<Rightarrow> pass_state \<Rightarrow> sync_err err \<times> pass_state" where
  "ReconcileShare env shareID st =
     (if getShare (ps_session st) shareID = None then (Some InactiveShare, st)
      else case admits (ps_session st) shareID of
             None \<Rightarrow> (ok, st)
           | Some cfg \<Rightarrow> (ok, reconcileLocked env cfg st))"

section \<open>Local changes\<close>

fun flag_all :: "string \<Rightarrow> int \<Rightarrow> Action list \<Rightarrow> LocallyModifiedWarning list \<Rightarrow> LocallyModifiedWarning list" where
  "flag_all shareID now [] ws = ws"
| "flag_all shareID now (a # as) ws =
     (if ac_Kind a \<noteq> ActionLocallyModified then flag_all shareID now as ws
      else flag_all shareID now as (snd (recordWarning
             \<lparr>lw_ShareID = shareID, lw_RelPath = ac_RelPath a, lw_At = now, lw_Reverted = False,
              lw_Reason = ac_Reason a\<rparr> ws)))"

definition flagLocalEdits :: "pass_env \<Rightarrow> ShareConfig \<Rightarrow> Session \<Rightarrow> Session" where
  "flagLocalEdits env cfg s =
     (if \<not> pe_lists env then s
      else let actions = plan env cfg s in
           s\<lparr>ss_warnings := snd (retainWarnings (scfg_ShareID cfg) (\<lambda>p. p \<in> set (flagged_paths actions))
               (flag_all (scfg_ShareID cfg) (pe_now env) actions (ss_warnings s)))\<rparr>)"

definition SyncShare ::
  "codec \<Rightarrow> pass_env \<Rightarrow> nat \<Rightarrow> string \<Rightarrow> string \<Rightarrow> Session \<Rightarrow> sync_err err \<times> Session" where
  "SyncShare cd env page snapshotID shareID s =
     (case getShare s shareID of
        None \<Rightarrow> (Some InactiveShare, s)
      | Some cfg \<Rightarrow>
         if \<not> OutboundBlocked (scfg_Direction cfg) then
           (let out = get_cursor (ss_peerID s) shareID ''outgoing'' (ss_store s)
            in answerSyncRequest cd page (pe_fresh env) snapshotID
                 \<lparr>sr_ShareID = shareID, sr_Epoch = cu_Epoch out, sr_AppliedSeq = cu_AppliedSeq out,
                  sr_SnapshotID = [], sr_SnapshotBatch = 0\<rparr> s)
         else
           let s1 = flagLocalEdits env cfg s;
               c = get_cursor (ss_peerID s1) shareID ''incoming'' (ss_store s1);
               sent = send_frame (MIndexSyncRequest
                 \<lparr>sr_ShareID = shareID, sr_Epoch = cu_Epoch c, sr_AppliedSeq = cu_AppliedSeq c,
                  sr_SnapshotID = cu_SnapshotID c, sr_SnapshotBatch = cu_SnapshotBatch c\<rparr>) NoNote s1
           in (if fst sent then ok else Some WriteFailed, snd sent))"

section \<open>The guard\<close>

text \<open>A refused pass, or one that could not read the index, leaves everything but the hold.\<close>

definition inert :: "pass_state \<Rightarrow> pass_state \<Rightarrow> bool" where
  "inert st st' \<longleftrightarrow>
     ps_apply st' = ps_apply st \<and> ps_applied st' = ps_applied st \<and>
     ps_session st' = (ps_session st)\<lparr>ss_store := (ss_store (ps_session st))\<lparr>holds := holds (ss_store (ps_session st'))\<rparr>\<rparr>"

lemma placeLocked_store:
  "g_store (fst (placeLocked now writes h g)) = (g_store g)\<lparr>holds := holds (g_store (fst (placeLocked now writes h g)))\<rparr>"
  by (simp add: placeLocked_def PutHold_def Let_def)

lemma Pass_store:
  assumes "Pass safety now writes share peer local deleting g = (g', False)"
  shows "g_store g' = (g_store g)\<lparr>holds := holds (g_store g')\<rparr>"
  using assms placeLocked_store
  by (auto simp: Pass_def decide_eq Let_def split: if_splits prod.splits)

text \<open>Whether the guard lets a pass go on.\<close>

definition may_apply :: "pass_env \<Rightarrow> ShareConfig \<Rightarrow> pass_state \<Rightarrow> bool" where
  "may_apply env cfg st \<longleftrightarrow>
     (let share = scfg_ShareID cfg; link = (share, pe_peerKey env);
          m = measure_rows (ListShare share True (ss_store (ps_session st)))
                (deletePaths (plan env cfg (ps_session st)));
          deletes = fst m; live = snd m; tripped = trigger (pe_safety env share) deletes live \<noteq> []
      in fmlookup (ps_held st) (share, []) = None \<and>
         (deletes = 0 \<or>
          (case fmlookup (ps_held st) link of
             None \<Rightarrow> \<not> tripped
           | Some h \<Rightarrow> ho_Confirmed h \<or> ho_Reason h = ReservedDirTaken \<and> \<not> tripped)))"

lemma guard_verdict:
  assumes "pe_guard env" "guard_ok (guard_of st)"
  shows "snd (shareGuardFunc env (scfg_ShareID cfg) (ListShare (scfg_ShareID cfg) True (ss_store (ps_session st)))
           (deletePaths (plan env cfg (ps_session st))) (guard_of st)) \<longleftrightarrow> may_apply env cfg st"
proof -
  have h: "ho_Reason h0 \<noteq> []" if "fmlookup (ps_held st) l = Some h0" for l h0
    using guard_okD [OF assms(2)] that by (auto simp: guard_of_def)
  obtain d n where m: "measure_rows (ListShare (scfg_ShareID cfg) True (ss_store (ps_session st)))
      (deletePaths (plan env cfg (ps_session st))) = (d, n)" by fastforce
  let ?h = "fmlookup (ps_held st) (scfg_ShareID cfg, pe_peerKey env)"
  note lets_through_iff [of ?h "pe_safety env (scfg_ShareID cfg)" d n, OF h]
  then show ?thesis using assms(1)
    by (cases ?h) (simp_all add: shareGuardFunc_def Pass_def decide_eq may_apply_def Let_def guard_of_def m)
qed

text \<open>
  C8. The guard stands before every change. On a session with a hold guard, a reconcile
  pass either changes nothing but the hold itself (no file, no row of the index, no
  warning, no frame and no notice to other peers), or it was allowed: this node's own copy
  of the share is not on hold, and the pass deletes no live file, or stays below the
  thresholds on a link with no hold over deletes, or the user confirmed that link's hold.
  In particular a pass that would delete every one of two or more live files changes
  nothing unless it was confirmed.
\<close>

theorem guarded_pass:
  assumes "pe_guard env" "guard_ok (guard_of st)" "reconcileLocked env cfg st = st'"
  shows "inert st st' \<or>
         may_apply env cfg st \<and>
         (case measure_rows (ListShare (scfg_ShareID cfg) True (ss_store (ps_session st)))
                 (deletePaths (plan env cfg (ps_session st))) of
            (deletes, live) \<Rightarrow> live < 2 \<or> deletes < live \<or>
              (\<exists>h. fmlookup (ps_held st) (scfg_ShareID cfg, pe_peerKey env) = Some h \<and> ho_Confirmed h))"
proof (cases "pe_lists env \<and> may_apply env cfg st")
  case True
  obtain d n where m: "measure_rows (ListShare (scfg_ShareID cfg) True (ss_store (ps_session st)))
      (deletePaths (plan env cfg (ps_session st))) = (d, n)" by fastforce
  have "n < 2 \<or> d < n \<or> trigger (pe_safety env (scfg_ShareID cfg)) d n \<noteq> []"
    by (cases "n < 2 \<or> d < n") (auto simp: trigger_def reason_defs)
  then show ?thesis using True
    by (cases "fmlookup (ps_held st) (scfg_ShareID cfg, pe_peerKey env)")
      (auto simp: may_apply_def Let_def m)
next
  case False
  let ?v = "shareGuardFunc env (scfg_ShareID cfg) (ListShare (scfg_ShareID cfg) True (ss_store (ps_session st)))
           (deletePaths (plan env cfg (ps_session st))) (guard_of st)"
  have "inert st st'"
  proof (cases "pe_lists env")
    case True
    then have nv: "\<not> snd ?v" using False guard_verdict [OF assms(1,2)] by blast
    then have "st' = with_guard (fst ?v) (st\<lparr>ps_reconciliations := Suc (ps_reconciliations st)\<rparr>)"
      using assms(3) True by (simp add: reconcileLocked_def Let_def guard_of_def)
    moreover have "g_store (fst ?v) = (ss_store (ps_session st))\<lparr>holds := holds (g_store (fst ?v))\<rparr>"
      using nv assms(1) Pass_store by (simp add: shareGuardFunc_def) (metis guard_of_def Guard.select_convs(1) prod.collapse)
    ultimately show ?thesis by (simp add: inert_def with_guard_def)
  qed (use assms(3) in \<open>auto simp: reconcileLocked_def inert_def\<close>)
  then show ?thesis by blast
qed

section \<open>What a pass leaves\<close>

lemma run_plan_kept:
  assumes "run_plan env cfg actions st = (changed, st')" "as_trash (ps_apply st)" "share_root (scfg_Root cfg)"
    "set (pe_sched env actions) \<subseteq> set actions"
  shows "kept (trash_area (scfg_Root cfg) \<union> (\<Union>a \<in> set actions. conflict_area cfg a))
           (as_world (ps_apply st)) (as_world (ps_apply st'))"
proof -
  let ?ast = "(ps_apply st)\<lparr>as_warnings := ss_warnings (ps_session st),
      as_event := Some (BeginPeerEvent (scfg_Root cfg) (pe_peerLabel env) (pe_now env))\<rparr>"
  obtain rows ast' db where p: "apply_pass (pe_apply env) (pe_fresh env) cfg (pe_sched env actions) (pe_now env)
      (?ast, ss_store (ps_session st)) = (rows, ast', db)" by (metis surj_pair)
  have "st_ok (scfg_Root cfg) ?ast"
    using assms(2,3) by (simp add: st_ok_def event_ok_def BeginPeerEvent_def begin_event_def)
  from pass_loses_nothing [OF p this]
  have "kept (trash_area (scfg_Root cfg) \<union> (\<Union>a \<in> set (pe_sched env actions). conflict_area cfg a))
      (as_world (ps_apply st)) (as_world ast')" by simp
  moreover have "as_world (ps_apply st') = as_world ast'"
    using assms(1,2) p by (auto simp: run_plan_def Let_def)
  ultimately show ?thesis using assms(4) by (auto elim!: kept_mono)
qed

lemma reconcileLocked_apply:
  "let st0 = st\<lparr>ps_reconciliations := Suc (ps_reconciliations st)\<rparr>; actions = plan env cfg (ps_session st);
       v = shareGuardFunc env (scfg_ShareID cfg) (ListShare (scfg_ShareID cfg) True (ss_store (ps_session st)))
             (deletePaths actions) (guard_of st0)
   in ps_apply (reconcileLocked env cfg st) =
        (if pe_lists env \<and> snd v then ps_apply (snd (run_plan env cfg actions (with_guard (fst v) st0))) else ps_apply st)"
  by (simp add: reconcileLocked_def Let_def with_guard_def)


section \<open>An action settles its path\<close>

lemma dominates_asym: "Dominates v w \<Longrightarrow> \<not> Dominates w v \<and> \<not> Equal v w \<and> \<not> Equal w v"
  unfolding Dominates_iff Equal_iff by (metis leD)

lemma resolved_settles:
  assumes "Equal (fi_Version x) (fi_Version r) \<or> Dominates (fi_Version x) (fi_Version r)" "\<not> OutboundBlocked dir"
  shows "ac_Kind (reconcileOne p (Some x) (Some r) n dir now) = ActionNone"
  using assms dominates_asym [of "fi_Version x" "fi_Version r"] by (auto simp: reconcileOne_def split: option.split)


text \<open>
  C38. A restored file stays flagged. On a receive-only share, when a file deleted here was
  changed by the offerer meanwhile, the pass brings the offerer's version back; but the
  row it stores has a version the offerer never sees, so the next pass reports the file as
  locally modified although it is what the offerer has.
\<close>

theorem receive_only_restore_flagged:
  assumes "fi_Deleted l" "\<not> fi_Deleted r" "Concurrent (fi_Version l) (fi_Version r)" "rejectRemote (Some r) = None"
    "OutboundBlocked dir" "\<not> InboundBlocked dir" "has_room (Merge (fi_Version l) (fi_Version r)) n"
  shows "let a = reconcileOne p (Some l) (Some r) n dir now;
             b = reconcileOne p (Some (ac_Resolved a)) (Some r) n dir now'
         in ac_Kind a = ActionResurrect \<and> ac_Source a = SourceRemote \<and>
            fi_SHA256 (ac_Resolved a) = fi_SHA256 r \<and> fi_Size (ac_Resolved a) = fi_Size r \<and>
            ac_Kind b = ActionLocallyModified \<and> ac_Source b = SourceNone"
proof -
  let ?m = "Bump (Merge (fi_Version l) (fi_Version r)) n"
  have a: "reconcileOne p (Some l) (Some r) n dir now =
      zero_Action\<lparr> ac_Kind := ActionResurrect, ac_RelPath := p, ac_Resolved := r\<lparr> fi_Version := ?m, fi_RelPath := p \<rparr>,
              ac_Source := SourceRemote, ac_SourceVersion := fi_Version r, ac_Reason := ModifyWins \<rparr>"
    using assms by (simp add: reconcileOne_concurrent reconcileConcurrent_def Let_def del: action_simps)
  have d: "Dominates ?m (fi_Version r)" using vv.resolution_dominates assms(7) by simp
  then have "\<not> Equal ?m (fi_Version r)" "\<not> Dominates (fi_Version r) ?m" using dominates_asym by blast+
  then show ?thesis using a d assms(4-6) by (simp add: Let_def reconcileOne_def)
qed

section \<open>Warnings\<close>

lemma recordWarning_set:
  "(\<lambda>w. (lw_ShareID w, lw_RelPath w)) ` set (snd (recordWarning w ws)) =
     insert (lw_ShareID w, lw_RelPath w) ((\<lambda>w. (lw_ShareID w, lw_RelPath w)) ` set ws)"
  by (induction ws) (auto split: prod.splits)

lemma recordWarning_others:
  "filter (\<lambda>x. lw_ShareID x \<noteq> lw_ShareID w) (snd (recordWarning w ws)) = filter (\<lambda>x. lw_ShareID x \<noteq> lw_ShareID w) ws"
  by (induction ws) (auto split: prod.splits)

lemma flag_all_set:
  "(\<lambda>w. (lw_ShareID w, lw_RelPath w)) ` set (flag_all share now as ws) =
     Pair share ` set (flagged_paths as) \<union> (\<lambda>w. (lw_ShareID w, lw_RelPath w)) ` set ws"
  by (induction as arbitrary: ws) (auto simp: flagged_paths_def recordWarning_set)

lemma flag_all_others:
  "filter (\<lambda>x. lw_ShareID x \<noteq> share) (flag_all share now as ws) = filter (\<lambda>x. lw_ShareID x \<noteq> share) ws"
proof (induction as arbitrary: ws)
  case (Cons a as)
  then show ?case
    using recordWarning_others [of "\<lparr>lw_ShareID = share, lw_RelPath = ac_RelPath a, lw_At = now, lw_Reverted = False, lw_Reason = ac_Reason a\<rparr>" ws]
    by simp
qed simp

text \<open>
  The warnings are the present differences. When the local copy of a receive-only
  share changed, the paths with a warning for that share are afterwards exactly those at
  which it differs from what the offerer last sent: old warnings that no longer apply are
  gone, those of other shares are as they were, and nothing but the warnings has changed.
\<close>

theorem local_edits_flagged:
  assumes "pe_lists env"
  shows "lw_RelPath ` {w \<in> set (ss_warnings (flagLocalEdits env cfg s)). lw_ShareID w = scfg_ShareID cfg} =
           ac_RelPath ` {a \<in> set (plan env cfg s). ac_Kind a = ActionLocallyModified} \<and>
         filter (\<lambda>w. lw_ShareID w \<noteq> scfg_ShareID cfg) (ss_warnings (flagLocalEdits env cfg s)) =
           filter (\<lambda>w. lw_ShareID w \<noteq> scfg_ShareID cfg) (ss_warnings s) \<and>
         flagLocalEdits env cfg s = s\<lparr>ss_warnings := ss_warnings (flagLocalEdits env cfg s)\<rparr>"
proof -
  let ?f = "flag_all (scfg_ShareID cfg) (pe_now env) (plan env cfg s) (ss_warnings s)"
  let ?p = "set (flagged_paths (plan env cfg s))"
  have w: "ss_warnings (flagLocalEdits env cfg s) = filter (\<lambda>w. \<not> (lw_ShareID w = scfg_ShareID cfg \<and> lw_RelPath w \<notin> ?p)) ?f"
    using assms by (simp add: flagLocalEdits_def retainWarnings_def Let_def)
  have "p \<in> ?p \<Longrightarrow> (scfg_ShareID cfg, p) \<in> (\<lambda>w. (lw_ShareID w, lw_RelPath w)) ` set ?f" for p
    unfolding flag_all_set by blast
  then have "lw_RelPath ` {w \<in> set (ss_warnings (flagLocalEdits env cfg s)). lw_ShareID w = scfg_ShareID cfg} = ?p"
    unfolding w by (fastforce simp: image_iff)
  moreover have "?p = ac_RelPath ` {a \<in> set (plan env cfg s). ac_Kind a = ActionLocallyModified}"
    by (auto simp: flagged_paths_def)
  moreover have "filter (\<lambda>w. lw_ShareID w \<noteq> scfg_ShareID cfg) (ss_warnings (flagLocalEdits env cfg s)) =
      filter (\<lambda>w. lw_ShareID w \<noteq> scfg_ShareID cfg) ?f" unfolding w by (simp add: filter_filter) meson
  ultimately show ?thesis using flag_all_others by (simp add: flagLocalEdits_def Let_def)
qed

section \<open>Concrete passes\<close>

text \<open>The share of the applier's example, whose peer offers a new version of \<open>a\<close>.\<close>

definition ex_pass_env :: pass_env where
  "ex_pass_env = \<lparr>pe_apply = ex_env, pe_fresh = ''e'', pe_lists = True, pe_upserts = True, pe_guard = True, pe_safety = ex_sf,
     pe_holdWrites = True, pe_peerKey = ''k'', pe_peerLabel = ''b'', pe_now = 0, pe_sched = id\<rparr>"

definition ex_offered :: store where
  "ex_offered = UpsertPeerFiles ''p'' [FileRowFromInfo ''x'' ex_info 0] empty_store"

definition ex_pass_state :: pass_state where
  "ex_pass_state = \<lparr>ps_session = AddShare ex_cfg (new_session ''bbbbbbbbbbbbbbbb'' ''p'' ex_offered), ps_held = fmempty,
     ps_apply = ex_st, ps_applied = [], ps_reconciliations = 0\<rparr>"

definition ex_own_hold :: Hold where
  "ex_own_hold = \<lparr>ho_ShareID = ''x'', ho_PeerKey = [], ho_Reason = EverythingVanished, ho_Deletes = 2, ho_Live = 2,
     ho_Since = 0, ho_Confirmed = False\<rparr>"

definition ex_held_state :: pass_state where
  "ex_held_state = ex_pass_state\<lparr>ps_session := (ps_session ex_pass_state)\<lparr>ss_store :=
       empty_store\<lparr>holds := fmupd (''x'', []) ex_own_hold fmempty\<rparr>\<rparr>, ps_held := fmupd (''x'', []) ex_own_hold fmempty\<rparr>"

lemma ex_plan_pull: "map ac_Kind (plan ex_pass_env ex_cfg (ps_session ex_pass_state)) = [ActionPull]"
  by code_simp

theorem guarded_pass_witness:
  "guard_ok (guard_of ex_held_state) \<and> \<not> may_apply ex_pass_env ex_cfg ex_held_state \<and>
   inert ex_held_state (reconcileLocked ex_pass_env ex_cfg ex_held_state)"
proof -
  have g: "guard_ok (guard_of ex_held_state)"
    by (simp add: guard_ok_def guard_of_def ex_held_state_def holds_ok_def hold_ok_def link_of_def ex_own_hold_def reason_defs)
  have "\<not> may_apply ex_pass_env ex_cfg ex_held_state"
    by (simp add: may_apply_def Let_def ex_held_state_def ex_cfg_def)
  moreover have "pe_guard ex_pass_env" by (simp add: ex_pass_env_def)
  ultimately show ?thesis using guarded_pass [OF _ g refl] g by blast
qed



definition ex_gone :: FileInfo where
  "ex_gone = (ex_file ''a'' 1 5 ex_va)\<lparr>fi_Deleted := True\<rparr>"

theorem receive_only_restore_flagged_witness:
  "let dir = DirectionFor '''' ''receive-only'';
       a = reconcileOne ''a'' (Some ex_gone) (Some (ex_file ''a'' 2 7 ex_vb)) ''n'' dir 0 in
     ac_Kind a = ActionResurrect \<and>
     ac_Kind (reconcileOne ''a'' (Some (ac_Resolved a)) (Some (ex_file ''a'' 2 7 ex_vb)) ''n'' dir 1) = ActionLocallyModified"
proof -
  let ?r = "ex_file ''a'' 2 7 ex_vb" and ?d = "DirectionFor '''' ''receive-only''"
  have "fi_Deleted ex_gone" "\<not> fi_Deleted ?r" "Concurrent (fi_Version ex_gone) (fi_Version ?r)"
    "OutboundBlocked ?d" "\<not> InboundBlocked ?d" "has_room (Merge (fi_Version ex_gone) (fi_Version ?r)) ''n''" by code_simp+
  moreover have "rejectRemote (Some ?r) = None"
  proof -
    have "ValidateRelPath ''a'' = ok" by code_simp
    then show ?thesis by (simp add: rejectRemote_def ex_file_def FileTypeFile_def FileTypeSymlink_def)
  qed
  ultimately show ?thesis using receive_only_restore_flagged [of ex_gone ?r ?d "''n''" "''a''" 0 1] by (simp add: Let_def)
qed

theorem local_edits_flagged_witness:
  "let cfg = ex_share\<lparr>scfg_Direction := DirectionFor '''' ''receive-only''\<rparr> in
     lw_RelPath ` {w \<in> set (ss_warnings (flagLocalEdits ex_pass_env cfg ex_serving)). lw_ShareID w = ''s''} = {''a.txt''}"
proof -
  let ?cfg = "ex_share\<lparr>scfg_Direction := DirectionFor '''' ''receive-only''\<rparr>"
  have "map (\<lambda>a. (ac_Kind a, ac_RelPath a)) (plan ex_pass_env ?cfg ex_serving) = [(ActionLocallyModified, ''a.txt'')]"
    by code_simp
  then obtain a where a: "plan ex_pass_env ?cfg ex_serving = [a]" "ac_Kind a = ActionLocallyModified" "ac_RelPath a = ''a.txt''"
    by (auto simp: map_eq_Cons_conv)
  then have "ac_RelPath ` {x \<in> set (plan ex_pass_env ?cfg ex_serving). ac_Kind x = ActionLocallyModified} = {''a.txt''}"
    by (auto simp: image_iff)
  moreover have "pe_lists ex_pass_env" "scfg_ShareID ?cfg = ''s''" by (simp_all add: ex_pass_env_def ex_share_def)
  ultimately show ?thesis using local_edits_flagged [of ex_pass_env ?cfg ex_serving] by (simp only: Let_def)
qed

end
