(* ===== verification/Mutations.thy ===== *)
theory Mutations
  imports HoldGuard
begin

text \<open>
  The config-mutation API of a node: \<^verbatim>\<open>internal/core/mutations.go\<close>, the approval queue of
  \<^verbatim>\<open>approvals.go\<close>, reference resolution (\<^verbatim>\<open>resolve.go\<close>) and the error classes of
  \<^verbatim>\<open>mutation_error.go\<close>. Each mutation is its edit of a configuration, a function that may fail;
  what a change does to the running node is in the next theory.

  CBOR decoding of tokens (\<open>um\<close>) and \<open>strings.ToLower\<close> (\<open>lower\<close>) are arguments. Error texts are
  reduced to their class.

  The results: a reference names what it was resolved to and nothing else; and the
  structure of the configuration survives every edit (no peer is configured twice or both
  configured and pending, the queue of unknown peers is bounded, no share is subscribed to
  twice).
\<close>

section \<open>Errors and lists\<close>

datatype MutationErrorKind = MutationInvalid | MutationNotFound | MutationConflict

datatype mut_err = MutationError MutationErrorKind | OtherError

definition ClassifyMutationError :: "mut_err \<Rightarrow> MutationErrorKind option" where
  "ClassifyMutationError e = (case e of MutationError k \<Rightarrow> Some k | OtherError \<Rightarrow> None)"

fun index_where :: "('a \<Rightarrow> bool) \<Rightarrow> 'a list \<Rightarrow> nat option" where
  "index_where P [] = None"
| "index_where P (x # xs) = (if P x then Some 0 else map_option Suc (index_where P xs))"

definition del_at :: "nat \<Rightarrow> 'a list \<Rightarrow> 'a list" where
  "del_at i xs = take i xs @ drop (Suc i) xs"

section \<open>References\<close>

text \<open>A candidate is an id and a display name, which may be empty.\<close>

definition pick_one :: "string list \<Rightarrow> (mut_err + string) \<Rightarrow> mut_err + string" where
  "pick_one matches otherwise = (case matches of
       [] \<Rightarrow> otherwise | [x] \<Rightarrow> Inr x | _ \<Rightarrow> Inl (MutationError MutationInvalid))"

definition matchRef :: "(string \<Rightarrow> string) \<Rightarrow> string \<Rightarrow> (string \<times> string) list \<Rightarrow> mut_err + string" where
  "matchRef lower ref candidates =
     (if ref = [] then Inl (MutationError MutationInvalid)
      else if candidates = [] then Inl (MutationError MutationNotFound)
      else if list_ex (\<lambda>c. fst c = ref) candidates then Inr ref
      else
        let byName = map fst (filter (\<lambda>c. snd c \<noteq> [] \<and> snd c = ref) candidates);
            byPrefix = map fst (filter (\<lambda>c. has_prefix (lower (fst c)) (lower ref)) candidates)
        in pick_one byName (pick_one byPrefix (Inl (MutationError MutationNotFound))))"

section \<open>Keys and positions\<close>

type_synonym uncbor = "bytes \<Rightarrow> tokenPayload option"

definition token_key :: "uncbor \<Rightarrow> string \<Rightarrow> string option" where
  "token_key um tok = (case ParseToken um tok of Inl e \<Rightarrow> None | Inr t \<Rightarrow> Some (hex_encode (nt_ID t)))"

definition peerKeyOf :: "uncbor \<Rightarrow> Peer \<Rightarrow> string option" where
  "peerKeyOf um p = token_key um (pe_Token p)"

definition pendingPeerKey :: "uncbor \<Rightarrow> PendingPeer \<Rightarrow> string option" where
  "pendingPeerKey um p = token_key um (pp_Token p)"

definition findPeerIndex :: "uncbor \<Rightarrow> Config \<Rightarrow> string \<Rightarrow> nat option" where
  "findPeerIndex um cfg key = index_where (\<lambda>p. peerKeyOf um p = Some key) (co_Peers cfg)"

definition findShareIndex :: "Config \<Rightarrow> string \<Rightarrow> nat option" where
  "findShareIndex cfg shareID = index_where (\<lambda>s. sh_ID s = shareID) (co_Shares cfg)"

definition findSubscriptionIndex :: "Config \<Rightarrow> string \<Rightarrow> string \<Rightarrow> nat option" where
  "findSubscriptionIndex cfg key shareID =
     index_where (\<lambda>s. su_Peer s = key \<and> su_ShareID s = shareID) (co_Subscriptions cfg)"

definition subscribesToShare :: "Config \<Rightarrow> string \<Rightarrow> bool" where
  "subscribesToShare cfg shareID = list_ex (\<lambda>s. su_ShareID s = shareID) (co_Subscriptions cfg)"

section \<open>Edits of the configuration\<close>

type_synonym edit = "Config \<Rightarrow> mut_err + Config"

text \<open>Peers.\<close>

definition edit_AddPeer :: "uncbor \<Rightarrow> string \<Rightarrow> Peer \<Rightarrow> edit" where
  "edit_AddPeer um key p cfg =
     (if findPeerIndex um cfg key \<noteq> None then Inl (MutationError MutationConflict)
      else Inr (cfg\<lparr>co_PendingPeers := filter (\<lambda>q. pendingPeerKey um q \<noteq> Some key) (co_PendingPeers cfg),
                    co_Peers := co_Peers cfg @ [p]\<rparr>))"

definition edit_RemovePeer :: "uncbor \<Rightarrow> string \<Rightarrow> edit" where
  "edit_RemovePeer um key cfg =
     (case findPeerIndex um cfg key of
        None \<Rightarrow> Inl (MutationError MutationNotFound)
      | Some i \<Rightarrow> Inr (cfg\<lparr>co_Peers := del_at i (co_Peers cfg),
                         co_Subscriptions := filter (\<lambda>s. su_Peer s \<noteq> key) (co_Subscriptions cfg),
                         co_Shares := map (\<lambda>s. s\<lparr>sh_Access := fmdrop key (sh_Access s)\<rparr>) (co_Shares cfg)\<rparr>))"

text \<open>Shares. The id is the one \<open>config.NewShareID\<close> drew.\<close>

definition zero_Safety :: Safety where
  "zero_Safety = \<lparr>sf_HoldDeletePercent = 0, sf_HoldDeleteMin = 0, sf_TrashRetentionDays = 0, sf_TrashMaxSize = []\<rparr>"

definition path_conflict :: "config_err \<Rightarrow> mut_err" where
  "path_conflict e = (case e of PathOverlap p \<Rightarrow> MutationError MutationConflict | _ \<Rightarrow> OtherError)"

definition edit_AddShare :: "string \<Rightarrow> string \<Rightarrow> string \<Rightarrow> string \<Rightarrow> bool \<Rightarrow> edit" where
  "edit_AddShare i path name permission approvalRequired cfg =
     (case CheckSharePath cfg path of
        Some e \<Rightarrow> Inl (path_conflict e)
      | None \<Rightarrow> Inr (cfg\<lparr>co_Shares := co_Shares cfg @ [\<lparr>sh_ID = i, sh_Name = name, sh_Path = path,
          sh_Permission = permission, sh_ApprovalRequired = approvalRequired, sh_Access = fmempty,
          sh_Safety = zero_Safety\<rparr>]\<rparr>))"

definition edit_RemoveShare :: "string \<Rightarrow> edit" where
  "edit_RemoveShare shareID cfg =
     (case findShareIndex cfg shareID of
        None \<Rightarrow> Inl (MutationError MutationNotFound)
      | Some i \<Rightarrow> Inr (cfg\<lparr>co_Shares := del_at i (co_Shares cfg)\<rparr>))"

record ShareChange =
  sx_Name :: "string option"
  sx_Permission :: "string option"
  sx_ApprovalRequired :: "bool option"
  sx_Access :: "(string, string) fmap"

definition change_share :: "ShareChange \<Rightarrow> (string, string) fmap \<Rightarrow> Share \<Rightarrow> Share" where
  "change_share ch access s =
     s\<lparr>sh_Name := (case sx_Name ch of None \<Rightarrow> sh_Name s | Some n \<Rightarrow> n),
       sh_Permission := (case sx_Permission ch of None \<Rightarrow> sh_Permission s | Some p \<Rightarrow> p),
       sh_ApprovalRequired := (case sx_ApprovalRequired ch of None \<Rightarrow> sh_ApprovalRequired s | Some b \<Rightarrow> b),
       sh_Access := sh_Access s ++\<^sub>f access\<rparr>"

definition edit_updateShare :: "string \<Rightarrow> ShareChange \<Rightarrow> (string, string) fmap \<Rightarrow> edit" where
  "edit_updateShare shareID ch access cfg =
     (case findShareIndex cfg shareID of
        None \<Rightarrow> Inl (MutationError MutationNotFound)
      | Some i \<Rightarrow> Inr (cfg\<lparr>co_Shares := (co_Shares cfg)[i := change_share ch access (co_Shares cfg ! i)]\<rparr>))"

text \<open>The change \<open>finishSubscribeRequest\<close> makes.\<close>

definition edit_recordAccess :: "string \<Rightarrow> string \<Rightarrow> string \<Rightarrow> edit" where
  "edit_recordAccess shareID key access cfg =
     (case findShareIndex cfg shareID of
        None \<Rightarrow> Inl (MutationError MutationNotFound)
      | Some i \<Rightarrow>
          let s = co_Shares cfg ! i in
          if fmlookup (sh_Access s) key = Some access then Inr cfg
          else Inr (cfg\<lparr>co_Shares := (co_Shares cfg)[i := s\<lparr>sh_Access := fmupd key access (sh_Access s)\<rparr>]\<rparr>))"

text \<open>Subscriptions. Creating the folder may fail, and its reserved directory may belong to
  something else.\<close>

definition edit_AddSubscription :: "bool \<Rightarrow> bool \<Rightarrow> string \<Rightarrow> string \<Rightarrow> string \<Rightarrow> string \<Rightarrow> edit" where
  "edit_AddSubscription mkdirOK reservedTaken key shareID localPath mode cfg =
     (case CheckSubscriptionPath cfg localPath of
        Some e \<Rightarrow> Inl (path_conflict e)
      | None \<Rightarrow>
         if findSubscriptionIndex cfg key shareID \<noteq> None then Inl (MutationError MutationConflict)
         else if \<not> mkdirOK then Inl OtherError
         else if reservedTaken then Inl (MutationError MutationConflict)
         else Inr (cfg\<lparr>co_Subscriptions := co_Subscriptions cfg @ [\<lparr>su_Peer = key, su_ShareID = shareID,
                su_LocalPath = localPath, su_Mode = mode, su_Paused = False, su_Safety = zero_Safety\<rparr>]\<rparr>))"

definition edit_RemoveSubscription :: "string \<Rightarrow> string \<Rightarrow> edit" where
  "edit_RemoveSubscription key shareID cfg =
     (case findSubscriptionIndex cfg key shareID of
        None \<Rightarrow> Inl (MutationError MutationNotFound)
      | Some i \<Rightarrow> Inr (cfg\<lparr>co_Subscriptions := del_at i (co_Subscriptions cfg)\<rparr>))"

definition edit_PauseSubscription :: "string \<Rightarrow> string \<Rightarrow> bool \<Rightarrow> edit" where
  "edit_PauseSubscription key shareID paused cfg =
     (case findSubscriptionIndex cfg key shareID of
        None \<Rightarrow> Inl (MutationError MutationNotFound)
      | Some i \<Rightarrow> Inr (cfg\<lparr>co_Subscriptions :=
          (co_Subscriptions cfg)[i := (co_Subscriptions cfg ! i)\<lparr>su_Paused := paused\<rparr>]\<rparr>))"

definition edit_SetSafety :: "string \<Rightarrow> Safety \<Rightarrow> edit" where
  "edit_SetSafety shareID sf cfg =
     (if findShareIndex cfg shareID = None \<and> \<not> subscribesToShare cfg shareID
      then Inl (MutationError MutationNotFound)
      else Inr (cfg\<lparr>co_Shares := (case findShareIndex cfg shareID of
                       None \<Rightarrow> co_Shares cfg
                     | Some i \<Rightarrow> (co_Shares cfg)[i := (co_Shares cfg ! i)\<lparr>sh_Safety := sf\<rparr>]),
                    co_Subscriptions := map (\<lambda>s. if su_ShareID s = shareID then s\<lparr>su_Safety := sf\<rparr> else s)
                      (co_Subscriptions cfg)\<rparr>))"

definition edit_RenameNode :: "string \<Rightarrow> edit" where
  "edit_RenameNode name cfg = Inr (cfg\<lparr>co_NodeName := name\<rparr>)"

text \<open>The queue of unknown peers.\<close>

definition maxPendingPeers :: nat where "maxPendingPeers = 128"
definition pendingPeerWriteInterval :: int where "pendingPeerWriteInterval = 60000000000"

definition edit_recordPendingPeer :: "uncbor \<Rightarrow> string \<Rightarrow> string \<Rightarrow> string \<Rightarrow> int \<Rightarrow> edit" where
  "edit_recordPendingPeer um key name tok now cfg =
     (if findPeerIndex um cfg key \<noteq> None then Inr cfg
      else case index_where (\<lambda>q. pendingPeerKey um q = Some key) (co_PendingPeers cfg) of
        Some i \<Rightarrow> Inr (cfg\<lparr>co_PendingPeers := (co_PendingPeers cfg)[i :=
            (co_PendingPeers cfg ! i)\<lparr>pp_Name := name, pp_Token := tok, pp_LastSeen := now\<rparr>]\<rparr>)
      | None \<Rightarrow>
          if length (co_PendingPeers cfg) \<ge> maxPendingPeers then Inl OtherError
          else Inr (cfg\<lparr>co_PendingPeers := co_PendingPeers cfg @
                 [\<lparr>pp_Name = name, pp_Token = tok, pp_FirstSeen = now, pp_LastSeen = now\<rparr>]\<rparr>))"

definition edit_ApprovePendingPeer :: "uncbor \<Rightarrow> string \<Rightarrow> edit" where
  "edit_ApprovePendingPeer um query cfg =
     (let hit = (\<lambda>q. case pendingPeerKey um q of None \<Rightarrow> False | Some k \<Rightarrow> k = query \<or> has_prefix k query) in
      case filter (\<lambda>x. hit (snd x)) (enumerate 0 (co_PendingPeers cfg)) of
        [] \<Rightarrow> Inl (MutationError MutationNotFound)
      | [(i, q)] \<Rightarrow>
          if findPeerIndex um cfg (the (pendingPeerKey um q)) \<noteq> None then Inl (MutationError MutationConflict)
          else Inr (cfg\<lparr>co_PendingPeers := del_at i (co_PendingPeers cfg),
                 co_Peers := co_Peers cfg @ [\<lparr>pe_Name = pp_Name q, pe_Token = pp_Token q, pe_Enabled = True\<rparr>]\<rparr>)
      | _ \<Rightarrow> Inl (MutationError MutationInvalid))"

definition edit_removePendingPeer :: "uncbor \<Rightarrow> string \<Rightarrow> edit" where
  "edit_removePendingPeer um key cfg =
     (case index_where (\<lambda>q. pendingPeerKey um q = Some key) (co_PendingPeers cfg) of
        None \<Rightarrow> Inl (MutationError MutationNotFound)
      | Some i \<Rightarrow> Inr (cfg\<lparr>co_PendingPeers := del_at i (co_PendingPeers cfg)\<rparr>))"

section \<open>The approval queue\<close>

record Approval =
  ap_ID :: string
  ap_Kind :: string
  ap_PeerKey :: string
  ap_PeerName :: string
  ap_ShareID :: string
  ap_ShareName :: string
  ap_CreatedAt :: "int option"

definition ApprovalPeer :: string where "ApprovalPeer = ''peer''"
definition ApprovalShare :: string where "ApprovalShare = ''share''"

definition peerApprovalID :: "string \<Rightarrow> string" where
  "peerApprovalID key = ''peer-'' @ key"

definition shareApprovalID :: "string \<Rightarrow> string \<Rightarrow> string" where
  "shareApprovalID shareID key = ''share-'' @ shareID @ ''-'' @ key"

definition peer_name :: "uncbor \<Rightarrow> Config \<Rightarrow> string \<Rightarrow> string" where
  "peer_name um cfg key =
     (case find (\<lambda>p. peerKeyOf um p = Some key) (rev (co_Peers cfg)) of None \<Rightarrow> [] | Some p \<Rightarrow> pe_Name p)"

definition Approvals :: "uncbor \<Rightarrow> Config \<Rightarrow> Approval list" where
  "Approvals um cfg =
     sort_key (\<lambda>a. (ap_Kind a, ap_ID a))
       (concat (map (\<lambda>q. case pendingPeerKey um q of
            None \<Rightarrow> []
          | Some key \<Rightarrow> [\<lparr>ap_ID = peerApprovalID key, ap_Kind = ApprovalPeer, ap_PeerKey = key, ap_PeerName = pp_Name q,
                         ap_ShareID = [], ap_ShareName = [], ap_CreatedAt = Some (pp_FirstSeen q)\<rparr>])
          (co_PendingPeers cfg)) @
        concat (map (\<lambda>s. map (\<lambda>key. \<lparr>ap_ID = shareApprovalID (sh_ID s) key, ap_Kind = ApprovalShare, ap_PeerKey = key,
                         ap_PeerName = peer_name um cfg key, ap_ShareID = sh_ID s, ap_ShareName = sh_Name s,
                         ap_CreatedAt = None\<rparr>)
            (filter (\<lambda>key. fmlookup (sh_Access s) key = Some AccessPending) (sorted_list_of_fset (fmdom (sh_Access s)))))
          (co_Shares cfg)))"

section \<open>What a reference resolves to\<close>

lemma pick_one_Inr: "pick_one xs d = Inr x \<longleftrightarrow> xs = [x] \<or> xs = [] \<and> d = Inr x"
  by (auto simp: pick_one_def split: list.splits)

text \<open>
  A reference is resolved to the one thing it can mean. An exact id always resolves to
  itself, whatever names or prefixes look like it. Any other successful resolution is the
  id of the only candidate with that display name, or, when no candidate has the name, of
  the only candidate whose id starts with the reference; so nothing is ever picked among
  several.
\<close>

theorem match_ref_unique:
  "(ref \<noteq> [] \<and> ref \<in> fst ` set candidates \<and> matchRef lower ref candidates = Inr ref) \<or>
   (ref = [] \<or> ref \<notin> fst ` set candidates) \<and>
   (isl (matchRef lower ref candidates) \<or>
    (\<exists>i. matchRef lower ref candidates = Inr i \<and>
       (map fst (filter (\<lambda>c. snd c = ref) candidates) = [i] \<or>
        filter (\<lambda>c. snd c = ref) candidates = [] \<and>
        map fst (filter (\<lambda>c. has_prefix (lower (fst c)) (lower ref)) candidates) = [i])))"
proof (cases "ref = []")
  case True
  then show ?thesis by (simp add: matchRef_def)
next
  case False
  then have name: "filter (\<lambda>c. snd c \<noteq> [] \<and> snd c = ref) candidates = filter (\<lambda>c. snd c = ref) candidates"
    by (intro filter_cong) auto
  show ?thesis
  proof (cases "ref \<in> fst ` set candidates")
    case True
    then show ?thesis using False by (auto simp: matchRef_def list_ex_iff)
  next
    case nex: False
    then have "\<not> list_ex (\<lambda>c. fst c = ref) candidates" by (auto simp: list_ex_iff)
    then have "matchRef lower ref candidates = Inr i \<Longrightarrow>
        map fst (filter (\<lambda>c. snd c = ref) candidates) = [i] \<or>
        filter (\<lambda>c. snd c = ref) candidates = [] \<and>
        map fst (filter (\<lambda>c. has_prefix (lower (fst c)) (lower ref)) candidates) = [i]" for i
      using False name by (auto simp: matchRef_def Let_def pick_one_Inr split: if_splits)
    then show ?thesis using nex by (cases "matchRef lower ref candidates") auto
  qed
qed

section \<open>The structure of a configuration\<close>

definition cfg_ok :: "uncbor \<Rightarrow> Config \<Rightarrow> bool" where
  "cfg_ok um cfg \<longleftrightarrow>
     distinct (List.map_filter (peerKeyOf um) (co_Peers cfg)) \<and>
     distinct (List.map_filter (pendingPeerKey um) (co_PendingPeers cfg)) \<and>
     set (List.map_filter (peerKeyOf um) (co_Peers cfg)) \<inter> set (List.map_filter (pendingPeerKey um) (co_PendingPeers cfg)) = {} \<and>
     length (co_PendingPeers cfg) \<le> maxPendingPeers \<and>
     distinct (map (\<lambda>s. (su_Peer s, su_ShareID s)) (co_Subscriptions cfg)) \<and>
     distinct (map sh_ID (co_Shares cfg))"

lemma index_where_None: "index_where P xs = None \<longleftrightarrow> (\<forall>x \<in> set xs. \<not> P x)"
  by (induction xs) auto

lemma index_where_Some: "index_where P xs = Some i \<Longrightarrow> i < length xs \<and> P (xs ! i)"
  by (induction xs arbitrary: i) (auto split: if_splits)

lemma del_at_split: "i < length xs \<Longrightarrow> \<exists>ys zs. xs = ys @ xs ! i # zs \<and> del_at i xs = ys @ zs \<and> length ys = i"
  by (intro exI [of _ "take i xs"] exI [of _ "drop (Suc i) xs"]) (simp add: del_at_def id_take_nth_drop [symmetric])

lemma update_split: "i < length xs \<Longrightarrow> \<exists>ys zs. xs = ys @ xs ! i # zs \<and> xs[i := v] = ys @ v # zs"
  by (metis id_take_nth_drop upd_conv_take_nth_drop)

lemma map_filter_append [simp]: "List.map_filter f (xs @ ys) = List.map_filter f xs @ List.map_filter f ys"
  by (simp add: List.map_filter_def)

lemma map_filter_single [simp]: "List.map_filter f (x # xs) = (case f x of None \<Rightarrow> [] | Some y \<Rightarrow> [y]) @ List.map_filter f xs"
  by (simp add: List.map_filter_def split: option.split)

lemma map_filter_filter_other:
  "List.map_filter f (filter (\<lambda>x. f x \<noteq> Some k) xs) = filter (\<lambda>y. y \<noteq> k) (List.map_filter f xs)"
  by (induction xs) (auto split: option.split)

lemma mem_map_filter: "k \<in> set (List.map_filter f xs) \<longleftrightarrow> (\<exists>x \<in> set xs. f x = Some k)"
  by (force simp: List.map_filter_def)

text \<open>The edits as the entry points make them, with what those have checked before.\<close>

inductive edit_step :: "uncbor \<Rightarrow> Config \<Rightarrow> Config \<Rightarrow> bool" for um where
  add_peer: "peerKeyOf um p = Some key \<Longrightarrow> edit_AddPeer um key p cfg = Inr cfg' \<Longrightarrow> edit_step um cfg cfg'"
| remove_peer: "edit_RemovePeer um key cfg = Inr cfg' \<Longrightarrow> edit_step um cfg cfg'"
| add_share: "i \<notin> sh_ID ` set (co_Shares cfg) \<Longrightarrow> edit_AddShare i path name permission approval cfg = Inr cfg' \<Longrightarrow>
    edit_step um cfg cfg'"
| remove_share: "edit_RemoveShare shareID cfg = Inr cfg' \<Longrightarrow> edit_step um cfg cfg'"
| update_share: "edit_updateShare shareID ch access cfg = Inr cfg' \<Longrightarrow> edit_step um cfg cfg'"
| record_access: "edit_recordAccess shareID key access cfg = Inr cfg' \<Longrightarrow> edit_step um cfg cfg'"
| add_subscription: "edit_AddSubscription mk taken key shareID path mode cfg = Inr cfg' \<Longrightarrow> edit_step um cfg cfg'"
| remove_subscription: "edit_RemoveSubscription key shareID cfg = Inr cfg' \<Longrightarrow> edit_step um cfg cfg'"
| pause: "edit_PauseSubscription key shareID paused cfg = Inr cfg' \<Longrightarrow> edit_step um cfg cfg'"
| safety: "edit_SetSafety shareID sf cfg = Inr cfg' \<Longrightarrow> edit_step um cfg cfg'"
| rename_node: "edit_RenameNode name cfg = Inr cfg' \<Longrightarrow> edit_step um cfg cfg'"
| pending: "token_key um tok = Some key \<Longrightarrow> edit_recordPendingPeer um key name tok now cfg = Inr cfg' \<Longrightarrow>
    edit_step um cfg cfg'"
| approve: "edit_ApprovePendingPeer um query cfg = Inr cfg' \<Longrightarrow> edit_step um cfg cfg'"
| deny: "edit_removePendingPeer um key cfg = Inr cfg' \<Longrightarrow> edit_step um cfg cfg'"

lemma del_at_index:
  assumes "index_where P xs = Some i"
  obtains ys x zs where "xs = ys @ x # zs" "del_at i xs = ys @ zs" "P x"
  using index_where_Some [OF assms] del_at_split [of i xs] by metis

lemma update_index:
  assumes "index_where P xs = Some i"
  obtains ys x zs where "xs = ys @ x # zs" "xs ! i = x" "\<And>v. xs[i := v] = ys @ v # zs" "P x"
  using index_where_Some [OF assms] by (metis id_take_nth_drop upd_conv_take_nth_drop)

lemma add_peer_ok:
  assumes "peerKeyOf um p = Some key" "edit_AddPeer um key p cfg = Inr cfg'" "cfg_ok um cfg"
  shows "cfg_ok um cfg'"
proof -
  have "key \<notin> set (List.map_filter (peerKeyOf um) (co_Peers cfg))"
    using assms(2) by (auto simp: edit_AddPeer_def findPeerIndex_def index_where_None mem_map_filter split: if_splits)
  then show ?thesis using assms
    by (auto simp: edit_AddPeer_def cfg_ok_def map_filter_filter_other intro: le_trans [OF length_filter_le] split: if_splits)
qed

lemma remove_peer_ok: "edit_RemovePeer um key cfg = Inr cfg' \<Longrightarrow> cfg_ok um cfg \<Longrightarrow> cfg_ok um cfg'"
  unfolding edit_RemovePeer_def findPeerIndex_def
  by (clarsimp split: option.splits; erule del_at_index)
    (auto simp: cfg_ok_def distinct_map_filter o_def split: option.splits)

lemma pending_ok:
  assumes "token_key um tok = Some key" "edit_recordPendingPeer um key name tok now cfg = Inr cfg'" "cfg_ok um cfg"
  shows "cfg_ok um cfg'"
proof (cases "cfg' = cfg")
  case False
  then have np: "key \<notin> set (List.map_filter (peerKeyOf um) (co_Peers cfg))"
    using assms(2) by (auto simp: edit_recordPendingPeer_def findPeerIndex_def index_where_None mem_map_filter split: if_splits)
  have f: "findPeerIndex um cfg key = None" using False assms(2) by (auto simp: edit_recordPendingPeer_def split: if_splits)
  show ?thesis
  proof (cases "index_where (\<lambda>q. pendingPeerKey um q = Some key) (co_PendingPeers cfg)")
    case None
    then have "key \<notin> set (List.map_filter (pendingPeerKey um) (co_PendingPeers cfg))"
      by (auto simp: index_where_None mem_map_filter)
    then show ?thesis using assms None f np
      by (auto simp: edit_recordPendingPeer_def cfg_ok_def pendingPeerKey_def split: if_splits)
  next
    case (Some i)
    then obtain ys x zs where "co_PendingPeers cfg = ys @ x # zs" "co_PendingPeers cfg ! i = x"
        "\<And>v. (co_PendingPeers cfg)[i := v] = ys @ v # zs" "pendingPeerKey um x = Some key"
      by (rule update_index) blast
    then show ?thesis using assms Some f
      by (auto simp: edit_recordPendingPeer_def cfg_ok_def pendingPeerKey_def)
  qed
qed (use assms(3) in simp)

lemma approve_ok:
  assumes "edit_ApprovePendingPeer um query cfg = Inr cfg'" "cfg_ok um cfg"
  shows "cfg_ok um cfg'"
proof -
  let ?hit = "\<lambda>q. case pendingPeerKey um q of None \<Rightarrow> False | Some k \<Rightarrow> k = query \<or> has_prefix k query"
  obtain i q where f: "filter (\<lambda>x. ?hit (snd x)) (enumerate 0 (co_PendingPeers cfg)) = [(i, q)]"
      and np: "findPeerIndex um cfg (the (pendingPeerKey um q)) = None"
      and c: "cfg' = cfg\<lparr>co_PendingPeers := del_at i (co_PendingPeers cfg),
                 co_Peers := co_Peers cfg @ [\<lparr>pe_Name = pp_Name q, pe_Token = pp_Token q, pe_Enabled = True\<rparr>]\<rparr>"
    using assms(1) by (auto simp: edit_ApprovePendingPeer_def Let_def split: list.splits prod.splits if_splits)
  have "(i, q) \<in> set (filter (\<lambda>x. ?hit (snd x)) (enumerate 0 (co_PendingPeers cfg)))" unfolding f by simp
  then have "(i, q) \<in> set (enumerate 0 (co_PendingPeers cfg))" "?hit q" by simp_all
  then obtain k where k: "pendingPeerKey um q = Some k" and i: "i < length (co_PendingPeers cfg)" "co_PendingPeers cfg ! i = q"
    by (auto simp: in_set_enumerate_eq split: option.splits)
  obtain ys zs where "co_PendingPeers cfg = ys @ q # zs" "del_at i (co_PendingPeers cfg) = ys @ zs"
    using del_at_split [OF i(1)] i(2) by auto
  moreover have "k \<notin> set (List.map_filter (peerKeyOf um) (co_Peers cfg))"
    using np k by (auto simp: findPeerIndex_def index_where_None mem_map_filter)
  moreover have "peerKeyOf um \<lparr>pe_Name = pp_Name q, pe_Token = pp_Token q, pe_Enabled = True\<rparr> = Some k"
    using k by (simp add: peerKeyOf_def pendingPeerKey_def)
  ultimately show ?thesis using assms(2) k by (auto simp: c cfg_ok_def)
qed

lemma share_edits_ok:
  "i \<notin> sh_ID ` set (co_Shares cfg) \<Longrightarrow> edit_AddShare i path name permission approval cfg = Inr cfg' \<Longrightarrow> cfg_ok um cfg \<Longrightarrow> cfg_ok um cfg'"
  "edit_RemoveShare shareID cfg = Inr cfg' \<Longrightarrow> cfg_ok um cfg \<Longrightarrow> cfg_ok um cfg'"
  "edit_updateShare shareID ch m cfg = Inr cfg' \<Longrightarrow> cfg_ok um cfg \<Longrightarrow> cfg_ok um cfg'"
  "edit_recordAccess shareID key access cfg = Inr cfg' \<Longrightarrow> cfg_ok um cfg \<Longrightarrow> cfg_ok um cfg'"
proof -
  show "i \<notin> sh_ID ` set (co_Shares cfg) \<Longrightarrow> edit_AddShare i path name permission approval cfg = Inr cfg' \<Longrightarrow> cfg_ok um cfg \<Longrightarrow> cfg_ok um cfg'"
    by (auto simp: edit_AddShare_def cfg_ok_def split: option.splits)
  show "edit_RemoveShare shareID cfg = Inr cfg' \<Longrightarrow> cfg_ok um cfg \<Longrightarrow> cfg_ok um cfg'"
    unfolding edit_RemoveShare_def findShareIndex_def
    by (clarsimp split: option.splits; erule del_at_index) (auto simp: cfg_ok_def)
  show "edit_updateShare shareID ch m cfg = Inr cfg' \<Longrightarrow> cfg_ok um cfg \<Longrightarrow> cfg_ok um cfg'"
    unfolding edit_updateShare_def findShareIndex_def
    by (clarsimp split: option.splits; erule update_index) (auto simp: cfg_ok_def change_share_def)
  show "edit_recordAccess shareID key access cfg = Inr cfg' \<Longrightarrow> cfg_ok um cfg \<Longrightarrow> cfg_ok um cfg'"
    unfolding edit_recordAccess_def findShareIndex_def Let_def
    by (clarsimp split: option.splits if_splits; erule update_index) (auto simp: cfg_ok_def)
qed

lemma subscription_edits_ok:
  "edit_AddSubscription mk taken key shareID path mode cfg = Inr cfg' \<Longrightarrow> cfg_ok um cfg \<Longrightarrow> cfg_ok um cfg'"
  "edit_RemoveSubscription key shareID cfg = Inr cfg' \<Longrightarrow> cfg_ok um cfg \<Longrightarrow> cfg_ok um cfg'"
  "edit_PauseSubscription key shareID paused cfg = Inr cfg' \<Longrightarrow> cfg_ok um cfg \<Longrightarrow> cfg_ok um cfg'"
proof -
  show "edit_AddSubscription mk taken key shareID path mode cfg = Inr cfg' \<Longrightarrow> cfg_ok um cfg \<Longrightarrow> cfg_ok um cfg'"
    by (auto simp: edit_AddSubscription_def findSubscriptionIndex_def index_where_None cfg_ok_def
        split: option.splits if_splits)
  show "edit_RemoveSubscription key shareID cfg = Inr cfg' \<Longrightarrow> cfg_ok um cfg \<Longrightarrow> cfg_ok um cfg'"
    unfolding edit_RemoveSubscription_def findSubscriptionIndex_def
    by (clarsimp split: option.splits; erule del_at_index) (auto simp: cfg_ok_def)
  show "edit_PauseSubscription key shareID paused cfg = Inr cfg' \<Longrightarrow> cfg_ok um cfg \<Longrightarrow> cfg_ok um cfg'"
    unfolding edit_PauseSubscription_def findSubscriptionIndex_def
    by (clarsimp split: option.splits; erule update_index) (auto simp: cfg_ok_def)
qed

lemma safety_ok: "edit_SetSafety shareID sf cfg = Inr cfg' \<Longrightarrow> cfg_ok um cfg \<Longrightarrow> cfg_ok um cfg'"
proof -
  have subs: "map (\<lambda>s. (su_Peer s, su_ShareID s)) (map (\<lambda>s. if su_ShareID s = shareID then s\<lparr>su_Safety := sf\<rparr> else s) xs) =
      map (\<lambda>s. (su_Peer s, su_ShareID s)) xs" for xs by (induction xs) auto
  have shares: "map sh_ID (xs[i := (xs ! i)\<lparr>sh_Safety := sf\<rparr>]) = map sh_ID xs" for xs i
    by (simp add: map_update) (metis list_update_id map_update list_update_beyond not_less)
  show "edit_SetSafety shareID sf cfg = Inr cfg' \<Longrightarrow> cfg_ok um cfg \<Longrightarrow> cfg_ok um cfg'"
    by (auto simp: edit_SetSafety_def cfg_ok_def subs shares simp del: map_map split: if_splits option.splits)
qed

lemma deny_ok: "edit_removePendingPeer um key cfg = Inr cfg' \<Longrightarrow> cfg_ok um cfg \<Longrightarrow> cfg_ok um cfg'"
  unfolding edit_removePendingPeer_def
  by (clarsimp split: option.splits; erule del_at_index) (auto simp: cfg_ok_def)

lemma edit_step_ok: "edit_step um cfg cfg' \<Longrightarrow> cfg_ok um cfg \<Longrightarrow> cfg_ok um cfg'"
proof (induction rule: edit_step.induct)
  case (rename_node name cfg cfg')
  then show ?case by (auto simp: edit_RenameNode_def cfg_ok_def)
qed (simp_all add: add_peer_ok remove_peer_ok share_edits_ok subscription_edits_ok safety_ok pending_ok approve_ok deny_ok)

interpretation edited: kept_by_steps "edit_step um" "cfg_ok um" for um
  by unfold_locales (rule edit_step_ok)

end
