(* ===== verification/NodeEffects.thy ===== *)
theory NodeEffects
  imports Mutations
begin

text \<open>
  How a configuration change reaches the running node, and how peers get access to shares:
  \<open>mutateConfig\<close> and the entry points of \<^verbatim>\<open>internal/core/mutations.go\<close> and \<^verbatim>\<open>approvals.go\<close>,
  \<open>diffConfig\<close> and \<open>applyConfigChange\<close> of \<^verbatim>\<open>effects.go\<close>, the ShareList, SubscribeRequest and
  AccessUpdate exchange of \<^verbatim>\<open>access.go\<close>, and the share set of a connection in \<^verbatim>\<open>peer.go\<close>.

  The node keeps its configuration, the document on disk, the registered peers, the peers
  with a live session, the shares active on each session (with root and direction), the
  watched folders, what peers offer, the hold guard and the frames sent. A scan or an index
  synchronisation that an effect starts is recorded, not run. Cancelling a peer ends its
  session at once. The subscribe requests whose second, asynchronous half is still to run
  are in \<open>nd_jobs\<close>; \<open>nd_unsaved\<close> remembers grants that could not be written to disk.

  The results: what is active on a session is always covered by a recorded grant or a
  running subscription, with the root and direction the configuration says, provided no
  share id is both offered and subscribed to; the configuration stays valid, well formed
  and equal to what is on disk; removing a peer leaves nothing behind. Two more show what
  the code does otherwise than documented.
\<close>

section \<open>State\<close>

record node_env =
  ne_um :: uncbor
  ne_lower :: "string \<Rightarrow> string"
  ne_saves :: bool
  ne_watchOK :: "string \<Rightarrow> bool"
  ne_holdWrites :: "Link \<Rightarrow> bool"
  ne_forgets :: bool
  ne_dialable :: "string \<Rightarrow> bool"
  ne_mkdirOK :: bool
  ne_reservedTaken :: bool
  ne_now :: int

text \<open>A request answered later: peer, share, decision, and whether the session that asked is still the current one.\<close>

type_synonym subscribe_job = "string \<times> string \<times> string \<times> bool"

record node =
  nd_cfg :: Config
  nd_disk :: configDoc
  nd_self :: string
  nd_peers :: "(string, string) fmap"
  nd_live :: "string list"
  nd_active :: "(string \<times> string, string \<times> Direction) fmap"
  nd_subAccess :: "(string \<times> string, string) fmap"
  nd_offered :: "(string, ShareListEntry list) fmap"
  nd_watch :: "(string, string) fmap"
  nd_guard :: Guard
  nd_jobs :: "subscribe_job list"
  nd_unsaved :: "(string \<times> string) list"
  nd_out :: "(string \<times> message) list"
  nd_syncs :: "(string \<times> string) list"
  nd_rescans :: "string list"
  nd_tokenName :: string

section \<open>The share set of a connection\<close>

definition grantShare :: "string \<Rightarrow> string \<Rightarrow> string \<Rightarrow> Direction \<Rightarrow> node \<Rightarrow> node" where
  "grantShare key shareID root dir n =
     (if key \<in> set (nd_live n) then n\<lparr>nd_active := fmupd (key, shareID) (root, dir) (nd_active n)\<rparr> else n)"

definition reconfigureShare :: "string \<Rightarrow> string \<Rightarrow> string \<Rightarrow> Direction \<Rightarrow> node \<Rightarrow> node" where
  "reconfigureShare key shareID root dir n =
     (if key \<in> set (nd_live n) \<and> fmlookup (nd_active n) (key, shareID) \<noteq> None
      then n\<lparr>nd_active := fmupd (key, shareID) (root, dir) (nd_active n)\<rparr> else n)"

definition neuterShare :: "string \<Rightarrow> string \<Rightarrow> node \<Rightarrow> node" where
  "neuterShare key shareID n = n\<lparr>nd_active := fmdrop (key, shareID) (nd_active n)\<rparr>"

definition neuterShareOnSessions :: "string \<Rightarrow> node \<Rightarrow> node" where
  "neuterShareOnSessions shareID n = n\<lparr>nd_active := fmfilter (\<lambda>ks. snd ks \<noteq> shareID) (nd_active n)\<rparr>"

definition end_session :: "string \<Rightarrow> node \<Rightarrow> node" where
  "end_session key n =
     n\<lparr>nd_live := filter (\<lambda>k. k \<noteq> key) (nd_live n), nd_active := fmfilter (\<lambda>ks. fst ks \<noteq> key) (nd_active n),
       nd_jobs := map (\<lambda>(k, i, a, cur). (k, i, a, cur \<and> k \<noteq> key)) (nd_jobs n)\<rparr>"

definition offeredDirection :: "Share \<Rightarrow> Direction" where
  "offeredDirection s = DirectionFor (sh_Permission s) []"

definition offeredPermission :: "string \<Rightarrow> string \<Rightarrow> node \<Rightarrow> string" where
  "offeredPermission key shareID n =
     (case find (\<lambda>e. sl_ShareID e = shareID) (case fmlookup (nd_offered n) key of None \<Rightarrow> [] | Some es \<Rightarrow> es) of
        None \<Rightarrow> [] | Some e \<Rightarrow> sl_Permission e)"

definition subscriberDirection :: "string \<Rightarrow> string \<Rightarrow> Direction" where
  "subscriberDirection permission mode =
     (let dir = DirectionFor [] mode in
      if permission = PermissionReadOnly then dir\<lparr>OutboundBlocked := True\<rparr> else dir)"

section \<open>Announcements\<close>

definition send_to :: "string \<Rightarrow> message \<Rightarrow> node \<Rightarrow> node" where
  "send_to key m n = (if key \<in> set (nd_live n) then n\<lparr>nd_out := nd_out n @ [(key, m)]\<rparr> else n)"

definition access_of :: "Share \<Rightarrow> string \<Rightarrow> string" where
  "access_of s key = (case fmlookup (sh_Access s) key of None \<Rightarrow> [] | Some a \<Rightarrow> a)"

definition buildShareList :: "Config \<Rightarrow> string \<Rightarrow> ShareListEntry list" where
  "buildShareList cfg key =
     map (\<lambda>s. \<lparr>sl_ShareID = sh_ID s, sl_Name = sh_Name s, sl_Permission = sh_Permission s,
              sl_ApprovalRequired = sh_ApprovalRequired s,
              sl_Access = (if access_of s key = [] then AccessNone else access_of s key)\<rparr>) (co_Shares cfg)"

definition sendShareList :: "string \<Rightarrow> node \<Rightarrow> node" where
  "sendShareList key n = send_to key (MShareList (buildShareList (nd_cfg n) key)) n"

definition broadcastShareList :: "node \<Rightarrow> node" where
  "broadcastShareList n = fold sendShareList (sorted_list_of_fset (fmdom (nd_peers n))) n"

definition sendAccessUpdate :: "string \<Rightarrow> string \<Rightarrow> string \<Rightarrow> node \<Rightarrow> node" where
  "sendAccessUpdate key shareID access n = send_to key (MAccessUpdate shareID access) n"

definition sendSubscribeRequest :: "string \<Rightarrow> string \<Rightarrow> node \<Rightarrow> node" where
  "sendSubscribeRequest key shareID n = send_to key (MSubscribeRequest shareID) n"

definition requestSubscriptions :: "string \<Rightarrow> node \<Rightarrow> node" where
  "requestSubscriptions key n =
     fold (\<lambda>s. sendSubscribeRequest key (su_ShareID s))
       (filter (\<lambda>s. su_Peer s = key \<and> \<not> su_Paused s) (co_Subscriptions (nd_cfg n))) n"

definition startSyncing :: "string \<Rightarrow> string \<Rightarrow> node \<Rightarrow> node" where
  "startSyncing key shareID n = n\<lparr>nd_syncs := nd_syncs n @ [(key, shareID)]\<rparr>"

section \<open>What changed\<close>

record configChange =
  cc_peersAdded :: "Peer list"
  cc_peersRemoved :: "string list"
  cc_sharesAdded :: "Share list"
  cc_sharesRemoved :: "string list"
  cc_sharesRedirected :: "Share list"
  cc_access :: "(Share \<times> string \<times> string) list"
  cc_subsStarted :: "Subscription list"
  cc_subsStopped :: "Subscription list"
  cc_subsRemoved :: "Subscription list"
  cc_announce :: bool
  cc_nodeRenamed :: bool

definition peerKeys :: "uncbor \<Rightarrow> Config \<Rightarrow> string list" where
  "peerKeys um cfg = List.map_filter (peerKeyOf um) (co_Peers cfg)"

text \<open>The share with an id, in the map the code builds: the last one listed.\<close>

definition share_by_id :: "Config \<Rightarrow> string \<Rightarrow> Share option" where
  "share_by_id cfg i = find (\<lambda>s. sh_ID s = i) (rev (co_Shares cfg))"

definition running :: "Config \<Rightarrow> string \<Rightarrow> string \<Rightarrow> bool" where
  "running cfg key shareID =
     list_ex (\<lambda>s. \<not> su_Paused s \<and> su_Peer s = key \<and> su_ShareID s = shareID) (co_Subscriptions cfg)"

definition access_changes :: "Config \<Rightarrow> Share \<Rightarrow> (Share \<times> string \<times> string) list" where
  "access_changes old s =
     (case share_by_id old (sh_ID s) of
        None \<Rightarrow> []
      | Some was \<Rightarrow> map (\<lambda>key. (s, key, access_of s key))
          (filter (\<lambda>key. access_of s key \<noteq> access_of was key) (sorted_list_of_fset (fmdom (sh_Access s)))))"

definition announces :: "Config \<Rightarrow> Share \<Rightarrow> bool" where
  "announces old s =
     (case share_by_id old (sh_ID s) of
        None \<Rightarrow> True
      | Some was \<Rightarrow> sh_Name s \<noteq> sh_Name was \<or> sh_Permission s \<noteq> sh_Permission was \<or>
                    sh_ApprovalRequired s \<noteq> sh_ApprovalRequired was)"

definition diffConfig :: "uncbor \<Rightarrow> Config \<Rightarrow> Config \<Rightarrow> configChange" where
  "diffConfig um old new =
     (let removed = filter (\<lambda>i. share_by_id new i = None) (map sh_ID (co_Shares old)) in
      \<lparr>cc_peersAdded = filter (\<lambda>p. case peerKeyOf um p of None \<Rightarrow> False | Some k \<Rightarrow> k \<notin> set (peerKeys um old)) (co_Peers new),
       cc_peersRemoved = filter (\<lambda>k. k \<notin> set (peerKeys um new)) (peerKeys um old),
       cc_sharesAdded = filter (\<lambda>s. share_by_id old (sh_ID s) = None) (co_Shares new),
       cc_sharesRemoved = removed,
       cc_sharesRedirected = filter (\<lambda>s. case share_by_id old (sh_ID s) of
           None \<Rightarrow> False | Some was \<Rightarrow> sh_Permission s \<noteq> sh_Permission was) (co_Shares new),
       cc_access = concat (map (access_changes old) (co_Shares new)),
       cc_subsStarted = filter (\<lambda>s. running new (su_Peer s) (su_ShareID s) \<and> \<not> running old (su_Peer s) (su_ShareID s))
         (co_Subscriptions new),
       cc_subsStopped = filter (\<lambda>s. running old (su_Peer s) (su_ShareID s) \<and> \<not> running new (su_Peer s) (su_ShareID s))
         (co_Subscriptions old),
       cc_subsRemoved = filter (\<lambda>s. findSubscriptionIndex new (su_Peer s) (su_ShareID s) = None) (co_Subscriptions old),
       cc_announce = (list_ex (announces old) (co_Shares new) \<or> removed \<noteq> []),
       cc_nodeRenamed = (co_NodeName new \<noteq> co_NodeName old)\<rparr>)"

section \<open>Making the running node match\<close>

definition removePeerConn :: "string \<Rightarrow> node \<Rightarrow> node" where
  "removePeerConn key n = end_session key (n\<lparr>nd_peers := fmdrop key (nd_peers n), nd_offered := fmdrop key (nd_offered n),
     nd_subAccess := fmfilter (\<lambda>ks. fst ks \<noteq> key) (nd_subAccess n)\<rparr>)"

definition stopShareWatch :: "string \<Rightarrow> node \<Rightarrow> node" where
  "stopShareWatch shareID n = n\<lparr>nd_watch := fmdrop shareID (nd_watch n)\<rparr>"

definition startShareWatch :: "node_env \<Rightarrow> string \<Rightarrow> string \<Rightarrow> node \<Rightarrow> bool \<times> node" where
  "startShareWatch env shareID root n =
     (if ne_watchOK env root then (True, n\<lparr>nd_watch := fmupd shareID root (nd_watch n)\<rparr>) else (False, n))"

definition activatePeer :: "node_env \<Rightarrow> Peer \<Rightarrow> node \<Rightarrow> node" where
  "activatePeer env p n =
     (case peerKeyOf (ne_um env) p of
        None \<Rightarrow> n | Some key \<Rightarrow> n\<lparr>nd_peers := fmupd key (pe_Name p) (nd_peers n)\<rparr>)"

definition forgetRemoved :: "node_env \<Rightarrow> Config \<Rightarrow> Subscription \<Rightarrow> node \<Rightarrow> node" where
  "forgetRemoved env new s n =
     (if \<not> ne_forgets env then n
      else let keepFiles = findShareIndex new (su_ShareID s) \<noteq> None \<or> subscribesToShare new (su_ShareID s);
               g = nd_guard n
           in n\<lparr>nd_guard := g\<lparr>g_store := ForgetSubscription (su_Peer s) (su_ShareID s) (\<not> keepFiles) (g_store g)\<rparr>\<rparr>)"

definition applyAccess :: "bool \<Rightarrow> Share \<times> string \<times> string \<Rightarrow> node \<Rightarrow> node" where
  "applyAccess sendList a n = (case a of (share, key, access) \<Rightarrow>
     if fmlookup (nd_peers n) key = None \<or> key \<notin> set (nd_live n) then n
     else
       let n1 = (if access = AccessGranted then grantShare key (sh_ID share) (sh_Path share) (offeredDirection share) n
                 else neuterShare key (sh_ID share) n);
           n2 = sendAccessUpdate key (sh_ID share) access n1;
           n3 = (if sendList then sendShareList key n2 else n2)
       in if access = AccessGranted then startSyncing key (sh_ID share) n3 else n3)"

definition start_share :: "node_env \<Rightarrow> Share \<Rightarrow> node \<Rightarrow> node" where
  "start_share env s n = (case startShareWatch env (sh_ID s) (sh_Path s) n of
     (True, n1) \<Rightarrow> n1\<lparr>nd_rescans := nd_rescans n1 @ [sh_ID s]\<rparr> | (False, n1) \<Rightarrow> n1)"

definition start_sub :: "node_env \<Rightarrow> Subscription \<Rightarrow> node \<Rightarrow> node" where
  "start_sub env s n =
     (let n1 = snd (startShareWatch env (su_ShareID s) (su_LocalPath s) n)
      in if fmlookup (nd_peers n1) (su_Peer s) = None then n1 else sendSubscribeRequest (su_Peer s) (su_ShareID s) n1)"

definition stop_sub :: "Subscription \<Rightarrow> node \<Rightarrow> node" where
  "stop_sub s n = neuterShare (su_Peer s) (su_ShareID s) (stopShareWatch (su_ShareID s) n)"

definition redirect_share :: "Share \<Rightarrow> node \<Rightarrow> node" where
  "redirect_share s n =
     fold (\<lambda>key. reconfigureShare key (sh_ID s) (sh_Path s) (offeredDirection s)) (sorted_list_of_fset (fmdom (nd_peers n))) n"

definition applyConfigChange :: "node_env \<Rightarrow> Config \<Rightarrow> Config \<Rightarrow> node \<Rightarrow> node" where
  "applyConfigChange env old new n =
     (let c = diffConfig (ne_um env) old new;
          n1 = fold removePeerConn (cc_peersRemoved c) n;
          n2 = fold stop_sub (cc_subsStopped c) n1;
          n3 = fold (\<lambda>i n. neuterShareOnSessions i (stopShareWatch i n)) (cc_sharesRemoved c) n2;
          n4 = fold (forgetRemoved env new) (cc_subsRemoved c) n3;
          n5 = n4\<lparr>nd_guard := Retain (ne_holdWrites env) (configuredLinks (ne_um env) new) (nd_guard n4)\<rparr>;
          n6 = fold (start_share env) (cc_sharesAdded c) n5;
          n7 = fold redirect_share (cc_sharesRedirected c) n6;
          n8 = fold (activatePeer env) (cc_peersAdded c) n7;
          n9 = fold (start_sub env) (cc_subsStarted c) n8;
          n10 = fold (applyAccess (\<not> cc_announce c)) (cc_access c) n9;
          n11 = (if cc_announce c then broadcastShareList n10 else n10)
      in if cc_nodeRenamed c then n11\<lparr>nd_tokenName := co_NodeName new\<rparr> else n11)"

text \<open>\<open>mutateConfig\<close>: the edit of a copy, \<open>config.Save\<close>, which validates, and only then the swap
  and its effects.\<close>

definition mutateConfig :: "node_env \<Rightarrow> edit \<Rightarrow> node \<Rightarrow> mut_err err \<times> node" where
  "mutateConfig env f n =
     (case f (nd_cfg n) of
        Inl e \<Rightarrow> (Some e, n)
      | Inr new \<Rightarrow>
         (case Save_doc new of
            Inl errs \<Rightarrow> (Some OtherError, n)
          | Inr doc \<Rightarrow>
              if \<not> ne_saves env then (Some OtherError, n)
              else (ok, applyConfigChange env (nd_cfg n) new (n\<lparr>nd_cfg := new, nd_disk := doc\<rparr>))))"

section \<open>Resolving references\<close>

definition resolvePeerRef :: "node_env \<Rightarrow> node \<Rightarrow> string \<Rightarrow> mut_err + string" where
  "resolvePeerRef env n ref =
     matchRef (ne_lower env) ref
       (map (\<lambda>k. (k, the (fmlookup (nd_peers n) k))) (sorted_list_of_fset (fmdom (nd_peers n))))"

definition peer_ref_or_key :: "node_env \<Rightarrow> node \<Rightarrow> string \<Rightarrow> string" where
  "peer_ref_or_key env n ref = (case resolvePeerRef env n ref of Inl e \<Rightarrow> ref | Inr k \<Rightarrow> k)"

definition offeredShares :: "node \<Rightarrow> string \<Rightarrow> ShareListEntry list" where
  "offeredShares n key = (case fmlookup (nd_offered n) key of None \<Rightarrow> [] | Some es \<Rightarrow> es)"

definition resolveOfferedShareRef :: "node_env \<Rightarrow> node \<Rightarrow> string \<Rightarrow> string \<Rightarrow> mut_err + string" where
  "resolveOfferedShareRef env n key ref =
     (if offeredShares n key = [] then Inr ref
      else matchRef (ne_lower env) ref (map (\<lambda>e. (sl_ShareID e, sl_Name e)) (offeredShares n key)))"

definition offered_name :: "node \<Rightarrow> string \<Rightarrow> string \<Rightarrow> string" where
  "offered_name n key shareID =
     (case find (\<lambda>e. sl_ShareID e = shareID) (rev (offeredShares n key)) of None \<Rightarrow> [] | Some e \<Rightarrow> sl_Name e)"

definition resolveSubscriptionRef :: "node_env \<Rightarrow> node \<Rightarrow> string \<Rightarrow> string \<Rightarrow> string \<times> string" where
  "resolveSubscriptionRef env n peerRef shareRef =
     (case resolvePeerRef env n peerRef of
        Inl e \<Rightarrow> (peerRef, shareRef)
      | Inr key \<Rightarrow>
         (case matchRef (ne_lower env) shareRef
                 (map (\<lambda>s. (su_ShareID s, offered_name n key (su_ShareID s)))
                   (filter (\<lambda>s. su_Peer s = key) (co_Subscriptions (nd_cfg n)))) of
            Inl e \<Rightarrow> (key, shareRef) | Inr i \<Rightarrow> (key, i)))"

definition resolveLocalShareRef :: "node_env \<Rightarrow> node \<Rightarrow> string \<Rightarrow> mut_err + string" where
  "resolveLocalShareRef env n ref =
     matchRef (ne_lower env) ref (map (\<lambda>s. (sh_ID s, sh_Name s)) (co_Shares (nd_cfg n)))"

definition resolveShareOrSubscriptionRef :: "node_env \<Rightarrow> node \<Rightarrow> string \<Rightarrow> mut_err + string" where
  "resolveShareOrSubscriptionRef env n ref =
     matchRef (ne_lower env) ref
       (map (\<lambda>s. (sh_ID s, sh_Name s)) (co_Shares (nd_cfg n)) @
        map (\<lambda>s. (su_ShareID s,
               if fmlookup (nd_peers n) (su_Peer s) = None then []
               else case find (\<lambda>e. sl_ShareID e = su_ShareID s) (offeredShares n (su_Peer s)) of
                      None \<Rightarrow> [] | Some e \<Rightarrow> sl_Name e)) (co_Subscriptions (nd_cfg n)))"

section \<open>Mutations\<close>

definition AddPeer :: "node_env \<Rightarrow> string \<Rightarrow> string \<Rightarrow> node \<Rightarrow> mut_err err \<times> node" where
  "AddPeer env name token n =
     (case ParseToken (ne_um env) token of
        Inl e \<Rightarrow> (Some OtherError, n)
      | Inr tok \<Rightarrow>
          let key = hex_encode (nt_ID tok) in
          if \<not> ne_dialable env (nt_TailcatAddr tok) \<or> key = nd_self n then (Some OtherError, n)
          else mutateConfig env (edit_AddPeer (ne_um env) key
                 \<lparr>pe_Name = (if name = [] then nt_Name tok else name), pe_Token = token, pe_Enabled = True\<rparr>) n)"

definition RemovePeer :: "node_env \<Rightarrow> string \<Rightarrow> node \<Rightarrow> mut_err err \<times> node" where
  "RemovePeer env peerRef n = mutateConfig env (edit_RemovePeer (ne_um env) (peer_ref_or_key env n peerRef)) n"

definition AddShare :: "node_env \<Rightarrow> string \<Rightarrow> string \<Rightarrow> string \<Rightarrow> string \<Rightarrow> bool \<Rightarrow> node \<Rightarrow> mut_err err \<times> node" where
  "AddShare env newID path name permission approvalRequired n =
     (if permission \<noteq> PermissionReadOnly \<and> permission \<noteq> PermissionReadWrite then (Some OtherError, n)
      else if ne_reservedTaken env then (Some (MutationError MutationConflict), n)
      else mutateConfig env (edit_AddShare newID path name permission approvalRequired) n)"

definition RemoveShare :: "node_env \<Rightarrow> string \<Rightarrow> node \<Rightarrow> mut_err err \<times> node" where
  "RemoveShare env shareRef n =
     (case resolveLocalShareRef env n shareRef of
        Inl e \<Rightarrow> (Some e, n) | Inr shareID \<Rightarrow> mutateConfig env (edit_RemoveShare shareID) n)"

text \<open>Peer references are resolved one by one; when two name the same peer, one of them wins,
  here the last.\<close>

definition resolved_access :: "node_env \<Rightarrow> node \<Rightarrow> (string, string) fmap \<Rightarrow> (string, string) fmap" where
  "resolved_access env n access =
     fold (\<lambda>ref. fmupd (peer_ref_or_key env n ref) (the (fmlookup access ref))) (sorted_list_of_fset (fmdom access)) fmempty"

definition updateShare :: "node_env \<Rightarrow> string \<Rightarrow> ShareChange \<Rightarrow> node \<Rightarrow> mut_err err \<times> node" where
  "updateShare env shareRef ch n =
     (if (case sx_Permission ch of None \<Rightarrow> False | Some p \<Rightarrow> p \<noteq> PermissionReadOnly \<and> p \<noteq> PermissionReadWrite)
      then (Some (MutationError MutationInvalid), n)
      else if \<not> fBall (fmran (sx_Access ch)) (\<lambda>a. a \<in> {AccessPending, AccessGranted, AccessDenied, AccessRevoked})
      then (Some (MutationError MutationInvalid), n)
      else case resolveLocalShareRef env n shareRef of
             Inl e \<Rightarrow> (Some e, n)
           | Inr shareID \<Rightarrow> mutateConfig env (edit_updateShare shareID ch (resolved_access env n (sx_Access ch))) n)"

definition no_change :: ShareChange where
  "no_change = \<lparr>sx_Name = None, sx_Permission = None, sx_ApprovalRequired = None, sx_Access = fmempty\<rparr>"

definition SetSharePermission :: "node_env \<Rightarrow> string \<Rightarrow> string \<Rightarrow> node \<Rightarrow> mut_err err \<times> node" where
  "SetSharePermission env shareRef permission n = updateShare env shareRef (no_change\<lparr>sx_Permission := Some permission\<rparr>) n"

definition SetShareAccess :: "node_env \<Rightarrow> string \<Rightarrow> string \<Rightarrow> string \<Rightarrow> node \<Rightarrow> mut_err err \<times> node" where
  "SetShareAccess env shareRef peerRef access n =
     updateShare env shareRef (no_change\<lparr>sx_Access := fmupd peerRef access fmempty\<rparr>) n"

definition AddSubscription :: "node_env \<Rightarrow> string \<Rightarrow> string \<Rightarrow> string \<Rightarrow> string \<Rightarrow> node \<Rightarrow> mut_err err \<times> node" where
  "AddSubscription env peerRef shareRef localPath mode n =
     (if mode \<noteq> ModeMirror \<and> mode \<noteq> ModeReceiveOnly then (Some OtherError, n)
      else case resolvePeerRef env n peerRef of
        Inl e \<Rightarrow> (Some (MutationError MutationInvalid), n)
      | Inr key \<Rightarrow>
         (case resolveOfferedShareRef env n key shareRef of
            Inl e \<Rightarrow> (Some (MutationError MutationInvalid), n)
          | Inr shareID \<Rightarrow>
              mutateConfig env (edit_AddSubscription (ne_mkdirOK env) (ne_reservedTaken env) key shareID localPath mode) n))"

definition RemoveSubscription :: "node_env \<Rightarrow> string \<Rightarrow> string \<Rightarrow> node \<Rightarrow> mut_err err \<times> node" where
  "RemoveSubscription env peerRef shareRef n =
     (case resolveSubscriptionRef env n peerRef shareRef of
        (key, shareID) \<Rightarrow> mutateConfig env (edit_RemoveSubscription key shareID) n)"

definition PauseSubscription :: "node_env \<Rightarrow> string \<Rightarrow> string \<Rightarrow> bool \<Rightarrow> node \<Rightarrow> mut_err err \<times> node" where
  "PauseSubscription env peerRef shareRef paused n =
     (case resolveSubscriptionRef env n peerRef shareRef of
        (key, shareID) \<Rightarrow> mutateConfig env (edit_PauseSubscription key shareID paused) n)"

definition SetSafety :: "node_env \<Rightarrow> string \<Rightarrow> Safety \<Rightarrow> node \<Rightarrow> mut_err err \<times> node" where
  "SetSafety env shareRef sf n =
     (case resolveShareOrSubscriptionRef env n shareRef of
        Inl e \<Rightarrow> (Some e, n)
      | Inr shareID \<Rightarrow>
          if Safety_Validate sf \<noteq> [] then (Some (MutationError MutationInvalid), n)
          else mutateConfig env (edit_SetSafety shareID sf) n)"

definition RenameNode :: "node_env \<Rightarrow> string \<Rightarrow> node \<Rightarrow> mut_err err \<times> node" where
  "RenameNode env name n = mutateConfig env (edit_RenameNode name) n"

section \<open>Approvals\<close>

text \<open>A hello of an unknown peer, whose token carries the key it proved.\<close>

definition recordPendingPeer :: "node_env \<Rightarrow> Hello \<Rightarrow> node \<Rightarrow> node" where
  "recordPendingPeer env h n =
     (case ParseToken (ne_um env) (he_Token h) of
        Inl e \<Rightarrow> n
      | Inr tok \<Rightarrow>
          let key = hex_encode (nt_ID tok) in
          if nt_ID tok \<noteq> he_Ed25519Pub h \<or> fmlookup (nd_peers n) key \<noteq> None then n
          else if list_ex (\<lambda>q. pendingPeerKey (ne_um env) q = Some key \<and>
                    ne_now env - pp_LastSeen q < pendingPeerWriteInterval) (co_PendingPeers (nd_cfg n)) then n
          else snd (mutateConfig env (edit_recordPendingPeer (ne_um env) key (he_NodeName h) (he_Token h) (ne_now env)) n))"

definition ApprovePendingPeer :: "node_env \<Rightarrow> string \<Rightarrow> node \<Rightarrow> mut_err err \<times> node" where
  "ApprovePendingPeer env ref n =
     (let query = ne_lower env (if has_prefix ref ''peer-'' then drop 5 ref else ref) in
      if query = [] then (Some (MutationError MutationInvalid), n)
      else mutateConfig env (edit_ApprovePendingPeer (ne_um env) query) n)"

definition removePendingPeer :: "node_env \<Rightarrow> string \<Rightarrow> node \<Rightarrow> mut_err err \<times> node" where
  "removePendingPeer env key n = mutateConfig env (edit_removePendingPeer (ne_um env) key) n"

definition DecideApproval :: "node_env \<Rightarrow> string \<Rightarrow> string \<Rightarrow> node \<Rightarrow> mut_err err \<times> node" where
  "DecideApproval env i decision n =
     (if decision \<noteq> ''grant'' \<and> decision \<noteq> ''deny'' then (Some (MutationError MutationInvalid), n)
      else case find (\<lambda>a. ap_ID a = i) (Approvals (ne_um env) (nd_cfg n)) of
        None \<Rightarrow> (Some (MutationError MutationNotFound), n)
      | Some a \<Rightarrow>
          if ap_Kind a = ApprovalShare
          then SetShareAccess env (ap_ShareID a) (ap_PeerKey a) (if decision = ''deny'' then AccessDenied else AccessGranted) n
          else if decision = ''deny'' then removePendingPeer env (ap_PeerKey a) n
          else ApprovePendingPeer env (ap_PeerKey a) n)"

section \<open>Negotiating access\<close>

definition request_access :: "Share \<Rightarrow> string \<Rightarrow> string" where
  "request_access s key =
     (if \<not> sh_ApprovalRequired s then AccessGranted
      else if access_of s key = [] \<or> access_of s key = AccessNone then AccessPending
      else access_of s key)"

text \<open>The synchronous half of a SubscribeRequest, on the session of \<open>key\<close>, and the job it leaves.\<close>

definition provisionShareForRequest :: "string \<Rightarrow> string \<Rightarrow> node \<Rightarrow> bool \<times> node" where
  "provisionShareForRequest key shareID n =
     (case findShareIndex (nd_cfg n) shareID of
        None \<Rightarrow> (False, n)
      | Some i \<Rightarrow>
          let s = co_Shares (nd_cfg n) ! i; access = request_access s key;
              n1 = (if access = AccessGranted then grantShare key shareID (sh_Path s) (offeredDirection s) n else n)
          in (True, n1\<lparr>nd_jobs := nd_jobs n1 @ [(key, shareID, access, True)]\<rparr>))"

definition recorded_access :: "Config \<Rightarrow> string \<Rightarrow> string \<Rightarrow> string" where
  "recorded_access cfg shareID key =
     (case findShareIndex cfg shareID of None \<Rightarrow> [] | Some i \<Rightarrow> access_of (co_Shares cfg ! i) key)"

definition finishSubscribeRequest :: "node_env \<Rightarrow> subscribe_job \<Rightarrow> node \<Rightarrow> node" where
  "finishSubscribeRequest env job n = (case job of (key, shareID, access, cur) \<Rightarrow>
     let changed = recorded_access (nd_cfg n) shareID key \<noteq> access;
         r = mutateConfig env (edit_recordAccess shareID key access) n
     in if fst r \<noteq> ok then n
        else if changed \<or> \<not> cur then snd r
        else let n1 = sendAccessUpdate key shareID access (snd r)
             in if access = AccessGranted then startSyncing key shareID n1 else n1)"

text \<open>The job is off the list once it has run; a grant that could not be saved is noted.\<close>

definition run_job :: "node_env \<Rightarrow> subscribe_job \<Rightarrow> node \<Rightarrow> node" where
  "run_job env job n =
     (let n1 = finishSubscribeRequest env job n;
          n2 = n1\<lparr>nd_jobs := remove1 job (nd_jobs n1)\<rparr>
      in case job of (key, shareID, access, cur) \<Rightarrow>
           if access = AccessGranted \<and> recorded_access (nd_cfg n2) shareID key \<noteq> AccessGranted
           then n2\<lparr>nd_unsaved := nd_unsaved n2 @ [(key, shareID)]\<rparr> else n2)"

definition provisionAccessUpdate :: "string \<Rightarrow> string \<Rightarrow> string \<Rightarrow> node \<Rightarrow> bool \<times> node" where
  "provisionAccessUpdate key shareID access n =
     (case find (\<lambda>s. su_Peer s = key \<and> su_ShareID s = shareID) (co_Subscriptions (nd_cfg n)) of
        None \<Rightarrow> (False, n)
      | Some sub \<Rightarrow>
          let n1 = n\<lparr>nd_subAccess := fmupd (key, shareID) access (nd_subAccess n)\<rparr> in
          if access = AccessGranted then
            (if su_Paused sub then (False, n1)
             else (True, grantShare key shareID (su_LocalPath sub)
                           (subscriberDirection (offeredPermission key shareID n1) (su_Mode sub)) n1))
          else if access = AccessDenied \<or> access = AccessRevoked then (False, neuterShare key shareID n1)
          else (False, n1))"

definition finishAccessUpdate :: "string \<Rightarrow> string \<Rightarrow> node \<Rightarrow> node" where
  "finishAccessUpdate key shareID n = startSyncing key shareID (n\<lparr>nd_rescans := nd_rescans n @ [shareID]\<rparr>)"

definition refresh_one :: "string \<Rightarrow> Subscription \<Rightarrow> node \<Rightarrow> node" where
  "refresh_one key s n =
     (case fmlookup (nd_active n) (key, su_ShareID s) of
        None \<Rightarrow> n
      | Some (root, old) \<Rightarrow>
          let dir = subscriberDirection (offeredPermission key (su_ShareID s) n) (su_Mode s) in
          if old = dir then n
          else let n1 = reconfigureShare key (su_ShareID s) (su_LocalPath s) dir n
               in if OutboundBlocked old \<and> \<not> OutboundBlocked dir then startSyncing key (su_ShareID s) n1 else n1)"

definition refreshSubscriptionDirections :: "string \<Rightarrow> node \<Rightarrow> node" where
  "refreshSubscriptionDirections key n =
     fold (refresh_one key) (filter (\<lambda>s. su_Peer s = key \<and> \<not> su_Paused s) (co_Subscriptions (nd_cfg n))) n"

datatype ControlResult = ControlHandled | ControlProtocolViolation | ControlRejected

definition handleControl :: "string \<Rightarrow> message \<Rightarrow> node \<Rightarrow> ControlResult \<times> node" where
  "handleControl key m n =
     (case m of
        MShareList shares \<Rightarrow>
          if ValidateMessage m \<noteq> ok then (ControlProtocolViolation, n)
          else (ControlHandled, refreshSubscriptionDirections key (n\<lparr>nd_offered := fmupd key shares (nd_offered n)\<rparr>))
      | MSubscribeRequest shareID \<Rightarrow>
          if ValidateMessage m \<noteq> ok then (ControlProtocolViolation, n)
          else (case provisionShareForRequest key shareID n of
                  (True, n1) \<Rightarrow> (ControlHandled, n1) | (False, n1) \<Rightarrow> (ControlRejected, n1))
      | MAccessUpdate shareID access \<Rightarrow>
          if ValidateMessage m \<noteq> ok then (ControlProtocolViolation, n)
          else (case provisionAccessUpdate key shareID access n of
                  (True, n1) \<Rightarrow> (ControlHandled, finishAccessUpdate key shareID n1) | (False, n1) \<Rightarrow> (ControlHandled, n1))
      | _ \<Rightarrow> (ControlProtocolViolation, n))"

text \<open>A connection is adopted (the end of \<open>offer\<close>): nothing is active on it yet.\<close>

definition adopt :: "string \<Rightarrow> node \<Rightarrow> node" where
  "adopt key n =
     (if fmlookup (nd_peers n) key = None \<or> key \<in> set (nd_live n) then n
      else requestSubscriptions key (sendShareList key (n\<lparr>nd_live := key # nd_live n\<rparr>)))"

section \<open>What an edit leaves alone\<close>

text \<open>No edit moves a share or a subscription to another folder, changes a subscription's mode,
  or takes back an access entry other than with its peer.\<close>

definition edit_keeps :: "uncbor \<Rightarrow> Config \<Rightarrow> Config \<Rightarrow> bool" where
  "edit_keeps um old new \<longleftrightarrow>
     (\<forall>s \<in> set (co_Shares old). \<forall>s' \<in> set (co_Shares new). sh_ID s' = sh_ID s \<longrightarrow>
        sh_Path s' = sh_Path s \<and>
        (\<forall>k. fmlookup (sh_Access s') k = None \<longrightarrow> fmlookup (sh_Access s) k = None \<or> k \<notin> set (peerKeys um new))) \<and>
     (\<forall>u \<in> set (co_Subscriptions old). \<forall>u' \<in> set (co_Subscriptions new).
        su_Peer u' = su_Peer u \<longrightarrow> su_ShareID u' = su_ShareID u \<longrightarrow>
        su_LocalPath u' = su_LocalPath u \<and> su_Mode u' = su_Mode u)"

definition share_kept :: "uncbor \<Rightarrow> Config \<Rightarrow> Share \<Rightarrow> Share \<Rightarrow> bool" where
  "share_kept um new s s' \<longleftrightarrow> sh_ID s' = sh_ID s \<and> sh_Path s' = sh_Path s \<and>
     (\<forall>k. fmlookup (sh_Access s') k = None \<longrightarrow> fmlookup (sh_Access s) k = None \<or> k \<notin> set (peerKeys um new))"

definition sub_kept :: "Subscription \<Rightarrow> Subscription \<Rightarrow> bool" where
  "sub_kept u u' \<longleftrightarrow> su_Peer u' = su_Peer u \<and> su_ShareID u' = su_ShareID u \<and>
     su_LocalPath u' = su_LocalPath u \<and> su_Mode u' = su_Mode u"

lemma keeps_refl [simp]: "share_kept um new s s" "sub_kept u u"
  by (simp_all add: share_kept_def sub_kept_def)

lemma edit_keepsI:
  assumes "cfg_ok um old"
    and "\<And>s'. s' \<in> set (co_Shares new) \<Longrightarrow> s' \<notin> set (co_Shares old) \<Longrightarrow>
      sh_ID s' \<notin> sh_ID ` set (co_Shares old) \<or> (\<exists>s \<in> set (co_Shares old). share_kept um new s s')"
    and "\<And>u'. u' \<in> set (co_Subscriptions new) \<Longrightarrow> u' \<notin> set (co_Subscriptions old) \<Longrightarrow>
      (su_Peer u', su_ShareID u') \<notin> (\<lambda>s. (su_Peer s, su_ShareID s)) ` set (co_Subscriptions old) \<or>
      (\<exists>u \<in> set (co_Subscriptions old). sub_kept u u')"
  shows "edit_keeps um old new"
proof -
  have i: "inj_on sh_ID (set (co_Shares old))" "inj_on (\<lambda>s. (su_Peer s, su_ShareID s)) (set (co_Subscriptions old))"
    using assms(1) by (simp_all add: cfg_ok_def distinct_map)
  have "share_kept um new s s'" if h: "s \<in> set (co_Shares old)" "s' \<in> set (co_Shares new)" "sh_ID s' = sh_ID s" for s s'
  proof -
    have "sh_ID s' \<in> sh_ID ` set (co_Shares old)" unfolding h(3) using h(1) by (rule imageI)
    then obtain t where "t \<in> set (co_Shares old)" "share_kept um new t s'"
      using assms(2) [OF h(2)] keeps_refl(1) [of um new s'] by blast
    moreover from this have "t = s" using h inj_onD [OF i(1), of t s] by (simp add: share_kept_def)
    ultimately show ?thesis by simp
  qed
  moreover have "sub_kept u u'" if h: "u \<in> set (co_Subscriptions old)" "u' \<in> set (co_Subscriptions new)"
      "su_Peer u' = su_Peer u" "su_ShareID u' = su_ShareID u" for u u'
  proof -
    have "(su_Peer u', su_ShareID u') \<in> (\<lambda>s. (su_Peer s, su_ShareID s)) ` set (co_Subscriptions old)"
      unfolding h(3,4) using h(1) by (rule imageI)
    then obtain t where "t \<in> set (co_Subscriptions old)" "sub_kept t u'"
      using assms(3) [OF h(2)] keeps_refl(2) [of u'] by blast
    moreover from this have "t = u" using h inj_onD [OF i(2), of t u] by (simp add: sub_kept_def)
    ultimately show ?thesis by simp
  qed
  ultimately show ?thesis by (simp add: edit_keeps_def share_kept_def sub_kept_def)
qed

lemma set_update_cases: "y \<in> set (xs[i := v]) \<Longrightarrow> y \<in> set xs \<or> y = v"
  using set_update_subset_insert by fastforce

lemma set_del_at: "set (del_at i xs) \<subseteq> set xs"
  by (auto simp: del_at_def dest: in_set_takeD in_set_dropD)

lemma removed_key:
  assumes "cfg_ok um cfg" "findPeerIndex um cfg key = Some i"
  shows "key \<notin> set (List.map_filter (peerKeyOf um) (del_at i (co_Peers cfg)))"
  using assms(2) unfolding findPeerIndex_def
  by (rule del_at_index) (use assms(1) in \<open>auto simp: cfg_ok_def\<close>)

lemma remove_peer_keeps:
  assumes "cfg_ok um cfg" "edit_RemovePeer um key cfg = Inr cfg'"
  shows "edit_keeps um cfg cfg'"
proof (rule edit_keepsI [OF assms(1)])
  obtain i where i: "findPeerIndex um cfg key = Some i"
      and c: "cfg' = cfg\<lparr>co_Peers := del_at i (co_Peers cfg),
                         co_Subscriptions := filter (\<lambda>s. su_Peer s \<noteq> key) (co_Subscriptions cfg),
                         co_Shares := map (\<lambda>s. s\<lparr>sh_Access := fmdrop key (sh_Access s)\<rparr>) (co_Shares cfg)\<rparr>"
    using assms(2) by (auto simp: edit_RemovePeer_def split: option.splits)
  have k: "share_kept um cfg' s (s\<lparr>sh_Access := fmdrop key (sh_Access s)\<rparr>)" for s
    using removed_key [OF assms(1) i] by (auto simp: share_kept_def c peerKeys_def)
  show "sh_ID s' \<notin> sh_ID ` set (co_Shares cfg) \<or> (\<exists>s \<in> set (co_Shares cfg). share_kept um cfg' s s')"
    if "s' \<in> set (co_Shares cfg')" for s'
  proof -
    from that obtain s where "s \<in> set (co_Shares cfg)" "s' = s\<lparr>sh_Access := fmdrop key (sh_Access s)\<rparr>" by (auto simp: c)
    with k show ?thesis by blast
  qed
qed (use assms(2) in \<open>auto simp: edit_RemovePeer_def split: option.splits\<close>)

text \<open>An edit of one share.\<close>

lemma one_share_keeps:
  assumes "cfg_ok um cfg" "findShareIndex cfg shareID = Some i"
    and "co_Shares cfg' = (co_Shares cfg)[i := v]" "share_kept um cfg' (co_Shares cfg ! i) v"
    and "\<And>u'. u' \<in> set (co_Subscriptions cfg') \<Longrightarrow> \<exists>u \<in> set (co_Subscriptions cfg). sub_kept u u'"
  shows "edit_keeps um cfg cfg'"
proof (rule edit_keepsI [OF assms(1)])
  have "co_Shares cfg ! i \<in> set (co_Shares cfg)"
    using assms(2) index_where_Some [of _ "co_Shares cfg" i] by (auto simp: findShareIndex_def)
  then show "sh_ID s' \<notin> sh_ID ` set (co_Shares cfg) \<or> (\<exists>s \<in> set (co_Shares cfg). share_kept um cfg' s s')"
    if "s' \<in> set (co_Shares cfg')" "s' \<notin> set (co_Shares cfg)" for s'
    using that set_update_cases [of s' "co_Shares cfg" i v] assms(3,4) by auto
qed (use assms(5) in blast)

lemma share_edits_keep:
  assumes "cfg_ok um cfg"
  shows "i \<notin> sh_ID ` set (co_Shares cfg) \<Longrightarrow> edit_AddShare i path name permission approval cfg = Inr cfg' \<Longrightarrow> edit_keeps um cfg cfg'"
    and "edit_RemoveShare shareID cfg = Inr cfg' \<Longrightarrow> edit_keeps um cfg cfg'"
    and "edit_updateShare shareID ch m cfg = Inr cfg' \<Longrightarrow> edit_keeps um cfg cfg'"
    and "edit_recordAccess shareID key access cfg = Inr cfg' \<Longrightarrow> edit_keeps um cfg cfg'"
proof -
  note r = edit_keepsI [OF assms]
  show "edit_keeps um cfg cfg'" if "i \<notin> sh_ID ` set (co_Shares cfg)" "edit_AddShare i path name permission approval cfg = Inr cfg'"
    by (rule r) (use that in \<open>auto simp: edit_AddShare_def split: option.splits\<close>)
  show "edit_keeps um cfg cfg'" if "edit_RemoveShare shareID cfg = Inr cfg'"
    by (rule r) (use that in \<open>auto simp: edit_RemoveShare_def dest: subsetD [OF set_del_at] split: option.splits\<close>)
  show "edit_keeps um cfg cfg'" if e: "edit_updateShare shareID ch m cfg = Inr cfg'"
  proof -
    from e obtain j where j: "findShareIndex cfg shareID = Some j"
        and c: "cfg' = cfg\<lparr>co_Shares := (co_Shares cfg)[j := change_share ch m (co_Shares cfg ! j)]\<rparr>"
      by (auto simp: edit_updateShare_def split: option.splits)
    show ?thesis by (rule one_share_keeps [OF assms j, where v = "change_share ch m (co_Shares cfg ! j)"])
        (auto simp: c share_kept_def change_share_def intro: keeps_refl split: if_splits)
  qed
  show "edit_keeps um cfg cfg'" if e: "edit_recordAccess shareID key access cfg = Inr cfg'"
  proof (cases "cfg' = cfg")
    case True
    then show ?thesis by (intro r) simp_all
  next
    case False
    with e obtain j where j: "findShareIndex cfg shareID = Some j"
        and c: "cfg' = cfg\<lparr>co_Shares := (co_Shares cfg)[j := (co_Shares cfg ! j)\<lparr>sh_Access := fmupd key access (sh_Access (co_Shares cfg ! j))\<rparr>]\<rparr>"
      by (auto simp: edit_recordAccess_def Let_def split: option.splits if_splits)
    show ?thesis by (rule one_share_keeps [OF assms j, where
          v = "(co_Shares cfg ! j)\<lparr>sh_Access := fmupd key access (sh_Access (co_Shares cfg ! j))\<rparr>"])
        (auto simp: c share_kept_def intro: keeps_refl split: if_splits)
  qed
qed

lemma safety_keeps:
  assumes "cfg_ok um cfg" "edit_SetSafety shareID sf cfg = Inr cfg'"
  shows "edit_keeps um cfg cfg'"
proof -
  have subs: "\<exists>u \<in> set (co_Subscriptions cfg). sub_kept u u'" if "u' \<in> set (co_Subscriptions cfg')" for u'
    using that assms(2) by (auto simp: edit_SetSafety_def sub_kept_def split: if_splits) force+
  show ?thesis
  proof (cases "findShareIndex cfg shareID")
    case None
    then have "co_Shares cfg' = co_Shares cfg" using assms(2) by (auto simp: edit_SetSafety_def split: if_splits)
    then show ?thesis by (intro edit_keepsI [OF assms(1)]) (simp_all add: subs)
  next
    case (Some i)
    then have "co_Shares cfg' = (co_Shares cfg)[i := (co_Shares cfg ! i)\<lparr>sh_Safety := sf\<rparr>]"
      using assms(2) by (auto simp: edit_SetSafety_def split: if_splits)
    then show ?thesis by (rule one_share_keeps [OF assms(1) Some _ _ subs]) (simp_all add: share_kept_def)
  qed
qed

lemma subscription_edits_keep:
  assumes "cfg_ok um cfg"
  shows "edit_AddSubscription mk taken key shareID path mode cfg = Inr cfg' \<Longrightarrow> edit_keeps um cfg cfg'"
    and "edit_RemoveSubscription key shareID cfg = Inr cfg' \<Longrightarrow> edit_keeps um cfg cfg'"
    and "edit_PauseSubscription key shareID paused cfg = Inr cfg' \<Longrightarrow> edit_keeps um cfg cfg'"
proof -
  note r = edit_keepsI [OF assms]
  show "edit_keeps um cfg cfg'" if "edit_AddSubscription mk taken key shareID path mode cfg = Inr cfg'"
    by (rule r) (use that in \<open>auto simp: edit_AddSubscription_def findSubscriptionIndex_def index_where_None split: option.splits if_splits\<close>)
  show "edit_keeps um cfg cfg'" if "edit_RemoveSubscription key shareID cfg = Inr cfg'"
    by (rule r) (use that in \<open>auto simp: edit_RemoveSubscription_def dest: subsetD [OF set_del_at] split: option.splits\<close>)
  show "edit_keeps um cfg cfg'" if e: "edit_PauseSubscription key shareID paused cfg = Inr cfg'"
  proof -
    from e obtain j where j: "findSubscriptionIndex cfg key shareID = Some j"
        and c: "cfg' = cfg\<lparr>co_Subscriptions := (co_Subscriptions cfg)[j := (co_Subscriptions cfg ! j)\<lparr>su_Paused := paused\<rparr>]\<rparr>"
      by (auto simp: edit_PauseSubscription_def split: option.splits)
    have m: "co_Subscriptions cfg ! j \<in> set (co_Subscriptions cfg)"
      using j index_where_Some [of _ "co_Subscriptions cfg" j] by (auto simp: findSubscriptionIndex_def)
    show ?thesis
    proof (rule r)
      fix u' assume "u' \<in> set (co_Subscriptions cfg')" "u' \<notin> set (co_Subscriptions cfg)"
      then have "u' = (co_Subscriptions cfg ! j)\<lparr>su_Paused := paused\<rparr>" using set_update_cases [of u'] by (auto simp: c)
      then have "sub_kept (co_Subscriptions cfg ! j) u'" by (simp add: sub_kept_def)
      with m show "(su_Peer u', su_ShareID u') \<notin> (\<lambda>s. (su_Peer s, su_ShareID s)) ` set (co_Subscriptions cfg) \<or>
          (\<exists>u \<in> set (co_Subscriptions cfg). sub_kept u u')" by blast
    qed (simp add: c)
  qed
qed

lemma other_edits_keep:
  assumes "cfg_ok um cfg" "co_Shares cfg' = co_Shares cfg" "co_Subscriptions cfg' = co_Subscriptions cfg"
  shows "edit_keeps um cfg cfg'"
  by (rule edit_keepsI [OF assms(1)]) (simp_all add: assms)

lemma edit_step_keeps: "edit_step um cfg cfg' \<Longrightarrow> cfg_ok um cfg \<Longrightarrow> edit_keeps um cfg cfg'"
proof (induction rule: edit_step.induct)
  case (add_peer p key cfg cfg')
  then show ?case by (intro other_edits_keep) (auto simp: edit_AddPeer_def split: if_splits)
next
  case (rename_node name cfg cfg')
  then show ?case by (intro other_edits_keep) (auto simp: edit_RenameNode_def)
next
  case (pending tok key name now cfg cfg')
  then show ?case by (intro other_edits_keep) (auto simp: edit_recordPendingPeer_def split: if_splits option.splits)
next
  case (approve query cfg cfg')
  then show ?case by (intro other_edits_keep)
    (auto simp: edit_ApprovePendingPeer_def Let_def split: list.splits prod.splits if_splits)
next
  case (deny key cfg cfg')
  then show ?case by (intro other_edits_keep) (auto simp: edit_removePendingPeer_def split: option.splits)
qed (simp_all add: remove_peer_keeps share_edits_keep safety_keeps subscription_edits_keep)

lemma edit_step_settings:
  "edit_step um cfg cfg' \<Longrightarrow> co_APIAddr cfg' = co_APIAddr cfg \<and>
     co_TrashRetentionDays cfg' = co_TrashRetentionDays cfg \<and> co_RescanIntervalSeconds cfg' = co_RescanIntervalSeconds cfg"
  by (cases rule: edit_step.cases, assumption)
    (auto simp: edit_AddPeer_def edit_RemovePeer_def edit_AddShare_def edit_RemoveShare_def edit_updateShare_def
      edit_recordAccess_def edit_AddSubscription_def edit_RemoveSubscription_def edit_PauseSubscription_def
      edit_SetSafety_def edit_RenameNode_def edit_recordPendingPeer_def edit_ApprovePendingPeer_def
      edit_removePendingPeer_def Let_def split: if_splits option.splits list.splits prod.splits)

section \<open>What the effects touch\<close>

definition decisions :: "node \<Rightarrow> (string \<times> string \<times> string) set" where
  "decisions n = (\<lambda>(k, i, a, cur). (k, i, a)) ` set (nd_jobs n)"

definition core :: "node \<Rightarrow> Config \<times> configDoc \<times> (string \<times> string) list \<times> (string \<times> string \<times> string) set \<times> string" where
  "core n = (nd_cfg n, nd_disk n, nd_unsaved n, decisions n, nd_self n)"

definition conn :: "node \<Rightarrow> string list \<times> (string, string) fmap \<times> (string \<times> string, string \<times> Direction) fmap \<times>
    (string, ShareListEntry list) fmap" where
  "conn n = (nd_live n, nd_peers n, nd_active n, nd_offered n)"

lemma fold_keeps: "(\<And>x n. g (f x n) = g n) \<Longrightarrow> g (fold f xs n) = g n"
  by (induction xs arbitrary: n) auto

lemma core_simps [simp]:
  "core (grantShare k i r d n) = core n" "core (reconfigureShare k i r d n) = core n" "core (neuterShare k i n) = core n"
  "core (neuterShareOnSessions i n) = core n" "core (stopShareWatch i n) = core n" "core (startSyncing k i n) = core n"
  "core (n\<lparr>nd_rescans := z\<rparr>) = core n" "core (n\<lparr>nd_watch := w\<rparr>) = core n" "core (n\<lparr>nd_guard := gd\<rparr>) = core n"
  "core (n\<lparr>nd_tokenName := t\<rparr>) = core n" "core (n\<lparr>nd_offered := ofs\<rparr>) = core n" "core (n\<lparr>nd_subAccess := sa\<rparr>) = core n"
  "core (n\<lparr>nd_live := l\<rparr>) = core n"
  by (simp_all add: core_def grantShare_def reconfigureShare_def neuterShare_def neuterShareOnSessions_def
      stopShareWatch_def startSyncing_def decisions_def)

lemma conn_other [simp]:
  "conn (n\<lparr>nd_tokenName := t\<rparr>) = conn n" "conn (n\<lparr>nd_guard := gd\<rparr>) = conn n" "conn (n\<lparr>nd_jobs := js\<rparr>) = conn n"
  "conn (n\<lparr>nd_cfg := cf, nd_disk := dk\<rparr>) = conn n" "conn (n\<lparr>nd_subAccess := sa\<rparr>) = conn n" "conn (n\<lparr>nd_rescans := z\<rparr>) = conn n"
  "conn (n\<lparr>nd_unsaved := un\<rparr>) = conn n"
  by (simp_all add: conn_def)

lemma core_send [simp]: "core (send_to k m n) = core n" "conn (send_to k m n) = conn n"
  by (simp_all add: send_to_def core_def conn_def decisions_def)

lemma core_announce [simp]:
  "core (sendShareList k n) = core n" "conn (sendShareList k n) = conn n"
  "core (sendAccessUpdate k i a n) = core n" "conn (sendAccessUpdate k i a n) = conn n"
  "core (sendSubscribeRequest k i n) = core n" "conn (sendSubscribeRequest k i n) = conn n"
  by (simp_all add: sendShareList_def sendAccessUpdate_def sendSubscribeRequest_def)

lemma core_broadcast [simp]:
  "core (broadcastShareList n) = core n" "conn (broadcastShareList n) = conn n"
  "core (requestSubscriptions k n) = core n" "conn (requestSubscriptions k n) = conn n"
  by (simp_all add: broadcastShareList_def requestSubscriptions_def fold_keeps)

lemma decisions_end [simp]: "decisions (end_session k n) = decisions n"
  by (force simp: decisions_def end_session_def)

lemma core_effects [simp]:
  "core (end_session k n) = core n" "core (removePeerConn k n) = core n"
  "core (forgetRemoved env new s n) = core n" "conn (forgetRemoved env new s n) = conn n"
  "core (start_share env sh n) = core n" "conn (start_share env sh n) = conn n"
  "core (start_sub env s n) = core n" "conn (start_sub env s n) = conn n"
  "core (stop_sub s n) = core n" "core (redirect_share sh n) = core n" "core (activatePeer env p n) = core n"
  "core (applyAccess sl a n) = core n"
proof -
  show e: "core (end_session k n) = core n" for k n
    using decisions_end [of k n] by (simp add: core_def end_session_def)
  show "core (removePeerConn k n) = core n" unfolding removePeerConn_def e by (simp add: core_def decisions_def)
  show "core (forgetRemoved env new s n) = core n" "conn (forgetRemoved env new s n) = conn n"
    by (simp_all add: forgetRemoved_def Let_def core_def conn_def decisions_def)
  show "core (start_share env sh n) = core n" "conn (start_share env sh n) = conn n"
    by (simp_all add: start_share_def startShareWatch_def core_def conn_def decisions_def)
  show "core (start_sub env s n) = core n" "conn (start_sub env s n) = conn n"
    by (simp_all add: start_sub_def startShareWatch_def Let_def) (simp_all add: conn_def)
  show "core (stop_sub s n) = core n" by (simp add: stop_sub_def)
  show "core (redirect_share sh n) = core n" by (simp add: redirect_share_def fold_keeps)
  show "core (activatePeer env p n) = core n" by (simp add: activatePeer_def core_def decisions_def split: option.split)
  show "core (applyAccess sl a n) = core n" by (simp add: applyAccess_def Let_def split: prod.split)
qed

lemma core_applyConfigChange: "core (applyConfigChange env old new n) = core n"
  by (simp add: applyConfigChange_def Let_def fold_keeps)

section \<open>What is active is allowed\<close>

definition ids_apart :: "Config \<Rightarrow> bool" where
  "ids_apart cfg \<longleftrightarrow> sh_ID ` set (co_Shares cfg) \<inter> su_ShareID ` set (co_Subscriptions cfg) = {}"

text \<open>A peer may have a share: the grant is recorded, or decided and about to be recorded, or it
  could not be recorded.\<close>

definition granted_to :: "node \<Rightarrow> Share \<Rightarrow> string \<Rightarrow> bool" where
  "granted_to n s key \<longleftrightarrow> access_of s key = AccessGranted \<or> (key, sh_ID s, AccessGranted) \<in> decisions n \<or>
     (key, sh_ID s) \<in> set (nd_unsaved n)"

definition offered_entry :: "Config \<Rightarrow> node \<Rightarrow> string \<Rightarrow> string \<Rightarrow> string \<Rightarrow> Direction \<Rightarrow> bool" where
  "offered_entry cfg n key i root dir \<longleftrightarrow>
     (\<exists>s \<in> set (co_Shares cfg). sh_ID s = i \<and> root = sh_Path s \<and> dir = offeredDirection s \<and> granted_to n s key)"

definition subscribed_entry :: "Config \<Rightarrow> node \<Rightarrow> string \<Rightarrow> string \<Rightarrow> string \<Rightarrow> Direction \<Rightarrow> bool" where
  "subscribed_entry cfg n key i root dir \<longleftrightarrow>
     (\<exists>u \<in> set (co_Subscriptions cfg). su_Peer u = key \<and> su_ShareID u = i \<and> \<not> su_Paused u \<and>
        root = su_LocalPath u \<and> dir = subscriberDirection (offeredPermission key i n) (su_Mode u))"

definition all_allowed :: "Config \<Rightarrow> node \<Rightarrow> bool" where
  "all_allowed cfg n \<longleftrightarrow> (\<forall>k i r d. fmlookup (nd_active n) (k, i) = Some (r, d) \<longrightarrow>
     offered_entry cfg n k i r d \<or> subscribed_entry cfg n k i r d)"

definition conn_ok :: "node \<Rightarrow> bool" where
  "conn_ok n \<longleftrightarrow> set (nd_live n) \<subseteq> fset (fmdom (nd_peers n)) \<and>
     (\<forall>k i e. fmlookup (nd_active n) (k, i) = Some e \<longrightarrow> k \<in> set (nd_live n))"

text \<open>The first three groups of effects only take away.\<close>

definition shrinks :: "node \<Rightarrow> node \<Rightarrow> bool" where
  "shrinks n m \<longleftrightarrow> (conn_ok n \<longrightarrow> conn_ok m) \<and> fmdom (nd_peers m) |\<subseteq>| fmdom (nd_peers n) \<and>
     (\<forall>k i e. fmlookup (nd_active m) (k, i) = Some e \<longrightarrow> fmlookup (nd_active n) (k, i) = Some e \<and>
        (conn_ok n \<longrightarrow> fmlookup (nd_offered m) k = fmlookup (nd_offered n) k))"

lemma shrinks_refl: "shrinks n n"
  by (simp add: shrinks_def)

lemma shrinks_chain: "shrinks a b \<Longrightarrow> shrinks b c \<Longrightarrow> shrinks a c"
  unfolding shrinks_def by (smt (verit) order_trans)

lemma shrinks_fold: "(\<And>x n. shrinks n (f x n)) \<Longrightarrow> shrinks n (fold f xs n)"
  by (induction xs arbitrary: n) (auto intro: shrinks_refl shrinks_chain)

lemma shrinks_gone: "shrinks n m \<Longrightarrow> fmlookup (nd_active n) (k, i) = None \<Longrightarrow> fmlookup (nd_active m) (k, i) = None"
  unfolding shrinks_def by (metis not_None_eq)

lemma fold_gone:
  assumes "\<And>x n. shrinks n (f x n)" "\<And>n. fmlookup (nd_active (f x n)) (k, i) = None" "x \<in> set xs"
  shows "fmlookup (nd_active (fold f xs n)) (k, i) = None"
  using assms(3)
proof (induction xs arbitrary: n)
  case (Cons y ys)
  show ?case
  proof (cases "x \<in> set ys")
    case True
    then show ?thesis using Cons.IH by simp
  next
    case False
    then have "y = x" using Cons.prems by simp
    then show ?thesis using shrinks_gone [OF shrinks_fold, of f, OF assms(1) assms(2)] by simp
  qed
qed simp

lemma removal_shrinks:
  "shrinks n (removePeerConn key n)" "shrinks n (stop_sub u n)"
  "shrinks n (neuterShareOnSessions i (stopShareWatch i n))"
  by (auto simp: shrinks_def conn_ok_def removePeerConn_def end_session_def stop_sub_def neuterShare_def
      stopShareWatch_def neuterShareOnSessions_def split: if_splits) blast+

lemma removal_gone:
  "fmlookup (nd_active (removePeerConn key n)) (key, i) = None"
  "fmlookup (nd_active (stop_sub u n)) (su_Peer u, su_ShareID u) = None"
  "fmlookup (nd_active (neuterShareOnSessions i (stopShareWatch i n))) (k, i) = None"
  by (simp_all add: removePeerConn_def end_session_def stop_sub_def neuterShare_def neuterShareOnSessions_def)

lemma removed_peers:
  "fmdom (nd_peers (fold removePeerConn ks n)) |\<subseteq>| fmdom (nd_peers n)"
  "k \<in> set ks \<Longrightarrow> k |\<notin>| fmdom (nd_peers (fold removePeerConn ks n))"
proof -
  show "fmdom (nd_peers (fold removePeerConn ks n)) |\<subseteq>| fmdom (nd_peers n)" for ks n
    using shrinks_fold [of removePeerConn, OF removal_shrinks(1)] by (auto simp: shrinks_def)
  then show "k \<in> set ks \<Longrightarrow> k |\<notin>| fmdom (nd_peers (fold removePeerConn ks n))"
  proof (induction ks arbitrary: n)
    case (Cons x xs)
    have "x |\<notin>| fmdom (nd_peers (removePeerConn x n))" by (simp add: removePeerConn_def end_session_def)
    then have "x |\<notin>| fmdom (nd_peers (fold removePeerConn xs (removePeerConn x n)))" using Cons.prems(2) by blast
    then show ?case using Cons by (cases "k = x") auto
  qed simp
qed

text \<open>A share whose permission changed is set up again wherever it is active.\<close>

lemma reconfigure_fold:
  "fmlookup (nd_active (fold (\<lambda>key. reconfigureShare key i r d) ks n)) (k, j) =
     (if j = i \<and> k \<in> set ks \<and> k \<in> set (nd_live n) \<and> fmlookup (nd_active n) (k, j) \<noteq> None then Some (r, d)
      else fmlookup (nd_active n) (k, j)) \<and>
   nd_live (fold (\<lambda>key. reconfigureShare key i r d) ks n) = nd_live n \<and>
   nd_peers (fold (\<lambda>key. reconfigureShare key i r d) ks n) = nd_peers n \<and>
   nd_offered (fold (\<lambda>key. reconfigureShare key i r d) ks n) = nd_offered n"
  by (induction ks arbitrary: n) (auto simp: reconfigureShare_def)

lemma redirect_share:
  assumes "conn_ok n"
  shows "fmlookup (nd_active (redirect_share s n)) (k, j) =
      (if j = sh_ID s \<and> fmlookup (nd_active n) (k, j) \<noteq> None then Some (sh_Path s, offeredDirection s)
       else fmlookup (nd_active n) (k, j))"
    and "nd_live (redirect_share s n) = nd_live n" "nd_peers (redirect_share s n) = nd_peers n"
    and "nd_offered (redirect_share s n) = nd_offered n" "conn_ok (redirect_share s n)"
proof -
  show a: "fmlookup (nd_active (redirect_share s n)) (k, j) =
      (if j = sh_ID s \<and> fmlookup (nd_active n) (k, j) \<noteq> None then Some (sh_Path s, offeredDirection s)
       else fmlookup (nd_active n) (k, j))" for k j
  proof -
    have "k \<in> set (nd_live n) \<and> k |\<in>| fmdom (nd_peers n)" if "fmlookup (nd_active n) (k, j) \<noteq> None"
      using assms that unfolding conn_ok_def by blast
    then show ?thesis unfolding redirect_share_def reconfigure_fold [THEN conjunct1] by auto
  qed
  show "nd_live (redirect_share s n) = nd_live n" "nd_peers (redirect_share s n) = nd_peers n"
    "nd_offered (redirect_share s n) = nd_offered n"
    unfolding redirect_share_def using reconfigure_fold by auto
  then show "conn_ok (redirect_share s n)" using assms by (auto simp: conn_ok_def a split: if_splits) blast+
qed

lemma redirect_fold:
  assumes "conn_ok n"
  shows "conn_ok (fold redirect_share ss n) \<and> nd_peers (fold redirect_share ss n) = nd_peers n \<and>
    nd_offered (fold redirect_share ss n) = nd_offered n \<and>
    (\<forall>k i e. fmlookup (nd_active (fold redirect_share ss n)) (k, i) = Some e \<longrightarrow>
       fmlookup (nd_active n) (k, i) \<noteq> None \<and>
       ((\<exists>s \<in> set ss. sh_ID s = i \<and> e = (sh_Path s, offeredDirection s)) \<or>
        i \<notin> sh_ID ` set ss \<and> fmlookup (nd_active n) (k, i) = Some e))"
  using assms
proof (induction ss arbitrary: n)
  case (Cons s ss)
  note r = redirect_share [OF Cons.prems, of s]
  show ?case using Cons.IH [OF r(5)] unfolding fold_simps r(3,4)
    by (simp add: r(1) split: if_splits) (smt (verit) imageE image_eqI)
qed simp

text \<open>A changed access decision is carried onto the peer's session.\<close>

lemma conn_startSyncing [simp]: "conn (startSyncing k i n) = conn n"
  by (simp add: startSyncing_def conn_def)

lemma applyAccess_conn:
  assumes "conn_ok n"
  shows "conn (applyAccess sl (s, k, a) n) =
    (nd_live n, nd_peers n,
     (if k \<in> set (nd_live n)
      then if a = AccessGranted then fmupd (k, sh_ID s) (sh_Path s, offeredDirection s) (nd_active n)
           else fmdrop (k, sh_ID s) (nd_active n)
      else nd_active n), nd_offered n)"
proof -
  have "k \<in> set (nd_live n) \<Longrightarrow> fmlookup (nd_peers n) k \<noteq> None"
    using assms unfolding conn_ok_def by (metis fmdom_notI subsetD)
  then show ?thesis
    by (simp add: applyAccess_def Let_def) (auto simp: conn_def grantShare_def neuterShare_def)
qed

lemma applyAccess_step:
  assumes "conn_ok n"
  shows "nd_offered (applyAccess sl (s, k, a) n) = nd_offered n" "nd_peers (applyAccess sl (s, k, a) n) = nd_peers n"
    and "conn_ok (applyAccess sl (s, k, a) n)"
    and "fmlookup (nd_active (applyAccess sl (s, k, a) n)) (k', i) =
      (if (k', i) = (k, sh_ID s) \<and> k \<in> set (nd_live n)
       then if a = AccessGranted then Some (sh_Path s, offeredDirection s) else None
       else fmlookup (nd_active n) (k', i))"
  using applyAccess_conn [OF assms, of sl s k a] assms
  by (auto simp: conn_def conn_ok_def split: if_splits) blast+

lemma entries_cong:
  assumes "core m = core n" "nd_offered m = nd_offered n"
  shows "offered_entry cfg m = offered_entry cfg n" "subscribed_entry cfg m = subscribed_entry cfg n"
proof -
  have "offeredPermission k i m = offeredPermission k i n" for k i
    by (simp add: offeredPermission_def assms(2))
  then show "subscribed_entry cfg m = subscribed_entry cfg n" by (intro ext) (simp add: subscribed_entry_def)
  have "granted_to m s k = granted_to n s k" for s k using assms(1) by (simp add: granted_to_def core_def)
  then show "offered_entry cfg m = offered_entry cfg n" by (intro ext) (simp add: offered_entry_def)
qed

lemma applyAccess_fold:
  assumes "conn_ok n"
    and "\<And>s k a. (s, k, a) \<in> set as \<Longrightarrow> s \<in> set (co_Shares cfg) \<and> a = access_of s k"
    and "\<And>k i r d. fmlookup (nd_active n) (k, i) = Some (r, d) \<Longrightarrow>
      offered_entry cfg n k i r d \<or> subscribed_entry cfg n k i r d \<or>
      (\<exists>s a. (s, k, a) \<in> set as \<and> sh_ID s = i \<and> a \<noteq> AccessGranted)"
  shows "conn_ok (fold (applyAccess sl) as n) \<and> nd_peers (fold (applyAccess sl) as n) = nd_peers n \<and>
    all_allowed cfg (fold (applyAccess sl) as n)"
  using assms
proof (induction as arbitrary: n)
  case Nil
  then show ?case by (auto simp: all_allowed_def)
next
  case (Cons x as)
  obtain s k a where x: "x = (s, k, a)" by (cases x)
  let ?m = "applyAccess sl (s, k, a) n"
  note st = applyAccess_step [OF Cons.prems(1), of sl s k a]
  have e: "offered_entry cfg ?m = offered_entry cfg n" "subscribed_entry cfg ?m = subscribed_entry cfg n"
    by (rule entries_cong; simp add: st)+
  have s: "s \<in> set (co_Shares cfg)" "a = access_of s k" using Cons.prems(2) [of s k a] by (simp_all add: x)
  have "conn_ok (fold (applyAccess sl) as ?m) \<and> nd_peers (fold (applyAccess sl) as ?m) = nd_peers ?m \<and>
      all_allowed cfg (fold (applyAccess sl) as ?m)"
  proof (rule Cons.IH)
    show "conn_ok ?m" by (rule st)
    show "\<And>s k a. (s, k, a) \<in> set as \<Longrightarrow> s \<in> set (co_Shares cfg) \<and> a = access_of s k"
      using Cons.prems(2) by (meson list.set_intros(2))
    fix k' i r d assume l: "fmlookup (nd_active ?m) (k', i) = Some (r, d)"
    show "offered_entry cfg ?m k' i r d \<or> subscribed_entry cfg ?m k' i r d \<or>
      (\<exists>s a. (s, k', a) \<in> set as \<and> sh_ID s = i \<and> a \<noteq> AccessGranted)"
    proof (cases "(k', i) = (k, sh_ID s) \<and> k \<in> set (nd_live n)")
      case True
      then have "a = AccessGranted" "r = sh_Path s" "d = offeredDirection s" using l by (auto simp: st(4) split: if_splits)
      then show ?thesis using s True unfolding e by (auto simp: offered_entry_def granted_to_def)
    next
      case False
      then have l': "fmlookup (nd_active n) (k', i) = Some (r, d)" using l by (auto simp: st(4) split: if_splits)
      then have "k' \<in> set (nd_live n)" using Cons.prems(1) unfolding conn_ok_def by blast
      then show ?thesis using Cons.prems(3) [OF l'] False unfolding e x by auto
    qed
  qed
  then show ?case by (simp add: x st(2))
qed

section \<open>The effects of a change as a whole\<close>

text \<open>What survives the removals was there before, and the change has not taken its ground away.\<close>

definition after_removals :: "configChange \<Rightarrow> node \<Rightarrow> node" where
  "after_removals c n = fold (\<lambda>i n. neuterShareOnSessions i (stopShareWatch i n)) (cc_sharesRemoved c)
     (fold stop_sub (cc_subsStopped c) (fold removePeerConn (cc_peersRemoved c) n))"

lemma after_removals:
  shows "shrinks n (after_removals c n)"
    and "fmlookup (nd_active (after_removals c n)) (k, i) = Some e \<Longrightarrow> k \<notin> set (cc_peersRemoved c) \<and>
      i \<notin> set (cc_sharesRemoved c) \<and> (\<forall>u \<in> set (cc_subsStopped c). (su_Peer u, su_ShareID u) \<noteq> (k, i))"
    and "fset (fmdom (nd_peers (after_removals c n))) \<subseteq> fset (fmdom (nd_peers n)) - set (cc_peersRemoved c)"
proof -
  let ?f3 = "\<lambda>i n. neuterShareOnSessions i (stopShareWatch i n)"
  let ?n1 = "fold removePeerConn (cc_peersRemoved c) n"
  let ?n2 = "fold stop_sub (cc_subsStopped c) ?n1"
  have s1: "shrinks n ?n1" and s2: "shrinks ?n1 ?n2" and s3: "shrinks ?n2 (after_removals c n)"
    unfolding after_removals_def by (rule shrinks_fold, rule removal_shrinks)+
  show "shrinks n (after_removals c n)" using s1 s2 s3 by (blast intro: shrinks_chain)
  have g1: "fmlookup (nd_active ?n1) (k, i) = None" if "k \<in> set (cc_peersRemoved c)"
    by (rule fold_gone [OF removal_shrinks(1) removal_gone(1) that])
  have g2: "fmlookup (nd_active ?n2) (su_Peer u, su_ShareID u) = None" if "u \<in> set (cc_subsStopped c)" for u
    by (rule fold_gone [OF removal_shrinks(2) removal_gone(2) that])
  have g3: "fmlookup (nd_active (after_removals c n)) (k, i) = None" if "i \<in> set (cc_sharesRemoved c)"
    unfolding after_removals_def using fold_gone [of ?f3, OF removal_shrinks(3) removal_gone(3) that] .
  show "k \<notin> set (cc_peersRemoved c) \<and> i \<notin> set (cc_sharesRemoved c) \<and>
      (\<forall>u \<in> set (cc_subsStopped c). (su_Peer u, su_ShareID u) \<noteq> (k, i))"
    if e: "fmlookup (nd_active (after_removals c n)) (k, i) = Some e"
  proof -
    from e have e2: "fmlookup (nd_active ?n2) (k, i) \<noteq> None" using shrinks_gone [OF s3] by force
    then have e1: "fmlookup (nd_active ?n1) (k, i) \<noteq> None" using shrinks_gone [OF s2, of k i] by argo
    have "i \<notin> set (cc_sharesRemoved c)" using g3 unfolding e by blast
    moreover have "(su_Peer u, su_ShareID u) \<noteq> (k, i)" if "u \<in> set (cc_subsStopped c)" for u
      using g2 [OF that] e2 by (metis (no_types))
    ultimately show ?thesis using g1 e1 by blast
  qed
  have "fmdom (nd_peers (after_removals c n)) |\<subseteq>| fmdom (nd_peers ?n1)"
    using shrinks_chain [OF s2 s3] by (simp add: shrinks_def)
  then show "fset (fmdom (nd_peers (after_removals c n))) \<subseteq> fset (fmdom (nd_peers n)) - set (cc_peersRemoved c)"
    using removed_peers [where ks = "cc_peersRemoved c" and n = n] by blast
qed

lemma share_by_id_mem: "cfg_ok um cfg \<Longrightarrow> s \<in> set (co_Shares cfg) \<Longrightarrow> share_by_id cfg (sh_ID s) = Some s"
proof -
  assume "cfg_ok um cfg" "s \<in> set (co_Shares cfg)"
  then have d: "distinct (map sh_ID (rev (co_Shares cfg)))" "s \<in> set (rev (co_Shares cfg))"
    by (simp_all add: cfg_ok_def rev_map [symmetric])
  have "distinct (map sh_ID xs) \<Longrightarrow> s \<in> set xs \<Longrightarrow> find (\<lambda>t. sh_ID t = sh_ID s) xs = Some s" for xs
    by (induction xs) auto
  from this [OF d] show ?thesis by (simp add: share_by_id_def)
qed

lemma share_by_id_Some: "share_by_id cfg i = Some s \<Longrightarrow> s \<in> set (co_Shares cfg) \<and> sh_ID s = i"
  by (auto simp: share_by_id_def find_Some_iff) (metis length_rev nth_mem set_rev)

text \<open>Removals and redirections: what is active then is allowed, unless the access entry behind
  it has changed.\<close>

lemma diff_fields:
  assumes "c = diffConfig um old new"
  shows "set (cc_sharesRedirected c) \<subseteq> set (co_Shares new)"
    and "s \<in> set (co_Shares new) \<Longrightarrow> share_by_id old (sh_ID s) = Some was \<Longrightarrow>
      s \<in> set (cc_sharesRedirected c) \<longleftrightarrow> sh_Permission s \<noteq> sh_Permission was"
    and "i \<in> sh_ID ` set (co_Shares old) \<Longrightarrow> i \<notin> set (cc_sharesRemoved c) \<Longrightarrow> \<exists>s. share_by_id new i = Some s"
    and "running old k i \<Longrightarrow> u \<in> set (co_Subscriptions old) \<Longrightarrow> su_Peer u = k \<Longrightarrow> su_ShareID u = i \<Longrightarrow>
      u \<notin> set (cc_subsStopped c) \<Longrightarrow> running new k i"
    and "s \<in> set (co_Shares new) \<Longrightarrow> x \<in> set (access_changes old s) \<Longrightarrow> x \<in> set (cc_access c)"
  by (auto simp: assms diffConfig_def Let_def)

lemma offered_survives:
  assumes ok: "cfg_ok um old" "cfg_ok um new" and keeps: "edit_keeps um old new" and c: "c = diffConfig um old new"
    and e: "offered_entry old n k i r0 d0" and core: "core m = core n"
    and gone: "i \<notin> set (cc_sharesRemoved c)" "k \<in> set (peerKeys um new)"
    and rd: "(\<exists>s \<in> set (cc_sharesRedirected c). sh_ID s = i \<and> (r, d) = (sh_Path s, offeredDirection s)) \<or>
      i \<notin> sh_ID ` set (cc_sharesRedirected c) \<and> (r0, d0) = (r, d)"
  shows "offered_entry new m k i r d \<or> (\<exists>s a. (s, k, a) \<in> set (cc_access c) \<and> sh_ID s = i \<and> a \<noteq> AccessGranted)"
proof -
  note diff = diff_fields [OF c]
  obtain s where s: "s \<in> set (co_Shares old)" "sh_ID s = i" "r0 = sh_Path s" "d0 = offeredDirection s" "granted_to n s k"
    using e by (auto simp: offered_entry_def)
  obtain s' where "share_by_id new i = Some s'" using diff(3) [OF _ gone(1)] s by blast
  then have s': "s' \<in> set (co_Shares new)" "sh_ID s' = i" by (simp_all add: share_by_id_Some)
  have was: "share_by_id old (sh_ID s') = Some s" using share_by_id_mem [OF ok(1) s(1)] s(2) s'(2) by simp
  have uniq: "t = s'" if "t \<in> set (co_Shares new)" "sh_ID t = i" for t
    using share_by_id_mem [OF ok(2)] that s' by (metis option.inject)
  have path: "sh_Path s' = sh_Path s" and acc: "fmlookup (sh_Access s') k = None \<Longrightarrow> fmlookup (sh_Access s) k = None"
    using keeps s s' gone(2) by (auto simp: edit_keeps_def)
  have redir: "t = s'" if "t \<in> set (cc_sharesRedirected c)" "sh_ID t = i" for t using uniq diff(1) that by blast
  have redir_iff: "i \<in> sh_ID ` set (cc_sharesRedirected c) \<longleftrightarrow> sh_Permission s' \<noteq> sh_Permission s"
    using diff(2) [OF s'(1) was] redir s'(2) by (metis imageE imageI)
  have now: "r = sh_Path s' \<and> d = offeredDirection s'"
  proof (cases "sh_Permission s' = sh_Permission s")
    case True
    then have "(r0, d0) = (r, d)" using rd redir_iff by blast
    then show ?thesis using s(3,4) path True by (simp add: offeredDirection_def)
  next
    case False
    then obtain t where "t \<in> set (cc_sharesRedirected c)" "sh_ID t = i" "(r, d) = (sh_Path t, offeredDirection t)"
      using rd redir_iff by blast
    then show ?thesis using redir [of t] by simp
  qed
  show ?thesis
  proof (cases "granted_to m s' k")
    case True
    then show ?thesis using s' now by (auto simp: offered_entry_def)
  next
    case False
    then have g: "access_of s k = AccessGranted" "access_of s' k \<noteq> AccessGranted"
      using s(5) s(2) s'(2) core by (auto simp: granted_to_def core_def)
    then have "fmlookup (sh_Access s) k \<noteq> None" by (auto simp: access_of_def AccessGranted_def split: option.splits)
    then have "k \<in> fset (fmdom (sh_Access s'))" using acc by (cases "fmlookup (sh_Access s') k") (auto intro: fmdomI)
    then have "(s', k, access_of s' k) \<in> set (access_changes old s')" using g was by (auto simp: access_changes_def)
    then show ?thesis using diff(5) [OF s'(1)] g s' by blast
  qed
qed

lemma redirected_allowed:
  assumes ok: "cfg_ok um old" "cfg_ok um new" and keeps: "edit_keeps um old new" and apart: "ids_apart new"
    and conn: "conn_ok n" and peers: "fset (fmdom (nd_peers n)) \<subseteq> set (peerKeys um old)" and all: "all_allowed old n"
    and c: "c = diffConfig um old new"
    and m: "m = fold redirect_share (cc_sharesRedirected c) m0" "conn m0 = conn (after_removals c n)" "core m = core n"
    and e: "fmlookup (nd_active m) (k, i) = Some (r, d)"
  shows "offered_entry new m k i r d \<or> subscribed_entry new m k i r d \<or>
    (\<exists>s a. (s, k, a) \<in> set (cc_access c) \<and> sh_ID s = i \<and> a \<noteq> AccessGranted)"
proof -
  note a = after_removals [where n = n and c = c]
  have m0: "nd_active m0 = nd_active (after_removals c n)" "nd_offered m0 = nd_offered (after_removals c n)" "conn_ok m0"
    using m(2) a(1) conn by (auto simp: conn_def conn_ok_def shrinks_def)
  note f = redirect_fold [OF m0(3), of "cc_sharesRedirected c", folded m(1)]
  from f e obtain r0 d0 where e0: "fmlookup (nd_active (after_removals c n)) (k, i) = Some (r0, d0)"
      and rd: "(\<exists>s \<in> set (cc_sharesRedirected c). sh_ID s = i \<and> (r, d) = (sh_Path s, offeredDirection s)) \<or>
        i \<notin> sh_ID ` set (cc_sharesRedirected c) \<and> (r0, d0) = (r, d)"
    unfolding m0(1) by (metis not_None_eq option.sel surj_pair)
  have en: "fmlookup (nd_active n) (k, i) = Some (r0, d0)" and off: "fmlookup (nd_offered m) k = fmlookup (nd_offered n) k"
    using a(1) e0 conn f unfolding shrinks_def m0(2) by metis+
  have gone: "k \<notin> set (cc_peersRemoved c)" "i \<notin> set (cc_sharesRemoved c)"
      "\<forall>u \<in> set (cc_subsStopped c). (su_Peer u, su_ShareID u) \<noteq> (k, i)"
    using a(2) [OF e0] by auto
  have "k \<in> fset (fmdom (nd_peers n))" using conn en unfolding conn_ok_def by blast
  then have kn: "k \<in> set (peerKeys um new)" using gone(1) peers by (auto simp: c diffConfig_def Let_def)
  from all en have "offered_entry old n k i r0 d0 \<or> subscribed_entry old n k i r0 d0" by (simp add: all_allowed_def)
  then show ?thesis
  proof
    assume "offered_entry old n k i r0 d0"
    from offered_survives [OF ok keeps c this m(3) gone(2) kn rd] show ?thesis by blast
  next
    assume "subscribed_entry old n k i r0 d0"
    then obtain u where u: "u \<in> set (co_Subscriptions old)" "su_Peer u = k" "su_ShareID u = i" "\<not> su_Paused u"
        "r0 = su_LocalPath u" "d0 = subscriberDirection (offeredPermission k i n) (su_Mode u)"
      by (auto simp: subscribed_entry_def)
    then have "running old k i" "u \<notin> set (cc_subsStopped c)" using gone(3) by (auto simp: running_def list_ex_iff)
    then have "running new k i" by (rule diff_fields(4) [OF c _ u(1-3)])
    then obtain u' where u': "u' \<in> set (co_Subscriptions new)" "su_Peer u' = k" "su_ShareID u' = i" "\<not> su_Paused u'"
      by (auto simp: running_def list_ex_iff)
    then have "su_LocalPath u' = su_LocalPath u \<and> su_Mode u' = su_Mode u" using keeps u by (auto simp: edit_keeps_def)
    moreover have "i \<notin> sh_ID ` set (co_Shares new)" using apart u' by (auto simp: ids_apart_def)
    then have "(r, d) = (r0, d0)" using rd diff_fields(1) [OF c] by blast
    moreover have "offeredPermission k i m = offeredPermission k i n" using off by (simp add: offeredPermission_def)
    ultimately show ?thesis using u u' by (auto simp: subscribed_entry_def)
  qed
qed

lemma activate_fold:
  "nd_live (fold (activatePeer env) ps n) = nd_live n \<and> nd_active (fold (activatePeer env) ps n) = nd_active n \<and>
   nd_offered (fold (activatePeer env) ps n) = nd_offered n \<and>
   fset (fmdom (nd_peers (fold (activatePeer env) ps n))) = fset (fmdom (nd_peers n)) \<union> set (List.map_filter (peerKeyOf (ne_um env)) ps)"
proof (induction ps arbitrary: n)
  case (Cons p ps)
  then show ?case by (auto simp: activatePeer_def split: option.splits)
qed (simp add: List.map_filter_def)

lemma conn_ok_cong: "conn m = conn n \<Longrightarrow> conn_ok m = conn_ok n"
  by (simp add: conn_def conn_ok_def)

lemma all_allowed_cong: "conn m = conn n \<Longrightarrow> core m = core n \<Longrightarrow> all_allowed cfg m = all_allowed cfg n"
  using entries_cong [of m n] by (simp add: all_allowed_def conn_def)

lemma applyConfigChange_allowed:
  assumes ok: "cfg_ok (ne_um env) old" "cfg_ok (ne_um env) new" and keeps: "edit_keeps (ne_um env) old new"
    and apart: "ids_apart new" and conn: "conn_ok n"
    and peers: "fset (fmdom (nd_peers n)) \<subseteq> set (peerKeys (ne_um env) old)" and all: "all_allowed old n"
  defines "m \<equiv> applyConfigChange env old new n"
  shows "conn_ok m \<and> all_allowed new m \<and> fset (fmdom (nd_peers m)) \<subseteq> set (peerKeys (ne_um env) new)"
proof -
  define c where "c = diffConfig (ne_um env) old new"
  define n4 where "n4 = fold (forgetRemoved env new) (cc_subsRemoved c) (after_removals c n)"
  define n6 where "n6 = fold (start_share env) (cc_sharesAdded c)
      (n4\<lparr>nd_guard := Retain (ne_holdWrites env) (configuredLinks (ne_um env) new) (nd_guard n4)\<rparr>)"
  define n7 where "n7 = fold redirect_share (cc_sharesRedirected c) n6"
  define n8 where "n8 = fold (activatePeer env) (cc_peersAdded c) n7"
  define n9 where "n9 = fold (start_sub env) (cc_subsStarted c) n8"
  define n10 where "n10 = fold (applyAccess (\<not> cc_announce c)) (cc_access c) n9"
  have m: "conn m = conn n10" "core m = core n10"
    by (simp_all add: m_def applyConfigChange_def Let_def c_def n4_def n6_def n7_def n8_def n9_def n10_def after_removals_def)
  note a = after_removals [where n = n and c = c]
  have c6: "conn n6 = conn (after_removals c n)"
    by (simp add: n6_def n4_def fold_keeps)
  have ok6: "conn_ok n6" using a(1) conn conn_ok_cong [OF c6] by (simp add: shrinks_def)
  note f = redirect_fold [OF ok6, of "cc_sharesRedirected c", folded n7_def]
  have core7: "core n7 = core n"
    by (simp add: n7_def n6_def n4_def after_removals_def fold_keeps)
  have core9: "core n9 = core n7" by (simp add: n9_def n8_def fold_keeps)
  have c9: "conn n9 = conn n8" by (simp add: n9_def fold_keeps)
  have n9: "nd_live n9 = nd_live n7" "nd_active n9 = nd_active n7" "nd_offered n9 = nd_offered n7"
      "fset (fmdom (nd_peers n9)) = fset (fmdom (nd_peers n7)) \<union> set (List.map_filter (peerKeyOf (ne_um env)) (cc_peersAdded c))"
    using c9 activate_fold [of env "cc_peersAdded c" n7, folded n8_def] by (simp_all add: conn_def)
  have "conn_ok n9" using f n9 by (auto simp: conn_ok_def)
  moreover have "s \<in> set (co_Shares new) \<and> x = access_of s k" if "(s, k, x) \<in> set (cc_access c)" for s k x
    using that by (auto simp: c_def diffConfig_def Let_def access_changes_def split: option.splits)
  moreover have "offered_entry new n9 k i r d \<or> subscribed_entry new n9 k i r d \<or>
      (\<exists>s a. (s, k, a) \<in> set (cc_access c) \<and> sh_ID s = i \<and> a \<noteq> AccessGranted)"
    if "fmlookup (nd_active n9) (k, i) = Some (r, d)" for k i r d
    using redirected_allowed [OF ok keeps apart conn peers all c_def n7_def c6 core7, of k i r d] that
    unfolding n9(2) entries_cong [OF core9 n9(3)] .
  ultimately have fin: "conn_ok n10 \<and> nd_peers n10 = nd_peers n9 \<and> all_allowed new n10"
    unfolding n10_def by (rule applyAccess_fold)
  have p6: "nd_peers n7 = nd_peers (after_removals c n)" using f c6 by (simp add: conn_def)
  have "fset (fmdom (nd_peers n9)) \<subseteq> set (peerKeys (ne_um env) new)"
  proof -
    have "set (peerKeys (ne_um env) old) - set (cc_peersRemoved c) \<subseteq> set (peerKeys (ne_um env) new)"
      by (auto simp: c_def diffConfig_def Let_def)
    moreover have "set (cc_peersAdded c) \<subseteq> set (co_Peers new)" by (auto simp: c_def diffConfig_def Let_def)
    then have "set (List.map_filter (peerKeyOf (ne_um env)) (cc_peersAdded c)) \<subseteq> set (peerKeys (ne_um env) new)"
      by (simp add: peerKeys_def subset_iff mem_map_filter) blast
    ultimately show ?thesis unfolding n9(4) p6 using a(3) peers by blast
  qed
  then show ?thesis using fin m conn_ok_cong [OF m(1)] all_allowed_cong [OF m] by (simp add: conn_def)
qed

section \<open>Runs of a node\<close>

text \<open>The configuration a node runs is the one it would load again.\<close>

definition node_ok :: "uncbor \<Rightarrow> node \<Rightarrow> bool" where
  "node_ok um n \<longleftrightarrow> cfg_ok um (nd_cfg n) \<and> Load_doc (nd_disk n) = Inr (nd_cfg n) \<and>
     conn_ok n \<and> fset (fmdom (nd_peers n)) \<subseteq> set (peerKeys um (nd_cfg n)) \<and> all_allowed (nd_cfg n) n"

text \<open>The entry points: mutations (the id of a new share is one no share has), messages and the end of a session,
  a new session, and the second half of a subscribe request. Each happens in its own
  environment, which decides what fails.\<close>

inductive node_step :: "uncbor \<Rightarrow> node \<Rightarrow> node \<Rightarrow> bool" for um where
  AddPeer: "ne_um env = um \<Longrightarrow> AddPeer env name tok n = (r, n') \<Longrightarrow> node_step um n n'"
| RemovePeer: "ne_um env = um \<Longrightarrow> RemovePeer env ref n = (r, n') \<Longrightarrow> node_step um n n'"
| AddShare: "ne_um env = um \<Longrightarrow> i \<notin> sh_ID ` set (co_Shares (nd_cfg n)) \<Longrightarrow>
    AddShare env i path name permission approval n = (r, n') \<Longrightarrow> node_step um n n'"
| RemoveShare: "ne_um env = um \<Longrightarrow> RemoveShare env ref n = (r, n') \<Longrightarrow> node_step um n n'"
| UpdateShare: "ne_um env = um \<Longrightarrow> updateShare env ref ch n = (r, n') \<Longrightarrow> node_step um n n'"
| AddSubscription: "ne_um env = um \<Longrightarrow> AddSubscription env pref sref path mode n = (r, n') \<Longrightarrow> node_step um n n'"
| RemoveSubscription: "ne_um env = um \<Longrightarrow> RemoveSubscription env pref sref n = (r, n') \<Longrightarrow> node_step um n n'"
| PauseSubscription: "ne_um env = um \<Longrightarrow> PauseSubscription env pref sref paused n = (r, n') \<Longrightarrow> node_step um n n'"
| SetSafety: "ne_um env = um \<Longrightarrow> SetSafety env ref sf n = (r, n') \<Longrightarrow> node_step um n n'"
| RenameNode: "ne_um env = um \<Longrightarrow> RenameNode env name n = (r, n') \<Longrightarrow> node_step um n n'"
| PendingPeer: "ne_um env = um \<Longrightarrow> node_step um n (recordPendingPeer env h n)"
| Decide: "ne_um env = um \<Longrightarrow> DecideApproval env i decision n = (r, n') \<Longrightarrow> node_step um n n'"
| Approve: "ne_um env = um \<Longrightarrow> ApprovePendingPeer env ref n = (r, n') \<Longrightarrow> node_step um n n'"
| Message: "key \<in> set (nd_live n) \<Longrightarrow> handleControl key msg n = (r, n') \<Longrightarrow> node_step um n n'"
| Job: "ne_um env = um \<Longrightarrow> job \<in> set (nd_jobs n) \<Longrightarrow> node_step um n (run_job env job n)"
| Adopt: "node_step um n (adopt key n)"
| Disconnect: "node_step um n (end_session key n)"

inductive node_run :: "uncbor \<Rightarrow> node \<Rightarrow> node \<Rightarrow> bool" for um where
  node_start: "node_run um n n"
| node_next: "node_run um n m \<Longrightarrow> node_step um m m' \<Longrightarrow> ids_apart (nd_cfg m') \<Longrightarrow> node_run um n m'"

lemma core_fields: "core m = core n \<Longrightarrow> nd_cfg m = nd_cfg n" "core m = core n \<Longrightarrow> nd_disk m = nd_disk n"
  by (simp_all add: core_def)

definition settled :: "Config \<Rightarrow> bool" where
  "settled c \<longleftrightarrow> co_APIAddr c \<noteq> [] \<and> co_TrashRetentionDays c \<noteq> 0 \<and> co_RescanIntervalSeconds c \<noteq> 0"

lemma settled_defaults: "settled (ApplyDefaults c)" "settled c \<Longrightarrow> ApplyDefaults c = c"
  by (auto simp: settled_def ApplyDefaults_def DefaultTrashRetentionDays_def DefaultRescanIntervalSeconds_def DefaultAPIAddr_def)

lemma load_after_edit:
  assumes "Load_doc d = Inr cfg" "edit_step um cfg new" "Save_doc new = Inr doc"
  shows "Load_doc doc = Inr new"
proof -
  have "settled cfg" using assms(1) settled_defaults(1) [of "docToConfig d"] by (auto simp: Load_doc_def Let_def split: if_splits)
  then have "settled new" using edit_step_settings [OF assms(2)] by (simp add: settled_def)
  then show ?thesis using assms(3)
    by (auto simp: settled_defaults Save_doc_def Load_doc_def Let_def doc_round_trip split: if_splits)
qed

lemma mutateConfig_ok:
  assumes "node_ok um n" "ne_um env = um" "mutateConfig env f n = (r, n')" "ids_apart (nd_cfg n')"
    and "\<And>cfg'. f (nd_cfg n) = Inr cfg' \<Longrightarrow> edit_step um (nd_cfg n) cfg'"
  shows "node_ok um n'"
proof (cases "n' = n")
  case False
  then obtain new doc where f: "f (nd_cfg n) = Inr new" and d: "Save_doc new = Inr doc"
      and n': "n' = applyConfigChange env (nd_cfg n) new (n\<lparr>nd_cfg := new, nd_disk := doc\<rparr>)"
    using assms(3) by (auto simp: mutateConfig_def split: sum.splits if_splits)
  have st: "edit_step um (nd_cfg n) new" using assms(5) f by blast
  have k: "cfg_ok um (nd_cfg n)" using assms(1) by (simp add: node_ok_def)
  have c: "nd_cfg n' = new" "nd_disk n' = doc"
    using core_fields [OF core_applyConfigChange [of env "nd_cfg n" new "n\<lparr>nd_cfg := new, nd_disk := doc\<rparr>"]] by (simp_all add: n')
  have "Load_doc doc = Inr new" using load_after_edit [OF _ st d] assms(1) unfolding node_ok_def by blast
  moreover have "conn_ok (n\<lparr>nd_cfg := new, nd_disk := doc\<rparr>)" "all_allowed (nd_cfg n) (n\<lparr>nd_cfg := new, nd_disk := doc\<rparr>)"
    using assms(1) by (auto simp: node_ok_def conn_ok_def all_allowed_def offered_entry_def subscribed_entry_def granted_to_def
        decisions_def offeredPermission_def)
  moreover have "fset (fmdom (nd_peers (n\<lparr>nd_cfg := new, nd_disk := doc\<rparr>))) \<subseteq> set (peerKeys (ne_um env) (nd_cfg n))"
    using assms(1,2) by (simp add: node_ok_def)
  ultimately show ?thesis
    using applyConfigChange_allowed [of env "nd_cfg n" new "n\<lparr>nd_cfg := new, nd_disk := doc\<rparr>"] assms(2,4)
      edit_step_ok [OF st k] edit_step_keeps [OF st k] k c
    by (simp add: node_ok_def n')
qed (use assms(1) in simp)

text \<open>Every mutation is one edit.\<close>

definition edits :: "uncbor \<Rightarrow> node_env \<Rightarrow> node \<Rightarrow> node \<Rightarrow> bool" where
  "edits um env n n' \<longleftrightarrow> n' = n \<or> (\<exists>f r. mutateConfig env f n = (r, n') \<and>
     (\<forall>cfg'. f (nd_cfg n) = Inr cfg' \<longrightarrow> edit_step um (nd_cfg n) cfg'))"

lemma editsI:
  "mutateConfig env f n = (r, n') \<Longrightarrow> (\<And>cfg'. f (nd_cfg n) = Inr cfg' \<Longrightarrow> edit_step um (nd_cfg n) cfg') \<Longrightarrow> edits um env n n'"
  by (auto simp: edits_def)

lemma edits_refl [simp]: "edits um env n n"
  by (simp add: edits_def)

lemma mutations_edit:
  assumes um: "ne_um env = um"
  shows "AddPeer env name tok n = (r, n') \<Longrightarrow> edits um env n n'"
    and "RemovePeer env ref n = (r, n') \<Longrightarrow> edits um env n n'"
    and "i \<notin> sh_ID ` set (co_Shares (nd_cfg n)) \<Longrightarrow> AddShare env i path name permission approval n = (r, n') \<Longrightarrow> edits um env n n'"
    and "RemoveShare env ref n = (r, n') \<Longrightarrow> edits um env n n'"
    and "updateShare env ref ch n = (r, n') \<Longrightarrow> edits um env n n'"
    and "AddSubscription env pref sref path mode n = (r, n') \<Longrightarrow> edits um env n n'"
    and "RemoveSubscription env pref sref n = (r, n') \<Longrightarrow> edits um env n n'"
    and "PauseSubscription env pref sref paused n = (r, n') \<Longrightarrow> edits um env n n'"
    and "SetSafety env ref sf n = (r, n') \<Longrightarrow> edits um env n n'"
    and "RenameNode env name n = (r, n') \<Longrightarrow> edits um env n n'"
    and "recordPendingPeer env h n = n' \<Longrightarrow> edits um env n n'"
    and "ApprovePendingPeer env ref n = (r, n') \<Longrightarrow> edits um env n n'"
    and "removePendingPeer env key n = (r, n') \<Longrightarrow> edits um env n n'"
proof -
  note m = editsI [of env _ n _ n' um]
  show "edits um env n n'" if "AddPeer env name tok n = (r, n')"
  proof (cases "n' = n")
    case False
    with that obtain t where t: "ParseToken um tok = Inr t" and e: "mutateConfig env (edit_AddPeer um (hex_encode (nt_ID t))
        \<lparr>pe_Name = (if name = [] then nt_Name t else name), pe_Token = tok, pe_Enabled = True\<rparr>) n = (r, n')"
      by (auto simp: AddPeer_def um Let_def split: sum.splits if_splits)
    then show ?thesis by (intro m [OF e] edit_step.add_peer) (simp_all add: peerKeyOf_def token_key_def)
  qed simp
  show "edits um env n n'" if "recordPendingPeer env h n = n'"
  proof (cases "n' = n")
    case False
    with that obtain t where t: "ParseToken um (he_Token h) = Inr t"
        and e: "snd (mutateConfig env (edit_recordPendingPeer um (hex_encode (nt_ID t)) (he_NodeName h) (he_Token h) (ne_now env)) n) = n'"
      by (auto simp: recordPendingPeer_def um Let_def split: sum.splits if_splits)
    from e obtain r where "mutateConfig env (edit_recordPendingPeer um (hex_encode (nt_ID t)) (he_NodeName h) (he_Token h) (ne_now env)) n = (r, n')"
      by (metis prod.collapse)
    then show ?thesis by (rule m) (rule edit_step.pending [OF _], simp_all add: token_key_def t)
  qed simp
  show "RemovePeer env ref n = (r, n') \<Longrightarrow> edits um env n n'"
    by (auto simp: RemovePeer_def um elim!: m intro: edit_step.remove_peer)
  show "i \<notin> sh_ID ` set (co_Shares (nd_cfg n)) \<Longrightarrow> AddShare env i path name permission approval n = (r, n') \<Longrightarrow> edits um env n n'"
    by (auto simp: AddShare_def elim!: m intro: edit_step.add_share split: if_splits)
  show "RemoveShare env ref n = (r, n') \<Longrightarrow> edits um env n n'"
    by (auto simp: RemoveShare_def elim!: m intro: edit_step.remove_share split: sum.splits)
  show "updateShare env ref ch n = (r, n') \<Longrightarrow> edits um env n n'"
    by (auto simp: updateShare_def elim!: m intro: edit_step.update_share split: sum.splits if_splits)
  show "AddSubscription env pref sref path mode n = (r, n') \<Longrightarrow> edits um env n n'"
    by (auto simp: AddSubscription_def elim!: m intro: edit_step.add_subscription split: sum.splits if_splits)
  show "RemoveSubscription env pref sref n = (r, n') \<Longrightarrow> edits um env n n'"
    by (auto simp: RemoveSubscription_def elim!: m intro: edit_step.remove_subscription split: prod.splits)
  show "PauseSubscription env pref sref paused n = (r, n') \<Longrightarrow> edits um env n n'"
    by (auto simp: PauseSubscription_def elim!: m intro: edit_step.pause split: prod.splits)
  show "SetSafety env ref sf n = (r, n') \<Longrightarrow> edits um env n n'"
    by (auto simp: SetSafety_def elim!: m intro: edit_step.safety split: sum.splits if_splits)
  show "RenameNode env name n = (r, n') \<Longrightarrow> edits um env n n'"
    by (auto simp: RenameNode_def elim!: m intro: edit_step.rename_node)
  show "ApprovePendingPeer env ref n = (r, n') \<Longrightarrow> edits um env n n'"
    by (auto simp: ApprovePendingPeer_def um Let_def elim!: m intro: edit_step.approve split: if_splits)
  show "removePendingPeer env key n = (r, n') \<Longrightarrow> edits um env n n'"
    by (auto simp: removePendingPeer_def um elim!: m intro: edit_step.deny)
qed

lemma decide_edits:
  assumes "ne_um env = um" "DecideApproval env i decision n = (r, n')"
  shows "edits um env n n'"
  using assms(2) mutations_edit(5,12,13) [OF assms(1)]
  by (auto simp: DecideApproval_def SetShareAccess_def split: if_splits option.splits)

lemma edits_ok: "edits um env n n' \<Longrightarrow> node_ok um n \<Longrightarrow> ne_um env = um \<Longrightarrow> ids_apart (nd_cfg n') \<Longrightarrow> node_ok um n'"
  unfolding edits_def using mutateConfig_ok by blast

text \<open>Sessions end, and shares are taken off them.\<close>

lemma node_ok_cong: "conn m = conn n \<Longrightarrow> core m = core n \<Longrightarrow> node_ok um m = node_ok um n"
  using conn_ok_cong [of m n] all_allowed_cong [of m n] by (simp add: node_ok_def core_def conn_def)

lemma shrinks_ok:
  assumes "node_ok um n" "shrinks n m" "core m = core n"
  shows "node_ok um m"
proof -
  have c: "conn_ok n" using assms(1) by (simp add: node_ok_def)
  have "offered_entry (nd_cfg n) m k i r d \<or> subscribed_entry (nd_cfg n) m k i r d"
    if e: "fmlookup (nd_active m) (k, i) = Some (r, d)" for k i r d
  proof -
    have e': "fmlookup (nd_active n) (k, i) = Some (r, d)" "fmlookup (nd_offered m) k = fmlookup (nd_offered n) k"
      using assms(2) e c by (auto simp: shrinks_def)
    then have "offeredPermission k i m = offeredPermission k i n" by (simp add: offeredPermission_def)
    moreover have "granted_to m s k = granted_to n s k" for s using assms(3) by (simp add: granted_to_def core_def)
    ultimately show ?thesis using assms(1) e'(1) by (auto simp: node_ok_def all_allowed_def offered_entry_def subscribed_entry_def)
  qed
  moreover have "fset (fmdom (nd_peers m)) \<subseteq> fset (fmdom (nd_peers n))" using assms(2) by (auto simp: shrinks_def)
  ultimately show ?thesis using assms c core_fields [OF assms(3)] by (auto simp: node_ok_def all_allowed_def shrinks_def)
qed

lemma end_session_ok: "node_ok um n \<Longrightarrow> node_ok um (end_session key n)"
proof -
  have "shrinks n (end_session key n)"
    by (auto simp: shrinks_def conn_ok_def end_session_def split: if_splits)
  then show "node_ok um n \<Longrightarrow> node_ok um (end_session key n)" by (rule shrinks_ok [rotated]) simp_all
qed

lemma neuter_ok: "node_ok um n \<Longrightarrow> node_ok um (neuterShare key i n)"
proof -
  have "shrinks n (neuterShare key i n)"
    by (auto simp: shrinks_def conn_ok_def neuterShare_def split: if_splits) blast+
  then show "node_ok um n \<Longrightarrow> node_ok um (neuterShare key i n)" by (rule shrinks_ok [rotated]) simp_all
qed

lemma adopt_ok: "node_ok um n \<Longrightarrow> node_ok um (adopt key n)"
proof (cases "fmlookup (nd_peers n) key = None \<or> key \<in> set (nd_live n)")
  case False
  assume ok: "node_ok um n"
  let ?m = "n\<lparr>nd_live := key # nd_live n\<rparr>"
  have "core ?m = core n" "nd_offered ?m = nd_offered n" by simp_all
  note e = entries_cong [OF this]
  have "key |\<in>| fmdom (nd_peers n)" using False by (auto intro: fmdomI)
  then have "node_ok um ?m" using ok core_fields [of ?m n] unfolding node_ok_def all_allowed_def e by (auto simp: conn_ok_def)
  then show ?thesis using False by (auto simp: adopt_def node_ok_cong [of "requestSubscriptions key (sendShareList key ?m)" ?m])
qed (simp add: adopt_def)

text \<open>A share is put on a session.\<close>

lemma grant_ok:
  assumes "node_ok um n" "offered_entry (nd_cfg n) n key i r d \<or> subscribed_entry (nd_cfg n) n key i r d"
  shows "node_ok um (grantShare key i r d n)"
proof -
  have "core (grantShare key i r d n) = core n" "nd_offered (grantShare key i r d n) = nd_offered n"
    by (rule core_simps) (simp add: grantShare_def)
  note e = entries_cong [OF this]
  show ?thesis using assms core_fields [of "grantShare key i r d n" n] unfolding node_ok_def all_allowed_def e
    by (auto simp: grantShare_def conn_ok_def) blast+
qed

lemma more_jobs_ok: "node_ok um n \<Longrightarrow> node_ok um (n\<lparr>nd_jobs := nd_jobs n @ [j]\<rparr>)"
  by (auto simp: node_ok_def all_allowed_def conn_ok_def offered_entry_def subscribed_entry_def granted_to_def
      decisions_def offeredPermission_def) blast+

lemma request_ok:
  assumes ok: "node_ok um n" and p: "provisionShareForRequest key shareID n = (b, n')"
  shows "node_ok um n'"
proof (cases "findShareIndex (nd_cfg n) shareID")
  case None
  then show ?thesis using assms by (simp add: provisionShareForRequest_def)
next
  case (Some i)
  let ?s = "co_Shares (nd_cfg n) ! i"
  let ?m = "n\<lparr>nd_jobs := nd_jobs n @ [(key, shareID, request_access ?s key, True)]\<rparr>"
  have s: "?s \<in> set (co_Shares (nd_cfg n))" "sh_ID ?s = shareID"
    using Some index_where_Some [of _ "co_Shares (nd_cfg n)" i] by (auto simp: findShareIndex_def)
  have m: "node_ok um ?m" using more_jobs_ok [OF ok] .
  show ?thesis
  proof (cases "request_access ?s key = AccessGranted")
    case True
    have "offered_entry (nd_cfg ?m) ?m key shareID (sh_Path ?s) (offeredDirection ?s)"
      using s True by (auto simp: offered_entry_def granted_to_def decisions_def)
    then have "node_ok um (grantShare key shareID (sh_Path ?s) (offeredDirection ?s) ?m)" using grant_ok [OF m] by blast
    moreover have "n' = grantShare key shareID (sh_Path ?s) (offeredDirection ?s) ?m"
      using p Some True by (simp add: provisionShareForRequest_def Let_def) (auto simp: grantShare_def)
    ultimately show ?thesis by simp
  qed (use p Some m in \<open>auto simp: provisionShareForRequest_def Let_def\<close>)
qed

lemma update_ok:
  assumes ok: "node_ok um n" and p: "provisionAccessUpdate key shareID access n = (b, n')"
  shows "node_ok um n'"
proof (cases "find (\<lambda>s. su_Peer s = key \<and> su_ShareID s = shareID) (co_Subscriptions (nd_cfg n))")
  case None
  then show ?thesis using assms by (simp add: provisionAccessUpdate_def)
next
  case (Some u)
  let ?m = "n\<lparr>nd_subAccess := fmupd (key, shareID) access (nd_subAccess n)\<rparr>"
  have u: "u \<in> set (co_Subscriptions (nd_cfg n))" "su_Peer u = key" "su_ShareID u = shareID"
    using Some by (auto simp: find_Some_iff)
  have m: "node_ok um ?m" using ok node_ok_cong [of ?m n] by simp
  have "node_ok um (grantShare key shareID (su_LocalPath u) (subscriberDirection (offeredPermission key shareID ?m) (su_Mode u)) ?m)"
    if "\<not> su_Paused u" using u that by (intro grant_ok [OF m]) (auto simp: subscribed_entry_def)
  then show ?thesis using p Some m neuter_ok [OF m] by (auto simp: provisionAccessUpdate_def Let_def split: if_splits)
qed

text \<open>A new share list sets the direction of every running subscription.\<close>

lemma refresh_core [simp]: "core (refresh_one key u n) = core n"
  by (simp add: refresh_one_def Let_def split: option.split prod.split)

lemma refresh_one_conn:
  assumes "conn_ok n"
    and dir: "dir = subscriberDirection (offeredPermission key (su_ShareID u) n) (su_Mode u)"
  shows "nd_live (refresh_one key u n) = nd_live n \<and> nd_peers (refresh_one key u n) = nd_peers n \<and>
    nd_offered (refresh_one key u n) = nd_offered n \<and>
    fmlookup (nd_active (refresh_one key u n)) (k, i) =
      (case fmlookup (nd_active n) (k, i) of None \<Rightarrow> None
       | Some (r, d) \<Rightarrow> if (k, i) = (key, su_ShareID u) \<and> d \<noteq> dir then Some (su_LocalPath u, dir) else Some (r, d))"
proof (cases "fmlookup (nd_active n) (key, su_ShareID u)")
  case (Some e)
  then have "key \<in> set (nd_live n)" using assms(1) unfolding conn_ok_def by blast
  then show ?thesis using Some
    by (auto simp: refresh_one_def reconfigureShare_def startSyncing_def Let_def dir split: option.splits prod.splits)
qed (auto simp: refresh_one_def split: option.splits)

lemma refresh_fold:
  assumes "node_ok um n0" "core n = core n0"
    and "conn_ok n" "fset (fmdom (nd_peers n)) \<subseteq> set (peerKeys um (nd_cfg n))"
    and "\<And>u. u \<in> set us \<Longrightarrow> u \<in> set (co_Subscriptions (nd_cfg n)) \<and> su_Peer u = key \<and> \<not> su_Paused u"
    and "\<And>k i r d. fmlookup (nd_active n) (k, i) = Some (r, d) \<Longrightarrow>
      offered_entry (nd_cfg n) n k i r d \<or> subscribed_entry (nd_cfg n) n k i r d \<or>
      (\<exists>u \<in> set us. k = key \<and> su_ShareID u = i \<and> r = su_LocalPath u)"
  shows "node_ok um (fold (refresh_one key) us n)"
  using assms
proof (induction us arbitrary: n)
  case Nil
  then show ?case using core_fields [OF Nil.prems(2)] by (auto simp: node_ok_def all_allowed_def)
next
  case (Cons u us)
  let ?m = "refresh_one key u n"
  let ?dir = "subscriberDirection (offeredPermission key (su_ShareID u) n) (su_Mode u)"
  note f = refresh_one_conn [OF Cons.prems(3) refl, of key u]
  have e: "offered_entry cfg ?m = offered_entry cfg n" "subscribed_entry cfg ?m = subscribed_entry cfg n" for cfg
    by (rule entries_cong; use f in simp)+
  have c: "nd_cfg ?m = nd_cfg n" using core_fields(1) [OF refresh_core] .
  have u: "u \<in> set (co_Subscriptions (nd_cfg n))" "su_Peer u = key" "\<not> su_Paused u" using Cons.prems(5) by simp_all
  have "node_ok um (fold (refresh_one key) us ?m)"
  proof (rule Cons.IH [OF Cons.prems(1)])
    show "core ?m = core n0" using Cons.prems(2) by simp
    show "conn_ok ?m" using Cons.prems(3) f unfolding conn_ok_def by (fastforce split: option.splits prod.splits if_splits)
    show "fset (fmdom (nd_peers ?m)) \<subseteq> set (peerKeys um (nd_cfg ?m))" using Cons.prems(4) f by (simp add: c)
    show "v \<in> set (co_Subscriptions (nd_cfg ?m)) \<and> su_Peer v = key \<and> \<not> su_Paused v" if "v \<in> set us" for v
      using Cons.prems(5) that by (simp add: c)
    fix k i r d assume l: "fmlookup (nd_active ?m) (k, i) = Some (r, d)"
    have here: "subscribed_entry (nd_cfg n) n key (su_ShareID u) (su_LocalPath u) ?dir"
      using u by (auto simp: subscribed_entry_def)
    from l f obtain r0 d0 where l0: "fmlookup (nd_active n) (k, i) = Some (r0, d0)"
        and d: "(k, i) = (key, su_ShareID u) \<and> r = su_LocalPath u \<and> d = ?dir \<or>
          (r, d) = (r0, d0) \<and> ((k, i) = (key, su_ShareID u) \<longrightarrow> d0 = ?dir)"
      by (auto split: option.splits prod.splits if_splits)
    show "offered_entry (nd_cfg ?m) ?m k i r d \<or> subscribed_entry (nd_cfg ?m) ?m k i r d \<or>
        (\<exists>u \<in> set us. k = key \<and> su_ShareID u = i \<and> r = su_LocalPath u)"
      using d Cons.prems(6) [OF l0] here unfolding e c by auto
  qed
  then show ?case by simp
qed

lemma share_list_ok:
  assumes "node_ok um n"
  shows "node_ok um (refreshSubscriptionDirections key (n\<lparr>nd_offered := fmupd key shares (nd_offered n)\<rparr>))"
  unfolding refreshSubscriptionDirections_def
proof (rule refresh_fold [OF assms])
  let ?m = "n\<lparr>nd_offered := fmupd key shares (nd_offered n)\<rparr>"
  show "conn_ok ?m" "fset (fmdom (nd_peers ?m)) \<subseteq> set (peerKeys um (nd_cfg ?m))"
    using assms by (simp_all add: node_ok_def conn_ok_def)
  fix k i r d assume "fmlookup (nd_active ?m) (k, i) = Some (r, d)"
  then have "offered_entry (nd_cfg n) n k i r d \<or> subscribed_entry (nd_cfg n) n k i r d"
    using assms by (simp add: node_ok_def all_allowed_def)
  moreover have "offered_entry (nd_cfg n) ?m k i r d = offered_entry (nd_cfg n) n k i r d"
    by (simp add: offered_entry_def granted_to_def decisions_def)
  moreover have "k \<noteq> key \<Longrightarrow> offeredPermission k i ?m = offeredPermission k i n" by (simp add: offeredPermission_def)
  ultimately show "offered_entry (nd_cfg ?m) ?m k i r d \<or> subscribed_entry (nd_cfg ?m) ?m k i r d \<or>
      (\<exists>u \<in> set (filter (\<lambda>s. su_Peer s = key \<and> \<not> su_Paused s) (co_Subscriptions (nd_cfg ?m))).
         k = key \<and> su_ShareID u = i \<and> r = su_LocalPath u)"
    by (cases "k = key") (auto simp: subscribed_entry_def)
qed auto

lemma handleControl_ok: "node_ok um n \<Longrightarrow> handleControl key msg n = (r, n') \<Longrightarrow> node_ok um n'"
proof -
  assume ok: "node_ok um n"
  have f: "node_ok um (finishAccessUpdate key i m) = node_ok um m" for i m
    by (rule node_ok_cong) (simp_all add: finishAccessUpdate_def)
  show "handleControl key msg n = (r, n') \<Longrightarrow> node_ok um n'"
    using ok share_list_ok [OF ok] request_ok [OF ok] update_ok [OF ok]
    by (auto simp: handleControl_def f split: message.splits if_splits prod.splits bool.splits)
qed

text \<open>The second half of a subscribe request.\<close>

lemma finish_core:
  "\<exists>m. edits um env n m \<and> conn (finishSubscribeRequest env job n) = conn m \<and> core (finishSubscribeRequest env job n) = core m"
proof -
  obtain key i a cur where job: "job = (key, i, a, cur)" by (cases job)
  obtain r m where r: "mutateConfig env (edit_recordAccess i key a) n = (r, m)" by fastforce
  have "edits um env n m" by (rule editsI [OF r]) (rule edit_step.record_access)
  then show ?thesis
    by (cases "r = ok") (auto simp: finishSubscribeRequest_def job r Let_def intro: exI [of _ n] exI [of _ m])
qed

lemma recorded_access_share:
  assumes "cfg_ok um cfg" "s \<in> set (co_Shares cfg)"
  shows "recorded_access cfg (sh_ID s) key = access_of s key"
proof (cases "findShareIndex cfg (sh_ID s)")
  case None
  then show ?thesis using assms(2) by (auto simp: findShareIndex_def index_where_None)
next
  case (Some j)
  then have "j < length (co_Shares cfg)" "sh_ID (co_Shares cfg ! j) = sh_ID s"
    using index_where_Some [of _ "co_Shares cfg" j] by (auto simp: findShareIndex_def)
  then have "co_Shares cfg ! j = s" using share_by_id_mem [OF assms(1)] assms(2) by (metis nth_mem option.inject)
  then show ?thesis by (simp add: recorded_access_def Some)
qed

lemma run_job_ok:
  assumes ok: "node_ok um n" and um: "ne_um env = um" and apart: "ids_apart (nd_cfg (run_job env job n))"
  shows "node_ok um (run_job env job n)"
proof -
  obtain key i a cur where job: "job = (key, i, a, cur)" by (cases job)
  let ?n1 = "finishSubscribeRequest env job n"
  let ?n2 = "run_job env job n"
  have cfg: "nd_cfg ?n2 = nd_cfg ?n1" "nd_disk ?n2 = nd_disk ?n1" "conn ?n2 = conn ?n1"
    by (simp_all add: run_job_def Let_def job)
  obtain m where m: "edits um env n m" "conn ?n1 = conn m" "core ?n1 = core m" using finish_core by blast
  then have "node_ok um m" using edits_ok [OF m(1) ok um] apart cfg(1) core_fields(1) [OF m(3)] by simp
  then have n1: "node_ok um ?n1" using node_ok_cong [OF m(2,3)] by simp
  have jobs: "x \<in> decisions ?n2 \<or> x = (key, i, a)" if "x \<in> decisions ?n1" for x
  proof -
    from that obtain j where j: "j \<in> set (nd_jobs ?n1)" "x = (case j of (k, i, a, cur) \<Rightarrow> (k, i, a))" by (auto simp: decisions_def)
    show ?thesis
    proof (cases "j = job")
      case False
      then have "j \<in> set (nd_jobs ?n2)" using j by (auto simp: run_job_def Let_def job)
      then show ?thesis using j(2) by (auto simp: decisions_def)
    qed (use j job in simp)
  qed
  have un: "set (nd_unsaved ?n1) \<subseteq> set (nd_unsaved ?n2)"
      "a = AccessGranted \<Longrightarrow> recorded_access (nd_cfg ?n1) i key = AccessGranted \<or> (key, i) \<in> set (nd_unsaved ?n2)"
    by (auto simp: run_job_def Let_def job)
  have "granted_to ?n2 s k" if s: "s \<in> set (co_Shares (nd_cfg ?n1))" and g: "granted_to ?n1 s k" for s k
  proof (cases "(k, sh_ID s, AccessGranted) = (key, i, a)")
    case True
    have "recorded_access (nd_cfg ?n1) (sh_ID s) k = access_of s k"
      using recorded_access_share [OF _ s, of um k] n1 unfolding node_ok_def by blast
    then show ?thesis using True un(2) by (auto simp: granted_to_def)
  qed (use g jobs un(1) in \<open>auto simp: granted_to_def\<close>)
  moreover have "nd_active ?n2 = nd_active ?n1" "nd_offered ?n2 = nd_offered ?n1" "nd_peers ?n2 = nd_peers ?n1"
    using cfg(3) by (simp_all add: conn_def)
  ultimately have "all_allowed (nd_cfg ?n1) ?n2" using n1
    by (simp add: node_ok_def all_allowed_def offered_entry_def subscribed_entry_def offeredPermission_def) blast
  then show ?thesis using n1 cfg conn_ok_cong [OF cfg(3)] by (simp add: node_ok_def conn_def)
qed

lemma node_step_kinds:
  assumes "node_step um n n'"
  shows "(\<exists>env. ne_um env = um \<and> edits um env n n') \<or> (\<exists>key msg r. handleControl key msg n = (r, n')) \<or>
    (\<exists>env job. ne_um env = um \<and> n' = run_job env job n) \<or> (\<exists>key. n' = adopt key n \<or> n' = end_session key n)"
  using assms
proof (cases rule: node_step.cases)
  case (AddPeer env name tok r)
  then show ?thesis using mutations_edit(1) [OF AddPeer(1) AddPeer(2)] by blast
next
  case (RemovePeer env ref r)
  then show ?thesis using mutations_edit(2) [OF RemovePeer(1) RemovePeer(2)] by blast
next
  case (AddShare env i path name permission approval r)
  then show ?thesis using mutations_edit(3) [OF AddShare(1) AddShare(2) AddShare(3)] by blast
next
  case (RemoveShare env ref r)
  then show ?thesis using mutations_edit(4) [OF RemoveShare(1) RemoveShare(2)] by blast
next
  case (UpdateShare env ref ch r)
  then show ?thesis using mutations_edit(5) [OF UpdateShare(1) UpdateShare(2)] by blast
next
  case (AddSubscription env pref sref path mode r)
  then show ?thesis using mutations_edit(6) [OF AddSubscription(1) AddSubscription(2)] by blast
next
  case (RemoveSubscription env pref sref r)
  then show ?thesis using mutations_edit(7) [OF RemoveSubscription(1) RemoveSubscription(2)] by blast
next
  case (PauseSubscription env pref sref paused r)
  then show ?thesis using mutations_edit(8) [OF PauseSubscription(1) PauseSubscription(2)] by blast
next
  case (SetSafety env ref sf r)
  then show ?thesis using mutations_edit(9) [OF SetSafety(1) SetSafety(2)] by blast
next
  case (RenameNode env name r)
  then show ?thesis using mutations_edit(10) [OF RenameNode(1) RenameNode(2)] by blast
next
  case (PendingPeer env h)
  then have "edits um env n n'" using mutations_edit(11) [of env um h n] by simp
  then show ?thesis using PendingPeer by blast
next
  case (Approve env ref r)
  then show ?thesis using mutations_edit(12) [OF Approve(1) Approve(2)] by blast
next
  case (Decide env i decision r)
  then show ?thesis using decide_edits [OF Decide(1,2)] by blast
qed blast+

lemma node_step_ok:
  assumes "node_step um n n'" "node_ok um n" "ids_apart (nd_cfg n')"
  shows "node_ok um n'"
  using node_step_kinds [OF assms(1)]
proof (elim disjE exE conjE)
  show "node_ok um n'" if "ne_um env = um" "edits um env n n'" for env
    using edits_ok [OF that(2) assms(2) that(1) assms(3)] .
  show "node_ok um n'" if "handleControl key msg n = (r, n')" for key msg r
    using handleControl_ok [OF assms(2) that] .
  show "node_ok um n'" if "ne_um env = um" "n' = run_job env job n" for env job
    using run_job_ok [OF assms(2) that(1), of job] assms(3) that(2) by simp
  show "node_ok um n'" if "n' = adopt key n" for key using adopt_ok [OF assms(2)] that by simp
  show "node_ok um n'" if "n' = end_session key n" for key using end_session_ok [OF assms(2)] that by simp
qed

lemma node_run_ok: "node_run um n m \<Longrightarrow> node_ok um n \<Longrightarrow> node_ok um m"
  by (induction rule: node_run.induct) (auto intro: node_step_ok)

section \<open>Properties\<close>

text \<open>A node as \<open>Open\<close> leaves it: its configuration loaded, no session yet.\<close>

definition started :: "uncbor \<Rightarrow> node \<Rightarrow> bool" where
  "started um n \<longleftrightarrow> Load_doc (nd_disk n) = Inr (nd_cfg n) \<and> cfg_ok um (nd_cfg n) \<and> nd_live n = [] \<and> nd_active n = fmempty \<and>
     fset (fmdom (nd_peers n)) \<subseteq> set (peerKeys um (nd_cfg n))"

lemma started_ok: "started um n \<Longrightarrow> node_ok um n"
  by (simp add: started_def node_ok_def conn_ok_def all_allowed_def)


text \<open>A node with one open share and one peer, which connects and asks for it.\<close>

definition ex_key :: string where "ex_key = hex_encode (replicate 32 7)"

definition ex_share :: Share where
  "ex_share = \<lparr>sh_ID = ''0123456789abcdef'', sh_Name = ''docs'', sh_Path = ''/a/code'', sh_Permission = PermissionReadWrite,
     sh_ApprovalRequired = False, sh_Access = fmempty, sh_Safety = zero_Safety\<rparr>"

definition ex_cfg :: Config where
  "ex_cfg = Default\<lparr>co_Peers := [\<lparr>pe_Name = ''p'', pe_Token = TokenPrefix @ base64_encode (replicate 32 7), pe_Enabled = True\<rparr>],
     co_Shares := [ex_share]\<rparr>"

definition ex_node :: node where
  "ex_node = \<lparr>nd_cfg = ex_cfg, nd_disk = configToDoc ex_cfg, nd_self = [], nd_peers = fmupd ex_key ''p'' fmempty, nd_live = [],
     nd_active = fmempty, nd_subAccess = fmempty, nd_offered = fmempty, nd_watch = fmempty, nd_guard = Load empty_store, nd_jobs = [],
     nd_unsaved = [], nd_out = [], nd_syncs = [], nd_rescans = [], nd_tokenName = []\<rparr>"

lemma ex_peerKey: "peerKeyOf ex_uncbor \<lparr>pe_Name = a, pe_Token = TokenPrefix @ base64_encode (replicate 32 7), pe_Enabled = b\<rparr> = Some ex_key"
  by (simp add: peerKeyOf_def token_key_def ParseToken_def base64_round_trip has_prefix_iff ex_uncbor_def ed25519_PublicKeySize_def ex_key_def)

lemma ex_cfg_valid: "Config_Validate ex_cfg = []"
  by code_simp

lemma ex_started: "started ex_uncbor ex_node"
proof -
  have "settled ex_cfg" by (simp add: settled_def ex_cfg_def Default_def DefaultAPIAddr_def DefaultTrashRetentionDays_def DefaultRescanIntervalSeconds_def)
  then have "Load_doc (configToDoc ex_cfg) = Inr ex_cfg"
    by (simp add: Load_doc_def doc_round_trip settled_defaults ex_cfg_valid)
  moreover have "peerKeys ex_uncbor ex_cfg = [ex_key]"
    by (simp add: peerKeys_def ex_cfg_def ex_peerKey List.map_filter_def)
  moreover have "cfg_ok ex_uncbor ex_cfg"
    by (simp add: cfg_ok_def ex_cfg_def ex_peerKey Default_def List.map_filter_def)
  ultimately show ?thesis by (simp add: started_def ex_node_def)
qed

definition ex_connected :: node where
  "ex_connected = adopt ex_key ex_node"

lemma ex_connected:
  "ex_key \<in> set (nd_live ex_connected)" "nd_cfg ex_connected = ex_cfg" "nd_disk ex_connected = configToDoc ex_cfg"
  "nd_jobs ex_connected = []" "fmlookup (nd_active ex_connected) x = None"
proof -
  let ?m = "ex_node\<lparr>nd_live := [ex_key]\<rparr>"
  have a: "ex_connected = requestSubscriptions ex_key (sendShareList ex_key ?m)"
    by (simp add: ex_connected_def adopt_def) (simp add: ex_node_def)
  have "conn ex_connected = conn ?m" "core ex_connected = core ?m" unfolding a by (simp_all only: core_announce core_broadcast)
  then show "ex_key \<in> set (nd_live ex_connected)" "nd_cfg ex_connected = ex_cfg" "nd_disk ex_connected = configToDoc ex_cfg"
      "nd_jobs ex_connected = []" "fmlookup (nd_active ex_connected) x = None"
    by (simp_all add: conn_def core_def ex_node_def decisions_def)
qed

lemma ex_find: "findShareIndex ex_cfg (sh_ID ex_share) = Some 0" "co_Shares ex_cfg ! 0 = ex_share" "ids_apart ex_cfg"
  by (simp_all add: findShareIndex_def ex_cfg_def ids_apart_def Default_def)

lemma ex_share_id: "ValidateMessage (MSubscribeRequest (sh_ID ex_share)) = ok"
  by code_simp

definition ex_asked :: node where
  "ex_asked = snd (handleControl ex_key (MSubscribeRequest (sh_ID ex_share)) ex_connected)"

lemma ex_asked:
  "handleControl ex_key (MSubscribeRequest (sh_ID ex_share)) ex_connected = (ControlHandled, ex_asked)"
  "nd_cfg ex_asked = ex_cfg" "nd_jobs ex_asked = [(ex_key, sh_ID ex_share, AccessGranted, True)]"
  "fmlookup (nd_active ex_asked) (ex_key, sh_ID ex_share) = Some (sh_Path ex_share, offeredDirection ex_share)"
  using ex_connected(1,4)
  by (simp_all add: ex_asked_def handleControl_def ex_share_id provisionShareForRequest_def ex_connected(2) ex_find
      request_access_def grantShare_def Let_def) (simp_all add: ex_share_def ex_connected)

lemma ex_node_run: "node_run ex_uncbor ex_node ex_asked"
proof (rule node_next)
  have "node_step ex_uncbor ex_node ex_connected" unfolding ex_connected_def by (rule node_step.Adopt)
  then show "node_run ex_uncbor ex_node ex_connected"
    by (rule node_next [OF node_start]) (simp add: ex_connected ex_find)
  show "node_step ex_uncbor ex_connected ex_asked" by (rule node_step.Message [OF ex_connected(1) ex_asked(1)])
qed (simp add: ex_asked ex_find)


definition saved :: "uncbor \<Rightarrow> node \<Rightarrow> bool" where
  "saved um n \<longleftrightarrow> Load_doc (nd_disk n) = Inr (nd_cfg n) \<and> cfg_ok um (nd_cfg n)"

lemma mutateConfig_cases:
  assumes "mutateConfig env f n = (r, n')"
  obtains "r \<noteq> ok" "n' = n" | new doc where "r = ok" "f (nd_cfg n) = Inr new" "Save_doc new = Inr doc" "nd_cfg n' = new" "nd_disk n' = doc"
proof (cases "r = ok")
  case True
  then obtain new doc where f: "f (nd_cfg n) = Inr new" and d: "Save_doc new = Inr doc"
      and n': "n' = applyConfigChange env (nd_cfg n) new (n\<lparr>nd_cfg := new, nd_disk := doc\<rparr>)"
    using assms by (auto simp: mutateConfig_def split: sum.splits if_splits)
  have "nd_cfg n' = new" "nd_disk n' = doc"
    using core_fields [OF core_applyConfigChange [of env "nd_cfg n" new "n\<lparr>nd_cfg := new, nd_disk := doc\<rparr>"]] by (simp_all add: n')
  then show ?thesis using that True f d by blast
next
  case False
  then have "n' = n" using assms by (auto simp: mutateConfig_def split: sum.splits if_splits)
  then show ?thesis using that False by blast
qed

lemma edits_saved:
  assumes "edits um env n n'" "saved um n"
  shows "saved um n'"
proof (cases "n' = n")
  case False
  then obtain f r where m: "mutateConfig env f n = (r, n')" and e: "\<And>cfg'. f (nd_cfg n) = Inr cfg' \<Longrightarrow> edit_step um (nd_cfg n) cfg'"
    using assms(1) by (auto simp: edits_def)
  from m show ?thesis
  proof (cases rule: mutateConfig_cases)
    case (2 new doc)
    note st = e [OF 2(2)]
    have "Load_doc doc = Inr new" using load_after_edit [OF _ st 2(3)] assms(2) unfolding saved_def by blast
    then show ?thesis using edit_step_ok [OF st] assms(2) 2 by (simp add: saved_def)
  qed (use False in simp)
qed (use assms(2) in simp)

lemma saved_cong: "core m = core n \<Longrightarrow> saved um m = saved um n"
  by (simp add: saved_def core_def)

lemma handleControl_saved: "handleControl key msg n = (r, n') \<Longrightarrow> nd_cfg n' = nd_cfg n \<and> nd_disk n' = nd_disk n"
proof -
  have f: "core (refreshSubscriptionDirections key (n\<lparr>nd_offered := x\<rparr>)) = core n" for x
    by (simp add: refreshSubscriptionDirections_def fold_keeps)
  have p: "provisionShareForRequest key i n = (b, m) \<Longrightarrow> nd_cfg m = nd_cfg n \<and> nd_disk m = nd_disk n" for i b m
    by (auto simp: provisionShareForRequest_def Let_def grantShare_def split: option.splits if_splits)
  have a: "provisionAccessUpdate key i x n = (b, m) \<Longrightarrow> nd_cfg m = nd_cfg n \<and> nd_disk m = nd_disk n" for i x b m
    by (auto simp: provisionAccessUpdate_def Let_def grantShare_def neuterShare_def split: option.splits if_splits)
  have u: "nd_cfg (finishAccessUpdate key i m) = nd_cfg m" "nd_disk (finishAccessUpdate key i m) = nd_disk m" for i m
    by (simp_all add: finishAccessUpdate_def startSyncing_def)
  show "handleControl key msg n = (r, n') \<Longrightarrow> nd_cfg n' = nd_cfg n \<and> nd_disk n' = nd_disk n"
    using core_fields [OF f] p a
    by (auto simp: handleControl_def u split: message.splits if_splits prod.splits bool.splits)
qed

lemma node_step_saved:
  assumes "node_step um n n'" "saved um n"
  shows "saved um n'"
  using node_step_kinds [OF assms(1)]
proof (elim disjE exE conjE)
  show "saved um n'" if "edits um env n n'" for env using edits_saved [OF that assms(2)] .
  show "saved um n'" if "handleControl key msg n = (r, n')" for key msg r
    using handleControl_saved [OF that] assms(2) by (simp add: saved_def)
  show "saved um n'" if "n' = run_job env job n" for env job
  proof -
    obtain m where m: "edits um env n m" "core (finishSubscribeRequest env job n) = core m" using finish_core by blast
    have "nd_cfg n' = nd_cfg (finishSubscribeRequest env job n)" "nd_disk n' = nd_disk (finishSubscribeRequest env job n)"
      by (simp_all add: that run_job_def Let_def split: prod.split)
    then show ?thesis using edits_saved [OF m(1) assms(2)] saved_cong [OF m(2)] by (simp add: saved_def)
  qed
  show "saved um n'" if "n' = adopt key n" for key
    using assms(2) saved_cong [of n' n] that by (simp add: adopt_def)
  show "saved um n'" if "n' = end_session key n" for key using assms(2) saved_cong [of n' n] that by simp
qed

interpretation node_config: kept_by_steps "node_step um" "saved um" for um
  by unfold_locales (rule node_step_saved)

text \<open>
  C16. What runs is what is on disk, and it is sound. After any sequence of mutations,
  approvals, messages, connections and delayed answers, whatever fails on the way, loading
  the configuration document would give exactly the configuration the node is running; it
  passes validation; no peer is configured twice, and none is both configured and waiting
  for approval; the queue of unknown peers never exceeds its bound; no share id is listed
  twice and no share of a peer is subscribed to twice.
\<close>

theorem config_matches_disk:
  assumes "started um n0" "(node_step um)\<^sup>*\<^sup>* n0 n"
  shows "Load_doc (nd_disk n) = Inr (nd_cfg n) \<and> Config_Validate (nd_cfg n) = [] \<and>
    distinct (peerKeys um (nd_cfg n)) \<and>
    (\<forall>p q k. p \<in> set (co_Peers (nd_cfg n)) \<longrightarrow> q \<in> set (co_PendingPeers (nd_cfg n)) \<longrightarrow>
       peerKeyOf um p = Some k \<longrightarrow> pendingPeerKey um q \<noteq> Some k) \<and>
    length (co_PendingPeers (nd_cfg n)) \<le> maxPendingPeers \<and>
    distinct (map sh_ID (co_Shares (nd_cfg n))) \<and>
    distinct (map (\<lambda>s. (su_Peer s, su_ShareID s)) (co_Subscriptions (nd_cfg n)))"
proof -
  have "saved um n" using node_config.reachable [OF assms(2)] assms(1) by (simp add: started_def saved_def)
  moreover from this have "Config_Validate (nd_cfg n) = []" by (auto simp: saved_def Load_doc_def Let_def split: if_splits)
  moreover from calculation have "\<forall>p q k. p \<in> set (co_Peers (nd_cfg n)) \<longrightarrow> q \<in> set (co_PendingPeers (nd_cfg n)) \<longrightarrow>
       peerKeyOf um p = Some k \<longrightarrow> pendingPeerKey um q \<noteq> Some k"
    unfolding saved_def cfg_ok_def by (metis disjoint_iff mem_map_filter)
  ultimately show ?thesis by (simp add: saved_def cfg_ok_def peerKeys_def)
qed

theorem config_matches_disk_witness:
  "Load_doc (nd_disk ex_connected) = Inr ex_cfg \<and> Config_Validate ex_cfg = []"
proof -
  have "node_step ex_uncbor ex_node ex_connected" unfolding ex_connected_def by (rule node_step.Adopt)
  then show ?thesis using config_matches_disk [OF ex_started, of ex_connected] r_into_rtranclp [of "node_step ex_uncbor"]
    by (simp add: ex_connected(2))
qed

lemma RemovePeer_cfg:
  assumes "RemovePeer env ref n = (ok, n')" "cfg_ok (ne_um env) (nd_cfg n)"
  defines "key \<equiv> peer_ref_or_key env n ref"
  shows "key \<in> set (peerKeys (ne_um env) (nd_cfg n))" "key \<notin> set (peerKeys (ne_um env) (nd_cfg n'))"
    and "u \<in> set (co_Subscriptions (nd_cfg n')) \<Longrightarrow> su_Peer u \<noteq> key \<and> u \<in> set (co_Subscriptions (nd_cfg n))"
    and "s \<in> set (co_Shares (nd_cfg n')) \<Longrightarrow> fmlookup (sh_Access s) key = None"
    and "sh_ID ` set (co_Shares (nd_cfg n')) = sh_ID ` set (co_Shares (nd_cfg n))"
proof -
  have "mutateConfig env (edit_RemovePeer (ne_um env) key) n = (ok, n')" using assms(1) by (simp add: RemovePeer_def key_def)
  then have "edit_RemovePeer (ne_um env) key (nd_cfg n) = Inr (nd_cfg n')" by (cases rule: mutateConfig_cases) auto
  then obtain j where j: "findPeerIndex (ne_um env) (nd_cfg n) key = Some j"
      and c: "nd_cfg n' = (nd_cfg n)\<lparr>co_Peers := del_at j (co_Peers (nd_cfg n)),
                 co_Subscriptions := filter (\<lambda>s. su_Peer s \<noteq> key) (co_Subscriptions (nd_cfg n)),
                 co_Shares := map (\<lambda>s. s\<lparr>sh_Access := fmdrop key (sh_Access s)\<rparr>) (co_Shares (nd_cfg n))\<rparr>"
    by (auto simp: edit_RemovePeer_def split: option.splits)
  show "key \<in> set (peerKeys (ne_um env) (nd_cfg n))"
    using index_where_Some [OF j [unfolded findPeerIndex_def]] nth_mem by (auto simp: peerKeys_def mem_map_filter)
  show "key \<notin> set (peerKeys (ne_um env) (nd_cfg n'))" using removed_key [OF assms(2) j] by (simp add: peerKeys_def c)
  show "u \<in> set (co_Subscriptions (nd_cfg n')) \<Longrightarrow> su_Peer u \<noteq> key \<and> u \<in> set (co_Subscriptions (nd_cfg n))"
    and "s \<in> set (co_Shares (nd_cfg n')) \<Longrightarrow> fmlookup (sh_Access s) key = None" by (auto simp: c)
  show "sh_ID ` set (co_Shares (nd_cfg n')) = sh_ID ` set (co_Shares (nd_cfg n))" by (simp add: c image_image)
qed

text \<open>
  Removing a peer leaves nothing of it. When \<open>RemovePeer\<close> succeeds, no subscription
  names the peer and no share has an access entry for it, so the share list it would be
  sent says it has no access to anything; it is not registered, has no session, and nothing
  is active for it.
\<close>

theorem removed_peer_is_gone:
  assumes "node_ok (ne_um env) n" "ids_apart (nd_cfg n)" "RemovePeer env ref n = (ok, n')"
  defines "key \<equiv> peer_ref_or_key env n ref"
  shows "key \<in> set (peerKeys (ne_um env) (nd_cfg n)) \<and> key \<notin> set (peerKeys (ne_um env) (nd_cfg n')) \<and>
    (\<forall>u. u \<in> set (co_Subscriptions (nd_cfg n')) \<longrightarrow> su_Peer u \<noteq> key) \<and>
    (\<forall>s. s \<in> set (co_Shares (nd_cfg n')) \<longrightarrow> fmlookup (sh_Access s) key = None) \<and>
    (\<forall>e. e \<in> set (buildShareList (nd_cfg n') key) \<longrightarrow> sl_Access e = AccessNone) \<and>
    fmlookup (nd_peers n') key = None \<and> key \<notin> set (nd_live n') \<and> fmlookup (nd_active n') (key, i) = None"
proof -
  have k: "cfg_ok (ne_um env) (nd_cfg n)" using assms(1) by (simp add: node_ok_def)
  note c = RemovePeer_cfg [OF assms(3) k, folded key_def]
  have "ids_apart (nd_cfg n')" unfolding ids_apart_def c(5) using assms(2) c(3) unfolding ids_apart_def by blast
  then have "node_ok (ne_um env) n'" using edits_ok [OF mutations_edit(2) [OF refl assms(3)] assms(1) refl] by simp
  then have p: "fset (fmdom (nd_peers n')) \<subseteq> set (peerKeys (ne_um env) (nd_cfg n'))" "conn_ok n'" by (simp_all add: node_ok_def)
  have np: "key \<notin> fset (fmdom (nd_peers n'))" using p(1) c(2) by blast
  then have nl: "key \<notin> set (nd_live n')" using p(2) by (auto simp: conn_ok_def)
  then have "fmlookup (nd_active n') (key, i) = None" using p(2) unfolding conn_ok_def by (metis not_None_eq)
  moreover have "fmlookup (nd_peers n') key = None" using np by (metis fmdom_notD)
  ultimately show ?thesis using c(1,2,3,4) nl by (auto simp: buildShareList_def access_of_def)
qed

definition ex_env :: node_env where
  "ex_env = \<lparr>ne_um = ex_uncbor, ne_lower = id, ne_saves = True, ne_watchOK = (\<lambda>r. True), ne_holdWrites = (\<lambda>l. True), ne_forgets = True,
     ne_dialable = (\<lambda>a. True), ne_mkdirOK = True, ne_reservedTaken = False, ne_now = 0\<rparr>"

definition ex_removed :: node where
  "ex_removed = snd (RemovePeer ex_env ex_key ex_asked)"

lemma ex_ref: "peer_ref_or_key ex_env ex_asked ex_key = ex_key"
proof -
  have "nd_peers ex_connected = fmupd ex_key ''p'' fmempty"
    by (simp add: ex_connected_def adopt_def) (simp add: ex_node_def requestSubscriptions_def sendShareList_def send_to_def ex_cfg_def Default_def)
  then have "nd_peers ex_asked = fmupd ex_key ''p'' fmempty"
    by (simp add: ex_asked_def handleControl_def ex_share_id provisionShareForRequest_def ex_connected ex_find Let_def grantShare_def)
  moreover have "ex_key \<noteq> []" unfolding ex_key_def by code_simp
  ultimately show ?thesis by (simp add: peer_ref_or_key_def resolvePeerRef_def matchRef_def list_ex_iff)
qed

lemma validate_access_only:
  assumes "Config_Validate cfg = []" "cfg' = cfg\<lparr>co_Peers := ps, co_Subscriptions := us, co_Shares := ss\<rparr>"
    and "set us \<subseteq> set (co_Subscriptions cfg)"
    and "\<And>s'. s' \<in> set ss \<Longrightarrow> \<exists>s \<in> set (co_Shares cfg). \<exists>m. s' = s\<lparr>sh_Access := m\<rparr>"
  shows "Config_Validate cfg' = []"
proof -
  have "validate_share (0, s') = [] \<and> (\<forall>u \<in> set us. sh_Path s' \<noteq> [] \<longrightarrow> su_LocalPath u \<noteq> [] \<longrightarrow> \<not> pathsOverlap (sh_Path s') (su_LocalPath u))"
    if "s' \<in> set ss" for s'
  proof -
    from assms(4) [OF that] obtain s m where "s \<in> set (co_Shares cfg)" "s' = s\<lparr>sh_Access := m\<rparr>" by blast
    then show ?thesis using assms(1,3) by (auto simp: Config_Validate_ok validate_share_ok overlap_errs_ok)
  qed
  then show ?thesis using assms(1,2,3) by (auto simp: Config_Validate_ok overlap_errs_ok)
qed

lemma ex_removed: "RemovePeer ex_env ex_key ex_asked = (ok, ex_removed)"
proof -
  have f: "findPeerIndex ex_uncbor ex_cfg ex_key = Some 0" by (simp add: findPeerIndex_def ex_cfg_def ex_peerKey)
  then obtain new where e: "edit_RemovePeer ex_uncbor ex_key ex_cfg = Inr new"
      and new: "new = ex_cfg\<lparr>co_Peers := del_at 0 (co_Peers ex_cfg), co_Subscriptions := filter (\<lambda>s. su_Peer s \<noteq> ex_key) (co_Subscriptions ex_cfg),
        co_Shares := map (\<lambda>s. s\<lparr>sh_Access := fmdrop ex_key (sh_Access s)\<rparr>) (co_Shares ex_cfg)\<rparr>"
    by (simp add: edit_RemovePeer_def)
  have "Config_Validate new = []" by (rule validate_access_only [OF ex_cfg_valid new]) auto
  then have "fst (RemovePeer ex_env ex_key ex_asked) = ok"
    by (simp add: RemovePeer_def ex_ref mutateConfig_def ex_asked) (simp add: ex_env_def e Save_doc_def)
  then show ?thesis by (simp add: ex_removed_def prod_eq_iff)
qed

lemma ex_asked_ok: "node_ok ex_uncbor ex_asked"
  using node_run_ok [OF ex_node_run started_ok [OF ex_started]] .

theorem removed_peer_is_gone_witness:
  "fmlookup (nd_peers ex_removed) ex_key = None \<and> ex_key \<notin> set (nd_live ex_removed)"
proof -
  have e: "ne_um ex_env = ex_uncbor" by (simp add: ex_env_def)
  show ?thesis using removed_peer_is_gone [of ex_env ex_asked ex_key ex_removed, unfolded e ex_ref]
    by (simp add: ex_asked_ok ex_removed ex_asked(2) ex_find)
qed

text \<open>Recording a decision, when the document can be written.\<close>

lemma index_where_update: "index_where P xs = Some j \<Longrightarrow> P v \<Longrightarrow> index_where P (xs[j := v]) = Some j"
  by (induction xs arbitrary: j) (auto split: if_splits)

lemma listed:
  assumes "s \<in> set (co_Shares cfg)" "access_of s key \<noteq> []"
  shows "\<exists>e. e \<in> set (buildShareList cfg key) \<and> sl_ShareID e = sh_ID s \<and> sl_Access e = access_of s key"
proof -
  let ?e = "\<lparr>sl_ShareID = sh_ID s, sl_Name = sh_Name s, sl_Permission = sh_Permission s,
     sl_ApprovalRequired = sh_ApprovalRequired s, sl_Access = access_of s key\<rparr>"
  have "?e \<in> set (buildShareList cfg key)" unfolding buildShareList_def set_map using assms by (intro image_eqI [of _ _ s]) simp_all
  then show ?thesis by (intro exI [of _ ?e]) simp
qed

lemma record_access:
  assumes "findShareIndex cfg i = Some j" "Config_Validate cfg = []"
  obtains cfg' where "edit_recordAccess i key a cfg = Inr cfg'" "Config_Validate cfg' = []" "co_Peers cfg' = co_Peers cfg"
    "recorded_access cfg' i key = a"
    "a \<noteq> [] \<Longrightarrow> \<exists>e. e \<in> set (buildShareList cfg' key) \<and> sl_ShareID e = i \<and> sl_Access e = a"
proof -
  let ?s = "co_Shares cfg ! j"
  have j: "j < length (co_Shares cfg)" "sh_ID ?s = i" using index_where_Some [OF assms(1) [unfolded findShareIndex_def]] by auto
  show ?thesis
  proof (cases "fmlookup (sh_Access ?s) key = Some a")
    case True
    then have "edit_recordAccess i key a cfg = Inr cfg" "recorded_access cfg i key = a"
      using assms(1) by (simp_all add: edit_recordAccess_def recorded_access_def access_of_def Let_def)
    then show ?thesis using that [of cfg] assms(2) listed [OF nth_mem [OF j(1)], of key] j(2) True by (simp add: access_of_def)
  next
    case False
    let ?v = "?s\<lparr>sh_Access := fmupd key a (sh_Access ?s)\<rparr>"
    let ?c = "cfg\<lparr>co_Shares := (co_Shares cfg)[j := ?v]\<rparr>"
    have "Config_Validate ?c = []"
    proof (rule validate_access_only [OF assms(2)])
      show "?c = cfg\<lparr>co_Peers := co_Peers cfg, co_Subscriptions := co_Subscriptions cfg, co_Shares := (co_Shares cfg)[j := ?v]\<rparr>" by simp
      show "\<exists>s \<in> set (co_Shares cfg). \<exists>m. s' = s\<lparr>sh_Access := m\<rparr>" if "s' \<in> set ((co_Shares cfg)[j := ?v])" for s'
      proof (cases "s' = ?v")
        case True
        then show ?thesis using nth_mem [OF j(1)] by blast
      next
        case False
        then have "s' \<in> set (co_Shares cfg)" using set_update_cases [OF that] by simp
        moreover have "s' = s'\<lparr>sh_Access := sh_Access s'\<rparr>" by simp
        ultimately show ?thesis by blast
      qed
    qed simp
    moreover have "findShareIndex ?c i = Some j"
      using index_where_update [OF assms(1) [unfolded findShareIndex_def], of ?v] j by (simp add: findShareIndex_def)
    then have "recorded_access ?c i key = a" using j by (simp add: recorded_access_def access_of_def)
    moreover have "?v \<in> set (co_Shares ?c)" using j(1) by (simp add: set_update_memI)
    then have "\<exists>e. e \<in> set (buildShareList ?c key) \<and> sl_ShareID e = i \<and> sl_Access e = a" if "a \<noteq> []"
      using that listed [of ?v ?c key] j(2) by (simp add: access_of_def)
    ultimately show ?thesis using that [of ?c] False assms(1) by (simp add: edit_recordAccess_def Let_def)
  qed
qed

lemma run_job_records:
  assumes "edit_recordAccess i key a (nd_cfg n) = Inr cfg'" "Config_Validate cfg' = []" "ne_saves env"
  shows "nd_cfg (run_job env (key, i, a, cur) n) = cfg'"
proof -
  obtain r m where m: "mutateConfig env (edit_recordAccess i key a) n = (r, m)" by fastforce
  then have r: "r = ok" using assms by (auto simp: mutateConfig_def Save_doc_def split: if_splits)
  have c: "nd_cfg m = cfg'" using m r assms(1) by (cases rule: mutateConfig_cases) auto
  have "nd_cfg (finishSubscribeRequest env (key, i, a, cur) n) = cfg'"
    by (auto simp: finishSubscribeRequest_def m r c Let_def startSyncing_def sendAccessUpdate_def send_to_def)
  then show ?thesis by (auto simp: run_job_def Let_def)
qed

text \<open>
  C39. A request in flight undoes the removal of its peer. If a subscribe request of a peer
  that has access is still waiting to be recorded when the peer is removed, recording it
  puts the grant back: the peer is not configured any more, yet the share list for its key
  says granted, which is what it would get, without a new approval, when it is added again.
  \<open>RemovePeer\<close> is documented to make a peer start from nothing.
\<close>

theorem late_answer_restores_access:
  assumes "node_ok (ne_um env) n" "ids_apart (nd_cfg n)" "RemovePeer env ref n = (ok, n1)"
    and "(peer_ref_or_key env n ref, sh_ID s, AccessGranted, cur) \<in> set (nd_jobs n1)" "s \<in> set (co_Shares (nd_cfg n1))" "ne_saves env"
  defines "key \<equiv> peer_ref_or_key env n ref"
  defines "n2 \<equiv> run_job env (key, sh_ID s, AccessGranted, cur) n1"
  shows "key \<notin> set (peerKeys (ne_um env) (nd_cfg n2)) \<and> recorded_access (nd_cfg n1) (sh_ID s) key = [] \<and>
    (\<exists>e. e \<in> set (buildShareList (nd_cfg n2) key) \<and> sl_ShareID e = sh_ID s \<and> sl_Access e = AccessGranted)"
proof -
  have k: "cfg_ok (ne_um env) (nd_cfg n)" using assms(1) by (simp add: node_ok_def)
  note r = RemovePeer_cfg [OF assms(3) k, folded key_def]
  have sv: "saved (ne_um env) n1"
    using edits_saved [OF mutations_edit(2) [OF refl assms(3)]] assms(1) by (simp add: saved_def node_ok_def)
  then have v: "Config_Validate (nd_cfg n1) = []" by (auto simp: saved_def Load_doc_def Let_def split: if_splits)
  obtain j where j: "findShareIndex (nd_cfg n1) (sh_ID s) = Some j"
    using assms(5) index_where_None [of "\<lambda>t. sh_ID t = sh_ID s"] unfolding findShareIndex_def by (metis not_None_eq)
  obtain cfg' where c: "edit_recordAccess (sh_ID s) key AccessGranted (nd_cfg n1) = Inr cfg'" "Config_Validate cfg' = []"
      "co_Peers cfg' = co_Peers (nd_cfg n1)"
      "AccessGranted \<noteq> [] \<Longrightarrow> \<exists>e. e \<in> set (buildShareList cfg' key) \<and> sl_ShareID e = sh_ID s \<and> sl_Access e = AccessGranted"
    using record_access [OF j v, of key AccessGranted] by blast
  have n2: "nd_cfg n2 = cfg'" unfolding n2_def by (rule run_job_records [OF c(1,2) assms(6)])
  have "access_of s key = []" using r(4) [OF assms(5)] by (simp add: access_of_def)
  then have "recorded_access (nd_cfg n1) (sh_ID s) key = []"
    using recorded_access_share [OF _ assms(5)] sv by (auto simp: saved_def)
  then show ?thesis using r(2) c(3,4) by (simp add: n2 peerKeys_def AccessGranted_def)
qed

lemma mutateConfig_decisions: "mutateConfig env f n = (r, n') \<Longrightarrow> decisions n' = decisions n"
proof -
  have "decisions (applyConfigChange env old new m) = decisions m" for old new m
    using core_applyConfigChange [of env old new m] by (simp add: core_def)
  moreover have d: "decisions (n\<lparr>nd_cfg := x, nd_disk := y\<rparr>) = decisions n" for x y by (simp add: decisions_def)
  ultimately show "mutateConfig env f n = (r, n') \<Longrightarrow> decisions n' = decisions n"
    by (auto simp: mutateConfig_def d split: sum.splits if_splits)
qed

theorem late_answer_restores_access_witness:
  "\<exists>cur. ex_key \<notin> set (peerKeys ex_uncbor (nd_cfg (run_job ex_env (ex_key, sh_ID ex_share, AccessGranted, cur) ex_removed))) \<and>
     recorded_access (nd_cfg ex_removed) (sh_ID ex_share) ex_key = []"
proof -
  have e: "ne_um ex_env = ex_uncbor" by (simp add: ex_env_def)
  have "decisions ex_removed = decisions ex_asked"
    using ex_removed mutateConfig_decisions by (auto simp: RemovePeer_def)
  then have "(ex_key, sh_ID ex_share, AccessGranted) \<in> decisions ex_removed" by (simp add: decisions_def ex_asked)
  then obtain cur where cur: "(ex_key, sh_ID ex_share, AccessGranted, cur) \<in> set (nd_jobs ex_removed)" by (auto simp: decisions_def)
  have "cfg_ok (ne_um ex_env) (nd_cfg ex_asked)" using ex_asked_ok by (simp add: node_ok_def e)
  from RemovePeer_cfg(5) [OF ex_removed this] have "sh_ID ex_share \<in> sh_ID ` set (co_Shares (nd_cfg ex_removed))"
    by (simp add: ex_asked ex_cfg_def)
  then obtain s where s: "s \<in> set (co_Shares (nd_cfg ex_removed))" "sh_ID s = sh_ID ex_share" by auto
  have "ne_saves ex_env" by (simp add: ex_env_def)
  then show ?thesis using late_answer_restores_access [of ex_env ex_asked ex_key ex_removed s cur, unfolded e ex_ref] s cur
    by (auto simp: ex_asked_ok ex_removed ex_asked(2) ex_find)
qed

text \<open>
  C40. Revoking a peer's access to an open share does not last. On a share that needs no
  approval, the next subscribe request of a peer whose access was revoked, or denied, puts
  the share on its session at once, and the answer, when it can be saved, records it as
  granted again. Peers ask on every connection; the package comment says that a fresh connection never
  brings back a revoked share.
\<close>

theorem open_share_forgets_revocation:
  assumes "cfg_ok um (nd_cfg n)" "Config_Validate (nd_cfg n) = []" "s \<in> set (co_Shares (nd_cfg n))" "\<not> sh_ApprovalRequired s"
    and "access_of s key \<in> {AccessRevoked, AccessDenied}" "key \<in> set (nd_live n)"
    and "ValidateMessage (MSubscribeRequest (sh_ID s)) = ok" "ne_saves env"
  shows "\<exists>n'. handleControl key (MSubscribeRequest (sh_ID s)) n = (ControlHandled, n') \<and>
    fmlookup (nd_active n') (key, sh_ID s) = Some (sh_Path s, offeredDirection s) \<and>
    (key, sh_ID s, AccessGranted, True) \<in> set (nd_jobs n') \<and>
    recorded_access (nd_cfg (run_job env (key, sh_ID s, AccessGranted, True) n')) (sh_ID s) key = AccessGranted"
proof -
  obtain j where j: "findShareIndex (nd_cfg n) (sh_ID s) = Some j"
    using assms(3) index_where_None [of "\<lambda>t. sh_ID t = sh_ID s"] unfolding findShareIndex_def by (metis not_None_eq)
  then have "co_Shares (nd_cfg n) ! j \<in> set (co_Shares (nd_cfg n))" "sh_ID (co_Shares (nd_cfg n) ! j) = sh_ID s"
    using index_where_Some [OF j [unfolded findShareIndex_def]] by auto
  then have s: "co_Shares (nd_cfg n) ! j = s" using share_by_id_mem [OF assms(1)] assms(3) by (metis option.inject)
  let ?n = "(grantShare key (sh_ID s) (sh_Path s) (offeredDirection s) n)\<lparr>nd_jobs := nd_jobs n @ [(key, sh_ID s, AccessGranted, True)]\<rparr>"
  have c: "nd_cfg ?n = nd_cfg n" by (simp add: grantShare_def)
  have "handleControl key (MSubscribeRequest (sh_ID s)) n = (ControlHandled, ?n)"
    using assms(4,7) by (simp add: handleControl_def provisionShareForRequest_def j s request_access_def Let_def)
      (simp add: grantShare_def)
  moreover have "fmlookup (nd_active ?n) (key, sh_ID s) = Some (sh_Path s, offeredDirection s)"
    using assms(6) by (simp add: grantShare_def)
  moreover obtain cfg' where "edit_recordAccess (sh_ID s) key AccessGranted (nd_cfg n) = Inr cfg'" "Config_Validate cfg' = []"
      "recorded_access cfg' (sh_ID s) key = AccessGranted"
    using record_access [OF j assms(2), of key AccessGranted] by blast
  then have "recorded_access (nd_cfg (run_job env (key, sh_ID s, AccessGranted, True) ?n)) (sh_ID s) key = AccessGranted"
    using run_job_records [of "sh_ID s" key AccessGranted ?n cfg' env True] assms(8) c by simp
  ultimately show ?thesis by (intro exI [of _ ?n]) simp
qed

definition ex_revoked :: Share where
  "ex_revoked = ex_share\<lparr>sh_Access := fmupd ex_key AccessRevoked fmempty\<rparr>"

theorem open_share_forgets_revocation_witness:
  "\<exists>n'. handleControl ex_key (MSubscribeRequest (sh_ID ex_revoked)) (ex_connected\<lparr>nd_cfg := ex_cfg\<lparr>co_Shares := [ex_revoked]\<rparr>\<rparr>) =
     (ControlHandled, n') \<and>
     recorded_access (nd_cfg (run_job ex_env (ex_key, sh_ID ex_revoked, AccessGranted, True) n')) (sh_ID ex_revoked) ex_key = AccessGranted"
proof -
  let ?n = "ex_connected\<lparr>nd_cfg := ex_cfg\<lparr>co_Shares := [ex_revoked]\<rparr>\<rparr>"
  have "cfg_ok ex_uncbor ex_cfg" using ex_started by (simp add: started_def ex_node_def)
  then have "cfg_ok ex_uncbor (nd_cfg ?n)" by (simp add: cfg_ok_def)
  moreover have "Config_Validate (nd_cfg ?n) = []"
    by (rule validate_access_only [OF ex_cfg_valid, where ps = "co_Peers ex_cfg" and us = "co_Subscriptions ex_cfg" and ss = "[ex_revoked]"])
      (auto simp: ex_cfg_def ex_revoked_def)
  moreover have "ValidateMessage (MSubscribeRequest (sh_ID ex_revoked)) = ok" using ex_share_id by (simp add: ex_revoked_def)
  ultimately show ?thesis
    using open_share_forgets_revocation [of ex_uncbor ?n ex_revoked ex_key ex_env] ex_connected(1)
    by (auto simp: ex_revoked_def ex_share_def access_of_def ex_env_def)
qed

end
