(* ===== verification/Spec2Isabelle.thy ===== *)
theory Spec2Isabelle
  imports ShareScan SessionWriter Handshake Keepalive TrashRestore IndexExchange FileTransfer SyncPass NodeEffects
begin

text \<open>
  A verification of syncat, a daemon that keeps folders of several machines in sync. This
  theory imports the whole development and holds what spans its parts.

  \<^bold>\<open>The program.\<close> A node offers folders (shares) to peers and subscribes to folders of
  theirs. A scanner compares a folder with an index database and records changes as rows with version
  vectors; every change of a row also goes to a journal. Two nodes that have authenticated
  each other run a session: one writer goroutine feeds the connection, one read loop
  dispatches frames. A session sends the journal, or a snapshot of the index, to the peer, which
  keeps it as a mirror. A reconcile pass compares the own rows with the mirror and decides
  an action per path; a guard holds passes that would delete too much; the applier pulls
  file content from the peer and changes the disk, moving what it replaces to a trash. The
  node around this keeps the configuration, decides which peer gets which share, and applies
  every configuration change to the running sessions.

  \<^bold>\<open>Which theory models what\<close> (paths are below \<^verbatim>\<open>src/internal\<close>):

  \<^item> Go itself: \<^verbatim>\<open>Prelude\<close> (strings, errors, maps, shared lemmas), \<^verbatim>\<open>GoText\<close>, \<^verbatim>\<open>GoGlob\<close>, \<^verbatim>\<open>GoTime\<close>.

  \<^item> \<^verbatim>\<open>protocol\<close>: \<^verbatim>\<open>Wire\<close> (messages and \<open>ValidateMessage\<close>), \<^verbatim>\<open>Frame\<close> (framing), \<^verbatim>\<open>Handshake\<close>,
    \<^verbatim>\<open>Keepalive\<close>, \<^verbatim>\<open>SessionWriter\<close> (\<^verbatim>\<open>stream.go\<close>).

  \<^item> \<^verbatim>\<open>config\<close>: \<^verbatim>\<open>Config\<close> (schema, validation, documents), \<^verbatim>\<open>Keys\<close> (tokens and keys).

  \<^item> \<^verbatim>\<open>index\<close>: \<^verbatim>\<open>IndexStore\<close> (the database), \<^verbatim>\<open>Replication\<close> (what its journal means to a
    mirror), \<^verbatim>\<open>Ignore\<close>, \<^verbatim>\<open>Scanner\<close>.

  \<^item> \<^verbatim>\<open>sync\<close>: \<^verbatim>\<open>VersionVector\<close> and \<^verbatim>\<open>Reconcile\<close> (\<^verbatim>\<open>reconcile.go\<close>), \<^verbatim>\<open>SharePath\<close> (\<^verbatim>\<open>path.go\<close>), \<^verbatim>\<open>Disk\<close> (the file
    system calls), \<^verbatim>\<open>Trash\<close> and \<^verbatim>\<open>TrashRestore\<close> (\<^verbatim>\<open>trash.go\<close>), \<^verbatim>\<open>Apply\<close> (\<^verbatim>\<open>apply.go\<close> and the receiving
    half of \<^verbatim>\<open>transfer.go\<close>), \<^verbatim>\<open>FileTransfer\<close> (the serving half and the tables of transfers),
    \<^verbatim>\<open>IndexQueue\<close>, \<^verbatim>\<open>IndexSync\<close> and \<^verbatim>\<open>IndexExchange\<close> (\<^verbatim>\<open>dispatch.go\<close> and the index half of
    \<^verbatim>\<open>session.go\<close>), \<^verbatim>\<open>SyncPass\<close> (the reconcile pass of \<^verbatim>\<open>session.go\<close>).

  \<^item> \<^verbatim>\<open>hold\<close>: \<^verbatim>\<open>HoldGuard\<close>. \<^verbatim>\<open>core\<close>: \<^verbatim>\<open>ShareScan\<close> (\<^verbatim>\<open>shares.go\<close>), \<^verbatim>\<open>Mutations\<close> (\<^verbatim>\<open>mutations.go\<close>,
    \<^verbatim>\<open>approvals.go\<close>, \<^verbatim>\<open>resolve.go\<close>), \<^verbatim>\<open>NodeEffects\<close> (\<^verbatim>\<open>effects.go\<close>, \<^verbatim>\<open>access.go\<close>, the share set of
    \<^verbatim>\<open>peer.go\<close>); the node's side of the trash is in \<^verbatim>\<open>TrashRestore\<close>.

  \<^bold>\<open>How the code is represented.\<close> A Go struct is a record whose fields carry a short prefix, a method
  a function from the state to its result and the new state, with the source's name. A Go
  string is a list of bytes, a map a finite map, an error an option or the left side of a sum. Counters that can
  wrap are 64-bit words. Goroutines that interleave are step relations (\<open>stream_step\<close>,
  \<open>queue_step\<close>, \<open>gate_step\<close>, \<open>session_step\<close>, \<open>transfer_step\<close>, \<open>node_step\<close>), one step for what
  runs under one lock. Whatever is outside the repository is an argument: the CBOR codec,
  Ed25519 and SHA-256, the clock, random ids, the answers of the file system and of a peer,
  and which calls fail. Where a proof needs something of such an argument it is a hypothesis
  (the codec is self-delimiting, signatures cannot be forged) and the witness shows it can
  hold. Loops are structural recursion over what they consume, or terminate by a measure;
  the keepalive loop, which may run forever, is a partial function whose result for a silent
  peer is proved to exist. The one bound written into a loop, the hundred attempts of
  \<open>createTempIn\<close>, is the source's own.

  \<^bold>\<open>What is proved.\<close> Each theory states its results at its head. The main lines:

  \<^item> No data is lost: a scan only tombstones what it saw to be absent, a pass the guard holds changes
    nothing, and a pass keeps every byte string of the share in the share or its trash, in
    whatever order its workers run and whatever fails; a restore likewise.

  \<^item> Nodes agree: mirrors follow the sender's journal, one request and its answer bring
    any receiver up to date, conflicts are resolved the same way on both sides, and an
    action that succeeded settles its path.

  \<^item> Nothing crosses a boundary: paths stay below the share, peers' frames touch only
    their own mirror of shares that admit them, only shared and unignored content is
    served, a pulled file is the one that was advertised, a handshake authenticates, and
    what is active on a session is what the configuration allows.

  \<^item> Resources are bounded and queues live: lanes, transfers, index work, keepalive.

  \<^item> Some theorems show that the code does otherwise than it documents; each says so. Among them: an access grant
    that survives the removal of its peer, a revocation that an open share forgets, a
    journal hole that stalls an exchange, an error message too long to be heard, a restored file reported as
    an edit, and version vectors that outgrow the wire limit.

  Interfaces are locales: \<open>version_algebra\<close> (what the reconciler needs of version vectors),
  \<open>path_guard\<close> (what a path check must promise), \<open>replica_link\<close> (what the index exchange
  needs of the database) and \<open>kept_by_steps\<close> (an invariant of a step relation); each is interpreted on the model's own definitions.

  \<^bold>\<open>What is not modelled.\<close> The transport adapters, the HTTP API, the command line, the web UI
  and the status reports have no logic of their own or only call out. The file system
  watcher, the supervisor that dials peers, and the life of a session's goroutines depend
  on timers and sockets; what they trigger is modelled. SQLite and the operating system are
  trusted to do what their calls are documented to do or to fail. Log lines, debug output and most
  counters are left out.
\<close>

section \<open>Rows a pass decides on are rows a peer accepts\<close>

definition canonical_id :: "string \<Rightarrow> bool" where
  "canonical_id n \<longleftrightarrow> length n = 16 \<and> list_all lower_hex_rune (string_runes n)"

lemma validateVersion_ok:
  "validateVersion v = ok \<longleftrightarrow> fcard (fmdom v) \<le> maxVersionEntries \<and> (\<forall>n. n |\<in>| fmdom v \<longrightarrow> canonical_id n)"
  by (auto simp: validateVersion_def canonical_id_def)

lemma validateFileInfo_version:
  assumes "validateFileInfo f = ok" "\<forall>n. n |\<in>| fmdom v \<longrightarrow> canonical_id n" "fi_RelPath f = p"
  shows "validateFileInfo (f\<lparr>fi_Version := v, fi_RelPath := p\<rparr>) = ok \<longleftrightarrow> fcard (fmdom v) \<le> maxVersionEntries"
  using assms by (auto simp: validateFileInfo_def validateVersion_ok split: option.splits if_splits)

lemma validateFileInfo_ids: "validateFileInfo f = ok \<Longrightarrow> n |\<in>| fmdom (fi_Version f) \<Longrightarrow> canonical_id n"
  by (auto simp: validateFileInfo_def validateVersion_ok split: option.splits if_splits)

lemma validateFileInfo_limit: "validateFileInfo f = ok \<Longrightarrow> fcard (fmdom (fi_Version f)) \<le> maxVersionEntries"
  by (auto simp: validateFileInfo_def validateVersion_ok split: option.splits if_splits)

lemma Merge_ids: "n |\<in>| fmdom (Merge a b) \<Longrightarrow> n |\<in>| fmdom a \<or> n |\<in>| fmdom b"
  by (auto simp: Merge_def)

lemma Bump_ids: "n |\<in>| fmdom (Bump v m) \<Longrightarrow> n = m \<or> n |\<in>| fmdom v"
  by (auto simp: Bump_def)

lemma reconcileConcurrent_valid:
  fixes dir now
  assumes l: "validateFileInfo l = ok" "fi_RelPath l = p" and r: "validateFileInfo r = ok" "fi_RelPath r = p"
    and n: "canonical_id n"
  defines "f \<equiv> ac_Resolved (reconcileConcurrent p l r n dir now)"
  shows "fi_RelPath f = p \<and> (validateFileInfo f = ok \<longleftrightarrow> fcard (fmdom (fi_Version f)) \<le> maxVersionEntries)"
proof -
  let ?m = "Merge (fi_Version l) (fi_Version r)"
  have m: "\<forall>k. k |\<in>| fmdom ?m \<longrightarrow> canonical_id k"
    using Merge_ids validateFileInfo_ids l(1) r(1) by blast
  have b: "\<forall>k. k |\<in>| fmdom (Bump ?m n) \<longrightarrow> canonical_id k" using Bump_ids m n by blast
  have "f \<in> {r, l\<lparr>fi_Version := Bump ?m n, fi_RelPath := p\<rparr>, r\<lparr>fi_Version := Bump ?m n, fi_RelPath := p\<rparr>,
             l\<lparr>fi_Version := ?m, fi_RelPath := p\<rparr>}"
    by (auto simp: f_def reconcileConcurrent_def reconcileIdenticalContent_def Let_def)
  then show ?thesis
    using validateFileInfo_version [OF l(1) b l(2)] validateFileInfo_version [OF r(1) b r(2)]
      validateFileInfo_version [OF l(1) m l(2)] r validateFileInfo_limit [OF r(1)] by auto
qed

lemma reconcileOne_resolved:
  assumes "ac_Kind (reconcileOne p l r n dir now) \<noteq> ActionNone"
    and "ac_Kind (reconcileOne p l r n dir now) = ActionLocallyModified \<longrightarrow>
         ac_Source (reconcileOne p l r n dir now) = SourceRemote"
  shows "\<exists>f. r = Some f \<and> ac_RelPath (reconcileOne p l r n dir now) = p \<and>
           (ac_Resolved (reconcileOne p l r n dir now) = f \<or>
            (\<exists>k. l = Some k \<and> reconcileOne p l r n dir now = reconcileConcurrent p k f n dir now))"
proof -
  note nn = reconcileOne_not_none(1,2) [OF assms(1)]
  obtain f where f: "r = Some f"
    using assms nn by (cases r) (auto simp: reconcileOne_def zero_Action_def split: if_splits)
  have path: "ac_RelPath (reconcileOne p l r n dir now) = p" by (rule reconcileOne_RelPath)
  show ?thesis
    using assms nn path unfolding f
    by (auto simp: reconcileOne_def zero_Action_def split: option.splits if_splits)
qed

text \<open>
  C30. The rows a pass decides on are well formed. When every row of both sides passes the
  wire validation and this node's id is canonical, each row that reconciliation resolves to
  carries its action's path and passes the same validation exactly when its version vector
  has at most 64 entries. Nothing keeps the vectors under that limit: a valid vector of 64
  entries that this node's local edit bumps for the first time is no longer accepted.
\<close>

theorem reconciled_rows_valid:
  assumes "\<forall>f \<in> set local \<union> set remote. validateFileInfo f = ok" "canonical_id nodeID"
    and "a \<in> set (Reconcile local remote nodeID dir now ignore)" "ac_Kind a \<noteq> ActionNone"
    and "ac_Kind a = ActionLocallyModified \<longrightarrow> ac_Source a = SourceRemote"
  shows "fi_RelPath (ac_Resolved a) = ac_RelPath a \<and>
         (validateFileInfo (ac_Resolved a) = ok \<longleftrightarrow> fcard (fmdom (fi_Version (ac_Resolved a))) \<le> maxVersionEntries) \<and>
         (validateVersion v = ok \<longrightarrow> fcard (fmdom v) = maxVersionEntries \<longrightarrow> nodeID |\<notin>| fmdom v \<longrightarrow>
            validateVersion (Bump v nodeID) \<noteq> ok)"
proof -
  obtain p where a: "a = reconcilePath (indexByPath local) (indexByPath remote) nodeID dir now ignore p"
    using assms(3) by (auto simp: Reconcile_def Let_def)
  let ?l = "fmlookup (indexByPath local) p" and ?r = "fmlookup (indexByPath remote) p"
  have one: "a = reconcileOne p ?l ?r nodeID dir now"
    using assms(4) unfolding a reconcilePath_def Let_def by (auto split: if_splits)
  obtain r where r: "?r = Some r" "ac_RelPath a = p"
    and or: "ac_Resolved a = r \<or> (\<exists>l. ?l = Some l \<and> a = reconcileConcurrent p l r nodeID dir now)"
    using reconcileOne_resolved assms(4,5) unfolding one by blast
  have rv: "validateFileInfo r = ok" "fi_RelPath r = p" using indexByPath_path [OF r(1)] assms(1) by auto
  have v: "validateVersion v = ok \<longrightarrow> fcard (fmdom v) = maxVersionEntries \<longrightarrow> nodeID |\<notin>| fmdom v \<longrightarrow>
            validateVersion (Bump v nodeID) \<noteq> ok"
    by (auto simp: validateVersion_ok Bump_def fcard_finsert_disjoint)
  from or show ?thesis
  proof
    assume "ac_Resolved a = r"
    then show ?thesis using rv r(2) validateFileInfo_limit [OF rv(1)] v by simp
  next
    assume "\<exists>l. ?l = Some l \<and> a = reconcileConcurrent p l r nodeID dir now"
    then obtain l where l: "?l = Some l" "a = reconcileConcurrent p l r nodeID dir now" by blast
    have "validateFileInfo l = ok" "fi_RelPath l = p" using indexByPath_path [OF l(1)] assms(1) by auto
    from reconcileConcurrent_valid [OF this rv assms(2)] show ?thesis using v l(2) r(2) by simp
  qed
qed


theorem reconciled_rows_valid_witness:
  "let r = ex_file ''docs/a.txt'' 1 5 ex_va;
       as = Reconcile [] [r] ''bbbbbbbbbbbbbbbb'' (DirectionFor '''' ''mirror'') 0 None in
   validateFileInfo r = ok \<and> canonical_id ''bbbbbbbbbbbbbbbb'' \<and> hd as \<in> set as \<and>
   fi_RelPath (ac_Resolved (hd as)) = ac_RelPath (hd as)"
proof -
  let ?r = "ex_file ''docs/a.txt'' 1 5 ex_va" and ?n = "''bbbbbbbbbbbbbbbb''"
  let ?as = "Reconcile [] [?r] ?n (DirectionFor '''' ''mirror'') 0 None"
  have k: "ac_Kind (hd ?as) = ActionPull" and m: "hd ?as \<in> set ?as"
    by (simp_all add: Reconcile_def indexByPath_def Let_def ex_file_def sorted_list_of_fset.rep_eq
        reconcilePath_def reconcileOne_def DirectionFor_def PermissionReadOnly_def ModeReceiveOnly_def
        split: option.splits) code_simp
  have v: "validateFileInfo ?r = ok" "canonical_id ?n" by code_simp+
  show ?thesis
    using k m v reconciled_rows_valid [OF _ v(2) m] by (simp add: Let_def)
qed

end
